(* ===== verification/Prelude.thy ===== *)
theory Prelude
  imports Main "HOL-Library.Word"
begin

unbundle bit_operations_syntax

text \<open>
  Shared vocabulary of the development: type names, the character classes and number
  scanners of the C library (\<open>strtol\<close>, \<open>atoi\<close>, the \<open>%Nu\<close> conversion of \<open>sscanf\<close>),
  and the generic facts the components use.

  A C string is a \<^typ>\<open>string\<close> without its terminating NUL; a NULL pointer is \<open>None\<close>.
  An \<open>int\<close> or \<open>long\<close> that the code never overflows is an \<^typ>\<open>int\<close>; where the width
  matters the value is a word. A function whose execution may be undefined (in the sense
  of the C standard) or may not return has one more option layer, whose \<open>None\<close> reads
  ``no defined result''.
\<close>

type_synonym u32 = "32 word"
type_synonym byte = "8 word"

named_theorems cstr_defs \<open>definitions of the C string scanners\<close>
named_theorems ctype_defs \<open>definitions of the character classes\<close>

subsection \<open>Character classes of the C locale\<close>

abbreviation ccode :: "char \<Rightarrow> nat" where
  "ccode c \<equiv> of_char c"

definition isdigit :: "char \<Rightarrow> bool" where
  [ctype_defs]: "isdigit c \<longleftrightarrow> 48 \<le> ccode c \<and> ccode c \<le> 57"

definition isblank :: "char \<Rightarrow> bool" where
  [ctype_defs]: "isblank c \<longleftrightarrow> ccode c = 32 \<or> ccode c = 9"

definition isspace :: "char \<Rightarrow> bool" where
  [ctype_defs]: "isspace c \<longleftrightarrow> ccode c = 32 \<or> (9 \<le> ccode c \<and> ccode c \<le> 13)"

definition isalpha :: "char \<Rightarrow> bool" where
  [ctype_defs]: "isalpha c \<longleftrightarrow>
     (65 \<le> ccode c \<and> ccode c \<le> 90) \<or> (97 \<le> ccode c \<and> ccode c \<le> 122)"

definition isalnum :: "char \<Rightarrow> bool" where
  [ctype_defs]: "isalnum c \<longleftrightarrow> isalpha c \<or> isdigit c"

definition isxdigit :: "char \<Rightarrow> bool" where
  [ctype_defs]: "isxdigit c \<longleftrightarrow> isdigit c
     \<or> (65 \<le> ccode c \<and> ccode c \<le> 70) \<or> (97 \<le> ccode c \<and> ccode c \<le> 102)"

definition tolower :: "char \<Rightarrow> char" where
  [ctype_defs]: "tolower c =
     (if 65 \<le> ccode c \<and> ccode c \<le> 90 then char_of (ccode c + 32) else c)"

text \<open>\<open>strcasecmp (a, b) == 0\<close>.\<close>

definition strcaseeq :: "string \<Rightarrow> string \<Rightarrow> bool" where
  "strcaseeq a b \<longleftrightarrow> map tolower a = map tolower b"

subsection \<open>Characters and separators\<close>

text \<open>
  The byte at offset \<open>i\<close> of a string, NUL at its end. The code reads at most one position
  past the last character.
\<close>

definition char_at :: "string \<Rightarrow> nat \<Rightarrow> char" where
  [cstr_defs]: "char_at s i = (if i < length s then s ! i else CHR 0x00)"

text \<open>
  The idiom \<open>p = strchr (s, c); *p = 0; p++\<close>: the text before the first \<open>c\<close> and the text
  after it, \<open>None\<close> where \<open>strchr\<close> returns NULL.
\<close>

definition str_cut :: "char \<Rightarrow> string \<Rightarrow> (string \<times> string) option" where
  [cstr_defs]: "str_cut c s = (case dropWhile (\<lambda>x. x \<noteq> c) s of
       [] \<Rightarrow> None
     | _ # r \<Rightarrow> Some (takeWhile (\<lambda>x. x \<noteq> c) s, r))"

text \<open>The loop that turns every newline into a comma.\<close>

definition newlines_to_commas :: "string \<Rightarrow> string" where
  [cstr_defs]: "newlines_to_commas s =
     map (\<lambda>c. if c = CHR 0x0A then CHR '','' else c) s"

lemma str_cut_None: "str_cut c s = None \<longleftrightarrow> c \<notin> set s"
proof -
  have "dropWhile (\<lambda>x. x \<noteq> c) s = [] \<longleftrightarrow> c \<notin> set s"
    by (induction s) auto
  then show ?thesis
    by (cases "dropWhile (\<lambda>x. x \<noteq> c) s") (simp_all add: str_cut_def del: dropWhile_eq_Nil_conv)
qed

lemma str_cut_Some: "str_cut c s = Some (a, b) \<longleftrightarrow> s = a @ c # b \<and> c \<notin> set a"
proof
  assume "str_cut c s = Some (a, b)"
  then obtain x where d: "dropWhile (\<lambda>x. x \<noteq> c) s = x # b"
    and a: "a = takeWhile (\<lambda>x. x \<noteq> c) s"
    by (auto simp: str_cut_def split: list.splits)
  then have "x = c" by (simp add: dropWhile_eq_Cons_conv)
  with d a show "s = a @ c # b \<and> c \<notin> set a"
    by (metis (mono_tags, lifting) set_takeWhileD takeWhile_dropWhile_id)
next
  assume "s = a @ c # b \<and> c \<notin> set a"
  then have "takeWhile (\<lambda>x. x \<noteq> c) s = a" "dropWhile (\<lambda>x. x \<noteq> c) s = c # b"
    by (auto simp: takeWhile_tail dropWhile_append3)
  then show "str_cut c s = Some (a, b)" by (simp add: str_cut_def)
qed

subsection \<open>Number scanners of the C library\<close>

definition digit_val :: "char \<Rightarrow> nat" where
  [cstr_defs]: "digit_val c = (let n = ccode c in
     if 48 \<le> n \<and> n \<le> 57 then n - 48
     else if 97 \<le> n \<and> n \<le> 122 then n - 87
     else if 65 \<le> n \<and> n \<le> 90 then n - 55
     else 36)"

abbreviation is_digit_in :: "nat \<Rightarrow> char \<Rightarrow> bool" where
  "is_digit_in base c \<equiv> digit_val c < base"

definition num_of :: "nat \<Rightarrow> string \<Rightarrow> nat" where
  [cstr_defs]: "num_of base ds = foldl (\<lambda>a c. a * base + digit_val c) 0 ds"

definition LONG_MAX :: int where [cstr_defs]: "LONG_MAX = 2 ^ 63 - 1"
definition LONG_MIN :: int where [cstr_defs]: "LONG_MIN = - (2 ^ 63)"

text \<open>An optional sign: whether it is a minus, and the rest.\<close>

fun skip_sign :: "string \<Rightarrow> bool \<times> string" where
  "skip_sign [] = (False, [])"
| "skip_sign (c # s) =
     (if c = CHR ''-'' then (True, s) else if c = CHR ''+'' then (False, s)
      else (False, c # s))"

text \<open>The prefix \<open>0x\<close> that base 16 accepts before a hexadecimal digit.\<close>

fun skip_0x :: "nat \<Rightarrow> string \<Rightarrow> string" where
  "skip_0x base (z # x # d # s) =
     (if base = 16 \<and> z = CHR ''0'' \<and> (x = CHR ''x'' \<or> x = CHR ''X'') \<and> is_digit_in 16 d
      then d # s else z # x # d # s)"
| "skip_0x base s = s"

text \<open>
  \<open>strtol (s, &end, base)\<close> for a 64-bit \<open>long\<close>: the value, the text at \<open>end\<close>, and whether
  \<open>errno\<close> was set to ERANGE. Without a digit the value is 0 and \<open>end\<close> is \<open>s\<close>.
\<close>

definition strtol :: "nat \<Rightarrow> string \<Rightarrow> int \<times> string \<times> bool" where
  "strtol base s =
     (let (neg, t) = skip_sign (dropWhile isspace s);
          u = skip_0x base t;
          ds = takeWhile (is_digit_in base) u;
          rest = dropWhile (is_digit_in base) u;
          v = (if neg then - int (num_of base ds) else int (num_of base ds))
      in if ds = [] then (0, s, False)
         else if v > LONG_MAX then (LONG_MAX, rest, True)
         else if v < LONG_MIN then (LONG_MIN, rest, True)
         else (v, rest, False))"

definition to_int32 :: "int \<Rightarrow> int" where
  "to_int32 v = signed_take_bit 31 v"

text \<open>\<open>atoi (s)\<close> is \<open>(int) strtol (s, NULL, 10)\<close>.\<close>

definition atoi :: "string \<Rightarrow> int" where
  "atoi s = to_int32 (fst (strtol 10 s))"

text \<open>The conversion \<open>%Nu\<close> of \<open>sscanf\<close>: at most \<open>w\<close> characters after white space.\<close>

definition scan_u :: "nat \<Rightarrow> string \<Rightarrow> u32 option" where
  "scan_u w s =
     (let f = take w (dropWhile isspace s);
          (neg, t) = skip_sign f;
          ds = takeWhile (is_digit_in 10) t;
          v = int (num_of 10 ds)
      in if ds = [] then None else Some (word_of_int (if neg then - v else v)))"

text \<open>The format \<open>%*[set]/%Nu\<close>.\<close>

definition sscanf_block :: "(char \<Rightarrow> bool) \<Rightarrow> nat \<Rightarrow> string \<Rightarrow> u32 option" where
  "sscanf_block P w s =
     (if takeWhile P s = [] then None
      else case dropWhile P s of
             c # r \<Rightarrow> if c = CHR ''/'' then scan_u w r else None
           | [] \<Rightarrow> None)"

subsection \<open>Facts about the scanners\<close>

lemma to_int32_id: "- (2 ^ 31) \<le> v \<Longrightarrow> v < 2 ^ 31 \<Longrightarrow> to_int32 v = v"
  by (simp add: to_int32_def signed_take_bit_int_eq_self_iff)

lemma isblank_isspace: "isblank c \<Longrightarrow> isspace c"
  by (auto simp: ctype_defs)

lemma dash_classes [simp]:
  "\<not> isspace CHR ''-''" "\<not> isblank CHR ''-''" "\<not> isdigit CHR ''-''"
  "\<not> is_digit_in 10 CHR ''-''"
  by (simp_all add: ctype_defs digit_val_def)

lemma dropWhile_eq_Cons:
  "dropWhile P xs = y # ys \<Longrightarrow> \<not> P y \<and> xs = takeWhile P xs @ y # ys"
  by (metis dropWhile_eq_Cons_conv takeWhile_dropWhile_id)

lemma takeWhile_append_stop:
  "\<not> P c \<Longrightarrow> takeWhile P (xs @ c # ys) = takeWhile P xs"
  by (induction xs) auto

lemma dropWhile_append_stop:
  "\<not> P c \<Longrightarrow> dropWhile P (xs @ c # ys) = dropWhile P xs @ c # ys"
  by (induction xs) auto

text \<open>
  What \<open>strtol\<close> in base 10 has read when it returns a number other than 0: white space, a
  sign, at least one digit. The two lemmas go from the result to that shape and back.
\<close>

lemma skip_0x_10 [simp]: "skip_0x 10 s = s"
  by (cases "(10 :: nat, s)" rule: skip_0x.cases) auto

lemma skip_sign_split:
  "skip_sign t = (neg, u) \<Longrightarrow>
     \<exists>sg. t = sg @ u \<and> (sg = [] \<or> sg = ''+'' \<or> sg = ''-'') \<and> (neg \<longleftrightarrow> sg = ''-'')"
  by (cases t) (auto split: if_splits)

lemma dropWhile_stop: "e = dropWhile P u \<Longrightarrow> e = [] \<or> \<not> P (hd e)"
  by (induction u) (auto split: if_splits)

lemma strtol10_shape:
  assumes "strtol 10 s = (v, e, False)" and "v \<noteq> 0"
  obtains sp sg ds where "s = sp @ sg @ ds @ e" "\<forall>c \<in> set sp. isspace c"
    "sg = [] \<or> sg = ''+'' \<or> sg = ''-''" "ds \<noteq> []" "\<forall>c \<in> set ds. is_digit_in 10 c"
    "v = (if sg = ''-'' then - int (num_of 10 ds) else int (num_of 10 ds))"
    "e = [] \<or> \<not> is_digit_in 10 (hd e)"
proof -
  obtain neg u where su: "skip_sign (dropWhile isspace s) = (neg, u)" by fastforce
  from skip_sign_split [OF su] obtain sg where sg: "dropWhile isspace s = sg @ u"
    "sg = [] \<or> sg = ''+'' \<or> sg = ''-''" "neg \<longleftrightarrow> sg = ''-''" by blast
  define ds where "ds = takeWhile (is_digit_in 10) u"
  from assms have ds: "ds \<noteq> []" "e = dropWhile (is_digit_in 10) u"
    "v = (if neg then - int (num_of 10 ds) else int (num_of 10 ds))"
    by (auto simp: strtol_def su Let_def ds_def split: if_splits)
  show ?thesis
  proof (rule that [of "takeWhile isspace s" sg ds])
    have "u = ds @ e" by (simp add: ds_def ds(2))
    then show "s = takeWhile isspace s @ sg @ ds @ e"
      using sg(1) by (metis takeWhile_dropWhile_id)
    show "\<forall>c \<in> set (takeWhile isspace s). isspace c" by (auto dest: set_takeWhileD)
    show "\<forall>c \<in> set ds. is_digit_in 10 c" by (auto simp: ds_def dest: set_takeWhileD)
    show "e = [] \<or> \<not> is_digit_in 10 (hd e)" using ds(2) by (rule dropWhile_stop)
  qed (use sg ds in auto)
qed

lemma digit10_not_special:
  "is_digit_in 10 c \<Longrightarrow> \<not> isspace c \<and> c \<noteq> CHR ''-'' \<and> c \<noteq> CHR ''+''"
  by (auto simp: digit_val_def isspace_def Let_def split: if_splits)

lemma strtol10_build:
  assumes "\<forall>c \<in> set sp. isspace c" "sg = [] \<or> sg = ''+'' \<or> sg = ''-''" "ds \<noteq> []"
    "\<forall>c \<in> set ds. is_digit_in 10 c" "e = [] \<or> \<not> is_digit_in 10 (hd e)"
  shows "strtol 10 (sp @ sg @ ds @ e) =
    (let v = (if sg = ''-'' then - int (num_of 10 ds) else int (num_of 10 ds))
     in if v > LONG_MAX then (LONG_MAX, e, True)
        else if v < LONG_MIN then (LONG_MIN, e, True) else (v, e, False))"
proof -
  obtain d ds' where d: "ds = d # ds'" "is_digit_in 10 d"
    using assms(3,4) by (cases ds) auto
  note nd = digit10_not_special [OF d(2)]
  have sp: "dropWhile isspace (sp @ xs) = dropWhile isspace xs" for xs
    using assms(1) by (induction sp) auto
  have t: "takeWhile (is_digit_in 10) (ds @ e) = ds" "dropWhile (is_digit_in 10) (ds @ e) = e"
    using assms(4,5) by (cases e; auto simp: takeWhile_tail dropWhile_append3)+
  have "skip_sign (dropWhile isspace (sg @ ds @ e)) = (sg = ''-'', ds @ e)"
    using assms(2) d nd by (auto simp: isspace_def)
  then show ?thesis using assms(3) t by (simp add: strtol_def sp Let_def)
qed

subsection \<open>Printing numbers\<close>

text \<open>The digits of a number in a base, as \<open>%d\<close> and \<open>%x\<close> print them.\<close>

definition digit_char :: "nat \<Rightarrow> char" where
  "digit_char d = (if d < 10 then char_of (48 + d) else char_of (87 + d))"

fun to_base :: "nat \<Rightarrow> nat \<Rightarrow> string" where
  "to_base b n =
     (if n < b \<or> b < 2 then [digit_char n] else to_base b (n div b) @ [digit_char (n mod b)])"

text \<open>The text of \<open>%d\<close>, and \<open>snprintf\<close> into \<open>n\<close> bytes.\<close>

definition int_text :: "int \<Rightarrow> string" where
  "int_text i = (if i < 0 then CHR ''-'' # to_base 10 (nat (- i)) else to_base 10 (nat i))"

definition snprintf :: "nat \<Rightarrow> string \<Rightarrow> string" where
  "snprintf n s = take (n - 1) s"

declare to_base.simps [simp del]

lemma digit_val_digit_char: "d < 16 \<Longrightarrow> digit_val (digit_char d) = d"
  by (simp add: digit_char_def digit_val_def Let_def)

lemma digit_mod: "2 \<le> b \<Longrightarrow> b \<le> 16 \<Longrightarrow> digit_val (digit_char (n mod b)) = n mod b"
  by (rule digit_val_digit_char) (rule less_le_trans [OF mod_less_divisor], simp_all)

lemma num_of_snoc: "num_of b (xs @ [c]) = num_of b xs * b + digit_val c"
  by (simp add: num_of_def)

lemma num_of_single: "num_of b [c] = digit_val c"
  by (simp add: num_of_def)

lemma num_of_to_base: "2 \<le> b \<Longrightarrow> b \<le> 16 \<Longrightarrow> num_of b (to_base b n) = n"
proof (induction b n rule: to_base.induct)
  case (1 b n)
  then show ?case
    by (cases "n < b")
       (simp_all add: to_base.simps [of b n] num_of_single num_of_snoc digit_val_digit_char
         digit_mod)
qed

lemma digits_to_base: "2 \<le> b \<Longrightarrow> b \<le> 16 \<Longrightarrow> c \<in> set (to_base b n) \<Longrightarrow> is_digit_in b c"
proof (induction b n rule: to_base.induct)
  case (1 b n)
  have "is_digit_in b (digit_char (n mod b))"
    using 1(2,3) by (simp add: digit_mod)
  with 1 show ?case
    by (cases "n < b") (auto simp: to_base.simps [of b n] digit_val_digit_char)
qed

lemma to_base_nonempty: "to_base b n \<noteq> []"
  by (simp add: to_base.simps [of b n])

lemma length_to_base: "n < b ^ Suc k \<Longrightarrow> length (to_base b n) \<le> Suc k"
proof (induction k arbitrary: n)
  case 0
  then show ?case by (simp add: to_base.simps [of b n])
next
  case (Suc k)
  show ?case
  proof (cases "n < b \<or> b < 2")
    case False
    then have "n div b < b ^ Suc k"
      using Suc.prems by (simp add: div_less_iff_less_mult mult.commute)
    with Suc.IH False show ?thesis by (simp add: to_base.simps [of b n])
  qed (simp add: to_base.simps [of b n])
qed

lemma int_text_length:
  assumes "- (2 ^ 31) \<le> i" and "i < 2 ^ 31"
  shows "length (int_text i) \<le> 11"
proof -
  have l: "length (to_base 10 n) \<le> Suc 9" if "n \<le> 2147483648" for n
    using that by (intro length_to_base) simp
  have "nat i \<le> 2147483648" "nat (- i) \<le> 2147483648" using assms by simp_all
  then show ?thesis using l [of "nat i"] l [of "nat (- i)"] by (simp add: int_text_def)
qed

lemma hd_to_base: "2 \<le> b \<Longrightarrow> b \<le> 16 \<Longrightarrow> 0 < n \<Longrightarrow> digit_val (hd (to_base b n)) \<noteq> 0"
proof (induction b n rule: to_base.induct)
  case (1 b n)
  show ?case
  proof (cases "n < b")
    case True
    with 1 show ?thesis by (simp add: to_base.simps [of b n] digit_val_digit_char)
  next
    case False
    with 1 have "digit_val (hd (to_base b (n div b))) \<noteq> 0"
      by (simp add: div_greater_zero_iff)
    with False 1(2) show ?thesis by (simp add: to_base.simps [of b n] to_base_nonempty)
  qed
qed

lemma digit10_isdigit: "is_digit_in 10 c \<longleftrightarrow> isdigit c"
  by (auto simp: digit_val_def isdigit_def Let_def split: if_splits)

end
