(* ===== verification/Kb.thy ===== *)
theory Kb
  imports Prelude
begin

text \<open>
  The knowledge base of \<open>openvas-libraries/misc/kb.c\<close>: an array of \<open>HASH_MAX\<close> bucket
  lists of named items, each item a string or an integer. A bucket list is a HOL list in
  the order of the \<open>next\<close> pointers; the array is a function from the bucket index. The
  abstraction \<open>kb_vals\<close> reads the values stored under one name; the locale \<open>value_store\<close>
  states what its clients rely on and is interpreted on the functions of the file.
\<close>

subsection \<open>Data\<close>

definition KB_TYPE_STR :: int where "KB_TYPE_STR = 1"
definition KB_TYPE_INT :: int where "KB_TYPE_INT = 3"
definition HASH_MAX :: nat where "HASH_MAX = 65537"

datatype kb_value = V_str string | V_int int

fun kb_type :: "kb_value \<Rightarrow> int" where
  "kb_type (V_str _) = KB_TYPE_STR"
| "kb_type (V_int _) = KB_TYPE_INT"

record kb_item =
  kb_name :: string
  kb_v :: kb_value

type_synonym kb = "nat \<Rightarrow> kb_item list"

subsection \<open>Operations\<close>

definition mkkey :: "string option \<Rightarrow> nat" where
  "mkkey name = (case name of
       None \<Rightarrow> 0
     | Some s \<Rightarrow> unat (foldl (\<lambda>h c. push_bit 3 h + of_nat (ccode c)) (0 :: u32) s) mod HASH_MAX)"

definition kb_new :: kb where
  "kb_new = (\<lambda>_. [])"

definition kb_item_get_single :: "kb option \<Rightarrow> string option \<Rightarrow> int \<Rightarrow> kb_item option" where
  "kb_item_get_single kb name type =
     (let h = mkkey name in
      case (kb, name) of
        (Some k, Some n) \<Rightarrow>
          find (\<lambda>it. kb_name it = n \<and> (type = 0 \<or> kb_type (kb_v it) = type)) (k h)
      | _ \<Rightarrow> None)"

definition kb_item_get_str :: "kb option \<Rightarrow> string option \<Rightarrow> string option" where
  "kb_item_get_str kb name =
     (case kb_item_get_single kb name KB_TYPE_STR of
        None \<Rightarrow> None
      | Some it \<Rightarrow> (case kb_v it of V_str s \<Rightarrow> Some s | V_int _ \<Rightarrow> None))"

definition kb_item_get_int :: "kb option \<Rightarrow> string option \<Rightarrow> int" where
  "kb_item_get_int kb name =
     (case kb_item_get_single kb name KB_TYPE_INT of
        None \<Rightarrow> -1
      | Some it \<Rightarrow> (case kb_v it of V_int i \<Rightarrow> i | V_str _ \<Rightarrow> -1))"

text \<open>The copies are prepended, so the result runs against the order of the bucket.\<close>

definition kb_item_get_all :: "kb option \<Rightarrow> string option \<Rightarrow> kb_item list" where
  "kb_item_get_all kb name =
     (case (kb, name) of
        (Some k, Some n) \<Rightarrow>
          foldl (\<lambda>ret it. if kb_name it = n then it # ret else ret) [] (k (mkkey name))
      | _ \<Rightarrow> [])"

text \<open>\<open>fnmatch (expr, name, 0) == 0\<close> is the parameter \<open>fnmatch\<close>.\<close>

definition kb_item_get_pattern ::
  "(string \<Rightarrow> string \<Rightarrow> bool) \<Rightarrow> kb option \<Rightarrow> string \<Rightarrow> kb_item list" where
  "kb_item_get_pattern fnmatch kb expr =
     (case kb of
        None \<Rightarrow> []
      | Some k \<Rightarrow>
          foldl (\<lambda>ret i.
                   foldl (\<lambda>ret it. if fnmatch expr (kb_name it) then it # ret else ret)
                     ret (k i))
            [] [0..<HASH_MAX])"

text \<open>
  The search loop shared by \<open>kb_item_addset_str\<close> and \<open>kb_item_addset_int\<close>: it stops at an
  item that already holds the value, replaces the first item of that name when
  \<open>replace\<close> is set, and otherwise runs off the end of the list.
\<close>

datatype addset_result = Present | Replaced "kb_item list" | Not_found

fun addset_loop :: "string \<Rightarrow> kb_value \<Rightarrow> bool \<Rightarrow> kb_item list \<Rightarrow> addset_result" where
  "addset_loop name v replace [] = Not_found"
| "addset_loop name v replace (it # its) =
     (if kb_name it = name \<and> kb_v it = v then Present
      else if kb_name it = name \<and> replace then Replaced (it\<lparr>kb_v := v\<rparr> # its)
      else case addset_loop name v replace its of
             Replaced its' \<Rightarrow> Replaced (it # its')
           | r \<Rightarrow> r)"

definition kb_addset :: "kb option \<Rightarrow> string \<Rightarrow> kb_value \<Rightarrow> bool \<Rightarrow> int \<times> kb option" where
  "kb_addset kb name v replace =
     (let h = mkkey (Some name) in
      case kb of
        None \<Rightarrow> (-1, None)
      | Some k \<Rightarrow>
          (case addset_loop name v replace (k h) of
             Present \<Rightarrow> (-1, Some k)
           | Replaced its \<Rightarrow> (0, Some (k(h := its)))
           | Not_found \<Rightarrow> (0, Some (k(h := \<lparr>kb_name = name, kb_v = v\<rparr> # k h)))))"

definition kb_item_addset_str :: "kb option \<Rightarrow> string \<Rightarrow> string \<Rightarrow> bool \<Rightarrow> int \<times> kb option" where
  "kb_item_addset_str kb name value replace = kb_addset kb name (V_str value) replace"

definition kb_item_add_str :: "kb option \<Rightarrow> string \<Rightarrow> string \<Rightarrow> int \<times> kb option" where
  "kb_item_add_str kb name value = kb_item_addset_str kb name value False"

definition kb_item_set_str :: "kb option \<Rightarrow> string \<Rightarrow> string \<Rightarrow> int \<times> kb option" where
  "kb_item_set_str kb name value = kb_item_addset_str kb name value True"

definition kb_item_addset_int :: "kb option \<Rightarrow> string \<Rightarrow> int \<Rightarrow> bool \<Rightarrow> int \<times> kb option" where
  "kb_item_addset_int kb name value replace = kb_addset kb name (V_int value) replace"

definition kb_item_set_int :: "kb option \<Rightarrow> string \<Rightarrow> int \<Rightarrow> int \<times> kb option" where
  "kb_item_set_int kb name value = kb_item_addset_int kb name value True"

definition kb_item_add_int :: "kb option \<Rightarrow> string \<Rightarrow> int \<Rightarrow> int \<times> kb option" where
  "kb_item_add_int kb name value = kb_item_addset_int kb name value False"

text \<open>The loop of \<open>kb_item_rm_all\<close> unlinks every item of the name and keeps the others.\<close>

fun rm_loop :: "string \<Rightarrow> kb_item list \<Rightarrow> kb_item list" where
  "rm_loop name [] = []"
| "rm_loop name (it # its) =
     (if kb_name it = name then rm_loop name its else it # rm_loop name its)"

definition kb_item_rm_all :: "kb option \<Rightarrow> string \<Rightarrow> kb option" where
  "kb_item_rm_all kb name =
     (let h = mkkey (Some name) in
      case kb of None \<Rightarrow> None | Some k \<Rightarrow> Some (k(h := rm_loop name (k h))))"

subsection \<open>Well-formedness and abstraction\<close>

definition kb_wf :: "kb \<Rightarrow> bool" where
  "kb_wf k \<longleftrightarrow> (\<forall>h. \<forall>it \<in> set (k h). mkkey (Some (kb_name it)) = h)"

definition kb_vals :: "kb \<Rightarrow> string \<Rightarrow> kb_value list" where
  "kb_vals k n = map kb_v (filter (\<lambda>it. kb_name it = n) (k (mkkey (Some n))))"

text \<open>The three mutators on a non-NULL knowledge base, as a client sees them.\<close>

abbreviation kb_add :: "kb \<Rightarrow> string \<Rightarrow> kb_value \<Rightarrow> kb" where
  "kb_add k n v \<equiv> the (snd (kb_addset (Some k) n v False))"

abbreviation kb_set :: "kb \<Rightarrow> string \<Rightarrow> kb_value \<Rightarrow> kb" where
  "kb_set k n v \<equiv> the (snd (kb_addset (Some k) n v True))"

abbreviation kb_rm :: "kb \<Rightarrow> string \<Rightarrow> kb" where
  "kb_rm k n \<equiv> the (kb_item_rm_all (Some k) n)"

subsection \<open>The interface\<close>

text \<open>
  A store of values under names: what adding, setting and removing do to the values read
  back, for the name given and for every other name.
\<close>

locale value_store =
  fixes empty :: 'k
    and vals :: "'k \<Rightarrow> string \<Rightarrow> 'v list"
    and add :: "'k \<Rightarrow> string \<Rightarrow> 'v \<Rightarrow> 'k"
    and put :: "'k \<Rightarrow> string \<Rightarrow> 'v \<Rightarrow> 'k"
    and rm :: "'k \<Rightarrow> string \<Rightarrow> 'k"
    and wf :: "'k \<Rightarrow> bool"
  assumes wf_empty: "wf empty"
    and wf_add: "wf k \<Longrightarrow> wf (add k n v)"
    and wf_put: "wf k \<Longrightarrow> wf (put k n v)"
    and wf_rm: "wf k \<Longrightarrow> wf (rm k n)"
    and vals_empty: "vals empty n = []"
    and vals_add: "vals (add k n v) m =
          (if m = n \<and> v \<notin> set (vals k n) then v # vals k n else vals k m)"
    and vals_put: "vals (put k n v) m = (if m = n then v # tl (vals k n) else vals k m)"
    and vals_rm: "vals (rm k n) m = (if m = n then [] else vals k m)"
begin

lemma add_stores: "v \<in> set (vals (add k n v) n)"
  by (simp add: vals_add)

lemma add_idem: "vals (add (add k n v) n v) m = vals (add k n v) m"
  by (simp add: vals_add)

lemma distinct_add: "distinct (vals k m) \<Longrightarrow> distinct (vals (add k n v) m)"
  by (auto simp: vals_add)

lemma put_get: "\<exists>vs. vals (put k n v) n = v # vs"
  by (simp add: vals_put)

lemma put_put: "vals (put (put k n v) n w) m = vals (put k n w) m"
  by (simp add: vals_put)

lemma rm_add: "vals (add (rm k n) n v) n = [v]"
  by (simp add: vals_add vals_rm)

lemma put_rm: "vals (put (rm k n) n v) n = [v]"
  by (simp add: vals_put vals_rm)

lemma puts_frame: "m \<notin> fst ` set ps \<Longrightarrow>
    vals (foldl (\<lambda>k (n, v). put k n v) k ps) m = vals k m"
  by (induction ps arbitrary: k) (auto simp: vals_put)

lemma wf_puts: "wf k \<Longrightarrow> wf (foldl (\<lambda>k (n, v). put k n v) k ps)"
  by (induction ps arbitrary: k) (auto intro: wf_put)

end

subsection \<open>The functions of the file provide it\<close>

lemma rm_loop_filter: "rm_loop n its = filter (\<lambda>it. kb_name it \<noteq> n) its"
  by (induction its) auto

lemma addset_add:
  "addset_loop n v False its =
     (if \<exists>it \<in> set its. kb_name it = n \<and> kb_v it = v then Present else Not_found)"
  by (induction its) auto

lemma addset_set_Not_found:
  "addset_loop n v True its = Not_found \<longleftrightarrow> filter (\<lambda>it. kb_name it = n) its = []"
  by (induction its) (auto split: addset_result.splits)

lemma addset_set_vals:
  assumes "filter (\<lambda>it. kb_name it = n) its \<noteq> []"
  shows "case addset_loop n v True its of
       Present \<Rightarrow> \<exists>vs. map kb_v (filter (\<lambda>it. kb_name it = n) its) = v # vs
     | Replaced its' \<Rightarrow>
         map kb_v (filter (\<lambda>it. kb_name it = n) its')
           = v # tl (map kb_v (filter (\<lambda>it. kb_name it = n) its))
         \<and> (\<forall>m. m \<noteq> n \<longrightarrow>
              filter (\<lambda>it. kb_name it = m) its' = filter (\<lambda>it. kb_name it = m) its)
         \<and> map kb_name its' = map kb_name its
     | Not_found \<Rightarrow> False"
  using assms by (induction its) (auto split: if_splits addset_result.splits)

lemma addset_names:
  "addset_loop n v r its = Replaced its' \<Longrightarrow> map kb_name its' = map kb_name its"
  by (induction its arbitrary: its') (auto split: if_splits addset_result.splits)

lemma names_mem: "map kb_name xs = map kb_name ys \<Longrightarrow> it \<in> set xs \<Longrightarrow>
    \<exists>it' \<in> set ys. kb_name it' = kb_name it"
  by (metis (no_types, lifting) image_eqI imageE image_set)

lemma kb_addset_wf:
  assumes "kb_wf k" shows "kb_wf (the (snd (kb_addset (Some k) n v r)))"
proof (cases "addset_loop n v r (k (mkkey (Some n)))")
  case (Replaced its)
  then have "map kb_name its = map kb_name (k (mkkey (Some n)))"
    by (rule addset_names)
  with assms Replaced show ?thesis
    by (auto simp: kb_addset_def kb_wf_def Let_def) (metis names_mem)
qed (use assms in \<open>auto simp: kb_addset_def kb_wf_def Let_def\<close>)

lemma kb_rm_wf: "kb_wf k \<Longrightarrow> kb_wf (kb_rm k n)"
  by (auto simp: kb_item_rm_all_def kb_wf_def rm_loop_filter Let_def)

lemma kb_vals_add:
  "kb_vals (kb_add k n v) m =
     (if m = n \<and> v \<notin> set (kb_vals k n) then v # kb_vals k n else kb_vals k m)"
proof (cases "v \<in> set (kb_vals k n)")
  case True
  then have "addset_loop n v False (k (mkkey (Some n))) = Present"
    by (auto simp: addset_add kb_vals_def)
  with True show ?thesis by (simp add: kb_addset_def Let_def)
next
  case False
  then have "addset_loop n v False (k (mkkey (Some n))) = Not_found"
    by (auto simp: addset_add kb_vals_def)
  with False show ?thesis by (auto simp: kb_addset_def kb_vals_def Let_def)
qed

lemma kb_vals_set:
  "kb_vals (kb_set k n v) m = (if m = n then v # tl (kb_vals k n) else kb_vals k m)"
proof (cases "filter (\<lambda>it. kb_name it = n) (k (mkkey (Some n))) = []")
  case True
  then have "addset_loop n v True (k (mkkey (Some n))) = Not_found"
    by (simp add: addset_set_Not_found)
  with True show ?thesis by (auto simp: kb_addset_def kb_vals_def Let_def)
next
  case False
  from addset_set_vals [OF this, of v] show ?thesis
    by (auto simp: kb_addset_def kb_vals_def Let_def split: addset_result.splits)
qed

lemma kb_vals_rm: "kb_vals (kb_rm k n) m = (if m = n then [] else kb_vals k m)"
  by (auto simp: kb_item_rm_all_def kb_vals_def rm_loop_filter Let_def
      intro!: arg_cong [where f = "map kb_v"] filter_cong)

interpretation kbs: value_store kb_new kb_vals kb_add kb_set kb_rm kb_wf
proof unfold_locales
  show "kb_wf kb_new" "\<And>n. kb_vals kb_new n = []"
    by (simp_all add: kb_wf_def kb_new_def kb_vals_def)
qed (rule kb_addset_wf kb_rm_wf kb_vals_add kb_vals_set kb_vals_rm; assumption?)+

subsection \<open>Reachable knowledge bases\<close>

inductive kb_reachable :: "kb \<Rightarrow> bool" where
  new: "kb_reachable kb_new"
| add_str: "kb_reachable k \<Longrightarrow> kb_item_add_str (Some k) n s = (r, Some k') \<Longrightarrow> kb_reachable k'"
| set_str: "kb_reachable k \<Longrightarrow> kb_item_set_str (Some k) n s = (r, Some k') \<Longrightarrow> kb_reachable k'"
| add_int: "kb_reachable k \<Longrightarrow> kb_item_add_int (Some k) n i = (r, Some k') \<Longrightarrow> kb_reachable k'"
| set_int: "kb_reachable k \<Longrightarrow> kb_item_set_int (Some k) n i = (r, Some k') \<Longrightarrow> kb_reachable k'"
| rm_all: "kb_reachable k \<Longrightarrow> kb_item_rm_all (Some k) n = Some k' \<Longrightarrow> kb_reachable k'"

lemmas kb_item_mutators =
  kb_item_add_str_def kb_item_set_str_def kb_item_add_int_def kb_item_set_int_def
  kb_item_addset_str_def kb_item_addset_int_def

lemma kb_addset_result:
  "kb_addset (Some k) n v r = (fst (kb_addset (Some k) n v r),
     Some (the (snd (kb_addset (Some k) n v r))))"
  by (auto simp: kb_addset_def Let_def split: addset_result.splits)

lemma kb_addset_wf': "kb_addset (Some k) n v r = (c, Some k') \<Longrightarrow> kb_wf k \<Longrightarrow> kb_wf k'"
  using kb_addset_wf [of k n v r] by simp

lemma kb_reachable_wf: "kb_reachable k \<Longrightarrow> kb_wf k"
proof (induction rule: kb_reachable.induct)
  case new
  show ?case by (rule kbs.wf_empty)
next
  case (rm_all k n k')
  then show ?case using kbs.wf_rm [of k n] by simp
qed (auto simp: kb_item_mutators dest: kb_addset_wf')

lemma kb_add_code:
  "fst (kb_addset (Some k) n v False) = (if v \<in> set (kb_vals k n) then -1 else 0)"
  by (auto simp: kb_addset_def Let_def addset_add kb_vals_def split: addset_result.splits)

lemma addset_set_hd:
  "addset_loop n v True its = Present \<longleftrightarrow>
     (\<exists>vs. map kb_v (filter (\<lambda>it. kb_name it = n) its) = v # vs)"
  by (induction its) (auto split: addset_result.splits)

lemma kb_set_code:
  "fst (kb_addset (Some k) n v True) = (if \<exists>vs. kb_vals k n = v # vs then -1 else 0)"
  using addset_set_hd [of n v "k (mkkey (Some n))"]
  by (auto simp: kb_addset_def Let_def kb_vals_def split: addset_result.splits)

lemma kb_find_vals_Some:
  "map_option kb_v (find (\<lambda>it. kb_name it = n \<and> P (kb_v it)) its) =
     find P (map kb_v (filter (\<lambda>it. kb_name it = n) its))"
  by (induction its) auto

lemma foldl_collect:
  "foldl (\<lambda>ret it. if P it then it # ret else ret) acc xs = rev (filter P xs) @ acc"
  by (induction xs arbitrary: acc) auto

lemma kb_pattern_rev:
  "kb_item_get_pattern f (Some k) e =
     rev (filter (\<lambda>it. f e (kb_name it)) (concat (map k [0..<HASH_MAX])))"
proof -
  have "foldl (\<lambda>ret i. foldl (\<lambda>ret it. if f e (kb_name it) then it # ret else ret) ret (k i))
          acc is = rev (filter (\<lambda>it. f e (kb_name it)) (concat (map k is))) @ acc" for acc "is"
    by (induction "is" arbitrary: acc) (auto simp: foldl_collect)
  then show ?thesis by (simp add: kb_item_get_pattern_def)
qed

lemma mkkey_bound: "mkkey name < HASH_MAX"
  by (simp add: mkkey_def HASH_MAX_def split: option.split)

lemma kb_wf_bucket_bound: "kb_wf k \<Longrightarrow> it \<in> set (k h) \<Longrightarrow> h < HASH_MAX"
  by (metis kb_wf_def mkkey_bound)

subsection \<open>Properties\<close>

text \<open>
  Adding a string or an integer under a name stores it in front of the values of that
  name unless the same value is already there, in which case the call returns -1 and
  changes nothing; values under every other name stay as they were, also those in the
  same hash bucket.
\<close>

theorem kb_item_add_semantics:
  "\<exists>k'. kb_addset (Some k) n v False
            = (if v \<in> set (kb_vals k n) then -1 else 0, Some k')
       \<and> kb_vals k' = (if v \<in> set (kb_vals k n) then kb_vals k
                        else (kb_vals k)(n := v # kb_vals k n))
       \<and> kb_item_add_str (Some k) n s = kb_addset (Some k) n (V_str s) False
       \<and> kb_item_add_int (Some k) n i = kb_addset (Some k) n (V_int i) False"
  using kb_addset_result [of k n v False]
  by (auto simp: kb_add_code kb_vals_add kb_item_mutators fun_eq_iff)

text \<open>
  C16: setting a name replaces the first value stored under it, or stores the value when
  there is none; the call returns -1 exactly when that value is already the first one.
  No other name is touched.
\<close>

theorem kb_item_set_semantics:
  "\<exists>k'. kb_addset (Some k) n v True
            = (if kb_vals k n \<noteq> [] \<and> hd (kb_vals k n) = v then -1 else 0, Some k')
       \<and> kb_vals k' = (kb_vals k)(n := v # tl (kb_vals k n))
       \<and> kb_item_set_str (Some k) n s = kb_addset (Some k) n (V_str s) True
       \<and> kb_item_set_int (Some k) n i = kb_addset (Some k) n (V_int i) True"
  using kb_addset_result [of k n v True]
  by (cases "kb_vals k n") (auto simp: kb_set_code kb_vals_set kb_item_mutators fun_eq_iff)

text \<open>
  Removing a name leaves no value under it and every other name as it was; the listing
  functions then find nothing of that name.
\<close>

theorem kb_item_rm_all_semantics:
  "\<exists>k'. kb_item_rm_all (Some k) n = Some k'
       \<and> kb_vals k' = (kb_vals k)(n := [])
       \<and> kb_item_get_all (Some k') (Some n) = []
       \<and> kb_item_get_single (Some k') (Some n) t = None
       \<and> kb_item_get_int (Some k') (Some n) = -1"
proof -
  obtain k' where k': "kb_item_rm_all (Some k) n = Some k'"
    by (simp add: kb_item_rm_all_def Let_def)
  then have b: "filter (\<lambda>it. kb_name it = n) (k' (mkkey (Some n))) = []"
    by (auto simp: kb_item_rm_all_def Let_def rm_loop_filter)
  from b have "kb_item_get_single (Some k') (Some n) t' = None" for t'
    by (auto simp: kb_item_get_single_def find_None_iff filter_empty_conv)
  moreover from b have "kb_item_get_all (Some k') (Some n) = []"
    by (simp add: kb_item_get_all_def foldl_collect)
  moreover have "kb_vals k' = (kb_vals k)(n := [])"
    using kb_vals_rm [of k n] k' by (auto simp: fun_eq_iff)
  ultimately show ?thesis using k' by (simp add: kb_item_get_int_def)
qed

text \<open>
  The lookups read the abstraction: a typed lookup returns the first value of that type
  stored under the name, \<open>kb_item_get_int\<close> returns -1 when there is no integer, and the
  listing returns all values, oldest first.
\<close>

theorem kb_lookup_semantics:
  "kb_item_get_str (Some k) (Some n) =
     (case find (\<lambda>v. kb_type v = KB_TYPE_STR) (kb_vals k n) of
        Some (V_str s) \<Rightarrow> Some s | _ \<Rightarrow> None)
   \<and> kb_item_get_int (Some k) (Some n) =
     (case find (\<lambda>v. kb_type v = KB_TYPE_INT) (kb_vals k n) of
        Some (V_int i) \<Rightarrow> i | _ \<Rightarrow> -1)
   \<and> (kb_item_get_single (Some k) (Some n) 0 = None \<longleftrightarrow> kb_vals k n = [])
   \<and> map kb_v (kb_item_get_all (Some k) (Some n)) = rev (kb_vals k n)"
proof -
  let ?b = "k (mkkey (Some n))"
  have f: "find (\<lambda>v. kb_type v = t) (kb_vals k n) =
      map_option kb_v (find (\<lambda>it. kb_name it = n \<and> kb_type (kb_v it) = t) ?b)" for t
    unfolding kb_vals_def by (rule kb_find_vals_Some [symmetric])
  have "kb_item_get_single (Some k) (Some n) 0 = None \<longleftrightarrow> kb_vals k n = []"
    by (auto simp: kb_item_get_single_def kb_vals_def find_None_iff filter_empty_conv)
  moreover have "map kb_v (kb_item_get_all (Some k) (Some n)) = rev (kb_vals k n)"
    by (simp add: kb_item_get_all_def foldl_collect kb_vals_def rev_map)
  ultimately show ?thesis
    by (auto simp: kb_item_get_str_def kb_item_get_int_def kb_item_get_single_def f
        KB_TYPE_STR_def KB_TYPE_INT_def split: option.splits kb_value.splits)
qed

text \<open>
  In every knowledge base built by the functions of the file each item sits in the
  bucket of its own name, so the scan by pattern finds exactly the stored items whose
  name matches.
\<close>

theorem kb_pattern_complete:
  assumes "kb_reachable k"
  shows "kb_wf k
    \<and> set (kb_item_get_pattern fnmatch (Some k) e)
        = {it. \<exists>h. it \<in> set (k h) \<and> fnmatch e (kb_name it)}"
proof -
  from assms have w: "kb_wf k" by (rule kb_reachable_wf)
  with kb_wf_bucket_bound [OF w] show ?thesis
    by (auto simp: kb_pattern_rev intro: bexI)
qed

theorem kb_pattern_complete_witness:
  "kb_reachable (kb_add kb_new ''a'' (V_int 1))
    \<and> \<lparr>kb_name = ''a'', kb_v = V_int 1\<rparr>
        \<in> set (kb_item_get_pattern (=) (Some (kb_add kb_new ''a'' (V_int 1))) ''a'')"
proof -
  let ?k = "kb_add kb_new ''a'' (V_int 1)"
  have r: "kb_reachable ?k"
    by (rule kb_reachable.add_int [OF kb_reachable.new])
       (simp add: kb_item_mutators, rule kb_addset_result)
  have "\<lparr>kb_name = ''a'', kb_v = V_int 1\<rparr> \<in> set (?k (mkkey (Some ''a'')))"
    by (simp add: kb_addset_def kb_new_def Let_def)
  with r kb_pattern_complete [OF r, of "(=)" "''a''"] show ?thesis by auto
qed

text \<open>
  The check made before writing, that the same name and value are not present already,
  does not hold the pairs unique: setting a name to a value that a later item of the name
  already has stores the pair twice.
\<close>

theorem kb_set_duplicate_pair:
  "\<exists>k. kb_reachable k \<and> kb_vals k ''a'' = [V_str ''x'', V_str ''x'']"
proof -
  let ?k1 = "kb_add kb_new ''a'' (V_str ''x'')"
  let ?k2 = "kb_add ?k1 ''a'' (V_str ''y'')"
  let ?k3 = "kb_set ?k2 ''a'' (V_str ''x'')"
  have "kb_reachable ?k1"
    by (rule kb_reachable.add_str [OF kb_reachable.new])
       (simp add: kb_item_mutators, rule kb_addset_result)
  then have "kb_reachable ?k2"
    by (rule kb_reachable.add_str) (simp add: kb_item_mutators, rule kb_addset_result)
  then have "kb_reachable ?k3"
    by (rule kb_reachable.set_str) (simp add: kb_item_mutators, rule kb_addset_result)
  moreover have "kb_vals ?k3 ''a'' = [V_str ''x'', V_str ''x'']"
    by (simp add: kbs.vals_put kbs.vals_add kbs.vals_empty)
  ultimately show ?thesis by blast
qed

end
