(* ===== verification/Arglist.thy ===== *)
theory Arglist
  imports Prelude "HOL-Library.Multiset"
begin

text \<open>
  The argument lists of \<open>openvas-libraries/misc/arglists.c\<close>, the untyped dictionaries in
  which the scanner keeps plugins, preferences and host data. An arglist is a linked list
  closed by an empty sentinel cell; the model is the list of the cells before the
  sentinel, NULL is \<open>None\<close>. The names of all arglists are shared through a global,
  reference-counted cache, which every operation receives and returns. GLib's
  \<open>g_str_hash\<close> and \<open>g_strsplit\<close> are parameters.
\<close>

subsection \<open>Data\<close>

definition ARG_STRING :: int where "ARG_STRING = 1"
definition ARG_PTR :: int where "ARG_PTR = 2"
definition ARG_INT :: int where "ARG_INT = 3"
definition ARG_ARGLIST :: int where "ARG_ARGLIST = 4"
definition ARG_STRUCT :: int where "ARG_STRUCT = 5"

lemmas arg_types = ARG_STRING_def ARG_PTR_def ARG_INT_def ARG_ARGLIST_def ARG_STRUCT_def

text \<open>What the \<open>void *value\<close> of a cell refers to.\<close>

datatype arg_value =
    A_null
  | A_int int
  | A_ptr nat
  | A_str string
  | A_struct "byte list"
  | A_list "arglist list"
and arglist = Arg (arg_name: string) (arg_type: int) (arg_val: arg_value)
    (arg_length: int) (arg_hash: nat)

text \<open>The name cache: a flag and the buckets of names with their numbers of uses.\<close>

record name_cache =
  cache_inited :: bool
  cache_tab :: "nat \<Rightarrow> (string \<times> int) list"

definition cache_start :: name_cache where
  "cache_start = \<lparr>cache_inited = False, cache_tab = (\<lambda>_. [])\<rparr>"

subsection \<open>The name cache\<close>

definition mkhash :: "(string \<Rightarrow> u32) \<Rightarrow> string \<Rightarrow> nat" where
  "mkhash gsh name = unat (gsh name) mod 2713"

definition cache_init :: "name_cache \<Rightarrow> name_cache" where
  "cache_init c = c\<lparr>cache_inited := True, cache_tab := (\<lambda>_. [])\<rparr>"

definition cache_get_name ::
  "name_cache \<Rightarrow> string option \<Rightarrow> nat \<Rightarrow> name_cache \<times> (string \<times> int) option" where
  "cache_get_name c name h =
     (let c = (if cache_inited c then c else cache_init c) in
      case name of
        None \<Rightarrow> (c, None)
      | Some n \<Rightarrow> (c, find (\<lambda>nc. fst nc = n) (cache_tab c h)))"

definition cache_add_name :: "name_cache \<Rightarrow> string \<Rightarrow> nat \<Rightarrow> name_cache" where
  "cache_add_name c name h =
     c\<lparr>cache_tab := (cache_tab c)(h := (name, 1) # cache_tab c h)\<rparr>"

text \<open>Change the number of uses of the first entry of a name; drop the entry at 0.\<close>

fun occ_change :: "string \<Rightarrow> int \<Rightarrow> (string \<times> int) list \<Rightarrow> (string \<times> int) list" where
  "occ_change n d [] = []"
| "occ_change n d ((m, k) # xs) =
     (if m = n then (if k + d = 0 then xs else (m, k + d) # xs)
      else (m, k) # occ_change n d xs)"

definition cache_inc :: "(string \<Rightarrow> u32) \<Rightarrow> name_cache \<Rightarrow> string \<Rightarrow> name_cache" where
  "cache_inc gsh c name =
     (let h = mkhash gsh name; (c, nc) = cache_get_name c (Some name) h in
      case nc of
        Some _ \<Rightarrow> c\<lparr>cache_tab := (cache_tab c)(h := occ_change name 1 (cache_tab c h))\<rparr>
      | None \<Rightarrow> cache_add_name c name h)"

definition cache_dec :: "(string \<Rightarrow> u32) \<Rightarrow> name_cache \<Rightarrow> string option \<Rightarrow> name_cache" where
  "cache_dec gsh c name =
     (case name of
        None \<Rightarrow> c
      | Some n \<Rightarrow>
          (let h = mkhash gsh n; (c, nc) = cache_get_name c name h in
           case nc of
             None \<Rightarrow> c
           | Some _ \<Rightarrow> c\<lparr>cache_tab := (cache_tab c)(h := occ_change n (-1) (cache_tab c h))\<rparr>))"

subsection \<open>Argument lists\<close>

text \<open>\<open>memcpy (new_val, value, length)\<close> of a structure.\<close>

fun struct_copy :: "int \<Rightarrow> arg_value \<Rightarrow> arg_value" where
  "struct_copy len (A_struct bs) = A_struct (take (nat len) bs)"
| "struct_copy len v = v"

definition arg_add_value ::
  "(string \<Rightarrow> u32) \<Rightarrow> name_cache \<Rightarrow> arglist list option \<Rightarrow> string \<Rightarrow> int \<Rightarrow> int \<Rightarrow> arg_value
     \<Rightarrow> name_cache \<times> arglist list option" where
  "arg_add_value gsh c al name type len value =
     (case al of
        None \<Rightarrow> (c, None)
      | Some l \<Rightarrow>
          (let value = (if type = ARG_STRUCT then struct_copy len value else value) in
           (cache_inc gsh c name,
            Some (l @ [Arg name type value len (mkhash gsh name)]))))"

definition arg_get :: "(string \<Rightarrow> u32) \<Rightarrow> arglist list option \<Rightarrow> string \<Rightarrow> arglist option" where
  "arg_get gsh al name =
     (case al of
        None \<Rightarrow> None
      | Some l \<Rightarrow> find (\<lambda>a. arg_hash a = mkhash gsh name \<and> arg_name a = name) l)"

text \<open>Writing through the pointer that \<open>arg_get\<close> returns.\<close>

fun set_loop :: "nat \<Rightarrow> string \<Rightarrow> int \<Rightarrow> arg_value \<Rightarrow> arglist list \<Rightarrow> arglist list" where
  "set_loop h name len v [] = []"
| "set_loop h name len v (a # l) =
     (if arg_hash a = h \<and> arg_name a = name
      then Arg (arg_name a) (arg_type a)
             (if arg_type a = ARG_STRUCT then struct_copy len v else v) len (arg_hash a) # l
      else a # set_loop h name len v l)"

definition arg_set_value ::
  "(string \<Rightarrow> u32) \<Rightarrow> arglist list option \<Rightarrow> string option \<Rightarrow> int \<Rightarrow> arg_value
     \<Rightarrow> int \<times> arglist list option" where
  "arg_set_value gsh al name len v =
     (case name of
        None \<Rightarrow> (-1, al)
      | Some n \<Rightarrow>
          (case arg_get gsh al n of
             Some _ \<Rightarrow> (0, map_option (set_loop (mkhash gsh n) n len v) al)
           | None \<Rightarrow> (-1, al)))"

definition arg_get_value :: "(string \<Rightarrow> u32) \<Rightarrow> arglist list option \<Rightarrow> string \<Rightarrow> arg_value" where
  "arg_get_value gsh al name =
     (case al of
        None \<Rightarrow> A_null
      | Some l \<Rightarrow> (case arg_get gsh al name of None \<Rightarrow> A_null | Some a \<Rightarrow> arg_val a))"

definition arg_get_type :: "(string \<Rightarrow> u32) \<Rightarrow> arglist list option \<Rightarrow> string \<Rightarrow> int" where
  "arg_get_type gsh al name =
     (case arg_get gsh al name of Some a \<Rightarrow> arg_type a | None \<Rightarrow> -1)"

text \<open>
  \<open>arg_dup\<close> into a fresh list. A nested list is copied by the recursive call; a cell of an
  unknown type keeps the NULL of its fresh memory.
\<close>

fun arg_dup :: "(string \<Rightarrow> u32) \<Rightarrow> name_cache \<Rightarrow> arglist list \<Rightarrow> name_cache \<times> arglist list"
and dup_value :: "(string \<Rightarrow> u32) \<Rightarrow> name_cache \<Rightarrow> int \<Rightarrow> int \<Rightarrow> arg_value
     \<Rightarrow> name_cache \<times> arg_value" where
  "arg_dup gsh c [] = (c, [])"
| "arg_dup gsh c (Arg n t v len h # src) =
     (let (c, v') = dup_value gsh (cache_inc gsh c n) t len v;
          (c, dst) = arg_dup gsh c src
      in (c, Arg n t v' len h # dst))"
| "dup_value gsh c t len (A_list l) =
     (if t = ARG_ARGLIST then (let (c, l') = arg_dup gsh c l in (c, A_list l'))
      else if t \<in> {ARG_INT, ARG_PTR, ARG_STRING, ARG_STRUCT} then (c, A_list l)
      else (c, A_null))"
| "dup_value gsh c t len v =
     (if t = ARG_ARGLIST then (c, A_list [])
      else if t = ARG_STRUCT then (c, struct_copy len v)
      else if t \<in> {ARG_INT, ARG_PTR, ARG_STRING} then (c, v)
      else (c, A_null))"

definition arg_free :: "(string \<Rightarrow> u32) \<Rightarrow> name_cache \<Rightarrow> arglist list \<Rightarrow> name_cache" where
  "arg_free gsh c l = foldl (\<lambda>c a. cache_dec gsh c (Some (arg_name a))) c l"

fun arg_free_all :: "(string \<Rightarrow> u32) \<Rightarrow> name_cache \<Rightarrow> arglist list \<Rightarrow> name_cache" where
  "arg_free_all gsh c [] = c"
| "arg_free_all gsh c (Arg n t (A_list l) len h # al) =
     arg_free_all gsh
       (cache_dec gsh (if t = ARG_ARGLIST then arg_free_all gsh c l else c) (Some n)) al"
| "arg_free_all gsh c (Arg n t v len h # al) =
     arg_free_all gsh (cache_dec gsh c (Some n)) al"

text \<open>
  \<open>arg_del_value\<close> unlinks the first cell of the name. For the first cell of the list it
  swaps the contents of that cell and the next one, so that the caller's pointer stays
  valid; the sequence of cells that remains is the same.
\<close>

fun del_loop :: "nat \<Rightarrow> string \<Rightarrow> arglist list \<Rightarrow> (arglist \<times> arglist list) option" where
  "del_loop h name [] = None"
| "del_loop h name (a # l) =
     (if arg_hash a = h \<and> arg_name a = name then Some (a, l)
      else map_option (\<lambda>(e, r). (e, a # r)) (del_loop h name l))"

definition arg_del_value ::
  "(string \<Rightarrow> u32) \<Rightarrow> name_cache \<Rightarrow> arglist list option \<Rightarrow> string
     \<Rightarrow> name_cache \<times> arglist list option" where
  "arg_del_value gsh c al name =
     (case al of
        None \<Rightarrow> (c, None)
      | Some l \<Rightarrow>
          (case del_loop (mkhash gsh name) name l of
             None \<Rightarrow> (c, Some l)
           | Some (e, r) \<Rightarrow> (arg_free gsh c [e], Some r)))"

definition str2arglist ::
  "(string \<Rightarrow> u32) \<Rightarrow> (string \<Rightarrow> string \<Rightarrow> string list) \<Rightarrow> name_cache \<Rightarrow> string option
     \<Rightarrow> name_cache \<times> arglist list option" where
  "str2arglist gsh strsplit c str =
     (case str of
        None \<Rightarrow> (c, None)
      | Some s \<Rightarrow>
          if s = [] then (c, None)
          else foldl (\<lambda>(c, ret) d. arg_add_value gsh c ret d ARG_INT 0 (A_int 1))
                 (c, Some []) (strsplit s '', ''))"

subsection \<open>Reference counting\<close>

definition occ :: "(string \<Rightarrow> u32) \<Rightarrow> name_cache \<Rightarrow> string \<Rightarrow> int" where
  "occ gsh c n = (case map_of (cache_tab c (mkhash gsh n)) n of None \<Rightarrow> 0 | Some k \<Rightarrow> k)"

definition bucket_ok :: "(string \<times> int) list \<Rightarrow> bool" where
  "bucket_ok b \<longleftrightarrow> distinct (map fst b) \<and> (\<forall>(m, k) \<in> set b. 1 \<le> k)"

definition cache_wf :: "(string \<Rightarrow> u32) \<Rightarrow> name_cache \<Rightarrow> bool" where
  "cache_wf gsh c \<longleftrightarrow> (\<forall>h. bucket_ok (cache_tab c h))
     \<and> (\<not> cache_inited c \<longrightarrow> cache_tab c = (\<lambda>_. []))"

text \<open>
  A reference counter of names: the laws a user of the cache relies on, and that taking
  and then dropping the same references, in any order, restores every count.
\<close>

locale ref_counter =
  fixes inc :: "'c \<Rightarrow> string \<Rightarrow> 'c"
    and dec :: "'c \<Rightarrow> string \<Rightarrow> 'c"
    and cnt :: "'c \<Rightarrow> string \<Rightarrow> int"
    and wf :: "'c \<Rightarrow> bool"
  assumes wf_inc: "wf c \<Longrightarrow> wf (inc c n)"
    and wf_dec: "wf c \<Longrightarrow> wf (dec c n)"
    and cnt_nonneg: "wf c \<Longrightarrow> 0 \<le> cnt c n"
    and cnt_inc: "wf c \<Longrightarrow> cnt (inc c n) m = cnt c m + (if m = n then 1 else 0)"
    and cnt_dec: "wf c \<Longrightarrow>
          cnt (dec c n) m = (if m = n \<and> 0 < cnt c n then cnt c n - 1 else cnt c m)"
begin

lemma wf_incs: "wf c \<Longrightarrow> wf (foldl inc c ns)"
  by (induction ns arbitrary: c) (auto intro: wf_inc)

lemma wf_decs: "wf c \<Longrightarrow> wf (foldl dec c ns)"
  by (induction ns arbitrary: c) (auto intro: wf_dec)

lemma cnt_incs: "wf c \<Longrightarrow> cnt (foldl inc c ns) m = cnt c m + int (count (mset ns) m)"
  by (induction ns arbitrary: c) (auto simp: cnt_inc wf_inc)

lemma cnt_decs:
  "wf c \<Longrightarrow> (\<And>m. int (count (mset ns) m) \<le> cnt c m) \<Longrightarrow>
     cnt (foldl dec c ns) m = cnt c m - int (count (mset ns) m)"
proof (induction ns arbitrary: c)
  case (Cons n ns)
  have pos: "0 < cnt c n"
    using Cons.prems(2) [of n] by simp
  have "int (count (mset ns) x) \<le> cnt (dec c n) x" for x
    using Cons.prems(2) [of x] pos Cons.prems(1) by (auto simp: cnt_dec split: if_splits)
  then show ?case
    using Cons.IH [of "dec c n"] Cons.prems(1) pos by (auto simp: wf_dec cnt_dec)
qed simp

lemma take_and_drop:
  assumes "wf c" and "mset ms = mset ns"
  shows "cnt (foldl dec (foldl inc c ns) ms) m = cnt c m"
  using assms cnt_nonneg [OF assms(1)]
  by (subst cnt_decs) (auto simp: wf_incs cnt_incs)

end

lemma map_of_occ_change:
  "distinct (map fst b) \<Longrightarrow> map_of (occ_change n d b) m =
     (if m = n then (case map_of b n of None \<Rightarrow> None
                     | Some k \<Rightarrow> if k + d = 0 then None else Some (k + d))
      else map_of b m)"
  by (induction n d b rule: occ_change.induct)
     (auto simp: map_of_eq_None_iff rev_image_eqI split: option.splits)

lemma occ_change_fst: "fst ` set (occ_change n d b) \<subseteq> fst ` set b"
  by (induction n d b rule: occ_change.induct) auto

lemma occ_change_bucket_ok: "bucket_ok b \<Longrightarrow> d = 1 \<or> d = -1 \<Longrightarrow> bucket_ok (occ_change n d b)"
  unfolding bucket_ok_def
proof (induction n d b rule: occ_change.induct)
  case (2 n d m k xs)
  then show ?case using occ_change_fst [of n d xs] by (auto split: if_splits)
qed simp

lemma find_fst_map_of: "find (\<lambda>nc. fst nc = n) b = map_option (Pair n) (map_of b n)"
  by (induction b) auto

lemma bucket_ok_pos: "bucket_ok b \<Longrightarrow> map_of b n = Some k \<Longrightarrow> 0 < k"
  by (force simp: bucket_ok_def dest!: map_of_SomeD)

lemma bucket_ok_add: "bucket_ok b \<Longrightarrow> map_of b n = None \<Longrightarrow> bucket_ok ((n, 1) # b)"
  by (auto simp: bucket_ok_def map_of_eq_None_iff)

lemma cache_tab_init: "cache_wf gsh c \<Longrightarrow>
    cache_tab (if cache_inited c then c else cache_init c) = cache_tab c"
  by (simp add: cache_wf_def cache_init_def)

lemma cache_wf_bucket: "cache_wf gsh c \<Longrightarrow> bucket_ok (cache_tab c h)"
  by (simp add: cache_wf_def)

lemma cache_inc_tab:
  assumes "cache_wf gsh c"
  shows "cache_tab (cache_inc gsh c n) = (cache_tab c)(mkhash gsh n :=
           (if map_of (cache_tab c (mkhash gsh n)) n = None
            then (n, 1) # cache_tab c (mkhash gsh n)
            else occ_change n 1 (cache_tab c (mkhash gsh n))))"
    and "cache_inited (cache_inc gsh c n)"
  using cache_tab_init [OF assms]
  by (auto simp: cache_inc_def cache_get_name_def cache_add_name_def Let_def
      find_fst_map_of cache_init_def split: option.splits)

lemma occ_change_absent: "map_of b n = None \<Longrightarrow> occ_change n d b = b"
  by (induction n d b rule: occ_change.induct) (auto split: if_splits)

lemma cache_dec_tab:
  assumes "cache_wf gsh c"
  shows "cache_tab (cache_dec gsh c (Some n)) = (cache_tab c)(mkhash gsh n :=
           occ_change n (-1) (cache_tab c (mkhash gsh n)))"
    and "cache_inited (cache_dec gsh c (Some n))"
  using cache_tab_init [OF assms]
  by (auto simp: cache_dec_def cache_get_name_def Let_def occ_change_absent
      find_fst_map_of cache_init_def split: option.splits)

interpretation names: ref_counter "cache_inc gsh" "\<lambda>c n. cache_dec gsh c (Some n)"
  "occ gsh" "cache_wf gsh" for gsh
proof unfold_locales
  fix c n m assume w: "cache_wf gsh c"
  note b = cache_wf_bucket [OF w]
  show "cache_wf gsh (cache_inc gsh c n)"
    using b occ_change_bucket_ok [OF b, of 1 n "mkhash gsh n"]
    by (auto simp: cache_wf_def cache_inc_tab [OF w] intro: bucket_ok_add)
  show "cache_wf gsh (cache_dec gsh c (Some n))"
    using b occ_change_bucket_ok [OF b, of "-1" n "mkhash gsh n"]
    by (auto simp: cache_wf_def cache_dec_tab [OF w])
  show "0 \<le> occ gsh c n"
    using bucket_ok_pos [OF b] by (force simp: occ_def split: option.split)
  show "occ gsh (cache_inc gsh c n) m = occ gsh c m + (if m = n then 1 else 0)"
    using b bucket_ok_pos [OF b, of "mkhash gsh n" n]
    by (auto simp: occ_def cache_inc_tab [OF w] map_of_occ_change bucket_ok_def
        split: option.split)
  show "occ gsh (cache_dec gsh c (Some n)) m =
      (if m = n \<and> 0 < occ gsh c n then occ gsh c n - 1 else occ gsh c m)"
    using b bucket_ok_pos [OF b, of "mkhash gsh n" n]
    by (auto simp: occ_def cache_dec_tab [OF w] map_of_occ_change bucket_ok_def
        split: option.split)
qed

subsection \<open>Lookup, update and copy\<close>

definition arg_wf :: "(string \<Rightarrow> u32) \<Rightarrow> arglist list \<Rightarrow> bool" where
  "arg_wf gsh l \<longleftrightarrow> (\<forall>a \<in> set l. arg_hash a = mkhash gsh (arg_name a))"

definition arg_lookup :: "(string \<Rightarrow> u32) \<Rightarrow> arglist list \<Rightarrow> string \<Rightarrow> arg_value option" where
  "arg_lookup gsh l n = map_option arg_val (arg_get gsh (Some l) n)"

lemma arg_get_wf: "arg_wf gsh l \<Longrightarrow> arg_get gsh (Some l) n = find (\<lambda>a. arg_name a = n) l"
  unfolding arg_get_def arg_wf_def by (induction l) auto

lemma set_loop_names: "map arg_name (set_loop h n len v l) = map arg_name l"
  by (induction l) auto

lemma set_loop_wf: "arg_wf gsh l \<Longrightarrow> arg_wf gsh (set_loop h n len v l)"
  by (induction l) (auto simp: arg_wf_def)

lemma set_loop_find:
  "arg_wf gsh l \<Longrightarrow> find (\<lambda>a. arg_name a = m) (set_loop (mkhash gsh n) n len v l) =
     (if m = n then map_option (\<lambda>a. Arg n (arg_type a)
            (if arg_type a = ARG_STRUCT then struct_copy len v else v) len (arg_hash a))
            (find (\<lambda>a. arg_name a = n) l)
      else find (\<lambda>a. arg_name a = m) l)"
  by (induction l) (auto simp: arg_wf_def)

lemma del_loop_None: "arg_wf gsh l \<Longrightarrow>
    del_loop (mkhash gsh n) n l = None \<longleftrightarrow> n \<notin> arg_name ` set l"
  by (induction l) (auto simp: arg_wf_def)

lemma del_loop_Some: "del_loop h n l = Some (e, r) \<Longrightarrow>
    \<exists>p q. l = p @ e # q \<and> r = p @ q \<and> arg_name e = n \<and> arg_hash e = h
      \<and> (\<forall>a \<in> set p. \<not> (arg_hash a = h \<and> arg_name a = n))"
proof (induction l arbitrary: r)
  case (Cons a l)
  show ?case
  proof (cases "arg_hash a = h \<and> arg_name a = n")
    case True
    with Cons.prems show ?thesis by (intro exI [of _ "[]"] exI [of _ l]) auto
  next
    case False
    with Cons.prems obtain r' where r': "del_loop h n l = Some (e, r')" "r = a # r'"
      by (auto split: if_splits)
    from Cons.IH [OF r'(1)] obtain p q where "l = p @ e # q" "r' = p @ q" "arg_name e = n"
      "arg_hash e = h" "\<forall>a \<in> set p. \<not> (arg_hash a = h \<and> arg_name a = n)"
      by blast
    with False r'(2) show ?thesis by (intro exI [of _ "a # p"] exI [of _ q]) auto
  qed
qed simp

lemma find_append: "find P (xs @ ys) = (case find P xs of None \<Rightarrow> find P ys | Some x \<Rightarrow> Some x)"
  by (induction xs) auto

text \<open>The names a list holds references to, its nested lists included.\<close>

fun ref_names :: "arglist list \<Rightarrow> string list"
and ref_value :: "int \<Rightarrow> arg_value \<Rightarrow> string list" where
  "ref_names [] = []"
| "ref_names (Arg n t v len h # l) = n # ref_value t v @ ref_names l"
| "ref_value t (A_list l) = (if t = ARG_ARGLIST then ref_names l else [])"
| "ref_value t v = []"

lemma arg_dup_incs:
  "fst (arg_dup gsh c l) = foldl (cache_inc gsh) c (ref_names l)"
  "fst (dup_value gsh c t len v) = foldl (cache_inc gsh) c (ref_value t v)"
  by (induction gsh c l and gsh c t len v rule: arg_dup_dup_value.induct)
     (auto simp: Let_def split: prod.splits)

lemma ref_value_struct_copy: "ref_value t (struct_copy len v) = ref_value t v"
  by (cases v) auto

lemma arg_dup_ref_names:
  "ref_names (snd (arg_dup gsh c l)) = ref_names l"
  "ref_value t (snd (dup_value gsh c t len v)) = ref_value t v"
  by (induction gsh c l and gsh c t len v rule: arg_dup_dup_value.induct)
     (auto simp: Let_def arg_types split: prod.splits)

fun free_names :: "arglist list \<Rightarrow> string list" where
  "free_names [] = []"
| "free_names (Arg n t (A_list l) len h # al) =
     (if t = ARG_ARGLIST then free_names l else []) @ n # free_names al"
| "free_names (Arg n t v len h # al) = n # free_names al"

lemma arg_free_all_decs:
  "arg_free_all gsh c l = foldl (\<lambda>c n. cache_dec gsh c (Some n)) c (free_names l)"
  by (induction gsh c l rule: arg_free_all.induct) auto

lemma free_names_refs: "mset (free_names l) = mset (ref_names l)"
  by (induction l rule: free_names.induct) auto

text \<open>Cells whose value is what their type says; copying them copies everything.\<close>

fun arg_typed :: "arglist list \<Rightarrow> bool"
and value_typed :: "int \<Rightarrow> int \<Rightarrow> arg_value \<Rightarrow> bool" where
  "arg_typed [] = True"
| "arg_typed (Arg n t v len h # l) = (value_typed t len v \<and> arg_typed l)"
| "value_typed t len (A_list l) = (t = ARG_ARGLIST \<and> arg_typed l)"
| "value_typed t len (A_struct bs) = (t = ARG_STRUCT \<and> len = int (length bs))"
| "value_typed t len (A_str s) = (t = ARG_STRING)"
| "value_typed t len (A_int i) = (t = ARG_INT)"
| "value_typed t len (A_ptr p) = (t = ARG_PTR)"
| "value_typed t len A_null = (t \<in> {ARG_PTR, ARG_STRING, ARG_STRUCT, ARG_INT})"

lemma arg_dup_copy:
  "arg_typed l \<Longrightarrow> snd (arg_dup gsh c l) = l"
  "value_typed t len v \<Longrightarrow> snd (dup_value gsh c t len v) = v"
  by (induction gsh c l and gsh c t len v rule: arg_dup_dup_value.induct)
     (auto simp: Let_def arg_types split: prod.splits)

lemma str2arglist_loop:
  "foldl (\<lambda>(c, ret) d. arg_add_value gsh c ret d ARG_INT 0 (A_int 1)) (c, Some l) ds =
     (foldl (cache_inc gsh) c ds,
      Some (l @ map (\<lambda>d. Arg d ARG_INT (A_int 1) 0 (mkhash gsh d)) ds))"
  by (induction ds arbitrary: c l) (auto simp: arg_add_value_def arg_types)

lemma arg_add_result: "arg_add_value gsh c (Some l) n t len v =
    (cache_inc gsh c n, Some (l @ [Arg n t (if t = ARG_STRUCT then struct_copy len v else v)
       len (mkhash gsh n)]))"
  by (simp add: arg_add_value_def)

lemma arg_wf_append: "arg_wf gsh (xs @ ys) \<longleftrightarrow> arg_wf gsh xs \<and> arg_wf gsh ys"
  by (auto simp: arg_wf_def)

lemma arg_lookup_wf:
  "arg_wf gsh l \<Longrightarrow> arg_lookup gsh l n = map_option arg_val (find (\<lambda>a. arg_name a = n) l)"
  by (simp add: arg_lookup_def arg_get_wf)

lemma del_loop_lookup:
  assumes w: "arg_wf gsh l" and d: "del_loop (mkhash gsh n) n l = Some (e, r)"
  shows "arg_wf gsh r" and "m \<noteq> n \<Longrightarrow> arg_lookup gsh r m = arg_lookup gsh l m"
    and "distinct (map arg_name l) \<Longrightarrow> arg_lookup gsh r n = None" and "arg_name e = n"
proof -
  from del_loop_Some [OF d] obtain p q where l: "l = p @ e # q" "r = p @ q" "arg_name e = n"
    by blast
  with w show w': "arg_wf gsh r" by (simp add: arg_wf_def)
  show "arg_name e = n" by fact
  show "m \<noteq> n \<Longrightarrow> arg_lookup gsh r m = arg_lookup gsh l m"
    using arg_lookup_wf [OF w, of m] arg_lookup_wf [OF w', of m] l
    by (auto simp: find_append split: option.splits)
  show "distinct (map arg_name l) \<Longrightarrow> arg_lookup gsh r n = None"
    using arg_lookup_wf [OF w', of n] l by (auto simp: find_None_iff image_iff)
qed

lemma arg_set_lookup:
  assumes w: "arg_wf gsh l" and t: "arg_get_type gsh (Some l) n \<noteq> ARG_STRUCT"
  shows "\<exists>l'. arg_set_value gsh (Some l) (Some n) len v
             = (if arg_lookup gsh l n = None then -1 else 0, Some l')
           \<and> arg_wf gsh l'
           \<and> arg_lookup gsh l' = (if arg_lookup gsh l n = None then arg_lookup gsh l
                                   else (arg_lookup gsh l)(n := Some v))"
proof (cases "arg_get gsh (Some l) n")
  case None
  then show ?thesis using w by (simp add: arg_set_value_def arg_lookup_def)
next
  case (Some a)
  let ?l' = "set_loop (mkhash gsh n) n len v l"
  have w': "arg_wf gsh ?l'" using w by (rule set_loop_wf)
  have "arg_lookup gsh ?l' = (arg_lookup gsh l)(n := Some v)"
    using Some t
    by (auto simp: fun_eq_iff arg_lookup_wf [OF w'] arg_lookup_wf [OF w] set_loop_find [OF w]
        arg_get_wf [OF w] arg_get_type_def)
  with Some w' show ?thesis by (simp add: arg_set_value_def arg_lookup_def)
qed

lemma arg_del_lookup:
  assumes w: "arg_wf gsh l" and cw: "cache_wf gsh c" and d: "distinct (map arg_name l)"
  shows "\<exists>c' l'. arg_del_value gsh c (Some l) n = (c', Some l')
           \<and> arg_wf gsh l' \<and> cache_wf gsh c'
           \<and> arg_lookup gsh l' = (arg_lookup gsh l)(n := None)
           \<and> occ gsh c' n = (if arg_lookup gsh l n \<noteq> None \<and> 0 < occ gsh c n
                              then occ gsh c n - 1 else occ gsh c n)"
proof (cases "del_loop (mkhash gsh n) n l")
  case None
  then have "arg_lookup gsh l n = None"
    by (auto simp: arg_lookup_wf [OF w] del_loop_None [OF w] find_None_iff)
  with None w cw show ?thesis by (auto simp: arg_del_value_def fun_upd_idem)
next
  case (Some er)
  then obtain e r where er: "del_loop (mkhash gsh n) n l = Some (e, r)" by (cases er) auto
  note r = del_loop_lookup [OF w er]
  have "n \<in> arg_name ` set l" using er del_loop_None [OF w, of n] by auto
  then have "arg_lookup gsh l n \<noteq> None" by (auto simp: arg_lookup_wf [OF w] find_None_iff)
  with er r d names.cnt_dec [OF cw, of n n] names.wf_dec [OF cw, of n] show ?thesis
    by (auto simp: arg_del_value_def arg_free_def fun_eq_iff)
qed

subsection \<open>Properties\<close>

text \<open>
  Adding to an argument list: lookups of other names are unchanged, the new value is
  found under its name when the name was free, an earlier cell of the name keeps hiding
  it otherwise; the hash stored with each cell stays right and the name gains one
  reference in the cache.
\<close>

theorem arg_add_value_semantics:
  assumes "arg_wf gsh l" and "cache_wf gsh c" and "t \<noteq> ARG_STRUCT"
  shows "\<exists>l' c'. arg_add_value gsh c (Some l) n t len v = (c', Some l')
    \<and> arg_wf gsh l' \<and> cache_wf gsh c'
    \<and> arg_lookup gsh l' = (case arg_lookup gsh l n of
         None \<Rightarrow> (arg_lookup gsh l)(n := Some v) | Some _ \<Rightarrow> arg_lookup gsh l)
    \<and> occ gsh c' = (occ gsh c)(n := occ gsh c n + 1)"
proof -
  let ?l' = "l @ [Arg n t v len (mkhash gsh n)]"
  have w: "arg_wf gsh ?l'" using assms(1) by (simp add: arg_wf_def)
  have "arg_lookup gsh ?l' = (case arg_lookup gsh l n of
         None \<Rightarrow> (arg_lookup gsh l)(n := Some v) | Some _ \<Rightarrow> arg_lookup gsh l)"
    by (auto simp: fun_eq_iff arg_lookup_wf [OF w] arg_lookup_wf [OF assms(1)] find_append
        split: option.split)
  moreover have "occ gsh (cache_inc gsh c n) = (occ gsh c)(n := occ gsh c n + 1)"
    by (auto simp: fun_eq_iff names.cnt_inc [OF assms(2)])
  ultimately show ?thesis
    using assms w names.wf_inc [OF assms(2), of n] by (simp add: arg_add_result)
qed

theorem arg_add_value_semantics_witness:
  "\<exists>l' c'. arg_add_value (\<lambda>s. of_nat (length s)) cache_start (Some []) ''a'' ARG_INT 0 (A_int 7)
      = (c', Some l')
    \<and> arg_lookup (\<lambda>s. of_nat (length s)) l' ''a'' = Some (A_int 7)
    \<and> occ (\<lambda>s. of_nat (length s)) c' ''a'' = 1"
proof -
  let ?g = "\<lambda>s :: string. of_nat (length s) :: u32"
  have h: "arg_wf ?g []" "cache_wf ?g cache_start" "ARG_INT \<noteq> ARG_STRUCT"
    by (simp_all add: arg_wf_def cache_wf_def bucket_ok_def cache_start_def arg_types)
  have "arg_lookup ?g [] ''a'' = None" "occ ?g cache_start ''a'' = 0"
    by (simp_all add: arg_lookup_def arg_get_def occ_def cache_start_def)
  with arg_add_value_semantics [OF h, of "''a''" 0 "A_int 7"] show ?thesis by auto
qed

text \<open>
  Setting a name that is in the list changes exactly the value found under it and
  returns 0; setting a missing name changes nothing and returns -1. Deleting a name
  leaves the lookups of all other names as they were, releases the name once in the
  cache, and, where the name occurred once, leaves nothing under it.
\<close>

theorem arg_set_del_semantics:
  assumes "arg_wf gsh l" and "cache_wf gsh c" and "distinct (map arg_name l)"
    and "arg_get_type gsh (Some l) n \<noteq> ARG_STRUCT"
  shows "(\<exists>l'. arg_set_value gsh (Some l) (Some n) len v
             = (if arg_lookup gsh l n = None then -1 else 0, Some l')
           \<and> arg_wf gsh l'
           \<and> arg_lookup gsh l' = (if arg_lookup gsh l n = None then arg_lookup gsh l
                                   else (arg_lookup gsh l)(n := Some v)))
      \<and> (\<exists>c' l'. arg_del_value gsh c (Some l) n = (c', Some l')
           \<and> arg_wf gsh l' \<and> cache_wf gsh c'
           \<and> arg_lookup gsh l' = (arg_lookup gsh l)(n := None)
           \<and> occ gsh c' n = (if arg_lookup gsh l n \<noteq> None \<and> 0 < occ gsh c n
                              then occ gsh c n - 1 else occ gsh c n))"
  by (rule conjI [OF arg_set_lookup [OF assms(1,4)] arg_del_lookup [OF assms(1-3)]])

theorem arg_set_del_semantics_witness:
  "let g = (\<lambda>s. of_nat (length s)); l = [Arg ''a'' ARG_INT (A_int 1) 0 1] in
   (\<exists>l'. arg_set_value g (Some l) (Some ''a'') 0 (A_int 2) = (0, Some l')
       \<and> arg_lookup g l' ''a'' = Some (A_int 2))
   \<and> (\<exists>c' l'. arg_del_value g cache_start (Some l) ''a'' = (c', Some l')
       \<and> arg_lookup g l' ''a'' = None)"
proof -
  let ?g = "\<lambda>s :: string. of_nat (length s) :: u32"
  let ?l = "[Arg ''a'' ARG_INT (A_int 1) 0 1]"
  have h: "arg_wf ?g ?l" "cache_wf ?g cache_start" "distinct (map arg_name ?l)"
    "arg_get_type ?g (Some ?l) ''a'' \<noteq> ARG_STRUCT"
    by (simp_all add: arg_wf_def mkhash_def cache_wf_def bucket_ok_def cache_start_def
        arg_get_type_def arg_get_def arg_types)
  have "arg_lookup ?g ?l ''a'' = Some (A_int 1)"
    by (simp add: arg_lookup_def arg_get_def mkhash_def)
  with arg_set_del_semantics [OF h, of 0 "A_int 2"] show ?thesis by auto
qed

text \<open>
  C33: copying an argument list and releasing the copy with all it holds leaves the
  reference count of every name as it was, nested lists included: no name is freed early
  and none leaks.
\<close>

theorem arg_dup_free_all_balanced:
  assumes "cache_wf gsh c" and "arg_dup gsh c l = (c', l')"
  shows "occ gsh (arg_free_all gsh c' l') = occ gsh c \<and> cache_wf gsh (arg_free_all gsh c' l')"
proof -
  have c': "c' = foldl (cache_inc gsh) c (ref_names l)" and l': "ref_names l' = ref_names l"
    using arg_dup_incs(1) [of gsh c l] arg_dup_ref_names(1) [of gsh c l] assms(2) by simp_all
  have m: "mset (free_names l') = mset (ref_names l)"
    by (simp add: free_names_refs l')
  have "occ gsh (arg_free_all gsh c' l') n = occ gsh c n" for n
    unfolding arg_free_all_decs c' by (rule names.take_and_drop [OF assms(1) m])
  moreover have "cache_wf gsh (arg_free_all gsh c' l')"
    unfolding arg_free_all_decs c' by (intro names.wf_decs names.wf_incs assms(1))
  ultimately show ?thesis by auto
qed

theorem arg_dup_free_all_balanced_witness:
  "let g = (\<lambda>s. of_nat (length s)); l = [Arg ''a'' ARG_ARGLIST (A_list [Arg ''b'' ARG_INT (A_int 1) 0 1]) 0 1];
       (c', l') = arg_dup g cache_start l in
   l' = l \<and> occ g c' ''b'' = 1 \<and> occ g (arg_free_all g c' l') = occ g cache_start"
proof -
  let ?g = "\<lambda>s :: string. of_nat (length s) :: u32"
  let ?l = "[Arg ''a'' ARG_ARGLIST (A_list [Arg ''b'' ARG_INT (A_int 1) 0 1]) 0 1]"
  have w: "cache_wf ?g cache_start" by (simp add: cache_wf_def bucket_ok_def cache_start_def)
  obtain c' l' where d: "arg_dup ?g cache_start ?l = (c', l')" by fastforce
  have "l' = ?l" using arg_dup_copy(1) [of ?l ?g cache_start] d by (simp add: arg_types)
  moreover have "occ ?g c' ''b'' = 1"
    using arg_dup_incs(1) [of ?g cache_start ?l] names.cnt_incs [OF w, of "ref_names ?l" "''b''"] d
    by (simp add: occ_def cache_start_def arg_types)
  ultimately show ?thesis
    using arg_dup_free_all_balanced [OF w d] by (simp only: Let_def d) simp
qed

text \<open>
  The copy of a list whose values match their types is that list, cell by cell and
  through all nested lists.
\<close>

theorem arg_dup_faithful:
  assumes "arg_typed l"
  shows "snd (arg_dup gsh c l) = l"
  using assms by (rule arg_dup_copy(1))

theorem arg_dup_faithful_witness:
  "snd (arg_dup (\<lambda>s. 0) cache_start
      [Arg ''p'' ARG_ARGLIST (A_list [Arg ''x'' ARG_STRUCT (A_struct [1, 2]) 2 0]) 0 0])
    = [Arg ''p'' ARG_ARGLIST (A_list [Arg ''x'' ARG_STRUCT (A_struct [1, 2]) 2 0]) 0 0]"
  by (rule arg_dup_faithful) (simp add: arg_types)

text \<open>
  A comma-separated string becomes a list with one integer cell per piece, in order,
  each name referenced once more; the empty string and NULL give NULL and leave the
  cache alone.
\<close>

theorem str2arglist_semantics:
  "str2arglist gsh strsplit c (Some s) =
     (if s = [] then (c, None)
      else (foldl (cache_inc gsh) c (strsplit s '', ''),
            Some (map (\<lambda>d. Arg d ARG_INT (A_int 1) 0 (mkhash gsh d)) (strsplit s '', ''))))"
  by (simp add: str2arglist_def str2arglist_loop)

end
