(* ===== verification/Networking.thy ===== *)
theory Networking
  imports Prelude
begin

text \<open>
  \<open>openvas-libraries/base/openvas_networking.c\<close>: the source interface of the scanner,
  the mapping of IPv4 addresses into IPv6, name resolution, and the port range strings
  of the form \<open>103,U:200-1024,T:3-4\<close>. An IPv4 address is its value in host byte order (a
  32-bit word), an IPv6 address the list of its sixteen bytes, most significant first.
  \<open>getifaddrs\<close>, \<open>getaddrinfo\<close> and GLib's \<open>g_strsplit\<close> and \<open>g_strstrip\<close> are parameters.
\<close>

subsection \<open>Addresses\<close>

type_synonym in_addr = u32
type_synonym in6_addr = "byte list"

datatype family = AF_UNSPEC | AF_INET | AF_INET6 | AF_other

datatype sockaddr = Sin in_addr | Sin6 in6_addr | Sother

fun sa_family :: "sockaddr \<Rightarrow> family" where
  "sa_family (Sin _) = AF_INET"
| "sa_family (Sin6 _) = AF_INET6"
| "sa_family Sother = AF_other"

text \<open>The four bytes of an IPv4 address in network order.\<close>

definition in_addr_bytes :: "in_addr \<Rightarrow> byte list" where
  "in_addr_bytes a = [ucast (drop_bit 24 a), ucast (drop_bit 16 a), ucast (drop_bit 8 a), ucast a]"

definition ipv4_as_ipv6 :: "in_addr \<Rightarrow> in6_addr" where
  "ipv4_as_ipv6 ip4 =
     [0, 0, 0, 0] @ [0, 0, 0, 0] @ [0, 0, 255, 255] @ in_addr_bytes ip4"

subsection \<open>The source interface\<close>

record source =
  source_iface :: string
  source_addr :: in_addr
  source_addr6 :: in6_addr

record ifaddr =
  ifa_name :: string
  ifa_addr :: "sockaddr option"

definition IFNAMSIZ :: nat where "IFNAMSIZ = 16"

definition source_default :: source where
  "source_default =
     \<lparr>source_iface = [], source_addr = 0, source_addr6 = replicate 16 0\<rparr>"

definition ifa_step :: "string \<Rightarrow> int \<times> source \<Rightarrow> ifaddr \<Rightarrow> int \<times> source" where
  "ifa_step iface rs ifa =
     (case ifa_addr ifa of
        Some sa \<Rightarrow>
          if iface = ifa_name ifa then
            (case sa of
               Sin a \<Rightarrow> (0, (snd rs)\<lparr>source_addr := a\<rparr>)
             | Sin6 a \<Rightarrow> (0, (snd rs)\<lparr>source_addr6 := a\<rparr>)
             | Sother \<Rightarrow> rs)
          else rs
      | None \<Rightarrow> rs)"

text \<open>\<open>getifaddrs\<close> is the argument \<open>ifs\<close>, \<open>None\<close> for its failure.\<close>

definition openvas_source_iface_init ::
  "ifaddr list option \<Rightarrow> source \<Rightarrow> string option \<Rightarrow> int \<times> source" where
  "openvas_source_iface_init ifs g iface =
     (let g = g\<lparr>source_iface := [], source_addr := 0, source_addr6 := replicate 16 0\<rparr> in
      case iface of
        None \<Rightarrow> (1, g)
      | Some name \<Rightarrow>
          (case ifs of
             None \<Rightarrow> (1, g)
           | Some l \<Rightarrow>
               (let (ret, g) = foldl (ifa_step name) (1, g) l in
                if ret = 0 then (ret, g\<lparr>source_iface := take IFNAMSIZ name\<rparr>)
                else (ret, g))))"

definition openvas_source_iface_is_set :: "source \<Rightarrow> bool" where
  "openvas_source_iface_is_set g \<longleftrightarrow> source_iface g \<noteq> []"

text \<open>
  \<open>bind\<close> is the parameter: the family, address and port handed to it. The result is the
  return value of the function.
\<close>

definition openvas_source_set_socket ::
  "(sockaddr \<Rightarrow> 16 word \<Rightarrow> int) \<Rightarrow> source \<Rightarrow> int \<Rightarrow> family \<Rightarrow> int" where
  "openvas_source_set_socket bind g port fam =
     (if fam = AF_INET then
        (if bind (Sin (source_addr g)) (word_of_int port) < 0 then -1 else 0)
      else if fam = AF_INET6 then
        (if bind (Sin6 (source_addr6 g)) (word_of_int port) < 0 then -1 else 0)
      else -1)"

definition openvas_source_addr_as_addr6 :: "source \<Rightarrow> in6_addr" where
  "openvas_source_addr_as_addr6 g = ipv4_as_ipv6 (source_addr g)"

subsection \<open>Name resolution\<close>

text \<open>
  \<open>getaddrinfo\<close> is a function of the name and the family in its hints, \<open>None\<close> for an error
  and otherwise the list of addresses. The result is \<open>None\<close> for -1 and otherwise what was
  written to the destination, which stays as it was when no entry has the family.
\<close>

type_synonym resolver = "string \<Rightarrow> family \<Rightarrow> sockaddr list option"

fun resolve_loop :: "family \<Rightarrow> sockaddr list \<Rightarrow> sockaddr option" where
  "resolve_loop fam [] = None"
| "resolve_loop fam (p # ps) =
     (if sa_family p = fam \<or> fam = AF_UNSPEC then
        (case p of
           Sin a \<Rightarrow> Some (if fam = AF_UNSPEC then Sin6 (ipv4_as_ipv6 a) else Sin a)
         | Sin6 a \<Rightarrow> Some (Sin6 a)
         | Sother \<Rightarrow> None)
      else resolve_loop fam ps)"

definition openvas_resolve ::
  "resolver \<Rightarrow> string option \<Rightarrow> family \<Rightarrow> sockaddr option option" where
  "openvas_resolve gai name fam =
     (case name of
        None \<Rightarrow> None
      | Some n \<Rightarrow>
          if fam \<noteq> AF_INET \<and> fam \<noteq> AF_INET6 \<and> fam \<noteq> AF_UNSPEC then None
          else map_option (resolve_loop fam) (gai n fam))"

definition openvas_resolve_as_addr6 :: "resolver \<Rightarrow> string option \<Rightarrow> sockaddr option option" where
  "openvas_resolve_as_addr6 gai name = openvas_resolve gai name AF_UNSPEC"

subsection \<open>Port ranges\<close>

datatype port_protocol = PORT_PROTOCOL_TCP | PORT_PROTOCOL_UDP | PORT_PROTOCOL_OTHER

record range =
  range_comment :: "string option"
  range_end :: int
  range_exclude :: int
  range_id :: "string option"
  range_start :: int
  range_type :: port_protocol

definition skip_blanks :: "string \<Rightarrow> string" where
  "skip_blanks s = dropWhile isblank s"

text \<open>The checks on an element with a hyphen; \<open>hyphen\<close> is the text after the hyphen.\<close>

definition validate_hyphen :: "string \<Rightarrow> string \<Rightarrow> bool" where
  "validate_hyphen element hyphen =
     (let first = skip_blanks element in
      if char_at first 0 = CHR ''-'' then False else
      let (number1, end1, erange1) = strtol 10 first; end1 = skip_blanks end1 in
      if erange1 \<or> char_at end1 0 \<noteq> CHR ''-'' then False
      else if number1 = 0 then False
      else if number1 > 65535 then False else
      let hyphen = skip_blanks hyphen in
      if hyphen = [] then False else
      let (number2, end2, erange2) = strtol 10 hyphen; end2 = skip_blanks end2 in
      if erange2 \<or> end2 \<noteq> [] then False
      else if number2 = 0 then False
      else if number2 > 65535 then False
      else if number1 > number2 then False
      else True)"

text \<open>The checks on an element without a hyphen; an empty one is accepted.\<close>

definition validate_single :: "string \<Rightarrow> bool" where
  "validate_single element =
     (let only = skip_blanks element in
      if only = [] then True else
      let (number, end', erange) = strtol 10 only; end' = skip_blanks end' in
      if erange \<or> end' \<noteq> [] then False
      else if number = 0 then False
      else if number > 65535 then False
      else True)"

definition has_type_spec :: "string \<Rightarrow> bool" where
  "has_type_spec element \<longleftrightarrow> 2 \<le> length element
     \<and> (char_at element 0 = CHR ''T'' \<or> char_at element 0 = CHR ''U'')
     \<and> char_at element 1 = CHR '':''"

definition validate_element :: "(string \<Rightarrow> string) \<Rightarrow> string \<Rightarrow> bool" where
  "validate_element strstrip point =
     (let element = strstrip point;
          element = (if has_type_spec element then drop 2 element else element)
      in case str_cut CHR ''-'' element of
           Some (_, hyphen) \<Rightarrow> validate_hyphen element hyphen
         | None \<Rightarrow> validate_single element)"

definition validate_port_range ::
  "(string \<Rightarrow> string \<Rightarrow> string list) \<Rightarrow> (string \<Rightarrow> string) \<Rightarrow> string option \<Rightarrow> int" where
  "validate_port_range strsplit strstrip port_range =
     (case port_range of
        None \<Rightarrow> 1
      | Some s \<Rightarrow>
          (let s = skip_blanks s in
           if s = [] then 1
           else if list_all (validate_element strstrip) (strsplit (newlines_to_commas s) '','')
                then 0 else 1))"

definition mk_range :: "int \<Rightarrow> int \<Rightarrow> bool \<Rightarrow> range" where
  "mk_range start end' tcp =
     \<lparr>range_comment = None, range_end = end', range_exclude = 0, range_id = None,
      range_start = start,
      range_type = (if tcp then PORT_PROTOCOL_TCP else PORT_PROTOCOL_UDP)\<rparr>"

text \<open>
  One round of the loop: the protocol toggle after the element, and the range it adds.
  The outer \<open>None\<close> is the failing assertion.
\<close>

definition range_element ::
  "(string \<Rightarrow> string) \<Rightarrow> bool \<Rightarrow> string \<Rightarrow> (bool \<times> range option) option" where
  "range_element strstrip tcp point =
     (let element = strstrip point;
          tcp = (if 2 \<le> length element \<and> char_at element 1 = CHR '':''
                 then (if char_at element 0 = CHR ''T'' then True
                       else if char_at element 0 = CHR ''U'' then False else tcp)
                 else tcp);
          element = skip_blanks (if has_type_spec element then drop 2 element else element)
      in case str_cut CHR ''-'' element of
           Some (start, hyphen) \<Rightarrow>
             (let hyphen = skip_blanks hyphen in
              if hyphen = [] then None
              else Some (tcp, Some (mk_range (atoi start) (atoi hyphen) tcp)))
         | None \<Rightarrow>
             if element \<noteq> [] then Some (tcp, Some (mk_range (atoi element) (atoi element) tcp))
             else Some (tcp, None))"

fun ranges_loop :: "(string \<Rightarrow> string) \<Rightarrow> bool \<Rightarrow> string list \<Rightarrow> range list option" where
  "ranges_loop strstrip tcp [] = Some []"
| "ranges_loop strstrip tcp (p # ps) =
     (case range_element strstrip tcp p of
        None \<Rightarrow> None
      | Some (tcp, r) \<Rightarrow>
          map_option ((@) (case r of None \<Rightarrow> [] | Some x \<Rightarrow> [x])) (ranges_loop strstrip tcp ps))"

definition port_range_ranges ::
  "(string \<Rightarrow> string \<Rightarrow> string list) \<Rightarrow> (string \<Rightarrow> string) \<Rightarrow> string \<Rightarrow> range list option" where
  "port_range_ranges strsplit strstrip port_range =
     ranges_loop strstrip True
       (strsplit (newlines_to_commas (skip_blanks port_range)) '','')"

definition port_in_port_ranges :: "int \<Rightarrow> port_protocol \<Rightarrow> range list option \<Rightarrow> bool" where
  "port_in_port_ranges pnum ptype pranges =
     (case pranges of
        None \<Rightarrow> False
      | Some rs \<Rightarrow>
          if pnum < 0 \<or> pnum > 65536 then False
          else list_ex (\<lambda>r. range_type r = ptype \<and> range_start r \<le> pnum \<and> pnum \<le> range_end r) rs)"

subsection \<open>Validated elements\<close>

definition range_ok :: "range \<Rightarrow> bool" where
  "range_ok r \<longleftrightarrow> 1 \<le> range_start r \<and> range_start r \<le> range_end r \<and> range_end r \<le> 65535
     \<and> range_type r \<noteq> PORT_PROTOCOL_OTHER \<and> range_exclude r = 0"

lemma atoi_of_strtol: "strtol 10 s = (v, e, er) \<Longrightarrow> 0 \<le> v \<Longrightarrow> v \<le> 65535 \<Longrightarrow> atoi s = v"
  by (simp add: atoi_def to_int32_id)

lemma skip_blanks_dash: "skip_blanks (p @ CHR ''-'' # q) = skip_blanks p @ CHR ''-'' # q"
  by (simp add: skip_blanks_def dropWhile_append_stop)

lemma skip_blanks_shape: "\<exists>bl. e = bl @ skip_blanks e \<and> (\<forall>c \<in> set bl. isblank c)"
  unfolding skip_blanks_def by (metis set_takeWhileD takeWhile_dropWhile_id)

lemma spaces_no_dash: "\<forall>c \<in> set sp. isspace c \<Longrightarrow> CHR ''-'' \<notin> set sp"
  by (metis dash_classes(1))

lemma blanks_no_dash: "\<forall>c \<in> set bl. isblank c \<Longrightarrow> CHR ''-'' \<notin> set bl"
  by (metis dash_classes(2))

lemma digits_no_dash: "\<forall>c \<in> set ds. is_digit_in 10 c \<Longrightarrow> CHR ''-'' \<notin> set ds"
  by (metis dash_classes(4))

lemma first_dash_unique:
  "p @ CHR ''-'' # q = p' @ CHR ''-'' # q' \<Longrightarrow> CHR ''-'' \<notin> set p \<Longrightarrow> CHR ''-'' \<notin> set p' \<Longrightarrow>
     p = p' \<and> q = q'"
  by (metis option.inject prod.inject str_cut_Some)

lemma blanks_stop_digit: "\<forall>c \<in> set bl. isblank c \<Longrightarrow> bl = [] \<or> \<not> is_digit_in 10 (hd bl)"
  by (cases bl) (auto dest: digit10_not_special isblank_isspace)

text \<open>
  The heart of the check: where the hyphen that \<open>strtol\<close> stopped at is the first hyphen of
  the element, both numbers are read back by \<open>atoi\<close>; where the first hyphen was a minus
  sign the second number cannot end the element.
\<close>

lemma validate_hyphen_numbers:
  assumes "CHR ''-'' \<notin> set pre" and v: "validate_hyphen (pre @ CHR ''-'' # post) post"
  shows "skip_blanks post \<noteq> [] \<and> 1 \<le> atoi (skip_blanks pre)
    \<and> atoi (skip_blanks pre) \<le> atoi (skip_blanks post) \<and> atoi (skip_blanks post) \<le> 65535"
proof -
  define p where "p = skip_blanks pre"
  obtain n1 e1 where s1: "strtol 10 (p @ CHR ''-'' # post) = (n1, e1, False)"
    and e1: "char_at (skip_blanks e1) 0 = CHR ''-''" and n1: "n1 \<noteq> 0" "n1 \<le> 65535"
    using v by (auto simp: validate_hyphen_def Let_def skip_blanks_dash p_def split: prod.splits if_splits)
  obtain n2 e2 where post: "skip_blanks post \<noteq> []"
    and s2: "strtol 10 (skip_blanks post) = (n2, e2, False)"
    and e2: "skip_blanks e2 = []" and n2: "n2 \<noteq> 0" "n2 \<le> 65535" "n1 \<le> n2"
    using v s1 by (auto simp: validate_hyphen_def Let_def skip_blanks_dash p_def split: prod.splits if_splits)
  obtain sp sg ds where
    sh: "p @ CHR ''-'' # post = sp @ sg @ ds @ e1" "\<forall>c \<in> set sp. isspace c"
      "sg = [] \<or> sg = ''+'' \<or> sg = ''-''" "ds \<noteq> []" "\<forall>c \<in> set ds. is_digit_in 10 c"
      "n1 = (if sg = ''-'' then - int (num_of 10 ds) else int (num_of 10 ds))"
      "e1 = [] \<or> \<not> is_digit_in 10 (hd e1)"
    by (rule strtol10_shape [OF s1 n1(1)])
  obtain bl where bl: "e1 = bl @ skip_blanks e1" "\<forall>c \<in> set bl. isblank c"
    using skip_blanks_shape by blast
  from e1 obtain e1' where e1': "skip_blanks e1 = CHR ''-'' # e1'"
    by (cases "skip_blanks e1") (auto simp: char_at_def)
  have p: "CHR ''-'' \<notin> set p"
    using assms(1) by (auto simp: p_def skip_blanks_def dest: set_dropWhileD)
  have "sg \<noteq> ''-''"
  proof
    assume neg: "sg = ''-''"
    with sh(1) have "p = sp \<and> post = ds @ e1"
      by (intro first_dash_unique p spaces_no_dash sh(2)) simp
    moreover have "skip_blanks (ds @ e1) = ds @ e1"
      using sh(4,5) by (cases ds) (auto simp: skip_blanks_def dest: digit10_not_special isblank_isspace)
    ultimately have "e2 = e1"
      using s2 strtol10_build [of "[]" "[]" ds e1] sh(4,5,7) by (auto simp: Let_def split: if_splits)
    with e2 e1' show False by simp
  qed
  with sh(3) have sg: "sg = [] \<or> sg = ''+''" "CHR ''-'' \<notin> set sg" by auto
  have "p = sp @ sg @ ds @ bl"
    using sh(1) bl(1) e1' first_dash_unique [of p post "sp @ sg @ ds @ bl" e1'] p sg(2)
      spaces_no_dash [OF sh(2)] digits_no_dash [OF sh(5)] blanks_no_dash [OF bl(2)] by auto
  then have "strtol 10 p = (n1, bl, False)"
    using strtol10_build [OF sh(2,3,4,5) blanks_stop_digit [OF bl(2)]] sg(1) sh(6) n1(2)
    by (auto simp: Let_def LONG_MAX_def LONG_MIN_def)
  moreover have "0 < n1" using sh(6) sg(1) n1(1) by auto
  ultimately have "atoi p = n1" and "1 \<le> n1"
    using n1 atoi_of_strtol [of p n1 bl False] by auto
  moreover have "atoi (skip_blanks post) = n2"
    using s2 n2 \<open>0 < n1\<close> by (intro atoi_of_strtol) auto
  ultimately show ?thesis using post n2 by (auto simp: p_def)
qed

lemma validate_single_number:
  assumes "CHR ''-'' \<notin> set s" and v: "validate_single s" and ne: "skip_blanks s \<noteq> []"
  shows "1 \<le> atoi (skip_blanks s) \<and> atoi (skip_blanks s) \<le> 65535"
proof -
  obtain n e where st: "strtol 10 (skip_blanks s) = (n, e, False)" and n: "n \<noteq> 0" "n \<le> 65535"
    using v ne by (auto simp: validate_single_def Let_def split: prod.splits if_splits)
  obtain sp sg ds where "skip_blanks s = sp @ sg @ ds @ e"
    and nv: "n = (if sg = ''-'' then - int (num_of 10 ds) else int (num_of 10 ds))"
    by (rule strtol10_shape [OF st n(1)]) blast
  moreover have "CHR ''-'' \<notin> set (skip_blanks s)"
    using assms(1) by (auto simp: skip_blanks_def dest: set_dropWhileD)
  ultimately have "sg \<noteq> ''-''" by auto
  with nv n have "0 < n" by auto
  with atoi_of_strtol [OF st] n show ?thesis by auto
qed

lemma validated_range_element:
  assumes "validate_element strstrip p"
  shows "\<exists>tcp' r. range_element strstrip tcp p = Some (tcp', r)
    \<and> (\<forall>x. r = Some x \<longrightarrow> range_ok x)"
proof -
  define el where "el = (if has_type_spec (strstrip p) then drop 2 (strstrip p) else strstrip p)"
  show ?thesis
  proof (cases "str_cut CHR ''-'' el")
    case None
    with assms have v: "validate_single el"
      by (simp add: validate_element_def Let_def flip: el_def)
    from None have nd: "CHR ''-'' \<notin> set el" by (simp add: str_cut_None)
    have "str_cut CHR ''-'' (skip_blanks el) = None"
      using nd by (auto simp: str_cut_None skip_blanks_def dest: set_dropWhileD)
    with validate_single_number [OF nd v] show ?thesis
      by (auto simp: range_element_def Let_def mk_range_def range_ok_def simp flip: el_def)
  next
    case (Some ab)
    then obtain pre post where cut: "str_cut CHR ''-'' el = Some (pre, post)"
      by (cases ab) auto
    then have el: "el = pre @ CHR ''-'' # post" "CHR ''-'' \<notin> set pre"
      by (simp_all add: str_cut_Some)
    have "validate_hyphen el post"
      using assms cut by (simp add: validate_element_def Let_def flip: el_def)
    then have "validate_hyphen (pre @ CHR ''-'' # post) post" by (simp only: el(1))
    note n = validate_hyphen_numbers [OF el(2) this]
    have "str_cut CHR ''-'' (skip_blanks el) = Some (skip_blanks pre, post)"
      using el(2) by (auto simp: el(1) skip_blanks_dash str_cut_Some)
         (auto simp: skip_blanks_def dest: set_dropWhileD)
    with n show ?thesis
      by (auto simp: range_element_def Let_def mk_range_def range_ok_def simp flip: el_def)
  qed
qed

lemma validated_ranges_loop:
  "list_all (validate_element strstrip) ps \<Longrightarrow>
     \<exists>rs. ranges_loop strstrip tcp ps = Some rs \<and> list_all range_ok rs"
proof (induction ps arbitrary: tcp)
  case (Cons p ps)
  then obtain tcp' r where r: "range_element strstrip tcp p = Some (tcp', r)"
    "\<And>x. r = Some x \<Longrightarrow> range_ok x"
    using validated_range_element [of strstrip p tcp] by auto
  from Cons obtain rs where "ranges_loop strstrip tcp' ps = Some rs" "list_all range_ok rs"
    by fastforce
  with r show ?case by (auto split: option.splits)
qed simp

lemma validated_ranges:
  assumes "validate_port_range strsplit strstrip (Some s) = 0"
  shows "\<exists>rs. port_range_ranges strsplit strstrip s = Some rs \<and> list_all range_ok rs"
proof -
  have "list_all (validate_element strstrip)
      (strsplit (newlines_to_commas (skip_blanks s)) '','')"
    using assms by (simp add: validate_port_range_def Let_def split: if_splits)
  then show ?thesis
    unfolding port_range_ranges_def by (rule validated_ranges_loop)
qed

subsection \<open>Searching the interfaces\<close>

definition ifa_usable :: "string \<Rightarrow> ifaddr \<Rightarrow> bool" where
  "ifa_usable name i \<longleftrightarrow> ifa_name i = name \<and> (\<exists>a. ifa_addr i = Some a \<and> a \<noteq> Sother)"

lemma ifa_step_skip: "\<not> ifa_usable name i \<Longrightarrow> ifa_step name rs i = rs"
  by (auto simp: ifa_usable_def ifa_step_def split: option.splits sockaddr.splits)

lemma ifa_step_hit: "ifa_usable name i \<Longrightarrow>
    fst (ifa_step name rs i) = 0 \<and> source_iface (snd (ifa_step name rs i)) = source_iface (snd rs)"
  by (auto simp: ifa_usable_def ifa_step_def split: option.splits sockaddr.splits)

lemma source_fold:
  "source_iface (snd (foldl (ifa_step name) rs ifs)) = source_iface (snd rs)
   \<and> (if \<exists>i \<in> set ifs. ifa_usable name i then fst (foldl (ifa_step name) rs ifs) = 0
      else foldl (ifa_step name) rs ifs = rs)"
proof (induction ifs arbitrary: rs)
  case (Cons i ifs)
  show ?case
  proof (cases "ifa_usable name i")
    case True
    with Cons.IH [of "ifa_step name rs i"] ifa_step_hit [OF True, of rs] show ?thesis
      by (cases "\<exists>i \<in> set ifs. ifa_usable name i") auto
  next
    case False
    with Cons.IH [of rs] show ?thesis by (simp add: ifa_step_skip)
  qed
qed simp

subsection \<open>Properties\<close>

text \<open>
  C31: for every port range string that \<open>validate_port_range\<close> accepts, \<open>port_range_ranges\<close>
  passes its assertion and returns ranges that all run upwards between 1 and 65535, carry
  one of the two protocols and exclude nothing, whatever the separators and blanks in the
  string are.
\<close>

theorem validated_port_ranges_ok:
  assumes "validate_port_range strsplit strstrip (Some s) = 0"
  shows "\<exists>rs. port_range_ranges strsplit strstrip s = Some rs \<and> list_all range_ok rs"
  using assms by (rule validated_ranges)

text \<open>
  A concrete pair of library functions for the witnesses: split at every separator
  character, and strip the white space at both ends.
\<close>

fun split_char :: "char \<Rightarrow> string \<Rightarrow> string list" where
  "split_char c [] = [[]]"
| "split_char c (x # xs) =
     (if x = c then [] # split_char c xs
      else (case split_char c xs of [] \<Rightarrow> [[x]] | y # ys \<Rightarrow> (x # y) # ys))"

definition glib_strsplit :: "string \<Rightarrow> string \<Rightarrow> string list" where
  "glib_strsplit s d = (if s = [] then [] else split_char (hd d) s)"

definition glib_strstrip :: "string \<Rightarrow> string" where
  "glib_strstrip s = rev (dropWhile isspace (rev (dropWhile isspace s)))"

theorem validated_port_ranges_ok_witness:
  "validate_port_range glib_strsplit glib_strstrip (Some ''103, U:200-1024'') = 0
   \<and> (\<exists>rs. port_range_ranges glib_strsplit glib_strstrip ''103, U:200-1024'' = Some rs
        \<and> list_all range_ok rs)"
proof -
  have h: "validate_port_range glib_strsplit glib_strstrip (Some ''103, U:200-1024'') = 0"
    by code_simp
  with validated_port_ranges_ok [OF h] show ?thesis by simp
qed

text \<open>
  For a validated string, membership of a port is membership in one of the ranges of
  its protocol, and no number outside 1 to 65535 is ever a member.
\<close>

theorem port_in_validated_ranges:
  assumes "validate_port_range strsplit strstrip (Some s) = 0"
    and "port_range_ranges strsplit strstrip s = Some rs"
  shows "port_in_port_ranges n t (Some rs) =
           (\<exists>r \<in> set rs. range_type r = t \<and> range_start r \<le> n \<and> n \<le> range_end r
              \<and> 1 \<le> n \<and> n \<le> 65535 \<and> t \<noteq> PORT_PROTOCOL_OTHER)"
proof -
  have "\<forall>r \<in> set rs. range_ok r"
    using validated_ranges [OF assms(1)] assms(2) by (auto simp: list_all_iff)
  then show ?thesis
    by (auto simp: port_in_port_ranges_def list_ex_iff range_ok_def intro!: bexI)
qed

theorem port_in_validated_ranges_witness:
  "port_in_port_ranges 500 PORT_PROTOCOL_UDP
     (port_range_ranges glib_strsplit glib_strstrip ''U:200-1024'')"
proof -
  let ?s = "''U:200-1024''" and ?rs = "[mk_range 200 1024 False]"
  have h: "validate_port_range glib_strsplit glib_strstrip (Some ?s) = 0"
    "port_range_ranges glib_strsplit glib_strstrip ?s = Some ?rs" by code_simp+
  show ?thesis
    unfolding h(2) using port_in_validated_ranges [OF h, of 500 PORT_PROTOCOL_UDP]
    by (simp add: mk_range_def)
qed

text \<open>
  Mapping an IPv4 address into IPv6 gives sixteen bytes from which the address can be
  read back: different addresses stay different, and only mapped addresses start with
  the mapping prefix.
\<close>

theorem ipv4_as_ipv6_faithful:
  "length (ipv4_as_ipv6 a) = 16 \<and> (ipv4_as_ipv6 a = ipv4_as_ipv6 b \<longleftrightarrow> a = b)
     \<and> take 12 (ipv4_as_ipv6 a) = [0, 0, 0, 0, 0, 0, 0, 0, 0, 0, 255, 255]"
proof -
  have "a = b" if "in_addr_bytes a = in_addr_bytes b"
  proof (rule bit_word_eqI)
    fix n assume n: "n < LENGTH(32)"
    have *: "\<And>k. k < 8 \<Longrightarrow> bit a (j + k) = bit b (j + k)" if "j \<in> {0, 8, 16, 24}" for j
    proof -
      fix k :: nat assume "k < 8"
      from \<open>in_addr_bytes a = in_addr_bytes b\<close> that
      have "(ucast (drop_bit j a) :: byte) = ucast (drop_bit j b)"
        by (auto simp: in_addr_bytes_def)
      then have "bit (ucast (drop_bit j a) :: byte) k = bit (ucast (drop_bit j b) :: byte) k"
        by simp
      with \<open>k < 8\<close> show "bit a (j + k) = bit b (j + k)"
        by (simp add: bit_ucast_iff bit_drop_bit_eq)
    qed
    from n consider "n < 8" | "8 \<le> n" "n < 16" | "16 \<le> n" "n < 24" | "24 \<le> n" "n < 32"
      by fastforce
    then show "bit a n = bit b n"
      using *[of 0 n] *[of 8 "n - 8"] *[of 16 "n - 16"] *[of 24 "n - 24"] by cases auto
  qed
  then show ?thesis by (auto simp: ipv4_as_ipv6_def in_addr_bytes_def)
qed

text \<open>
  Initialising the source interface returns 0 exactly when the system lists an IPv4 or
  IPv6 address under the name; then the interface is set, and otherwise every value is
  back at its default.
\<close>

theorem source_iface_init_outcome:
  assumes "openvas_source_iface_init (Some ifs) g (Some name) = (r, g')" and "name \<noteq> []"
  shows "(r = 0 \<longleftrightarrow> (\<exists>i \<in> set ifs. ifa_usable name i))
    \<and> (openvas_source_iface_is_set g' \<longleftrightarrow> r = 0)
    \<and> (r = 0 \<or> (r = 1 \<and> g' = g\<lparr>source_iface := [], source_addr := 0,
                                   source_addr6 := replicate 16 0\<rparr>))"
  using source_fold [of name "(1, g\<lparr>source_iface := [], source_addr := 0,
      source_addr6 := replicate 16 0\<rparr>)" ifs] assms
  by (cases "\<exists>i \<in> set ifs. ifa_usable name i")
     (auto simp: openvas_source_iface_init_def openvas_source_iface_is_set_def Let_def
      IFNAMSIZ_def split: prod.splits if_splits)

theorem source_iface_init_outcome_witness:
  "openvas_source_iface_is_set (snd (openvas_source_iface_init
     (Some [\<lparr>ifa_name = ''lo'', ifa_addr = Some Sother\<rparr>,
            \<lparr>ifa_name = ''eth0'', ifa_addr = Some (Sin 7)\<rparr>]) source_default (Some ''eth0'')))"
proof -
  let ?ifs = "[\<lparr>ifa_name = ''lo'', ifa_addr = Some Sother\<rparr>,
               \<lparr>ifa_name = ''eth0'', ifa_addr = Some (Sin 7)\<rparr>]"
  obtain r g' where i: "openvas_source_iface_init (Some ?ifs) source_default (Some ''eth0'') = (r, g')"
    by fastforce
  from source_iface_init_outcome [OF i] show ?thesis
    by (simp only: i) (auto simp: ifa_usable_def)
qed

end
