(* ===== verification/Inet.thy ===== *)
theory Inet
  imports Networking
begin

text \<open>
  The library functions behind the host lists: \<open>inet_pton\<close> and \<open>inet_ntop\<close> for the two
  address families, \<open>getnameinfo\<close>, \<open>getaddrinfo\<close>, and GLib's \<open>g_strsplit\<close> and
  \<open>g_strstrip\<close>. They are the fields of a record that the host functions take as an
  argument. The locale \<open>inet_laws\<close> states what POSIX documents of the address functions
  and the code relies on; the reference instance at the end, dotted decimal for IPv4 and
  hexadecimal groups with \<open>::\<close> for IPv6, satisfies it.
\<close>

record netlib =
  inet_pton4 :: "string \<Rightarrow> in_addr option"
  inet_ntop4 :: "in_addr \<Rightarrow> string option"
  inet_pton6 :: "string \<Rightarrow> in6_addr option"
  inet_ntop6 :: "in6_addr \<Rightarrow> string option"
  getnameinfo :: "sockaddr \<Rightarrow> string option"
  getaddrinfo :: resolver
  g_strsplit :: "string \<Rightarrow> string \<Rightarrow> string list"
  g_strstrip :: "string \<Rightarrow> string"

locale inet_laws =
  fixes L :: netlib
  assumes ntop4_total: "\<exists>s. inet_ntop4 L a = Some s"
    and pton4_ntop4: "inet_ntop4 L a = Some s \<Longrightarrow> inet_pton4 L s = Some a"
    and ntop6_total: "length b = 16 \<Longrightarrow> \<exists>s. inet_ntop6 L b = Some s"
    and pton6_ntop6: "length b = 16 \<Longrightarrow> inet_ntop6 L b = Some s \<Longrightarrow> inet_pton6 L s = Some b"
    and pton6_length: "inet_pton6 L s = Some b \<Longrightarrow> length b = 16"
    and pton_exclusive: "inet_pton4 L s = Some a \<Longrightarrow> inet_pton6 L s = None"
    and pton4_text: "inet_pton4 L s = Some a \<Longrightarrow>
      CHR ''.'' \<in> set s \<and> (\<forall>c \<in> set s. isdigit c \<or> c = CHR ''.'')"
    and pton6_text: "inet_pton6 L s = Some b \<Longrightarrow>
      CHR '':'' \<in> set s \<and> (\<forall>c \<in> set s. isxdigit c \<or> c = CHR ''.'' \<or> c = CHR '':'')"
begin

lemma ntop4_inj: "inet_ntop4 L a = inet_ntop4 L b \<longleftrightarrow> a = b"
  by (metis ntop4_total option.inject pton4_ntop4)

lemma ntop6_inj:
  "length a = 16 \<Longrightarrow> length b = 16 \<Longrightarrow> inet_ntop6 L a = inet_ntop6 L b \<longleftrightarrow> a = b"
  by (metis ntop6_total option.inject pton6_ntop6)

lemma ntop4_not_ntop6: "length b = 16 \<Longrightarrow> inet_ntop4 L a \<noteq> inet_ntop6 L b"
  by (metis ntop4_total option.distinct(1) pton4_ntop4 pton6_ntop6 pton_exclusive)

lemma pton4_notin: "inet_pton4 L s = Some a \<Longrightarrow> \<not> isdigit c \<Longrightarrow> c \<noteq> CHR ''.'' \<Longrightarrow> c \<notin> set s"
  using pton4_text by blast

lemma pton6_notin:
  "inet_pton6 L s = Some b \<Longrightarrow> \<not> isxdigit c \<Longrightarrow> c \<noteq> CHR ''.'' \<Longrightarrow> c \<noteq> CHR '':'' \<Longrightarrow> c \<notin> set s"
  using pton6_text by blast

end

text \<open>What the parsers of host lists need of GLib: text without the delimiter is one piece, and
  text without white space is stripped already.\<close>

locale netlib_laws = inet_laws +
  assumes strsplit_single: "s \<noteq> [] \<Longrightarrow> CHR '','' \<notin> set s \<Longrightarrow> g_strsplit L s '','' = [s]"
    and strstrip_id: "(\<And>c. c \<in> set s \<Longrightarrow> \<not> isspace c) \<Longrightarrow> g_strstrip L s = s"

subsection \<open>Bytes\<close>

lemma byte_lt: "unat (b :: byte) < 256"
proof -
  have "unat b < 2 ^ LENGTH(8)" by (rule unsigned_less)
  then show ?thesis by simp
qed

subsection \<open>Joining and splitting\<close>

fun join_char :: "char \<Rightarrow> string list \<Rightarrow> string" where
  "join_char c [] = []"
| "join_char c [p] = p"
| "join_char c (p # q # ps) = p @ c # join_char c (q # ps)"

lemma split_char_nonempty: "split_char c s \<noteq> []"
  by (induction s) (auto split: list.split)

lemma split_char_append:
  "c \<notin> set p \<Longrightarrow> split_char c (p @ c # s) = p # split_char c s"
  by (induction p) auto

lemma split_char_none: "c \<notin> set p \<Longrightarrow> split_char c p = [p]"
  by (induction p) auto

lemma split_join:
  "ps \<noteq> [] \<Longrightarrow> (\<And>p. p \<in> set ps \<Longrightarrow> c \<notin> set p) \<Longrightarrow> split_char c (join_char c ps) = ps"
  by (induction c ps rule: join_char.induct) (simp_all add: split_char_none split_char_append)

lemma split_char_mem: "p \<in> set (split_char c s) \<Longrightarrow> set p \<subseteq> set s - {c}"
proof (induction s arbitrary: p)
  case (Cons x xs)
  obtain y ys where y: "split_char c xs = y # ys"
    by (meson neq_Nil_conv split_char_nonempty)
  from Cons.prems y consider "x = c" "p = []" | "x = c" "p \<in> set (split_char c xs)"
    | "x \<noteq> c" "p = x # y" | "x \<noteq> c" "p \<in> set (split_char c xs)"
    by (auto split: if_splits)
  then show ?case
    using Cons.IH [of p] Cons.IH [of y] y by cases auto
qed simp

subsection \<open>A reference instance\<close>

definition parse_octet :: "string \<Rightarrow> byte option" where
  "parse_octet p =
     (if 1 \<le> length p \<and> length p \<le> 3 \<and> list_all (is_digit_in 10) p
         \<and> (length p = 1 \<or> hd p \<noteq> CHR ''0'') \<and> num_of 10 p \<le> 255
      then Some (of_nat (num_of 10 p)) else None)"

fun bytes_in_addr :: "byte list \<Rightarrow> in_addr option" where
  "bytes_in_addr [a, b, c, d] =
     Some (push_bit 24 (ucast a) OR push_bit 16 (ucast b) OR push_bit 8 (ucast c) OR ucast d)"
| "bytes_in_addr _ = None"

definition ref_quad :: "string \<Rightarrow> byte list option" where
  "ref_quad s = (let os = map parse_octet (split_char CHR ''.'' s) in
     if length os = 4 \<and> None \<notin> set os then Some (map the os) else None)"

definition ref_pton4 :: "string \<Rightarrow> in_addr option" where
  "ref_pton4 s = Option.bind (ref_quad s) bytes_in_addr"

definition ref_ntop4 :: "in_addr \<Rightarrow> string option" where
  "ref_ntop4 a =
     Some (join_char CHR ''.'' (map (\<lambda>b. to_base 10 (unat b)) (in_addr_bytes a)))"

text \<open>One to four hexadecimal digits give two bytes; the last group may be a dotted quad.\<close>

definition parse_group :: "string \<Rightarrow> byte list option" where
  "parse_group p =
     (if 1 \<le> length p \<and> length p \<le> 4 \<and> list_all (is_digit_in 16) p
      then Some [of_nat (num_of 16 p div 256), of_nat (num_of 16 p mod 256)] else None)"

fun parse_groups :: "string list \<Rightarrow> byte list option" where
  "parse_groups [] = Some []"
| "parse_groups [p] = (case parse_group p of None \<Rightarrow> ref_quad p | Some bs \<Rightarrow> Some bs)"
| "parse_groups (p # q # ps) =
     (case parse_group p of
        None \<Rightarrow> None
      | Some bs \<Rightarrow> map_option ((@) bs) (parse_groups (q # ps)))"

definition ref_pton6 :: "string \<Rightarrow> in6_addr option" where
  "ref_pton6 s =
     (let ps = split_char CHR '':'' s in
      if length ps = 1 then None
      else if [] \<notin> set ps then
        (case parse_groups ps of Some bs \<Rightarrow> if length bs = 16 then Some bs else None | None \<Rightarrow> None)
      else
        let l = takeWhile (\<lambda>p. p \<noteq> []) ps;
            t = rev (dropWhile (\<lambda>p. p \<noteq> []) ps);
            r = rev (takeWhile (\<lambda>p. p \<noteq> []) t);
            gap = rev (dropWhile (\<lambda>p. p \<noteq> []) t)
        in if list_all (\<lambda>p. p = []) gap
              \<and> length gap = (if l = [] then 1 else 0) + (if r = [] then 1 else 0) + 1
           then (case (parse_groups l, parse_groups r) of
                   (Some bl, Some br) \<Rightarrow>
                     if length bl + length br \<le> 14
                     then Some (bl @ replicate (16 - (length bl + length br)) 0 @ br) else None
                 | _ \<Rightarrow> None)
           else None)"

fun pair_up :: "byte list \<Rightarrow> nat list" where
  "pair_up (a # b # bs) = (unat a * 256 + unat b) # pair_up bs"
| "pair_up _ = []"

definition ref_ntop6 :: "in6_addr \<Rightarrow> string option" where
  "ref_ntop6 b =
     (if length b = 16 then Some (join_char CHR '':'' (map (to_base 16) (pair_up b))) else None)"

definition ref_netlib :: netlib where
  "ref_netlib = \<lparr>inet_pton4 = ref_pton4, inet_ntop4 = ref_ntop4,
     inet_pton6 = ref_pton6, inet_ntop6 = ref_ntop6,
     getnameinfo = (\<lambda>_. None), getaddrinfo = (\<lambda>_ _. None),
     g_strsplit = glib_strsplit, g_strstrip = glib_strstrip\<rparr>"

subsection \<open>The reference instance satisfies the laws\<close>

lemma parse_octet_print: "parse_octet (to_base 10 (unat (b :: byte))) = Some b"
proof -
  let ?p = "to_base 10 (unat b)"
  have lt: "unat b < 256" by (rule byte_lt)
  have n: "num_of 10 ?p = unat b" by (simp add: num_of_to_base)
  have "length ?p \<le> 3" using length_to_base [of "unat b" 10 2] lt by simp
  moreover have "length ?p = 1 \<or> hd ?p \<noteq> CHR ''0''"
    using hd_to_base [of 10 "unat b"]
    by (cases "unat b = 0") (auto simp: to_base.simps [of 10 0] digit_val_def)
  moreover have "1 \<le> length ?p" using to_base_nonempty [of 10 "unat b"] by (simp add: Suc_le_eq)
  ultimately show ?thesis
    using lt n digits_to_base [of 10 _ "unat b"] by (simp add: parse_octet_def list_all_iff)
qed

lemma digit_not_sep: "is_digit_in 16 c \<Longrightarrow> c \<noteq> CHR ''.'' \<and> c \<noteq> CHR '':''"
  by (auto simp: digit_val_def)

lemma sep_not_in_to_base:
  "2 \<le> b \<Longrightarrow> b \<le> 16 \<Longrightarrow> CHR ''.'' \<notin> set (to_base b n) \<and> CHR '':'' \<notin> set (to_base b n)"
  by (meson digit_not_sep digits_to_base less_le_trans)

lemma in_addr_bytes_roundtrip: "bytes_in_addr (in_addr_bytes a) = Some a"
proof -
  have "push_bit 24 (ucast (ucast (drop_bit 24 a) :: byte)) OR
      push_bit 16 (ucast (ucast (drop_bit 16 a) :: byte)) OR
      push_bit 8 (ucast (ucast (drop_bit 8 a) :: byte)) OR ucast (ucast a :: byte) = a"
  proof (rule bit_word_eqI)
    fix n assume "n < LENGTH(32)"
    then consider "n < 8" | "8 \<le> n" "n < 16" | "16 \<le> n" "n < 24" | "24 \<le> n" "n < 32"
      by fastforce
    then show "bit (push_bit 24 (ucast (ucast (drop_bit 24 a) :: byte)) OR
      push_bit 16 (ucast (ucast (drop_bit 16 a) :: byte)) OR
      push_bit 8 (ucast (ucast (drop_bit 8 a) :: byte)) OR ucast (ucast a :: byte) :: u32) n = bit a n"
      by cases (auto simp: bit_or_iff bit_push_bit_iff bit_ucast_iff bit_drop_bit_eq)
  qed
  then show ?thesis by (simp add: in_addr_bytes_def)
qed

lemma ref_quad_print:
  "ref_quad (join_char CHR ''.'' (map (\<lambda>b. to_base 10 (unat b)) (in_addr_bytes a)))
     = Some (in_addr_bytes a)"
proof -
  have "split_char CHR ''.'' (join_char CHR ''.'' (map (\<lambda>b. to_base 10 (unat b)) (in_addr_bytes a)))
      = map (\<lambda>b. to_base 10 (unat b)) (in_addr_bytes a)"
    by (rule split_join) (auto simp: in_addr_bytes_def sep_not_in_to_base)
  then show ?thesis
    by (simp add: ref_quad_def parse_octet_print in_addr_bytes_def)
qed

lemma parse_group_print:
  "n < 65536 \<Longrightarrow> parse_group (to_base 16 n) = Some [of_nat (n div 256), of_nat (n mod 256)]"
  using length_to_base [of n 16 3] digits_to_base [of 16 _ n] to_base_nonempty [of 16 n]
  by (simp add: parse_group_def num_of_to_base list_all_iff Suc_le_eq)

lemma parse_groups_print:
  "(\<And>n. n \<in> set ns \<Longrightarrow> n < 65536) \<Longrightarrow> parse_groups (map (to_base 16) ns) =
     Some (concat (map (\<lambda>n. [of_nat (n div 256), of_nat (n mod 256)]) ns))"
  by (induction ns rule: induct_list012) (auto simp: parse_group_print)

lemma pair_up_props:
  "even (length b) \<Longrightarrow> concat (map (\<lambda>n. [of_nat (n div 256), of_nat (n mod 256)]) (pair_up b)) = b"
  "n \<in> set (pair_up b) \<Longrightarrow> n < 65536"
proof (induction b rule: pair_up.induct)
  case (1 x y bs)
  have y: "unat y < 256" and x: "unat x < 256" by (rule byte_lt)+
  {
    case 1
    with "1.IH"(1) y show ?case by (simp add: div_mult_self3 mod_mult_self3)
  next
    case 2
    with "1.IH"(2) x y show ?case by auto
  }
qed auto

lemma length_pair_up: "length (pair_up b) = length b div 2"
  by (induction b rule: pair_up.induct) auto

lemma ref_pton6_print: "length b = 16 \<Longrightarrow> ref_ntop6 b = Some s \<Longrightarrow> ref_pton6 s = Some b"
proof -
  assume l: "length b = 16" and s: "ref_ntop6 b = Some s"
  let ?ps = "map (to_base 16) (pair_up b)"
  have "split_char CHR '':'' s = ?ps"
    using s l length_pair_up [of b]
    by (auto simp: ref_ntop6_def sep_not_in_to_base intro!: split_join)
  moreover have "parse_groups ?ps = Some b"
    using parse_groups_print [of "pair_up b"] pair_up_props(1) [of b] pair_up_props(2) [of _ b] l by simp
  moreover have "[] \<notin> set ?ps" using to_base_nonempty by (metis imageE image_set)
  ultimately show ?thesis using l length_pair_up [of b] by (simp add: ref_pton6_def Let_def)
qed

lemma parse_octet_chars: "parse_octet p = Some b \<Longrightarrow> c \<in> set p \<Longrightarrow> c \<noteq> CHR '':''"
  using digit_not_sep [of c] by (auto simp: parse_octet_def list_all_iff split: if_splits)

lemma split_char_cover: "c \<in> set s \<Longrightarrow> c \<noteq> d \<Longrightarrow> \<exists>p \<in> set (split_char d s). c \<in> set p"
proof (induction s)
  case (Cons x xs)
  obtain y ys where "split_char d xs = y # ys"
    by (meson neq_Nil_conv split_char_nonempty)
  with Cons show ?case by auto
qed simp

lemma ref_quad_no_colon: "ref_quad s = Some bs \<Longrightarrow> CHR '':'' \<notin> set s"
proof
  assume q: "ref_quad s = Some bs" and "CHR '':'' \<in> set s"
  then obtain p where p: "p \<in> set (split_char CHR ''.'' s)" "CHR '':'' \<in> set p"
    using split_char_cover [of "CHR '':''" s "CHR ''.''"] by auto
  have "None \<notin> set (map parse_octet (split_char CHR ''.'' s))"
    using q by (simp add: ref_quad_def Let_def split: if_splits)
  with p(1) have "parse_octet p \<noteq> None"
    by (metis image_eqI list.set_map)
  with p(2) show False using parse_octet_chars by blast
qed

lemma ref_quad_text:
  "ref_quad s = Some bs \<Longrightarrow> CHR ''.'' \<in> set s \<and> (\<forall>c \<in> set s. isdigit c \<or> c = CHR ''.'')"
proof (intro conjI ballI)
  assume q: "ref_quad s = Some bs"
  then show "CHR ''.'' \<in> set s"
    using split_char_none [of "CHR ''.''" s] by (auto simp: ref_quad_def Let_def split: if_splits)
  fix c assume "c \<in> set s"
  show "isdigit c \<or> c = CHR ''.''"
  proof (cases "c = CHR ''.''")
    case False
    with \<open>c \<in> set s\<close> obtain p where p: "p \<in> set (split_char CHR ''.'' s)" "c \<in> set p"
      using split_char_cover by blast
    have "None \<notin> set (map parse_octet (split_char CHR ''.'' s))"
      using q by (simp add: ref_quad_def Let_def split: if_splits)
    with p(1) have "parse_octet p \<noteq> None" by (metis image_eqI list.set_map)
    with p(2) show ?thesis
      by (auto simp: parse_octet_def list_all_iff digit10_isdigit split: if_splits)
  qed simp
qed

lemma ref_quad_not_pton6: "ref_quad s = Some bs \<Longrightarrow> ref_pton6 s = None"
  using ref_quad_no_colon [of s bs] by (simp add: ref_pton6_def split_char_none)

lemma ref_pton6_length: "ref_pton6 s = Some b \<Longrightarrow> length b = 16"
  by (auto simp: ref_pton6_def Let_def split: if_splits option.splits)

lemma digit16_isxdigit: "is_digit_in 16 c \<longleftrightarrow> isxdigit c"
  by (auto simp: digit_val_def isxdigit_def isdigit_def Let_def split: if_splits)

lemma parse_groups_text:
  "parse_groups ps = Some bs \<Longrightarrow> p \<in> set ps \<Longrightarrow> c \<in> set p \<Longrightarrow> isxdigit c \<or> c = CHR ''.''"
proof (induction ps arbitrary: bs rule: parse_groups.induct)
  case (2 q)
  then show ?case
    using ref_quad_text [of q]
    by (auto simp: parse_group_def list_all_iff digit16_isxdigit isxdigit_def split: option.splits if_splits)
next
  case (3 q r ps)
  then show ?case
    by (auto simp: parse_group_def list_all_iff digit16_isxdigit split: option.splits if_splits)
qed simp

lemma if_None_SomeD: "(if C then X else None) = Some y \<Longrightarrow> C \<and> X = Some y"
  by (cases C) simp_all

lemma ref_pton6_gap:
  fixes s defines "ps \<equiv> split_char CHR '':'' s"
  defines "t \<equiv> rev (dropWhile (\<lambda>p. p \<noteq> []) ps)"
  assumes "ref_pton6 s = Some b" "[] \<in> set ps"
  obtains bl br where "parse_groups (takeWhile (\<lambda>p. p \<noteq> []) ps) = Some bl"
    "parse_groups (rev (takeWhile (\<lambda>p. p \<noteq> []) t)) = Some br"
    "list_all (\<lambda>p. p = []) (rev (dropWhile (\<lambda>p. p \<noteq> []) t))"
proof -
  let ?l = "takeWhile (\<lambda>p. p \<noteq> []) ps" and ?r = "rev (takeWhile (\<lambda>p. p \<noteq> []) t)"
    and ?gap = "rev (dropWhile (\<lambda>p. p \<noteq> []) t)"
  have "length ps \<noteq> 1" using assms(3) by (auto simp: ref_pton6_def Let_def ps_def)
  with assms(3,4) have *: "(if list_all (\<lambda>p. p = []) ?gap
         \<and> length ?gap = (if ?l = [] then 1 else 0) + (if ?r = [] then 1 else 0) + 1
       then (case (parse_groups ?l, parse_groups ?r) of
               (Some bl, Some br) \<Rightarrow>
                 if length bl + length br \<le> 14
                 then Some (bl @ replicate (16 - (length bl + length br)) 0 @ br) else None
             | _ \<Rightarrow> None)
       else None) = Some b"
    unfolding ref_pton6_def Let_def ps_def [symmetric] t_def [symmetric]
    by (simp only: if_False not_not simp_thms)
  note if_None_SomeD [OF *]
  then show thesis
    by (cases "parse_groups ?l"; cases "parse_groups ?r") (auto intro: that)
qed

lemma nonempty_not_in: "list_all (\<lambda>p. p = []) xs \<Longrightarrow> c \<in> set p \<Longrightarrow> p \<notin> set xs"
  by (induction xs) auto

lemma ref_pton6_text:
  assumes "ref_pton6 s = Some b"
  shows "CHR '':'' \<in> set s \<and> (\<forall>c \<in> set s. isxdigit c \<or> c = CHR ''.'' \<or> c = CHR '':'')"
proof (intro conjI ballI)
  show "CHR '':'' \<in> set s"
  proof (rule ccontr)
    assume "CHR '':'' \<notin> set s"
    with assms show False by (simp add: ref_pton6_def split_char_none)
  qed
  fix c assume c: "c \<in> set s"
  let ?ps = "split_char CHR '':'' s" and ?ne = "\<lambda>p. p \<noteq> []"
  let ?t = "rev (dropWhile ?ne ?ps)"
  have ps: "set ?ps = set (takeWhile ?ne ?ps) \<union> set (rev (takeWhile ?ne ?t)) \<union> set (rev (dropWhile ?ne ?t))"
  proof -
    have t: "set xs = set (takeWhile ?ne xs) \<union> set (dropWhile ?ne xs)" for xs :: "string list"
      by (metis set_append takeWhile_dropWhile_id)
    show ?thesis using t [of ?ps] t [of ?t] by (simp only: set_rev Un_assoc)
  qed
  show "isxdigit c \<or> c = CHR ''.'' \<or> c = CHR '':''"
  proof (cases "c = CHR '':''")
    case False
    with c obtain p where p: "p \<in> set ?ps" "c \<in> set p" using split_char_cover by blast
    show ?thesis
    proof (cases "[] \<notin> set ?ps")
      case True
      with assms obtain bs where "parse_groups ?ps = Some bs"
        by (auto simp: ref_pton6_def Let_def split: if_splits option.splits)
      with p show ?thesis using parse_groups_text by blast
    next
      case False
      then have "[] \<in> set ?ps" by simp
      with assms obtain bl br where g: "parse_groups (takeWhile ?ne ?ps) = Some bl"
          "parse_groups (rev (takeWhile ?ne ?t)) = Some br"
          "list_all (\<lambda>p. p = []) (rev (dropWhile ?ne ?t))"
        by (rule ref_pton6_gap)
      have "p \<notin> set (rev (dropWhile ?ne ?t))"
        by (rule nonempty_not_in [OF g(3) p(2)])
      with p(1) ps have "p \<in> set (takeWhile ?ne ?ps) \<or> p \<in> set (rev (takeWhile ?ne ?t))" by blast
      then show ?thesis
        using parse_groups_text [OF g(1) _ p(2)] parse_groups_text [OF g(2) _ p(2)] by blast
    qed
  qed simp
qed

lemma strsplit_comma: "s \<noteq> [] \<Longrightarrow> CHR '','' \<notin> set s \<Longrightarrow> glib_strsplit s '','' = [s]"
  by (simp add: glib_strsplit_def split_char_none)

lemma strstrip_no_space: "(\<And>c. c \<in> set s \<Longrightarrow> \<not> isspace c) \<Longrightarrow> glib_strstrip s = s"
proof -
  have "dropWhile isspace t = t" if "\<And>c. c \<in> set t \<Longrightarrow> \<not> isspace c" for t
    using that by (cases t) auto
  from this [of s] this [of "rev s"] show "glib_strstrip s = s"
    if "\<And>c. c \<in> set s \<Longrightarrow> \<not> isspace c" using that by (simp add: glib_strstrip_def)
qed

interpretation ref: inet_laws ref_netlib
proof unfold_locales
  show "\<exists>s. inet_ntop4 ref_netlib a = Some s" for a
    by (simp add: ref_netlib_def ref_ntop4_def)
  show "inet_ntop4 ref_netlib a = Some s \<Longrightarrow> inet_pton4 ref_netlib s = Some a" for a s
    by (auto simp: ref_netlib_def ref_ntop4_def ref_pton4_def ref_quad_print in_addr_bytes_roundtrip)
  show "length b = 16 \<Longrightarrow> \<exists>s. inet_ntop6 ref_netlib b = Some s" for b
    by (simp add: ref_netlib_def ref_ntop6_def)
  show "length b = 16 \<Longrightarrow> inet_ntop6 ref_netlib b = Some s \<Longrightarrow> inet_pton6 ref_netlib s = Some b" for b s
    by (simp add: ref_netlib_def ref_pton6_print)
  show "inet_pton6 ref_netlib s = Some b \<Longrightarrow> length b = 16" for s b
    by (simp add: ref_netlib_def ref_pton6_length)
  show "inet_pton4 ref_netlib s = Some a \<Longrightarrow> inet_pton6 ref_netlib s = None" for s a
    by (auto simp: ref_netlib_def ref_pton4_def ref_quad_not_pton6 split: bind_splits)
  show "inet_pton4 ref_netlib s = Some a \<Longrightarrow>
      CHR ''.'' \<in> set s \<and> (\<forall>c \<in> set s. isdigit c \<or> c = CHR ''.'')" for s a
    using ref_quad_text [of s] by (auto simp: ref_netlib_def ref_pton4_def split: bind_splits)
  show "inet_pton6 ref_netlib s = Some b \<Longrightarrow>
      CHR '':'' \<in> set s \<and> (\<forall>c \<in> set s. isxdigit c \<or> c = CHR ''.'' \<or> c = CHR '':'')" for s b
    by (rule ref_pton6_text) (simp add: ref_netlib_def)
qed

interpretation ref: netlib_laws ref_netlib
  by unfold_locales (simp_all add: ref_netlib_def strsplit_comma strstrip_no_space)

end
