(* ===== verification/Hosts.thy ===== *)
theory Hosts
  imports Inet
begin

text \<open>
  The host lists of \<open>openvas-libraries/base/openvas_hosts.c\<close>: the target and exclude lists
  a user gives as text (single addresses, host names, CIDR blocks, short and long ranges
  of both address families) are expanded to lists of single hosts, deduplicated, and
  iterated over by the scanner.

  Addresses are in host byte order, so the calls of \<open>htonl\<close> and \<open>ntohl\<close> cancel. A host is
  a value of a datatype with one constructor per case of the union, a collection a record;
  its iterator \<open>current\<close> is the list that starts at the current element. Functions that may
  run into undefined behaviour or not return have results \<open>None\<close> in those cases.
\<close>

subsection \<open>Data\<close>

datatype host_type =
    HOST_TYPE_NAME | HOST_TYPE_IPV4 | HOST_TYPE_CIDR_BLOCK | HOST_TYPE_RANGE_SHORT
  | HOST_TYPE_RANGE_LONG | HOST_TYPE_IPV6 | HOST_TYPE_CIDR6_BLOCK | HOST_TYPE_RANGE6_LONG
  | HOST_TYPE_RANGE6_SHORT | HOST_TYPE_MAX

datatype openvas_host = Host_name string | Host_addr in_addr | Host_addr6 in6_addr

record openvas_hosts =
  orig_str :: string
  hosts :: "openvas_host list"
  current :: "openvas_host list"
  count :: u32
  removed :: u32

fun host_type_str :: "host_type \<Rightarrow> string option" where
  "host_type_str HOST_TYPE_NAME = Some ''Hostname''"
| "host_type_str HOST_TYPE_IPV4 = Some ''IPv4''"
| "host_type_str HOST_TYPE_IPV6 = Some ''IPv6''"
| "host_type_str HOST_TYPE_CIDR_BLOCK = Some ''IPv4 CIDR block''"
| "host_type_str HOST_TYPE_RANGE_SHORT = Some ''IPv4 short range''"
| "host_type_str HOST_TYPE_RANGE_LONG = Some ''IPv4 long range''"
| "host_type_str _ = None"

subsection \<open>IPv4 notations\<close>

definition is_ipv4_address :: "netlib \<Rightarrow> string \<Rightarrow> bool" where
  "is_ipv4_address L str \<longleftrightarrow> inet_pton4 L str \<noteq> None"

definition is_ipv6_address :: "netlib \<Rightarrow> string \<Rightarrow> bool" where
  "is_ipv6_address L str \<longleftrightarrow> inet_pton6 L str \<noteq> None"

definition is_cidr_block :: "netlib \<Rightarrow> string \<Rightarrow> bool" where
  "is_cidr_block L str =
     (case str_cut CHR ''/'' str of
        None \<Rightarrow> False
      | Some (addr_str, block_str) \<Rightarrow>
          if \<not> is_ipv4_address L addr_str \<or> \<not> isdigit (char_at block_str 0) then False
          else let (block, p, _) = strtol 10 block_str in
               \<not> (p \<noteq> [] \<or> block \<le> 0 \<or> block > 30))"

definition cidr_get_block :: "string \<Rightarrow> u32 option" where
  "cidr_get_block str = sscanf_block (\<lambda>c. isdigit c \<or> c = CHR ''.'') 2 str"

definition cidr_get_ip :: "netlib \<Rightarrow> string \<Rightarrow> in_addr option" where
  "cidr_get_ip L str =
     (case str_cut CHR ''/'' str of
        None \<Rightarrow> None
      | Some (addr_str, _) \<Rightarrow> inet_pton4 L addr_str)"

text \<open>
  \<open>1 << (32 - block)\<close> is a shift of an \<open>int\<close>: it is defined for shift counts below 31 only.
  The inner \<open>None\<close> is the return value -1.
\<close>

definition cidr_block_ips :: "netlib \<Rightarrow> string \<Rightarrow> (in_addr \<times> in_addr) option option" where
  "cidr_block_ips L str =
     (case cidr_get_block str of
        None \<Rightarrow> Some None
      | Some block \<Rightarrow>
          (case cidr_get_ip L str of
             None \<Rightarrow> Some None
           | Some ip \<Rightarrow>
               if unat block < 2 \<or> 32 < unat block then None
               else let size = push_bit (32 - unat block) 1;
                        first = (ip AND (0xffffffff XOR (size - 1))) + 1;
                        last = first + size - 3
                    in Some (Some (first, last))))"

definition is_long_range_network :: "netlib \<Rightarrow> string \<Rightarrow> bool" where
  "is_long_range_network L str =
     (case str_cut CHR ''-'' str of
        None \<Rightarrow> False
      | Some (first_str, second_str) \<Rightarrow>
          is_ipv4_address L first_str \<and> is_ipv4_address L second_str)"

definition long_range_network_ips :: "netlib \<Rightarrow> string \<Rightarrow> (in_addr \<times> in_addr) option option" where
  "long_range_network_ips L str =
     (case str_cut CHR ''-'' str of
        None \<Rightarrow> Some None
      | Some (first_str, last_str) \<Rightarrow>
          (case (inet_pton4 L first_str, inet_pton4 L last_str) of
             (Some first, Some lst) \<Rightarrow> Some (Some (first, lst))
           | _ \<Rightarrow> Some None))"

definition is_short_range_network :: "netlib \<Rightarrow> string \<Rightarrow> bool" where
  "is_short_range_network L str =
     (case str_cut CHR ''-'' str of
        None \<Rightarrow> False
      | Some (ip_str, end_str) \<Rightarrow>
          if \<not> is_ipv4_address L ip_str \<or> \<not> isdigit (char_at end_str 0) then False
          else let (end', p, _) = strtol 10 end_str in
               \<not> (p \<noteq> [] \<or> end' < 0 \<or> end' > 255))"

definition short_range_network_ips :: "netlib \<Rightarrow> string \<Rightarrow> (in_addr \<times> in_addr) option option" where
  "short_range_network_ips L str =
     (case str_cut CHR ''-'' str of
        None \<Rightarrow> Some None
      | Some (first_str, last_str) \<Rightarrow>
          (let end' = atoi last_str in
           case inet_pton4 L first_str of
             None \<Rightarrow> Some None
           | Some first \<Rightarrow>
               Some (Some (first, (first AND 0xffffff00) + word_of_int end'))))"

definition is_hostname :: "string \<Rightarrow> bool" where
  "is_hostname str \<longleftrightarrow>
     dropWhile (\<lambda>c. isalnum c \<or> c \<in> set ''-_.'') str = [] \<and> length str < 256"

subsection \<open>IPv6 notations\<close>

definition is_cidr6_block :: "netlib \<Rightarrow> string \<Rightarrow> bool" where
  "is_cidr6_block L str =
     (case str_cut CHR ''/'' str of
        None \<Rightarrow> False
      | Some (addr6_str, block_str) \<Rightarrow>
          if \<not> is_ipv6_address L addr6_str \<or> \<not> isdigit (char_at block_str 0) then False
          else let (block, p, _) = strtol 10 block_str in
               \<not> (p \<noteq> [] \<or> block \<le> 0 \<or> block > 128))"

definition cidr6_get_block :: "string \<Rightarrow> u32 option" where
  "cidr6_get_block str =
     sscanf_block (\<lambda>c. isxdigit c \<or> c = CHR ''.'' \<or> c = CHR '':'') 3 str"

definition cidr6_get_ip :: "netlib \<Rightarrow> string \<Rightarrow> in6_addr option" where
  "cidr6_get_ip L str =
     (case str_cut CHR ''/'' str of
        None \<Rightarrow> None
      | Some (addr6_str, _) \<Rightarrow> inet_pton6 L addr6_str)"

text \<open>The increment and decrement loops over the bytes, which run from the last byte.\<close>

fun inc_rev :: "byte list \<Rightarrow> byte list" where
  "inc_rev [] = []"
| "inc_rev (b # bs) = (if b < 255 then (b + 1) # bs else 0 # inc_rev bs)"

definition inc_bytes :: "byte list \<Rightarrow> byte list" where
  "inc_bytes bs = rev (inc_rev (rev bs))"

fun dec_rev :: "byte list \<Rightarrow> byte list" where
  "dec_rev [] = []"
| "dec_rev (b # bs) = (if b > 0 then (b - 1) # bs else 255 # dec_rev bs)"

definition dec_bytes :: "byte list \<Rightarrow> byte list" where
  "dec_bytes bs = rev (dec_rev (rev bs))"

text \<open>
  Bytes 15 downto \<open>16 - n\<close> are overwritten, then byte \<open>15 - n\<close> is masked. With \<open>n = 16\<close> the
  masked byte would be the one before the array, and a block above 128 makes the unsigned
  difference huge: both are undefined.
\<close>

definition cidr6_block_ips :: "netlib \<Rightarrow> string \<Rightarrow> (in6_addr \<times> in6_addr) option option" where
  "cidr6_block_ips L str =
     (case cidr6_get_block str of
        None \<Rightarrow> Some None
      | Some blockw \<Rightarrow>
          (case cidr6_get_ip L str of
             None \<Rightarrow> Some None
           | Some a \<Rightarrow>
               let block = unat blockw in
               if block = 128 then Some (Some (a, a))
               else if block = 0 \<or> 128 < block then None
               else let n = (128 - block) div 8;
                        low = push_bit ((128 - block) mod 8) 1 - 1 :: byte;
                        first = (take (16 - n) a @ replicate n 0)[15 - n := (a ! (15 - n)) AND (0xff XOR low)];
                        last = (take (16 - n) a @ replicate n 0xff)[15 - n := (a ! (15 - n)) OR low]
                    in if block = 127 then Some (Some (first, last))
                       else Some (Some (inc_bytes first, dec_bytes last))))"

definition is_long_range6_network :: "netlib \<Rightarrow> string \<Rightarrow> bool" where
  "is_long_range6_network L str =
     (case str_cut CHR ''-'' str of
        None \<Rightarrow> False
      | Some (first_str, second_str) \<Rightarrow>
          is_ipv6_address L first_str \<and> is_ipv6_address L second_str)"

definition long_range6_network_ips :: "netlib \<Rightarrow> string \<Rightarrow> (in6_addr \<times> in6_addr) option option" where
  "long_range6_network_ips L str =
     (case str_cut CHR ''-'' str of
        None \<Rightarrow> Some None
      | Some (first_str, last_str) \<Rightarrow>
          (case (inet_pton6 L first_str, inet_pton6 L last_str) of
             (Some first, Some lst) \<Rightarrow> Some (Some (first, lst))
           | _ \<Rightarrow> Some None))"

definition is_short_range6_network :: "netlib \<Rightarrow> string \<Rightarrow> bool" where
  "is_short_range6_network L str =
     (case str_cut CHR ''-'' str of
        None \<Rightarrow> False
      | Some (ip_str, end_str) \<Rightarrow>
          if \<not> is_ipv6_address L ip_str \<or> end_str = [] then False
          else dropWhile isxdigit end_str = [] \<and> length (takeWhile isxdigit end_str) \<le> 4)"

text \<open>\<open>memcpy\<close> of the two low bytes of a little-endian \<open>long\<close>.\<close>

definition short_range6_network_ips :: "netlib \<Rightarrow> string \<Rightarrow> (in6_addr \<times> in6_addr) option option" where
  "short_range6_network_ips L str =
     (case str_cut CHR ''-'' str of
        None \<Rightarrow> Some None
      | Some (first_str, last_str) \<Rightarrow>
          (case inet_pton6 L first_str of
             None \<Rightarrow> Some None
           | Some first \<Rightarrow>
               let end' = fst (strtol 16 last_str) in
               Some (Some (first, first[15 := word_of_int end', 14 := word_of_int (end' div 256)]))))"

subsection \<open>The kind of a host string\<close>

definition determine_host_type :: "netlib \<Rightarrow> string option \<Rightarrow> host_type option" where
  "determine_host_type L str_stripped =
     (case str_stripped of
        None \<Rightarrow> None
      | Some s \<Rightarrow>
          if s = [] then None
          else if is_ipv4_address L s then Some HOST_TYPE_IPV4
          else if is_ipv6_address L s then Some HOST_TYPE_IPV6
          else if is_cidr_block L s then Some HOST_TYPE_CIDR_BLOCK
          else if is_short_range_network L s then Some HOST_TYPE_RANGE_SHORT
          else if is_long_range_network L s then Some HOST_TYPE_RANGE_LONG
          else if is_cidr6_block L s then Some HOST_TYPE_CIDR6_BLOCK
          else if is_short_range6_network L s then Some HOST_TYPE_RANGE6_SHORT
          else if is_long_range6_network L s then Some HOST_TYPE_RANGE6_LONG
          else if is_hostname s then Some HOST_TYPE_NAME
          else None)"

subsection \<open>Single hosts\<close>

fun openvas_host_type :: "openvas_host \<Rightarrow> host_type" where
  "openvas_host_type (Host_name _) = HOST_TYPE_NAME"
| "openvas_host_type (Host_addr _) = HOST_TYPE_IPV4"
| "openvas_host_type (Host_addr6 _) = HOST_TYPE_IPV6"

definition openvas_host_type_str :: "openvas_host option \<Rightarrow> string option" where
  "openvas_host_type_str host =
     (case host of None \<Rightarrow> None | Some h \<Rightarrow> host_type_str (openvas_host_type h))"

fun openvas_host_value_str :: "netlib \<Rightarrow> openvas_host \<Rightarrow> string option" where
  "openvas_host_value_str L (Host_name n) = Some n"
| "openvas_host_value_str L (Host_addr a) = inet_ntop4 L a"
| "openvas_host_value_str L (Host_addr6 a) = inet_ntop6 L a"

definition openvas_host_resolve ::
  "netlib \<Rightarrow> openvas_host option \<Rightarrow> family \<Rightarrow> sockaddr option option" where
  "openvas_host_resolve L host fam =
     (case host of
        Some (Host_name n) \<Rightarrow> openvas_resolve (getaddrinfo L) (Some n) fam
      | _ \<Rightarrow> None)"

text \<open>
  The outer \<open>None\<close> is the use of an address that the resolver did not write; the inner one
  is the return value -1.
\<close>

fun openvas_host_get_addr6 :: "netlib \<Rightarrow> openvas_host \<Rightarrow> in6_addr option option" where
  "openvas_host_get_addr6 L (Host_addr6 a) = Some (Some a)"
| "openvas_host_get_addr6 L (Host_addr a) = Some (Some (ipv4_as_ipv6 a))"
| "openvas_host_get_addr6 L (Host_name n) =
     (case openvas_host_resolve L (Some (Host_name n)) AF_INET of
        None \<Rightarrow> Some None
      | Some (Some (Sin ip4)) \<Rightarrow> Some (Some (ipv4_as_ipv6 ip4))
      | Some _ \<Rightarrow> None)"

fun openvas_host_reverse_lookup :: "netlib \<Rightarrow> openvas_host \<Rightarrow> string option" where
  "openvas_host_reverse_lookup L (Host_name n) = Some n"
| "openvas_host_reverse_lookup L (Host_addr a) = getnameinfo L (Sin a)"
| "openvas_host_reverse_lookup L (Host_addr6 a) = getnameinfo L (Sin6 a)"

subsection \<open>Building a collection\<close>

text \<open>
  The loops that add a range host by host, in front of the list and counting in 32 bits.
  They compare with \<open>last\<close> and step by one in the width of the address, so they are
  partial functions: the outer \<open>None\<close> is a loop that does not end, the inner one the
  return of NULL when more than \<open>max_hosts\<close> hosts have been added.
\<close>

type_synonym build = "openvas_host list \<times> u32"

partial_function (option) add_range4 ::
  "u32 \<Rightarrow> in_addr \<Rightarrow> in_addr \<Rightarrow> build \<Rightarrow> build option option" where
  "add_range4 max_hosts lst cur hc =
     (if cur \<le> lst then
        (let hc = (Host_addr cur # fst hc, snd hc + 1) in
         if max_hosts > 0 \<and> snd hc > max_hosts then Some None
         else add_range4 max_hosts lst (cur + 1) hc)
      else Some (Some hc))"

fun memcmp :: "byte list \<Rightarrow> byte list \<Rightarrow> int" where
  "memcmp (a # as) (b # bs) = (if a < b then -1 else if a > b then 1 else memcmp as bs)"
| "memcmp _ _ = 0"

partial_function (option) add_range6 ::
  "u32 \<Rightarrow> in6_addr \<Rightarrow> in6_addr \<Rightarrow> build \<Rightarrow> build option option" where
  "add_range6 max_hosts lst cur hc =
     (if memcmp cur lst \<le> 0 then
        (let hc = (Host_addr6 cur # fst hc, snd hc + 1) in
         if max_hosts > 0 \<and> snd hc > max_hosts then Some None
         else add_range6 max_hosts lst (inc_bytes cur) hc)
      else Some (Some hc))"

declare add_range4.simps [code] add_range6.simps [code]

definition add_single :: "netlib \<Rightarrow> host_type \<Rightarrow> string \<Rightarrow> build \<Rightarrow> build" where
  "add_single L type s hc =
     ((if type = HOST_TYPE_NAME then Host_name s
       else if type = HOST_TYPE_IPV4
            then Host_addr (case inet_pton4 L s of Some a \<Rightarrow> a | None \<Rightarrow> 0)
            else Host_addr6 (case inet_pton6 L s of Some a \<Rightarrow> a | None \<Rightarrow> replicate 16 0)) # fst hc,
      snd hc + 1)"

definition add_block4 ::
  "u32 \<Rightarrow> (in_addr \<times> in_addr) option option \<Rightarrow> build \<Rightarrow> build option option" where
  "add_block4 max_hosts ips hc =
     (case ips of
        None \<Rightarrow> None
      | Some None \<Rightarrow> Some (Some hc)
      | Some (Some (first, lst)) \<Rightarrow>
          if first > lst then Some (Some hc) else add_range4 max_hosts lst first hc)"

definition add_block6 ::
  "u32 \<Rightarrow> (in6_addr \<times> in6_addr) option option \<Rightarrow> build \<Rightarrow> build option option" where
  "add_block6 max_hosts ips hc =
     (case ips of
        None \<Rightarrow> None
      | Some None \<Rightarrow> Some (Some hc)
      | Some (Some (first, lst)) \<Rightarrow>
          if memcmp first lst > 0 then Some (Some hc) else add_range6 max_hosts lst first hc)"

definition add_element :: "netlib \<Rightarrow> u32 \<Rightarrow> string \<Rightarrow> build \<Rightarrow> build option option" where
  "add_element L max_hosts s hc =
     (case determine_host_type L (Some s) of
        Some HOST_TYPE_NAME \<Rightarrow> Some (Some (add_single L HOST_TYPE_NAME s hc))
      | Some HOST_TYPE_IPV4 \<Rightarrow> Some (Some (add_single L HOST_TYPE_IPV4 s hc))
      | Some HOST_TYPE_IPV6 \<Rightarrow> Some (Some (add_single L HOST_TYPE_IPV6 s hc))
      | Some HOST_TYPE_CIDR_BLOCK \<Rightarrow> add_block4 max_hosts (cidr_block_ips L s) hc
      | Some HOST_TYPE_RANGE_SHORT \<Rightarrow> add_block4 max_hosts (short_range_network_ips L s) hc
      | Some HOST_TYPE_RANGE_LONG \<Rightarrow> add_block4 max_hosts (long_range_network_ips L s) hc
      | Some HOST_TYPE_CIDR6_BLOCK \<Rightarrow> add_block6 max_hosts (cidr6_block_ips L s) hc
      | Some HOST_TYPE_RANGE6_SHORT \<Rightarrow> add_block6 max_hosts (short_range6_network_ips L s) hc
      | Some HOST_TYPE_RANGE6_LONG \<Rightarrow> add_block6 max_hosts (long_range6_network_ips L s) hc
      | _ \<Rightarrow> Some None)"

fun elements_loop :: "netlib \<Rightarrow> u32 \<Rightarrow> string list \<Rightarrow> build \<Rightarrow> build option option" where
  "elements_loop L max_hosts [] hc = Some (Some hc)"
| "elements_loop L max_hosts (e # es) hc =
     (let stripped = g_strstrip L e in
      if stripped = [] then elements_loop L max_hosts es hc
      else case add_element L max_hosts stripped hc of
             None \<Rightarrow> None
           | Some None \<Rightarrow> Some None
           | Some (Some hc) \<Rightarrow>
               if max_hosts > 0 \<and> snd hc > max_hosts then Some None
               else elements_loop L max_hosts es hc)"

text \<open>
  Removing hosts whose key (the printed value or the looked-up name) has been seen before;
  hosts without a key stay. The second component counts the removed ones.
\<close>

fun unify_loop ::
  "(openvas_host \<Rightarrow> string option) \<Rightarrow> string set \<Rightarrow> openvas_host list \<Rightarrow> openvas_host list \<times> nat" where
  "unify_loop key seen [] = ([], 0)"
| "unify_loop key seen (h # hs) =
     (case key h of
        Some name \<Rightarrow>
          if name \<in> seen then (let (r, d) = unify_loop key seen hs in (r, d + 1))
          else (let (r, d) = unify_loop key (insert name seen) hs in (h # r, d))
      | None \<Rightarrow> (let (r, d) = unify_loop key seen hs in (h # r, d)))"

definition openvas_hosts_deduplicate :: "netlib \<Rightarrow> openvas_hosts \<Rightarrow> openvas_hosts" where
  "openvas_hosts_deduplicate L hs =
     (let (r, duplicates) = unify_loop (openvas_host_value_str L) {} (hosts hs) in
      hs\<lparr>hosts := r, current := r, count := count hs - of_nat duplicates,
         removed := removed hs + of_nat duplicates\<rparr>)"

definition openvas_hosts_new_with_max ::
  "netlib \<Rightarrow> string option \<Rightarrow> u32 \<Rightarrow> openvas_hosts option option" where
  "openvas_hosts_new_with_max L hosts_str max_hosts =
     (case hosts_str of
        None \<Rightarrow> Some None
      | Some str \<Rightarrow>
          (let orig = newlines_to_commas str in
           case elements_loop L max_hosts (g_strsplit L orig '','') ([], 0) of
             None \<Rightarrow> None
           | Some None \<Rightarrow> Some None
           | Some (Some (hs, n)) \<Rightarrow>
               let h = openvas_hosts_deduplicate L
                         \<lparr>orig_str = orig, hosts = rev hs, current = [], count = n, removed = 0\<rparr>
               in Some (Some (h\<lparr>current := hosts h\<rparr>))))"

definition openvas_hosts_new :: "netlib \<Rightarrow> string option \<Rightarrow> openvas_hosts option option" where
  "openvas_hosts_new L hosts_str = openvas_hosts_new_with_max L hosts_str 0"

subsection \<open>Working with a collection\<close>

definition openvas_hosts_next :: "openvas_hosts \<Rightarrow> openvas_host option \<times> openvas_hosts" where
  "openvas_hosts_next hs =
     (case current hs of
        [] \<Rightarrow> (None, hs)
      | h # r \<Rightarrow> (Some h, hs\<lparr>current := r\<rparr>))"

definition openvas_hosts_count :: "openvas_hosts option \<Rightarrow> u32" where
  "openvas_hosts_count hs = (case hs of None \<Rightarrow> 0 | Some h \<Rightarrow> count h)"

definition openvas_hosts_removed :: "openvas_hosts option \<Rightarrow> u32" where
  "openvas_hosts_removed hs = (case hs of None \<Rightarrow> 0 | Some h \<Rightarrow> removed h)"

text \<open>
  The shuffle moves \<open>count\<close> randomly chosen elements to the front of a new list. \<open>rnd k\<close> is
  the number drawn by \<open>g_rand_int_range (rand, 0, k)\<close> in the round with \<open>k\<close> elements left.
\<close>

fun shuffle_loop :: "(nat \<Rightarrow> nat) \<Rightarrow> nat \<Rightarrow> openvas_host list \<Rightarrow> openvas_host list \<Rightarrow> openvas_host list" where
  "shuffle_loop rnd 0 old new = new"
| "shuffle_loop rnd (Suc n) old new =
     (let i = rnd (Suc n) in
      if i < length old
      then shuffle_loop rnd n (take i old @ drop (Suc i) old) (old ! i # new)
      else shuffle_loop rnd n old new)"

definition openvas_hosts_shuffle :: "(nat \<Rightarrow> nat) \<Rightarrow> openvas_hosts \<Rightarrow> openvas_hosts" where
  "openvas_hosts_shuffle rnd hs =
     (let new = shuffle_loop rnd (unat (count hs)) (hosts hs) [] in
      hs\<lparr>hosts := new, current := new\<rparr>)"

definition openvas_hosts_reverse :: "openvas_hosts \<Rightarrow> openvas_hosts" where
  "openvas_hosts_reverse hs =
     (if hosts hs = [] then hs
      else hs\<lparr>hosts := rev (hosts hs), current := rev (hosts hs)\<rparr>)"

text \<open>\<open>None\<close>: a lookup succeeded without writing the address that is then copied.\<close>

fun resolve_hosts :: "netlib \<Rightarrow> openvas_host list \<Rightarrow> openvas_host list option" where
  "resolve_hosts L [] = Some []"
| "resolve_hosts L (h # hs) =
     (case openvas_host_type h of
        HOST_TYPE_NAME \<Rightarrow>
          (case openvas_host_resolve L (Some h) AF_INET of
             None \<Rightarrow> map_option ((#) h) (resolve_hosts L hs)
           | Some (Some (Sin a)) \<Rightarrow> map_option ((#) (Host_addr a)) (resolve_hosts L hs)
           | Some _ \<Rightarrow> None)
      | _ \<Rightarrow> map_option ((#) h) (resolve_hosts L hs))"

definition openvas_hosts_resolve :: "netlib \<Rightarrow> openvas_hosts \<Rightarrow> openvas_hosts option" where
  "openvas_hosts_resolve L hs =
     map_option (\<lambda>l. hs\<lparr>hosts := l, current := l\<rparr>) (resolve_hosts L (hosts hs))"

text \<open>
  The removal loops of \<open>openvas_hosts_exclude\<close> and \<open>openvas_hosts_reverse_lookup_only\<close> go
  through the list with \<open>openvas_hosts_remove_element\<close>.
\<close>

fun remove_loop :: "(openvas_host \<Rightarrow> bool) \<Rightarrow> openvas_host list \<Rightarrow> openvas_host list \<times> nat" where
  "remove_loop P [] = ([], 0)"
| "remove_loop P (h # hs) =
     (let (r, d) = remove_loop P hs in if P h then (r, d + 1) else (h # r, d))"

definition drop_hosts :: "(openvas_host \<Rightarrow> bool) \<Rightarrow> openvas_hosts \<Rightarrow> int \<times> openvas_hosts" where
  "drop_hosts P hs =
     (let (r, d) = remove_loop P (hosts hs) in
      (int d, hs\<lparr>hosts := r, current := r, count := count hs - of_nat d,
                 removed := removed hs + of_nat d\<rparr>))"

definition openvas_hosts_exclude ::
  "netlib \<Rightarrow> openvas_hosts option \<Rightarrow> string option \<Rightarrow> bool \<Rightarrow> (int \<times> openvas_hosts option) option" where
  "openvas_hosts_exclude L hs excluded_str resolve =
     (case (hs, excluded_str) of
        (Some h, Some ex) \<Rightarrow>
          (case openvas_hosts_new L (Some ex) of
             None \<Rightarrow> None
           | Some None \<Rightarrow> Some (-1, Some h)
           | Some (Some e) \<Rightarrow>
               (case (if resolve then openvas_hosts_resolve L e else Some e) of
                  None \<Rightarrow> None
                | Some e \<Rightarrow>
                    if openvas_hosts_count (Some e) = 0 then Some (0, Some h)
                    else let table = set (List.map_filter (openvas_host_value_str L) (hosts e));
                             (k, h') = drop_hosts (\<lambda>x. case openvas_host_value_str L x of
                                           Some n \<Rightarrow> n \<in> table | None \<Rightarrow> False) h
                         in Some (k, Some h')))
      | _ \<Rightarrow> Some (-1, hs))"

definition openvas_hosts_reverse_lookup_only ::
  "netlib \<Rightarrow> openvas_hosts option \<Rightarrow> int \<times> openvas_hosts option" where
  "openvas_hosts_reverse_lookup_only L hs =
     (case hs of
        None \<Rightarrow> (-1, None)
      | Some h \<Rightarrow>
          (let (k, h') = drop_hosts (\<lambda>x. openvas_host_reverse_lookup L x = None) h in (k, Some h')))"

definition openvas_hosts_reverse_lookup_unify ::
  "netlib \<Rightarrow> openvas_hosts option \<Rightarrow> int \<times> openvas_hosts option" where
  "openvas_hosts_reverse_lookup_unify L hs =
     (case hs of
        None \<Rightarrow> (-1, None)
      | Some h \<Rightarrow>
          (let (r, d) = unify_loop (openvas_host_reverse_lookup L) {} (hosts h) in
           (int d, Some (h\<lparr>hosts := r, current := r, removed := removed h + of_nat d,
                            count := count h - of_nat d\<rparr>))))"

text \<open>
  \<open>strcasecmp\<close> needs both printed values; an address that cannot be printed would be a NULL
  argument and equals nothing here.
\<close>

fun in_hosts_loop :: "netlib \<Rightarrow> string option \<Rightarrow> in6_addr option \<Rightarrow> openvas_host list \<Rightarrow> bool" where
  "in_hosts_loop L host_str addr [] = False"
| "in_hosts_loop L host_str addr (e # es) =
     (if (case (host_str, openvas_host_value_str L e) of
            (Some a, Some b) \<Rightarrow> strcaseeq a b | _ \<Rightarrow> False) then True
      else if (case addr of
                 Some x \<Rightarrow> openvas_host_type e \<noteq> HOST_TYPE_NAME
                            \<and> openvas_host_get_addr6 L e = Some (Some x)
               | None \<Rightarrow> False) then True
      else in_hosts_loop L host_str addr es)"

definition openvas_host_in_hosts ::
  "netlib \<Rightarrow> openvas_host option \<Rightarrow> in6_addr option \<Rightarrow> openvas_hosts option \<Rightarrow> bool" where
  "openvas_host_in_hosts L host addr hs =
     (case (host, hs) of
        (Some h, Some c) \<Rightarrow> in_hosts_loop L (openvas_host_value_str L h) addr (hosts c)
      | _ \<Rightarrow> False)"

end
