(* ===== verification/HostsCorrect.thy ===== *)
theory HostsCorrect
  imports "HOL-Library.Multiset" "HOL-Library.Sublist" Hosts
begin

text \<open>
  What the host lists promise: the expansion of ranges and blocks is exactly the addresses
  between their ends (or does not return, where the code loops), the collections are
  duplicate free and counted, and the operations on a collection keep that.

  The two loops that add a range, one per address family, have the same shape; the locale
  \<open>range_loop\<close> states it once over the numeric value of an address, and both loops are
  instances.
\<close>

subsection \<open>Enumerating a range\<close>

primrec enum_from :: "('a \<Rightarrow> 'a) \<Rightarrow> nat \<Rightarrow> 'a \<Rightarrow> 'a list" where
  "enum_from nxt 0 a = []"
| "enum_from nxt (Suc k) a = a # enum_from nxt k (nxt a)"

lemma length_enum_from [simp]: "length (enum_from nxt k a) = k"
  by (induction k arbitrary: a) auto

text \<open>The builder's counter is the length of its list, and a limit that is not the largest
  number is respected.\<close>

definition built :: "u32 \<Rightarrow> build \<Rightarrow> bool" where
  "built m hc \<longleftrightarrow> snd hc = of_nat (length (fst hc))
     \<and> (0 < m \<longrightarrow> m \<noteq> -1 \<longrightarrow> length (fst hc) \<le> unat m)"

lemma unat_of_nat32: "n < 2 ^ 32 \<Longrightarrow> unat (of_nat n :: u32) = n"
  by (simp add: unat_of_nat)

lemma unat_lt32: "unat (x :: u32) < 2 ^ 32"
proof -
  have "unat x < 2 ^ LENGTH(32)" by (rule unsigned_less)
  then show ?thesis by simp
qed

lemma unat_minus_one: "unat (-1 :: u32) = 2 ^ 32 - 1"
  by (simp add: unsigned_minus_1_eq_mask mask_eq_exp_minus_1)

lemma unat_below_max: "x \<noteq> -1 \<Longrightarrow> Suc (unat (x :: u32)) < 2 ^ 32"
proof -
  assume "x \<noteq> -1"
  then have "unat x \<noteq> 2 ^ 32 - 1" by (metis unat_minus_one word_unat_eq_iff)
  then show ?thesis using unat_lt32 [of x] by simp
qed

lemma count_exceeds:
  assumes "m \<noteq> -1" "k \<le> unat m"
  shows "m < of_nat k + (1 :: u32) \<longleftrightarrow> k = unat m"
proof -
  have "Suc k < 2 ^ 32" using unat_below_max [OF assms(1)] assms(2) by simp
  then have "unat (of_nat (Suc k) :: u32) = Suc k" by (rule unat_of_nat32)
  with assms show ?thesis by (auto simp: word_less_nat_alt add.commute)
qed

lemma built_push: "0 < m \<Longrightarrow> m \<noteq> -1 \<Longrightarrow> built m hc \<Longrightarrow>
    m < snd hc + 1 \<longleftrightarrow> length (fst hc) = unat m"
  by (simp add: built_def count_exceeds)

locale range_loop =
  fixes loop :: "u32 \<Rightarrow> 'a \<Rightarrow> 'a \<Rightarrow> build \<Rightarrow> build option option"
    and le :: "'a \<Rightarrow> 'a \<Rightarrow> bool" and nxt :: "'a \<Rightarrow> 'a" and mk :: "'a \<Rightarrow> openvas_host"
    and ok :: "'a \<Rightarrow> bool" and val :: "'a \<Rightarrow> nat" and top :: nat
  assumes unfold: "loop m lst cur hc =
      (if le cur lst then
         (let hc = (mk cur # fst hc, snd hc + 1) in
          if m > 0 \<and> snd hc > m then Some None else loop m lst (nxt cur) hc)
       else Some (Some hc))"
    and le_val: "ok a \<Longrightarrow> ok b \<Longrightarrow> le a b \<longleftrightarrow> val a \<le> val b"
    and nxt_ok: "ok a \<Longrightarrow> ok (nxt a)"
    and nxt_val: "ok a \<Longrightarrow> val a < top \<Longrightarrow> val (nxt a) = Suc (val a)"
    and nxt_top: "ok a \<Longrightarrow> val a = top \<Longrightarrow> val (nxt a) = 0"
    and val_inj: "ok a \<Longrightarrow> ok b \<Longrightarrow> val a = val b \<Longrightarrow> a = b"
    and val_top: "ok a \<Longrightarrow> val a \<le> top"
begin

lemma enum_set:
  "ok a \<Longrightarrow> val a + k \<le> Suc top \<Longrightarrow>
     set (enum_from nxt k a) = {x. ok x \<and> val a \<le> val x \<and> val x < val a + k}"
proof (induction k arbitrary: a)
  case (Suc k)
  show ?case
  proof (cases "val a < top")
    case True
    with Suc have "set (enum_from nxt k (nxt a)) = {x. ok x \<and> Suc (val a) \<le> val x \<and> val x < Suc (val a) + k}"
      by (simp add: nxt_ok nxt_val)
    with Suc.prems(1) show ?thesis by (auto simp: Suc_le_eq le_less dest: val_inj)
  next
    case False
    with Suc.prems have "k = 0" "val a = top" using val_top [of a] by auto
    with Suc.prems(1) show ?thesis by (auto dest: val_inj)
  qed
qed simp

lemma enum_distinct: "ok a \<Longrightarrow> val a + k \<le> Suc top \<Longrightarrow> distinct (enum_from nxt k a)"
proof (induction k arbitrary: a)
  case (Suc k)
  show ?case
  proof (cases k)
    case (Suc l)
    with Suc.prems have "val (nxt a) = Suc (val a)" by (simp add: nxt_val)
    with Suc.prems Suc.IH [of "nxt a"] enum_set [of "nxt a" k] show ?thesis by (simp add: nxt_ok)
  qed simp
qed simp

text \<open>Without a limit the loop adds the addresses up to \<open>lst\<close>, provided \<open>lst\<close> has a successor.\<close>

lemma unlimited:
  assumes "ok lst" "val lst < top"
  shows "ok cur \<Longrightarrow> loop 0 lst cur (hs, n) =
    Some (Some (rev (map mk (enum_from nxt (Suc (val lst) - val cur) cur)) @ hs,
                n + of_nat (Suc (val lst) - val cur)))"
proof (induction "Suc (val lst) - val cur" arbitrary: cur hs n)
  case 0
  then have "\<not> le cur lst" using assms by (simp add: le_val)
  then show ?case using 0 by (simp add: unfold [of 0 lst cur])
next
  case (Suc k)
  then have le: "le cur lst" using assms by (simp add: le_val)
  have k: "k = Suc (val lst) - val (nxt cur)" using Suc assms by (simp add: nxt_val)
  have e: "Suc (val lst) - val cur = Suc k" using Suc.hyps(2) by simp
  have step: "loop 0 lst cur (hs, n) = loop 0 lst (nxt cur) (mk cur # hs, n + 1)"
    using le by (subst unfold) simp
  show ?case
    using Suc.hyps(1) [OF k, of "mk cur # hs" "n + 1"] Suc.prems
    by (simp add: step nxt_ok k [symmetric] e add.commute add.left_commute)
qed

text \<open>With a limit it always returns: the whole range if it fits, an error otherwise.\<close>

lemma limited:
  assumes "ok lst" "0 < m" "m \<noteq> -1"
  shows "ok cur \<Longrightarrow> built m (hs, n) \<Longrightarrow> loop m lst cur (hs, n) =
    (if val lst < val cur then Some (Some (hs, n))
     else if val lst < top \<and> length hs + (Suc (val lst) - val cur) \<le> unat m
     then Some (Some (rev (map mk (enum_from nxt (Suc (val lst) - val cur) cur)) @ hs,
                n + of_nat (Suc (val lst) - val cur)))
     else Some None)"
proof (induction "unat m - length hs" arbitrary: cur hs n)
  case 0
  then have "length hs = unat m" using assms by (simp add: built_def)
  moreover from this have "m < n + 1" using built_push [of m "(hs, n)"] 0 assms by simp
  ultimately show ?case
    using 0 assms by (subst unfold) (auto simp: le_val Suc_diff_le not_less)
next
  case (Suc k)
  then have lt: "length hs < unat m" by simp
  show ?case
  proof (cases "val lst < val cur")
    case True
    with Suc assms show ?thesis by (subst unfold) (simp add: le_val)
  next
    case False
    have b: "built m (mk cur # hs, n + 1)"
      using Suc.prems(2) lt by (simp add: built_def add.commute)
    have step: "loop m lst cur (hs, n) = loop m lst (nxt cur) (mk cur # hs, n + 1)"
      using False Suc.prems assms lt built_push [of m "(hs, n)"] by (subst unfold) (simp add: le_val)
    have ih: "loop m lst (nxt cur) (mk cur # hs, n + 1) =
      (if val lst < val (nxt cur) then Some (Some (mk cur # hs, n + 1))
       else if val lst < top \<and> Suc (length hs) + (Suc (val lst) - val (nxt cur)) \<le> unat m
       then Some (Some (rev (map mk (enum_from nxt (Suc (val lst) - val (nxt cur)) (nxt cur))) @ mk cur # hs,
                n + 1 + of_nat (Suc (val lst) - val (nxt cur))))
       else Some None)"
      using Suc.hyps(1) [OF _ nxt_ok [OF Suc.prems(1)] b] Suc.hyps(2) by simp
    consider (wrap) "val cur = top" | (one) "val cur < top" "val cur = val lst" | (more) "val cur < val lst"
      using False val_top [OF Suc.prems(1)] val_top [OF assms(1)] by linarith
    then show ?thesis
    proof cases
      case wrap
      with False have "val lst = top" using val_top [OF assms(1)] by simp
      with wrap step ih Suc.prems show ?thesis by (simp add: nxt_top)
    next
      case one
      with step ih Suc.prems lt show ?thesis by (simp add: nxt_val)
    next
      case more
      then have v: "val (nxt cur) = Suc (val cur)"
        using Suc.prems val_top [OF assms(1)] by (simp add: nxt_val)
      obtain j where j: "val lst - val cur = Suc j" using more by (metis Suc_diff_Suc)
      then have "Suc (val lst) - val cur = Suc (Suc j)" using more by simp
      with step ih v j more show ?thesis by (simp add: Suc_diff_le add.commute add.left_commute)
    qed
  qed
qed

end

subsection \<open>The values of IPv6 addresses\<close>

definition be_val :: "byte list \<Rightarrow> nat" where
  "be_val bs = foldl (\<lambda>n b. n * 256 + unat b) 0 bs"

primrec le_val :: "byte list \<Rightarrow> nat" where
  "le_val [] = 0"
| "le_val (b # bs) = unat b + 256 * le_val bs"

lemma be_val_snoc: "be_val (bs @ [b]) = be_val bs * 256 + unat b"
  by (simp add: be_val_def)

lemma be_val_rev: "be_val (rev bs) = le_val bs"
  by (induction bs) (simp_all add: be_val_snoc, simp add: be_val_def)

lemma le_val_rev: "be_val bs = le_val (rev bs)"
  using be_val_rev [of "rev bs"] by simp

lemma le_val_bound: "le_val bs < 256 ^ length bs"
proof (induction bs)
  case (Cons b bs)
  then have "le_val bs + 1 \<le> 256 ^ length bs" by simp
  then have "256 * (le_val bs + 1) \<le> 256 * 256 ^ length bs" by (rule mult_le_mono2)
  with byte_lt [of b] show ?case by simp
qed simp

lemma le_val_inj: "length as = length bs \<Longrightarrow> le_val as = le_val bs \<Longrightarrow> as = bs"
proof (induction as bs rule: list_induct2)
  case (Cons a as b bs)
  have "unat a = le_val (a # as) mod 256" "unat b = le_val (b # bs) mod 256"
    using byte_lt [of a] byte_lt [of b] by simp_all
  with Cons.prems have "unat a = unat b" by metis
  with Cons show ?case by (simp add: word_unat_eq_iff)
qed simp

lemma unat_byte_Suc: "b < 255 \<Longrightarrow> unat (b + 1 :: byte) = Suc (unat b)"
  by (simp add: word_less_nat_alt unat_word_ariths)

lemma byte_top: "\<not> b < 255 \<Longrightarrow> (b :: byte) = 255"
  using byte_lt [of b] by (simp add: word_less_nat_alt word_unat_eq_iff)

lemma inc_rev_val:
  "le_val (inc_rev bs) = (if Suc (le_val bs) < 256 ^ length bs then Suc (le_val bs) else 0)"
proof (induction bs)
  case (Cons b bs)
  show ?case
  proof (cases "b < 255")
    case True
    moreover have "Suc (le_val (b # bs)) < 256 ^ length (b # bs)"
      using le_val_bound [of "(b + 1) # bs"] True by (simp add: unat_byte_Suc)
    ultimately show ?thesis by (simp add: unat_byte_Suc)
  next
    case False
    then have "b = 255" by (rule byte_top)
    with Cons show ?thesis by simp
  qed
qed simp

lemma length_inc_rev [simp]: "length (inc_rev bs) = length bs"
  by (induction bs) auto

lemma length_inc_bytes [simp]: "length (inc_bytes bs) = length bs"
  by (simp add: inc_bytes_def)

lemma inc_bytes_val:
  "be_val (inc_bytes bs) = (if Suc (be_val bs) < 256 ^ length bs then Suc (be_val bs) else 0)"
  by (simp add: inc_bytes_def be_val_rev inc_rev_val le_val_rev [of bs])

lemma be_val_bound: "be_val bs < 256 ^ length bs"
  using le_val_bound [of "rev bs"] by (simp add: le_val_rev)

lemma be_val_inj: "length as = length bs \<Longrightarrow> be_val as = be_val bs \<Longrightarrow> as = bs"
  using le_val_inj [of "rev as" "rev bs"] by (simp add: le_val_rev)

lemma be_val_append: "be_val (as @ bs) = be_val as * 256 ^ length bs + be_val bs"
proof (induction bs rule: rev_induct)
  case (snoc b bs)
  then show ?case by (simp add: be_val_snoc append_assoc [symmetric] algebra_simps del: append_assoc)
qed (simp add: be_val_def)

lemma be_val_Cons: "be_val (b # bs) = unat b * 256 ^ length bs + be_val bs"
  using be_val_append [of "[b]" bs] by (simp add: be_val_def)

lemma memcmp_val:
  "length as = length bs \<Longrightarrow> memcmp as bs \<le> 0 \<longleftrightarrow> be_val as \<le> be_val bs"
proof (induction as bs rule: list_induct2)
  case (Cons a as b bs)
  have less: "be_val (x # xs) < be_val (y # ys)" if "x < y" "length xs = length ys" for x y xs ys
  proof -
    have "(unat x + 1) * 256 ^ length xs \<le> unat y * 256 ^ length xs"
      using that by (intro mult_le_mono1) (simp add: word_less_nat_alt)
    with be_val_bound [of xs] that(2) show ?thesis by (simp add: be_val_Cons)
  qed
  consider "a < b" | "b < a" | "a = b" by fastforce
  then show ?case
  proof cases
    case 1
    with less [OF 1] Cons.hyps show ?thesis by (simp add: less_imp_le)
  next
    case 2
    with less [OF 2] Cons.hyps show ?thesis by (simp add: not_le less_not_sym)
  next
    case 3
    with Cons show ?thesis by (simp add: be_val_Cons)
  qed
qed simp

interpretation r4: range_loop add_range4 "(\<le>)" "\<lambda>a. a + 1" Host_addr "\<lambda>_. True" unat "2 ^ 32 - 1"
proof unfold_locales
  show "add_range4 m lst cur hc =
      (if cur \<le> lst then
         (let hc = (Host_addr cur # fst hc, snd hc + 1) in
          if m > 0 \<and> snd hc > m then Some None else add_range4 m lst (cur + 1) hc)
       else Some (Some hc))" for m lst cur hc
    by (rule add_range4.simps)
  show "a \<le> b \<longleftrightarrow> unat a \<le> unat b" for a b :: in_addr by (rule word_le_nat_alt)
  show "unat (a + 1) = Suc (unat a)" if "unat a < 2 ^ 32 - 1" for a :: in_addr
    using that by (simp add: unat_word_ariths)
  show "unat (a + 1) = 0" if "unat a = 2 ^ 32 - 1" for a :: in_addr
    using that by (simp add: unat_word_ariths)
  show "a = b" if "unat a = unat b" for a b :: in_addr using that by (simp add: word_unat_eq_iff)
  show "unat a \<le> 2 ^ 32 - 1" for a :: in_addr using unat_lt32 [of a] by simp
qed

interpretation r6: range_loop add_range6 "\<lambda>a b. memcmp a b \<le> 0" inc_bytes Host_addr6
  "\<lambda>a. length a = 16" be_val "256 ^ 16 - 1"
proof unfold_locales
  show "add_range6 m lst cur hc =
      (if memcmp cur lst \<le> 0 then
         (let hc = (Host_addr6 cur # fst hc, snd hc + 1) in
          if m > 0 \<and> snd hc > m then Some None else add_range6 m lst (inc_bytes cur) hc)
       else Some (Some hc))" for m lst cur hc
    by (rule add_range6.simps)
  show "memcmp a b \<le> 0 \<longleftrightarrow> be_val a \<le> be_val b" if "length a = 16" "length b = 16" for a b
    using that by (simp add: memcmp_val)
  show "be_val (inc_bytes a) = Suc (be_val a)" if "length a = 16" "be_val a < 256 ^ 16 - 1" for a
    using that by (simp add: inc_bytes_val)
  show "be_val (inc_bytes a) = 0" if "length a = 16" "be_val a = 256 ^ 16 - 1" for a
    using that by (simp add: inc_bytes_val)
  show "a = b" if "length a = 16" "length b = 16" "be_val a = be_val b" for a b
    using that by (simp add: be_val_inj)
  show "be_val a \<le> 256 ^ 16 - 1" if "length a = 16" for a
    using be_val_bound [of a] that by simp
qed simp

subsection \<open>Removing hosts by key\<close>

text \<open>
  \<open>openvas_hosts_deduplicate\<close> and \<open>openvas_hosts_reverse_lookup_unify\<close> keep one host per key:
  the first one.
\<close>

abbreviation keys_of :: "(openvas_host \<Rightarrow> string option) \<Rightarrow> openvas_host list \<Rightarrow> string list" where
  "keys_of key hs \<equiv> List.map_filter key hs"

lemma unify_loop_props:
  assumes "unify_loop key seen hs = (r, d)"
  shows "length r + d = length hs" "subseq r hs" "distinct (keys_of key r)"
    "set (keys_of key r) = set (keys_of key hs) - seen" "key h = None \<Longrightarrow> h \<in> set r \<longleftrightarrow> h \<in> set hs"
  using assms
proof (induction key seen hs arbitrary: r d rule: unify_loop.induct)
  case (2 key seen x hs)
  {
    case 1
    then show ?case using "2.IH" by (auto simp: split: option.splits if_splits prod.splits)
  next
    case 2
    then show ?case using "2.IH" by (auto split: option.splits if_splits prod.splits)
  next
    case 3
    then show ?case
      using "2.IH" by (fastforce simp: map_filter_simps split: option.splits if_splits prod.splits)
  next
    case 4
    then show ?case
      using "2.IH" by (fastforce simp: map_filter_simps split: option.splits if_splits prod.splits)
  next
    case 5
    then show ?case using "2.IH" by (auto split: option.splits if_splits prod.splits)
  }
qed (auto simp: map_filter_simps)

lemma unify_loop_id:
  "distinct (keys_of key hs) \<Longrightarrow> set (keys_of key hs) \<inter> seen = {} \<Longrightarrow> unify_loop key seen hs = (hs, 0)"
  by (induction key seen hs rule: unify_loop.induct)
     (auto simp: map_filter_simps split: option.splits)

lemma keys_of_inj:
  "distinct hs \<Longrightarrow> inj_on key (set hs) \<Longrightarrow> distinct (keys_of key hs)"
  by (induction hs) (auto simp: map_filter_simps inj_on_def map_filter_def split: option.splits)

subsection \<open>From the text to the addresses\<close>

lemma char_at_0: "char_at (c # s) 0 = c"
  by (simp add: char_at_def)

lemma strtol10_digits:
  "ds \<noteq> [] \<Longrightarrow> (\<forall>c \<in> set ds. isdigit c) \<Longrightarrow> e = [] \<or> \<not> isdigit (hd e) \<Longrightarrow> num_of 10 ds < 2 ^ 63 \<Longrightarrow>
     strtol 10 (ds @ e) = (int (num_of 10 ds), e, False)"
  using strtol10_build [of "[]" "[]" ds e]
  by (auto simp: digit10_isdigit Let_def LONG_MAX_def LONG_MIN_def)

lemma strtol10_stops:
  assumes "CHR ''.'' \<in> set t"
  shows "fst (snd (strtol 10 t)) \<noteq> []"
proof -
  obtain neg u where u: "skip_sign (dropWhile isspace t) = (neg, u)" by fastforce
  have "CHR ''.'' \<in> set (dropWhile isspace t)"
    using assms by (induction t) (auto simp: isspace_def)
  then have "CHR ''.'' \<in> set u"
    using skip_sign_split [OF u] by auto
  moreover have "\<not> is_digit_in 10 CHR ''.''" by (simp add: digit_val_def)
  ultimately have "dropWhile (is_digit_in 10) u \<noteq> []" by auto
  with assms show ?thesis by (auto simp: strtol_def u Let_def)
qed

lemma host_chars:
  "isdigit c \<Longrightarrow> \<not> isspace c \<and> c \<notin> {CHR '','', CHR ''-'', CHR ''/'', CHR '':'', CHR 0x0A}"
  "isxdigit c \<Longrightarrow> \<not> isspace c \<and> c \<notin> {CHR '','', CHR ''-'', CHR ''/'', CHR '':'', CHR 0x0A}"
  by (auto simp: ctype_defs)

lemma newlines_id: "CHR 0x0A \<notin> set s \<Longrightarrow> newlines_to_commas s = s"
  by (induction s) (auto simp: newlines_to_commas_def)

text \<open>The result of a range that needs no deduplication.\<close>

definition fresh_hosts :: "string \<Rightarrow> openvas_host list \<Rightarrow> openvas_hosts" where
  "fresh_hosts s hs =
     \<lparr>orig_str = s, hosts = hs, current = hs, count = of_nat (length hs), removed = 0\<rparr>"

context netlib_laws
begin

lemma value_str_inj:
  "(\<And>a. x = Host_addr6 a \<Longrightarrow> length a = 16) \<Longrightarrow> (\<And>a. y = Host_addr6 a \<Longrightarrow> length a = 16) \<Longrightarrow>
   (\<And>n. x \<noteq> Host_name n) \<Longrightarrow> (\<And>n. y \<noteq> Host_name n) \<Longrightarrow>
   openvas_host_value_str L x = openvas_host_value_str L y \<Longrightarrow> x = y"
  by (cases x; cases y) (auto simp: ntop4_inj ntop6_inj ntop4_not_ntop6 dest: sym)

lemma new_single:
  assumes "s \<noteq> []" "\<And>c. c \<in> set s \<Longrightarrow> \<not> isspace c" "CHR '','' \<notin> set s"
    and "add_element L 0 s ([], 0) = Some (Some (rev hs, of_nat (length hs)))"
    and "distinct hs" "\<And>h. h \<in> set hs \<Longrightarrow> (\<exists>a. h = Host_addr a) \<or> (\<exists>a. h = Host_addr6 a \<and> length a = 16)"
  shows "openvas_hosts_new L (Some s) = Some (Some (fresh_hosts s hs))"
proof -
  have nl: "newlines_to_commas s = s"
    using assms(2) [of "CHR 0x0A"] by (intro newlines_id) (auto simp: isspace_def)
  have "inj_on (openvas_host_value_str L) (set hs)"
    by (intro inj_onI value_str_inj) (auto dest: assms(6))
  then have "unify_loop (openvas_host_value_str L) {} hs = (hs, 0)"
    using assms(5) by (intro unify_loop_id keys_of_inj) auto
  then show ?thesis
    using assms(1-4)
    by (simp add: openvas_hosts_new_def openvas_hosts_new_with_max_def nl strsplit_single strstrip_id
        openvas_hosts_deduplicate_def fresh_hosts_def Let_def)
qed

end

subsection \<open>IPv4 ranges and blocks\<close>

lemma enum_from_nat: "enum_from (\<lambda>a. a + 1) k (of_nat n :: in_addr) = map of_nat [n..<n + k]"
proof (induction k arbitrary: n)
  case (Suc k)
  have "enum_from (\<lambda>a. a + 1) k (of_nat (Suc n) :: in_addr) = map of_nat [Suc n..<Suc n + k]"
    by (rule Suc.IH)
  then show ?case by (simp add: upt_conv_Cons add.commute del: upt_Suc)
qed simp

definition addrs4 :: "nat \<Rightarrow> nat \<Rightarrow> openvas_host list" where
  "addrs4 lo hi = map (\<lambda>n. Host_addr (of_nat n)) [lo..<Suc hi]"

lemma length_addrs4: "lo \<le> hi \<Longrightarrow> length (addrs4 lo hi) = hi - lo + 1"
  by (simp add: addrs4_def)

lemma addrs4_distinct: "hi < 2 ^ 32 \<Longrightarrow> distinct (addrs4 lo hi)"
proof -
  assume "hi < 2 ^ 32"
  then have "inj_on (\<lambda>n. Host_addr (of_nat n)) {lo..<Suc hi}"
    by (intro inj_onI) (metis atLeastLessThan_iff less_Suc_eq_le openvas_host.inject(2)
        order.strict_trans1 unat_of_nat32)
  then show ?thesis by (simp add: addrs4_def distinct_map del: upt_Suc)
qed

lemma add_range4_all:
  assumes "a \<le> b" "b \<noteq> -1"
  shows "add_range4 0 b a ([], 0) =
    Some (Some (rev (addrs4 (unat a) (unat b)), of_nat (length (addrs4 (unat a) (unat b)))))"
proof -
  have "unat b < 2 ^ 32 - 1" using unat_below_max [OF assms(2)] by simp
  moreover have "Suc (unat b) - unat a = length (addrs4 (unat a) (unat b))"
    using assms(1) by (simp add: length_addrs4 word_le_nat_alt Suc_diff_le)
  moreover have "map Host_addr (enum_from (\<lambda>a. a + 1) (Suc (unat b) - unat a) a) = addrs4 (unat a) (unat b)"
    using enum_from_nat [of "Suc (unat b) - unat a" "unat a"] assms(1)
    by (simp add: addrs4_def word_le_nat_alt comp_def del: upt_Suc)
  ultimately show ?thesis using r4.unlimited [of b a "[]" 0] by simp
qed

lemma add_range4_diverges: "add_range4 0 (-1) cur hc = None"
proof (rule ccontr)
  assume "add_range4 0 (-1) cur hc \<noteq> None"
  then obtain r where r: "add_range4 0 (-1) cur hc = Some r" by blast
  have "0 = (0 :: u32) \<longrightarrow> (-1 :: in_addr) = -1 \<longrightarrow> False"
  proof (rule add_range4.raw_induct [where P = "\<lambda>m l c hc r. m = 0 \<longrightarrow> l = -1 \<longrightarrow> False", OF _ r])
    fix f and m :: u32 and l c hc r
    assume "\<And>m l c hc r. f m l c hc = Some r \<Longrightarrow> m = 0 \<longrightarrow> l = -1 \<longrightarrow> False"
      and "(if c \<le> l then let hc = (Host_addr c # fst hc, snd hc + 1) in
              if 0 < m \<and> m < snd hc then Some None else f m l (c + 1) hc
            else Some (Some hc)) = Some r"
    then show "m = 0 \<longrightarrow> l = -1 \<longrightarrow> False" by (auto simp: Let_def split: if_splits)
  qed
  then show False by simp
qed

lemma cut_dash: "CHR ''-'' \<notin> set s \<Longrightarrow> str_cut CHR ''-'' (s @ CHR ''-'' # t) = Some (s, t)"
  and cut_slash: "CHR ''/'' \<notin> set s \<Longrightarrow> str_cut CHR ''/'' (s @ CHR ''/'' # t) = Some (s, t)"
  by (simp_all add: str_cut_Some)

lemma network_base:
  fixes a :: in_addr
  assumes "n \<le> 32"
  shows "unat (a AND (0xffffffff XOR (push_bit n 1 - 1))) = unat a div 2 ^ n * 2 ^ n"
proof -
  have m: "(push_bit n 1 - 1 :: in_addr) = mask n" by (simp add: mask_eq_exp_minus_1 push_bit_of_1)
  have f: "(0xffffffff :: in_addr) = mask 32" by (simp add: mask_eq_exp_minus_1)
  have "a AND (0xffffffff XOR mask n) = push_bit n (drop_bit n a)"
    by (rule bit_word_eqI)
       (auto simp: f bit_and_iff bit_xor_iff bit_mask_iff bit_push_bit_iff bit_drop_bit_eq)
  then have "unat (a AND (0xffffffff XOR mask n)) = take_bit 32 (unat a div 2 ^ n * 2 ^ n)"
    by (simp only: unsigned_push_bit_eq unsigned_drop_bit_eq)
       (simp add: push_bit_eq_mult drop_bit_eq_div take_bit_nat_eq_self [OF unat_lt32])
  moreover have "unat a div 2 ^ n * 2 ^ n < 2 ^ 32"
    using unat_lt32 [of a] by (meson le_less_trans div_times_less_eq_dividend)
  ultimately show ?thesis by (simp only: m take_bit_nat_eq_self)
qed

lemma block_bounds:
  fixes a :: in_addr
  assumes "2 \<le> n" "n \<le> 32"
  defines "N \<equiv> unat a div 2 ^ n * 2 ^ n"
  shows "N + 2 ^ n \<le> 2 ^ 32"
    and "(a AND (0xffffffff XOR (push_bit n 1 - 1))) + 1 = of_nat (N + 1)"
    and "(a AND (0xffffffff XOR (push_bit n 1 - 1))) + 1 + push_bit n 1 - 3 = of_nat (N + 2 ^ n - 2)"
proof -
  have "unat a < 2 ^ (32 - n) * 2 ^ n"
    using unat_lt32 [of a] assms(2) by (simp add: power_add [symmetric])
  then have "unat a div 2 ^ n < 2 ^ (32 - n)" by (simp add: less_mult_imp_div_less)
  then have "(unat a div 2 ^ n + 1) * 2 ^ n \<le> 2 ^ (32 - n) * 2 ^ n" by (intro mult_le_mono1) simp
  then show "N + 2 ^ n \<le> 2 ^ 32" using assms(2) by (simp add: N_def power_add [symmetric])
  have base: "a AND (0xffffffff XOR (push_bit n 1 - 1)) = of_nat N"
    using network_base [OF assms(2), of a] by (metis N_def of_nat_unat ucast_id)
  show "(a AND (0xffffffff XOR (push_bit n 1 - 1))) + 1 = of_nat (N + 1)"
    unfolding base by simp
  have "(2 :: nat) \<le> 2 ^ n" using power_increasing [of 1 n "2 :: nat"] assms(1) by simp
  then show "(a AND (0xffffffff XOR (push_bit n 1 - 1))) + 1 + push_bit n 1 - 3 = of_nat (N + 2 ^ n - 2)"
    unfolding base by (simp add: of_nat_diff push_bit_of_1)
qed


lemma short_end: "(a AND 0xffffff00) = of_nat (unat (a :: in_addr) div 256 * 256)"
proof -
  have "(0xffffff00 :: in_addr) = 0xffffffff XOR (push_bit 8 1 - 1)" by simp
  then have "unat (a AND 0xffffff00) = unat a div 256 * 256" using network_base [of 8 a] by simp
  then show ?thesis by (metis of_nat_unat ucast_id)
qed

context netlib_laws
begin

lemma long_range_type:
  assumes s: "inet_pton4 L s = Some a" and t: "inet_pton4 L t = Some b"
  shows "determine_host_type L (Some (s @ CHR ''-'' # t)) = Some HOST_TYPE_RANGE_LONG"
proof -
  let ?x = "s @ CHR ''-'' # t"
  have n: "c \<notin> set s" "c \<notin> set t" if "\<not> isdigit c" "c \<noteq> CHR ''.''" for c
    using pton4_notin [OF s that] pton4_notin [OF t that] .
  have "inet_pton4 L ?x = None" using pton4_notin [of ?x _ "CHR ''-''"] by (cases "inet_pton4 L ?x") auto
  moreover have "inet_pton6 L ?x = None"
    using pton6_notin [of ?x _ "CHR ''-''"] by (cases "inet_pton6 L ?x") (auto simp: isxdigit_def)
  moreover have "str_cut CHR ''/'' ?x = None"
    using n [of "CHR ''/''"] by (simp add: str_cut_None isdigit_def)
  moreover have "str_cut CHR ''-'' ?x = Some (s, t)" by (rule cut_dash) (simp add: n)
  moreover have "fst (snd (strtol 10 t)) \<noteq> []" using pton4_text [OF t] by (intro strtol10_stops) simp
  ultimately show ?thesis
    using s t by (auto simp: determine_host_type_def is_ipv4_address_def is_ipv6_address_def
        is_cidr_block_def is_short_range_network_def is_long_range_network_def split: prod.splits)
qed

lemma short_range_type:
  assumes s: "inet_pton4 L s = Some a" and t: "t \<noteq> []" "\<forall>c \<in> set t. isdigit c" "num_of 10 t \<le> 255"
  shows "determine_host_type L (Some (s @ CHR ''-'' # t)) = Some HOST_TYPE_RANGE_SHORT"
proof -
  let ?x = "s @ CHR ''-'' # t"
  have "inet_pton4 L ?x = None" using pton4_notin [of ?x _ "CHR ''-''"] by (cases "inet_pton4 L ?x") auto
  moreover have "inet_pton6 L ?x = None"
    using pton6_notin [of ?x _ "CHR ''-''"] by (cases "inet_pton6 L ?x") (auto simp: isxdigit_def)
  moreover have "str_cut CHR ''/'' ?x = None"
    using pton4_notin [OF s, of "CHR ''/''"] host_chars t(2) by (auto simp: str_cut_None isdigit_def)
  moreover have "str_cut CHR ''-'' ?x = Some (s, t)" by (rule cut_dash) (simp add: pton4_notin [OF s])
  moreover have "strtol 10 t = (int (num_of 10 t), [], False)"
    using strtol10_digits [of t "[]"] t by simp
  moreover have "isdigit (char_at t 0)" using t(1,2) by (cases t) (auto simp: char_at_0)
  ultimately show ?thesis
    using s t(3) by (simp add: determine_host_type_def is_ipv4_address_def is_ipv6_address_def
        is_cidr_block_def is_short_range_network_def)
qed

lemma cidr_type:
  assumes s: "inet_pton4 L s = Some a"
    and t: "t \<noteq> []" "\<forall>c \<in> set t. isdigit c" "0 < num_of 10 t" "num_of 10 t \<le> 30"
  shows "determine_host_type L (Some (s @ CHR ''/'' # t)) = Some HOST_TYPE_CIDR_BLOCK"
proof -
  let ?x = "s @ CHR ''/'' # t"
  have "inet_pton4 L ?x = None"
    using pton4_notin [of ?x _ "CHR ''/''"] by (cases "inet_pton4 L ?x") (auto simp: isdigit_def)
  moreover have "inet_pton6 L ?x = None"
    using pton6_notin [of ?x _ "CHR ''/''"] by (cases "inet_pton6 L ?x") (auto simp: isxdigit_def isdigit_def)
  moreover have "str_cut CHR ''/'' ?x = Some (s, t)"
    by (rule cut_slash) (simp add: pton4_notin [OF s] isdigit_def)
  moreover have "strtol 10 t = (int (num_of 10 t), [], False)"
    using strtol10_digits [of t "[]"] t by simp
  moreover have "isdigit (char_at t 0)" using t(1,2) by (cases t) (auto simp: char_at_0)
  ultimately show ?thesis
    using s t(3,4) by (simp add: determine_host_type_def is_ipv4_address_def is_ipv6_address_def is_cidr_block_def)
qed

lemma new_range4:
  assumes s: "inet_pton4 L s = Some a" and x: "x = s @ c # t" "c = CHR ''-'' \<or> c = CHR ''/''"
      "\<And>d. d \<in> set t \<Longrightarrow> isdigit d \<or> d = CHR ''.''"
    and e: "add_element L 0 x ([], 0) = add_range4 0 hi lo ([], 0)" and "lo \<le> hi" "hi \<noteq> -1"
  shows "openvas_hosts_new L (Some x) = Some (Some (fresh_hosts x (addrs4 (unat lo) (unat hi))))"
proof (rule new_single)
  show "x \<noteq> []" by (simp add: x)
  show "\<not> isspace d" if d: "d \<in> set x" for d
  proof -
    consider "d \<in> set s" | "d = c" | "d \<in> set t" using d x(1) by auto
    then have "isdigit d \<or> d \<in> {CHR ''.'', CHR ''-'', CHR ''/''}"
      using pton4_text [OF s] x(2,3) by cases blast+
    then show ?thesis using host_chars(1) [of d] by (auto simp: isspace_def)
  qed
  show "CHR '','' \<notin> set x"
    using x(2) x(3) [of "CHR '',''"] pton4_notin [OF s, of "CHR '',''"] by (auto simp: x(1) isdigit_def)
  show "add_element L 0 x ([], 0) = Some (Some (rev (addrs4 (unat lo) (unat hi)),
      of_nat (length (addrs4 (unat lo) (unat hi)))))"
    using add_range4_all [OF assms(6,7)] e by simp
  show "distinct (addrs4 (unat lo) (unat hi))" by (rule addrs4_distinct) (rule unat_lt32)
qed (auto simp: addrs4_def)

end

lemma scan_u_digits:
  assumes "t \<noteq> []" "\<forall>c \<in> set t. isdigit c" "length t \<le> w"
  shows "scan_u w t = Some (of_nat (num_of 10 t))"
proof -
  obtain d r where t: "t = d # r" "is_digit_in 10 d" using assms(1,2) by (cases t) (auto simp: digit10_isdigit)
  have sk: "dropWhile isspace t = t" "skip_sign t = (False, t)"
    using digit10_not_special [OF t(2)] by (simp_all add: t(1))
  have tw: "takeWhile (is_digit_in 10) t = t" using assms(2) by (simp add: digit10_isdigit)
  show ?thesis using assms(1,3) by (simp add: scan_u_def sk tw Let_def)
qed

lemma sscanf_block_text:
  "s \<noteq> [] \<Longrightarrow> (\<forall>c \<in> set s. P c) \<Longrightarrow> \<not> P CHR ''/'' \<Longrightarrow> sscanf_block P w (s @ CHR ''/'' # t) = scan_u w t"
  by (simp add: sscanf_block_def takeWhile_tail dropWhile_append3)

context netlib_laws
begin

lemma cidr_ips:
  assumes s: "inet_pton4 L s = Some a"
    and t: "t \<noteq> []" "\<forall>c \<in> set t. isdigit c" "length t \<le> 2" "2 \<le> num_of 10 t" "num_of 10 t \<le> 30"
  defines "n \<equiv> 32 - num_of 10 t" defines "N \<equiv> unat a div 2 ^ n * 2 ^ n"
  shows "cidr_block_ips L (s @ CHR ''/'' # t) = Some (Some (of_nat (N + 1), of_nat (N + 2 ^ n - 2)))"
proof -
  have "cidr_get_block (s @ CHR ''/'' # t) = scan_u 2 t"
    unfolding cidr_get_block_def using pton4_text [OF s] by (intro sscanf_block_text) (auto simp: isdigit_def)
  then have g: "cidr_get_block (s @ CHR ''/'' # t) = Some (of_nat (num_of 10 t))"
    using scan_u_digits [OF t(1-3)] by simp
  have i: "cidr_get_ip L (s @ CHR ''/'' # t) = Some a"
    using s pton4_notin [OF s, of "CHR ''/''"] by (simp add: cidr_get_ip_def cut_slash isdigit_def)
  have u: "unat (of_nat (num_of 10 t) :: u32) = num_of 10 t" using t(5) by (intro unat_of_nat32) simp
  have "2 \<le> n" "n \<le> 32" using t(5) by (simp_all add: n_def)
  note b = block_bounds(2,3) [OF this, of a, folded N_def]
  show ?thesis unfolding cidr_block_ips_def g i using t(4,5) b
    by (simp add: u Let_def n_def [symmetric] del: of_nat_add)
qed

end


lemma ref_pton4_eval: "inet_pton4 ref_netlib s = ref_pton4 s"
  by (simp add: ref_netlib_def)


text \<open>
  A short range \<open>a.b.c.d-n\<close> expands to the addresses from its first one to the address
  that has \<open>n\<close> in place of its last byte, unless that is below the first: then to none.
\<close>

theorem hosts_new_short_range:
  assumes "netlib_laws L" and s: "inet_pton4 L s = Some a"
    and t: "t \<noteq> []" "\<forall>c \<in> set t. isdigit c" "num_of 10 t \<le> 255"
    and hi: "hi = unat a div 256 * 256 + num_of 10 t" "hi < 2 ^ 32 - 1"
  shows "openvas_hosts_new L (Some (s @ ''-'' @ t)) =
    Some (Some (fresh_hosts (s @ ''-'' @ t) (addrs4 (unat a) hi)))"
proof -
  let ?x = "s @ CHR ''-'' # t"
  note laws = assms(1)
  have cut: "str_cut CHR ''-'' ?x = Some (s, t)"
    using inet_laws.pton4_notin [OF netlib_laws.axioms(1) [OF laws] s] by (simp add: cut_dash)
  have u: "unat (of_nat hi :: u32) = hi" using hi(2) by (intro unat_of_nat32) simp
  have "atoi t = int (num_of 10 t)"
    using strtol10_digits [of t "[]"] t by (simp add: atoi_def to_int32_id)
  then have "(a AND 0xffffff00) + word_of_int (atoi t) = of_nat hi"
    by (simp add: short_end hi(1))
  then have e: "add_element L 0 ?x ([], 0) =
      (if hi < unat a then Some (Some ([], 0)) else add_range4 0 (of_nat hi) a ([], 0))"
    using s u by (simp add: add_element_def netlib_laws.short_range_type [OF laws s t]
        add_block4_def short_range_network_ips_def cut Let_def word_less_nat_alt)
  have c: "isdigit d \<or> d \<in> {CHR ''.'', CHR ''-''}" if "d \<in> set ?x" for d
    using that inet_laws.pton4_text [OF netlib_laws.axioms(1) [OF laws] s] t(2) by auto
  show ?thesis
  proof (cases "hi < unat a")
    case True
    have "\<not> isspace d \<and> d \<noteq> CHR '',''" if "d \<in> set ?x" for d
      using c [OF that] host_chars(1) [of d] by (auto simp: isspace_def)
    with True e show ?thesis
      using netlib_laws.new_single [OF laws, of ?x "[]"] by (auto simp: addrs4_def)
  next
    case False
    moreover have "(of_nat hi :: u32) \<noteq> -1" using u hi(2) unat_minus_one by force
    ultimately show ?thesis
      using netlib_laws.new_range4 [OF laws s, of ?x "CHR ''-''" t "of_nat hi" a] e t(2) u
      by (simp add: word_le_nat_alt not_less)
  qed
qed

theorem hosts_new_short_range_witness:
  "openvas_hosts_new ref_netlib (Some ''10.0.0.254-255'') =
    Some (Some (fresh_hosts ''10.0.0.254-255'' [Host_addr 0x0A0000FE, Host_addr 0x0A0000FF]))"
proof -
  have a: "inet_pton4 ref_netlib ''10.0.0.254'' = Some 0x0A0000FE"
    unfolding ref_pton4_eval by code_simp
  have t: "\<forall>c \<in> set ''255''. isdigit c" "num_of 10 ''255'' = 255" by code_simp+
  show ?thesis
    using hosts_new_short_range [OF ref.netlib_laws_axioms a, of "''255''" "0x0A0000FF"] t
    by (simp add: addrs4_def upt_rec)
qed

text \<open>
  A CIDR block of 2 to 30 bits expands to the usable addresses of the block that contains
  the given address: all of it but the network and the broadcast address.
\<close>

theorem hosts_new_cidr_block:
  assumes "netlib_laws L" and s: "inet_pton4 L s = Some a"
    and t: "t \<noteq> []" "\<forall>c \<in> set t. isdigit c" "length t \<le> 2" "2 \<le> num_of 10 t" "num_of 10 t \<le> 30"
    and N: "sz = 2 ^ (32 - num_of 10 t)" "N = unat a div sz * sz"
  shows "openvas_hosts_new L (Some (s @ ''/'' @ t)) =
    Some (Some (fresh_hosts (s @ ''/'' @ t) (addrs4 (N + 1) (N + sz - 2))))"
proof -
  let ?x = "s @ CHR ''/'' # t" and ?lo = "of_nat (N + 1) :: u32" and ?hi = "of_nat (N + sz - 2) :: u32"
  note laws = assms(1)
  have n: "2 \<le> 32 - num_of 10 t" "32 - num_of 10 t \<le> 32" using t(5) by simp_all
  have sz: "4 \<le> sz" using power_increasing [OF n(1), of "2 :: nat"] by (simp add: N(1))
  have bound: "N + sz \<le> 2 ^ 32" using block_bounds(1) [OF n, of a] by (simp add: N)
  have u: "unat ?lo = N + 1" "unat ?hi = N + sz - 2"
    using bound sz by (intro unat_of_nat32; simp)+
  have "add_element L 0 ?x ([], 0) = add_range4 0 ?hi ?lo ([], 0)"
  proof -
    have "cidr_block_ips L ?x = Some (Some (?lo, ?hi))"
      using netlib_laws.cidr_ips [OF laws s t] by (simp only: N)
    moreover have "determine_host_type L (Some ?x) = Some HOST_TYPE_CIDR_BLOCK"
      using t(4,5) by (intro netlib_laws.cidr_type [OF laws s t(1,2)]) simp_all
    moreover have "\<not> ?hi < ?lo" using u sz by (simp only: word_less_nat_alt)
    ultimately show ?thesis
      by (simp only: add_element_def add_block4_def option.case host_type.case prod.case if_False)
  qed
  moreover have "?hi \<noteq> -1" using u(2) unat_minus_one bound sz by force
  moreover have "?lo \<le> ?hi" using u sz by (simp add: word_le_nat_alt del: of_nat_add)
  ultimately show ?thesis
    using netlib_laws.new_range4 [OF laws s, of ?x "CHR ''/''" t ?hi ?lo] t(2) u
    by (simp del: of_nat_add)
qed

theorem hosts_new_cidr_block_witness:
  "openvas_hosts_new ref_netlib (Some ''192.168.12.6/30'') =
    Some (Some (fresh_hosts ''192.168.12.6/30'' [Host_addr 0xC0A80C05, Host_addr 0xC0A80C06]))"
proof -
  have a: "inet_pton4 ref_netlib ''192.168.12.6'' = Some 0xC0A80C06"
    unfolding ref_pton4_eval by code_simp
  have t: "\<forall>c \<in> set ''30''. isdigit c" "num_of 10 ''30'' = 30" by code_simp+
  show ?thesis
    using hosts_new_cidr_block [OF ref.netlib_laws_axioms a, of "''30''" 4 "0xC0A80C04"] t
    by (simp add: addrs4_def upt_rec)
qed

text \<open>
  C40: a range that ends at 255.255.255.255 never returns: the loop variable wraps around to
  0.0.0.0 and hosts are added for ever.
\<close>

theorem hosts_new_top_diverges:
  assumes "netlib_laws L" and s: "inet_pton4 L s = Some a" and t: "inet_pton4 L t = Some (-1)"
  shows "openvas_hosts_new L (Some (s @ ''-'' @ t)) = None"
proof -
  let ?x = "s @ CHR ''-'' # t"
  note laws = assms(1) and i = netlib_laws.axioms(1) [OF assms(1)]
  have cut: "str_cut CHR ''-'' ?x = Some (s, t)"
    using inet_laws.pton4_notin [OF i s] by (simp add: cut_dash)
  have c: "isdigit d \<or> d \<in> {CHR ''.'', CHR ''-''}" if "d \<in> set ?x" for d
    using that inet_laws.pton4_text [OF i s] inet_laws.pton4_text [OF i t] by auto
  have sp: "\<not> isspace d" "d \<noteq> CHR '',''" if "d \<in> set ?x" for d
    using c [OF that] host_chars(1) [of d] by (auto simp: isspace_def)
  have "newlines_to_commas ?x = ?x" using sp(1) [of "CHR 0x0A"] by (intro newlines_id) (auto simp: isspace_def)
  moreover have "g_strsplit L ?x '','' = [?x]" using sp(2) by (intro netlib_laws.strsplit_single [OF laws]) auto
  moreover have "g_strstrip L ?x = ?x" using sp(1) by (intro netlib_laws.strstrip_id [OF laws]) auto
  moreover have "add_element L 0 ?x ([], 0) = None"
    using s t by (simp add: add_element_def netlib_laws.long_range_type [OF laws s t]
        add_block4_def long_range_network_ips_def cut add_range4_diverges not_less)
  ultimately show ?thesis
    by (simp add: openvas_hosts_new_def openvas_hosts_new_with_max_def Let_def)
qed

theorem hosts_new_top_diverges_witness:
  "openvas_hosts_new ref_netlib (Some ''255.255.255.254-255.255.255.255'') = None"
proof -
  have "inet_pton4 ref_netlib ''255.255.255.254'' = Some 0xFFFFFFFE"
    "inet_pton4 ref_netlib ''255.255.255.255'' = Some (-1)"
    unfolding ref_pton4_eval by code_simp+
  from hosts_new_top_diverges [OF ref.netlib_laws_axioms this] show ?thesis by simp
qed

subsection \<open>The collection invariant\<close>

definition hosts_wf :: "netlib \<Rightarrow> openvas_hosts \<Rightarrow> bool" where
  "hosts_wf L h \<longleftrightarrow> count h = of_nat (length (hosts h))
     \<and> distinct (keys_of (openvas_host_value_str L) (hosts h))"

lemma built_cons: "built m hc \<Longrightarrow> \<not> (0 < m \<and> m < snd hc + 1) \<Longrightarrow> built m (h # fst hc, snd hc + 1)"
  using built_push [of m hc] by (auto simp: built_def)

lemma built_cons_pair:
  "built m (a, b) \<Longrightarrow> \<not> 0 < m \<or> \<not> m < b + 1 \<Longrightarrow> built m (x # a, b + 1)"
  using built_cons [of m "(a, b)" x] by auto

lemma built_range4: "add_range4 m l c hc = Some r \<Longrightarrow> built m hc \<Longrightarrow> r = Some hc' \<Longrightarrow> built m hc'"
proof -
  assume *: "add_range4 m l c hc = Some r"
  have "built m hc \<longrightarrow> r = Some hc' \<longrightarrow> built m hc'"
    by (rule add_range4.raw_induct [where P = "\<lambda>m l c hc r. built m hc \<longrightarrow> r = Some hc' \<longrightarrow> built m hc'", OF _ *])
       (auto simp: Let_def split: if_splits; metis built_cons_pair)
  then show "built m hc \<Longrightarrow> r = Some hc' \<Longrightarrow> built m hc'" by blast
qed

lemma built_range6: "add_range6 m l c hc = Some r \<Longrightarrow> built m hc \<Longrightarrow> r = Some hc' \<Longrightarrow> built m hc'"
proof -
  assume *: "add_range6 m l c hc = Some r"
  have "built m hc \<longrightarrow> r = Some hc' \<longrightarrow> built m hc'"
    by (rule add_range6.raw_induct [where P = "\<lambda>m l c hc r. built m hc \<longrightarrow> r = Some hc' \<longrightarrow> built m hc'", OF _ *])
       (auto simp: Let_def split: if_splits; metis built_cons_pair)
  then show "built m hc \<Longrightarrow> r = Some hc' \<Longrightarrow> built m hc'" by blast
qed

lemma built_blocks:
  "add_block4 m ips4 hc = Some (Some hc') \<Longrightarrow> built m hc \<Longrightarrow> built m hc'"
  "add_block6 m ips6 hc = Some (Some hc') \<Longrightarrow> built m hc \<Longrightarrow> built m hc'"
  by (auto simp: add_block4_def add_block6_def dest: built_range4 built_range6
      split: option.splits if_splits)

lemma built_elements:
  "elements_loop L m es hc = Some (Some hc') \<Longrightarrow> built m hc \<Longrightarrow> built m hc'"
proof (induction L m es hc rule: elements_loop.induct)
  case (2 L m e es hc)
  show ?case
  proof (cases "g_strstrip L e = []")
    case True
    with 2 show ?thesis by simp
  next
    case False
    with "2.prems"(1) obtain hc1 where a: "add_element L m (g_strstrip L e) hc = Some (Some hc1)"
      and m: "\<not> (m > 0 \<and> snd hc1 > m)" and r: "elements_loop L m es hc1 = Some (Some hc')"
      by (auto simp: Let_def split: option.splits if_splits)
    have single: "built m (add_single L ty st hc)" if "add_single L ty st hc = hc1" for ty st
      using m that "2.prems"(2) built_cons [of m hc] by (auto simp: add_single_def)
    have "built m hc1"
      using a "2.prems"(2) single built_blocks
      by (auto simp: add_element_def split: option.splits host_type.splits)
    with 2 False a m r show ?thesis by (simp add: Let_def)
  qed
qed simp

lemma subseq_distinct: "subseq xs ys \<Longrightarrow> distinct ys \<Longrightarrow> distinct xs"
  by (induction rule: list_emb.induct) (auto dest: list_emb_set)

text \<open>A removal shortens the list, and moves the difference from one counter to the other.\<close>

locale host_removal =
  fixes remove :: "openvas_hosts \<Rightarrow> int \<times> openvas_hosts"
  assumes removed_subseq: "subseq (hosts (snd (remove h))) (hosts h)"
    and removed_number: "fst (remove h) = int (length (hosts h)) - int (length (hosts (snd (remove h))))"
    and removed_counters: "count (snd (remove h)) = count h - of_int (fst (remove h))"
      "removed (snd (remove h)) = removed h + of_int (fst (remove h))"
    and removed_restart: "current (snd (remove h)) = hosts (snd (remove h))"
      "orig_str (snd (remove h)) = orig_str h"
begin

lemma total_kept: "count (snd (remove h)) + removed (snd (remove h)) = count h + removed h"
  by (simp add: removed_counters)

lemma count_kept: "count h = of_nat (length (hosts h)) \<Longrightarrow>
    count (snd (remove h)) = of_nat (length (hosts (snd (remove h))))"
  by (simp add: removed_counters removed_number)

lemma keys_kept: "distinct (keys_of key (hosts h)) \<Longrightarrow> distinct (keys_of key (hosts (snd (remove h))))"
proof -
  have "subseq (keys_of key (hosts (snd (remove h)))) (keys_of key (hosts h))"
    using removed_subseq by (simp add: map_filter_def) (intro subseq_map subseq_filter)
  then show "distinct (keys_of key (hosts h)) \<Longrightarrow> ?thesis" by (rule subseq_distinct)
qed

lemma wf_kept: "hosts_wf L h \<Longrightarrow> hosts_wf L (snd (remove h))"
  by (simp add: hosts_wf_def count_kept keys_kept)

lemma number_nonneg: "0 \<le> fst (remove h)"
  using list_emb_length [OF removed_subseq] by (simp add: removed_number)

end

lemma remove_loop_filter:
  "remove_loop P hs = (filter (\<lambda>x. \<not> P x) hs, length hs - length (filter (\<lambda>x. \<not> P x) hs))"
proof (induction hs)
  case (Cons h hs)
  moreover have "length (filter (\<lambda>x. \<not> P x) hs) \<le> length hs" by (rule length_filter_le)
  ultimately show ?case by (simp add: Suc_diff_le)
qed simp

interpretation drop: host_removal "drop_hosts P" for P
  by unfold_locales
     (simp_all add: drop_hosts_def remove_loop_filter of_nat_diff)

definition unify_hosts :: "(openvas_host \<Rightarrow> string option) \<Rightarrow> openvas_hosts \<Rightarrow> int \<times> openvas_hosts" where
  "unify_hosts key h =
     (let (r, d) = unify_loop key {} (hosts h) in
      (int d, h\<lparr>hosts := r, current := r, count := count h - of_nat d,
                removed := removed h + of_nat d\<rparr>))"

interpretation unify: host_removal "unify_hosts key" for key
proof unfold_locales
  fix h :: openvas_hosts
  obtain r d where u: "unify_loop key {} (hosts h) = (r, d)" by fastforce
  note * = unify_loop_props(1,2) [OF u]
  show "subseq (hosts (snd (unify_hosts key h))) (hosts h)"
    "fst (unify_hosts key h) = int (length (hosts h)) - int (length (hosts (snd (unify_hosts key h))))"
    "count (snd (unify_hosts key h)) = count h - of_int (fst (unify_hosts key h))"
    "removed (snd (unify_hosts key h)) = removed h + of_int (fst (unify_hosts key h))"
    "current (snd (unify_hosts key h)) = hosts (snd (unify_hosts key h))"
    "orig_str (snd (unify_hosts key h)) = orig_str h"
    using * by (simp_all add: unify_hosts_def u)
qed

lemma deduplicate_unify: "openvas_hosts_deduplicate L h = snd (unify_hosts (openvas_host_value_str L) h)"
  by (simp add: openvas_hosts_deduplicate_def unify_hosts_def split: prod.splits)

lemma unify_keys:
  "distinct (keys_of key (hosts (snd (unify_hosts key h))))"
  "set (keys_of key (hosts (snd (unify_hosts key h)))) = set (keys_of key (hosts h))"
proof -
  obtain r d where u: "unify_loop key {} (hosts h) = (r, d)" by fastforce
  with unify_loop_props(3,4) [OF u]
  show "distinct (keys_of key (hosts (snd (unify_hosts key h))))"
    "set (keys_of key (hosts (snd (unify_hosts key h)))) = set (keys_of key (hosts h))"
    by (simp_all add: unify_hosts_def)
qed

text \<open>
  C28: every collection that is created holds no two hosts with the same printed value, counts
  its hosts (in 32 bits), stands at its first host, and respects the limit on the number
  of hosts, unless the limit is the largest number, which the counter cannot exceed.
\<close>

theorem hosts_new_invariant:
  assumes "openvas_hosts_new_with_max L (Some s) m = Some (Some h)"
  shows "hosts_wf L h \<and> current h = hosts h \<and> orig_str h = newlines_to_commas s
    \<and> (0 < m \<longrightarrow> m \<noteq> -1 \<longrightarrow> length (hosts h) \<le> unat m)"
proof -
  let ?key = "openvas_host_value_str L"
  from assms obtain hs n where e:
      "elements_loop L m (g_strsplit L (newlines_to_commas s) '','') ([], 0) = Some (Some (hs, n))"
    and h: "h = (openvas_hosts_deduplicate L \<lparr>orig_str = newlines_to_commas s, hosts = rev hs,
              current = [], count = n, removed = 0\<rparr>)" (is "h = openvas_hosts_deduplicate L ?h0")
    by (auto simp: openvas_hosts_new_with_max_def deduplicate_unify unify.removed_restart Let_def
        split: option.splits)
  have b: "built m (hs, n)" by (rule built_elements [OF e]) (simp add: built_def)
  have "count ?h0 = of_nat (length (hosts ?h0))" using b by (simp add: built_def)
  note c = unify.count_kept [OF this, of ?key]
  have "length (hosts h) \<le> length hs"
    using list_emb_length [OF unify.removed_subseq [of ?key ?h0]] by (simp add: h deduplicate_unify)
  with b c show ?thesis
    by (auto simp: hosts_wf_def h deduplicate_unify unify_keys unify.removed_restart built_def)
qed

theorem hosts_new_invariant_witness:
  "\<exists>h. openvas_hosts_new_with_max ref_netlib (Some ''10.0.0.1,10.0.0.1'') 5 = Some (Some h)
     \<and> hosts_wf ref_netlib h \<and> length (hosts h) \<le> 5"
proof -
  let ?s = "''10.0.0.1,10.0.0.1''"
  have "map_option (map_option hosts) (openvas_hosts_new_with_max ref_netlib (Some ?s) 5)
      = Some (Some [Host_addr 0x0A000001])"
    by code_simp
  then obtain h where h: "openvas_hosts_new_with_max ref_netlib (Some ?s) 5 = Some (Some h)" by auto
  with hosts_new_invariant [OF h] show ?thesis by auto
qed



text \<open>
  Keeping only hosts with a name, and keeping one host per name, preserve the invariant
  and the total of the counters; afterwards every host has a name, or no two hosts share
  one, and no name is lost.
\<close>

theorem hosts_reverse_lookup_semantics:
  assumes "hosts_wf L h"
  shows "\<exists>k1 h1 k2 h2. openvas_hosts_reverse_lookup_only L (Some h) = (k1, Some h1)
    \<and> openvas_hosts_reverse_lookup_unify L (Some h) = (k2, Some h2)
    \<and> hosts h1 = filter (\<lambda>x. openvas_host_reverse_lookup L x \<noteq> None) (hosts h)
    \<and> distinct (keys_of (openvas_host_reverse_lookup L) (hosts h2))
    \<and> set (keys_of (openvas_host_reverse_lookup L) (hosts h2)) = set (keys_of (openvas_host_reverse_lookup L) (hosts h))
    \<and> subseq (hosts h2) (hosts h) \<and> hosts_wf L h1 \<and> hosts_wf L h2
    \<and> count h1 + removed h1 = count h + removed h \<and> count h2 + removed h2 = count h + removed h"
proof -
  let ?P = "\<lambda>x. openvas_host_reverse_lookup L x = None" and ?key = "openvas_host_reverse_lookup L"
  have "openvas_hosts_reverse_lookup_only L (Some h) = (fst (drop_hosts ?P h), Some (snd (drop_hosts ?P h)))"
    by (simp add: openvas_hosts_reverse_lookup_only_def split: prod.splits)
  moreover have "openvas_hosts_reverse_lookup_unify L (Some h) =
      (fst (unify_hosts ?key h), Some (snd (unify_hosts ?key h)))"
    by (simp add: openvas_hosts_reverse_lookup_unify_def unify_hosts_def split: prod.splits)
  moreover have "hosts (snd (drop_hosts ?P h)) = filter (\<lambda>x. ?key x \<noteq> None) (hosts h)"
    by (simp add: drop_hosts_def remove_loop_filter)
  ultimately show ?thesis
    using unify_keys [of ?key h] unify.removed_subseq [of ?key h] drop.wf_kept [OF assms]
      unify.wf_kept [OF assms] drop.total_kept [of ?P h] unify.total_kept [of ?key h]
    by auto
qed

theorem hosts_reverse_lookup_semantics_witness:
  "\<exists>h2. snd (openvas_hosts_reverse_lookup_unify (ref_netlib\<lparr>getnameinfo := \<lambda>_. Some ''gw''\<rparr>)
      (Some (fresh_hosts [] [Host_addr 1, Host_addr 2]))) = Some h2
     \<and> distinct (keys_of (openvas_host_reverse_lookup (ref_netlib\<lparr>getnameinfo := \<lambda>_. Some ''gw''\<rparr>)) (hosts h2))
     \<and> count h2 + removed h2 = 2"
proof -
  let ?L = "ref_netlib\<lparr>getnameinfo := \<lambda>_. Some ''gw''\<rparr>"
  let ?h = "fresh_hosts [] [Host_addr 1, Host_addr 2]"
  have v: "openvas_host_value_str ref_netlib (Host_addr 1) = Some ''0.0.0.1''"
    "openvas_host_value_str ref_netlib (Host_addr 2) = Some ''0.0.0.2''" by code_simp+
  have "hosts_wf ?L ?h" using v by (simp add: hosts_wf_def fresh_hosts_def map_filter_simps)
  from hosts_reverse_lookup_semantics [OF this] obtain k2 h2 where r:
      "openvas_hosts_reverse_lookup_unify ?L (Some ?h) = (k2, Some h2)"
      "distinct (keys_of (openvas_host_reverse_lookup ?L) (hosts h2))"
      "count h2 + removed h2 = count ?h + removed ?h" by blast
  moreover have "count ?h + removed ?h = 2" by (simp add: fresh_hosts_def)
  ultimately show ?thesis by (metis snd_conv)
qed

subsection \<open>Order and iteration\<close>

lemma shuffle_loop_mset:
  "(\<And>k. 0 < k \<Longrightarrow> rnd k < k) \<Longrightarrow> n = length old \<Longrightarrow> mset (shuffle_loop rnd n old new) = mset old + mset new"
proof (induction n arbitrary: old new)
  case (Suc n)
  let ?i = "rnd (Suc n)"
  have i: "?i < length old" using Suc.prems by (metis zero_less_Suc)
  have "mset (shuffle_loop rnd n (take ?i old @ drop (Suc ?i) old) (old ! ?i # new))
      = mset (take ?i old @ drop (Suc ?i) old) + mset (old ! ?i # new)"
    using Suc i by (intro Suc.IH) auto
  moreover have "mset old = mset (take ?i old @ old ! ?i # drop (Suc ?i) old)"
    using i by (simp add: id_take_nth_drop [symmetric])
  ultimately show ?case using i by (simp add: Let_def)
qed simp

lemma keys_of_mset: "mset (keys_of key xs) = image_mset (\<lambda>x. the (key x)) (filter_mset (\<lambda>x. key x \<noteq> None) (mset xs))"
  by (simp add: map_filter_def comp_def)

text \<open>
  Shuffling and reversing keep the hosts, all of them and each as often as before, keep
  the invariant and the counters, and restart the iteration (if there is a host). The random
  numbers are only assumed to lie in the range that is asked for.
\<close>

theorem hosts_shuffle_reverse_permute:
  assumes "hosts_wf L h" and "length (hosts h) < 2 ^ 32" and "\<And>k. 0 < k \<Longrightarrow> rnd k < k"
  shows "mset (hosts (openvas_hosts_shuffle rnd h)) = mset (hosts h)
    \<and> hosts_wf L (openvas_hosts_shuffle rnd h)
    \<and> current (openvas_hosts_shuffle rnd h) = hosts (openvas_hosts_shuffle rnd h)
    \<and> hosts (openvas_hosts_reverse h) = rev (hosts h) \<and> hosts_wf L (openvas_hosts_reverse h)"
proof -
  let ?s = "openvas_hosts_shuffle rnd h" and ?key = "openvas_host_value_str L"
  have "unat (count h) = length (hosts h)"
    using assms(1,2) by (simp add: hosts_wf_def unat_of_nat32)
  then have m: "mset (hosts ?s) = mset (hosts h)"
    using shuffle_loop_mset [OF assms(3), of "length (hosts h)" "hosts h" "[]"]
    by (simp add: openvas_hosts_shuffle_def Let_def)
  have perm: "distinct (keys_of ?key xs)" if "mset xs = mset (hosts h)" for xs
    using assms(1) that keys_of_mset [of ?key] by (metis hosts_wf_def mset_eq_imp_distinct_iff)
  have "hosts_wf L ?s"
    using assms(1) perm [OF m] mset_eq_length [OF m]
    by (simp add: hosts_wf_def openvas_hosts_shuffle_def Let_def)
  moreover have "hosts_wf L (openvas_hosts_reverse h)"
    using assms(1) perm [of "rev (hosts h)"] by (simp add: hosts_wf_def openvas_hosts_reverse_def)
  ultimately show ?thesis
    using m by (auto simp: openvas_hosts_shuffle_def openvas_hosts_reverse_def Let_def)
qed

theorem hosts_shuffle_reverse_permute_witness:
  "mset (hosts (openvas_hosts_shuffle (\<lambda>k. k div 2) (fresh_hosts [] [Host_name ''a'', Host_name ''b'', Host_name ''c''])))
    = {#Host_name ''a'', Host_name ''b'', Host_name ''c''#}"
proof -
  let ?h = "fresh_hosts [] [Host_name ''a'', Host_name ''b'', Host_name ''c'']"
  have "hosts_wf ref_netlib ?h" by (simp add: hosts_wf_def fresh_hosts_def map_filter_simps)
  from hosts_shuffle_reverse_permute [OF this, of "\<lambda>k. k div 2"] show ?thesis by (simp add: fresh_hosts_def)
qed

text \<open>The first \<open>n\<close> results of \<open>openvas_hosts_next\<close>.\<close>

primrec next_results :: "nat \<Rightarrow> openvas_hosts \<Rightarrow> openvas_host option list" where
  "next_results 0 h = []"
| "next_results (Suc n) h = (let (x, h') = openvas_hosts_next h in x # next_results n h')"

text \<open>
  Calling \<open>openvas_hosts_next\<close> \<open>n\<close> times from the start gives the first \<open>n\<close> hosts in
  order, and NULL from the end of the list on.
\<close>

theorem hosts_next_enumerates:
  "next_results n (h\<lparr>current := xs\<rparr>) = map Some (take n xs) @ replicate (n - length xs) None"
proof (induction n arbitrary: xs)
  case (Suc n)
  show ?case
  proof (cases xs)
    case Nil
    with Suc [of "[]"] show ?thesis by (simp add: openvas_hosts_next_def)
  next
    case (Cons x r)
    with Suc [of r] show ?thesis by (simp add: openvas_hosts_next_def)
  qed
qed simp

text \<open>
  A host is found in a collection iff a member has the same printed value up to case,
  or an address is given and a member that is not a name maps to it.
\<close>

theorem host_in_hosts_iff:
  "openvas_host_in_hosts L (Some h) addr (Some c) \<longleftrightarrow>
     (\<exists>e \<in> set (hosts c).
        (\<exists>a b. openvas_host_value_str L h = Some a \<and> openvas_host_value_str L e = Some b \<and> strcaseeq a b)
        \<or> (\<exists>x. addr = Some x \<and> (e = Host_addr6 x \<or> (\<exists>ip. e = Host_addr ip \<and> x = ipv4_as_ipv6 ip))))"
proof -
  have "in_hosts_loop L hv addr es \<longleftrightarrow>
     (\<exists>e \<in> set es. (\<exists>a b. hv = Some a \<and> openvas_host_value_str L e = Some b \<and> strcaseeq a b)
        \<or> (\<exists>x. addr = Some x \<and> (e = Host_addr6 x \<or> (\<exists>ip. e = Host_addr ip \<and> x = ipv4_as_ipv6 ip))))"
    for hv es
  proof (induction es)
    case (Cons e es)
    have 1: "(case (hv, openvas_host_value_str L e) of (Some a, Some b) \<Rightarrow> strcaseeq a b | _ \<Rightarrow> False)
        \<longleftrightarrow> (\<exists>a b. hv = Some a \<and> openvas_host_value_str L e = Some b \<and> strcaseeq a b)"
      by (auto split: option.splits)
    have 2: "(case addr of Some x \<Rightarrow> openvas_host_type e \<noteq> HOST_TYPE_NAME
          \<and> openvas_host_get_addr6 L e = Some (Some x) | None \<Rightarrow> False)
        \<longleftrightarrow> (\<exists>x. addr = Some x \<and> (e = Host_addr6 x \<or> (\<exists>ip. e = Host_addr ip \<and> x = ipv4_as_ipv6 ip)))"
      by (cases e) (auto split: option.splits)
    have 3: "(if A then True else if B then True else C) = ((A \<or> B) \<or> C)" for A B C by simp
    show ?case unfolding in_hosts_loop.simps 1 2 Cons 3 list.set bex_simps(5) ..
  qed simp
  then show ?thesis by (simp add: openvas_host_in_hosts_def)
qed

end
