(* ===== verification/HostsV6.thy ===== *)
theory HostsV6
  imports HostsCorrect
begin

text \<open>
  The IPv6 side of the host lists, and termination: the expansion of IPv6 ranges and blocks
  over the numeric value of the sixteen bytes, and that a limit on the number of hosts makes
  the construction of a collection return for every text.
\<close>

subsection \<open>Decrementing and masking\<close>

lemma length_dec_rev [simp]: "length (dec_rev bs) = length bs"
  by (induction bs) auto

lemma length_dec_bytes [simp]: "length (dec_bytes bs) = length bs"
  by (simp add: dec_bytes_def)

lemma unat_byte_pred: "0 < b \<Longrightarrow> unat (b - 1 :: byte) = unat b - 1"
proof -
  assume "0 < b"
  then have "Suc 0 \<le> unat b" by (simp add: word_less_nat_alt)
  then show ?thesis by (simp add: unat_sub_if')
qed

lemma dec_rev_val: "0 < le_val bs \<Longrightarrow> le_val (dec_rev bs) = le_val bs - 1"
proof (induction bs)
  case (Cons b bs)
  show ?case
  proof (cases "b > 0")
    case True
    then have "0 < unat b" by (simp add: word_less_nat_alt)
    with True show ?thesis by (simp add: unat_byte_pred)
  next
    case False
    then have "b = 0" by (simp add: word_less_nat_alt word_unat_eq_iff)
    with Cons have "0 < le_val bs" by simp
    with Cons.IH False \<open>b = 0\<close> show ?thesis by (simp add: diff_mult_distrib2)
  qed
qed simp

lemma dec_bytes_val: "0 < be_val bs \<Longrightarrow> be_val (dec_bytes bs) = be_val bs - 1"
  using dec_rev_val [of "rev bs"] by (simp add: dec_bytes_def be_val_rev le_val_rev [of bs])

lemma be_val_replicate: "be_val (replicate n 0) = 0" "be_val (replicate n 255) + 1 = 256 ^ n"
  by (induction n) (simp_all add: be_val_Cons, simp_all add: be_val_def)

lemma byte_mask:
  fixes x :: byte
  assumes "r < 8"
  shows "unat (x AND (0xff XOR (push_bit r 1 - 1))) = unat x div 2 ^ r * 2 ^ r"
    and "unat (x OR (push_bit r 1 - 1)) = unat x div 2 ^ r * 2 ^ r + 2 ^ r - 1"
proof -
  have m: "(push_bit r 1 - 1 :: byte) = mask r" by (simp add: mask_eq_exp_minus_1 push_bit_of_1)
  have f: "(0xff :: byte) = mask 8" by (simp add: mask_eq_exp_minus_1)
  have x: "unat x < 2 ^ 8" using byte_lt [of x] by simp
  have hi: "x AND (0xff XOR mask r) = push_bit r (drop_bit r x)"
    by (rule bit_word_eqI)
       (auto simp: f bit_and_iff bit_xor_iff bit_mask_iff bit_push_bit_iff bit_drop_bit_eq)
  then have "unat (x AND (0xff XOR mask r)) = take_bit 8 (unat x div 2 ^ r * 2 ^ r)"
    by (simp only: unsigned_push_bit_eq unsigned_drop_bit_eq)
       (simp add: push_bit_eq_mult drop_bit_eq_div take_bit_nat_eq_self [OF x])
  moreover have "unat x div 2 ^ r * 2 ^ r < 2 ^ 8"
    using x by (meson le_less_trans div_times_less_eq_dividend)
  ultimately show h: "unat (x AND (0xff XOR (push_bit r 1 - 1))) = unat x div 2 ^ r * 2 ^ r"
    by (simp only: m take_bit_nat_eq_self)
  have "x OR mask r = (x AND (0xff XOR mask r)) OR mask r"
    by (rule bit_word_eqI) (auto simp: f bit_and_iff bit_or_iff bit_xor_iff bit_mask_iff)
  also have "\<dots> = (x AND (0xff XOR mask r)) + mask r"
    by (rule disjunctive_add [symmetric]) (auto simp: f bit_and_iff bit_xor_iff bit_mask_iff)
  finally have e: "x OR mask r = (x AND (0xff XOR mask r)) + mask r" .
  have mr: "unat (mask r :: byte) = 2 ^ r - 1"
  proof -
    have "r \<in> {0, 1, 2, 3, 4, 5, 6, 7}" using assms by auto
    then show ?thesis by (auto simp: mask_eq_exp_minus_1)
  qed
  have "unat x div 2 ^ r * 2 ^ r + (2 ^ r - 1) < 2 ^ 8"
  proof -
    have "unat x < 2 ^ (8 - r) * 2 ^ r" using x assms by (simp add: power_add [symmetric])
    then have "unat x div 2 ^ r < 2 ^ (8 - r)" by (simp add: less_mult_imp_div_less)
    then have "(unat x div 2 ^ r + 1) * 2 ^ r \<le> 2 ^ (8 - r) * 2 ^ r" by (intro mult_le_mono1) simp
    moreover have "(2 :: nat) ^ (8 - r) * 2 ^ r = 2 ^ 8" using assms by (simp add: power_add [symmetric])
    moreover have "(0 :: nat) < 2 ^ r" by simp
    ultimately show ?thesis by simp
  qed
  then have "unat ((x AND (0xff XOR mask r)) + mask r) = unat x div 2 ^ r * 2 ^ r + (2 ^ r - 1)"
    using h mr by (simp only: m unat_word_ariths) simp
  then show "unat (x OR (push_bit r 1 - 1)) = unat x div 2 ^ r * 2 ^ r + 2 ^ r - 1"
    by (simp only: m e) simp
qed

lemma update_middle:
  assumes "i < length a"
  shows "(take (Suc i) a @ zs)[i := y] = take i a @ y # zs"
  using assms by (simp add: take_Suc_conv_app_nth list_update_append)

text \<open>The address cut at byte \<open>15 - n\<close>, and the block of \<open>2 ^ (8 n + r)\<close> addresses around it.\<close>

lemma block6_vals:
  fixes a :: in6_addr
  assumes "length a = 16" "n < 16" "r < 8"
  defines "low \<equiv> push_bit r 1 - 1 :: byte" and "x \<equiv> a ! (15 - n)"
  defines "sz \<equiv> 2 ^ (8 * n + r) :: nat" and "N \<equiv> be_val a div 2 ^ (8 * n + r) * 2 ^ (8 * n + r)"
  shows "be_val ((take (16 - n) a @ replicate n 0)[15 - n := x AND (0xff XOR low)]) = N"
    and "be_val ((take (16 - n) a @ replicate n 0xff)[15 - n := x OR low]) = N + sz - 1"
proof -
  let ?i = "15 - n"
  define P where "P = be_val (take ?i a)"
  define D where "D = be_val (drop (Suc ?i) a)"
  have sz: "sz = 2 ^ r * 256 ^ n" by (simp add: sz_def power_add power_mult)
  have r8: "(256 :: nat) = 2 ^ (8 - r) * 2 ^ r" using assms(3) by (simp add: power_add [symmetric])
  have i: "Suc ?i = 16 - n" "?i < length a" using assms(1,2) by simp_all
  have "a = take ?i a @ x # drop (Suc ?i) a" using i(2) by (simp add: x_def id_take_nth_drop)
  then have "be_val a = be_val (take ?i a @ x # drop (Suc ?i) a)" by (rule arg_cong)
  then have V: "be_val a = (P * 256 + unat x) * 256 ^ n + D"
    using i assms(1) by (simp add: be_val_append be_val_Cons P_def D_def algebra_simps)
  have D: "D < 256 ^ n" using be_val_bound [of "drop (Suc ?i) a"] i assms(1) by (simp add: D_def)
  have "be_val a div sz = (P * 256 + unat x) div 2 ^ r"
    using D by (simp add: V sz mult.commute [of "2 ^ r"] div_mult2_eq)
  also have "\<dots> = P * 2 ^ (8 - r) + unat x div 2 ^ r"
    by (subst r8) (simp only: mult.assoc [symmetric], simp)
  finally have N: "N = (P * 256 + unat x div 2 ^ r * 2 ^ r) * 256 ^ n"
    using r8 by (simp add: N_def sz_def [symmetric]) (simp add: sz algebra_simps)
  have ev: "be_val ((take (16 - n) a @ zs)[?i := y]) = (P * 256 + unat y) * 256 ^ n + be_val zs"
    if "length zs = n" for zs y
    using that i update_middle [OF i(2), of zs y]
    by (simp add: be_val_append be_val_Cons P_def algebra_simps)
  show "be_val ((take (16 - n) a @ replicate n 0)[?i := x AND (0xff XOR low)]) = N"
  proof -
    have "unat (x AND (0xff XOR low)) = unat x div 2 ^ r * 2 ^ r"
      using byte_mask(1) [OF assms(3), of x] by (simp only: low_def)
    then show ?thesis by (simp add: ev N be_val_replicate(1))
  qed
  have "unat (x OR low) = unat x div 2 ^ r * 2 ^ r + (2 ^ r - 1)"
    using byte_mask(2) [OF assms(3), of x] by (simp add: low_def)
  then have "be_val ((take (16 - n) a @ replicate n 255)[?i := x OR low]) + 1
      = (P * 256 + (unat x div 2 ^ r * 2 ^ r + (2 ^ r - 1))) * 256 ^ n + (be_val (replicate n 255) + 1)"
    by (simp add: ev)
  also have "\<dots> = N + sz"
  proof -
    obtain q where q: "(2 :: nat) ^ r = Suc q" using gr0_implies_Suc [of "2 ^ r"] by auto
    show ?thesis by (simp only: N sz be_val_replicate(2) q diff_Suc_1) (simp add: algebra_simps)
  qed
  finally show "be_val ((take (16 - n) a @ replicate n 0xff)[?i := x OR low]) = N + sz - 1"
    by simp
qed

lemma block6_bound: "length a = 16 \<Longrightarrow> k \<le> 128 \<Longrightarrow> be_val a div 2 ^ k * 2 ^ k + 2 ^ k \<le> 2 ^ 128"
proof -
  assume l: "length a = 16" and k: "k \<le> 128"
  have "be_val a < 2 ^ (128 - k) * 2 ^ k"
    using be_val_bound [of a] l k by (simp add: power_add [symmetric])
  then have "be_val a div 2 ^ k < 2 ^ (128 - k)" by (simp add: less_mult_imp_div_less)
  then have "(be_val a div 2 ^ k + 1) * 2 ^ k \<le> 2 ^ (128 - k) * 2 ^ k" by (intro mult_le_mono1) simp
  then show ?thesis using k by (simp add: power_add [symmetric])
qed

subsection \<open>IPv6 ranges and blocks\<close>

text \<open>The values of the first and last address that a block of \<open>k\<close> bits around \<open>a\<close> gives.\<close>

definition block6_range :: "nat \<Rightarrow> nat \<Rightarrow> nat \<times> nat" where
  "block6_range v k =
     (let sz = 2 ^ (128 - k); N = v div sz * sz in
      if k = 128 then (v, v) else if k = 127 then (N, N + 1) else (N + 1, N + sz - 2))"

definition addrs6 :: "nat \<Rightarrow> nat \<Rightarrow> in6_addr set" where
  "addrs6 lo hi = {x. length x = 16 \<and> lo \<le> be_val x \<and> be_val x \<le> hi}"

context netlib_laws
begin

lemma cidr6_ips:
  assumes s: "inet_pton6 L s = Some a"
    and t: "t \<noteq> []" "\<forall>c \<in> set t. isdigit c" "length t \<le> 3" "0 < num_of 10 t" "num_of 10 t \<le> 128"
  obtains f l where "cidr6_block_ips L (s @ CHR ''/'' # t) = Some (Some (f, l))"
    "length f = 16" "length l = 16" "(be_val f, be_val l) = block6_range (be_val a) (num_of 10 t)"
proof -
  define k where "k = num_of 10 t"
  have la: "length a = 16" by (rule pton6_length [OF s])
  have "cidr6_get_block (s @ CHR ''/'' # t) = scan_u 3 t"
    unfolding cidr6_get_block_def using pton6_text [OF s]
    by (intro sscanf_block_text) (auto simp: isxdigit_def isdigit_def)
  then have g: "cidr6_get_block (s @ CHR ''/'' # t) = Some (of_nat k)"
    using scan_u_digits [OF t(1-3)] by (simp add: k_def)
  have ip: "cidr6_get_ip L (s @ CHR ''/'' # t) = Some a"
    using s pton6_notin [OF s, of "CHR ''/''"] by (simp add: cidr6_get_ip_def cut_slash isxdigit_def isdigit_def)
  have u: "unat (of_nat k :: u32) = k" using t(5) by (intro unat_of_nat32) (simp add: k_def)
  have k: "0 < k" "k \<le> 128" using t(4,5) by (simp_all add: k_def)
  let ?n = "(128 - k) div 8" and ?r = "(128 - k) mod 8"
  let ?low = "push_bit ?r 1 - 1 :: byte"
  define f where "f = (take (16 - ?n) a @ replicate ?n 0)[15 - ?n := (a ! (15 - ?n)) AND (0xff XOR ?low)]"
  define l where "l = (take (16 - ?n) a @ replicate ?n 0xff)[15 - ?n := (a ! (15 - ?n)) OR ?low]"
  define sz where "sz = (2 :: nat) ^ (128 - k)"
  define N where "N = be_val a div sz * sz"
  have n: "?n < 16" "?r < 8" "8 * ?n + ?r = 128 - k" using k by simp_all
  have v: "be_val f = N" "be_val l = N + sz - 1"
    using block6_vals [OF la n(1,2)] unfolding n(3) f_def l_def N_def sz_def by simp_all
  have bnd: "N + sz \<le> 256 ^ 16" using block6_bound [OF la, of "128 - k"] by (simp add: N_def sz_def)
  have len: "length f = 16" "length l = 16" using la n(1) by (simp_all add: f_def l_def)
  have ips: "cidr6_block_ips L (s @ CHR ''/'' # t) =
      (if k = 128 then Some (Some (a, a)) else if k = 127 then Some (Some (f, l))
       else Some (Some (inc_bytes f, dec_bytes l)))"
    using k unfolding cidr6_block_ips_def g ip option.case Let_def u f_def [symmetric] l_def [symmetric] by simp
  have br: "block6_range (be_val a) (num_of 10 t) =
      (if k = 128 then (be_val a, be_val a) else if k = 127 then (N, N + 1) else (N + 1, N + sz - 2))"
    unfolding block6_range_def Let_def k_def [symmetric] sz_def [symmetric] N_def [symmetric] ..
  consider "k = 128" | "k = 127" | "k < 127" using k by linarith
  then show thesis
  proof cases
    case 1
    show thesis by (rule that [of a a]) (use 1 ips la br in simp_all)
  next
    case 2
    then have "sz = 2" by (simp add: sz_def)
    with 2 ips len br v show thesis by (intro that [of f l]) simp_all
  next
    case 3
    have "4 \<le> sz" using 3 power_increasing [of 2 "128 - k" "2 :: nat"] by (simp add: sz_def)
    with v bnd have c: "Suc (be_val f) < 256 ^ 16" "0 < be_val l" by linarith+
    have "be_val (inc_bytes f) = Suc (be_val f)" using c(1) len(1) by (simp only: inc_bytes_val if_True)
    moreover have "be_val (dec_bytes l) = be_val l - 1" by (rule dec_bytes_val [OF c(2)])
    ultimately show thesis using 3 ips len br v by (intro that [of "inc_bytes f" "dec_bytes l"]) simp_all
  qed
qed

lemma type6:
  assumes s: "inet_pton6 L s = Some a"
  shows "t \<noteq> [] \<Longrightarrow> \<forall>c \<in> set t. isdigit c \<Longrightarrow> 0 < num_of 10 t \<Longrightarrow> num_of 10 t \<le> 128 \<Longrightarrow>
      determine_host_type L (Some (s @ CHR ''/'' # t)) = Some HOST_TYPE_CIDR6_BLOCK"
    and "inet_pton6 L t = Some b \<Longrightarrow>
      determine_host_type L (Some (s @ CHR ''-'' # t)) = Some HOST_TYPE_RANGE6_LONG"
proof -
  let ?x = "s @ CHR ''/'' # t" and ?y = "s @ CHR ''-'' # t"
  have s4: "inet_pton4 L s = None" using pton_exclusive [of s] s by (cases "inet_pton4 L s") auto
  have n4: "inet_pton4 L z = None" if "c \<in> set z" "\<not> isdigit c" "c \<noteq> CHR ''.''" for c z
    using that pton4_notin [of z] by (cases "inet_pton4 L z") auto
  have n6: "inet_pton6 L z = None" if "c \<in> set z" "\<not> isxdigit c" "c \<noteq> CHR ''.''" "c \<noteq> CHR '':''" for c z
    using that pton6_notin [of z] by (cases "inet_pton6 L z") auto
  have x: "inet_pton4 L ?x = None" "inet_pton6 L ?x = None"
    using n4 [of "CHR ''/''" ?x] n6 [of "CHR ''/''" ?x] by (simp_all add: isdigit_def isxdigit_def)
  have y: "inet_pton4 L ?y = None" "inet_pton6 L ?y = None"
    using n4 [of "CHR ''-''" ?y] n6 [of "CHR ''-''" ?y] by (simp_all add: isxdigit_def)
  have sc: "CHR ''/'' \<notin> set s" "CHR ''-'' \<notin> set s"
    using pton6_notin [OF s] by (simp_all add: isxdigit_def isdigit_def)
  {
    assume t: "t \<noteq> []" "\<forall>c \<in> set t. isdigit c" "0 < num_of 10 t" "num_of 10 t \<le> 128"
    have "str_cut CHR ''-'' ?x = None" using sc(2) t(2) host_chars(1) by (auto simp: str_cut_None)
    moreover have "strtol 10 t = (int (num_of 10 t), [], False)"
      using strtol10_digits [of t "[]"] t by simp
    moreover have "isdigit (char_at t 0)" using t(1,2) by (cases t) (auto simp: char_at_0)
    ultimately show "determine_host_type L (Some ?x) = Some HOST_TYPE_CIDR6_BLOCK"
      using s s4 x t(3,4) cut_slash [OF sc(1), of t]
      by (simp add: determine_host_type_def is_ipv4_address_def is_ipv6_address_def is_cidr_block_def
          is_short_range_network_def is_long_range_network_def is_cidr6_block_def)
  next
    assume t: "inet_pton6 L t = Some b"
    have "str_cut CHR ''/'' ?y = None"
      using sc(1) pton6_notin [OF t, of "CHR ''/''"] by (auto simp: str_cut_None isxdigit_def isdigit_def)
    moreover have "\<not> isxdigit CHR '':''" by (simp add: isxdigit_def isdigit_def)
    then have "dropWhile isxdigit t \<noteq> []" using pton6_text [OF t] by auto
    ultimately show "determine_host_type L (Some ?y) = Some HOST_TYPE_RANGE6_LONG"
      using s s4 t y cut_dash [OF sc(2), of t]
      by (simp add: determine_host_type_def is_ipv4_address_def is_ipv6_address_def is_cidr_block_def
          is_short_range_network_def is_long_range_network_def is_cidr6_block_def
          is_short_range6_network_def is_long_range6_network_def del: dropWhile_eq_Nil_conv)
  }
qed

lemma new_range6:
  assumes s: "inet_pton6 L s = Some a" and x: "x = s @ c # t" "c = CHR ''-'' \<or> c = CHR ''/''"
      "\<And>d. d \<in> set t \<Longrightarrow> isxdigit d \<or> d = CHR ''.'' \<or> d = CHR '':''"
    and e: "add_element L 0 x ([], 0) = add_range6 0 hi lo ([], 0)"
    and lens: "length lo = 16" "length hi = 16" and v: "be_val lo \<le> be_val hi" "be_val hi < 256 ^ 16 - 1"
  shows "\<exists>hs. openvas_hosts_new L (Some x) = Some (Some (fresh_hosts x hs)) \<and> distinct hs
           \<and> set hs = Host_addr6 ` addrs6 (be_val lo) (be_val hi)"
proof (intro exI conjI)
  let ?k = "Suc (be_val hi) - be_val lo"
  let ?hs = "map Host_addr6 (enum_from inc_bytes ?k lo)"
  have ke: "be_val lo + ?k = Suc (be_val hi)" using v(1) by simp
  have k: "be_val lo + ?k \<le> Suc (256 ^ 16 - 1)" unfolding ke using v(2) by linarith
  have set: "set (enum_from inc_bytes ?k lo) = addrs6 (be_val lo) (be_val hi)"
    unfolding r6.enum_set [OF lens(1) k] ke addrs6_def less_Suc_eq_le ..
  have d: "distinct (enum_from inc_bytes ?k lo)" by (rule r6.enum_distinct [OF lens(1) k])
  show "openvas_hosts_new L (Some x) = Some (Some (fresh_hosts x ?hs))"
  proof (rule new_single)
    show "x \<noteq> []" by (simp add: x)
    show "\<not> isspace d" if d: "d \<in> set x" for d
    proof -
      consider "d \<in> set s" | "d = c" | "d \<in> set t" using d x(1) by auto
      then have "isxdigit d \<or> d \<in> {CHR ''.'', CHR '':'', CHR ''-'', CHR ''/''}"
        using pton6_text [OF s] x(2,3) by cases blast+
      then show ?thesis using host_chars(2) [of d] by (auto simp: isspace_def)
    qed
    show "CHR '','' \<notin> set x"
      using x(2) x(3) [of "CHR '',''"] pton6_notin [OF s, of "CHR '',''"] by (auto simp: x(1) isxdigit_def isdigit_def)
    show "add_element L 0 x ([], 0) = Some (Some (rev ?hs, of_nat (length ?hs)))"
      using r6.unlimited [OF lens(2) v(2) lens(1), of "[]" 0] by (simp add: e)
    show "distinct ?hs" using d by (simp add: distinct_map inj_on_def)
  qed (use set in \<open>auto simp: addrs6_def\<close>)
  show "distinct ?hs" using d by (simp add: distinct_map inj_on_def)
  show "set ?hs = Host_addr6 ` addrs6 (be_val lo) (be_val hi)" by (simp add: set)
qed

end

text \<open>
  A range of IPv6 addresses expands to exactly the addresses whose value lies between
  those of its ends, once each, for every range that does not end at the all-ones address.
\<close>

theorem hosts_new_long_range6:
  assumes "netlib_laws L" and s: "inet_pton6 L s = Some a" and t: "inet_pton6 L t = Some b"
    and "be_val a \<le> be_val b" and "be_val b < 256 ^ 16 - 1"
  shows "\<exists>hs. openvas_hosts_new L (Some (s @ ''-'' @ t)) = Some (Some (fresh_hosts (s @ ''-'' @ t) hs))
    \<and> distinct hs \<and> set hs = Host_addr6 ` addrs6 (be_val a) (be_val b)"
proof -
  let ?x = "s @ CHR ''-'' # t"
  note laws = assms(1) and i = netlib_laws.axioms(1) [OF assms(1)]
  have len: "length a = 16" "length b = 16"
    using inet_laws.pton6_length [OF i s] inet_laws.pton6_length [OF i t] .
  have cut: "str_cut CHR ''-'' ?x = Some (s, t)"
    using inet_laws.pton6_notin [OF i s, of "CHR ''-''"] by (simp add: cut_dash isxdigit_def)
  have "\<not> 0 < memcmp a b" using memcmp_val [of a b] len assms(4) by simp
  then have "add_element L 0 ?x ([], 0) = add_range6 0 b a ([], 0)"
    using s t by (simp add: add_element_def netlib_laws.type6(2) [OF laws s t] add_block6_def
        long_range6_network_ips_def cut)
  then show ?thesis
    using netlib_laws.new_range6 [OF laws s, of ?x "CHR ''-''" t b a] len assms(4,5)
      inet_laws.pton6_text [OF i t] by simp
qed

theorem hosts_new_long_range6_witness:
  "\<exists>hs. openvas_hosts_new ref_netlib (Some ''2::1-2::3'') = Some (Some (fresh_hosts ''2::1-2::3'' hs))
    \<and> distinct hs \<and> Host_addr6 ([0, 2, 0, 0, 0, 0, 0, 0, 0, 0, 0, 0, 0, 0, 0, 2]) \<in> set hs"
proof -
  let ?a = "[0, 2, 0, 0, 0, 0, 0, 0, 0, 0, 0, 0, 0, 0, 0, 1] :: in6_addr" and ?b = "[0, 2, 0, 0, 0, 0, 0, 0, 0, 0, 0, 0, 0, 0, 0, 3] :: in6_addr"
  have p: "inet_pton6 ref_netlib ''2::1'' = Some ?a" "inet_pton6 ref_netlib ''2::3'' = Some ?b"
    by code_simp+
  have "be_val ?a \<le> be_val ?b" "be_val ?b < 256 ^ 16 - 1" by (simp_all add: be_val_def)
  from hosts_new_long_range6 [OF ref.netlib_laws_axioms p this] obtain hs where
    hs: "openvas_hosts_new ref_netlib (Some (''2::1'' @ ''-'' @ ''2::3'')) =
        Some (Some (fresh_hosts (''2::1'' @ ''-'' @ ''2::3'') hs))"
      "distinct hs" "set hs = Host_addr6 ` addrs6 (be_val ?a) (be_val ?b)" by blast
  have "be_val ?a \<le> be_val ([0, 2, 0, 0, 0, 0, 0, 0, 0, 0, 0, 0, 0, 0, 0, 2])"
    "be_val ([0, 2, 0, 0, 0, 0, 0, 0, 0, 0, 0, 0, 0, 0, 0, 2]) \<le> be_val ?b"
    by (simp_all add: be_val_def)
  then have "Host_addr6 ([0, 2, 0, 0, 0, 0, 0, 0, 0, 0, 0, 0, 0, 0, 0, 2]) \<in> set hs"
    unfolding hs(3) addrs6_def by (intro imageI) simp
  with hs(1,2) show ?thesis by auto
qed

text \<open>
  An IPv6 block of 1 to 126 bits expands to the addresses of the block without its first
  and last one, one of 127 bits to both of its addresses, one of 128 bits to the address.
\<close>

theorem hosts_new_cidr6_block:
  assumes "netlib_laws L" and s: "inet_pton6 L s = Some a"
    and t: "t \<noteq> []" "\<forall>c \<in> set t. isdigit c" "length t \<le> 3" "0 < num_of 10 t" "num_of 10 t \<le> 128"
    and r: "block6_range (be_val a) (num_of 10 t) = (lo, hi)" "lo \<le> hi" "hi < 256 ^ 16 - 1"
  shows "\<exists>hs. openvas_hosts_new L (Some (s @ ''/'' @ t)) = Some (Some (fresh_hosts (s @ ''/'' @ t) hs))
    \<and> distinct hs \<and> set hs = Host_addr6 ` addrs6 lo hi"
proof -
  let ?x = "s @ CHR ''/'' # t"
  note laws = assms(1)
  obtain f l where ips: "cidr6_block_ips L ?x = Some (Some (f, l))" and len: "length f = 16" "length l = 16"
    and v: "(be_val f, be_val l) = block6_range (be_val a) (num_of 10 t)"
    by (rule netlib_laws.cidr6_ips [OF laws s t])
  from v r(1) have fl: "lo = be_val f" "hi = be_val l" by simp_all
  have "\<not> 0 < memcmp f l" using memcmp_val [of f l] len r(2) fl by simp
  then have "add_element L 0 ?x ([], 0) = add_range6 0 l f ([], 0)"
    by (simp add: add_element_def netlib_laws.type6(1) [OF laws s t(1,2,4,5)] add_block6_def ips)
  then show ?thesis
    using netlib_laws.new_range6 [OF laws s, of ?x "CHR ''/''" t l f] len r(2,3) fl t(2)
    by (simp add: isxdigit_def)
qed

theorem hosts_new_cidr6_block_witness:
  "\<exists>hs. openvas_hosts_new ref_netlib (Some ''2::7/126'') = Some (Some (fresh_hosts ''2::7/126'' hs))
    \<and> distinct hs \<and> Host_addr6 ([0, 2, 0, 0, 0, 0, 0, 0, 0, 0, 0, 0, 0, 0, 0, 5]) \<in> set hs"
proof -
  let ?a = "[0, 2, 0, 0, 0, 0, 0, 0, 0, 0, 0, 0, 0, 0, 0, 7] :: in6_addr"
  let ?N = "be_val ([0, 2, 0, 0, 0, 0, 0, 0, 0, 0, 0, 0, 0, 0, 0, 4])"
  have p: "inet_pton6 ref_netlib ''2::7'' = Some ?a" by code_simp
  have t: "\<forall>c \<in> set ''126''. isdigit c" "0 < num_of 10 ''126''" "num_of 10 ''126'' \<le> 128" by code_simp+
  have n: "num_of 10 ''126'' = 126" by code_simp
  have r: "block6_range (be_val ?a) (num_of 10 ''126'') = (?N + 1, ?N + 2)" "?N + 1 \<le> ?N + 2" "?N + 2 < 256 ^ 16 - 1"
    by (simp_all add: be_val_def block6_range_def n)
  from hosts_new_cidr6_block [OF ref.netlib_laws_axioms p _ t(1) _ t(2,3) r] obtain hs where
    hs: "openvas_hosts_new ref_netlib (Some (''2::7'' @ ''/'' @ ''126'')) =
        Some (Some (fresh_hosts (''2::7'' @ ''/'' @ ''126'') hs))"
      "distinct hs" "set hs = Host_addr6 ` addrs6 (?N + 1) (?N + 2)" by auto
  have "?N + 1 \<le> be_val ([0, 2, 0, 0, 0, 0, 0, 0, 0, 0, 0, 0, 0, 0, 0, 5])"
    "be_val ([0, 2, 0, 0, 0, 0, 0, 0, 0, 0, 0, 0, 0, 0, 0, 5]) \<le> ?N + 2"
    by (simp_all add: be_val_def)
  then have "Host_addr6 ([0, 2, 0, 0, 0, 0, 0, 0, 0, 0, 0, 0, 0, 0, 0, 5]) \<in> set hs"
    unfolding hs(3) addrs6_def by (intro imageI) simp
  with hs(1,2) show ?thesis by auto
qed

subsection \<open>With a limit every text is processed\<close>

lemma cidr6_lengths:
  assumes "inet_laws L" "cidr6_block_ips L s = Some (Some (f, l))"
  shows "length f = 16 \<and> length l = 16"
proof -
  from assms(2) obtain b a where "cidr6_get_block s = Some b" and a: "cidr6_get_ip L s = Some a"
    by (auto simp: cidr6_block_ips_def split: option.splits)
  moreover from a have "length a = 16"
    using inet_laws.pton6_length [OF assms(1)] by (auto simp: cidr6_get_ip_def split: option.splits)
  moreover have "(128 - n) div 8 \<le> 15" if "n \<noteq> 0" for n :: nat using that by linarith
  ultimately show ?thesis
    using assms(2) by (auto simp: cidr6_block_ips_def Let_def split: if_splits)
qed

context netlib_laws
begin

lemma element_returns:
  assumes "0 < m" "m \<noteq> -1" "built m hc" "cidr_block_ips L s \<noteq> None" "cidr6_block_ips L s \<noteq> None"
  shows "add_element L m s hc \<noteq> None"
proof -
  have b4: "add_block4 m ips hc \<noteq> None" if "ips \<noteq> None" for ips
    using that r4.limited [where m = m and hs = "fst hc" and n = "snd hc"] assms(1-3)
    by (auto simp: add_block4_def split: option.splits)
  have b6: "add_block6 m ips hc \<noteq> None"
    if "ips \<noteq> None" "\<And>f l. ips = Some (Some (f, l)) \<Longrightarrow> length f = 16 \<and> length l = 16" for ips
    using that r6.limited [where m = m and hs = "fst hc" and n = "snd hc"] assms(1-3)
    by (auto simp: add_block6_def split: option.splits)
  have l6: "long_range6_network_ips L s \<noteq> None" "short_range6_network_ips L s \<noteq> None"
    "short_range_network_ips L s \<noteq> None" "long_range_network_ips L s \<noteq> None"
    by (auto simp: long_range6_network_ips_def short_range6_network_ips_def short_range_network_ips_def
        long_range_network_ips_def Let_def split: option.splits)
  have len: "long_range6_network_ips L s = Some (Some (f, l)) \<Longrightarrow> length f = 16 \<and> length l = 16"
    "short_range6_network_ips L s = Some (Some (f, l)) \<Longrightarrow> length f = 16 \<and> length l = 16" for f l
    using pton6_length
    by (auto simp: long_range6_network_ips_def short_range6_network_ips_def Let_def split: option.splits)
  note c6 = cidr6_lengths [OF inet_laws_axioms, of s]
  show ?thesis
    using b4 [OF assms(4)] b4 [OF l6(3)] b4 [OF l6(4)] b6 [OF assms(5) c6] b6 [OF l6(1) len(1)]
      b6 [OF l6(2) len(2)]
    by (auto simp: add_element_def split: option.splits host_type.splits)
qed

end

lemma elements_return:
  assumes "netlib_laws L" "0 < m" "m \<noteq> -1"
  shows "built m hc \<Longrightarrow>
    (\<And>e. e \<in> set es \<Longrightarrow> cidr_block_ips L (g_strstrip L e) \<noteq> None \<and> cidr6_block_ips L (g_strstrip L e) \<noteq> None) \<Longrightarrow>
    elements_loop L m es hc \<noteq> None"
proof (induction es arbitrary: hc)
  case (Cons e es)
  show ?case
  proof (cases "g_strstrip L e = []")
    case True
    with Cons show ?thesis by simp
  next
    case False
    obtain r where r: "add_element L m (g_strstrip L e) hc = Some r"
      using netlib_laws.element_returns [OF assms(1-3) Cons.prems(1), of "g_strstrip L e"] Cons.prems(2) [of e] by auto
    show ?thesis
    proof (cases "r = None \<or> (\<exists>hc'. r = Some hc' \<and> m < snd hc')")
      case True
      with False r assms(2) show ?thesis by auto
    next
      case ok: False
      then obtain hc' where hc': "r = Some hc'" "\<not> m < snd hc'" by auto
      have "elements_loop L m [e] hc = Some (Some hc')" using False r hc' by simp
      then have "built m hc'" using Cons.prems(1) by (rule built_elements)
      with Cons.IH [of hc'] Cons.prems(2) False r hc' show ?thesis by simp
    qed
  qed
qed simp

text \<open>
  With a limit on the number of hosts the construction returns for every text, also for
  the ranges on which it does not without one, as long as no element is a block notation
  whose shift or index is undefined.
\<close>

theorem hosts_new_with_max_returns:
  assumes "netlib_laws L" and "0 < m" and "m \<noteq> -1"
    and "\<forall>e \<in> set (g_strsplit L (newlines_to_commas s) '',''). cidr_block_ips L (g_strstrip L e) \<noteq> None
           \<and> cidr6_block_ips L (g_strstrip L e) \<noteq> None"
  shows "\<exists>r. openvas_hosts_new_with_max L (Some s) m = Some r"
proof -
  have "elements_loop L m (g_strsplit L (newlines_to_commas s) '','') ([], 0) \<noteq> None"
    using assms(4) by (intro elements_return [OF assms(1-3)]) (auto simp: built_def)
  then show ?thesis
    by (auto simp: openvas_hosts_new_with_max_def Let_def split: option.splits)
qed

theorem hosts_new_with_max_returns_witness:
  "\<exists>r. openvas_hosts_new_with_max ref_netlib (Some ''255.255.255.254-255.255.255.255'') 4096 = Some r"
proof (rule hosts_new_with_max_returns [OF ref.netlib_laws_axioms])
  show "\<forall>e \<in> set (g_strsplit ref_netlib (newlines_to_commas ''255.255.255.254-255.255.255.255'') '','').
      cidr_block_ips ref_netlib (g_strstrip ref_netlib e) \<noteq> None
      \<and> cidr6_block_ips ref_netlib (g_strstrip ref_netlib e) \<noteq> None"
    by code_simp
qed simp_all

end
