(* ===== verification/IsoTime.thy ===== *)
theory IsoTime
  imports Prelude "HOL-Library.Signed_Division"
begin

text \<open>
  The ISO time values of \<open>openvas-libraries/nasl/nasl_isotime.c\<close>: times as 15-byte texts
  \<open>yyyymmddThhmmss\<close>, their scanner and printer, and the addition of years, days and seconds
  through Julian day numbers.

  All numbers of the date functions stay far below the limits of \<open>int\<close> and \<open>long\<close>, with
  one exception in \<open>add_seconds_to_isotime\<close> that is written out; so they are \<^typ>\<open>int\<close>, and
  the C division, which truncates, is \<open>sdiv\<close> where an operand may be negative. A buffer of
  type \<open>my_isotime_t\<close> is the text it holds. The two search loops of \<open>jd2date\<close> are partial
  functions whose \<open>None\<close> is a loop that does not end or runs into the \<open>g_error\<close>.
\<close>

subsection \<open>Characters and fields\<close>

definition ISOTIME_SIZE :: nat where "ISOTIME_SIZE = 16"
definition JD_DIFF :: int where "JD_DIFF = 1721060"

definition spacep :: "string \<Rightarrow> nat \<Rightarrow> bool" where
  "spacep s i \<longleftrightarrow> char_at s i = CHR '' '' \<or> char_at s i = CHR 0x09"

definition digitp :: "string \<Rightarrow> nat \<Rightarrow> bool" where
  "digitp s i \<longleftrightarrow> isdigit (char_at s i)"

definition atoi_1 :: "string \<Rightarrow> nat \<Rightarrow> int" where
  "atoi_1 s i = int (ccode (char_at s i)) - 48"

definition atoi_2 :: "string \<Rightarrow> nat \<Rightarrow> int" where
  "atoi_2 s i = atoi_1 s i * 10 + atoi_1 s (i + 1)"

definition atoi_4 :: "string \<Rightarrow> nat \<Rightarrow> int" where
  "atoi_4 s i = atoi_2 s i * 100 + atoi_2 s (i + 2)"

text \<open>\<open>%0wd\<close> for a number that is not negative, and the format of a time.\<close>

definition pad0 :: "nat \<Rightarrow> int \<Rightarrow> string" where
  "pad0 w n = (let s = to_base 10 (nat n) in replicate (w - length s) CHR ''0'' @ s)"

definition isotime_text :: "int \<Rightarrow> int \<Rightarrow> int \<Rightarrow> int \<Rightarrow> int \<Rightarrow> int \<Rightarrow> string" where
  "isotime_text year month day hour minute sec =
     take (ISOTIME_SIZE - 1)
       (pad0 4 year @ pad0 2 month @ pad0 2 day @ ''T'' @ pad0 2 hour @ pad0 2 minute @ pad0 2 sec)"

record tm =
  tm_year :: int
  tm_mon :: int
  tm_mday :: int
  tm_hour :: int
  tm_min :: int
  tm_sec :: int

text \<open>\<open>gmtime\<close> is a parameter.\<close>

definition epoch2isotime :: "(int \<Rightarrow> tm) \<Rightarrow> int \<Rightarrow> string" where
  "epoch2isotime gmtime atime =
     (if atime = -1 then []
      else let tp = gmtime atime in
           isotime_text (1900 + tm_year tp) (tm_mon tp + 1) (tm_mday tp) (tm_hour tp) (tm_min tp) (tm_sec tp))"

subsection \<open>Checking and scanning\<close>

text \<open>0 for a valid format.\<close>

definition check_isotime :: "string \<Rightarrow> int" where
  "check_isotime atime =
     (if char_at atime 0 = CHR 0x00 then 1
      else if \<not> list_all (digitp atime) [0..<8] then 1
      else if char_at atime 8 \<noteq> CHR ''T'' then 1
      else if \<not> list_all (digitp atime) [9..<15] then 1
      else 0)"

definition isotime_p :: "string \<Rightarrow> bool" where
  "isotime_p s =
     (if char_at s 0 = CHR 0x00 then False
      else if \<not> list_all (digitp s) [0..<8] then False
      else if char_at s 8 \<noteq> CHR ''T'' then False
      else if \<not> list_all (digitp s) [9..<15] then False
      else char_at s 15 = CHR 0x00 \<or> isspace (char_at s 15) \<or> char_at s 15 = CHR '':''
           \<or> char_at s 15 = CHR '','')"

definition isotime_human_p :: "string \<Rightarrow> bool" where
  "isotime_human_p s =
     (if char_at s 0 = CHR 0x00 then False
      else if \<not> list_all (digitp s) [0..<4] then False
      else if char_at s 4 \<noteq> CHR ''-'' then False
      else if \<not> digitp s 5 \<or> \<not> digitp s 6 \<or> char_at s 7 \<noteq> CHR ''-'' then False
      else if atoi_2 s 5 < 1 \<or> atoi_2 s 5 > 12 then False
      else if \<not> digitp s 8 \<or> \<not> digitp s 9 then False
      else if atoi_2 s 8 < 1 \<or> atoi_2 s 8 > 31 then False
      else if char_at s 10 = CHR 0x00 \<or> char_at s 10 = CHR '','' then True
      else if \<not> spacep s 10 then False
      else if spacep s 11 then True
      else if \<not> digitp s 11 \<or> \<not> digitp s 12 then False
      else if atoi_2 s 11 < 0 \<or> atoi_2 s 11 > 23 then False
      else if char_at s 13 = CHR 0x00 \<or> char_at s 13 = CHR '','' then True
      else if char_at s 13 \<noteq> CHR '':'' then False
      else if \<not> digitp s 14 \<or> \<not> digitp s 15 then False
      else if atoi_2 s 14 < 0 \<or> atoi_2 s 14 > 59 then False
      else if char_at s 16 = CHR 0x00 \<or> char_at s 16 = CHR '','' then True
      else if char_at s 16 \<noteq> CHR '':'' then False
      else if \<not> digitp s 17 \<or> \<not> digitp s 18 then False
      else if atoi_2 s 17 < 0 \<or> atoi_2 s 17 > 60 then False
      else char_at s 19 = CHR 0x00 \<or> char_at s 19 = CHR '','' \<or> spacep s 19)"

text \<open>
  The return value and the text left in \<open>atime\<close>. The buffer is cleared before \<open>string\<close> is
  looked at.
\<close>

definition string2isotime :: "string \<Rightarrow> nat \<times> string" where
  "string2isotime s =
     (if isotime_p s then (15, take 15 s)
      else if \<not> isotime_human_p s then (0, [])
      else
        let date = [s ! 0, s ! 1, s ! 2, s ! 3, s ! 5, s ! 6, s ! 8, s ! 9] @ ''T'' in
        if \<not> spacep s 10 then (10, date @ ''000000'')
        else if spacep s 11 then (11, date @ ''000000'')
        else if char_at s 13 \<noteq> CHR '':'' then (13, date @ [s ! 11, s ! 12] @ ''0000'')
        else if char_at s 16 \<noteq> CHR '':'' then (16, date @ [s ! 11, s ! 12, s ! 14, s ! 15] @ ''00'')
        else (19, date @ [s ! 11, s ! 12, s ! 14, s ! 15, s ! 17, s ! 18]))"

subsection \<open>Dates\<close>

definition leap :: "int \<Rightarrow> bool" where
  "leap y = (let s = (y mod 4 = 0) in if y mod 100 = 0 then (if y mod 400 \<noteq> 0 then False else s) else s)"

definition days_per_year :: "int \<Rightarrow> int" where
  "days_per_year y = (if leap y then 366 else 365)"

definition days_per_month :: "int \<Rightarrow> int \<Rightarrow> int option" where
  "days_per_month y m =
     (if m = 1 \<or> m = 3 \<or> m = 5 \<or> m = 7 \<or> m = 8 \<or> m = 10 \<or> m = 12 then Some 31
      else if m = 2 then Some (if leap y then 29 else 28)
      else if m = 4 \<or> m = 6 \<or> m = 9 \<or> m = 11 then Some 30
      else None)"

definition date2jd :: "int \<Rightarrow> int \<Rightarrow> int \<Rightarrow> int" where
  "date2jd year month day =
     (let jd = 365 * year + 31 * (month - 1) + day + JD_DIFF;
          (year, jd) = (if month < 3 then (year - 1, jd) else (year, jd - (4 * month + 23) div 10))
      in jd + (year sdiv 4 - ((year sdiv 100 + 1) * 3) sdiv 4))"

partial_function (option) year_loop :: "int \<Rightarrow> int \<Rightarrow> int option" where
  "year_loop jd y =
     (if jd - date2jd y 1 1 > days_per_year y then year_loop jd (y + 1) else Some y)"

partial_function (option) month_loop :: "int \<Rightarrow> int \<Rightarrow> int \<Rightarrow> (int \<times> int) option" where
  "month_loop jd y m =
     (case days_per_month y m of
        None \<Rightarrow> None
      | Some n \<Rightarrow>
          if jd - date2jd y m 1 > n then
            (if m + 1 > 12 then month_loop jd (y + 1) 1 else month_loop jd y (m + 1))
          else Some (y, m))"

declare year_loop.simps [code] month_loop.simps [code]

text \<open>
  The outer \<open>None\<close> stands for not returning; the result is the new date, \<open>None\<close> when the
  function returns before it writes to the variables, and the return value.
\<close>

definition jd2date :: "int \<Rightarrow> ((int \<times> int \<times> int) option \<times> int) option" where
  "jd2date jd =
     (if jd = 0 then Some (None, 0)
      else if jd < 1721425 \<or> jd > 2843085 then Some (None, 0)
      else
        Option.bind (year_loop jd ((jd - JD_DIFF) div 366)) (\<lambda>y.
        Option.bind (month_loop jd y ((jd - date2jd y 1 1) div 31 + 1)) (\<lambda>(y, m).
        Option.bind (days_per_month y m) (\<lambda>n.
          let d = jd - date2jd y m 1 + 1;
              (m, d) = (if d > n then (m + 1, 1) else (m, d));
              (y, m) = (if m > 12 then (y + 1, 1) else (y, m))
          in Some (Some (y, m, d), jd - date2jd y 1 1 + 1)))))"

subsection \<open>Adding to a time\<close>

definition too_early :: "int \<Rightarrow> int \<Rightarrow> int \<Rightarrow> bool" where
  "too_early year month day \<longleftrightarrow> year < 1582 \<or> (year = 1582 \<and> month < 10)
     \<or> (year = 1582 \<and> month = 10 \<and> day < 15)"

text \<open>
  The common end of the three functions: the date is converted, with the old values kept when
  \<open>jd2date\<close> gives up, checked and printed. 0 and the new text on success, 1 and the old text
  on failure.
\<close>

definition set_isotime ::
  "string \<Rightarrow> int \<Rightarrow> int \<times> int \<times> int \<Rightarrow> int \<times> int \<times> int \<Rightarrow> (int \<times> string) option" where
  "set_isotime atime jd old hms =
     Option.bind (jd2date jd) (\<lambda>(date, _).
       let (year, month, day) = (case date of None \<Rightarrow> old | Some ymd \<Rightarrow> ymd);
           (hour, minute, sec) = hms
       in if year > 9999 \<or> month > 12 \<or> day > 31 \<or> year < 0 \<or> month < 1 \<or> day < 1 then Some (1, atime)
          else Some (0, isotime_text year month day hour minute sec))"

text \<open>\<open>None\<close> includes the overflow of \<open>sec + nseconds\<close>.\<close>

definition add_seconds_to_isotime :: "string \<Rightarrow> int \<Rightarrow> (int \<times> string) option" where
  "add_seconds_to_isotime atime nseconds =
     (if check_isotime atime \<noteq> 0 then Some (1, atime)
      else if nseconds < 0 \<or> nseconds \<ge> 0x7fffffff - 61 then Some (1, atime)
      else
        let year = atoi_4 atime 0; month = atoi_2 atime 4; day = atoi_2 atime 6;
            hour = atoi_2 atime 9; minute = atoi_2 atime 11; sec = atoi_2 atime 13
        in if too_early year month day then Some (1, atime)
           else if sec + nseconds > 0x7fffffff then None
           else
             let sec = sec + nseconds; minute = minute + sec div 60; sec = sec mod 60;
                 hour = hour + minute div 60; minute = minute mod 60;
                 ndays = hour div 24; hour = hour mod 24
             in set_isotime atime (date2jd year month day + ndays) (year, month, day) (hour, minute, sec))"

definition add_days_to_isotime :: "string \<Rightarrow> int \<Rightarrow> (int \<times> string) option" where
  "add_days_to_isotime atime ndays =
     (if check_isotime atime \<noteq> 0 then Some (1, atime)
      else if ndays < 0 \<or> ndays \<ge> 9999 * 366 then Some (1, atime)
      else
        let year = atoi_4 atime 0; month = atoi_2 atime 4; day = atoi_2 atime 6;
            hour = atoi_2 atime 9; minute = atoi_2 atime 11; sec = atoi_2 atime 13
        in if too_early year month day then Some (1, atime)
           else set_isotime atime (date2jd year month day + ndays) (year, month, day) (hour, minute, sec))"

definition add_years_to_isotime :: "string \<Rightarrow> int \<Rightarrow> (int \<times> string) option" where
  "add_years_to_isotime atime nyears =
     (if check_isotime atime \<noteq> 0 then Some (1, atime)
      else if nyears < 0 \<or> nyears \<ge> 9999 then Some (1, atime)
      else
        let year = atoi_4 atime 0; month = atoi_2 atime 4; day = atoi_2 atime 6;
            hour = atoi_2 atime 9; minute = atoi_2 atime 11; sec = atoi_2 atime 13
        in if too_early year month day then Some (1, atime)
           else set_isotime atime (date2jd (year + nyears) month day) (year, month, day) (hour, minute, sec))"

subsection \<open>The NASL functions\<close>

text \<open>
  What the accessor functions return for the arguments of a call: the text, the type and the
  size of the first unnamed argument, and the named integers. Results are the value of the
  cell, \<open>None\<close> for the NULL cell.
\<close>

datatype var_type = VAR2_UNDEF | VAR2_INT | VAR2_STRING | VAR2_DATA | VAR2_ARRAY

record isotime_args =
  arg_str :: "string option"
  arg_type :: var_type
  arg_size :: int
  arg_years :: int
  arg_days :: int
  arg_seconds :: int

definition nasl_isotime_now :: "(int \<Rightarrow> tm) \<Rightarrow> int \<Rightarrow> string" where
  "nasl_isotime_now gmtime now = epoch2isotime gmtime now"

definition nasl_isotime_is_valid :: "isotime_args \<Rightarrow> int" where
  "nasl_isotime_is_valid a =
     (case arg_str a of
        None \<Rightarrow> 0
      | Some string \<Rightarrow>
          (case arg_type a of
             VAR2_DATA \<Rightarrow>
               if arg_size a < int ISOTIME_SIZE - 1 then 0
               else let timebuf = take (ISOTIME_SIZE - 1) string in
                    if isotime_p timebuf \<or> isotime_human_p timebuf then 1 else 0
           | VAR2_STRING \<Rightarrow> if isotime_p string \<or> isotime_human_p string then 1 else 0
           | _ \<Rightarrow> 0))"

text \<open>
  For plain data \<open>string\<close> is the buffer itself: \<open>string2isotime (timebuf, timebuf)\<close> clears
  the first byte before it reads the text, so it sees an empty one.
\<close>

definition nasl_isotime_scan :: "isotime_args \<Rightarrow> string option" where
  "nasl_isotime_scan a =
     (case arg_str a of
        None \<Rightarrow> None
      | Some string \<Rightarrow>
          (case arg_type a of
             VAR2_DATA \<Rightarrow>
               if arg_size a < int ISOTIME_SIZE - 1 then None
               else let timebuf = take (ISOTIME_SIZE - 1) string;
                        timebuf = CHR 0x00 # tl timebuf;
                        (n, out) = string2isotime timebuf
                    in if n = 0 then None else Some out
           | VAR2_STRING \<Rightarrow>
               (let (n, out) = string2isotime string in if n = 0 then None else Some out)
           | _ \<Rightarrow> None))"

definition nasl_isotime_print :: "isotime_args \<Rightarrow> string" where
  "nasl_isotime_print a =
     (case arg_str a of
        None \<Rightarrow> ''[none]''
      | Some s \<Rightarrow>
          if arg_size a < 15 \<or> check_isotime s \<noteq> 0 then ''[none]''
          else take 4 s @ ''-'' @ take 2 (drop 4 s) @ ''-'' @ take 2 (drop 6 s) @ '' ''
               @ take 2 (drop 9 s) @ '':'' @ take 2 (drop 11 s) @ '':'' @ take 2 (drop 13 s))"

text \<open>A step that adds something and stops the function on failure.\<close>

definition add_step ::
  "(string \<Rightarrow> int \<Rightarrow> (int \<times> string) option) \<Rightarrow> bool \<Rightarrow> int \<Rightarrow> string \<Rightarrow> string option option" where
  "add_step add cond n timebuf =
     (if cond then map_option (\<lambda>(r, t). if r \<noteq> 0 then None else Some t) (add timebuf n)
      else Some (Some timebuf))"

definition and_then :: "'a option option \<Rightarrow> ('a \<Rightarrow> 'a option option) \<Rightarrow> 'a option option" where
  "and_then x f = (case x of None \<Rightarrow> None | Some None \<Rightarrow> Some None | Some (Some t) \<Rightarrow> f t)"

definition nasl_isotime_add :: "isotime_args \<Rightarrow> string option option" where
  "nasl_isotime_add a =
     (case arg_str a of
        None \<Rightarrow> Some None
      | Some string \<Rightarrow>
          if arg_size a < int ISOTIME_SIZE - 1 \<or> check_isotime string \<noteq> 0 then Some None
          else
            let timebuf = take (ISOTIME_SIZE - 1) string;
                nyears = arg_years a; ndays = arg_days a; nseconds = arg_seconds a
            in and_then (add_step add_years_to_isotime (nyears \<noteq> 0) nyears timebuf) (\<lambda>t.
               and_then (add_step add_days_to_isotime (ndays \<noteq> 0) ndays t) (\<lambda>t.
               and_then (add_step add_seconds_to_isotime (nseconds \<noteq> 0) nseconds t) (\<lambda>t.
                 add_step add_years_to_isotime (nyears = 0 \<and> ndays = 0 \<and> nseconds = 0) 0 t))))"

end
