(* ===== verification/IsoTimeCorrect.thy ===== *)
theory IsoTimeCorrect
  imports IsoTime
begin

text \<open>
  What the ISO time functions promise: the Julian day numbers count the days of the Gregorian
  calendar, \<open>jd2date\<close> inverts \<open>date2jd\<close> wherever it answers, the additions are additions of
  days and seconds, and the scanner and the printer are inverse to each other.
\<close>

subsection \<open>Julian day numbers\<close>

text \<open>The leap days before the year after \<open>y\<close>.\<close>

definition leaps :: "int \<Rightarrow> int" where
  "leaps y = y div 4 - ((y div 100 + 1) * 3) div 4"

lemma sdiv_pos: "0 \<le> a \<Longrightarrow> 0 < b \<Longrightarrow> (a :: int) sdiv b = a div b"
  by (cases "a = 0") (simp_all add: signed_divide_int_def)

lemma leap_iff: "leap y \<longleftrightarrow> y mod 4 = 0 \<and> (y mod 100 \<noteq> 0 \<or> y mod 400 = 0)"
  by (simp add: leap_def Let_def)

lemma div_pred:
  assumes "0 < (k :: int)"
  shows "y div k = (y - 1) div k + (if y mod k = 0 then 1 else 0)"
proof -
  have y: "y = k * (y div k) + y mod k" by simp
  have m: "0 \<le> y mod k" "y mod k < k" using assms by simp_all
  show ?thesis
  proof (cases "y mod k = 0")
    case True
    then have "(y - 1) div k = y div k - 1"
      using y assms by (intro int_div_pos_eq [where r = "k - 1"]) (simp_all add: algebra_simps)
    with True show ?thesis by simp
  next
    case False
    then have "(y - 1) div k = y div k"
      using y m by (intro int_div_pos_eq [where r = "y mod k - 1"]) linarith+
    with False show ?thesis by simp
  qed
qed

lemma leaps_step: "leaps y = leaps (y - 1) + (if leap y then 1 else 0)"
proof -
  have "y mod 400 = 100 * (y div 100 mod 4) + y mod 100" using zmod_zmult2_eq [of 4 y 100] by simp
  then have d: "y mod 400 = 0 \<longleftrightarrow> y mod 100 = 0 \<and> (y div 100) mod 4 = 0"
    using pos_mod_sign [of 100 y] pos_mod_sign [of 4 "y div 100"] by auto
  have e: "y mod 100 = 0 \<Longrightarrow> y mod 4 = 0" using mod_mod_cancel [of 4 100 y] by simp
  have c: "((t + 1) * 3) div 4 = (t * 3) div 4 + (if t mod 4 = 0 then 0 else 1)" for t :: int by presburger
  define A where "A = (y - 1) div 4"
  define T where "T = (y - 1) div 100"
  have a: "y div 4 = A + (if y mod 4 = 0 then 1 else 0)" unfolding A_def by (rule div_pred) simp
  have t: "y div 100 = T + (if y mod 100 = 0 then 1 else 0)" unfolding T_def by (rule div_pred) simp
  define R where "R = ((T + 1) * 3) div 4"
  define Q where "Q = ((y div 100 + 1) * 3) div 4"
  have l: "leaps (y - 1) = A - R" "leaps y = y div 4 - Q"
    by (simp_all only: leaps_def A_def T_def R_def Q_def)
  have arith: "q = r + (if p then 0 else 1) \<Longrightarrow> w = x + 1 \<Longrightarrow> w - q = x - r + (if p then 1 else 0)"
    "w = x + (if p then 1 else 0) \<Longrightarrow> w - r = x - r + (if p then 1 else 0)" for p and q r w x :: int
    by simp_all
  show ?thesis
  proof (cases "y mod 100 = 0")
    case True
    have "Q = R + (if y mod 400 = 0 then 0 else 1)"
      using c [of "y div 100"] True d t by (simp only: if_True simp_thms Q_def R_def)
    moreover have "y div 4 = A + 1" using a e [OF True] by (simp only: if_True simp_thms)
    moreover have "leap y \<longleftrightarrow> y mod 400 = 0" using True e [OF True] by (simp only: leap_iff simp_thms)
    ultimately show ?thesis by (simp only: l arith(1))
  next
    case False
    have "Q = R" using False t by (simp only: if_False simp_thms Q_def R_def add_0_right)
    moreover have "leap y \<longleftrightarrow> y mod 4 = 0" using False by (simp only: leap_iff simp_thms)
    ultimately show ?thesis using arith(2) [OF a, of R] by (simp only: l)
  qed
qed

lemma date2jd_leaps:
  assumes "1 \<le> y"
  shows "date2jd y m d = 365 * y + 31 * (m - 1) + d + JD_DIFF
    + (if m < 3 then leaps (y - 1) else leaps y - (4 * m + 23) div 10)"
proof -
  have "x sdiv 4 - ((x sdiv 100 + 1) * 3) sdiv 4 = leaps x" if "0 \<le> x" for x
    using that by (simp add: leaps_def sdiv_pos)
  from this [of y] this [of "y - 1"] assms show ?thesis by (simp add: date2jd_def)
qed

lemma date2jd_day: "date2jd y m d = date2jd y m 1 + (d - 1)"
  by (simp add: date2jd_def Let_def)

definition month_days :: "int \<Rightarrow> int \<Rightarrow> int" where
  "month_days y m = the (days_per_month y m)"

lemma month_cases:
  assumes "1 \<le> m" "m \<le> (12 :: int)"
  obtains "m = 1" | "m = 2" | "m = 3" | "m = 4" | "m = 5" | "m = 6" | "m = 7" | "m = 8" | "m = 9"
    | "m = 10" | "m = 11" | "m = 12"
proof -
  have "m = 1 \<or> m = 2 \<or> m = 3 \<or> m = 4 \<or> m = 5 \<or> m = 6 \<or> m = 7 \<or> m = 8 \<or> m = 9
      \<or> m = 10 \<or> m = 11 \<or> m = 12" using assms by presburger
  then show thesis using that by blast
qed

lemma month_days_bounds:
  "1 \<le> m \<Longrightarrow> m \<le> 12 \<Longrightarrow> days_per_month y m = Some (month_days y m) \<and> 28 \<le> month_days y m \<and> month_days y m \<le> 31"
  by (elim month_cases) (simp_all add: month_days_def days_per_month_def)

lemma next_month:
  assumes "1 \<le> y" "1 \<le> m" "m < 12"
  shows "date2jd y (m + 1) 1 = date2jd y m 1 + month_days y m"
  using assms leaps_step [of y]
  by (elim month_cases [of m, OF _ less_imp_le])
     (simp_all add: date2jd_leaps month_days_def days_per_month_def)

lemma next_year:
  assumes "1 \<le> y"
  shows "date2jd (y + 1) 1 1 = date2jd y 12 1 + 31"
    and "date2jd (y + 1) 1 1 = date2jd y 1 1 + days_per_year y"
  using assms leaps_step [of y] by (simp_all add: date2jd_leaps days_per_year_def)

text \<open>Counting from the first of January.\<close>

lemma month_start:
  assumes "1 \<le> y" "1 \<le> m" "m \<le> 12"
  shows "date2jd y 1 1 \<le> date2jd y m 1" "date2jd y m 1 \<le> date2jd y 1 1 + 31 * (m - 1)"
    "date2jd y m 1 + month_days y m \<le> date2jd (y + 1) 1 1"
  using assms leaps_step [of y]
  by (elim month_cases [of m], simp_all add: date2jd_leaps month_days_def days_per_month_def)+

definition valid_date :: "int \<Rightarrow> int \<Rightarrow> int \<Rightarrow> bool" where
  "valid_date y m d \<longleftrightarrow> 1 \<le> y \<and> 1 \<le> m \<and> m \<le> 12 \<and> 1 \<le> d \<and> d \<le> month_days y m"

lemma year_mono:
  assumes "1 \<le> y"
  shows "y \<le> y' \<Longrightarrow> date2jd y 1 1 \<le> date2jd y' 1 1"
proof (induction y' rule: int_ge_induct)
  case (step i)
  then show ?case using next_year(2) [of i] assms by (simp add: days_per_year_def)
qed simp

lemma month_mono:
  assumes "1 \<le> y" "1 \<le> m"
  shows "m \<le> m' \<Longrightarrow> m' \<le> 12 \<Longrightarrow> date2jd y m 1 \<le> date2jd y m' 1"
proof (induction m' rule: int_ge_induct)
  case (step i)
  then show ?case using next_month [of y i] month_days_bounds [of i y] assms by simp
qed simp

text \<open>A valid date lies in its year and in its month, so different dates have different numbers.\<close>

lemma date_in_year:
  assumes "valid_date y m d"
  shows "date2jd y 1 1 \<le> date2jd y m d" "date2jd y m d < date2jd (y + 1) 1 1"
  using assms month_start [of y m] by (simp_all add: valid_date_def date2jd_day [of y m d])

lemma date2jd_inj:
  assumes "valid_date y m d" "valid_date y' m' d'" "date2jd y m d = date2jd y' m' d'"
  shows "y = y' \<and> m = m' \<and> d = d'"
proof -
  have ne: "date2jd a b c < date2jd a' b' c'" if "a < a'" "valid_date a b c" "valid_date a' b' c'" for a b c a' b' c'
    using date_in_year [OF that(2)] date_in_year [OF that(3)] year_mono [of "a + 1" a'] that
    by (simp add: valid_date_def)
  have y: "y = y'"
    using ne [of y y' m d m' d'] ne [of y' y m' d' m d] assms by (cases y y' rule: linorder_cases) simp_all
  have me: "date2jd a b c < date2jd a b' c'" if "b < b'" "valid_date a b c" "valid_date a b' c'" for a b c b' c'
    using next_month [of a b] month_mono [of a "b + 1" b'] that
    by (simp add: valid_date_def date2jd_day [of a b c] date2jd_day [of a b' c'])
  have m: "m = m'"
    using me [of m m' y d d'] me [of m' m y d' d] assms y by (cases m m' rule: linorder_cases) simp_all
  with y assms(3) show ?thesis using date2jd_day [of y m d] date2jd_day [of y' m' d'] by simp
qed

subsection \<open>The search loops\<close>

lemma year_loop_result:
  "1 \<le> y \<Longrightarrow> date2jd y 1 1 \<le> jd \<Longrightarrow>
   \<exists>y'. year_loop jd y = Some y' \<and> 1 \<le> y' \<and> date2jd y' 1 1 \<le> jd \<and> jd \<le> date2jd (y' + 1) 1 1"
proof (induction "nat (jd - date2jd y 1 1)" arbitrary: y rule: less_induct)
  case less
  show ?case
  proof (cases "jd - date2jd y 1 1 > days_per_year y")
    case True
    then have "date2jd (y + 1) 1 1 \<le> jd" "date2jd y 1 1 < date2jd (y + 1) 1 1"
      using less.prems next_year(2) [of y] by (simp_all add: days_per_year_def)
    with less.hyps [of "y + 1"] less.prems True show ?thesis by (simp add: year_loop.simps [of jd y])
  next
    case False
    with less.prems next_year(2) [of y] show ?thesis by (simp add: year_loop.simps [of jd y])
  qed
qed

lemma month_loop_result:
  "1 \<le> y \<Longrightarrow> 1 \<le> m \<Longrightarrow> m \<le> 12 \<Longrightarrow> date2jd y m 1 \<le> jd \<Longrightarrow>
   \<exists>y' m'. month_loop jd y m = Some (y', m') \<and> 1 \<le> y' \<and> 1 \<le> m' \<and> m' \<le> 12
     \<and> date2jd y' m' 1 \<le> jd \<and> jd \<le> date2jd y' m' 1 + month_days y' m'"
proof (induction "nat (jd - date2jd y m 1)" arbitrary: y m rule: less_induct)
  case less
  note b = month_days_bounds [of m y]
  show ?case
  proof (cases "jd - date2jd y m 1 > month_days y m")
    case True
    show ?thesis
    proof (cases "m = 12")
      case m: True
      then have "date2jd (y + 1) 1 1 = date2jd y m 1 + month_days y m"
        using less.prems next_year(1) [of y] by (simp add: month_days_def days_per_month_def)
      with less.hyps [of "y + 1" 1] less.prems True m b show ?thesis
        by (simp add: month_loop.simps [of jd y 12])
    next
      case m: False
      then have "date2jd y (m + 1) 1 = date2jd y m 1 + month_days y m"
        using less.prems by (intro next_month) simp_all
      with less.hyps [of y "m + 1"] less.prems True m b show ?thesis
        by (simp add: month_loop.simps [of jd y m])
    qed
  next
    case False
    with less.prems b show ?thesis by (simp add: month_loop.simps [of jd y m])
  qed
qed

lemma year_start:
  assumes "1721426 \<le> jd"
  defines "y \<equiv> (jd - JD_DIFF) div 366"
  shows "1 \<le> y" "date2jd y 1 1 \<le> jd"
proof -
  have q: "366 * y \<le> jd - JD_DIFF" unfolding y_def by simp
  have "jd - JD_DIFF \<ge> 366" using assms(1) by (simp add: JD_DIFF_def)
  then show y: "1 \<le> y" unfolding y_def by simp
  have "leaps (y - 1) \<le> y - 1"
  proof -
    have "(y - 1) div 4 \<le> y - 1" using y by presburger
    moreover have "0 \<le> ((y - 1) div 100 + 1) * 3 div 4"
      using y by (intro pos_imp_zdiv_nonneg_iff [THEN iffD2]) simp_all
    ultimately show ?thesis unfolding leaps_def by linarith
  qed
  with q show "date2jd y 1 1 \<le> jd" using y by (simp add: date2jd_leaps)
qed

lemma jd2date_result:
  assumes "1721426 \<le> jd" "jd \<le> 2843085"
  obtains y m d where "jd2date jd = Some (Some (y, m, d), jd - date2jd y 1 1 + 1)"
    "valid_date y m d" "date2jd y m d = jd"
proof -
  from year_loop_result [OF year_start [OF assms(1)]] obtain y where
    y: "year_loop jd ((jd - JD_DIFF) div 366) = Some y" "1 \<le> y" "date2jd y 1 1 \<le> jd" "jd \<le> date2jd (y + 1) 1 1"
    by blast
  define m0 where "m0 = (jd - date2jd y 1 1) div 31 + 1"
  have "0 \<le> jd - date2jd y 1 1" "jd - date2jd y 1 1 \<le> 366"
    using y next_year(2) [of y] by (simp_all add: days_per_year_def split: if_splits)
  then have m0: "1 \<le> m0" "m0 \<le> 12" "31 * (m0 - 1) \<le> jd - date2jd y 1 1"
    unfolding m0_def by presburger+
  then have "date2jd y m0 1 \<le> jd" using month_start(2) [of y m0] y(2) by linarith
  from month_loop_result [OF y(2) m0(1,2) this] obtain y1 m1 where
    m: "month_loop jd y m0 = Some (y1, m1)" "1 \<le> y1" "1 \<le> m1" "m1 \<le> 12"
      "date2jd y1 m1 1 \<le> jd" "jd \<le> date2jd y1 m1 1 + month_days y1 m1" by blast
  note b = month_days_bounds [OF m(3,4), of y1]
  define d where "d = jd - date2jd y1 m1 1 + 1"
  have range: "jd \<noteq> 0" "\<not> (jd < 1721425 \<or> jd > 2843085)" using assms by simp_all
  have ev: "jd2date jd =
      (let (m, d) = (if d > month_days y1 m1 then (m1 + 1, 1) else (m1, d));
           (y, m) = (if m > 12 then (y1 + 1, 1) else (y1, m))
       in Some (Some (y, m, d), jd - date2jd y 1 1 + 1))"
    unfolding jd2date_def y(1) bind.bind_lunit m0_def [symmetric] m(1) prod.case b [THEN conjunct1]
      Let_def d_def [symmetric] using range by (simp only: if_False)
  consider (same) "d \<le> month_days y1 m1" | (month) "month_days y1 m1 < d" "m1 < 12" | (year) "month_days y1 m1 < d" "m1 = 12"
    using m(4) by linarith
  then show thesis
  proof cases
    case same
    show thesis
    proof (rule that [of y1 m1 d])
      show "valid_date y1 m1 d" using same m by (simp add: valid_date_def d_def)
      show "date2jd y1 m1 d = jd" using date2jd_day [of y1 m1 d] by (simp add: d_def)
      show "jd2date jd = Some (Some (y1, m1, d), jd - date2jd y1 1 1 + 1)"
        using same m(4) by (simp add: ev)
    qed
  next
    case month
    then have j: "jd = date2jd y1 (m1 + 1) 1" using m next_month [of y1 m1] by (simp add: d_def)
    show thesis
    proof (rule that [of y1 "m1 + 1" 1])
      show "valid_date y1 (m1 + 1) 1" using month m month_days_bounds [of "m1 + 1" y1] by (simp add: valid_date_def)
      show "jd2date jd = Some (Some (y1, m1 + 1, 1), jd - date2jd y1 1 1 + 1)"
        using month by (simp add: ev)
    qed (simp add: j)
  next
    case year
    then have j: "jd = date2jd (y1 + 1) 1 1"
      using m next_year(1) [of y1] by (simp add: d_def month_days_def days_per_month_def)
    show thesis
    proof (rule that [of "y1 + 1" 1 1])
      show "valid_date (y1 + 1) 1 1" using m month_days_bounds [of 1 "y1 + 1"] by (simp add: valid_date_def)
      show "jd2date jd = Some (Some (y1 + 1, 1, 1), jd - date2jd (y1 + 1) 1 1 + 1)"
        using year by (simp add: ev)
    qed (simp add: j)
  qed
qed

subsection \<open>Fields and texts\<close>

lemma digit_char_of_digit: "isdigit c \<Longrightarrow> digit_char (ccode c - 48) = c"
proof -
  assume "isdigit c"
  then have "ccode c - 48 < 10" "48 + (ccode c - 48) = ccode c" by (auto simp: isdigit_def)
  then show ?thesis by (simp add: digit_char_def)
qed

lemma char_of_48: "char_of (48 :: nat) = CHR ''0''"
  by code_simp

lemma pad0_snoc:
  assumes "1 \<le> w" "0 \<le> n"
  shows "pad0 (Suc w) n = pad0 w (n div 10) @ [digit_char (nat (n mod 10))]"
proof (cases "n < 10")
  case True
  have "pad0 w 0 = replicate w CHR ''0''"
    using assms(1) by (cases w) (simp_all add: pad0_def to_base.simps [of 10 0] digit_char_def
        char_of_48 replicate_append_same)
  moreover have "pad0 (Suc w) n = replicate w CHR ''0'' @ [digit_char (nat n)]"
    using True assms(2) by (simp add: pad0_def to_base.simps [of 10 "nat n"] nat_less_iff)
  ultimately show ?thesis using True assms(2) by simp
next
  case False
  then have "to_base 10 (nat n) = to_base 10 (nat (n div 10)) @ [digit_char (nat (n mod 10))]"
    using assms(2) by (simp add: to_base.simps [of 10 "nat n"] nat_div_distrib nat_mod_distrib nat_less_iff)
  then show ?thesis by (simp add: pad0_def Let_def)
qed

lemma pad0_step:
  "1 \<le> w \<Longrightarrow> 0 \<le> a \<Longrightarrow> 0 \<le> b \<Longrightarrow> b < 10 \<Longrightarrow> pad0 (Suc w) (a * 10 + b) = pad0 w a @ [digit_char (nat b)]"
  using pad0_snoc [of w "a * 10 + b"] by simp

lemma pad0_1: "0 \<le> n \<Longrightarrow> n < 10 \<Longrightarrow> pad0 1 n = [digit_char (nat n)]"
  by (simp add: pad0_def to_base.simps [of 10 "nat n"] nat_less_iff)

lemma length_pad0: "1 \<le> w \<Longrightarrow> 0 \<le> n \<Longrightarrow> n < 10 ^ w \<Longrightarrow> length (pad0 w n) = w"
proof (induction w arbitrary: n)
  case (Suc w)
  show ?case
  proof (cases "w = 0")
    case True
    with Suc.prems pad0_1 [of n] show ?thesis by simp
  next
    case False
    with Suc.prems have "n div 10 < 10 ^ w" by (simp add: div_less_iff_less_mult mult.commute)
    with Suc False show ?thesis by (simp add: pad0_snoc pos_imp_zdiv_nonneg_iff)
  qed
qed simp

lemma atoi_1_digit: "digitp s i \<Longrightarrow> 0 \<le> atoi_1 s i \<and> atoi_1 s i < 10 \<and> digit_char (nat (atoi_1 s i)) = char_at s i"
  using digit_char_of_digit [of "char_at s i"]
  by (auto simp: digitp_def atoi_1_def isdigit_def nat_diff_distrib)

lemma pad0_atoi_2:
  "digitp s i \<Longrightarrow> digitp s (i + 1) \<Longrightarrow> pad0 2 (atoi_2 s i) = [char_at s i, char_at s (i + 1)]"
  using atoi_1_digit [of s i] atoi_1_digit [of s "i + 1"] pad0_snoc [of 1 "atoi_2 s i"]
    pad0_1 [of "atoi_1 s i"]
  by (simp add: atoi_2_def numeral_2_eq_2)

lemma atoi_2_bounds: "digitp s i \<Longrightarrow> digitp s (i + 1) \<Longrightarrow> 0 \<le> atoi_2 s i \<and> atoi_2 s i < 100"
  using atoi_1_digit [of s i] atoi_1_digit [of s "i + 1"] by (simp add: atoi_2_def)

lemma pad0_atoi_4:
  assumes "digitp s i" "digitp s (i + 1)" "digitp s (i + 2)" "digitp s (i + 3)"
  shows "pad0 4 (atoi_4 s i) = [char_at s i, char_at s (i + 1), char_at s (i + 2), char_at s (i + 3)]"
proof -
  have 1: "0 \<le> atoi_2 s i" using atoi_2_bounds [of s i] assms by simp
  have 2: "0 \<le> atoi_1 s (i + 2)" "atoi_1 s (i + 2) < 10" "0 \<le> atoi_1 s (i + 3)" "atoi_1 s (i + 3) < 10"
    "digit_char (nat (atoi_1 s (i + 2))) = char_at s (i + 2)" "digit_char (nat (atoi_1 s (i + 3))) = char_at s (i + 3)"
    using atoi_1_digit assms by blast+
  have a: "atoi_4 s i = (atoi_2 s i * 10 + atoi_1 s (i + 2)) * 10 + atoi_1 s (i + 3)"
  proof -
    have e: "i + 2 + 1 = i + 3" by simp
    show ?thesis unfolding atoi_4_def atoi_2_def [of s "i + 2"] e by simp
  qed
  have "pad0 (Suc 3) (atoi_4 s i) = pad0 3 (atoi_2 s i * 10 + atoi_1 s (i + 2)) @ [char_at s (i + 3)]"
    unfolding a using 1 2 pad0_step [of 3 "atoi_2 s i * 10 + atoi_1 s (i + 2)" "atoi_1 s (i + 3)"] by simp
  moreover have "pad0 (Suc 2) (atoi_2 s i * 10 + atoi_1 s (i + 2)) = pad0 2 (atoi_2 s i) @ [char_at s (i + 2)]"
    using 1 2 pad0_step [of 2 "atoi_2 s i" "atoi_1 s (i + 2)"] by simp
  ultimately show ?thesis using pad0_atoi_2 [of s i] assms by (simp add: eval_nat_numeral)
qed

lemma upt_small: "[0..<4] = [0, 1, 2, 3]" "[0..<8] = [0, 1, 2, 3, 4, 5, 6, 7]"
  by (simp_all add: upt_rec)

lemma check_isotime_digits:
  assumes "check_isotime s = 0"
  shows "i < 15 \<Longrightarrow> i \<noteq> 8 \<Longrightarrow> digitp s i" and "char_at s 8 = CHR ''T''"
proof -
  from assms have d: "list_all (digitp s) [0..<8]" "list_all (digitp s) [9..<15]" "char_at s 8 = CHR ''T''"
    by (auto simp: check_isotime_def split: if_splits)
  then show "char_at s 8 = CHR ''T''" by simp
  show "digitp s i" if "i < 15" "i \<noteq> 8"
  proof -
    have "i \<in> set [0..<8] \<or> i \<in> set [9..<15]" using that by (simp only: set_upt) auto
    with d(1,2) show ?thesis unfolding list_all_iff by blast
  qed
qed

lemma map_char_at: "length s = n \<Longrightarrow> map (char_at s) [0..<n] = s"
  by (rule nth_equalityI) (simp_all add: char_at_def)

lemma isotime_text_fields:
  assumes "check_isotime s = 0" "length s = 15"
  shows "isotime_text (atoi_4 s 0) (atoi_2 s 4) (atoi_2 s 6) (atoi_2 s 9) (atoi_2 s 11) (atoi_2 s 13) = s"
proof -
  note d = check_isotime_digits(1) [OF assms(1)]
  have p: "pad0 4 (atoi_4 s 0) = [char_at s 0, char_at s 1, char_at s 2, char_at s 3]"
    using pad0_atoi_4 [of s 0] d by (simp add: numeral_2_eq_2)
  have q: "pad0 2 (atoi_2 s i) = [char_at s i, char_at s (i + 1)]" if "i \<in> {4, 6, 9, 11, 13}" for i
    using that by (intro pad0_atoi_2 d) auto
  have "s = map (char_at s) [0..<15]" using map_char_at [OF assms(2)] by simp
  also have "[0..<15] = [0, 1, 2, 3, 4, 5, 6, 7, 8, 9, 10, 11, 12, 13, 14]" by (simp add: upt_rec)
  finally show ?thesis
    using check_isotime_digits(2) [OF assms(1)] q [of 4] q [of 6] q [of 9] q [of 11] q [of 13]
    by (simp add: isotime_text_def ISOTIME_SIZE_def p assms(2))
qed

lemma fields_bounds:
  assumes "check_isotime s = 0"
  shows "0 \<le> atoi_4 s 0" "atoi_4 s 0 \<le> 9999" "i \<in> {4, 6, 9, 11, 13} \<Longrightarrow> 0 \<le> atoi_2 s i \<and> atoi_2 s i < 100"
proof -
  note d = check_isotime_digits(1) [OF assms]
  have "0 \<le> atoi_2 s 0 \<and> atoi_2 s 0 < 100" "0 \<le> atoi_2 s (0 + 2) \<and> atoi_2 s (0 + 2) < 100"
    by (rule atoi_2_bounds; simp add: d)+
  then show "0 \<le> atoi_4 s 0" "atoi_4 s 0 \<le> 9999" by (simp_all add: atoi_4_def)
  show "i \<in> {4, 6, 9, 11, 13} \<Longrightarrow> 0 \<le> atoi_2 s i \<and> atoi_2 s i < 100"
    by (rule atoi_2_bounds; rule d; auto)
qed

text \<open>A date that the functions accept has a number in the range of \<open>jd2date\<close>, but for the upper limit.\<close>

lemma accepted_lower:
  assumes "valid_date y m d" "\<not> too_early y m d"
  shows "1721426 \<le> date2jd y m d"
proof -
  have "1582 \<le> y" using assms(2) by (auto simp: too_early_def)
  then have "date2jd 1582 1 1 \<le> date2jd y 1 1" by (intro year_mono) simp_all
  moreover have "date2jd 1582 1 1 = 2298874" by code_simp
  ultimately show ?thesis using date_in_year(1) [OF assms(1)] by simp
qed

lemma set_isotime_ok:
  assumes "1721426 \<le> jd" "jd \<le> 2843085"
  obtains y m d where "set_isotime atime jd old (h, mi, s) = Some (0, isotime_text y m d h mi s)"
    "valid_date y m d" "date2jd y m d = jd"
proof -
  from jd2date_result [OF assms] obtain y m d where
    r: "jd2date jd = Some (Some (y, m, d), jd - date2jd y 1 1 + 1)" "valid_date y m d" "date2jd y m d = jd" .
  have "y \<le> 9999"
  proof (rule ccontr)
    assume "\<not> y \<le> 9999"
    then have "date2jd 10000 1 1 \<le> date2jd y 1 1" by (intro year_mono) simp_all
    moreover have "date2jd 10000 1 1 = 5373485" by code_simp
    ultimately show False using date_in_year(1) [OF r(2)] r(3) assms(2) by simp
  qed
  with r month_days_bounds [of m y] show thesis
    by (intro that [of y m d]) (auto simp: set_isotime_def valid_date_def)
qed

subsection \<open>Properties\<close>

text \<open>
  C15: for every day number from 1 January of year 1 up to its upper limit \<open>jd2date\<close> returns,
  and the date it gives is a date of the Gregorian calendar with that day number; it is the
  only one, so that \<open>jd2date\<close> and \<open>date2jd\<close> are inverse to each other. The return value
  is the day of the year.
\<close>

theorem jd2date_inverse:
  assumes "valid_date y m d" and "date2jd y m d \<le> 2843085"
  shows "jd2date (date2jd y m d) = Some (Some (y, m, d), date2jd y m d - date2jd y 1 1 + 1)
    \<and> 1 \<le> date2jd y m d - date2jd y 1 1 + 1 \<and> date2jd y m d - date2jd y 1 1 + 1 \<le> days_per_year y"
proof -
  have y: "1 \<le> y" using assms(1) by (simp add: valid_date_def)
  have "date2jd 1 1 1 \<le> date2jd y 1 1" using y by (intro year_mono) simp_all
  moreover have "date2jd 1 1 1 = 1721426" by code_simp
  ultimately have "1721426 \<le> date2jd y m d" using date_in_year(1) [OF assms(1)] by simp
  from jd2date_result [OF this assms(2)] obtain y' m' d' where
    r: "jd2date (date2jd y m d) = Some (Some (y', m', d'), date2jd y m d - date2jd y' 1 1 + 1)"
      "valid_date y' m' d'" "date2jd y' m' d' = date2jd y m d" .
  from date2jd_inj [OF r(2) assms(1) r(3)] r(1) show ?thesis
    using date_in_year [OF assms(1)] next_year(2) [OF y] by simp
qed

theorem jd2date_inverse_witness:
  "jd2date (date2jd 2000 2 29) = Some (Some (2000, 2, 29), 60)"
proof -
  have "valid_date 2000 2 29" "date2jd 2000 2 29 \<le> 2843085" by code_simp+
  note jd2date_inverse [OF this]
  moreover have "date2jd 2000 2 29 - date2jd 2000 1 1 + 1 = 60" by code_simp
  ultimately show ?thesis by simp
qed

text \<open>
  Adding days to a time whose date is a date of the calendar from 15 October 1582 on gives
  the date that many days later and the same time of day, as long as that date is not
  after 1 January 3072.
\<close>

theorem add_days_semantics:
  assumes "check_isotime t = 0" and "length t = 15"
    and f: "y = atoi_4 t 0" "m = atoi_2 t 4" "d = atoi_2 t 6"
    and "valid_date y m d" and "\<not> too_early y m d" and "0 \<le> n" and "date2jd y m d + n \<le> 2843085"
  shows "\<exists>y' m' d'. add_days_to_isotime t n =
      Some (0, isotime_text y' m' d' (atoi_2 t 9) (atoi_2 t 11) (atoi_2 t 13))
    \<and> valid_date y' m' d' \<and> date2jd y' m' d' = date2jd y m d + n"
proof -
  have low: "1721426 \<le> date2jd y m d" by (rule accepted_lower [OF assms(6,7)])
  have "add_days_to_isotime t n = set_isotime t (date2jd y m d + n) (y, m, d) (atoi_2 t 9, atoi_2 t 11, atoi_2 t 13)"
    using assms low by (simp add: add_days_to_isotime_def Let_def)
  moreover have "1721426 \<le> date2jd y m d + n" using low assms(8) by simp
  ultimately show ?thesis using set_isotime_ok [OF _ assms(9)] by metis
qed

theorem add_days_semantics_witness:
  "\<exists>y' m' d'. add_days_to_isotime ''20121231T235959'' 60 = Some (0, isotime_text y' m' d' 23 59 59)
     \<and> valid_date y' m' d' \<and> date2jd y' m' d' = date2jd 2012 12 31 + 60"
proof -
  let ?t = "''20121231T235959''"
  have h: "check_isotime ?t = 0" "atoi_4 ?t 0 = 2012" "atoi_2 ?t 4 = 12" "atoi_2 ?t 6 = 31"
    "atoi_2 ?t 9 = 23" "atoi_2 ?t 11 = 59" "atoi_2 ?t 13 = 59" "valid_date 2012 12 31"
    "\<not> too_early 2012 12 31" "date2jd 2012 12 31 + 60 \<le> 2843085" by code_simp+
  show ?thesis
    using add_days_semantics [OF h(1) _ h(2) [symmetric] h(3) [symmetric] h(4) [symmetric] h(8,9) _ h(10)] h(5-7) by simp
qed

text \<open>
  Adding seconds moves the time by exactly that many seconds, counted through the day
  numbers, and the time of day of the result is normal. The sum of the seconds must fit
  into an \<open>int\<close>.
\<close>

theorem add_seconds_semantics:
  assumes "check_isotime t = 0" and "length t = 15"
    and f: "y = atoi_4 t 0" "m = atoi_2 t 4" "d = atoi_2 t 6"
    and "valid_date y m d" and "\<not> too_early y m d"
    and "0 \<le> n" and "n < 0x7fffffff - 61" and "atoi_2 t 13 + n \<le> 0x7fffffff"
    and "date2jd y m d + 24859 \<le> 2843085"
  shows "\<exists>y' m' d' h' mi' s'. add_seconds_to_isotime t n = Some (0, isotime_text y' m' d' h' mi' s')
    \<and> valid_date y' m' d' \<and> 0 \<le> h' \<and> h' < 24 \<and> 0 \<le> mi' \<and> mi' < 60 \<and> 0 \<le> s' \<and> s' < 60
    \<and> date2jd y' m' d' * 86400 + h' * 3600 + mi' * 60 + s'
       = date2jd y m d * 86400 + atoi_2 t 9 * 3600 + atoi_2 t 11 * 60 + atoi_2 t 13 + n"
proof -
  have low: "1721426 \<le> date2jd y m d" by (rule accepted_lower [OF assms(6,7)])
  have b: "0 \<le> atoi_2 t i \<and> atoi_2 t i < 100" if "i \<in> {4, 6, 9, 11, 13}" for i
    by (rule fields_bounds(3) [OF assms(1) that])
  define S where "S = atoi_2 t 13 + n"
  define M where "M = atoi_2 t 11 + S div 60"
  define H where "H = atoi_2 t 9 + M div 60"
  have e: "add_seconds_to_isotime t n =
      set_isotime t (date2jd y m d + H div 24) (y, m, d) (H mod 24, M mod 60, S mod 60)"
    using assms(1,8-10) assms(7) [unfolded f] unfolding f
    by (simp add: add_seconds_to_isotime_def Let_def S_def M_def H_def)
  have S: "0 \<le> S" "S \<le> 0x7fffffff" using b [of 13] assms(8,10) by (simp_all add: S_def)
  then have "0 \<le> S div 60" "S div 60 \<le> 35791394" by (simp_all add: pos_imp_zdiv_nonneg_iff)
  then have M: "0 \<le> M" "M < 35791494" using b [of 11] by (simp_all add: M_def)
  then have "0 \<le> M div 60" "M div 60 \<le> 596524" by simp_all
  then have H: "0 \<le> H" "H < 596624" using b [of 9] by (simp_all add: H_def)
  then have "0 \<le> H div 24" "H div 24 \<le> 24859" by simp_all
  with low assms(11) have r: "1721426 \<le> date2jd y m d + H div 24" "date2jd y m d + H div 24 \<le> 2843085"
    by linarith+
  from set_isotime_ok [OF r] obtain y' m' d' where
    ok: "add_seconds_to_isotime t n = Some (0, isotime_text y' m' d' (H mod 24) (M mod 60) (S mod 60))"
      "valid_date y' m' d'" "date2jd y' m' d' = date2jd y m d + H div 24" unfolding e by metis
  have tot: "H div 24 * 86400 + H mod 24 * 3600 + M mod 60 * 60 + S mod 60
      = atoi_2 t 9 * 3600 + atoi_2 t 11 * 60 + atoi_2 t 13 + n"
  proof -
    have "H div 24 * 24 + H mod 24 = atoi_2 t 9 + M div 60" "M div 60 * 60 + M mod 60 = atoi_2 t 11 + S div 60"
      "S div 60 * 60 + S mod 60 = atoi_2 t 13 + n" by (simp_all add: H_def M_def S_def)
    then show ?thesis by linarith
  qed
  have sum: "date2jd y' m' d' * 86400 + H mod 24 * 3600 + M mod 60 * 60 + S mod 60
      = date2jd y m d * 86400 + atoi_2 t 9 * 3600 + atoi_2 t 11 * 60 + atoi_2 t 13 + n"
    using tot unfolding ok(3) distrib_right by linarith
  show ?thesis
    by (intro exI [of _ y'] exI [of _ m'] exI [of _ d'] exI [of _ "H mod 24"] exI [of _ "M mod 60"]
        exI [of _ "S mod 60"] conjI ok(1,2) sum) simp_all
qed

theorem add_seconds_semantics_witness:
  "\<exists>y' m' d' h' mi' s'. add_seconds_to_isotime ''20121231T235959'' 2 = Some (0, isotime_text y' m' d' h' mi' s')
     \<and> valid_date y' m' d'
     \<and> date2jd y' m' d' * 86400 + h' * 3600 + mi' * 60 + s' = date2jd 2013 1 1 * 86400 + 1"
proof -
  let ?t = "''20121231T235959''"
  have h: "check_isotime ?t = 0" "atoi_4 ?t 0 = 2012" "atoi_2 ?t 4 = 12" "atoi_2 ?t 6 = 31"
    "atoi_2 ?t 9 = 23" "atoi_2 ?t 11 = 59" "atoi_2 ?t 13 = 59" "valid_date 2012 12 31"
    "\<not> too_early 2012 12 31" "date2jd 2012 12 31 + 24859 \<le> 2843085"
    "date2jd 2012 12 31 = 2456293" "date2jd 2013 1 1 = 2456294" by code_simp+
  have "length ?t = 15" by simp
  moreover have p: "(0 :: int) \<le> 2" "(2 :: int) < 0x7fffffff - 61" "atoi_2 ?t 13 + 2 \<le> 0x7fffffff"
    by (simp_all add: h(7))
  ultimately have "\<exists>y' m' d' h' mi' s'. add_seconds_to_isotime ?t 2 = Some (0, isotime_text y' m' d' h' mi' s')
     \<and> valid_date y' m' d'
     \<and> date2jd y' m' d' * 86400 + h' * 3600 + mi' * 60 + s' = 2456293 * 86400 + 23 * 3600 + 59 * 60 + 59 + 2"
    using add_seconds_semantics [OF h(1) _ h(2) [symmetric] h(3) [symmetric] h(4) [symmetric] h(8,9) p h(10)]
    unfolding h(5-7,11) by blast
  then show ?thesis unfolding h(12) by simp
qed

text \<open>
  Whenever the resulting day number is after 1 January 3072, adding days or years succeeds
  and leaves the time as it was: \<open>jd2date\<close> gives up, its return value is not looked at.
  In particular no addition ever reports the documented overflow of the year 9999.
\<close>

theorem add_beyond_limit_unchanged:
  assumes "check_isotime t = 0" and "length t = 15"
    and f: "y = atoi_4 t 0" "m = atoi_2 t 4" "d = atoi_2 t 6"
    and "valid_date y m d" and "\<not> too_early y m d" and "0 \<le> n"
  shows "(n < 9999 \<longrightarrow> 2843085 < date2jd (y + n) m d \<longrightarrow> add_years_to_isotime t n = Some (0, t))
    \<and> (n < 9999 * 366 \<longrightarrow> 2843085 < date2jd y m d + n \<longrightarrow> add_days_to_isotime t n = Some (0, t))"
proof -
  let ?hms = "(atoi_2 t 9, atoi_2 t 11, atoi_2 t 13)"
  have same: "set_isotime t jd (y, m, d) ?hms = Some (0, t)" if "2843085 < jd" for jd
  proof -
    have "jd2date jd = Some (None, 0)" using that by (simp add: jd2date_def)
    moreover have "y \<le> 9999" using fields_bounds(2) [OF assms(1)] f by simp
    ultimately show ?thesis
      using assms(6) month_days_bounds [of m y] isotime_text_fields [OF assms(1,2)] f
      by (auto simp: set_isotime_def valid_date_def)
  qed
  have "add_years_to_isotime t n = set_isotime t (date2jd (y + n) m d) (y, m, d) ?hms" if "n < 9999"
    using that assms(1,7,8) f by (simp add: add_years_to_isotime_def Let_def)
  moreover have "add_days_to_isotime t n = set_isotime t (date2jd y m d + n) (y, m, d) ?hms" if "n < 9999 * 366"
    using that assms(1,7,8) f by (simp add: add_days_to_isotime_def Let_def)
  ultimately show ?thesis using same by simp
qed

theorem add_beyond_limit_unchanged_witness:
  "add_years_to_isotime ''20121231T235959'' 2000 = Some (0, ''20121231T235959'')"
proof -
  let ?t = "''20121231T235959''"
  have h: "check_isotime ?t = 0" "atoi_4 ?t 0 = 2012" "atoi_2 ?t 4 = 12" "atoi_2 ?t 6 = 31"
    "valid_date 2012 12 31" "\<not> too_early 2012 12 31" "2843085 < date2jd (2012 + 2000) 12 31" by code_simp+
  have "length ?t = 15" by simp
  from add_beyond_limit_unchanged [OF h(1) this h(2) [symmetric] h(3) [symmetric] h(4) [symmetric] h(5,6), of 2000] h(7)
  show ?thesis by simp
qed

lemma check_isotime_text:
  "isdigit a \<Longrightarrow> isdigit b \<Longrightarrow> isdigit c \<Longrightarrow> isdigit d \<Longrightarrow> isdigit e \<Longrightarrow> isdigit f \<Longrightarrow> isdigit g \<Longrightarrow> isdigit h \<Longrightarrow>
   isdigit i \<Longrightarrow> isdigit j \<Longrightarrow> isdigit k \<Longrightarrow> isdigit l \<Longrightarrow> isdigit m \<Longrightarrow> isdigit n \<Longrightarrow>
   check_isotime [a, b, c, d, e, f, g, h, CHR ''T'', i, j, k, l, m, n] = 0"
  by (auto simp: check_isotime_def digitp_def char_at_def upt_small isdigit_def)

text \<open>
  Whatever text is accepted by the scanner, the buffer then holds a time of fifteen bytes
  in the format the other functions accept, and the return value tells the format that was
  recognised.
\<close>

theorem string2isotime_valid:
  assumes "string2isotime s = (n, t)" and "n \<noteq> 0"
  shows "check_isotime t = 0 \<and> length t = 15 \<and> n \<in> {10, 11, 13, 15, 16, 19} \<and> n \<le> length s"
proof -
  have len: "i < length s" if "digitp s i" for i
    using that by (rule_tac ccontr) (simp add: digitp_def char_at_def isdigit_def)
  show ?thesis
  proof (cases "isotime_p s")
    case True
    then have d: "list_all (digitp s) [0..<8]" "list_all (digitp s) [9..<15]" "char_at s 8 = CHR ''T''"
      "char_at s 0 \<noteq> CHR 0x00" by (auto simp: isotime_p_def split: if_splits)
    then have l: "15 \<le> length s" using len [of 14] by simp
    then have c: "char_at (take 15 s) i = char_at s i" if "i < 15" for i using that by (simp add: char_at_def)
    have "list_all (digitp (take 15 s)) [0..<8]" "list_all (digitp (take 15 s)) [9..<15]"
      using d(1,2) by (auto simp: list_all_iff digitp_def c simp del: upt_Suc)
    then have "check_isotime (take 15 s) = 0"
      using d(3,4) by (simp add: check_isotime_def c)
    with True assms l show ?thesis by (auto simp: string2isotime_def)
  next
    case False
    with assms have h: "isotime_human_p s" by (auto simp: string2isotime_def split: if_splits)
    then have d: "digitp s 0" "digitp s 1" "digitp s 2" "digitp s 3" "digitp s 5" "digitp s 6" "digitp s 8" "digitp s 9"
      by (auto simp: isotime_human_p_def upt_small split: if_splits)
    have c: "isdigit (s ! i)" if "digitp s i" for i using that len [OF that] by (simp add: digitp_def char_at_def)
    have z: "isdigit CHR ''0''" by (simp add: isdigit_def)
    have hh: "spacep s 10 \<Longrightarrow> \<not> spacep s 11 \<Longrightarrow> digitp s 11 \<and> digitp s 12"
      and mm: "spacep s 10 \<Longrightarrow> \<not> spacep s 11 \<Longrightarrow> char_at s 13 = CHR '':'' \<Longrightarrow> digitp s 14 \<and> digitp s 15"
      and ss: "spacep s 10 \<Longrightarrow> \<not> spacep s 11 \<Longrightarrow> char_at s 13 = CHR '':'' \<Longrightarrow> char_at s 16 = CHR '':'' \<Longrightarrow>
        digitp s 17 \<and> digitp s 18"
      using h unfolding isotime_human_p_def by (auto simp: spacep_def split: if_splits)
    have sp: "11 \<le> length s" if "spacep s 10"
      using that by (rule_tac ccontr) (simp add: spacep_def char_at_def)
    have sp': "12 \<le> length s" if "spacep s 11"
      using that by (rule_tac ccontr) (simp add: spacep_def char_at_def)
    note st = string2isotime_def [of s] False h
    note ck = check_isotime_text c [OF d(1)] c [OF d(2), unfolded One_nat_def] c [OF d(3)] c [OF d(4)] c [OF d(5)] c [OF d(6)]
      c [OF d(7)] c [OF d(8)] z
    consider "\<not> spacep s 10" | "spacep s 10" "spacep s 11"
      | "spacep s 10" "\<not> spacep s 11" "char_at s 13 \<noteq> CHR '':''"
      | "spacep s 10" "\<not> spacep s 11" "char_at s 13 = CHR '':''" "char_at s 16 \<noteq> CHR '':''"
      | "spacep s 10" "\<not> spacep s 11" "char_at s 13 = CHR '':''" "char_at s 16 = CHR '':''" by blast
    then show ?thesis
    proof cases
      case 1
      with assms len [OF d(8)] show ?thesis by (auto simp: st ck)
    next
      case 2
      with assms sp sp' show ?thesis by (auto simp: st ck)
    next
      case 3
      with assms hh c [of 11] c [of 12] len [of 12] show ?thesis by (auto simp: st ck)
    next
      case 4
      with assms hh mm c [of 11] c [of 12] c [of 14] c [of 15] len [of 15] show ?thesis by (auto simp: st ck)
    next
      case 5
      with assms hh mm ss c [of 11] c [of 12] c [of 14] c [of 15] c [of 17] c [of 18] len [of 18]
      show ?thesis by (auto simp: st ck)
    qed
  qed
qed

theorem string2isotime_valid_witness:
  "string2isotime ''2012-12-31 23:59, or so'' = (16, ''20121231T235900'')
   \<and> check_isotime ''20121231T235900'' = 0"
proof -
  have h: "string2isotime ''2012-12-31 23:59, or so'' = (16, ''20121231T235900'')" by code_simp
  with string2isotime_valid [OF h] show ?thesis by simp
qed

text \<open>
  Printing a time and scanning the result gives the time back, if its fields are in the
  ranges of the human readable format.
\<close>

theorem isotime_print_scan:
  assumes "check_isotime t = 0" and "length t = 15" and "arg_str a = Some t" and "15 \<le> arg_size a"
    and "1 \<le> atoi_2 t 4" "atoi_2 t 4 \<le> 12" "1 \<le> atoi_2 t 6" "atoi_2 t 6 \<le> 31"
      "atoi_2 t 9 \<le> 23" "atoi_2 t 11 \<le> 59" "atoi_2 t 13 \<le> 60"
  shows "string2isotime (nasl_isotime_print a) = (19, t)"
proof -
  obtain c0 c1 c2 c3 c4 c5 c6 c7 c8 c9 c10 c11 c12 c13 c14 where
    t: "t = [c0, c1, c2, c3, c4, c5, c6, c7, c8, c9, c10, c11, c12, c13, c14]"
    using assms(2) by (auto simp: length_Suc_conv numeral_eq_Suc)
  have dig: "isdigit c0" "isdigit c1" "isdigit c2" "isdigit c3" "isdigit c4" "isdigit c5" "isdigit c6"
    "isdigit c7" "isdigit c9" "isdigit c10" "isdigit c11" "isdigit c12" "isdigit c13" "isdigit c14" "c8 = CHR ''T''"
    using assms(1) by (auto simp: t check_isotime_def digitp_def char_at_def upt_small split: if_splits)
  have nz: "isdigit c \<Longrightarrow> c \<noteq> CHR 0x00 \<and> c \<noteq> CHR '' '' \<and> c \<noteq> CHR 0x09" for c by (auto simp: isdigit_def)
  have b: "0 \<le> atoi_2 t 9" "0 \<le> atoi_2 t 11" "0 \<le> atoi_2 t 13" using fields_bounds(3) [OF assms(1)] by simp_all
  define p where "p = [c0, c1, c2, c3, CHR ''-'', c4, c5, CHR ''-'', c6, c7, CHR '' '', c9, c10, CHR '':'', c11, c12, CHR '':'', c13, c14]"
  have print: "nasl_isotime_print a = p" using assms(1,3,4) by (simp add: nasl_isotime_print_def t p_def)
  have at: "atoi_2 p 5 = atoi_2 t 4" "atoi_2 p 8 = atoi_2 t 6" "atoi_2 p 11 = atoi_2 t 9"
    "atoi_2 p 14 = atoi_2 t 11" "atoi_2 p 17 = atoi_2 t 13"
    by (simp_all add: atoi_2_def atoi_1_def char_at_def p_def t)
  have "\<not> isotime_p p" by (simp add: isotime_p_def digitp_def char_at_def p_def upt_small)
  moreover have "isotime_human_p p"
    unfolding isotime_human_p_def at using assms(5-11) b dig nz
    by (simp add: digitp_def char_at_def p_def upt_small spacep_def)
  ultimately show ?thesis
    unfolding print using dig nz
    by (simp add: string2isotime_def) (simp add: p_def t spacep_def char_at_def)
qed

theorem isotime_print_scan_witness:
  "string2isotime (nasl_isotime_print \<lparr>arg_str = Some ''20120229T235960'', arg_type = VAR2_STRING,
     arg_size = 15, arg_years = 0, arg_days = 0, arg_seconds = 0\<rparr>) = (19, ''20120229T235960'')"
proof (rule isotime_print_scan)
  show "check_isotime ''20120229T235960'' = 0" "1 \<le> atoi_2 ''20120229T235960'' 4"
    "atoi_2 ''20120229T235960'' 4 \<le> 12" "1 \<le> atoi_2 ''20120229T235960'' 6" "atoi_2 ''20120229T235960'' 6 \<le> 31"
    "atoi_2 ''20120229T235960'' 9 \<le> 23" "atoi_2 ''20120229T235960'' 11 \<le> 59" "atoi_2 ''20120229T235960'' 13 \<le> 60"
    by code_simp+
qed simp_all

text \<open>
  A time given as plain data is never scanned, although it is reported as valid: the
  function scans its own output buffer, which the scanner clears first.
\<close>

theorem isotime_scan_data_fails:
  assumes "arg_type a = VAR2_DATA"
  shows "nasl_isotime_scan a = None"
proof -
  have "string2isotime (CHR 0x00 # s) = (0, [])" for s
    by (simp add: string2isotime_def isotime_p_def isotime_human_p_def char_at_def)
  with assms show ?thesis by (simp add: nasl_isotime_scan_def split: option.splits)
qed

theorem isotime_scan_data_fails_witness:
  "nasl_isotime_is_valid \<lparr>arg_str = Some ''20121231T235959'', arg_type = VAR2_DATA, arg_size = 15,
     arg_years = 0, arg_days = 0, arg_seconds = 0\<rparr> = 1
   \<and> nasl_isotime_scan \<lparr>arg_str = Some ''20121231T235959'', arg_type = VAR2_DATA, arg_size = 15,
     arg_years = 0, arg_days = 0, arg_seconds = 0\<rparr> = None"
proof
  show "nasl_isotime_is_valid \<lparr>arg_str = Some ''20121231T235959'', arg_type = VAR2_DATA, arg_size = 15,
     arg_years = 0, arg_days = 0, arg_seconds = 0\<rparr> = 1" by code_simp
qed (rule isotime_scan_data_fails, simp)

end
