(* ===== verification/Scheduler.thy ===== *)
theory Scheduler
  imports Arglist
begin

text \<open>
  The plugin scheduler of \<open>openvas-scanner/src/pluginscheduler.c\<close>: which plugin of a scan
  is launched next, given the categories, the dependencies and the states of the plugins.

  The structures that point to each other (\<open>scheduler_plugin\<close> and its \<open>hash\<close> entry) are two
  tables indexed by the position of the plugin in the list the scheduler is made from; a
  pointer is such an index. The hash table holds the chains, the newest entry first; the
  lists per category are lists of indices. The name cache of the argument lists is part of
  the state. \<open>g_str_hash\<close>, \<open>g_strsplit\<close>, \<open>g_path_get_dirname\<close>, \<open>g_build_filename\<close> and the
  NVT cache are parameters, as is the effect of waiting for a process to end.

  Functions that may not return, or may index out of bounds, have one more option layer.
\<close>

subsection \<open>Data\<close>

datatype plugin_status =
    PLUGIN_STATUS_UNRUN | PLUGIN_STATUS_RUNNING | PLUGIN_STATUS_DONE | PLUGIN_STATUS_DONE_AND_CLEANED

definition LAUNCH_DISABLED :: int where "LAUNCH_DISABLED = 0"
definition LAUNCH_RUN :: int where "LAUNCH_RUN = 1"

definition ACT_INIT :: nat where "ACT_INIT = 0"
definition ACT_SCANNER :: nat where "ACT_SCANNER = 1"
definition ACT_SETTINGS :: nat where "ACT_SETTINGS = 2"
definition ACT_GATHER_INFO :: nat where "ACT_GATHER_INFO = 3"
definition ACT_DENIAL :: nat where "ACT_DENIAL = 7"
definition ACT_KILL_HOST :: nat where "ACT_KILL_HOST = 8"
definition ACT_FLOOD :: nat where "ACT_FLOOD = 9"
definition ACT_LAST :: nat where "ACT_LAST = 10"

lemmas act_defs = ACT_INIT_def ACT_SCANNER_def ACT_SETTINGS_def ACT_GATHER_INFO_def ACT_DENIAL_def
  ACT_KILL_HOST_def ACT_FLOOD_def ACT_LAST_def

text \<open>A cell of the list of plugins: its name and what the scheduler reads of its value.\<close>

record plugin_arg =
  pa_name :: string
  pa_oid :: "string option"
  pa_launch :: int

text \<open>What the accessors return for an NVT of the cache.\<close>

record nvti =
  nvti_category :: int
  nvti_timeout :: int
  nvti_dependencies :: "string option"
  nvti_required_ports :: "string option"
  nvti_required_udp_ports :: "string option"
  nvti_required_keys :: "string option"
  nvti_mandatory_keys :: "string option"
  nvti_excluded_keys :: "string option"

record scheduler_plugin =
  running_state :: plugin_status
  category :: int
  timeout :: int
  required_ports :: "arglist list option"
  required_udp_ports :: "arglist list option"
  required_keys :: "arglist list option"
  mandatory_keys :: "arglist list option"
  excluded_keys :: "arglist list option"

record hash_entry =
  hash_name :: string
  dependencies :: "string list option"
  num_deps :: nat
  dependencies_ptr :: "nat list option"
  ports :: "string list option"

record plugins_scheduler =
  args :: "nat \<Rightarrow> plugin_arg"
  plugin :: "nat \<Rightarrow> scheduler_plugin"
  entry :: "nat \<Rightarrow> hash_entry"
  hash :: "nat \<Rightarrow> nat list"
  lists :: "nat \<Rightarrow> nat list"
  plist :: "(string \<times> int) list"
  cache :: name_cache
  parallel :: bool

text \<open>The results of a search: NULL, \<open>PLUG_RUNNING\<close>, a plugin.\<close>

datatype sched_result = Sched_null | Sched_running | Sched_plugin nat

abbreviation state :: "plugins_scheduler \<Rightarrow> nat \<Rightarrow> plugin_status" where
  "state s p \<equiv> running_state (plugin s p)"

abbreviation deps_ptr :: "plugins_scheduler \<Rightarrow> nat \<Rightarrow> nat list option" where
  "deps_ptr s p \<equiv> dependencies_ptr (entry s p)"

definition plugin_get_running_state :: "plugins_scheduler \<Rightarrow> nat \<Rightarrow> plugin_status" where
  "plugin_get_running_state s p = state s p"

definition plugin_set_running_state ::
  "plugins_scheduler \<Rightarrow> nat option \<Rightarrow> plugin_status \<Rightarrow> plugins_scheduler" where
  "plugin_set_running_state s p st =
     (case p of
        None \<Rightarrow> s
      | Some p \<Rightarrow> s\<lparr>plugin := (plugin s)(p := (plugin s p)\<lparr>running_state := st\<rparr>)\<rparr>)"

definition plug_get_launch :: "plugins_scheduler \<Rightarrow> nat \<Rightarrow> int" where
  "plug_get_launch s p = pa_launch (args s p)"

definition plug_set_launch :: "plugins_scheduler \<Rightarrow> nat \<Rightarrow> int \<Rightarrow> plugins_scheduler" where
  "plug_set_launch s p launch = s\<lparr>args := (args s)(p := (args s p)\<lparr>pa_launch := launch\<rparr>)\<rparr>"

subsection \<open>The hash table\<close>

definition sched_hash :: "(string \<Rightarrow> u32) \<Rightarrow> string \<Rightarrow> nat" where
  "sched_hash gsh name = unat (gsh name) mod 2713"

definition hash_init :: "nat \<Rightarrow> nat list" where
  "hash_init = (\<lambda>_. [])"

definition inc_names :: "(string \<Rightarrow> u32) \<Rightarrow> name_cache \<Rightarrow> arglist list \<Rightarrow> name_cache" where
  "inc_names gsh c al = foldl (\<lambda>c a. cache_inc gsh c (arg_name a)) c al"

definition free_opt :: "(string \<Rightarrow> u32) \<Rightarrow> name_cache \<Rightarrow> arglist list option \<Rightarrow> name_cache" where
  "free_opt gsh c al = (case al of None \<Rightarrow> c | Some l \<Rightarrow> arg_free_all gsh c l)"

definition hash_add ::
  "(string \<Rightarrow> u32) \<Rightarrow> (string \<Rightarrow> string \<Rightarrow> string list) \<Rightarrow> nvti \<Rightarrow> plugins_scheduler \<Rightarrow> string \<Rightarrow> nat
     \<Rightarrow> plugins_scheduler" where
  "hash_add gsh strsplit nvti s name p =
     (let idx = sched_hash gsh name;
          (c, deps) = str2arglist gsh strsplit (cache s) (nvti_dependencies nvti);
          (c, prts) = str2arglist gsh strsplit c (nvti_required_ports nvti);
          c = (case deps of None \<Rightarrow> c | Some al \<Rightarrow> inc_names gsh c al);
          c = (case prts of None \<Rightarrow> c | Some al \<Rightarrow> inc_names gsh c al);
          e = \<lparr>hash_name = name, dependencies = map_option (map arg_name) deps,
               num_deps = (case deps of None \<Rightarrow> 0 | Some al \<Rightarrow> length al),
               dependencies_ptr = None, ports = map_option (map arg_name) prts\<rparr>;
          c = free_opt gsh c deps; c = free_opt gsh c prts
      in s\<lparr>entry := (entry s)(p := e), hash := (hash s)(idx := p # hash s idx), cache := c\<rparr>)"

definition hash_get :: "(string \<Rightarrow> u32) \<Rightarrow> plugins_scheduler \<Rightarrow> string \<Rightarrow> nat option" where
  "hash_get gsh s name =
     find (\<lambda>p. hash_name (entry s p) = name) (hash s (sched_hash gsh name))"

definition hash_get_deps_ptr :: "(string \<Rightarrow> u32) \<Rightarrow> plugins_scheduler \<Rightarrow> string \<Rightarrow> nat list option" where
  "hash_get_deps_ptr gsh s name =
     (case hash_get gsh s name of None \<Rightarrow> None | Some l \<Rightarrow> deps_ptr s l)"

text \<open>One dependency: by its name, or by its name in the directory of the plugin.\<close>

definition find_dep ::
  "(string \<Rightarrow> u32) \<Rightarrow> (string \<Rightarrow> string) \<Rightarrow> (string \<Rightarrow> string \<Rightarrow> string) \<Rightarrow> plugins_scheduler \<Rightarrow> nat \<Rightarrow> string
     \<Rightarrow> nat option" where
  "find_dep gsh dirname build s l dep =
     (case hash_get gsh s dep of
        Some d \<Rightarrow> Some d
      | None \<Rightarrow>
          let path = dirname (pa_name (args s l)) in
          if path \<noteq> ''.'' then hash_get gsh s (build path dep) else None)"

definition hash_fill_deps ::
  "(string \<Rightarrow> u32) \<Rightarrow> (string \<Rightarrow> string) \<Rightarrow> (string \<Rightarrow> string \<Rightarrow> string) \<Rightarrow> plugins_scheduler \<Rightarrow> nat
     \<Rightarrow> plugins_scheduler" where
  "hash_fill_deps gsh dirname build s l =
     (if num_deps (entry s l) = 0 then s
      else
        let ds = (case dependencies (entry s l) of None \<Rightarrow> [] | Some ns \<Rightarrow> ns) in
        s\<lparr>entry := (entry s)(l := (entry s l)\<lparr>dependencies_ptr :=
             Some (List.map_filter (find_dep gsh dirname build s l) ds)\<rparr>)\<rparr>)"

subsection \<open>Ports in use\<close>

definition pl_get :: "(string \<times> int) list \<Rightarrow> string \<Rightarrow> (string \<times> int) option" where
  "pl_get pl name = find (\<lambda>e. fst e = name) pl"

text \<open>The field \<open>name\<close> has 64 bytes; \<open>strncpy\<close> copies at most 63 characters.\<close>

definition mark_port :: "(string \<times> int) list \<Rightarrow> string \<Rightarrow> (string \<times> int) list" where
  "mark_port pl port =
     (case pl_get pl port of
        Some _ \<Rightarrow> occ_change port 1 pl
      | None \<Rightarrow> (take 63 port, 1) # pl)"

definition rm_port :: "(string \<times> int) list \<Rightarrow> string \<Rightarrow> (string \<times> int) list" where
  "rm_port pl port =
     (case pl_get pl port of
        Some _ \<Rightarrow> occ_change port (-1) pl
      | None \<Rightarrow> pl)"

definition scheduler_mark_running_ports :: "plugins_scheduler \<Rightarrow> nat \<Rightarrow> plugins_scheduler" where
  "scheduler_mark_running_ports s p =
     (case ports (entry s p) of
        None \<Rightarrow> s
      | Some prts \<Rightarrow> s\<lparr>plist := foldl mark_port (plist s) prts\<rparr>)"

definition scheduler_rm_running_ports :: "plugins_scheduler \<Rightarrow> nat \<Rightarrow> plugins_scheduler" where
  "scheduler_rm_running_ports s p =
     (case ports (entry s p) of
        None \<Rightarrow> s
      | Some prts \<Rightarrow> s\<lparr>plist := foldl rm_port (plist s) prts\<rparr>)"

text \<open>What both search loops do with a plugin that has ended, and with one they launch.\<close>

definition clean :: "plugins_scheduler \<Rightarrow> nat \<Rightarrow> plugins_scheduler" where
  "clean s p =
     plugin_set_running_state (scheduler_rm_running_ports s p) (Some p) PLUGIN_STATUS_DONE_AND_CLEANED"

definition launch :: "plugins_scheduler \<Rightarrow> nat \<Rightarrow> plugins_scheduler" where
  "launch s p =
     plugin_set_running_state (scheduler_mark_running_ports s p) (Some p) PLUGIN_STATUS_RUNNING"

subsection \<open>Dependencies\<close>

text \<open>
  \<open>plugin_next_unrun_dependencie\<close> with the rest of the array and the flag. The recursion
  follows the pointers, so it is partial: \<open>None\<close> where it does not end.
\<close>

partial_function (option) next_dep ::
  "plugins_scheduler \<Rightarrow> nat list \<Rightarrow> bool \<Rightarrow> (sched_result \<times> plugins_scheduler) option" where
  "next_dep s ds flag =
     (case ds of
        [] \<Rightarrow> Some (if flag then Sched_running else Sched_null, s)
      | d # ds \<Rightarrow>
          (case state s d of
             PLUGIN_STATUS_UNRUN \<Rightarrow>
               (case deps_ptr s d of
                  None \<Rightarrow> Some (Sched_plugin d, s)
                | Some dd \<Rightarrow>
                    Option.bind (next_dep s dd False) (\<lambda>r.
                      case fst r of
                        Sched_null \<Rightarrow> Some (Sched_plugin d, snd r)
                      | Sched_running \<Rightarrow> next_dep (snd r) ds True
                      | Sched_plugin p \<Rightarrow> Some (Sched_plugin p, snd r)))
           | PLUGIN_STATUS_RUNNING \<Rightarrow> next_dep s ds True
           | PLUGIN_STATUS_DONE \<Rightarrow> next_dep (clean s d) ds flag
           | PLUGIN_STATUS_DONE_AND_CLEANED \<Rightarrow> next_dep s ds flag))"

definition plugin_next_unrun_dependencie ::
  "plugins_scheduler \<Rightarrow> nat list option \<Rightarrow> (sched_result \<times> plugins_scheduler) option" where
  "plugin_next_unrun_dependencie s dptr =
     (case dptr of None \<Rightarrow> Some (Sched_null, s) | Some ds \<Rightarrow> next_dep s ds False)"

text \<open>
  \<open>enable_plugin_and_dependencies\<close> over the plugins \<open>ps\<close>, with the names already visited.
\<close>

definition enable_plugin :: "plugins_scheduler \<Rightarrow> nat \<Rightarrow> plugins_scheduler" where
  "enable_plugin s p =
     (if plug_get_launch s p = LAUNCH_DISABLED then plug_set_launch s p LAUNCH_RUN else s)"

partial_function (option) enable_deps ::
  "(string \<Rightarrow> u32) \<Rightarrow> plugins_scheduler \<times> string list \<Rightarrow> nat list
     \<Rightarrow> (plugins_scheduler \<times> string list) option" where
  "enable_deps gsh st ps =
     (case ps of
        [] \<Rightarrow> Some st
      | p # ps \<Rightarrow>
          (if pa_name (args (fst st) p) \<in> set (snd st) then enable_deps gsh st ps
           else Option.bind
             (enable_deps gsh (enable_plugin (fst st) p, pa_name (args (fst st) p) # snd st)
                (case hash_get_deps_ptr gsh (fst st) (pa_name (args (fst st) p)) of None \<Rightarrow> [] | Some dd \<Rightarrow> dd))
             (\<lambda>st. enable_deps gsh st ps)))"

definition enable_plugin_and_dependencies ::
  "(string \<Rightarrow> u32) \<Rightarrow> plugins_scheduler \<Rightarrow> nat \<Rightarrow> plugins_scheduler option" where
  "enable_plugin_and_dependencies gsh s p = map_option fst (enable_deps gsh (s, []) [p])"

declare next_dep.simps [code] enable_deps.simps [code]

subsection \<open>Making a scheduler\<close>

definition empty_scheduler :: "plugin_arg list \<Rightarrow> name_cache \<Rightarrow> plugins_scheduler" where
  "empty_scheduler pas c =
     \<lparr>args = (\<lambda>p. if p < length pas then pas ! p else \<lparr>pa_name = [], pa_oid = None, pa_launch = 0\<rparr>),
      plugin = (\<lambda>_. \<lparr>running_state = PLUGIN_STATUS_UNRUN, category = 0, timeout = 0, required_ports = None,
        required_udp_ports = None, required_keys = None, mandatory_keys = None, excluded_keys = None\<rparr>),
      entry = (\<lambda>_. \<lparr>hash_name = [], dependencies = None, num_deps = 0, dependencies_ptr = None, ports = None\<rparr>),
      hash = hash_init, lists = (\<lambda>_. []), plist = [], cache = c, parallel = True\<rparr>"

text \<open>
  One round of the first loop. A plugin without OID makes it run for ever, a negative
  category indexes before the array of lists.
\<close>

definition add_plugin ::
  "(string \<Rightarrow> u32) \<Rightarrow> (string \<Rightarrow> string \<Rightarrow> string list) \<Rightarrow> (string \<Rightarrow> nvti) \<Rightarrow> plugins_scheduler \<Rightarrow> nat
     \<Rightarrow> plugins_scheduler option" where
  "add_plugin gsh strsplit nvticache s p =
     (case pa_oid (args s p) of
        None \<Rightarrow> None
      | Some oid \<Rightarrow>
          (let nvti = nvticache oid;
               cat = nvti_category nvti;
               (c, rp) = str2arglist gsh strsplit (cache s) (nvti_required_ports nvti);
               (c, ru) = str2arglist gsh strsplit c (nvti_required_udp_ports nvti);
               (c, rk) = str2arglist gsh strsplit c (nvti_required_keys nvti);
               (c, mk) = str2arglist gsh strsplit c (nvti_mandatory_keys nvti);
               (c, ek) = str2arglist gsh strsplit c (nvti_excluded_keys nvti);
               sp = \<lparr>running_state = PLUGIN_STATUS_UNRUN, category = cat, timeout = nvti_timeout nvti,
                     required_ports = rp, required_udp_ports = ru, required_keys = rk,
                     mandatory_keys = mk, excluded_keys = ek\<rparr>;
               i = (if cat > int ACT_LAST then int ACT_LAST else cat)
           in if i < 0 then None
              else Some (hash_add gsh strsplit nvti
                (s\<lparr>plugin := (plugin s)(p := sp),
                   lists := (lists s)(nat i := p # lists s (nat i)), cache := c\<rparr>)
                (pa_name (args s p)) p)))"

fun add_plugins ::
  "(string \<Rightarrow> u32) \<Rightarrow> (string \<Rightarrow> string \<Rightarrow> string list) \<Rightarrow> (string \<Rightarrow> nvti) \<Rightarrow> nat list \<Rightarrow> plugins_scheduler
     \<Rightarrow> plugins_scheduler option" where
  "add_plugins gsh strsplit nvticache [] s = Some s"
| "add_plugins gsh strsplit nvticache (p # ps) s =
     Option.bind (add_plugin gsh strsplit nvticache s p) (add_plugins gsh strsplit nvticache ps)"

text \<open>\<open>hash_fill_deps\<close> for every entry, bucket by bucket.\<close>

definition fill_all ::
  "(string \<Rightarrow> u32) \<Rightarrow> (string \<Rightarrow> string) \<Rightarrow> (string \<Rightarrow> string \<Rightarrow> string) \<Rightarrow> plugins_scheduler
     \<Rightarrow> plugins_scheduler" where
  "fill_all gsh dirname build s =
     foldl (\<lambda>s i. foldl (hash_fill_deps gsh dirname build) s (hash s i)) s [0..<2713]"

text \<open>With \<open>autoload\<close>: every plugin that is enabled when its turn comes enables its dependencies.\<close>

fun autoload_all ::
  "(string \<Rightarrow> u32) \<Rightarrow> nat list \<Rightarrow> plugins_scheduler \<Rightarrow> plugins_scheduler option" where
  "autoload_all gsh [] s = Some s"
| "autoload_all gsh (p # ps) s =
     (if plug_get_launch s p \<noteq> LAUNCH_DISABLED
      then Option.bind (enable_plugin_and_dependencies gsh s p) (autoload_all gsh ps)
      else autoload_all gsh ps s)"

definition drop_disabled :: "plugins_scheduler \<Rightarrow> plugins_scheduler" where
  "drop_disabled s =
     s\<lparr>lists := (\<lambda>i. if i \<le> ACT_LAST
                   then filter (\<lambda>p. plug_get_launch s p \<noteq> LAUNCH_DISABLED) (lists s i)
                   else lists s i)\<rparr>"

definition plugins_scheduler_init ::
  "(string \<Rightarrow> u32) \<Rightarrow> (string \<Rightarrow> string \<Rightarrow> string list) \<Rightarrow> (string \<Rightarrow> string) \<Rightarrow> (string \<Rightarrow> string \<Rightarrow> string)
     \<Rightarrow> (string \<Rightarrow> nvti) \<Rightarrow> name_cache \<Rightarrow> plugin_arg list option \<Rightarrow> int \<Rightarrow> int
     \<Rightarrow> plugins_scheduler option option" where
  "plugins_scheduler_init gsh strsplit dirname build nvticache c plugins autoload only_network =
     (case plugins of
        None \<Rightarrow> Some None
      | Some pas \<Rightarrow>
          Option.bind (add_plugins gsh strsplit nvticache [0..<length pas] (empty_scheduler pas c)) (\<lambda>s.
          let s = fill_all gsh dirname build s in
          Option.bind (if autoload \<noteq> 0 then autoload_all gsh [0..<length pas] s else Some s) (\<lambda>s.
          let s = drop_disabled s;
              s = (if only_network \<noteq> 0
                   then s\<lparr>lists := (\<lambda>i. if ACT_GATHER_INFO \<le> i \<and> i \<le> ACT_LAST then [] else lists s i)\<rparr>
                   else s)
          in Some (Some s))))"

subsection \<open>The next plugin\<close>

text \<open>
  The inner loop over one list; \<open>ls\<close> is the rest of it. It ends with a plugin to launch, or
  with the flag and the least category of a running plugin.
\<close>

datatype scan_result = Scan_launch nat | Scan_end bool int

fun scan_list ::
  "nat \<Rightarrow> nat list \<Rightarrow> bool \<Rightarrow> int \<Rightarrow> plugins_scheduler \<Rightarrow> (scan_result \<times> plugins_scheduler) option" where
  "scan_list cat [] flag rc s = Some (Scan_end flag rc, s)"
| "scan_list cat (l # ls) flag rc s =
     (case state s l of
        PLUGIN_STATUS_UNRUN \<Rightarrow>
          (case deps_ptr s l of
             None \<Rightarrow> Some (Scan_launch l, launch s l)
           | Some dd \<Rightarrow>
               Option.bind (plugin_next_unrun_dependencie s (Some dd)) (\<lambda>(r, s).
                 case r of
                   Sched_null \<Rightarrow> Some (Scan_launch l, launch s l)
                 | Sched_running \<Rightarrow> scan_list cat ls True (min rc (category (plugin s l))) s
                 | Sched_plugin p \<Rightarrow> Some (Scan_launch p, launch s p)))
      | PLUGIN_STATUS_RUNNING \<Rightarrow> scan_list cat ls True (min rc (category (plugin s l))) s
      | PLUGIN_STATUS_DONE \<Rightarrow>
          (let s = clean s l in
           scan_list cat ls flag rc (s\<lparr>lists := (lists s)(cat := remove1 l (lists s cat))\<rparr>))
      | PLUGIN_STATUS_DONE_AND_CLEANED \<Rightarrow>
          scan_list cat ls flag rc (s\<lparr>lists := (lists s)(cat := remove1 l (lists s cat))\<rparr>))"

definition exclusive :: "nat \<Rightarrow> bool" where
  "exclusive cat \<longleftrightarrow> cat = ACT_SCANNER \<or> cat = ACT_KILL_HOST \<or> cat = ACT_FLOOD \<or> cat = ACT_DENIAL"

text \<open>
  The loop over the categories. \<open>wait\<close> is the effect of \<open>pluginlaunch_wait_for_free_process\<close>,
  after which the same category is scanned again; it may never come to an end.
\<close>

partial_function (option) next_loop ::
  "(plugins_scheduler \<Rightarrow> plugins_scheduler) \<Rightarrow> nat \<Rightarrow> bool \<Rightarrow> int \<Rightarrow> plugins_scheduler
     \<Rightarrow> (sched_result \<times> plugins_scheduler) option" where
  "next_loop wait cat flag rc s =
     (if cat \<le> ACT_LAST then
        Option.bind (scan_list cat (lists s cat) flag rc (s\<lparr>parallel := \<not> exclusive cat\<rparr>)) (\<lambda>r.
          case fst r of
            Scan_launch p \<Rightarrow> Some (Sched_plugin p, snd r)
          | Scan_end flag rc \<Rightarrow>
              if (cat = ACT_SCANNER \<or> cat = ACT_INIT \<or> cat = ACT_SETTINGS) \<and> flag
              then next_loop wait cat False rc (wait (snd r))
              else if cat + 1 \<ge> ACT_DENIAL \<and> flag \<and> rc < int ACT_DENIAL
              then Some (Sched_running, snd r)
              else next_loop wait (cat + 1) flag rc (snd r))
      else Some (if flag then Sched_running else Sched_null, s))"

declare next_loop.simps [code]

definition plugins_scheduler_next ::
  "(plugins_scheduler \<Rightarrow> plugins_scheduler) \<Rightarrow> plugins_scheduler option
     \<Rightarrow> (sched_result \<times> plugins_scheduler option) option" where
  "plugins_scheduler_next wait h =
     (case h of
        None \<Rightarrow> Some (Sched_null, None)
      | Some s \<Rightarrow> map_option (map_prod id Some) (next_loop wait ACT_INIT False (int ACT_LAST) s))"

end
