(* ===== verification/SchedulerCorrect.thy ===== *)
theory SchedulerCorrect
  imports Scheduler
begin

text \<open>
  What the scheduler promises: a plugin is handed out once, when it has not run and all its
  dependencies have ended; the answer NULL means that nothing is left to do; the search
  returns whenever the dependencies are not circular. And where it does not keep it: on
  circular dependencies, and for the port counters of long names.
\<close>

subsection \<open>How the state evolves\<close>

text \<open>While the scheduler searches, the only change of a plugin is that an ended one is cleaned up.\<close>

definition desc :: "plugins_scheduler \<Rightarrow> nat \<Rightarrow> scheduler_plugin" where
  "desc s = (\<lambda>p. (plugin s p)\<lparr>running_state := PLUGIN_STATUS_UNRUN\<rparr>)"

lemma desc_frame [simp]:
  "desc (s\<lparr>lists := a\<rparr>) = desc s" "desc (s\<lparr>parallel := b\<rparr>) = desc s" "desc (s\<lparr>plist := c\<rparr>) = desc s" "desc (s\<lparr>cache := d\<rparr>) = desc s"
  "desc (plugin_set_running_state s q st) = desc s"
  by (simp_all add: desc_def plugin_set_running_state_def fun_eq_iff split: option.splits)

lemma desc_category: "desc s' = desc s \<Longrightarrow> category (plugin s' p) = category (plugin s p)"
  by (drule fun_cong [of _ _ p], drule arg_cong [of _ _ category]) (simp add: desc_def)

definition evolves :: "plugins_scheduler \<Rightarrow> plugins_scheduler \<Rightarrow> bool" where
  "evolves s s' \<longleftrightarrow> entry s' = entry s \<and> args s' = args s \<and> hash s' = hash s \<and> desc s' = desc s
     \<and> (\<forall>p. state s' p = state s p
           \<or> (state s p = PLUGIN_STATUS_DONE \<and> state s' p = PLUGIN_STATUS_DONE_AND_CLEANED))"

definition deps_of :: "plugins_scheduler \<Rightarrow> nat \<Rightarrow> nat set" where
  "deps_of s p = (case deps_ptr s p of None \<Rightarrow> {} | Some ds \<Rightarrow> set ds)"

definition cleaned :: "plugins_scheduler \<Rightarrow> nat \<Rightarrow> bool" where
  "cleaned s p \<longleftrightarrow> state s p = PLUGIN_STATUS_DONE_AND_CLEANED"

definition ready :: "plugins_scheduler \<Rightarrow> nat \<Rightarrow> bool" where
  "ready s p \<longleftrightarrow> state s p = PLUGIN_STATUS_UNRUN \<and> (\<forall>d \<in> deps_of s p. cleaned s d)"

lemma evolves_refl [simp]: "evolves s s"
  by (simp add: evolves_def)

lemma evolves_trans: "evolves a b \<Longrightarrow> evolves b c \<Longrightarrow> evolves a c"
  unfolding evolves_def by (metis plugin_status.distinct)

lemma evolves_cleaned: "evolves s s' \<Longrightarrow> cleaned s p \<Longrightarrow> cleaned s' p"
  unfolding evolves_def cleaned_def by (metis plugin_status.distinct)

lemma evolves_unrun: "evolves s s' \<Longrightarrow> state s' p = PLUGIN_STATUS_UNRUN \<longleftrightarrow> state s p = PLUGIN_STATUS_UNRUN"
  unfolding evolves_def by (metis plugin_status.distinct)

lemma evolves_running: "evolves s s' \<Longrightarrow> state s' p = PLUGIN_STATUS_RUNNING \<longleftrightarrow> state s p = PLUGIN_STATUS_RUNNING"
  unfolding evolves_def by (metis plugin_status.distinct)

lemma rm_ports_frame [simp]:
  "plugin (scheduler_rm_running_ports s p) = plugin s" "entry (scheduler_rm_running_ports s p) = entry s"
  "args (scheduler_rm_running_ports s p) = args s" "hash (scheduler_rm_running_ports s p) = hash s"
  "lists (scheduler_rm_running_ports s p) = lists s"
  by (simp_all add: scheduler_rm_running_ports_def split: option.splits)

lemma mark_ports_frame [simp]:
  "plugin (scheduler_mark_running_ports s p) = plugin s" "entry (scheduler_mark_running_ports s p) = entry s"
  "args (scheduler_mark_running_ports s p) = args s" "hash (scheduler_mark_running_ports s p) = hash s"
  "lists (scheduler_mark_running_ports s p) = lists s"
  by (simp_all add: scheduler_mark_running_ports_def split: option.splits)

lemma ports_desc [simp]:
  "desc (scheduler_rm_running_ports s p) = desc s" "desc (scheduler_mark_running_ports s p) = desc s"
  by (simp_all add: scheduler_rm_running_ports_def scheduler_mark_running_ports_def split: option.splits)

lemma clean_desc [simp]: "desc (clean s p) = desc s"
  by (simp add: clean_def)

lemma launch_desc [simp]: "desc (launch s p) = desc s"
  by (simp add: launch_def)

lemma clean_frame [simp]: "entry (clean s p) = entry s" "args (clean s p) = args s" "hash (clean s p) = hash s"
  "lists (clean s p) = lists s"
  "state (clean s p) q = (if q = p then PLUGIN_STATUS_DONE_AND_CLEANED else state s q)"
  by (simp_all add: clean_def plugin_set_running_state_def)

lemma launch_frame [simp]: "entry (launch s p) = entry s" "args (launch s p) = args s" "hash (launch s p) = hash s"
  "lists (launch s p) = lists s"
  "state (launch s p) q = (if q = p then PLUGIN_STATUS_RUNNING else state s q)"
  by (simp_all add: launch_def plugin_set_running_state_def)

lemma clean_evolves: "state s p = PLUGIN_STATUS_DONE \<Longrightarrow> evolves s (clean s p)"
  by (simp add: evolves_def)

lemma deps_of_frame: "entry s' = entry s \<Longrightarrow> deps_of s' = deps_of s"
  by (rule ext) (simp add: deps_of_def)

subsection \<open>The search through the dependencies\<close>

text \<open>What a search has established when it returns.\<close>

fun dep_post :: "nat list \<Rightarrow> bool \<Rightarrow> sched_result \<Rightarrow> plugins_scheduler \<Rightarrow> bool" where
  "dep_post ds flag Sched_null s \<longleftrightarrow> \<not> flag \<and> (\<forall>d \<in> set ds. cleaned s d)"
| "dep_post ds flag Sched_running s \<longleftrightarrow> flag \<or> (\<exists>p. state s p = PLUGIN_STATUS_RUNNING)"
| "dep_post ds flag (Sched_plugin p) s \<longleftrightarrow> ready s p"

lemma next_dep_correct:
  assumes "next_dep s ds flag = Some (r, s')"
  shows "evolves s s' \<and> lists s' = lists s \<and> dep_post ds flag r s'"
proof -
  let ?P = "\<lambda>s ds flag r. evolves s (snd r) \<and> lists (snd r) = lists s \<and> dep_post ds flag (fst r) (snd r)"
  have "?P s ds flag (r, s')"
  proof (rule next_dep.raw_induct [where P = ?P, OF _ assms])
    fix f s ds flag r
    assume IH: "\<And>s ds flag r. f s ds flag = Some r \<Longrightarrow> ?P s ds flag r"
      and eq: "(case ds of [] \<Rightarrow> Some (if flag then Sched_running else Sched_null, s)
      | d # ds \<Rightarrow>
          (case state s d of
             PLUGIN_STATUS_UNRUN \<Rightarrow>
               (case deps_ptr s d of
                  None \<Rightarrow> Some (Sched_plugin d, s)
                | Some dd \<Rightarrow>
                    Option.bind (f s dd False) (\<lambda>r.
                      case fst r of
                        Sched_null \<Rightarrow> Some (Sched_plugin d, snd r)
                      | Sched_running \<Rightarrow> f (snd r) ds True
                      | Sched_plugin p \<Rightarrow> Some (Sched_plugin p, snd r)))
           | PLUGIN_STATUS_RUNNING \<Rightarrow> f s ds True
           | PLUGIN_STATUS_DONE \<Rightarrow> f (clean s d) ds flag
           | PLUGIN_STATUS_DONE_AND_CLEANED \<Rightarrow> f s ds flag)) = Some r"
    show "?P s ds flag r"
    proof (cases ds)
      case Nil
      with eq show ?thesis by auto
    next
      case (Cons d ds')
      show ?thesis
      proof (cases "state s d")
        case PLUGIN_STATUS_UNRUN
        show ?thesis
        proof (cases "deps_ptr s d")
          case None
          with eq Cons PLUGIN_STATUS_UNRUN show ?thesis by (auto simp: ready_def deps_of_def)
        next
          case (Some dd)
          with eq Cons PLUGIN_STATUS_UNRUN obtain r1 where r1: "f s dd False = Some r1"
            and e: "(case fst r1 of Sched_null \<Rightarrow> Some (Sched_plugin d, snd r1)
                      | Sched_running \<Rightarrow> f (snd r1) ds' True
                      | Sched_plugin p \<Rightarrow> Some (Sched_plugin p, snd r1)) = Some r"
            by (auto split: bind_splits)
          note h = IH [OF r1]
          show ?thesis
          proof (cases "fst r1")
            case Sched_null
            with h have "\<forall>x \<in> set dd. cleaned (snd r1) x" by simp
            moreover have "deps_ptr (snd r1) d = Some dd" using h Some by (simp add: evolves_def)
            moreover have "state (snd r1) d = PLUGIN_STATUS_UNRUN"
              using h PLUGIN_STATUS_UNRUN evolves_unrun by blast
            ultimately show ?thesis using e h Sched_null by (auto simp: ready_def deps_of_def)
          next
            case Sched_running
            with e have "f (snd r1) ds' True = Some r" by simp
            from IH [OF this] h Sched_running obtain q where
              "evolves (snd r1) (snd r)" "state (snd r1) q = PLUGIN_STATUS_RUNNING"
              "lists (snd r) = lists (snd r1)" "dep_post ds' True (fst r) (snd r)" by auto
            with h Cons evolves_running [of "snd r1" "snd r"] show ?thesis
              by (cases "fst r") (auto intro: evolves_trans)
          next
            case (Sched_plugin p)
            with e h show ?thesis by auto
          qed
        qed
      next
        case PLUGIN_STATUS_RUNNING
        with eq Cons have "f s ds' True = Some r" by simp
        from IH [OF this] PLUGIN_STATUS_RUNNING Cons evolves_running [of s "snd r" d] show ?thesis
          by (cases "fst r") auto
      next
        case PLUGIN_STATUS_DONE
        with eq Cons have "f (clean s d) ds' flag = Some r" by simp
        note h = IH [OF this]
        have "cleaned (snd r) d" using h evolves_cleaned [of "clean s d" "snd r" d] by (simp add: cleaned_def)
        with h Cons PLUGIN_STATUS_DONE show ?thesis
          by (cases "fst r") (auto intro: evolves_trans [OF clean_evolves])
      next
        case PLUGIN_STATUS_DONE_AND_CLEANED
        with eq Cons have "f s ds' flag = Some r" by simp
        note h = IH [OF this]
        have "cleaned (snd r) d"
          using h evolves_cleaned [of s "snd r" d] PLUGIN_STATUS_DONE_AND_CLEANED by (simp add: cleaned_def)
        with h Cons show ?thesis by (cases "fst r") auto
      qed
    qed
  qed
  then show ?thesis by simp
qed

text \<open>Termination: a rank that decreases along the dependencies, that is, no circle.\<close>

definition ranked :: "(nat \<Rightarrow> nat) \<Rightarrow> plugins_scheduler \<Rightarrow> bool" where
  "ranked rk s \<longleftrightarrow> (\<forall>p. \<forall>d \<in> deps_of s p. rk d < rk p)"

lemma ranked_evolves: "evolves s s' \<Longrightarrow> ranked rk s \<Longrightarrow> ranked rk s'"
  by (simp add: ranked_def evolves_def deps_of_def)

lemma next_dep_returns:
  "ranked rk s \<Longrightarrow> (\<And>d. d \<in> set ds \<Longrightarrow> rk d < n) \<Longrightarrow> \<exists>r s'. next_dep s ds flag = Some (r, s')"
proof (induction n arbitrary: s ds flag)
  case 0
  have "ds = []"
  proof (cases ds)
    case (Cons d _)
    with 0(2) [of d] show ?thesis by simp
  qed
  then show ?case by (simp add: next_dep.simps [of s "[]"])
next
  case (Suc n)
  from Suc.prems show ?case
  proof (induction ds arbitrary: s flag)
    case Nil
    then show ?case by (simp add: next_dep.simps [of s "[]"])
  next
    case (Cons d ds)
    have step: "\<exists>r s'. next_dep t ds fl = Some (r, s')" if "evolves s t" for t fl
      using Cons.IH [of t fl] Cons.prems ranked_evolves [OF that] by simp
    show ?case
    proof (cases "state s d")
      case PLUGIN_STATUS_UNRUN
      show ?thesis
      proof (cases "deps_ptr s d")
        case None
        with PLUGIN_STATUS_UNRUN show ?thesis by (simp add: next_dep.simps [of s "d # ds"])
      next
        case (Some dd)
        have "rk x < n" if "x \<in> set dd" for x
        proof -
          have "rk x < rk d" using Cons.prems(1) that Some by (simp add: ranked_def deps_of_def)
          with Cons.prems(2) [of d] show ?thesis by simp
        qed
        then obtain r1 s1 where r1: "next_dep s dd False = Some (r1, s1)"
          using Suc.IH [OF Cons.prems(1)] by blast
        then have "evolves s s1" using next_dep_correct by blast
        from step [OF this, of True] r1 Some PLUGIN_STATUS_UNRUN show ?thesis
          by (cases r1) (auto simp: next_dep.simps [of s "d # ds"])
      qed
    next
      case PLUGIN_STATUS_RUNNING
      with step [of s True] show ?thesis by (simp add: next_dep.simps [of s "d # ds"])
    next
      case PLUGIN_STATUS_DONE
      with step [OF clean_evolves, of d flag] show ?thesis by (simp add: next_dep.simps [of s "d # ds"])
    next
      case PLUGIN_STATUS_DONE_AND_CLEANED
      with step [of s flag] show ?thesis by (simp add: next_dep.simps [of s "d # ds"])
    qed
  qed
qed

lemma next_dep_returns_ranked: "ranked rk s \<Longrightarrow> \<exists>r s'. next_dep s ds flag = Some (r, s')"
proof -
  assume r: "ranked rk s"
  have "rk d < Suc (Max (rk ` set ds))" if "d \<in> set ds" for d
    using that by (simp add: less_Suc_eq_le)
  with next_dep_returns [OF r] show ?thesis by blast
qed

text \<open>A set of plugins that have not run and whose first dependency is in the set again.\<close>

definition circular :: "plugins_scheduler \<Rightarrow> nat set \<Rightarrow> bool" where
  "circular s C \<longleftrightarrow> (\<forall>c \<in> C. state s c = PLUGIN_STATUS_UNRUN \<and> (\<exists>d ds. deps_ptr s c = Some (d # ds) \<and> d \<in> C))"

lemma next_dep_diverges: "circular s C \<Longrightarrow> c \<in> C \<Longrightarrow> next_dep s (c # ds) flag = None"
proof (rule ccontr)
  assume c: "circular s C" "c \<in> C" and "next_dep s (c # ds) flag \<noteq> None"
  then obtain r where r: "next_dep s (c # ds) flag = Some r" by blast
  let ?P = "\<lambda>s ds flag r. ds \<noteq> [] \<and> hd ds \<in> C \<and> circular s C \<longrightarrow> False"
  have "?P s (c # ds) flag r"
  proof (rule next_dep.raw_induct [where P = ?P, OF _ r])
    fix f s ds flag r
    assume IH: "\<And>s ds flag r. f s ds flag = Some r \<Longrightarrow> ?P s ds flag r"
      and eq: "(case ds of [] \<Rightarrow> Some (if flag then Sched_running else Sched_null, s)
      | d # ds \<Rightarrow>
          (case state s d of
             PLUGIN_STATUS_UNRUN \<Rightarrow>
               (case deps_ptr s d of
                  None \<Rightarrow> Some (Sched_plugin d, s)
                | Some dd \<Rightarrow>
                    Option.bind (f s dd False) (\<lambda>r.
                      case fst r of
                        Sched_null \<Rightarrow> Some (Sched_plugin d, snd r)
                      | Sched_running \<Rightarrow> f (snd r) ds True
                      | Sched_plugin p \<Rightarrow> Some (Sched_plugin p, snd r)))
           | PLUGIN_STATUS_RUNNING \<Rightarrow> f s ds True
           | PLUGIN_STATUS_DONE \<Rightarrow> f (clean s d) ds flag
           | PLUGIN_STATUS_DONE_AND_CLEANED \<Rightarrow> f s ds flag)) = Some r"
    show "?P s ds flag r"
    proof
      assume h: "ds \<noteq> [] \<and> hd ds \<in> C \<and> circular s C"
      then obtain c ds' d dd where d: "ds = c # ds'" "c \<in> C" "state s c = PLUGIN_STATUS_UNRUN"
        "deps_ptr s c = Some (d # dd)" "d \<in> C" by (cases ds) (auto simp: circular_def)
      with eq obtain r1 where "f s (d # dd) False = Some r1" by (auto split: bind_splits)
      from IH [OF this] h d(5) show False by simp
    qed
  qed
  with c show False by simp
qed

subsection \<open>One list\<close>

lemma scan_list_launch:
  "scan_list cat ls flag rc s = Some (Scan_launch p, s') \<Longrightarrow>
     \<exists>s1. evolves s s1 \<and> ready s1 p \<and> s' = launch s1 p"
proof (induction cat ls flag rc s rule: scan_list.induct)
  case (2 cat l ls flag rc s)
  have ev: "evolves s (s\<lparr>lists := x\<rparr>)" for s x by (simp add: evolves_def)
  show ?case
  proof (cases "state s l")
    case PLUGIN_STATUS_UNRUN
    show ?thesis
    proof (cases "deps_ptr s l")
      case None
      with PLUGIN_STATUS_UNRUN "2.prems" show ?thesis
        by (intro exI [of _ s]) (auto simp: ready_def deps_of_def)
    next
      case (Some dd)
      with PLUGIN_STATUS_UNRUN "2.prems" obtain r s1 where n: "next_dep s dd False = Some (r, s1)"
        by (auto simp: plugin_next_unrun_dependencie_def split: bind_splits)
      note c = next_dep_correct [OF n]
      show ?thesis
      proof (cases r)
        case Sched_null
        then have "ready s1 l"
          using c Some PLUGIN_STATUS_UNRUN evolves_unrun [of s s1 l]
          by (simp add: ready_def deps_of_def evolves_def)
        with c n Some PLUGIN_STATUS_UNRUN "2.prems" Sched_null show ?thesis
          by (auto simp: plugin_next_unrun_dependencie_def)
      next
        case Sched_running
        with n Some PLUGIN_STATUS_UNRUN "2.prems" "2.IH"(1) [OF PLUGIN_STATUS_UNRUN Some, of "(r, s1)" r s1] c
        show ?thesis by (auto simp: plugin_next_unrun_dependencie_def intro: evolves_trans)
      next
        case (Sched_plugin q)
        with c n Some PLUGIN_STATUS_UNRUN "2.prems" show ?thesis
          by (auto simp: plugin_next_unrun_dependencie_def)
      qed
    qed
  next
    case PLUGIN_STATUS_RUNNING
    with 2 show ?thesis by simp
  next
    case PLUGIN_STATUS_DONE
    with "2.prems" "2.IH"(3) [OF PLUGIN_STATUS_DONE refl] obtain s1 where
      "evolves ((clean s l)\<lparr>lists := (lists (clean s l))(cat := remove1 l (lists (clean s l) cat))\<rparr>) s1"
      "ready s1 p" "s' = launch s1 p" by auto
    with evolves_trans [OF evolves_trans [OF clean_evolves [OF PLUGIN_STATUS_DONE] ev]] show ?thesis by blast
  next
    case PLUGIN_STATUS_DONE_AND_CLEANED
    with "2.prems" "2.IH"(4) [OF PLUGIN_STATUS_DONE_AND_CLEANED] obtain s1 where
      "evolves (s\<lparr>lists := (lists s)(cat := remove1 l (lists s cat))\<rparr>) s1"
      "ready s1 p" "s' = launch s1 p" by auto
    with evolves_trans [OF ev] show ?thesis by blast
  qed
qed simp

text \<open>What a pass through a list that launches nothing has established.\<close>

definition end_post ::
  "nat \<Rightarrow> nat list \<Rightarrow> bool \<Rightarrow> plugins_scheduler \<Rightarrow> bool \<Rightarrow> plugins_scheduler \<Rightarrow> bool" where
  "end_post cat ls flag s flag' s' \<longleftrightarrow>
     evolves s s' \<and> (flag \<longrightarrow> flag') \<and> (flag' \<longrightarrow> flag \<or> (\<exists>p. state s' p = PLUGIN_STATUS_RUNNING))
     \<and> (\<forall>c. c \<noteq> cat \<longrightarrow> lists s' c = lists s c)
     \<and> (\<forall>pre. lists s cat = pre @ ls \<longrightarrow> distinct (lists s cat) \<longrightarrow>
           \<not> flag' \<longrightarrow> lists s' cat = pre \<and> (\<forall>l \<in> set ls. cleaned s' l))
     \<and> (\<forall>pre. lists s cat = pre @ ls \<longrightarrow> distinct (lists s cat) \<longrightarrow> distinct (lists s' cat))
     \<and> (\<forall>l \<in> set (lists s cat) - set (lists s' cat). cleaned s' l)"

lemma end_post_keep:
  assumes e: "evolves s s1" "lists s1 = lists s" and "end_post cat ls True s1 flag' s'"
    and run: "state s1 q = PLUGIN_STATUS_RUNNING"
  shows "end_post cat (l # ls) flag s flag' s'"
proof -
  have ev: "evolves s s'" using assms by (auto simp: end_post_def intro: evolves_trans)
  have fl: "flag'" using assms(3) by (simp add: end_post_def)
  have ru: "state s' q = PLUGIN_STATUS_RUNNING"
    using assms(3) run evolves_running by (auto simp: end_post_def)
  have d: "distinct (lists s' cat)" if "lists s cat = pre @ l # ls" "distinct (lists s cat)" for pre
    using assms(3) that e(2) by (auto simp: end_post_def dest!: spec [of _ "pre @ [l]"])
  show ?thesis
    using assms(3) ev fl ru d e(2) unfolding end_post_def by auto
qed

lemma end_post_remove:
  assumes e: "evolves s s1" "lists s1 = lists s" and c: "cleaned s1 l"
    and post: "end_post cat ls flag (s1\<lparr>lists := (lists s1)(cat := remove1 l (lists s1 cat))\<rparr>) flag' s'"
  shows "end_post cat (l # ls) flag s flag' s'"
proof -
  let ?s2 = "s1\<lparr>lists := (lists s1)(cat := remove1 l (lists s1 cat))\<rparr>"
  have e2: "evolves s1 ?s2" by (simp add: evolves_def)
  have e3: "evolves ?s2 s'" using post by (simp add: end_post_def)
  have ev: "evolves s s'" by (rule evolves_trans [OF e(1) evolves_trans [OF e2 e3]])
  have cl: "cleaned s' l" by (rule evolves_cleaned [OF evolves_trans [OF e2 e3] c])
  have rm: "lists ?s2 cat = pre @ ls \<and> distinct (lists ?s2 cat)"
    if "lists s cat = pre @ l # ls" "distinct (lists s cat)" for pre
    using that e(2) by (auto simp: remove1_append)
  show ?thesis
    unfolding end_post_def
  proof (intro conjI allI impI)
    fix pre assume h: "lists s cat = pre @ l # ls" "distinct (lists s cat)"
    show "distinct (lists s' cat)" using post rm [OF h] unfolding end_post_def by blast
  next
    fix pre assume h: "lists s cat = pre @ l # ls" "distinct (lists s cat)" "\<not> flag'"
    then have "lists s' cat = pre \<and> (\<forall>x \<in> set ls. cleaned s' x)"
      using post rm [OF h(1,2)] unfolding end_post_def by blast
    with cl show "lists s' cat = pre" "\<forall>x \<in> set (l # ls). cleaned s' x" by auto
  next
    fix c assume "c \<noteq> cat"
    with post e(2) show "lists s' c = lists s c" by (simp add: end_post_def)
  next
    show "\<forall>x \<in> set (lists s cat) - set (lists s' cat). cleaned s' x"
    proof
      fix x assume x: "x \<in> set (lists s cat) - set (lists s' cat)"
      show "cleaned s' x"
      proof (cases "x = l")
        case False
        with x e(2) have "x \<in> set (lists ?s2 cat) - set (lists s' cat)" by simp
        with post show ?thesis unfolding end_post_def by blast
      qed (simp add: cl)
    qed
  qed (use post ev in \<open>auto simp: end_post_def\<close>)
qed

lemma scan_list_end:
  "scan_list cat ls flag rc s = Some (Scan_end flag' rc', s') \<Longrightarrow> end_post cat ls flag s flag' s'"
proof (induction cat ls flag rc s rule: scan_list.induct)
  case (1 cat flag rc s)
  then show ?case by (auto simp: end_post_def)
next
  case (2 cat l ls flag rc s)
  show ?case
  proof (cases "state s l")
    case PLUGIN_STATUS_UNRUN
    show ?thesis
    proof (cases "deps_ptr s l")
      case None
      with PLUGIN_STATUS_UNRUN "2.prems" show ?thesis by simp
    next
      case (Some dd)
      with PLUGIN_STATUS_UNRUN "2.prems" obtain s1 where n: "next_dep s dd False = Some (Sched_running, s1)"
        by (auto simp: plugin_next_unrun_dependencie_def split: bind_splits sched_result.splits)
      note c = next_dep_correct [OF n]
      then obtain q where q: "state s1 q = PLUGIN_STATUS_RUNNING" by auto
      from n Some PLUGIN_STATUS_UNRUN "2.prems" "2.IH"(1) [OF PLUGIN_STATUS_UNRUN Some, of "(Sched_running, s1)" Sched_running s1]
      have "end_post cat ls True s1 flag' s'" by (auto simp: plugin_next_unrun_dependencie_def)
      with end_post_keep [OF _ _ this q] c show ?thesis by blast
    qed
  next
    case PLUGIN_STATUS_RUNNING
    with "2.prems" "2.IH"(2) have "end_post cat ls True s flag' s'" by simp
    from end_post_keep [OF _ _ this PLUGIN_STATUS_RUNNING] show ?thesis by simp
  next
    case PLUGIN_STATUS_DONE
    with "2.prems" "2.IH"(3) [OF PLUGIN_STATUS_DONE refl] have
      "end_post cat ls flag ((clean s l)\<lparr>lists := (lists (clean s l))(cat := remove1 l (lists (clean s l) cat))\<rparr>) flag' s'"
      by simp
    from end_post_remove [OF clean_evolves [OF PLUGIN_STATUS_DONE] _ _ this] show ?thesis by (simp add: cleaned_def)
  next
    case PLUGIN_STATUS_DONE_AND_CLEANED
    with "2.prems" "2.IH"(4) have
      "end_post cat ls flag (s\<lparr>lists := (lists s)(cat := remove1 l (lists s cat))\<rparr>) flag' s'" by simp
    from end_post_remove [OF evolves_refl refl _ this] PLUGIN_STATUS_DONE_AND_CLEANED show ?thesis by (simp add: cleaned_def)
  qed
qed

subsection \<open>All lists\<close>

text \<open>Waiting for a process: some of the running plugins have ended afterwards, nothing else changes.\<close>

definition wait_step :: "plugins_scheduler \<Rightarrow> plugins_scheduler \<Rightarrow> bool" where
  "wait_step s s' \<longleftrightarrow> entry s' = entry s \<and> args s' = args s \<and> hash s' = hash s \<and> desc s' = desc s \<and> lists s' = lists s
     \<and> (\<forall>p. state s' p = state s p
           \<or> (state s p = PLUGIN_STATUS_RUNNING \<and> state s' p = PLUGIN_STATUS_DONE))"

definition wait_ok :: "(plugins_scheduler \<Rightarrow> plugins_scheduler) \<Rightarrow> bool" where
  "wait_ok wait \<longleftrightarrow> (\<forall>s. wait_step s (wait s))"

text \<open>The order in which a plugin goes through its states.\<close>

fun progress :: "plugin_status \<Rightarrow> nat" where
  "progress PLUGIN_STATUS_UNRUN = 0"
| "progress PLUGIN_STATUS_RUNNING = 1"
| "progress PLUGIN_STATUS_DONE = 2"
| "progress PLUGIN_STATUS_DONE_AND_CLEANED = 3"

text \<open>No plugin goes back, and none leaves the state UNRUN.\<close>

definition proceeds :: "plugins_scheduler \<Rightarrow> plugins_scheduler \<Rightarrow> bool" where
  "proceeds s s' \<longleftrightarrow> entry s' = entry s \<and> args s' = args s \<and> desc s' = desc s \<and>
     (\<forall>p. progress (state s p) \<le> progress (state s' p)
         \<and> (state s p = PLUGIN_STATUS_UNRUN \<longleftrightarrow> state s' p = PLUGIN_STATUS_UNRUN))"

lemma proceeds_trans: "proceeds a b \<Longrightarrow> proceeds b c \<Longrightarrow> proceeds a c"
  unfolding proceeds_def by (metis order_trans)

lemma evolves_proceeds: "evolves s s' \<Longrightarrow> proceeds s s'"
  unfolding evolves_def proceeds_def by (metis order_refl plugin_status.distinct(3,5) progress.simps(3,4) eval_nat_numeral(3) le_SucI)

lemma wait_proceeds: "wait_step s s' \<Longrightarrow> proceeds s s'"
  unfolding wait_step_def proceeds_def
  by (metis order_refl plugin_status.distinct(1,3) progress.simps(2,3) one_le_numeral)

lemma parallel_proceeds: "proceeds s (s\<lparr>parallel := b\<rparr>)"
  by (simp add: proceeds_def)

lemma proceeds_cleaned: "proceeds s s' \<Longrightarrow> cleaned s p \<Longrightarrow> cleaned s' p"
proof -
  assume "proceeds s s'" "cleaned s p"
  then have "3 \<le> progress (state s' p)" unfolding proceeds_def cleaned_def by (metis progress.simps(4))
  then show ?thesis by (cases "state s' p") (simp_all add: cleaned_def)
qed

text \<open>
  The rounds of the outer loop as a step relation: the same list again after waiting, or the
  next list. A round that does not continue gives an answer.
\<close>

type_synonym config = "nat \<times> bool \<times> int \<times> plugins_scheduler"

abbreviation pass_list :: "config \<Rightarrow> (scan_result \<times> plugins_scheduler) option" where
  "pass_list c \<equiv> (case c of (cat, flag, rc, s) \<Rightarrow>
     scan_list cat (lists s cat) flag rc (s\<lparr>parallel := \<not> exclusive cat\<rparr>))"

definition early :: "nat \<Rightarrow> bool" where
  "early cat \<longleftrightarrow> cat = ACT_SCANNER \<or> cat = ACT_INIT \<or> cat = ACT_SETTINGS"

inductive pass :: "config \<Rightarrow> config \<Rightarrow> bool" where
  again: "cat \<le> ACT_LAST \<Longrightarrow> pass_list (cat, flag, rc, s) = Some (Scan_end True rc', s1) \<Longrightarrow> early cat \<Longrightarrow>
    wait_step s1 s2 \<Longrightarrow> pass (cat, flag, rc, s) (cat, False, rc', s2)"
| on: "cat \<le> ACT_LAST \<Longrightarrow> pass_list (cat, flag, rc, s) = Some (Scan_end fl rc', s1) \<Longrightarrow> \<not> (early cat \<and> fl) \<Longrightarrow>
    pass (cat, flag, rc, s) (cat + 1, fl, rc', s1)"

inductive answer :: "config \<Rightarrow> sched_result \<Rightarrow> plugins_scheduler \<Rightarrow> bool" where
  launched: "cat \<le> ACT_LAST \<Longrightarrow> pass_list (cat, flag, rc, s) = Some (Scan_launch p, s') \<Longrightarrow>
    answer (cat, flag, rc, s) (Sched_plugin p) s'"
| busy: "cat \<le> ACT_LAST \<Longrightarrow> pass_list (cat, flag, rc, s) = Some (Scan_end True rc', s') \<Longrightarrow> \<not> early cat \<Longrightarrow>
    answer (cat, flag, rc, s) Sched_running s'"
| out: "ACT_LAST < cat \<Longrightarrow> answer (cat, flag, rc, s) (if flag then Sched_running else Sched_null) s"

inductive_cases pass_cases: "pass c c'"
inductive_cases answer_plugin: "answer c (Sched_plugin p) s'"
inductive_cases answer_null: "answer c Sched_null s'"
inductive_cases answer_running: "answer c Sched_running s'"

lemma next_loop_passes:
  assumes "next_loop wait cat flag rc s = Some (r, s')" and "wait_ok wait"
  shows "\<exists>c. pass\<^sup>*\<^sup>* (cat, flag, rc, s) c \<and> answer c r s'"
proof -
  let ?P = "\<lambda>w' cat flag rc s r. wait_ok w' \<longrightarrow> (\<exists>c. pass\<^sup>*\<^sup>* (cat, flag, rc, s) c \<and> answer c (fst r) (snd r))"
  have "?P wait cat flag rc s (r, s')"
  proof (rule next_loop.raw_induct [where P = ?P, OF _ assms(1)], rule impI)
    fix f w' cat flag rc s r
    assume IH: "\<And>w' cat flag rc s r. f w' cat flag rc s = Some r \<Longrightarrow> ?P w' cat flag rc s r"
      and eq: "(if cat \<le> ACT_LAST then
        Option.bind (scan_list cat (lists s cat) flag rc (s\<lparr>parallel := \<not> exclusive cat\<rparr>)) (\<lambda>r.
          case fst r of
            Scan_launch p \<Rightarrow> Some (Sched_plugin p, snd r)
          | Scan_end flag rc \<Rightarrow>
              if (cat = ACT_SCANNER \<or> cat = ACT_INIT \<or> cat = ACT_SETTINGS) \<and> flag
              then f w' cat False rc (w' (snd r))
              else if cat + 1 \<ge> ACT_DENIAL \<and> flag \<and> rc < int ACT_DENIAL
              then Some (Sched_running, snd r)
              else f w' (cat + 1) flag rc (snd r))
      else Some (if flag then Sched_running else Sched_null, s)) = Some r"
      and w': "wait_ok w'"
    show "\<exists>c. pass\<^sup>*\<^sup>* (cat, flag, rc, s) c \<and> answer c (fst r) (snd r)"
    proof (cases "cat \<le> ACT_LAST")
      case False
      with eq answer.out [of cat flag rc s] show ?thesis by (intro exI [of _ "(cat, flag, rc, s)"]) auto
    next
      case True
      with eq obtain q s1 where sr: "pass_list (cat, flag, rc, s) = Some (q, s1)" by (auto split: bind_splits)
      show ?thesis
      proof (cases q)
        case (Scan_launch p)
        with eq sr True answer.launched [OF True] show ?thesis
          by (intro exI [of _ "(cat, flag, rc, s)"]) auto
      next
        case (Scan_end fl rc')
        consider "early cat \<and> fl" | "\<not> (early cat \<and> fl)" "cat + 1 \<ge> ACT_DENIAL \<and> fl \<and> rc' < int ACT_DENIAL"
          | "\<not> (early cat \<and> fl)" "\<not> (cat + 1 \<ge> ACT_DENIAL \<and> fl \<and> rc' < int ACT_DENIAL)" by blast
        then show ?thesis
        proof cases
          case 1
          with eq sr True Scan_end have "f w' cat False rc' (w' s1) = Some r" by (auto simp: early_def)
          moreover have "pass (cat, flag, rc, s) (cat, False, rc', w' s1)"
            using pass.again [OF True, of flag rc s rc' s1 "w' s1"] sr Scan_end 1 w' by (simp add: wait_ok_def)
          ultimately show ?thesis using IH w' by (meson converse_rtranclp_into_rtranclp)
        next
          case 2
          with eq sr True Scan_end have "r = (Sched_running, s1)" by (auto simp: early_def)
          with answer.busy [OF True, of flag rc s rc' s1] sr Scan_end 2 show ?thesis
            by (intro exI [of _ "(cat, flag, rc, s)"]) auto
        next
          case 3
          with eq sr True Scan_end have "f w' (cat + 1) fl rc' s1 = Some r" by (auto simp: early_def split: if_splits)
          from IH [OF this] w' pass.on [OF True, of flag rc s fl rc' s1] sr Scan_end 3 show ?thesis
            by (meson converse_rtranclp_into_rtranclp)
        qed
      qed
    qed
  qed
  with assms(2) show ?thesis by simp
qed

lemma pass_end:
  assumes "pass_list (cat, flag, rc, s) = Some (Scan_end fl rc', s1)"
  shows "end_post cat (lists s cat) flag (s\<lparr>parallel := \<not> exclusive cat\<rparr>) fl s1"
  using assms scan_list_end [of cat "lists s cat" flag rc "s\<lparr>parallel := \<not> exclusive cat\<rparr>" fl rc' s1] by simp

lemma pass_end_proceeds:
  "pass_list (cat, flag, rc, s) = Some (Scan_end fl rc', s1) \<Longrightarrow> proceeds s s1"
proof -
  assume "pass_list (cat, flag, rc, s) = Some (Scan_end fl rc', s1)"
  from pass_end [OF this] have "evolves (s\<lparr>parallel := \<not> exclusive cat\<rparr>) s1" unfolding end_post_def by blast
  then show ?thesis by (rule proceeds_trans [OF parallel_proceeds evolves_proceeds])
qed

lemma passes_proceed:
  assumes "pass\<^sup>*\<^sup>* c c'"
  shows "proceeds (snd (snd (snd c))) (snd (snd (snd c')))"
  using assms(1)
proof (induction rule: rtranclp_induct)
  case base
  show ?case using evolves_proceeds [OF evolves_refl] .
next
  case (step c1 c2)
  from step.hyps(2) have "proceeds (snd (snd (snd c1))) (snd (snd (snd c2)))"
  proof cases
    case (again cat flag rc s rc' s1 s2)
    with proceeds_trans [OF pass_end_proceeds wait_proceeds [OF again(6)]] show ?thesis by simp
  next
    case (on cat flag rc s fl rc' s1)
    with pass_end_proceeds show ?thesis by simp
  qed
  with step.IH show ?case by (rule proceeds_trans)
qed

text \<open>Between two states of the loop: what has left a list has ended, and a list that is behind is empty.\<close>

definition lists_distinct :: "plugins_scheduler \<Rightarrow> bool" where
  "lists_distinct s \<longleftrightarrow> (\<forall>c. distinct (lists s c))"

definition loop_inv :: "plugins_scheduler \<Rightarrow> config \<Rightarrow> bool" where
  "loop_inv s0 c \<longleftrightarrow> (case c of (cat, flag, rc, s) \<Rightarrow>
     lists_distinct s \<and> (\<forall>i. \<forall>l \<in> set (lists s0 i) - set (lists s i). cleaned s l)
     \<and> (\<forall>i < cat. \<not> flag \<longrightarrow> lists s i = [])
     \<and> (flag \<longrightarrow> (\<exists>p. state s p = PLUGIN_STATUS_RUNNING)) \<and> (cat \<le> 3 \<longrightarrow> \<not> flag))"

lemma early_iff: "early cat \<longleftrightarrow> cat < 3"
  by (auto simp: early_def act_defs)

lemma loop_inv_scan:
  assumes "loop_inv s0 (cat, flag, rc, s)" "pass_list (cat, flag, rc, s) = Some (Scan_end fl rc', s1)"
  shows "lists_distinct s1" "\<forall>i. \<forall>l \<in> set (lists s0 i) - set (lists s1 i). cleaned s1 l"
    "\<not> fl \<Longrightarrow> i < Suc cat \<Longrightarrow> lists s1 i = []" "fl \<Longrightarrow> \<exists>p. state s1 p = PLUGIN_STATUS_RUNNING"
    "\<not> flag \<Longrightarrow> i < cat \<Longrightarrow> lists s1 i = []"
proof -
  note e = pass_end [OF assms(2), unfolded end_post_def]
  have pr: "proceeds s s1" by (rule pass_end_proceeds [OF assms(2)])
  have other: "i \<noteq> cat \<Longrightarrow> lists s1 i = lists s i" for i using e by simp
  have d: "distinct (lists s cat)" using assms(1) by (simp add: loop_inv_def lists_distinct_def)
  then have dc: "distinct (lists s1 cat)" using e by (auto dest!: spec [of _ "[]"])
  show "lists_distinct s1" unfolding lists_distinct_def
  proof
    fix i show "distinct (lists s1 i)"
      using dc other [of i] assms(1) by (cases "i = cat") (simp_all add: loop_inv_def lists_distinct_def)
  qed
  show "\<forall>i. \<forall>l \<in> set (lists s0 i) - set (lists s1 i). cleaned s1 l"
  proof (intro allI ballI)
    fix i l assume l: "l \<in> set (lists s0 i) - set (lists s1 i)"
    show "cleaned s1 l"
    proof (cases "l \<in> set (lists s i)")
      case True
      with l other [of i] have "i = cat" by (cases "i = cat") auto
      with e l True show ?thesis by auto
    next
      case False
      with l assms(1) have "cleaned s l" by (auto simp: loop_inv_def)
      with pr show ?thesis by (rule proceeds_cleaned)
    qed
  qed
  show empty: "\<not> flag \<Longrightarrow> i < cat \<Longrightarrow> lists s1 i = []" for i
    using assms(1) other [of i] by (simp add: loop_inv_def)
  show "\<not> fl \<Longrightarrow> i < Suc cat \<Longrightarrow> lists s1 i = []"
  proof -
    assume "\<not> fl" "i < Suc cat"
    then have "\<not> flag" "lists s1 cat = []" using e d by (auto dest!: spec [of _ "[]"])
    with \<open>i < Suc cat\<close> empty [of i] show ?thesis by (cases "i = cat") simp_all
  qed
  show "\<exists>p. state s1 p = PLUGIN_STATUS_RUNNING" if "fl"
  proof (cases flag)
    case True
    then obtain p where "state s p = PLUGIN_STATUS_RUNNING" using assms(1) by (auto simp: loop_inv_def)
    moreover have "evolves (s\<lparr>parallel := \<not> exclusive cat\<rparr>) s1" using e by simp
    ultimately show ?thesis using evolves_running [of "s\<lparr>parallel := \<not> exclusive cat\<rparr>" s1 p] by auto
  qed (use e that in auto)
qed

lemma passes_inv:
  assumes "pass\<^sup>*\<^sup>* c c'" "loop_inv s0 c"
  shows "loop_inv s0 c'"
  using assms(1)
proof (induction rule: rtranclp_induct)
  case (step c1 c2)
  from step.hyps(2) show ?case
  proof cases
    case (again cat flag rc s rc' s1 s2)
    note h = loop_inv_scan [OF step.IH [unfolded again(1)] again(4)]
    have w: "lists s2 = lists s1" using again(6) by (simp add: wait_step_def)
    have "\<not> flag" using step.IH again(1,5) by (simp add: loop_inv_def early_iff)
    with h w proceeds_cleaned [OF wait_proceeds [OF again(6)]] show ?thesis
      by (simp add: again(2) loop_inv_def lists_distinct_def)
  next
    case (on cat flag rc s fl rc' s1)
    note h = loop_inv_scan [OF step.IH [unfolded on(1)] on(4)]
    have "cat + 1 \<le> 3 \<Longrightarrow> \<not> fl" using on(5) by (simp add: early_iff)
    with h show ?thesis by (auto simp: on(2) loop_inv_def)
  qed
qed (rule assms(2))

lemma loop_inv_start: "lists_distinct s \<Longrightarrow> loop_inv s (0, False, rc, s)"
  by (simp add: loop_inv_def)

subsection \<open>Answers\<close>

abbreviation passes :: "plugins_scheduler \<Rightarrow> sched_result \<Rightarrow> plugins_scheduler \<Rightarrow> bool" where
  "passes s r s' \<equiv> \<exists>c. pass\<^sup>*\<^sup>* (ACT_INIT, False, int ACT_LAST, s) c \<and> answer c r s'"

lemma scheduler_next_passes:
  assumes "wait_ok wait" and "plugins_scheduler_next wait (Some s) = Some (r, Some s')"
  shows "passes s r s'"
  using assms next_loop_passes [of wait ACT_INIT False "int ACT_LAST" s r s']
  by (auto simp: plugins_scheduler_next_def)

lemma passes_plugin:
  assumes "passes s (Sched_plugin p) s'"
  shows "\<exists>s1. proceeds s s1 \<and> ready s1 p \<and> s' = launch s1 p"
proof -
  from assms obtain c where
    c: "pass\<^sup>*\<^sup>* (ACT_INIT, False, int ACT_LAST, s) c" "answer c (Sched_plugin p) s'" by blast
  from c(2) obtain cat flag rc t s1 where t: "c = (cat, flag, rc, t)"
    and s1: "evolves (t\<lparr>parallel := \<not> exclusive cat\<rparr>) s1" "ready s1 p" "s' = launch s1 p"
    by (elim answer_plugin) (auto dest: scan_list_launch split: if_splits)
  have "proceeds s t" using passes_proceed [OF c(1)] by (simp add: t)
  then have "proceeds s s1"
    using proceeds_trans [OF parallel_proceeds evolves_proceeds [OF s1(1)]] by (rule proceeds_trans)
  with s1 show ?thesis by blast
qed

lemma passes_start:
  assumes "pass\<^sup>*\<^sup>* (ACT_INIT, False, int ACT_LAST, s) c" "lists_distinct s"
  shows "loop_inv s c"
  using passes_inv [OF assms(1)] loop_inv_start [OF assms(2)] by (simp add: ACT_INIT_def)

lemma passes_null:
  assumes "passes s Sched_null s'" and "lists_distinct s" and "i \<le> ACT_LAST"
  shows "lists s' i = []" "l \<in> set (lists s i) \<Longrightarrow> cleaned s' l"
proof -
  from assms(1) obtain c where
    c: "pass\<^sup>*\<^sup>* (ACT_INIT, False, int ACT_LAST, s) c" "answer c Sched_null s'" by blast
  note inv = passes_start [OF c(1) assms(2)]
  from c(2) obtain cat rc where ce: "c = (cat, False, rc, s')" "ACT_LAST < cat"
    by (elim answer_null) (auto split: if_splits)
  show "lists s' i = []" using inv ce assms(3) by (simp add: loop_inv_def)
  then show "l \<in> set (lists s i) \<Longrightarrow> cleaned s' l" using inv ce by (force simp: loop_inv_def)
qed

lemma passes_running:
  assumes "passes s Sched_running s'" and "lists_distinct s"
  shows "\<exists>p. state s' p = PLUGIN_STATUS_RUNNING"
proof -
  from assms(1) obtain c where
    c: "pass\<^sup>*\<^sup>* (ACT_INIT, False, int ACT_LAST, s) c" "answer c Sched_running s'" by blast
  note inv = passes_start [OF c(1) assms(2)]
  from c(2) show ?thesis
  proof cases
    case (busy cat flag rc t rc')
    from loop_inv_scan(4) [OF inv [unfolded busy(1)] busy(3)] show ?thesis by simp
  next
    case (out cat flag rc)
    with inv show ?thesis by (auto simp: loop_inv_def split: if_splits)
  qed
qed

subsection \<open>Properties\<close>

text \<open>
  C5: a plugin that the scheduler hands out had not run before and is marked as running now,
  all its dependencies have ended and are cleaned up, and every other plugin is where it
  was or further on; in particular no other plugin has been started.
\<close>

theorem scheduler_next_safe:
  assumes "wait_ok wait" and "plugins_scheduler_next wait (Some s) = Some (Sched_plugin p, Some s')"
  shows "state s p = PLUGIN_STATUS_UNRUN \<and> state s' p = PLUGIN_STATUS_RUNNING
    \<and> (\<forall>d \<in> deps_of s p. cleaned s' d)
    \<and> (\<forall>q. q \<noteq> p \<longrightarrow> progress (state s q) \<le> progress (state s' q)
         \<and> (state s q = PLUGIN_STATUS_UNRUN \<longleftrightarrow> state s' q = PLUGIN_STATUS_UNRUN))
    \<and> entry s' = entry s"
proof -
  from passes_plugin [OF scheduler_next_passes [OF assms]] obtain s1
    where s1: "proceeds s s1" "ready s1 p" "s' = launch s1 p" by blast
  then have en: "entry s1 = entry s" by (simp add: proceeds_def)
  have up: "state s1 p = PLUGIN_STATUS_UNRUN" using s1(2) by (simp add: ready_def)
  have "cleaned s' d" if "d \<in> deps_of s p" for d
  proof -
    have "cleaned s1 d" using s1(2) that deps_of_frame [OF en] by (simp add: ready_def)
    moreover from this up have "d \<noteq> p" by (auto simp: cleaned_def)
    ultimately show ?thesis by (simp add: s1(3) cleaned_def)
  qed
  with s1(1) up en show ?thesis by (simp add: s1(3) proceeds_def)
qed

text \<open>
  The scheduler answers NULL only when all its lists are empty and every plugin that was
  in one of them has run to its end.
\<close>

theorem scheduler_next_null_done:
  assumes "wait_ok wait" and "lists_distinct s"
    and "plugins_scheduler_next wait (Some s) = Some (Sched_null, Some s')"
  shows "\<forall>i \<le> ACT_LAST. lists s' i = [] \<and> (\<forall>l \<in> set (lists s i). cleaned s' l)"
  using passes_null [OF scheduler_next_passes [OF assms(1,3)] assms(2)] by blast

text \<open>
  The scheduler answers that something is still running only when a plugin is: its caller
  never waits in vain.
\<close>

theorem scheduler_next_running_alive:
  assumes "wait_ok wait" and "lists_distinct s"
    and "plugins_scheduler_next wait (Some s) = Some (Sched_running, Some s')"
  shows "\<exists>p. state s' p = PLUGIN_STATUS_RUNNING"
  by (rule passes_running [OF scheduler_next_passes [OF assms(1,3)] assms(2)])

text \<open>
  The search for a dependency that has not run returns whenever the dependencies are not
  circular, and then it answers with a plugin that can be started, or that one of the
  dependencies (or one of theirs) is running, or that all of them have ended.
\<close>

theorem next_dependency_total:
  assumes "ranked rk s"
  shows "\<exists>r s'. plugin_next_unrun_dependencie s (Some ds) = Some (r, s') \<and> evolves s s'
    \<and> (case r of Sched_null \<Rightarrow> (\<forall>d \<in> set ds. cleaned s' d)
       | Sched_running \<Rightarrow> (\<exists>p. state s' p = PLUGIN_STATUS_RUNNING)
       | Sched_plugin p \<Rightarrow> ready s' p)"
proof -
  from next_dep_returns_ranked [OF assms] obtain r s' where n: "next_dep s ds False = Some (r, s')" by blast
  with next_dep_correct [OF n] show ?thesis
    by (intro exI [of _ r] exI [of _ s']) (cases r; simp add: plugin_next_unrun_dependencie_def)
qed

text \<open>
  On plugins that have not run and depend on each other in a circle the search does not
  return; nothing else in the scheduler breaks such circles.
\<close>

theorem next_dependency_circular_diverges:
  assumes "circular s C" and "c \<in> C"
  shows "plugin_next_unrun_dependencie s (Some (c # ds)) = None"
  using next_dep_diverges [OF assms] by (simp add: plugin_next_unrun_dependencie_def)

text \<open>A scheduler for the examples: \<open>n\<close> plugins in list 3, with given dependencies and states.\<close>

definition example ::
  "nat \<Rightarrow> (nat \<Rightarrow> nat list option) \<Rightarrow> (nat \<Rightarrow> plugin_status) \<Rightarrow> plugins_scheduler" where
  "example n deps st =
     (let s = empty_scheduler [] cache_start in
      s\<lparr>plugin := (\<lambda>p. (plugin s p)\<lparr>running_state := st p, category := 3\<rparr>),
         entry := (\<lambda>p. (entry s p)\<lparr>dependencies_ptr := deps p\<rparr>),
         lists := (\<lambda>i. if i = 3 then [0..<n] else [])\<rparr>)"

lemma wait_ok_id: "wait_ok id"
  by (simp add: wait_ok_def wait_step_def)

lemma example_distinct: "lists_distinct (example n deps st)"
  by (simp add: lists_distinct_def example_def Let_def)

theorem scheduler_next_safe_witness:
  "\<exists>s'. plugins_scheduler_next id (Some (example 3 [0 \<mapsto> [1], 1 \<mapsto> [2]]
        (\<lambda>p. if p = 2 then PLUGIN_STATUS_DONE else PLUGIN_STATUS_UNRUN))) = Some (Sched_plugin 1, Some s')
     \<and> state s' 1 = PLUGIN_STATUS_RUNNING \<and> cleaned s' 2 \<and> state s' 0 = PLUGIN_STATUS_UNRUN"
proof -
  let ?st = "\<lambda>p. if p = (2 :: nat) then PLUGIN_STATUS_DONE else PLUGIN_STATUS_UNRUN"
  let ?s = "example 3 [0 \<mapsto> [1], 1 \<mapsto> [2]] ?st"
  have "map_option fst (plugins_scheduler_next id (Some ?s)) = Some (Sched_plugin 1)" by code_simp
  then obtain t where t: "plugins_scheduler_next id (Some ?s) = Some (Sched_plugin 1, t)" by auto
  then obtain s' where s': "plugins_scheduler_next id (Some ?s) = Some (Sched_plugin 1, Some s')"
    by (auto simp: plugins_scheduler_next_def)
  have "deps_of ?s 1 = {2}" "state ?s 0 = PLUGIN_STATUS_UNRUN"
    by (simp_all add: deps_of_def example_def Let_def)
  with scheduler_next_safe [OF wait_ok_id s'] s' show ?thesis by auto
qed

theorem scheduler_next_null_done_witness:
  "\<exists>s'. plugins_scheduler_next id (Some (example 2 Map.empty (\<lambda>_. PLUGIN_STATUS_DONE))) = Some (Sched_null, Some s')
     \<and> lists s' 3 = [] \<and> cleaned s' 0 \<and> cleaned s' 1"
proof -
  let ?s = "example 2 Map.empty (\<lambda>_. PLUGIN_STATUS_DONE)"
  have "map_option fst (plugins_scheduler_next id (Some ?s)) = Some Sched_null" by code_simp
  then obtain s' where s': "plugins_scheduler_next id (Some ?s) = Some (Sched_null, Some s')"
    by (auto simp: plugins_scheduler_next_def)
  have "lists ?s 3 = [0, 1]" by (simp add: example_def Let_def upt_rec)
  moreover have "lists s' 3 = [] \<and> (\<forall>l \<in> set (lists ?s 3). cleaned s' l)"
    using scheduler_next_null_done [OF wait_ok_id example_distinct s', THEN spec [of _ 3]] by (simp add: ACT_LAST_def)
  ultimately show ?thesis using s' by auto
qed

theorem scheduler_next_running_alive_witness:
  "\<exists>s'. plugins_scheduler_next id (Some (example 2 [0 \<mapsto> [1]]
       (\<lambda>p. if p = 0 then PLUGIN_STATUS_UNRUN else PLUGIN_STATUS_RUNNING))) = Some (Sched_running, Some s')
     \<and> (\<exists>p. state s' p = PLUGIN_STATUS_RUNNING)"
proof -
  let ?s = "example 2 [0 \<mapsto> [1]] (\<lambda>p. if p = 0 then PLUGIN_STATUS_UNRUN else PLUGIN_STATUS_RUNNING)"
  have "map_option fst (plugins_scheduler_next id (Some ?s)) = Some Sched_running" by code_simp
  then obtain s' where s': "plugins_scheduler_next id (Some ?s) = Some (Sched_running, Some s')"
    by (auto simp: plugins_scheduler_next_def)
  with scheduler_next_running_alive [OF wait_ok_id example_distinct s'] show ?thesis by blast
qed

theorem next_dependency_total_witness:
  "\<exists>r s'. plugin_next_unrun_dependencie (example 2 [0 \<mapsto> [1]] (\<lambda>_. PLUGIN_STATUS_UNRUN)) (Some [0]) = Some (r, s')"
proof -
  let ?s = "example 2 [0 \<mapsto> [1]] (\<lambda>_. PLUGIN_STATUS_UNRUN)"
  have "ranked (\<lambda>p. if p = 0 then 1 else 0) ?s"
    by (auto simp: ranked_def deps_of_def example_def Let_def split: option.splits if_splits)
  from next_dependency_total [OF this] show ?thesis by blast
qed

theorem next_dependency_circular_diverges_witness:
  "plugin_next_unrun_dependencie (example 2 [0 \<mapsto> [1], 1 \<mapsto> [0]] (\<lambda>_. PLUGIN_STATUS_UNRUN)) (Some [0]) = None"
proof (rule next_dependency_circular_diverges)
  show "circular (example 2 [0 \<mapsto> [1], 1 \<mapsto> [0]] (\<lambda>_. PLUGIN_STATUS_UNRUN)) {0, 1}"
    by (auto simp: circular_def example_def Let_def)
qed simp

subsection \<open>Ports in use\<close>

text \<open>The number of uses of a port, and the counter that the list approximates: names of any length.\<close>

definition uses :: "(string \<times> int) list \<Rightarrow> string \<Rightarrow> int" where
  "uses pl n = (case map_of pl n of None \<Rightarrow> 0 | Some k \<Rightarrow> k)"

definition mark_exact :: "(string \<times> int) list \<Rightarrow> string \<Rightarrow> (string \<times> int) list" where
  "mark_exact pl n = (case pl_get pl n of Some _ \<Rightarrow> occ_change n 1 pl | None \<Rightarrow> (n, 1) # pl)"

lemma pl_get_map_of: "pl_get pl n = map_option (Pair n) (map_of pl n)"
  by (simp add: pl_get_def find_fst_map_of)

interpretation used_ports: ref_counter mark_exact rm_port uses bucket_ok
proof unfold_locales
  fix pl :: "(string \<times> int) list" and n m assume ok: "bucket_ok pl"
  then have d: "distinct (map fst pl)" by (simp add: bucket_ok_def)
  show "bucket_ok (mark_exact pl n)"
    using ok by (auto simp: mark_exact_def pl_get_map_of occ_change_bucket_ok bucket_ok_add split: option.splits)
  show "bucket_ok (rm_port pl n)"
    using ok by (auto simp: rm_port_def occ_change_bucket_ok split: option.splits)
  show "0 \<le> uses pl n" using bucket_ok_pos [OF ok] by (force simp: uses_def split: option.splits)
  show "uses (mark_exact pl n) m = uses pl m + (if m = n then 1 else 0)"
    using bucket_ok_pos [OF ok, of n]
    by (auto simp: uses_def mark_exact_def pl_get_map_of map_of_occ_change [OF d] split: option.splits)
  show "uses (rm_port pl n) m = (if m = n \<and> 0 < uses pl n then uses pl n - 1 else uses pl m)"
    using bucket_ok_pos [OF ok, of n]
    by (auto simp: uses_def rm_port_def pl_get_map_of map_of_occ_change [OF d] split: option.splits)
qed

lemma mark_ports_exact:
  "(\<And>n. n \<in> set ps \<Longrightarrow> length n \<le> 63) \<Longrightarrow> foldl mark_port pl ps = foldl mark_exact pl ps"
proof (induction ps arbitrary: pl)
  case (Cons a ps)
  from Cons.prems [of a] have eq: "take 63 a = a" by simp
  have "mark_port pl a = mark_exact pl a" unfolding mark_port_def mark_exact_def eq ..
  with Cons show ?case by simp
qed simp

text \<open>
  Marking the ports of a plugin adds one use for each of them, and removing them when the
  plugin has ended restores every counter, provided their names have at most 63 characters.
\<close>

theorem running_ports_balanced:
  assumes "bucket_ok (plist s)" and "ports (entry s p) = Some ps" and "\<forall>n \<in> set ps. length n \<le> 63"
  shows "uses (plist (scheduler_mark_running_ports s p)) m = uses (plist s) m + int (count (mset ps) m)
    \<and> uses (plist (scheduler_rm_running_ports (scheduler_mark_running_ports s p) p)) m = uses (plist s) m"
proof -
  have "foldl mark_port (plist s) ps = foldl mark_exact (plist s) ps"
    using assms(3) by (intro mark_ports_exact) blast
  with assms(2) used_ports.cnt_incs [OF assms(1), of ps m] used_ports.take_and_drop [OF assms(1) refl, of ps m]
  show ?thesis by (simp add: scheduler_mark_running_ports_def scheduler_rm_running_ports_def)
qed

theorem running_ports_balanced_witness:
  "uses (plist (scheduler_mark_running_ports
      ((example 1 Map.empty (\<lambda>_. PLUGIN_STATUS_UNRUN))\<lparr>entry := \<lambda>_. \<lparr>hash_name = [], dependencies = None,
        num_deps = 0, dependencies_ptr = None, ports = Some [''80'', ''443'', ''80'']\<rparr>\<rparr>) 0)) ''80'' = 2"
proof -
  let ?e = "\<lparr>hash_name = [], dependencies = None, num_deps = 0, dependencies_ptr = None,
     ports = Some [''80'', ''443'', ''80'']\<rparr>"
  let ?s = "(example 1 Map.empty (\<lambda>_. PLUGIN_STATUS_UNRUN))\<lparr>entry := \<lambda>_. ?e\<rparr>"
  have pl: "plist ?s = []" by (simp add: example_def empty_scheduler_def Let_def)
  have "bucket_ok (plist ?s)" unfolding pl by (simp add: bucket_ok_def)
  moreover have "ports (entry ?s 0) = Some [''80'', ''443'', ''80'']" by simp
  ultimately show ?thesis
    using running_ports_balanced [of ?s 0 "[''80'', ''443'', ''80'']" "''80''"] unfolding pl by (simp add: uses_def)
qed

text \<open>
  A port name of more than 63 characters is entered cut off, is not found again under its
  full name, and stays in the list when the plugin has ended.
\<close>

theorem long_port_name_leaks:
  assumes "63 < length n" and "ports (entry s p) = Some [n]" and "n \<notin> fst ` set (plist s)"
  shows "plist (scheduler_rm_running_ports (scheduler_mark_running_ports s p) p) = (take 63 n, 1) # plist s"
proof -
  have "map_of (plist s) n = None" using assms(3) by (simp add: map_of_eq_None_iff)
  moreover have ne: "take 63 n \<noteq> n" using assms(1) by (metis length_take min.absorb4 nat_neq_iff)
  ultimately show ?thesis
    using assms(2) ne [symmetric] by (simp add: scheduler_mark_running_ports_def scheduler_rm_running_ports_def mark_port_def
        rm_port_def pl_get_map_of)
qed

theorem long_port_name_leaks_witness:
  "plist (scheduler_rm_running_ports (scheduler_mark_running_ports
      ((example 1 Map.empty (\<lambda>_. PLUGIN_STATUS_UNRUN))\<lparr>entry := \<lambda>_. \<lparr>hash_name = [], dependencies = None,
        num_deps = 0, dependencies_ptr = None, ports = Some [replicate 70 CHR ''x'']\<rparr>\<rparr>) 0) 0)
    = [(replicate 63 CHR ''x'', 1)]"
proof -
  let ?e = "\<lparr>hash_name = [], dependencies = None, num_deps = 0, dependencies_ptr = None,
     ports = Some [replicate 70 CHR ''x'']\<rparr>"
  let ?s = "(example 1 Map.empty (\<lambda>_. PLUGIN_STATUS_UNRUN))\<lparr>entry := \<lambda>_. ?e\<rparr>"
  have pl: "plist ?s = []" by (simp add: example_def empty_scheduler_def Let_def)
  show ?thesis using long_port_name_leaks [of "replicate 70 CHR ''x''" ?s 0] unfolding pl by simp
qed

subsection \<open>The initial state\<close>

definition fresh :: "nat \<Rightarrow> plugins_scheduler \<Rightarrow> bool" where
  "fresh k s \<longleftrightarrow> (\<forall>p. state s p = PLUGIN_STATUS_UNRUN)
     \<and> (\<forall>i. distinct (lists s i) \<and> set (lists s i) \<subseteq> {..<k}
          \<and> (\<forall>p \<in> set (lists s i). int i = min (int ACT_LAST) (category (plugin s p))))"

lemma hash_add_frame [simp]:
  "plugin (hash_add gsh strsplit nvti s name p) = plugin s" "lists (hash_add gsh strsplit nvti s name p) = lists s"
  "args (hash_add gsh strsplit nvti s name p) = args s"
  by (simp_all add: hash_add_def Let_def split: prod.splits)

lemma add_plugin_effect:
  assumes "add_plugin gsh strsplit nvticache s k = Some s'"
  obtains i where "i = min (int ACT_LAST) (category (plugin s' k))" "0 \<le> i" "state s' k = PLUGIN_STATUS_UNRUN"
    "\<And>p. p \<noteq> k \<Longrightarrow> plugin s' p = plugin s p" "lists s' = (lists s)(nat i := k # lists s (nat i))" "args s' = args s"
proof -
  from assms obtain oid where oid: "pa_oid (args s k) = Some oid" by (auto simp: add_plugin_def split: option.splits)
  define cat where "cat = nvti_category (nvticache oid)"
  define i where "i = (if cat > int ACT_LAST then int ACT_LAST else cat)"
  obtain sp c where s': "\<not> i < 0" "category sp = cat" "running_state sp = PLUGIN_STATUS_UNRUN"
    "s' = hash_add gsh strsplit (nvticache oid) (s\<lparr>plugin := (plugin s)(k := sp),
                   lists := (lists s)(nat i := k # lists s (nat i)), cache := c\<rparr>) (pa_name (args s k)) k"
    using assms unfolding add_plugin_def oid option.case Let_def case_prod_beta cat_def [symmetric] i_def [symmetric]
    by (metis option.distinct(1) option.inject scheduler_plugin.select_convs(1,2))
  show thesis
    by (rule that [of i]) (use s' in \<open>simp_all add: i_def\<close>)
qed

lemma add_plugin_fresh:
  assumes "fresh k s" "add_plugin gsh strsplit nvticache s k = Some s'"
  shows "fresh (Suc k) s' \<and> args s' = args s"
proof -
  from add_plugin_effect [OF assms(2)] obtain i where s': "i = min (int ACT_LAST) (category (plugin s' k))"
    "0 \<le> i" "state s' k = PLUGIN_STATUS_UNRUN" "\<And>p. p \<noteq> k \<Longrightarrow> plugin s' p = plugin s p"
    "lists s' = (lists s)(nat i := k # lists s (nat i))" "args s' = args s" by blast
  have k: "k \<notin> set (lists s j)" for j using assms(1) by (auto simp: fresh_def)
  have fr: "distinct (lists s j)" "set (lists s j) \<subseteq> {..<k}"
      "p \<in> set (lists s j) \<Longrightarrow> int j = min (int ACT_LAST) (category (plugin s p))" for j p
    using assms(1) by (simp_all add: fresh_def)
  have "distinct (lists s' j) \<and> set (lists s' j) \<subseteq> {..<Suc k}
      \<and> (\<forall>p \<in> set (lists s' j). int j = min (int ACT_LAST) (category (plugin s' p)))" for j
  proof (intro conjI ballI)
    show "distinct (lists s' j)" using fr(1) k by (simp add: s'(5))
    show "set (lists s' j) \<subseteq> {..<Suc k}" using fr(2) [of j] by (auto simp: s'(5) split: if_splits)
    fix p assume p: "p \<in> set (lists s' j)"
    show "int j = min (int ACT_LAST) (category (plugin s' p))"
    proof (cases "p = k")
      case True
      with p k [of j] have "j = nat i" by (simp add: s'(5) split: if_splits)
      with True s'(1,2) show ?thesis by simp
    next
      case False
      with p have "p \<in> set (lists s j)" by (auto simp: s'(5) split: if_splits)
      from fr(3) [OF this] False show ?thesis by (simp add: s'(4))
    qed
  qed
  moreover have "state s' p = PLUGIN_STATUS_UNRUN" for p
    using assms(1) s'(3) s'(4) [of p] by (cases "p = k") (simp_all add: fresh_def)
  ultimately show ?thesis using s'(6) by (simp add: fresh_def)
qed

lemma add_plugins_fresh:
  "fresh k s \<Longrightarrow> add_plugins gsh strsplit nvticache [k..<n] s = Some s' \<Longrightarrow> k \<le> n \<Longrightarrow> fresh n s' \<and> args s' = args s"
proof (induction "n - k" arbitrary: k s)
  case (Suc d)
  then have "[k..<n] = k # [Suc k..<n]" by (simp add: upt_conv_Cons)
  with Suc.prems(2) obtain s1 where s1: "add_plugin gsh strsplit nvticache s k = Some s1"
    "add_plugins gsh strsplit nvticache [Suc k..<n] s1 = Some s'" by (auto split: bind_splits)
  from add_plugin_fresh [OF Suc.prems(1) s1(1)] Suc.hyps(1) [of "Suc k" s1] Suc.hyps(2) s1(2) show ?case by auto
qed simp

lemma fill_deps_frame [simp]:
  "plugin (hash_fill_deps gsh dirname build s l) = plugin s" "lists (hash_fill_deps gsh dirname build s l) = lists s"
  "args (hash_fill_deps gsh dirname build s l) = args s"
  by (simp_all add: hash_fill_deps_def Let_def)

lemma foldl_frame: "(\<And>s x. f (g s x) = f s) \<Longrightarrow> f (foldl g s xs) = f s"
  by (induction xs arbitrary: s) auto

lemma fill_all_frame:
  "plugin (fill_all gsh dirname build s) = plugin s" "lists (fill_all gsh dirname build s) = lists s"
  "args (fill_all gsh dirname build s) = args s"
  unfolding fill_all_def
  by (rule foldl_frame [of plugin], rule foldl_frame [of plugin], simp)
     (rule foldl_frame [of lists], rule foldl_frame [of lists], simp,
      rule foldl_frame [of args], rule foldl_frame [of args], simp)

lemma enable_plugin_frame [simp]:
  "plugin (enable_plugin s p) = plugin s" "lists (enable_plugin s p) = lists s"
  "entry (enable_plugin s p) = entry s"
  by (simp_all add: enable_plugin_def plug_set_launch_def)

definition same_plugins :: "plugins_scheduler \<Rightarrow> plugins_scheduler \<Rightarrow> bool" where
  "same_plugins s s' \<longleftrightarrow> plugin s' = plugin s \<and> lists s' = lists s \<and> entry s' = entry s"

lemma same_plugins_enable: "same_plugins s (enable_plugin s p)"
  by (simp add: same_plugins_def)

lemma same_plugins_trans: "same_plugins a b \<Longrightarrow> same_plugins b c \<Longrightarrow> same_plugins a c"
  by (simp add: same_plugins_def)

lemma enable_deps_frame:
  assumes "enable_deps gsh st ps = Some st'"
  shows "same_plugins (fst st) (fst st')"
proof (rule enable_deps.raw_induct [where P = "\<lambda>gsh st ps st'. same_plugins (fst st) (fst st')", OF _ assms])
  fix f gsh st ps st'
  assume IH: "\<And>gsh st ps st'. f gsh st ps = Some st' \<Longrightarrow> same_plugins (fst st) (fst st')"
    and r: "(case ps of [] \<Rightarrow> Some st
      | p # ps \<Rightarrow>
          (if pa_name (args (fst st) p) \<in> set (snd st) then f gsh st ps
           else Option.bind
             (f gsh (enable_plugin (fst st) p, pa_name (args (fst st) p) # snd st)
                (case hash_get_deps_ptr gsh (fst st) (pa_name (args (fst st) p)) of None \<Rightarrow> [] | Some dd \<Rightarrow> dd))
             (\<lambda>st. f gsh st ps))) = Some st'"
  show "same_plugins (fst st) (fst st')"
  proof (cases ps)
    case Nil
    with r show ?thesis by (simp add: same_plugins_def)
  next
    case (Cons p ps')
    show ?thesis
    proof (cases "pa_name (args (fst st) p) \<in> set (snd st)")
      case True
      with r Cons show ?thesis by (simp add: IH)
    next
      case False
      with r Cons obtain st1 where "f gsh (enable_plugin (fst st) p, pa_name (args (fst st) p) # snd st)
         (case hash_get_deps_ptr gsh (fst st) (pa_name (args (fst st) p)) of None \<Rightarrow> [] | Some dd \<Rightarrow> dd) = Some st1"
        "f gsh st1 ps' = Some st'" by (auto simp: bind_eq_Some_conv)
      from this [THEN IH] same_plugins_enable [of "fst st" p] show ?thesis
        by (auto intro: same_plugins_trans)
    qed
  qed
qed

lemma autoload_frame:
  "autoload_all gsh ps s = Some s' \<Longrightarrow> same_plugins s s'"
proof (induction gsh ps s arbitrary: s' rule: autoload_all.induct)
  case (2 gsh p ps s)
  show ?case
  proof (cases "plug_get_launch s p \<noteq> LAUNCH_DISABLED")
    case True
    with "2.prems" obtain s1 where s1: "enable_plugin_and_dependencies gsh s p = Some s1"
      "autoload_all gsh ps s1 = Some s'" by (auto split: bind_splits)
    then have "same_plugins s s1"
      using enable_deps_frame [of gsh "(s, [])" "[p]"] by (auto simp: enable_plugin_and_dependencies_def)
    with "2.IH"(1) [OF True s1] show ?thesis by (blast intro: same_plugins_trans)
  qed (use 2 in simp)
qed (simp add: same_plugins_def)

text \<open>
  A new scheduler lists each of its plugins once, in the list of its category (the last
  list for larger categories), only plugins that are enabled, and none of them has run;
  with \<open>only_network\<close> the lists from the information gathering plugins on are empty.
\<close>

theorem scheduler_init_lists:
  assumes "plugins_scheduler_init gsh strsplit dirname build nvticache c (Some pas) autoload only_network = Some (Some s)"
  shows "lists_distinct s \<and> (\<forall>i \<le> ACT_LAST. \<forall>p \<in> set (lists s i). p < length pas
      \<and> state s p = PLUGIN_STATUS_UNRUN \<and> plug_get_launch s p \<noteq> LAUNCH_DISABLED
      \<and> int i = min (int ACT_LAST) (category (plugin s p))
      \<and> (only_network \<noteq> 0 \<longrightarrow> i < ACT_GATHER_INFO))"
proof -
  from assms obtain s1 s3 where s1: "add_plugins gsh strsplit nvticache [0..<length pas] (empty_scheduler pas c) = Some s1"
    and s3: "(if autoload \<noteq> 0 then autoload_all gsh [0..<length pas] (fill_all gsh dirname build s1)
              else Some (fill_all gsh dirname build s1)) = Some s3"
    and s: "s = (if only_network \<noteq> 0
          then (drop_disabled s3)\<lparr>lists := (\<lambda>i. if ACT_GATHER_INFO \<le> i \<and> i \<le> ACT_LAST then [] else lists (drop_disabled s3) i)\<rparr>
          else drop_disabled s3)"
    by (auto simp: plugins_scheduler_init_def Let_def split: bind_splits)
  have "fresh 0 (empty_scheduler pas c)" by (simp add: fresh_def empty_scheduler_def)
  with add_plugins_fresh [of 0 _ gsh strsplit nvticache "length pas"] s1 have f1: "fresh (length pas) s1" by simp
  have "plugin s3 = plugin s1 \<and> lists s3 = lists s1"
    using s3 autoload_frame [of gsh _ "fill_all gsh dirname build s1" s3] fill_all_frame [of gsh dirname build s1]
    by (auto simp: same_plugins_def split: if_splits)
  with f1 have f3: "fresh (length pas) s3" by (simp add: fresh_def)
  then have "fresh (length pas) s" by (auto simp: s fresh_def drop_disabled_def)
  moreover have "plug_get_launch s p \<noteq> LAUNCH_DISABLED \<and> (only_network \<noteq> 0 \<longrightarrow> i < ACT_GATHER_INFO)"
    if "i \<le> ACT_LAST" "p \<in> set (lists s i)" for i p
    using that by (auto simp: s drop_disabled_def plug_get_launch_def split: if_splits)
  ultimately show ?thesis by (auto simp: fresh_def lists_distinct_def)
qed

theorem scheduler_init_lists_witness:
  "\<exists>s. plugins_scheduler_init (\<lambda>_. 0) (\<lambda>_ _. []) (\<lambda>_. ''.'') (\<lambda>_ n. n)
      (\<lambda>_. \<lparr>nvti_category = 6, nvti_timeout = 0, nvti_dependencies = None, nvti_required_ports = None,
        nvti_required_udp_ports = None, nvti_required_keys = None, nvti_mandatory_keys = None,
        nvti_excluded_keys = None\<rparr>) cache_start (Some [\<lparr>pa_name = ''a'', pa_oid = Some ''1'', pa_launch = 1\<rparr>]) 0 0
      = Some (Some s) \<and> lists s 6 = [0] \<and> lists_distinct s \<and> state s 0 = PLUGIN_STATUS_UNRUN"
proof -
  let ?nv = "\<lambda>_. \<lparr>nvti_category = 6, nvti_timeout = 0, nvti_dependencies = None, nvti_required_ports = None,
        nvti_required_udp_ports = None, nvti_required_keys = None, nvti_mandatory_keys = None,
        nvti_excluded_keys = None\<rparr>"
  let ?pa = "[\<lparr>pa_name = ''a'', pa_oid = Some ''1'', pa_launch = 1\<rparr>]"
  obtain s1 where s1: "add_plugins (\<lambda>_. 0) (\<lambda>_ _. []) ?nv [0..<length ?pa] (empty_scheduler ?pa cache_start) = Some s1"
    "lists s1 6 = [0]" "plug_get_launch s1 0 = 1"
    by (simp add: add_plugin_def Let_def str2arglist_def empty_scheduler_def act_defs plug_get_launch_def)
  let ?s2 = "drop_disabled (fill_all (\<lambda>_. 0) (\<lambda>_. ''.'') (\<lambda>_ n. n) s1)"
  have init: "plugins_scheduler_init (\<lambda>_. 0) (\<lambda>_ _. []) (\<lambda>_. ''.'') (\<lambda>_ n. n) ?nv cache_start (Some ?pa) 0 0
      = Some (Some ?s2)"
    unfolding plugins_scheduler_init_def option.case s1(1) by (simp add: Let_def)
  have "lists ?s2 6 = [0]"
    using s1(2,3) by (simp add: drop_disabled_def plug_get_launch_def fill_all_frame act_defs LAUNCH_DISABLED_def)
  moreover note safe = scheduler_init_lists [OF init]
  moreover have "state ?s2 0 = PLUGIN_STATUS_UNRUN"
    using conjunct2 [OF safe, rule_format, of 6 0] \<open>lists ?s2 6 = [0]\<close> by (simp add: act_defs)
  ultimately show ?thesis using init by blast
qed

end
