(* ===== verification/Ipc.thy ===== *)
theory Ipc
  imports Prelude
begin

text \<open>
  The messages between the scanner processes, \<open>os_send\<close>, \<open>os_recv\<close>, \<open>internal_send\<close> and
  \<open>internal_recv\<close> of \<open>openvas-libraries/misc/network.c\<close>.

  A socket is a record of what the calls of \<open>recv\<close> and \<open>send\<close> on it return, in order, and of
  the bytes that have been sent. A call of \<open>recv\<close> is interrupted, fails, or delivers from the
  next chunk at most as many bytes as are asked for; after the last event the peer is gone. A
  call of \<open>send\<close> is interrupted, fails, or takes a number of bytes; after the last event
  everything is taken at once. Bytes are characters, an \<open>int\<close> is four of them, the lowest first.
\<close>

subsection \<open>Sockets\<close>

datatype rx_event = Rx_intr | Rx_fail | Rx string

datatype tx_event = Tx_intr | Tx_fail | Tx nat

record conn =
  rx :: "rx_event list"
  tx :: "tx_event list"
  sent :: string

function os_recv :: "nat \<Rightarrow> rx_event list \<Rightarrow> string option \<times> rx_event list" where
  "os_recv 0 q = (Some [], q)"
| "os_recv (Suc n) [] = (None, [])"
| "os_recv (Suc n) (Rx_intr # q) = os_recv (Suc n) q"
| "os_recv (Suc n) (Rx_fail # q) = (None, q)"
| "os_recv (Suc n) (Rx c # q) =
     (if c = [] then (None, q)
      else
        let k = min (Suc n) (length c);
            (r, q) = os_recv (Suc n - k) (if k < length c then Rx (drop k c) # q else q)
        in (map_option (append (take k c)) r, q))"
  by pat_completeness auto
termination
  by (relation "measure (\<lambda>(n, q). n + length q)") (auto simp: min_def)

function os_send :: "string \<Rightarrow> tx_event list \<Rightarrow> bool \<times> string \<times> tx_event list" where
  "os_send [] q = (True, [], q)"
| "os_send (b # bs) [] = (True, b # bs, [])"
| "os_send (b # bs) (Tx_intr # q) = os_send (b # bs) q"
| "os_send (b # bs) (Tx_fail # q) = (False, [], q)"
| "os_send (b # bs) (Tx k # q) =
     (if k = 0 then (False, [], q)
      else let (ok, s, q) = os_send (drop k (b # bs)) q in (ok, take k (b # bs) @ s, q))"
  by pat_completeness auto
termination
  by (relation "measure (\<lambda>(bs, q). length q)") auto

definition conn_send :: "conn \<Rightarrow> string \<Rightarrow> bool \<times> conn" where
  "conn_send c bs = (let (ok, s, q) = os_send bs (tx c) in (ok, c\<lparr>tx := q, sent := sent c @ s\<rparr>))"

definition conn_recv :: "conn \<Rightarrow> nat \<Rightarrow> string option \<times> conn" where
  "conn_recv c n = (let (r, q) = os_recv n (rx c) in (r, c\<lparr>rx := q\<rparr>))"

subsection \<open>Messages\<close>

definition INTERNAL_COMM_MSG_TYPE_CTRL :: u32 where "INTERNAL_COMM_MSG_TYPE_CTRL = push_bit 16 1"
definition INTERNAL_COMM_MSG_TYPE_KB :: u32 where "INTERNAL_COMM_MSG_TYPE_KB = push_bit 17 1"
definition INTERNAL_COMM_MSG_TYPE_DATA :: u32 where "INTERNAL_COMM_MSG_TYPE_DATA = push_bit 18 1"
definition INTERNAL_COMM_KB_REPLACE :: u32 where "INTERNAL_COMM_KB_REPLACE = 1"
definition INTERNAL_COMM_KB_GET :: u32 where "INTERNAL_COMM_KB_GET = 2"
definition INTERNAL_COMM_KB_SENDING_INT :: u32 where "INTERNAL_COMM_KB_SENDING_INT = 4"
definition INTERNAL_COMM_KB_SENDING_STR :: u32 where "INTERNAL_COMM_KB_SENDING_STR = 8"
definition INTERNAL_COMM_KB_ERROR :: u32 where "INTERNAL_COMM_KB_ERROR = 16"
definition INTERNAL_COMM_CTRL_FINISHED :: u32 where "INTERNAL_COMM_CTRL_FINISHED = 1"
definition INTERNAL_COMM_CTRL_ACK :: u32 where "INTERNAL_COMM_CTRL_ACK = 2"

lemmas comm_defs = INTERNAL_COMM_MSG_TYPE_CTRL_def INTERNAL_COMM_MSG_TYPE_KB_def
  INTERNAL_COMM_MSG_TYPE_DATA_def INTERNAL_COMM_KB_REPLACE_def INTERNAL_COMM_KB_GET_def
  INTERNAL_COMM_KB_SENDING_INT_def INTERNAL_COMM_KB_SENDING_STR_def INTERNAL_COMM_KB_ERROR_def
  INTERNAL_COMM_CTRL_FINISHED_def INTERNAL_COMM_CTRL_ACK_def

definition has :: "u32 \<Rightarrow> u32 \<Rightarrow> bool" where
  "has w m \<longleftrightarrow> w AND m \<noteq> 0"

definition int_bytes :: "u32 \<Rightarrow> string" where
  "int_bytes w = map (\<lambda>i. char_of (unat w div 256 ^ i)) [0, 1, 2, 3]"

definition bytes_int :: "string \<Rightarrow> u32" where
  "bytes_int bs = of_nat (\<Sum>i \<leftarrow> [0..<4]. of_char (bs ! i) * 256 ^ i)"

text \<open>
  \<open>internal_send\<close>: the type, for other than control messages the length and the text, then
  the answer of the receiver is read and dropped.
\<close>

definition internal_send :: "conn \<Rightarrow> string option \<Rightarrow> u32 \<Rightarrow> int \<times> conn" where
  "internal_send c data msg_type =
     (let data = (case data of None \<Rightarrow> [] | Some d \<Rightarrow> d);
          (ok, c) = conn_send c (int_bytes msg_type)
      in if \<not> ok then (-1, c)
      else
        let (ok, c) =
              (if has msg_type INTERNAL_COMM_MSG_TYPE_CTRL then (True, c)
               else let (ok, c) = conn_send c (int_bytes (of_nat (length data)))
                    in if \<not> ok then (False, c) else conn_send c data)
        in if \<not> ok then (-1, c)
        else case conn_recv c 4 of (None, c) \<Rightarrow> (-1, c) | (Some ack, c) \<Rightarrow> (0, c))"

text \<open>
  \<open>internal_recv\<close> with \<open>*data\<close> (the text in the buffer, NULL for none), \<open>*data_sz\<close> and
  \<open>*msg_type\<close> as arguments and results. A text that is not empty replaces the text in the
  buffer. (The length INT_MAX, for which \<open>erealloc\<close> ends the process, is not set apart.)
\<close>

record received =
  ret :: int
  buf :: "string option"
  sz :: int
  mtype :: u32

definition recv_error :: "u32 \<Rightarrow> received" where
  "recv_error type = \<lparr>ret = -1, buf = None, sz = 0, mtype = type\<rparr>"

definition recv_ack :: "conn \<Rightarrow> received \<Rightarrow> received \<times> conn" where
  "recv_ack c r =
     (let (ok, c) = conn_send c (int_bytes (INTERNAL_COMM_MSG_TYPE_CTRL OR INTERNAL_COMM_CTRL_ACK))
      in (if ok then r else recv_error (mtype r), c))"

definition internal_recv :: "conn \<Rightarrow> string option \<Rightarrow> int \<Rightarrow> u32 \<Rightarrow> received \<times> conn" where
  "internal_recv c data data_sz msg_type =
     (let (b, z) = (case data of None \<Rightarrow> ([], 65535) | Some d \<Rightarrow> (d, data_sz)) in
      case conn_recv c 4 of
        (None, c) \<Rightarrow> (recv_error msg_type, c)
      | (Some t, c) \<Rightarrow>
          let type = bytes_int t in
          if has type INTERNAL_COMM_MSG_TYPE_CTRL
          then recv_ack c \<lparr>ret = 0, buf = data, sz = data_sz, mtype = type\<rparr>
          else
            (case conn_recv c 4 of
               (None, c) \<Rightarrow> (recv_error msg_type, c)
             | (Some l, c) \<Rightarrow>
                 let len = sint (bytes_int l);
                     z = (if len \<ge> z then len + 1 else z)
                 in if len > 0 then
                      (case conn_recv c (nat len) of
                         (None, c) \<Rightarrow> (recv_error msg_type, c)
                       | (Some d, c) \<Rightarrow>
                           recv_ack c \<lparr>ret = len, buf = Some (takeWhile (\<lambda>x. x \<noteq> CHR 0x00) d), sz = z,
                             mtype = type\<rparr>)
                    else recv_ack c \<lparr>ret = len, buf = Some b, sz = z, mtype = type\<rparr>))"

subsection \<open>What a socket delivers\<close>

text \<open>
  The events deliver the bytes in chunks of any size, with interruptions, and no call fails.
\<close>

fun chunk :: "rx_event \<Rightarrow> string" where
  "chunk (Rx c) = c"
| "chunk _ = []"

definition delivers :: "rx_event list \<Rightarrow> string \<Rightarrow> bool" where
  "delivers q bs \<longleftrightarrow> Rx_fail \<notin> set q \<and> Rx [] \<notin> set q \<and> concat (map chunk q) = bs"

lemma os_recv_exact:
  assumes "delivers q bs" and "n \<le> length bs"
  shows "\<exists>q'. os_recv n q = (Some (take n bs), q') \<and> delivers q' (drop n bs)"
  using assms
proof (induction n q arbitrary: bs rule: os_recv.induct)
  case (5 n c q)
  from "5.prems" have c: "c \<noteq> []" and bs: "bs = c @ concat (map chunk q)" and q: "Rx_fail \<notin> set q" "Rx [] \<notin> set q"
    by (auto simp: delivers_def)
  define k where "k = min (Suc n) (length c)"
  define q1 where "q1 = (if k < length c then Rx (drop k c) # q else q)"
  have k: "k \<le> length c" "k \<le> Suc n" by (simp_all add: k_def)
  have d: "delivers q1 (drop k bs)" and l: "Suc n - k \<le> length (drop k bs)"
    using q bs k "5.prems"(2) by (auto simp: delivers_def q1_def)
  from "5.IH" [OF c k_def, folded q1_def, OF d l] obtain q' where
    r: "os_recv (Suc n - k) q1 = (Some (take (Suc n - k) (drop k bs)), q')"
      "delivers q' (drop (Suc n - k) (drop k bs))" by blast
  have "os_recv (Suc n) (Rx c # q) = (Some (take k c @ take (Suc n - k) (drop k bs)), q')"
    using c r(1) by (simp add: k_def [symmetric] q1_def [symmetric] Let_def del: min.bounded_iff)
  moreover have "take k c @ take (Suc n - k) (drop k bs) = take (Suc n) bs"
    using k bs by (metis append_take_drop_id le_add_diff_inverse take_add take_append diff_is_0_eq take_0 append_Nil2)
  moreover have "drop (Suc n - k) (drop k bs) = drop (Suc n) bs" using k by simp
  ultimately show ?case using r(2) by auto
qed (auto simp: delivers_def)

lemma int_bytes_length [simp]: "length (int_bytes w) = 4"
  by (simp add: int_bytes_def)

lemma bytes_nat: "n mod 256 + n div 256 mod 256 * 256 + n div 65536 mod 256 * 65536 + n div 16777216 * 16777216 = (n :: nat)"
proof -
  have "n div 256 div 256 = n div 65536" "n div 65536 div 256 = n div 16777216"
    by (simp_all flip: div_mult2_eq)
  then show ?thesis
    using div_mult_mod_eq [of "n div 256" 256] div_mult_mod_eq [of "n div 65536" 256] div_mult_mod_eq [of n 256]
    by linarith
qed

lemma bytes_int_bytes [simp]: "bytes_int (int_bytes w) = w"
proof -
  have "unat w < 4294967296" using unsigned_less [of w] by simp
  then have "unat w div 16777216 mod 256 = unat w div 16777216"
    by (intro mod_less) (simp add: div_less_iff_less_mult)
  with bytes_nat [of "unat w"] have "(\<Sum>i \<leftarrow> [0..<4]. of_char (int_bytes w ! i) * 256 ^ i) = unat w"
    by (simp add: int_bytes_def upt_rec add.assoc)
  then show ?thesis unfolding bytes_int_def by (simp add: upt_rec)
qed

subsection \<open>Sending and receiving\<close>

definition frame :: "string \<Rightarrow> u32 \<Rightarrow> string" where
  "frame d type = int_bytes type
     @ (if has type INTERNAL_COMM_MSG_TYPE_CTRL then [] else int_bytes (of_nat (length d)) @ d)"

abbreviation ack_bytes :: string where
  "ack_bytes \<equiv> int_bytes (INTERNAL_COMM_MSG_TYPE_CTRL OR INTERNAL_COMM_CTRL_ACK)"

lemma os_send_all: "fst (os_send bs q) \<Longrightarrow> fst (snd (os_send bs q)) = bs"
  by (induction bs q rule: os_send.induct) (auto simp: Let_def split: prod.splits if_splits)

lemma os_send_free [simp]: "os_send bs [] = (True, bs, [])"
  by (cases bs) auto

lemma conn_send_ok: "conn_send c bs = (True, c') \<Longrightarrow> rx c' = rx c \<and> sent c' = sent c @ bs"
  using os_send_all [of bs "tx c"] by (auto simp: conn_send_def split: prod.splits)

lemma conn_send_free [simp]: "tx c = [] \<Longrightarrow> conn_send c bs = (True, c\<lparr>sent := sent c @ bs\<rparr>)"
  by (simp add: conn_send_def)

lemma conn_recv_frame: "conn_recv c n = (r, c') \<Longrightarrow> sent c' = sent c \<and> tx c' = tx c"
  by (auto simp: conn_recv_def split: prod.splits)

definition ready :: "conn \<Rightarrow> string \<Rightarrow> bool" where
  "ready c bs \<longleftrightarrow> tx c = [] \<and> delivers (rx c) bs"

lemma conn_recv_ready:
  assumes "ready c (a @ bs)" and "length a = n"
  obtains c' where "conn_recv c n = (Some a, c')" "ready c' bs" "sent c' = sent c"
  using os_recv_exact [of "rx c" "a @ bs" n] assms by (auto simp: conn_recv_def ready_def)

lemma internal_send_complete:
  assumes "internal_send c (Some d) type = (0, c')"
  shows "sent c' = sent c @ frame d type"
  using assms
  by (auto simp: internal_send_def frame_def Let_def dest!: conn_send_ok conn_recv_frame
      split: prod.splits if_splits option.splits)

lemma internal_send_ready:
  assumes "ready c (a @ r)" and "length a = 4"
  obtains c' where "internal_send c d type = (0, c')" "ready c' r"
    "sent c' = sent c @ frame (case d of None \<Rightarrow> [] | Some d \<Rightarrow> d) type"
proof -
  let ?d = "case d of None \<Rightarrow> [] | Some d \<Rightarrow> d"
  let ?c = "c\<lparr>sent := sent c @ frame ?d type\<rparr>"
  have "ready ?c (a @ r)" using assms(1) by (simp add: ready_def)
  from conn_recv_ready [OF this assms(2)] obtain c' where
    "conn_recv ?c 4 = (Some a, c')" "ready c' r" "sent c' = sent ?c" by blast
  moreover have "tx c = []" using assms(1) by (simp add: ready_def)
  ultimately show thesis by (intro that [of c']) (auto simp: internal_send_def frame_def Let_def)
qed

lemma recv_ack_ready: "tx c = [] \<Longrightarrow> recv_ack c r = (r, c\<lparr>sent := sent c @ ack_bytes\<rparr>)"
  by (simp add: recv_ack_def)

definition recv_text :: "string option \<Rightarrow> string \<Rightarrow> string" where
  "recv_text data d = (if d = [] then (case data of None \<Rightarrow> [] | Some b \<Rightarrow> b) else d)"

lemma sint_of_length: "n < 2 ^ 31 \<Longrightarrow> sint (of_nat n :: u32) = int n"
  by (simp add: signed_of_nat signed_take_bit_int_eq_self_iff)

lemma internal_recv_ready:
  assumes "ready c (frame d type @ r)" and "length d < 2 ^ 31" and "CHR 0x00 \<notin> set d"
  obtains c' z where "ready c' r" "sent c' = sent c @ ack_bytes"
    "internal_recv c data dsz mt =
       (if has type INTERNAL_COMM_MSG_TYPE_CTRL then \<lparr>ret = 0, buf = data, sz = dsz, mtype = type\<rparr>
        else \<lparr>ret = int (length d), buf = Some (recv_text data d), sz = z, mtype = type\<rparr>, c')"
proof -
  let ?rest = "if has type INTERNAL_COMM_MSG_TYPE_CTRL then [] else int_bytes (of_nat (length d)) @ d"
  from assms(1) have "ready c (int_bytes type @ ?rest @ r)" by (simp add: frame_def)
  from conn_recv_ready [OF this] obtain c1 where c1: "conn_recv c 4 = (Some (int_bytes type), c1)"
    "ready c1 (?rest @ r)" "sent c1 = sent c" by auto
  show thesis
  proof (cases "has type INTERNAL_COMM_MSG_TYPE_CTRL")
    case True
    with c1 show thesis
      by (intro that [of "c1\<lparr>sent := sent c1 @ ack_bytes\<rparr>" 0])
        (auto simp: internal_recv_def recv_ack_ready ready_def split: option.splits)
  next
    case False
    with c1(2) conn_recv_ready [of c1 "int_bytes (of_nat (length d))" "d @ r" 4] obtain c2 where
      c2: "conn_recv c1 4 = (Some (int_bytes (of_nat (length d))), c2)" "ready c2 (d @ r)" "sent c2 = sent c1" by auto
    from conn_recv_ready [OF c2(2) refl] obtain c3 where
      c3: "conn_recv c2 (length d) = (Some d, c3)" "ready c3 r" "sent c3 = sent c2" by blast
    have tw: "takeWhile (\<lambda>x. x \<noteq> CHR 0x00) d = d" using assms(3) by (auto intro: takeWhile_eq_all_conv [THEN iffD2])
    have e: "d = [] \<Longrightarrow> c3 = c2" using c3(1) by (auto simp: conn_recv_def)
    obtain b z where bz: "(case data of None \<Rightarrow> ([], 65535) | Some d \<Rightarrow> (d, dsz)) = (b, z :: int)"
      "b = (case data of None \<Rightarrow> [] | Some b \<Rightarrow> b)" by (cases data) auto
    show thesis
      by (rule that [of "c3\<lparr>sent := sent c3 @ ack_bytes\<rparr>" "if z \<le> int (length d) then int (length d) + 1 else z"])
        (use c1 c2 c3 False tw e bz assms(2) in \<open>auto simp: internal_recv_def recv_ack_ready ready_def Let_def
          sint_of_length recv_text_def\<close>)
  qed
qed

lemma internal_recv_text:
  assumes "ready c (frame d type @ r)" and "length d < 2 ^ 31" and "CHR 0x00 \<notin> set d"
    and "\<not> has type INTERNAL_COMM_MSG_TYPE_CTRL"
  obtains c' z where "ready c' r" "sent c' = sent c @ ack_bytes"
    "internal_recv c data dsz mt
       = (\<lparr>ret = int (length d), buf = Some (recv_text data d), sz = z, mtype = type\<rparr>, c')"
  by (rule internal_recv_ready [OF assms(1-3), of data dsz mt], rule that) (use assms(4) in simp_all)

subsection \<open>A channel of messages\<close>

text \<open>
  The interface the processes rely on: a receiver that is given the encoding of a message and
  then other bytes takes the message and leaves the other bytes.
\<close>

fun receive_list :: "('c \<Rightarrow> 'm option \<times> 'c) \<Rightarrow> nat \<Rightarrow> 'c \<Rightarrow> 'm option list \<times> 'c" where
  "receive_list recv 0 c = ([], c)"
| "receive_list recv (Suc n) c =
     (let (m, c) = recv c; (ms, c) = receive_list recv n c in (m # ms, c))"

locale message_channel =
  fixes enc :: "'m \<Rightarrow> string"
    and recv :: "'c \<Rightarrow> 'm option \<times> 'c"
    and waiting :: "'c \<Rightarrow> string \<Rightarrow> bool"
    and good :: "'m \<Rightarrow> bool"
  assumes recv_one: "good m \<Longrightarrow> waiting c (enc m @ r) \<Longrightarrow> \<exists>c'. recv c = (Some m, c') \<and> waiting c' r"
begin

lemma recv_all:
  "\<forall>m \<in> set ms. good m \<Longrightarrow> waiting c (concat (map enc ms) @ r) \<Longrightarrow>
     \<exists>c'. receive_list recv (length ms) c = (map Some ms, c') \<and> waiting c' r"
proof (induction ms arbitrary: c)
  case (Cons m ms)
  then obtain c1 where c1: "recv c = (Some m, c1)" "waiting c1 (concat (map enc ms) @ r)"
    using recv_one [of m c "concat (map enc ms) @ r"] by auto
  from Cons.IH [OF _ c1(2)] Cons.prems(1) obtain c2 where
    "receive_list recv (length ms) c1 = (map Some ms, c2)" "waiting c2 r" by auto
  with c1(1) show ?case by simp
qed simp

end

text \<open>A receiver that keeps no buffer between the messages.\<close>

definition recv_message :: "conn \<Rightarrow> (string \<times> u32) option \<times> conn" where
  "recv_message c =
     (let (r, c) = internal_recv c None 0 0
      in (if ret r < 0 then None else Some (case buf r of None \<Rightarrow> [] | Some b \<Rightarrow> b, mtype r), c))"

definition plain :: "string \<times> u32 \<Rightarrow> bool" where
  "plain m \<longleftrightarrow> length (fst m) < 2 ^ 31 \<and> CHR 0x00 \<notin> set (fst m)
     \<and> (has (snd m) INTERNAL_COMM_MSG_TYPE_CTRL \<longrightarrow> fst m = [])"

abbreviation frame_of :: "string \<times> u32 \<Rightarrow> string" where
  "frame_of m \<equiv> frame (fst m) (snd m)"

interpretation ipc: message_channel frame_of recv_message ready plain
proof
  fix m :: "string \<times> u32" and c r
  assume m: "plain m" and c: "ready c (frame (fst m) (snd m) @ r)"
  then have "length (fst m) < 2 ^ 31" "CHR 0x00 \<notin> set (fst m)" by (simp_all add: plain_def)
  from internal_recv_ready [OF c this, of None 0 0] obtain c' z where c': "ready c' r"
    "internal_recv c None 0 0 = (if has (snd m) INTERNAL_COMM_MSG_TYPE_CTRL
       then \<lparr>ret = 0, buf = None, sz = 0, mtype = snd m\<rparr>
       else \<lparr>ret = int (length (fst m)), buf = Some (recv_text None (fst m)), sz = z, mtype = snd m\<rparr>, c')"
    by blast
  have "recv_message c = (Some m, c')"
    unfolding recv_message_def c'(2) using m by (cases m) (auto simp: plain_def recv_text_def)
  with c'(1) show "\<exists>c'. recv_message c = (Some m, c') \<and> ready c' r" by blast
qed

fun send_list :: "conn \<Rightarrow> (string \<times> u32) list \<Rightarrow> int \<times> conn" where
  "send_list c [] = (0, c)"
| "send_list c (m # ms) =
     (let (e, c) = internal_send c (Some (fst m)) (snd m) in if e < 0 then (e, c) else send_list c ms)"

lemma internal_send_values: "internal_send c d t = (e, c') \<Longrightarrow> e = 0 \<or> e = -1"
  by (auto simp: internal_send_def Let_def split: prod.splits if_splits option.splits)

lemma send_list_frames: "send_list c ms = (0, c') \<Longrightarrow> sent c' = sent c @ concat (map frame_of ms)"
proof (induction c ms rule: send_list.induct)
  case (2 c m ms)
  obtain e c1 where s: "internal_send c (Some (fst m)) (snd m) = (e, c1)" by fastforce
  with "2.prems" internal_send_values [OF s] have "e = 0" "send_list c1 ms = (0, c')" by (auto split: if_splits)
  with "2.IH" [OF s [symmetric] refl] internal_send_complete s show ?case by simp
qed simp



text \<open>
  An empty message does not empty the buffer of a receiver that keeps one: the text of the
  message before it is received again, with the type of the new message.
\<close>

theorem empty_message_repeats_text:
  assumes "ready c (frame [] type @ r)" and "\<not> has type INTERNAL_COMM_MSG_TYPE_CTRL"
  shows "\<exists>c' z. internal_recv c (Some old) dsz mt
      = (\<lparr>ret = 0, buf = Some old, sz = z, mtype = type\<rparr>, c') \<and> ready c' r"
proof -
  have d: "length ([] :: string) < 2 ^ 31" "CHR 0x00 \<notin> set []" by simp_all
  show ?thesis
    by (rule internal_recv_text [OF assms(1) d assms(2), of "Some old" dsz mt]) (simp add: recv_text_def)
qed

theorem empty_message_repeats_text_witness:
  "\<exists>c' z. internal_recv \<lparr>rx = [Rx (frame [] INTERNAL_COMM_MSG_TYPE_DATA)], tx = [], sent = []\<rparr> (Some ''old'') 65535 0
      = (\<lparr>ret = 0, buf = Some ''old'', sz = z, mtype = INTERNAL_COMM_MSG_TYPE_DATA\<rparr>, c')"
proof -
  have "ready \<lparr>rx = [Rx (frame [] INTERNAL_COMM_MSG_TYPE_DATA)], tx = [], sent = []\<rparr>
      (frame [] INTERNAL_COMM_MSG_TYPE_DATA @ [])"
    by (simp add: ready_def delivers_def frame_def int_bytes_def)
  moreover have "\<not> has INTERNAL_COMM_MSG_TYPE_DATA INTERNAL_COMM_MSG_TYPE_CTRL" by code_simp
  ultimately show ?thesis
    using empty_message_repeats_text [of "\<lparr>rx = [Rx (frame [] INTERNAL_COMM_MSG_TYPE_DATA)], tx = [], sent = []\<rparr>"
        INTERNAL_COMM_MSG_TYPE_DATA "[]" "''old''" 65535 0] by blast
qed

end
