(* ===== verification/PlugMsg.thy ===== *)
theory PlugMsg
  imports Kb Ipc
begin

text \<open>
  How a plugin process writes to and reads from the knowledge base of the scanner: the
  functions of \<open>openvas-libraries/misc/plugutils.c\<close> in the plugin process (escaping,
  \<open>plug_set_key\<close>, \<open>plug_replace_key\<close>, \<open>plug_get_fresh_key\<close>, ports and transports),
  \<open>kb_parse\<close> of \<open>openvas-scanner/src/piic.c\<close> and \<open>process_internal_msg\<close> of
  \<open>openvas-scanner/src/pluginlaunch.c\<close> in the scanner.

  The plugin process has its own copy of the knowledge base and a socket to the scanner; the
  scanner has a knowledge base, a socket to the plugin process, one to its own parent, and the
  static buffer the messages are received in. The entries that \<open>kb_parse\<close> writes to the file
  of the host (if the knowledge base is saved at all) are collected in a list.
\<close>

subsection \<open>Escaping\<close>

definition BSLASH :: char where "BSLASH = CHR 0x5C"

fun add_loop :: "string \<Rightarrow> string" where
  "add_loop [] = []"
| "add_loop (c # s) =
     (if c = BSLASH then BSLASH # BSLASH # add_loop s
      else if c = CHR 0x0A then BSLASH # CHR ''n'' # add_loop s
      else if c = CHR 0x0D then BSLASH # CHR ''r'' # add_loop s
      else c # add_loop s)"

definition addslashes :: "string option \<Rightarrow> string option" where
  "addslashes s = map_option add_loop s"

text \<open>
  The loop of \<open>rmslashes\<close> writes into a zeroed buffer and, for an escape sequence it does not
  know, moves on in the buffer without writing: a NUL stays there and ends the result.
\<close>

fun rm_out :: "string \<Rightarrow> string" where
  "rm_out [] = []"
| "rm_out [c] = (if c = BSLASH then [CHR 0x00] else [c])"
| "rm_out (c # d # s) =
     (if c = BSLASH then
        (if d = CHR ''r'' then CHR 0x0D # rm_out s
         else if d = CHR ''n'' then CHR 0x0A # rm_out s
         else if d = BSLASH then BSLASH # rm_out s
         else CHR 0x00 # rm_out (d # s))
      else c # rm_out (d # s))"

definition rmslashes :: "string \<Rightarrow> string" where
  "rmslashes s = takeWhile (\<lambda>c. c \<noteq> CHR 0x00) (rm_out s)"

subsection \<open>The plugin process\<close>

record plug =
  plug_kb :: "kb option"
  plug_soc :: int
  plug_conn :: conn

definition key_line :: "int \<Rightarrow> string \<Rightarrow> string \<Rightarrow> string" where
  "key_line type name text = int_text type @ '' '' @ name @ ''='' @ text @ '';'' @ [CHR 0x0A]"

text \<open>
  \<open>plug_set_replace_key\<close>. The value is a string or the integer in the pointer; an integer 0
  is the pointer NULL.
\<close>

definition plug_set_replace_key ::
  "plug \<Rightarrow> string option \<Rightarrow> kb_value option \<Rightarrow> bool \<Rightarrow> plug" where
  "plug_set_replace_key p name value replace =
     (case (name, value) of
        (Some n, Some v) \<Rightarrow>
          if v = V_int 0 then p
          else
            let (k, str) =
                  (case v of
                     V_str s \<Rightarrow>
                       (snd (kb_item_add_str (plug_kb p) n s),
                        let t = the (addslashes (Some s))
                        in snprintf (length n + length t + 10) (key_line 1 n t))
                   | V_int i \<Rightarrow>
                       (snd (kb_item_add_int (plug_kb p) n (to_int32 i)),
                        snprintf (length n + 20) (key_line 3 n (int_text (to_int32 i)))));
                p = p\<lparr>plug_kb := k\<rparr>
            in if plug_soc p \<noteq> 0
               then
                 let msg = (if replace then INTERNAL_COMM_MSG_TYPE_KB OR INTERNAL_COMM_KB_REPLACE
                            else INTERNAL_COMM_MSG_TYPE_KB)
                 in p\<lparr>plug_conn := snd (internal_send (plug_conn p) (Some str) msg)\<rparr>
               else p
      | _ \<Rightarrow> p)"

definition plug_set_key :: "plug \<Rightarrow> string option \<Rightarrow> kb_value option \<Rightarrow> plug" where
  "plug_set_key p name value = plug_set_replace_key p name value False"

definition plug_replace_key :: "plug \<Rightarrow> string option \<Rightarrow> kb_value option \<Rightarrow> plug" where
  "plug_replace_key p name value = plug_set_replace_key p name value True"

definition port_key :: "string \<Rightarrow> int \<Rightarrow> string" where
  "port_key proto portnum = snprintf 255 (''Ports/'' @ proto @ ''/'' @ int_text portnum)"

definition host_add_port_proto :: "plug \<Rightarrow> int \<Rightarrow> int \<Rightarrow> string \<Rightarrow> plug" where
  "host_add_port_proto p portnum state proto =
     plug_set_key p (Some (port_key proto portnum)) (Some (V_int 1))"

definition scanner_add_port :: "plug \<Rightarrow> int \<Rightarrow> string \<Rightarrow> plug" where
  "scanner_add_port p port proto = host_add_port_proto p port 1 proto"

definition OPENVAS_ENCAPS_IP :: int where "OPENVAS_ENCAPS_IP = 1"

definition transport_key :: "int \<Rightarrow> string" where
  "transport_key port = snprintf 256 (''Transports/TCP/'' @ int_text port)"

definition plug_set_port_transport :: "plug \<Rightarrow> int \<Rightarrow> int \<Rightarrow> plug" where
  "plug_set_port_transport p port tr = plug_set_key p (Some (transport_key port)) (Some (V_int tr))"

definition plug_get_port_transport :: "plug \<Rightarrow> int \<Rightarrow> int" where
  "plug_get_port_transport p port =
     (let trp = kb_item_get_int (plug_kb p) (Some (transport_key port))
      in if trp \<ge> 0 then trp else OPENVAS_ENCAPS_IP)"

text \<open>
  \<open>plug_get_fresh_key\<close>: the value, \<open>*type\<close> and the plugin afterwards. There is no defined
  result when \<open>internal_recv\<close> fails, since \<open>msg\<close> is then read without having been set, or when
  a value is announced by a control message, which brings no text.
\<close>

definition plug_get_fresh_key ::
  "plug \<Rightarrow> string option \<Rightarrow> int \<Rightarrow> (kb_value option \<times> int \<times> plug) option" where
  "plug_get_fresh_key p name type =
     (case name of
        None \<Rightarrow> Some (None, type, p)
      | Some n \<Rightarrow>
          let (e, c) = internal_send (plug_conn p) (Some n)
                (INTERNAL_COMM_MSG_TYPE_KB OR INTERNAL_COMM_KB_GET) in
          if e < 0 then Some (None, -1, p\<lparr>plug_conn := c\<rparr>)
          else
            let (r, c) = internal_recv c None 0 0; p = p\<lparr>plug_conn := c\<rparr> in
            if ret r < 0 then None
            else if \<not> has (mtype r) INTERNAL_COMM_MSG_TYPE_KB then Some (None, -1, p)
            else if has (mtype r) INTERNAL_COMM_KB_ERROR then Some (None, -1, p)
            else if has (mtype r) INTERNAL_COMM_KB_SENDING_STR then
              map_option (\<lambda>b. (Some (V_str b), 1, p)) (buf r)
            else if has (mtype r) INTERNAL_COMM_KB_SENDING_INT then
              map_option (\<lambda>b. (Some (V_int (atoi b)), 3, p)) (buf r)
            else Some (None, -1, p))"

subsection \<open>The scanner\<close>

record process =
  internal_soc :: conn
  upstream_soc :: conn
  proc_kb :: "kb option"
  alive :: bool
  saving :: bool
  saved :: "(string \<times> kb_value) list"
  buffer :: "string option"
  bufsz :: int

definition proc_send :: "process \<Rightarrow> string option \<Rightarrow> u32 \<Rightarrow> process" where
  "proc_send p data type = p\<lparr>internal_soc := snd (internal_send (internal_soc p) data type)\<rparr>"

text \<open>The answer to a request for a key.\<close>

definition kb_answer :: "process \<Rightarrow> kb \<Rightarrow> string \<Rightarrow> process" where
  "kb_answer p k name =
     (case kb_item_get_single (Some k) (Some name) 0 of
        None \<Rightarrow> proc_send p None (INTERNAL_COMM_MSG_TYPE_KB OR INTERNAL_COMM_KB_ERROR)
      | Some item \<Rightarrow>
          (case kb_v item of
             V_str s \<Rightarrow> proc_send p (Some s) (INTERNAL_COMM_MSG_TYPE_KB OR INTERNAL_COMM_KB_SENDING_STR)
           | V_int i \<Rightarrow> proc_send p (Some (snprintf 64 (int_text i)))
               (INTERNAL_COMM_MSG_TYPE_KB OR INTERNAL_COMM_KB_SENDING_INT)))"

text \<open>The text before the last \<open>c\<close>, the whole text without one.\<close>

definition cut_last :: "char \<Rightarrow> string \<Rightarrow> string" where
  "cut_last c s = (case str_cut c (rev s) of None \<Rightarrow> s | Some (_, r) \<Rightarrow> rev r)"

definition kb_store :: "process \<Rightarrow> kb \<Rightarrow> string \<Rightarrow> kb_value \<Rightarrow> bool \<Rightarrow> process" where
  "kb_store p k name v replace =
     (if replace then p\<lparr>proc_kb := snd (kb_addset (Some k) name v True)\<rparr>
      else p\<lparr>proc_kb := snd (kb_addset (Some k) name v False),
             saved := (if saving p then saved p @ [(name, v)] else saved p)\<rparr>)"

text \<open>
  \<open>kb_parse\<close> on the text in the buffer, which it cuts as it goes. The separator of the name
  and the value is looked for from the start of the text, before the space as well as after it.
\<close>

definition kb_parse :: "process \<Rightarrow> u32 \<Rightarrow> process" where
  "kb_parse p msg =
     (case (buffer p, proc_kb p) of
        (Some b, Some k) \<Rightarrow>
          if has msg INTERNAL_COMM_KB_GET then kb_answer p k b
          else if b = [] then p
          else
            let b = (if last b = CHR 0x0A then butlast b else b);
                b = cut_last (CHR '';'') b;
                p = p\<lparr>buffer := Some b\<rparr>
            in (case str_cut (CHR '' '') b of
                  None \<Rightarrow> p
                | Some (t, rest) \<Rightarrow>
                    (case str_cut (CHR ''='') b of
                       None \<Rightarrow> p
                     | Some (b, value) \<Rightarrow>
                         let type = atoi t;
                             name = (if CHR ''='' \<in> set t then rest
                                     else case str_cut (CHR ''='') rest of
                                            None \<Rightarrow> rest | Some (n, _) \<Rightarrow> n);
                             v = (if type = 3 then V_int (atoi value) else V_str (rmslashes value))
                         in kb_store (p\<lparr>buffer := Some b\<rparr>) k name v (has msg INTERNAL_COMM_KB_REPLACE)))
      | _ \<Rightarrow> p)"

text \<open>
  \<open>process_internal_msg\<close>, which receives one message of the plugin process: the return value
  and the process afterwards. The buffer is static; it is freed when it has grown.
\<close>

definition process_internal_msg :: "process \<Rightarrow> int \<times> process" where
  "process_internal_msg p =
     (let (r, c) = internal_recv (internal_soc p) (buffer p) (bufsz p) 0;
          p = p\<lparr>internal_soc := c, buffer := buf r, bufsz := sz r\<rparr>
      in if ret r < 0 then (-1, p\<lparr>alive := False\<rparr>)
      else
        let type = mtype r;
            (e, p) =
              (if has type INTERNAL_COMM_MSG_TYPE_DATA then
                 let (e, c) = internal_send (upstream_soc p) (buffer p) type in (e, p\<lparr>upstream_soc := c\<rparr>)
               else if has type INTERNAL_COMM_MSG_TYPE_KB then (0, kb_parse p type)
               else if has type INTERNAL_COMM_MSG_TYPE_CTRL then
                 (ret r, if has type INTERNAL_COMM_CTRL_FINISHED then p\<lparr>alive := False\<rparr> else p)
               else (ret r, p))
        in (e, if bufsz p > 65535 then p\<lparr>buffer := None\<rparr> else p))"

end
