(* ===== verification/PlugMsgCorrect.thy ===== *)
theory PlugMsgCorrect
  imports PlugMsg
begin

text \<open>
  What the exchange between a plugin process and the scanner guarantees: escaping is undone,
  lines are taken apart the way they were put together, a key that a plugin sets arrives in the
  knowledge base of the scanner, and a key that it asks for is answered from there.
\<close>

subsection \<open>Escaping is undone\<close>

lemma rm_out_plain: "c \<noteq> BSLASH \<Longrightarrow> rm_out (c # t) = c # rm_out t"
  by (cases t) auto

lemma rm_out_add [simp]: "rm_out (add_loop s) = s"
  by (induction s) (auto simp: rm_out_plain BSLASH_def)

lemma rmslashes_add: "CHR 0x00 \<notin> set s \<Longrightarrow> rmslashes (add_loop s) = s"
  by (auto simp: rmslashes_def intro: takeWhile_eq_all_conv [THEN iffD2])

lemma add_loop_length: "length (add_loop s) \<le> 2 * length s"
  by (induction s) auto

lemma add_loop_nul: "CHR 0x00 \<notin> set s \<Longrightarrow> CHR 0x00 \<notin> set (add_loop s)"
  by (induction s) (auto simp: BSLASH_def)

subsection \<open>Numbers\<close>

lemma to_base_digits: "\<forall>c \<in> set (to_base 10 n). is_digit_in 10 c"
  using digits_to_base [of 10 _ n] by simp

lemma strtol_to_base:
  assumes "sg = [] \<or> sg = ''-''" and "int n \<le> 2147483648"
  shows "strtol 10 (sg @ to_base 10 n) = (if sg = ''-'' then - int n else int n, [], False)"
proof -
  have "sg = [] \<or> sg = ''+'' \<or> sg = ''-''" using assms(1) by blast
  from strtol10_build [of "[]" sg "to_base 10 n" "[]", OF _ this to_base_nonempty to_base_digits] assms(2)
  show ?thesis by (auto simp: num_of_to_base Let_def LONG_MAX_def LONG_MIN_def)
qed

lemma atoi_int_text:
  assumes "- (2 ^ 31) \<le> i" and "i < 2 ^ 31"
  shows "atoi (int_text i) = i"
proof (cases "i < 0")
  case True
  with assms strtol_to_base [of "''-''" "nat (- i)"] show ?thesis
    by (simp add: atoi_def int_text_def to_int32_id)
next
  case False
  with assms strtol_to_base [of "[]" "nat i"] show ?thesis
    by (simp add: atoi_def int_text_def to_int32_id)
qed

lemma int_text_chars:
  "c \<in> set (int_text i) \<Longrightarrow> is_digit_in 10 c \<or> c = CHR ''-''"
  using to_base_digits by (auto simp: int_text_def split: if_splits)

lemma int_text_no [simp]:
  "CHR '' '' \<notin> set (int_text i)" "CHR ''='' \<notin> set (int_text i)" "CHR 0x00 \<notin> set (int_text i)"
  by (auto dest!: int_text_chars simp: digit_val_def)

subsection \<open>Lines\<close>

lemma str_cut_append: "c \<notin> set a \<Longrightarrow> str_cut c (a @ c # b) = Some (a, b)"
  by (simp add: str_cut_Some)

lemma cut_last_snoc: "cut_last c (a @ [c]) = a"
  by (simp add: cut_last_def str_cut_def)

lemma key_line_length: "length (key_line ty n t) = length (int_text ty) + length n + length t + 4"
  by (simp add: key_line_def)

lemma key_line_parse:
  assumes "buffer q = Some (key_line ty n t)" and "proc_kb q = Some k" and "CHR ''='' \<notin> set n"
    and "ty = 1 \<or> ty = 3" and "\<not> has msg INTERNAL_COMM_KB_GET"
  shows "kb_parse q msg = kb_store (q\<lparr>buffer := Some (int_text ty @ '' '' @ n)\<rparr>) k n
     (if ty = 3 then V_int (atoi t) else V_str (rmslashes t)) (has msg INTERNAL_COMM_KB_REPLACE)"
proof -
  define b where "b = int_text ty @ '' '' @ n @ ''='' @ t"
  define l where "l = key_line ty n t"
  have l: "l \<noteq> []" "last l = CHR 0x0A" "butlast l = b @ '';''" by (simp_all add: l_def b_def key_line_def butlast_append)
  have 1: "str_cut (CHR '' '') b = Some (int_text ty, n @ ''='' @ t)"
    using str_cut_append [of "CHR '' ''" "int_text ty"] by (simp add: b_def)
  have 2: "str_cut (CHR ''='') b = Some (int_text ty @ '' '' @ n, t)"
    using str_cut_append [of "CHR ''=''" "int_text ty @ '' '' @ n" t] assms(3) by (simp add: b_def)
  have 3: "str_cut (CHR ''='') (n @ ''='' @ t) = Some (n, t)"
    using str_cut_append [of "CHR ''=''" n t] assms(3) by simp
  have "atoi (int_text ty) = ty" using assms(4) by (auto intro: atoi_int_text)
  moreover have "cut_last (CHR '';'') (b @ '';'') = b" using cut_last_snoc [of "CHR '';''" b] by simp
  ultimately show ?thesis
    unfolding kb_parse_def assms(1,2) l_def [symmetric] using assms(5) 1 2 3 l by (simp add: Let_def)
qed

subsection \<open>From the plugin to the scanner\<close>

definition name_ok :: "string \<Rightarrow> bool" where
  "name_ok n \<longleftrightarrow> CHR ''='' \<notin> set n \<and> CHR 0x00 \<notin> set n \<and> length n < 2 ^ 29"

fun storable :: "kb_value \<Rightarrow> bool" where
  "storable (V_str s) \<longleftrightarrow> CHR 0x00 \<notin> set s \<and> length s < 2 ^ 29"
| "storable (V_int i) \<longleftrightarrow> i \<noteq> 0 \<and> - (2 ^ 31) \<le> i \<and> i < 2 ^ 31"

fun value_line :: "string \<Rightarrow> kb_value \<Rightarrow> string" where
  "value_line n (V_str s) = key_line 1 n (add_loop s)"
| "value_line n (V_int i) = key_line 3 n (int_text i)"

lemma small_texts: "int_text 1 = ''1''" "int_text 3 = ''3''"
  by code_simp+

definition key_msg :: "bool \<Rightarrow> u32" where
  "key_msg replace = (if replace then INTERNAL_COMM_MSG_TYPE_KB OR INTERNAL_COMM_KB_REPLACE
     else INTERNAL_COMM_MSG_TYPE_KB)"

lemma key_msg_bits:
  "has (key_msg r) INTERNAL_COMM_MSG_TYPE_KB" "\<not> has (key_msg r) INTERNAL_COMM_MSG_TYPE_CTRL"
  "\<not> has (key_msg r) INTERNAL_COMM_MSG_TYPE_DATA" "\<not> has (key_msg r) INTERNAL_COMM_KB_GET"
  "has (key_msg r) INTERNAL_COMM_KB_REPLACE = r"
  by (cases r; simp add: key_msg_def; code_simp)+

lemma value_line_plain:
  assumes "name_ok n" and "storable v"
  shows "length (value_line n v) < 2 ^ 31" "CHR 0x00 \<notin> set (value_line n v)" "value_line n v \<noteq> []"
proof -
  show "CHR 0x00 \<notin> set (value_line n v)" "value_line n v \<noteq> []"
    using assms by (cases v; simp add: key_line_def name_ok_def add_loop_nul)+
  show "length (value_line n v) < 2 ^ 31"
  proof (cases v)
    case (V_str s)
    with assms add_loop_length [of s] show ?thesis by (simp add: key_line_length name_ok_def small_texts)
  next
    case (V_int i)
    with assms int_text_length [of i] show ?thesis by (simp add: key_line_length name_ok_def small_texts)
  qed
qed

lemma set_replace_key_effect:
  assumes "storable v" and "plug_kb p = Some k" and "plug_soc p \<noteq> 0"
  shows "plug_set_replace_key p (Some n) (Some v) r =
     p\<lparr>plug_kb := snd (kb_addset (Some k) n v False),
       plug_conn := snd (internal_send (plug_conn p) (Some (value_line n v)) (key_msg r))\<rparr>"
proof (cases v)
  case (V_str s)
  have "snprintf (length n + length (add_loop s) + 10) (key_line 1 n (add_loop s)) = key_line 1 n (add_loop s)"
    by (simp add: snprintf_def key_line_length small_texts)
  with V_str assms show ?thesis
    by (simp add: plug_set_replace_key_def addslashes_def kb_item_mutators key_msg_def Let_def)
next
  case (V_int i)
  with assms(1) have i: "to_int32 i = i" by (simp add: to_int32_id)
  have "snprintf (length n + 20) (key_line 3 n (int_text i)) = key_line 3 n (int_text i)"
    using V_int assms(1) int_text_length [of i] by (simp add: snprintf_def key_line_length small_texts)
  with V_int assms i show ?thesis
    by (simp add: plug_set_replace_key_def kb_item_mutators key_msg_def Let_def)
qed

lemma value_line_parse:
  assumes "buffer q = Some (value_line n v)" and "proc_kb q = Some k" and "name_ok n" and "storable v"
  obtains b where "kb_parse q (key_msg r) = kb_store (q\<lparr>buffer := b\<rparr>) k n v r"
proof (cases v)
  case (V_str s)
  with assms key_line_parse [of q 1 n "add_loop s" k "key_msg r"] show thesis
    by (auto simp: name_ok_def key_msg_bits rmslashes_add intro: that)
next
  case (V_int i)
  with assms key_line_parse [of q 3 n "int_text i" k "key_msg r"] show thesis
    by (auto simp: name_ok_def key_msg_bits atoi_int_text intro: that)
qed

lemma kb_addset_kb: "snd (kb_addset (Some k) n v r) = Some (the (snd (kb_addset (Some k) n v r)))"
  using kb_addset_result [of k n v r] by (metis snd_conv)

lemma kb_store_effect:
  "proc_kb (kb_store q k n v r) = Some (if r then kb_set k n v else kb_add k n v)"
  "saved (kb_store q k n v r) = saved q @ (if saving q \<and> \<not> r then [(n, v)] else [])"
  "internal_soc (kb_store q k n v r) = internal_soc q" "alive (kb_store q k n v r) = alive q"
  using kb_addset_kb [of k n v True] kb_addset_kb [of k n v False]
  by (auto simp: kb_store_def)

lemma recv_key:
  assumes "ready (internal_soc q) (frame (value_line n v) (key_msg r) @ rest)" and "proc_kb q = Some k"
    and "name_ok n" and "storable v"
  obtains q' where "process_internal_msg q = (0, q')" "ready (internal_soc q') rest" "alive q' = alive q"
    "proc_kb q' = Some (if r then kb_set k n v else kb_add k n v)"
    "saved q' = saved q @ (if saving q \<and> \<not> r then [(n, v)] else [])"
proof -
  note pl = value_line_plain [OF assms(3,4)]
  have line: "recv_text (buffer q) (value_line n v) = value_line n v" using pl(3) by (simp add: recv_text_def)
  obtain c z where
    c: "ready c rest" "internal_recv (internal_soc q) (buffer q) (bufsz q) 0
      = (\<lparr>ret = int (length (value_line n v)), buf = Some (value_line n v), sz = z, mtype = key_msg r\<rparr>, c)"
    by (rule internal_recv_text [OF assms(1) pl(1,2) key_msg_bits(2), of "buffer q" "bufsz q" 0, unfolded line])
  let ?q = "q\<lparr>internal_soc := c, buffer := Some (value_line n v), bufsz := z\<rparr>"
  from value_line_parse [of ?q n v k r] assms(2-4) obtain b where
    b: "kb_parse ?q (key_msg r) = kb_store (?q\<lparr>buffer := b\<rparr>) k n v r" by auto
  let ?q1 = "kb_store (?q\<lparr>buffer := b\<rparr>) k n v r"
  have "process_internal_msg q = (0, if bufsz ?q1 > 65535 then ?q1\<lparr>buffer := None\<rparr> else ?q1)"
    unfolding process_internal_msg_def c(2) using b by (simp add: key_msg_bits Let_def)
  with c(1) show thesis
    by (intro that [of "if bufsz ?q1 > 65535 then ?q1\<lparr>buffer := None\<rparr> else ?q1"]) (simp_all add: kb_store_effect)
qed

text \<open>
  C8: whatever string or nonzero integer a plugin sets under a name without \<open>=\<close>, the scanner
  that receives the message (in chunks of any size) has the value added to its own knowledge
  base, or put in place of the first one, and nothing else changed; the entry is written to the
  file of the host when the knowledge base is saved.
\<close>

theorem set_key_reaches_scanner:
  assumes "name_ok n" and "storable v" and "plug_kb p = Some kp" and "plug_soc p \<noteq> 0"
    and "ready (plug_conn p) ack" and "length ack = 4" and "sent (plug_conn p) = []"
    and "ready (internal_soc q) (sent (plug_conn (plug_set_replace_key p (Some n) (Some v) r)))"
    and "proc_kb q = Some k"
  shows "\<exists>q' k'. process_internal_msg q = (0, q') \<and> proc_kb q' = Some k' \<and> alive q' = alive q
    \<and> kb_vals k' = (if r then (kb_vals k)(n := v # tl (kb_vals k n))
                    else if v \<in> set (kb_vals k n) then kb_vals k
                    else (kb_vals k)(n := v # kb_vals k n))
    \<and> saved q' = saved q @ (if saving q \<and> \<not> r then [(n, v)] else [])"
proof -
  from internal_send_ready [of "plug_conn p" ack "[]" "Some (value_line n v)" "key_msg r"] assms(5-7) obtain c where
    "internal_send (plug_conn p) (Some (value_line n v)) (key_msg r) = (0, c)"
    "sent c = frame (value_line n v) (key_msg r)" by auto
  with assms(8) set_replace_key_effect [OF assms(2-4), of n r]
  have "ready (internal_soc q) (frame (value_line n v) (key_msg r) @ [])" by simp
  then obtain q' where "process_internal_msg q = (0, q')" "alive q' = alive q"
    "proc_kb q' = Some (if r then kb_set k n v else kb_add k n v)"
    "saved q' = saved q @ (if saving q \<and> \<not> r then [(n, v)] else [])"
    by (rule recv_key [OF _ assms(9,1,2)])
  moreover have "kb_vals (if r then kb_set k n v else kb_add k n v) =
      (if r then (kb_vals k)(n := v # tl (kb_vals k n))
       else if v \<in> set (kb_vals k n) then kb_vals k else (kb_vals k)(n := v # kb_vals k n))"
    by (auto simp: fun_eq_iff kbs.vals_put kbs.vals_add)
  ultimately show ?thesis by blast
qed

definition plug0 :: "rx_event list \<Rightarrow> plug" where
  "plug0 q = \<lparr>plug_kb = Some kb_new, plug_soc = 1, plug_conn = \<lparr>rx = q, tx = [], sent = []\<rparr>\<rparr>"

definition process0 :: "kb \<Rightarrow> rx_event list \<Rightarrow> process" where
  "process0 k q = \<lparr>internal_soc = \<lparr>rx = q, tx = [], sent = []\<rparr>, upstream_soc = \<lparr>rx = [], tx = [], sent = []\<rparr>,
     proc_kb = Some k, alive = True, saving = False, saved = [], buffer = None, bufsz = 0\<rparr>"

lemma ready_single: "ready \<lparr>rx = [Rx bs], tx = [], sent = s\<rparr> bs \<longleftrightarrow> bs \<noteq> []"
  by (auto simp: ready_def delivers_def)

lemma bytes_nonempty [simp]: "int_bytes w \<noteq> []" "frame d t \<noteq> []"
  by (simp_all add: int_bytes_def frame_def)

theorem set_key_reaches_scanner_witness:
  "\<exists>q' k'. process_internal_msg (process0 kb_new [Rx (frame (key_line 1 ''a'' ''x'') INTERNAL_COMM_MSG_TYPE_KB)]) = (0, q')
      \<and> proc_kb q' = Some k' \<and> kb_vals k' ''a'' = [V_str ''x'']"
proof -
  let ?p = "plug0 [Rx ack_bytes]" and ?v = "V_str ''x''"
  let ?f = "frame (key_line 1 ''a'' ''x'') INTERNAL_COMM_MSG_TYPE_KB"
  have ok: "name_ok ''a''" "storable ?v" by (simp_all add: name_ok_def)
  have r: "ready (plug_conn ?p) ack_bytes" by (simp add: plug0_def ready_single)
  have "value_line ''a'' ?v = key_line 1 ''a'' ''x''" by (simp add: BSLASH_def)
  moreover from r internal_send_ready [of "plug_conn ?p" ack_bytes "[]" "Some (value_line ''a'' ?v)" "key_msg False"]
  obtain c where "internal_send (plug_conn ?p) (Some (value_line ''a'' ?v)) (key_msg False) = (0, c)"
    "sent c = frame (value_line ''a'' ?v) (key_msg False)" by (auto simp: plug0_def)
  moreover have "plug_kb ?p = Some kb_new" "plug_soc ?p \<noteq> 0" "sent (plug_conn ?p) = []" by (simp_all add: plug0_def)
  ultimately have s: "sent (plug_conn (plug_set_replace_key ?p (Some ''a'') (Some ?v) False)) = ?f"
    using set_replace_key_effect [OF ok(2), of ?p kb_new "''a''" False] by (simp add: key_msg_def)
  have "ready (internal_soc (process0 kb_new [Rx ?f])) ?f" by (simp add: process0_def ready_single)
  then show ?thesis
    using set_key_reaches_scanner [OF ok, of ?p kb_new ack_bytes "process0 kb_new [Rx ?f]" False kb_new]
      \<open>plug_kb ?p = Some kb_new\<close> \<open>plug_soc ?p \<noteq> 0\<close> r \<open>sent (plug_conn ?p) = []\<close>
    unfolding s by (auto simp: process0_def kbs.vals_empty)
qed

lemma kb_single_first:
  "map_option kb_v (kb_item_get_single (Some k) (Some n) 0) = (case kb_vals k n of [] \<Rightarrow> None | v # _ \<Rightarrow> Some v)"
proof -
  have "find (\<lambda>_. True) vs = (case vs of [] \<Rightarrow> None | v # _ \<Rightarrow> Some v)" for vs :: "kb_value list"
    by (cases vs) auto
  then show ?thesis
    using kb_find_vals_Some [of n "\<lambda>_. True" "k (mkkey (Some n))"]
    by (simp add: kb_item_get_single_def kb_vals_def)
qed

text \<open>
  Replacing the value of a key does so in the scanner only. In the plugin process the value
  is added, and when it is there already, behind another one, nothing happens: reading the key
  there goes on to give the other value, while the scanner has the new one.
\<close>

theorem replace_key_diverges:
  assumes "storable v" and "name_ok n" and "plug_kb p = Some k" and "plug_soc p \<noteq> 0"
    and "kb_vals k n = w # vs" and "v \<in> set vs"
    and "buffer q = Some (value_line n v)" and "proc_kb q = Some k"
  shows "\<exists>kp kq. plug_kb (plug_replace_key p (Some n) (Some v)) = Some kp
    \<and> proc_kb (kb_parse q (INTERNAL_COMM_MSG_TYPE_KB OR INTERNAL_COMM_KB_REPLACE)) = Some kq
    \<and> kb_vals kp n = w # vs \<and> kb_vals kq n = v # vs"
proof -
  have "plug_kb (plug_replace_key p (Some n) (Some v)) = Some (kb_add k n v)"
    using set_replace_key_effect [OF assms(1,3,4), of n True] kb_addset_kb [of k n v False]
    by (simp add: plug_replace_key_def)
  moreover obtain b where "kb_parse q (key_msg True) = kb_store (q\<lparr>buffer := b\<rparr>) k n v True"
    by (rule value_line_parse [OF assms(7,8,2,1)])
  then have "proc_kb (kb_parse q (key_msg True)) = Some (kb_set k n v)" by (simp add: kb_store_effect)
  ultimately show ?thesis using assms(5,6) by (simp add: key_msg_def kbs.vals_add kbs.vals_put)
qed

theorem replace_key_diverges_witness:
  "\<exists>kp kq. kb_vals kp ''a'' = [V_int 2, V_int 1] \<and> kb_vals kq ''a'' = [V_int 1, V_int 1]
    \<and> plug_kb (plug_replace_key ((plug0 [])\<lparr>plug_kb := Some (kb_add (kb_add kb_new ''a'' (V_int 1)) ''a'' (V_int 2))\<rparr>)
        (Some ''a'') (Some (V_int 1))) = Some kp
    \<and> proc_kb (kb_parse ((process0 (kb_add (kb_add kb_new ''a'' (V_int 1)) ''a'' (V_int 2)) [])
         \<lparr>buffer := Some (value_line ''a'' (V_int 1))\<rparr>)
        (INTERNAL_COMM_MSG_TYPE_KB OR INTERNAL_COMM_KB_REPLACE)) = Some kq"
proof -
  let ?k = "kb_add (kb_add kb_new ''a'' (V_int 1)) ''a'' (V_int 2)"
  have "kb_vals ?k ''a'' = [V_int 2, V_int 1]" by (simp add: kbs.vals_add kbs.vals_empty)
  moreover have "storable (V_int 1)" "name_ok ''a''" by (simp_all add: name_ok_def)
  ultimately show ?thesis
    using replace_key_diverges [of "V_int 1" "''a''" "(plug0 [])\<lparr>plug_kb := Some ?k\<rparr>" ?k "V_int 2" "[V_int 1]"
        "(process0 ?k [])\<lparr>buffer := Some (value_line ''a'' (V_int 1))\<rparr>"]
    by (auto simp: plug0_def process0_def)
qed

subsection \<open>Asking for a key\<close>

definition answer :: "kb_value option \<Rightarrow> string \<times> u32" where
  "answer v = (case v of
       None \<Rightarrow> ([], INTERNAL_COMM_MSG_TYPE_KB OR INTERNAL_COMM_KB_ERROR)
     | Some (V_str s) \<Rightarrow> (s, INTERNAL_COMM_MSG_TYPE_KB OR INTERNAL_COMM_KB_SENDING_STR)
     | Some (V_int i) \<Rightarrow> (int_text i, INTERNAL_COMM_MSG_TYPE_KB OR INTERNAL_COMM_KB_SENDING_INT))"

fun sendable :: "kb_value \<Rightarrow> bool" where
  "sendable (V_str s) \<longleftrightarrow> CHR 0x00 \<notin> set s \<and> length s < 2 ^ 31"
| "sendable (V_int i) \<longleftrightarrow> - (2 ^ 31) \<le> i \<and> i < 2 ^ 31"

abbreviation get_msg :: u32 where
  "get_msg \<equiv> INTERNAL_COMM_MSG_TYPE_KB OR INTERNAL_COMM_KB_GET"

lemma get_msg_bits:
  "has get_msg INTERNAL_COMM_MSG_TYPE_KB" "\<not> has get_msg INTERNAL_COMM_MSG_TYPE_CTRL"
  "\<not> has get_msg INTERNAL_COMM_MSG_TYPE_DATA" "has get_msg INTERNAL_COMM_KB_GET"
  by code_simp+

lemma answer_bits:
  "\<not> has (snd (answer v)) INTERNAL_COMM_MSG_TYPE_CTRL" "has (snd (answer v)) INTERNAL_COMM_MSG_TYPE_KB"
  "has (snd (answer v)) INTERNAL_COMM_KB_ERROR \<longleftrightarrow> v = None"
  "has (snd (answer v)) INTERNAL_COMM_KB_SENDING_STR \<longleftrightarrow> (\<exists>s. v = Some (V_str s))"
  "has (snd (answer v)) INTERNAL_COMM_KB_SENDING_INT \<longleftrightarrow> (\<exists>i. v = Some (V_int i))"
  by (auto simp: answer_def has_def comm_defs split: option.splits kb_value.splits)

lemma answer_text: "fst (answer (Some (V_str s))) = s" "fst (answer (Some (V_int i))) = int_text i"
  by (simp_all add: answer_def)

abbreviation first_val :: "kb \<Rightarrow> string \<Rightarrow> kb_value option" where
  "first_val k n \<equiv> (case kb_vals k n of [] \<Rightarrow> None | v # _ \<Rightarrow> Some v)"

lemma kb_answer_frame:
  assumes "ready (internal_soc q) ack" and "length ack = 4" and "\<forall>v \<in> set (kb_vals k n). sendable v"
  shows "sent (internal_soc (kb_answer q k n)) = sent (internal_soc q) @ frame_of (answer (first_val k n))"
proof -
  have send: "sent (internal_soc (proc_send q d t)) = sent (internal_soc q) @ frame (case d of None \<Rightarrow> [] | Some d \<Rightarrow> d) t" for d t
    using assms(1,2) by (rule_tac internal_send_ready [of "internal_soc q" ack "[]" d t]) (simp_all add: proc_send_def)
  have f: "map_option kb_v (kb_item_get_single (Some k) (Some n) 0) = first_val k n" by (rule kb_single_first)
  show ?thesis
  proof (cases "kb_item_get_single (Some k) (Some n) 0")
    case None
    with f show ?thesis by (simp add: kb_answer_def send answer_def)
  next
    case (Some it)
    with f have v: "first_val k n = Some (kb_v it)" by simp
    then have "kb_v it \<in> set (kb_vals k n)" by (cases "kb_vals k n") auto
    with assms(3) have sv: "sendable (kb_v it)" by blast
    have "snprintf 64 (int_text i) = int_text i" if "kb_v it = V_int i" for i
      using that sv int_text_length [of i] by (simp add: snprintf_def)
    with Some v show ?thesis by (cases "kb_v it") (simp_all add: kb_answer_def send answer_def)
  qed
qed

lemma request_answered:
  assumes "ready (internal_soc q) (frame n get_msg @ ack)" and "length ack = 4" and "sent (internal_soc q) = []"
    and "proc_kb q = Some k" and "n \<noteq> []" and "CHR 0x00 \<notin> set n" and "length n < 2 ^ 31"
    and "\<forall>v \<in> set (kb_vals k n). sendable v"
  obtains q' where "process_internal_msg q = (0, q')" "proc_kb q' = Some k"
    "sent (internal_soc q') = ack_bytes @ frame_of (answer (first_val k n))"
proof -
  have line: "recv_text (buffer q) n = n" using assms(5) by (simp add: recv_text_def)
  obtain c z where c: "ready c ack" "sent c = sent (internal_soc q) @ ack_bytes"
    "internal_recv (internal_soc q) (buffer q) (bufsz q) 0
      = (\<lparr>ret = int (length n), buf = Some n, sz = z, mtype = get_msg\<rparr>, c)"
    by (rule internal_recv_text [OF assms(1,7,6) get_msg_bits(2), of "buffer q" "bufsz q" 0, unfolded line])
  let ?q = "q\<lparr>internal_soc := c, buffer := Some n, bufsz := z\<rparr>"
  let ?q1 = "kb_answer ?q k n"
  have "sent (internal_soc ?q1) = ack_bytes @ frame_of (answer (first_val k n))"
    using kb_answer_frame [of ?q ack k n] c(1,2) assms(2,3,8) by simp
  moreover have "kb_parse ?q get_msg = ?q1" using assms(4) by (simp add: kb_parse_def get_msg_bits)
  then have "process_internal_msg q = (0, if bufsz ?q1 > 65535 then ?q1\<lparr>buffer := None\<rparr> else ?q1)"
    unfolding process_internal_msg_def c(3) by (simp add: get_msg_bits Let_def)
  moreover have "proc_kb ?q1 = Some k"
    using assms(4) by (simp add: kb_answer_def proc_send_def split: option.splits kb_value.splits)
  ultimately show thesis
    by (intro that [of "if bufsz ?q1 > 65535 then ?q1\<lparr>buffer := None\<rparr> else ?q1"]) simp_all
qed

lemma answer_plain:
  assumes "\<And>v. a = Some v \<Longrightarrow> sendable v"
  shows "length (fst (answer a)) < 2 ^ 31" "CHR 0x00 \<notin> set (fst (answer a))"
proof -
  have "length (int_text i) < 2 ^ 31" if "a = Some (V_int i)" for i
    using assms [OF that] int_text_length [of i] by simp
  with assms show "length (fst (answer a)) < 2 ^ 31" "CHR 0x00 \<notin> set (fst (answer a))"
    by (auto simp: answer_def split: option.splits kb_value.splits)
qed

text \<open>
  A plugin that asks the scanner for a key gets the first value that the knowledge base of
  the scanner has under that name, with its type, or NULL when there is none. The messages may
  arrive in chunks of any size.
\<close>

theorem fresh_key_reads_scanner:
  assumes "ready (internal_soc q) (frame n get_msg @ ack)" and "length ack = 4" and "sent (internal_soc q) = []"
    and "proc_kb q = Some k" and "n \<noteq> []" and "CHR 0x00 \<notin> set n" and "length n < 2 ^ 31"
    and "\<forall>v \<in> set (kb_vals k n). sendable v"
    and "ready (plug_conn p) (sent (internal_soc (snd (process_internal_msg q))))"
  shows "\<exists>p'. plug_get_fresh_key p (Some n) t = Some (case kb_vals k n of
      [] \<Rightarrow> (None, -1, p') | v # _ \<Rightarrow> (Some v, kb_type v, p')) \<and> plug_kb p' = plug_kb p"
proof -
  define a where "a = first_val k n"
  obtain q' where "process_internal_msg q = (0, q')" "sent (internal_soc q') = ack_bytes @ frame_of (answer a)"
    unfolding a_def by (rule request_answered [OF assms(1-8)])
  with assms(9) have r: "ready (plug_conn p) (ack_bytes @ frame_of (answer a))" by simp
  then obtain c where c: "internal_send (plug_conn p) (Some n) get_msg = (0, c)" "ready c (frame_of (answer a) @ [])"
    using internal_send_ready [OF r, of "Some n" get_msg] by auto
  have sv: "sendable v" if "a = Some v" for v
    using that assms(8) by (auto simp: a_def split: list.splits)
  have line: "recv_text None (fst (answer a)) = fst (answer a)" by (simp add: recv_text_def)
  obtain c' z where c': "internal_recv c None 0 0
      = (\<lparr>ret = int (length (fst (answer a))), buf = Some (fst (answer a)), sz = z, mtype = snd (answer a)\<rparr>, c')"
    by (rule internal_recv_text [OF c(2) answer_plain [OF sv] answer_bits(1), of None 0 0, unfolded line])
  have "plug_get_fresh_key p (Some n) t = Some (case a of
      None \<Rightarrow> (None, -1, p\<lparr>plug_conn := c'\<rparr>) | Some v \<Rightarrow> (Some v, kb_type v, p\<lparr>plug_conn := c'\<rparr>))"
    unfolding plug_get_fresh_key_def option.case c(1) Let_def prod.case c' using sv
    by (auto simp: answer_bits answer_text atoi_int_text KB_TYPE_STR_def KB_TYPE_INT_def
        split: option.splits kb_value.splits) (metis kb_value.exhaust)
  then show ?thesis
    by (intro exI [of _ "p\<lparr>plug_conn := c'\<rparr>"]) (simp add: a_def split: list.splits)
qed

theorem fresh_key_reads_scanner_witness:
  "\<exists>p'. plug_get_fresh_key (plug0 [Rx (ack_bytes @ frame ''y'' (INTERNAL_COMM_MSG_TYPE_KB OR INTERNAL_COMM_KB_SENDING_STR))])
     (Some ''a'') 0 = Some (Some (V_str ''y''), 1, p')"
proof -
  let ?k = "kb_add (kb_add kb_new ''a'' (V_int 1)) ''a'' (V_str ''y'')"
  let ?q = "process0 ?k [Rx (frame ''a'' get_msg @ ack_bytes)]"
  let ?s = "ack_bytes @ frame ''y'' (INTERNAL_COMM_MSG_TYPE_KB OR INTERNAL_COMM_KB_SENDING_STR)"
  have v: "kb_vals ?k ''a'' = [V_str ''y'', V_int 1]" by (simp add: kbs.vals_add kbs.vals_empty)
  have r: "ready (internal_soc ?q) (frame ''a'' get_msg @ ack_bytes)" "length ack_bytes = 4" "sent (internal_soc ?q) = []"
    "proc_kb ?q = Some ?k" "''a'' \<noteq> []" "CHR 0x00 \<notin> set ''a''" "length ''a'' < 2 ^ 31"
    "\<forall>v \<in> set (kb_vals ?k ''a''). sendable v"
    by (simp_all add: process0_def ready_single v)
  obtain q' where "process_internal_msg ?q = (0, q')" "sent (internal_soc q') = ack_bytes @ frame_of (answer (first_val ?k ''a''))"
    by (rule request_answered [OF r])
  then have "sent (internal_soc (snd (process_internal_msg ?q))) = ?s" by (simp add: v answer_def)
  then have "ready (plug_conn (plug0 [Rx ?s])) (sent (internal_soc (snd (process_internal_msg ?q))))"
    by (simp add: plug0_def ready_single)
  from fresh_key_reads_scanner [OF r this, of 0] show ?thesis by (auto simp: v KB_TYPE_STR_def)
qed

end
