(* ===== verification/PluginReq.thy ===== *)
theory PluginReq
  imports Networking PlugMsg Scheduler
begin

text \<open>
  What a plugin requires before it is launched, \<open>openvas-scanner/src/plugs_req.c\<close>, with the
  state of the ports (\<open>kb_get_port_state_proto\<close> and \<open>plug_get_host_open_port\<close> of
  \<open>openvas-libraries/misc/plugutils.c\<close>) and the list functions of
  \<open>openvas-scanner/src/utils.c\<close> that the launcher uses with them.

  The preferences are an argument list whose values are strings; \<open>g_str_hash\<close>, \<open>g_strsplit\<close>,
  \<open>g_strstrip\<close>, \<open>fnmatch\<close> and \<open>lrand48\<close> are parameters. Where the code has no defined result
  (a NULL pointer is printed or read, an assertion fails) there is one more option layer.
\<close>

subsection \<open>The state of a port\<close>

type_synonym prefs = "arglist list option"

text \<open>A preference read as a string, NULL when it is missing.\<close>

definition pref_str :: "(string \<Rightarrow> u32) \<Rightarrow> prefs \<Rightarrow> string \<Rightarrow> string option" where
  "pref_str gsh prefs name =
     (case arg_get_value gsh prefs name of A_str s \<Rightarrow> Some s | _ \<Rightarrow> None)"

definition unscanned_ports_as_closed :: "(string \<Rightarrow> u32) \<Rightarrow> prefs \<Rightarrow> port_protocol \<Rightarrow> int" where
  "unscanned_ports_as_closed gsh prefs ptype =
     (let unscanned = (if ptype = PORT_PROTOCOL_UDP then pref_str gsh prefs ''unscanned_closed_udp''
                       else pref_str gsh prefs ''unscanned_closed'')
      in if unscanned = Some ''yes'' then 0 else 1)"

definition kb_get_port_state_proto ::
  "(string \<Rightarrow> u32) \<Rightarrow> (string \<Rightarrow> string \<Rightarrow> string list) \<Rightarrow> (string \<Rightarrow> string) \<Rightarrow> kb option \<Rightarrow> prefs \<Rightarrow> int
     \<Rightarrow> string option \<Rightarrow> int option" where
  "kb_get_port_state_proto gsh strsplit strstrip kb prefs portnum proto =
     (let prange = pref_str gsh prefs ''port_range'';
          (port_type, kbstr) =
            (if proto = Some ''udp'' then (PORT_PROTOCOL_UDP, ''Host/udp_scanned'')
             else (PORT_PROTOCOL_TCP, ''Host/scanned''))
      in if kb_item_get_int kb (Some kbstr) \<le> 0
         then Some (unscanned_ports_as_closed gsh prefs port_type)
         else
           case prange of
             None \<Rightarrow> None
           | Some r \<Rightarrow>
               (case port_range_ranges strsplit strstrip r of
                  None \<Rightarrow> None
                | Some port_ranges \<Rightarrow>
                    if \<not> port_in_port_ranges portnum port_type (Some port_ranges)
                    then Some (unscanned_ports_as_closed gsh prefs port_type)
                    else
                      case proto of
                        None \<Rightarrow> None
                      | Some pr \<Rightarrow>
                          Some (if kb_item_get_int kb (Some (port_key pr portnum)) > 0 then 1 else 0)))"

text \<open>
  \<open>plug_get_host_open_port\<close>: the candidates are collected until there are sixteen, then one is
  drawn with the random number \<open>rnd\<close>.
\<close>

definition MAX_CANDIDATES :: nat where "MAX_CANDIDATES = 16"

fun candidates_loop :: "kb_item list \<Rightarrow> bool \<Rightarrow> bool \<Rightarrow> 16 word list \<Rightarrow> bool \<times> bool \<times> 16 word list" where
  "candidates_loop [] open21 open80 cs = (open21, open80, cs)"
| "candidates_loop (it # its) open21 open80 cs =
     (let r = atoi (drop 10 (kb_name it)) in
      if r = 21 then candidates_loop its True open80 cs
      else if r = 80 then candidates_loop its open21 True cs
      else
        let cs = cs @ [word_of_int r] in
        if length cs \<ge> MAX_CANDIDATES then (open21, open80, cs)
        else candidates_loop its open21 open80 cs)"

definition plug_get_host_open_port ::
  "(string \<Rightarrow> string \<Rightarrow> bool) \<Rightarrow> nat \<Rightarrow> kb option \<Rightarrow> u32" where
  "plug_get_host_open_port fnmatch rnd kb =
     (let res = kb_item_get_pattern fnmatch kb ''Ports/tcp/*'' in
      if res = [] then 0
      else
        let (open21, open80, cs) = candidates_loop res False False [] in
        if cs \<noteq> [] then ucast (cs ! (rnd mod length cs))
        else if open21 then 21 else if open80 then 80 else 0)"

subsection \<open>Ports and keys\<close>

text \<open>
  The lists of requirements are argument lists. The loops stop at the first hit; where the
  state of a port has no defined value neither has the result.
\<close>

fun closed_ports_loop ::
  "(int \<Rightarrow> int option) \<Rightarrow> kb option \<Rightarrow> string list \<Rightarrow> int option" where
  "closed_ports_loop st kb [] = Some 0"
| "closed_ports_loop st kb (n # ns) =
     (let iport = atoi n in
      if iport \<noteq> 0 then
        (case st iport of
           None \<Rightarrow> None
         | Some s \<Rightarrow> if s \<noteq> 0 then Some iport else closed_ports_loop st kb ns)
      else if kb_item_get_int kb (Some n) > 0 then Some 1
      else closed_ports_loop st kb ns)"

fun closed_udp_ports_loop :: "(int \<Rightarrow> int option) \<Rightarrow> string list \<Rightarrow> int option" where
  "closed_udp_ports_loop st [] = Some 0"
| "closed_udp_ports_loop st (n # ns) =
     (let iport = atoi n in
      if iport > 0 then
        (case st iport of
           None \<Rightarrow> None
         | Some s \<Rightarrow> if s \<noteq> 0 then Some iport else closed_udp_ports_loop st ns)
      else closed_udp_ports_loop st ns)"

record reqlib =
  r_gsh :: "string \<Rightarrow> u32"
  r_strsplit :: "string \<Rightarrow> string \<Rightarrow> string list"
  r_strstrip :: "string \<Rightarrow> string"

abbreviation port_state :: "reqlib \<Rightarrow> kb option \<Rightarrow> prefs \<Rightarrow> string \<Rightarrow> int \<Rightarrow> int option" where
  "port_state R kb prefs proto i \<equiv>
     kb_get_port_state_proto (r_gsh R) (r_strsplit R) (r_strstrip R) kb prefs i (Some proto)"

definition get_closed_ports :: "reqlib \<Rightarrow> kb option \<Rightarrow> arglist list option \<Rightarrow> prefs \<Rightarrow> int option" where
  "get_closed_ports R kb prts prefs =
     (case prts of
        None \<Rightarrow> Some (-1)
      | Some al \<Rightarrow> closed_ports_loop (port_state R kb prefs ''tcp'') kb (map arg_name al))"

definition get_closed_udp_ports :: "reqlib \<Rightarrow> kb option \<Rightarrow> arglist list option \<Rightarrow> prefs \<Rightarrow> int option" where
  "get_closed_udp_ports R kb prts prefs =
     (case prts of
        None \<Rightarrow> Some (-1)
      | Some al \<Rightarrow> closed_udp_ports_loop (port_state R kb prefs ''udp'') (map arg_name al))"

definition key_missing :: "kb option \<Rightarrow> arglist list option \<Rightarrow> string option" where
  "key_missing kb keys =
     (case (kb, keys) of
        (Some _, Some al) \<Rightarrow> find (\<lambda>n. kb_item_get_single kb (Some n) 0 = None) (map arg_name al)
      | _ \<Rightarrow> None)"

definition key_present :: "kb option \<Rightarrow> arglist list option \<Rightarrow> string option" where
  "key_present kb keys =
     (case (kb, keys) of
        (Some _, Some al) \<Rightarrow> find (\<lambda>n. kb_item_get_single kb (Some n) 0 \<noteq> None) (map arg_name al)
      | _ \<Rightarrow> None)"

subsection \<open>Common ports\<close>

text \<open>
  The loops of \<open>requirements_common_ports\<close>, over the cells of the first list and for each of
  them over those of the second. Every match adds a cell to the result, which is made at the
  first match.
\<close>

fun common_inner ::
  "(string \<Rightarrow> u32) \<Rightarrow> arglist \<Rightarrow> arglist list \<Rightarrow> name_cache \<times> arglist list option
     \<Rightarrow> name_cache \<times> arglist list option" where
  "common_inner gsh a [] (c, out) = (c, out)"
| "common_inner gsh a (r # rs) (c, out) =
     (if arg_type a = arg_type r \<and> arg_name r = arg_name a
      then common_inner gsh a rs
        (arg_add_value gsh c (Some (case out of None \<Rightarrow> [] | Some l \<Rightarrow> l)) (arg_name r) ARG_INT 0 (A_int 1))
      else common_inner gsh a rs (c, out))"

definition requirements_common_ports ::
  "(string \<Rightarrow> u32) \<Rightarrow> name_cache \<Rightarrow> scheduler_plugin option \<Rightarrow> scheduler_plugin option
     \<Rightarrow> name_cache \<times> arglist list option" where
  "requirements_common_ports gsh c plugin1 plugin2 =
     (case (plugin1, plugin2) of
        (Some p1, Some p2) \<Rightarrow>
          (case (required_ports p1, required_ports p2) of
             (Some req1, Some req2) \<Rightarrow> foldl (\<lambda>st a. common_inner gsh a req2 st) (c, None) req1
           | _ \<Rightarrow> (c, None))
      | _ \<Rightarrow> (c, None))"

text \<open>\<open>common\<close> of \<open>utils.c\<close>.\<close>

definition common :: "arglist list option \<Rightarrow> arglist list option \<Rightarrow> bool" where
  "common l1 l2 =
     (case (l1, l2) of
        (Some a, Some b) \<Rightarrow> list_ex (\<lambda>x. list_ex (\<lambda>y. arg_name x = arg_name y) b) a
      | _ \<Rightarrow> False)"

text \<open>
  \<open>list2arglist\<close> of \<open>utils.c\<close>: the pieces between commas, without leading spaces, the empty
  ones left out.
\<close>

definition add_piece ::
  "(string \<Rightarrow> u32) \<Rightarrow> name_cache \<times> arglist list option \<Rightarrow> string \<Rightarrow> name_cache \<times> arglist list option" where
  "add_piece gsh st p =
     (let p = dropWhile (\<lambda>c. c = CHR '' '') p in
      if p = [] then st else arg_add_value gsh (fst st) (snd st) p ARG_INT 0 (A_int 1))"

function pieces_loop ::
  "(string \<Rightarrow> u32) \<Rightarrow> name_cache \<times> arglist list option \<Rightarrow> string \<Rightarrow> name_cache \<times> arglist list option" where
  "pieces_loop gsh st s =
     (case str_cut (CHR '','') s of
        Some (p, rest) \<Rightarrow> pieces_loop gsh (add_piece gsh st p) rest
      | None \<Rightarrow> add_piece gsh st s)"
  by pat_completeness auto
termination
  by (relation "measure (\<lambda>(_, _, s). length s)") (auto simp: str_cut_Some)

declare pieces_loop.simps [simp del]

definition list2arglist ::
  "(string \<Rightarrow> u32) \<Rightarrow> name_cache \<Rightarrow> string option \<Rightarrow> name_cache \<times> arglist list option" where
  "list2arglist gsh c list =
     (case list of None \<Rightarrow> (c, None) | Some s \<Rightarrow> pieces_loop gsh (c, Some []) s)"

subsection \<open>The requirements of a plugin\<close>

definition mandatory_requirements_met :: "kb option \<Rightarrow> scheduler_plugin \<Rightarrow> int" where
  "mandatory_requirements_met kb p = (if key_missing kb (mandatory_keys p) \<noteq> None then 0 else 1)"

text \<open>The message NULL is \<open>None\<close>; the buffer has 64 bytes.\<close>

definition requirements_plugin ::
  "reqlib \<Rightarrow> kb option \<Rightarrow> scheduler_plugin \<Rightarrow> prefs \<Rightarrow> string option option" where
  "requirements_plugin R kb p prefs =
     (let opti = pref_str (r_gsh R) prefs ''optimization_level'' in
      Option.bind (if required_ports p = None then Some 1 else get_closed_ports R kb (required_ports p) prefs) (\<lambda>t.
      if t = 0 then Some (Some ''none of the required tcp ports are open'')
      else
      Option.bind (if required_udp_ports p = None then Some 1
                   else get_closed_udp_ports R kb (required_udp_ports p) prefs) (\<lambda>u.
      if u = 0 then Some (Some ''none of the required udp ports are open'')
      else if (case opti of None \<Rightarrow> False | Some o' \<Rightarrow> o' = ''open_ports'' \<or> atoi o' = 1) then Some None
      else
        case key_missing kb (required_keys p) of
          Some missing \<Rightarrow> Some (Some (snprintf 64 (''because the key '' @ missing @ '' is missing'')))
        | None \<Rightarrow>
            if (case opti of None \<Rightarrow> False | Some o' \<Rightarrow> o' = ''required_keys'' \<or> atoi o' = 2) then Some None
            else
              case key_present kb (excluded_keys p) of
                Some present \<Rightarrow> Some (Some (snprintf 64 (''because the key '' @ present @ '' is present'')))
              | None \<Rightarrow> Some None)))"

end
