(* ===== verification/PluginReqCorrect.thy ===== *)
theory PluginReqCorrect
  imports PlugMsgCorrect PluginReq
begin

text \<open>
  What the checks before the launch of a plugin decide: when the requirements are met, when a
  port counts as open, which port is chosen to talk to, which ports two plugins have in common.
\<close>

subsection \<open>The requirements\<close>

lemma port_state_defined:
  assumes "pref_str gsh prefs ''port_range'' = Some r" and "validate_port_range strsplit strstrip (Some r) = 0"
  shows "\<exists>v. kb_get_port_state_proto gsh strsplit strstrip kb prefs i (Some pr) = Some v"
  using validated_ranges [OF assms(2)] assms(1) by (auto simp: kb_get_port_state_proto_def Let_def)

definition tcp_open :: "reqlib \<Rightarrow> kb option \<Rightarrow> prefs \<Rightarrow> string \<Rightarrow> bool" where
  "tcp_open R kb prefs n \<longleftrightarrow>
     (if atoi n \<noteq> 0 then port_state R kb prefs ''tcp'' (atoi n) \<noteq> Some 0 else 0 < kb_item_get_int kb (Some n))"

definition udp_open :: "reqlib \<Rightarrow> kb option \<Rightarrow> prefs \<Rightarrow> string \<Rightarrow> bool" where
  "udp_open R kb prefs n \<longleftrightarrow> 0 < atoi n \<and> port_state R kb prefs ''udp'' (atoi n) \<noteq> Some 0"

definition level_is :: "reqlib \<Rightarrow> prefs \<Rightarrow> string \<Rightarrow> int \<Rightarrow> bool" where
  "level_is R prefs w k \<longleftrightarrow>
     (case pref_str (r_gsh R) prefs ''optimization_level'' of None \<Rightarrow> False | Some v \<Rightarrow> v = w \<or> atoi v = k)"

lemma closed_ports_loop_zero:
  assumes "\<And>i. \<exists>v. st i = Some v"
  obtains v where "closed_ports_loop st kb ns = Some v"
    "v = 0 \<longleftrightarrow> (\<forall>n \<in> set ns. if atoi n \<noteq> 0 then st (atoi n) = Some 0 else kb_item_get_int kb (Some n) \<le> 0)"
proof -
  have "\<exists>v. closed_ports_loop st kb ns = Some v \<and>
    (v = 0 \<longleftrightarrow> (\<forall>n \<in> set ns. if atoi n \<noteq> 0 then st (atoi n) = Some 0 else kb_item_get_int kb (Some n) \<le> 0))"
  proof (induction ns)
    case (Cons n ns)
    obtain s where "st (atoi n) = Some s" using assms by blast
    with Cons show ?case by (auto simp: Let_def)
  qed simp
  with that show thesis by blast
qed

lemma closed_udp_ports_loop_zero:
  assumes "\<And>i. \<exists>v. st i = Some v"
  obtains v where "closed_udp_ports_loop st ns = Some v"
    "v = 0 \<longleftrightarrow> (\<forall>n \<in> set ns. 0 < atoi n \<longrightarrow> st (atoi n) = Some 0)"
proof -
  have "\<exists>v. closed_udp_ports_loop st ns = Some v \<and> (v = 0 \<longleftrightarrow> (\<forall>n \<in> set ns. 0 < atoi n \<longrightarrow> st (atoi n) = Some 0))"
  proof (induction ns)
    case (Cons n ns)
    obtain s where "st (atoi n) = Some s" using assms by blast
    with Cons show ?case by (auto simp: Let_def)
  qed simp
  with that show thesis by blast
qed

lemma kb_single_none: "kb_item_get_single (Some k) (Some n) 0 = None \<longleftrightarrow> kb_vals k n = []"
  using kb_single_first [of k n] by (auto split: list.splits)

lemma key_missing_none:
  "key_missing (Some k) keys = None \<longleftrightarrow> (\<forall>al. keys = Some al \<longrightarrow> (\<forall>a \<in> set al. kb_vals k (arg_name a) \<noteq> []))"
  by (auto simp: key_missing_def find_None_iff kb_single_none split: option.splits)

lemma key_present_none:
  "key_present (Some k) keys = None \<longleftrightarrow> (\<forall>al. keys = Some al \<longrightarrow> (\<forall>a \<in> set al. kb_vals k (arg_name a) = []))"
  by (auto simp: key_present_def find_None_iff kb_single_none split: option.splits)

text \<open>
  C9: with a valid range of ports in the preferences the check of the requirements always has
  a result, and it lets a plugin pass exactly when one of its TCP ports is open and one of its
  UDP ports is open (where it names any), all its required keys are present, unless only ports
  are looked at, and none of its excluded keys is, unless only ports and required keys are.
\<close>

theorem requirements_plugin_iff:
  assumes "pref_str (r_gsh R) prefs ''port_range'' = Some r"
    and "validate_port_range (r_strsplit R) (r_strstrip R) (Some r) = 0"
  shows "requirements_plugin R (Some k) p prefs \<noteq> None
    \<and> (requirements_plugin R (Some k) p prefs = Some None \<longleftrightarrow>
        (\<forall>al. required_ports p = Some al \<longrightarrow> (\<exists>a \<in> set al. tcp_open R (Some k) prefs (arg_name a)))
      \<and> (\<forall>al. required_udp_ports p = Some al \<longrightarrow> (\<exists>a \<in> set al. udp_open R (Some k) prefs (arg_name a)))
      \<and> (level_is R prefs ''open_ports'' 1
         \<or> (\<forall>al. required_keys p = Some al \<longrightarrow> (\<forall>a \<in> set al. kb_vals k (arg_name a) \<noteq> []))
           \<and> (level_is R prefs ''required_keys'' 2
              \<or> (\<forall>al. excluded_keys p = Some al \<longrightarrow> (\<forall>a \<in> set al. kb_vals k (arg_name a) = [])))))"
proof -
  note d = port_state_defined [OF assms, of "Some k"]
  let ?T = "if required_ports p = None then Some 1 else get_closed_ports R (Some k) (required_ports p) prefs"
  let ?U = "if required_udp_ports p = None then Some 1 else get_closed_udp_ports R (Some k) (required_udp_ports p) prefs"
  obtain t where t: "?T = Some t"
    "t \<noteq> 0 \<longleftrightarrow> (\<forall>al. required_ports p = Some al \<longrightarrow> (\<exists>a \<in> set al. tcp_open R (Some k) prefs (arg_name a)))"
  proof (cases "required_ports p")
    case (Some al)
    obtain v where "closed_ports_loop (port_state R (Some k) prefs ''tcp'') (Some k) (map arg_name al) = Some v"
      "v = 0 \<longleftrightarrow> (\<forall>n \<in> set (map arg_name al). if atoi n \<noteq> 0 then port_state R (Some k) prefs ''tcp'' (atoi n) = Some 0
         else kb_item_get_int (Some k) (Some n) \<le> 0)"
      by (rule closed_ports_loop_zero [OF d])
    with Some show thesis by (intro that [of v]) (auto simp: get_closed_ports_def tcp_open_def not_le split: if_splits)
  qed (auto intro: that [of 1])
  obtain u where u: "?U = Some u"
    "u \<noteq> 0 \<longleftrightarrow> (\<forall>al. required_udp_ports p = Some al \<longrightarrow> (\<exists>a \<in> set al. udp_open R (Some k) prefs (arg_name a)))"
  proof (cases "required_udp_ports p")
    case (Some al)
    obtain v where "closed_udp_ports_loop (port_state R (Some k) prefs ''udp'') (map arg_name al) = Some v"
      "v = 0 \<longleftrightarrow> (\<forall>n \<in> set (map arg_name al). 0 < atoi n \<longrightarrow> port_state R (Some k) prefs ''udp'' (atoi n) = Some 0)"
      by (rule closed_udp_ports_loop_zero [OF d])
    with Some show thesis by (intro that [of v]) (auto simp: get_closed_udp_ports_def udp_open_def)
  qed (auto intro: that [of 1])
  show ?thesis
    unfolding requirements_plugin_def Let_def t(1) u(1) t(2) [symmetric] u(2) [symmetric]
      key_missing_none [symmetric] key_present_none [symmetric] level_is_def
    by (simp split: option.splits)
qed

definition reqlib0 :: reqlib where
  "reqlib0 = \<lparr>r_gsh = (\<lambda>_. 0), r_strsplit = glib_strsplit, r_strstrip = glib_strstrip\<rparr>"

definition prefs0 :: prefs where
  "prefs0 = Some [Arg ''port_range'' ARG_STRING (A_str ''1-100'') 5 0]"

lemma prefs0_range:
  "pref_str (r_gsh reqlib0) prefs0 ''port_range'' = Some ''1-100''"
  "validate_port_range (r_strsplit reqlib0) (r_strstrip reqlib0) (Some ''1-100'') = 0"
  by code_simp+

definition req_plugin :: "arglist list option \<Rightarrow> scheduler_plugin" where
  "req_plugin prts = \<lparr>running_state = PLUGIN_STATUS_UNRUN, category = 3, timeout = 0, required_ports = prts,
     required_udp_ports = None, required_keys = None, mandatory_keys = None, excluded_keys = None\<rparr>"

theorem requirements_plugin_iff_witness:
  "requirements_plugin reqlib0 (Some kb_new) (req_plugin (Some [Arg ''80'' ARG_INT (A_int 1) 0 0])) prefs0 = Some None"
proof -
  have "atoi ''80'' = 80" by code_simp
  moreover have "port_state reqlib0 (Some kb_new) prefs0 ''tcp'' 80 = Some 1"
    by (simp add: kb_get_port_state_proto_def kb_item_get_int_def kb_item_get_single_def kb_new_def
        unscanned_ports_as_closed_def prefs0_def pref_str_def arg_get_value_def arg_get_def Let_def reqlib0_def)
  ultimately have "tcp_open reqlib0 (Some kb_new) prefs0 ''80''" by (simp add: tcp_open_def)
  with requirements_plugin_iff [OF prefs0_range, of kb_new "req_plugin (Some [Arg ''80'' ARG_INT (A_int 1) 0 0])"]
  show ?thesis by (simp add: req_plugin_def)
qed

subsection \<open>Reported ports\<close>

lemma int_text_inj:
  assumes "- (2 ^ 31) \<le> i" "i < 2 ^ 31" "- (2 ^ 31) \<le> j" "j < 2 ^ 31"
  shows "int_text i = int_text j \<longleftrightarrow> i = j"
  using atoi_int_text [OF assms(1,2)] atoi_int_text [OF assms(3,4)] by metis

lemma port_key_full:
  assumes "0 \<le> i" "i \<le> 65535" "length pr \<le> 200"
  shows "port_key pr i = ''Ports/'' @ pr @ ''/'' @ int_text i"
  using int_text_length [of i] assms by (simp add: port_key_def snprintf_def)

lemma port_key_inj:
  assumes "0 \<le> i" "i \<le> 65535" "0 \<le> j" "j \<le> 65535"
  shows "port_key ''tcp'' i = port_key ''tcp'' j \<longleftrightarrow> i = j"
  using assms by (simp add: port_key_full int_text_inj)

lemma kb_int_vals:
  "kb_item_get_int (Some k) (Some n) =
     (case find (\<lambda>v. kb_type v = KB_TYPE_INT) (kb_vals k n) of Some (V_int i) \<Rightarrow> i | _ \<Rightarrow> -1)"
proof -
  have "find (\<lambda>v. kb_type v = KB_TYPE_INT) (kb_vals k n) =
      map_option kb_v (find (\<lambda>it. kb_name it = n \<and> kb_type (kb_v it) = KB_TYPE_INT) (k (mkkey (Some n))))"
    unfolding kb_vals_def by (rule kb_find_vals_Some [symmetric])
  then show ?thesis
    by (auto simp: kb_item_get_int_def kb_item_get_single_def KB_TYPE_INT_def split: option.splits)
qed

text \<open>
  Once a host counts as scanned, a TCP port of the scanned range is open exactly when it
  has been reported: reporting a port makes it open and changes the state of no other port.
\<close>

theorem reported_port_open:
  assumes "pref_str gsh prefs ''port_range'' = Some r" and "port_range_ranges strsplit strstrip r = Some rs"
    and "plug_kb p = Some k" and "0 < kb_item_get_int (Some k) (Some ''Host/scanned'')"
    and "0 \<le> a" "a \<le> 65535" "0 \<le> b" "b \<le> 65535" and "port_in_port_ranges b PORT_PROTOCOL_TCP (Some rs)"
    and "set (kb_vals k (port_key ''tcp'' a)) \<subseteq> {V_int 1}"
  shows "kb_get_port_state_proto gsh strsplit strstrip (plug_kb (scanner_add_port p a ''tcp'')) prefs b (Some ''tcp'')
    = (if b = a then Some 1 else kb_get_port_state_proto gsh strsplit strstrip (Some k) prefs b (Some ''tcp''))"
proof -
  let ?n = "port_key ''tcp'' a"
  let ?k' = "kb_add k ?n (V_int 1)"
  have p: "plug_kb (scanner_add_port p a ''tcp'') = Some ?k'"
    using assms(3) kb_addset_kb [of k ?n "V_int 1" False]
    by (simp add: scanner_add_port_def host_add_port_proto_def plug_set_key_def plug_set_replace_key_def
        kb_item_mutators Let_def to_int32_id)
  have "?n \<noteq> ''Host/scanned''" using assms(5,6) by (simp add: port_key_full)
  then have "0 < kb_item_get_int (Some ?k') (Some ''Host/scanned'')"
    using assms(4) by (simp add: kb_int_vals kbs.vals_add)
  moreover have "0 < kb_item_get_int (Some ?k') (Some (port_key ''tcp'' b))
      \<longleftrightarrow> b = a \<or> 0 < kb_item_get_int (Some k) (Some (port_key ''tcp'' b))"
    using assms(10) by (cases "kb_vals k ?n") (auto simp: kb_int_vals kbs.vals_add port_key_inj assms(5-8))
  ultimately show ?thesis
    using assms(1,2,4,9) by (simp add: p kb_get_port_state_proto_def)
qed

theorem reported_port_open_witness:
  "kb_get_port_state_proto (\<lambda>_. 0) glib_strsplit glib_strstrip
     (plug_kb (scanner_add_port ((plug0 [])\<lparr>plug_kb := Some (kb_add kb_new ''Host/scanned'' (V_int 1))\<rparr>) 80 ''tcp''))
     prefs0 80 (Some ''tcp'') = Some 1"
proof -
  let ?k = "kb_add kb_new ''Host/scanned'' (V_int 1)"
  obtain rs where rs: "port_range_ranges glib_strsplit glib_strstrip ''1-100'' = Some rs"
    "port_in_port_ranges 80 PORT_PROTOCOL_TCP (Some rs)"
  proof -
    have "port_in_port_ranges 80 PORT_PROTOCOL_TCP (port_range_ranges glib_strsplit glib_strstrip ''1-100'')"
      by code_simp
    then show thesis by (cases "port_range_ranges glib_strsplit glib_strstrip ''1-100''")
      (auto simp: port_in_port_ranges_def intro: that)
  qed
  have "kb_vals ?k (port_key ''tcp'' 80) = []" by (simp add: kbs.vals_add kbs.vals_empty port_key_full)
  moreover have "0 < kb_item_get_int (Some ?k) (Some ''Host/scanned'')"
    by (simp add: kb_int_vals kbs.vals_add kbs.vals_empty KB_TYPE_INT_def)
  moreover have "pref_str (\<lambda>_. 0) prefs0 ''port_range'' = Some ''1-100''" using prefs0_range(1) by (simp add: reqlib0_def)
  ultimately show ?thesis
    using reported_port_open [of "\<lambda>_. 0" prefs0 "''1-100''" glib_strsplit glib_strstrip rs
        "(plug0 [])\<lparr>plug_kb := Some ?k\<rparr>" ?k 80 80] rs by simp
qed

subsection \<open>An open port to talk to\<close>

definition port_no :: "kb_item \<Rightarrow> int" where
  "port_no it = atoi (drop 10 (kb_name it))"

definition proxied :: "int \<Rightarrow> bool" where
  "proxied n \<longleftrightarrow> n = 21 \<or> n = 80"

lemma candidates_loop_from:
  "candidates_loop its a b cs = (a', b', cs') \<Longrightarrow>
     set cs' \<subseteq> set cs \<union> {word_of_int (port_no it) | it. it \<in> set its \<and> \<not> proxied (port_no it)}
     \<and> (cs' = [] \<longrightarrow> (\<forall>it \<in> set its. proxied (port_no it))
          \<and> (a' \<longleftrightarrow> a \<or> 21 \<in> port_no ` set its) \<and> (b' \<longleftrightarrow> b \<or> 80 \<in> port_no ` set its))
     \<and> (cs \<noteq> [] \<longrightarrow> cs' \<noteq> [])"
proof (induction its a b cs rule: candidates_loop.induct)
  case (2 it its a b cs)
  consider "port_no it = 21" | "port_no it = 80" | "\<not> proxied (port_no it)" by (auto simp: proxied_def)
  then show ?case
  proof cases
    case 1
    with "2.prems" have "candidates_loop its True b cs = (a', b', cs')" by (simp add: port_no_def)
    from "2.IH"(1) [OF refl _ this] 1 show ?thesis by (auto simp: port_no_def proxied_def)
  next
    case 2
    with "2.prems" have "candidates_loop its a True cs = (a', b', cs')" by (simp add: port_no_def)
    from "2.IH"(2) [OF refl _ _ this] 2 show ?thesis by (auto simp: port_no_def proxied_def)
  next
    case 3
    have no: "port_no it \<noteq> 21" "port_no it \<noteq> 80" using 3 by (auto simp: proxied_def)
    let ?cs = "cs @ [word_of_int (port_no it)]"
    show ?thesis
    proof (cases "length ?cs \<ge> MAX_CANDIDATES")
      case True
      with "2.prems" no 3 show ?thesis by (auto simp: port_no_def Let_def)
    next
      case False
      with "2.prems" no have "candidates_loop its a b ?cs = (a', b', cs')" by (simp add: port_no_def Let_def)
      from "2.IH"(3) [OF refl _ _ refl _ this [unfolded port_no_def]] no False 3 show ?thesis
        by (auto simp: port_no_def)
    qed
  qed
qed auto

text \<open>
  The open port that a plugin is given is one of the open TCP ports in the knowledge base,
  21 or 80 only when no other port is open, and 0 only when none is.
\<close>

theorem open_port_choice:
  assumes "\<forall>it \<in> set (kb_item_get_pattern fnmatch kb ''Ports/tcp/*''). 1 \<le> port_no it \<and> port_no it \<le> 65535"
  shows "(kb_item_get_pattern fnmatch kb ''Ports/tcp/*'' = [] \<and> plug_get_host_open_port fnmatch rnd kb = 0)
    \<or> (\<exists>it \<in> set (kb_item_get_pattern fnmatch kb ''Ports/tcp/*'').
         uint (plug_get_host_open_port fnmatch rnd kb) = port_no it
         \<and> (proxied (port_no it) \<longrightarrow>
              (\<forall>it' \<in> set (kb_item_get_pattern fnmatch kb ''Ports/tcp/*''). proxied (port_no it'))))"
proof -
  let ?its = "kb_item_get_pattern fnmatch kb ''Ports/tcp/*''"
  obtain a b cs where c: "candidates_loop ?its False False [] = (a, b, cs)" by (cases "candidates_loop ?its False False []") auto
  note from_its = candidates_loop_from [OF c]
  consider "?its = []" | "?its \<noteq> []" "cs = []" | "?its \<noteq> []" "cs \<noteq> []" by blast
  then show ?thesis
  proof cases
    case 1
    then show ?thesis by (simp add: plug_get_host_open_port_def)
  next
    case 2
    then obtain it where it: "it \<in> set ?its" "proxied (port_no it)" using from_its by (cases ?its) auto
    with 2 from_its have "a \<or> b" by (auto simp: proxied_def)
    with 2 c from_its show ?thesis by (auto simp: plug_get_host_open_port_def)
  next
    case 3
    then have "cs ! (rnd mod length cs) \<in> set cs" by simp
    with from_its obtain it where it: "it \<in> set ?its" "\<not> proxied (port_no it)"
      "cs ! (rnd mod length cs) = word_of_int (port_no it)" by auto
    from assms it(1) have "1 \<le> port_no it" "port_no it \<le> 65535" by auto
    then have "uint (ucast (word_of_int (port_no it) :: 16 word) :: u32) = port_no it"
      by (simp add: unsigned_ucast_eq unsigned_of_int take_bit_int_eq_self)
    with 3 c it show ?thesis by (auto simp: plug_get_host_open_port_def)
  qed
qed

theorem open_port_choice_witness:
  "uint (plug_get_host_open_port (\<lambda>_ _. True) 7
     (Some ((\<lambda>_. [])(5 := [\<lparr>kb_name = ''Ports/tcp/443'', kb_v = V_int 1\<rparr>])))) = 443"
proof -
  let ?it = "\<lparr>kb_name = ''Ports/tcp/443'', kb_v = V_int 1\<rparr>"
  let ?k = "(\<lambda>_. [])(5 := [?it])"
  have s: "set (kb_item_get_pattern (\<lambda>_ _. True) (Some ?k) ''Ports/tcp/*'') = {?it}"
    by (auto simp: kb_pattern_rev HASH_MAX_def split: if_splits)
  have n: "port_no ?it = 443" by code_simp
  show ?thesis using open_port_choice [of "\<lambda>_ _. True" "Some ?k" 7] s n by force
qed

subsection \<open>Common ports\<close>

definition matches :: "arglist list \<Rightarrow> arglist list \<Rightarrow> string list" where
  "matches r1 r2 = concat (map (\<lambda>a. map arg_name (filter (\<lambda>r. arg_type a = arg_type r \<and> arg_name r = arg_name a) r2)) r1)"

fun holds :: "(string \<Rightarrow> u32) \<Rightarrow> name_cache \<Rightarrow> string list \<Rightarrow> name_cache \<times> arglist list option \<Rightarrow> bool" where
  "holds gsh c0 ns (c, out) \<longleftrightarrow> c = foldl (cache_inc gsh) c0 ns
     \<and> (case out of None \<Rightarrow> ns = [] | Some l \<Rightarrow> ns \<noteq> [] \<and> map arg_name l = ns)"

lemma common_inner_holds:
  "holds gsh c0 ns st \<Longrightarrow> holds gsh c0 (ns @ map arg_name (filter (\<lambda>r. arg_type a = arg_type r \<and> arg_name r = arg_name a) rs))
     (common_inner gsh a rs st)"
proof (induction rs arbitrary: ns st)
  case Nil
  then show ?case by (cases st) auto
next
  case (Cons r rs)
  obtain c out where st: "st = (c, out)" by fastforce
  show ?case
  proof (cases "arg_type a = arg_type r \<and> arg_name r = arg_name a")
    case True
    have "holds gsh c0 (ns @ [arg_name r])
        (arg_add_value gsh c (Some (case out of None \<Rightarrow> [] | Some l \<Rightarrow> l)) (arg_name r) ARG_INT 0 (A_int 1))"
      using Cons.prems by (auto simp: st arg_add_value_def arg_types split: option.splits)
    from Cons.IH [OF this] True st show ?thesis by simp
  next
    case False
    with Cons.IH [OF Cons.prems] st show ?thesis by auto
  qed
qed

lemma common_fold_holds:
  "holds gsh c0 ns st \<Longrightarrow> holds gsh c0 (ns @ matches r1 r2) (foldl (\<lambda>st a. common_inner gsh a r2 st) st r1)"
proof (induction r1 arbitrary: ns st)
  case (Cons a r1)
  from Cons.IH [OF common_inner_holds [OF Cons.prems, of a r2]] show ?case by (simp add: matches_def)
qed (simp add: matches_def)

text \<open>
  Two plugins have ports in common exactly when a name (of the same type) occurs in both
  lists; the result holds exactly those names, and releasing it gives back every reference.
\<close>

theorem common_ports_exact:
  assumes "cache_wf gsh c" and "required_ports p1 = Some r1" and "required_ports p2 = Some r2"
    and "requirements_common_ports gsh c (Some p1) (Some p2) = (c', l)"
  shows "(case l of None \<Rightarrow> {} | Some al \<Rightarrow> arg_name ` set al)
      = {n. \<exists>a \<in> set r1. \<exists>b \<in> set r2. arg_name a = n \<and> arg_name b = n \<and> arg_type a = arg_type b}
    \<and> l \<noteq> Some []
    \<and> occ gsh (case l of None \<Rightarrow> c' | Some al \<Rightarrow> arg_free gsh c' al) = occ gsh c"
proof -
  have "holds gsh c ([] @ matches r1 r2) (foldl (\<lambda>st a. common_inner gsh a r2 st) (c, None) r1)"
    by (rule common_fold_holds) simp
  then have h: "holds gsh c (matches r1 r2) (c', l)"
    using assms(2-4) by (simp add: requirements_common_ports_def)
  have "foldl (\<lambda>c a. cache_dec gsh c (Some (arg_name a))) c' al = foldl (\<lambda>c n. cache_dec gsh c (Some n)) c' (map arg_name al)" for al
    by (simp add: foldl_map)
  with h names.take_and_drop [OF assms(1), of "matches r1 r2" "matches r1 r2"]
  have "occ gsh (case l of None \<Rightarrow> c' | Some al \<Rightarrow> arg_free gsh c' al) = occ gsh c"
    by (cases l) (auto simp: arg_free_def fun_eq_iff)
  moreover have "set (matches r1 r2)
      = {n. \<exists>a \<in> set r1. \<exists>b \<in> set r2. arg_name a = n \<and> arg_name b = n \<and> arg_type a = arg_type b}"
    by (auto simp: matches_def)
  moreover have "(case l of None \<Rightarrow> {} | Some al \<Rightarrow> arg_name ` set al) = set (matches r1 r2)"
    using h by (cases l) (auto simp flip: set_map)
  ultimately show ?thesis using h by (auto split: option.splits)
qed

theorem common_ports_exact_witness:
  "(case snd (requirements_common_ports (\<lambda>_. 0) cache_start
       (Some (req_plugin (Some [Arg ''80'' ARG_INT (A_int 1) 0 0])))
       (Some (req_plugin (Some [Arg ''22'' ARG_INT (A_int 1) 0 0, Arg ''80'' ARG_INT (A_int 1) 0 0])))) of
     None \<Rightarrow> {} | Some al \<Rightarrow> arg_name ` set al) = {''80''}"
proof -
  let ?r1 = "[Arg ''80'' ARG_INT (A_int 1) 0 0]" and ?r2 = "[Arg ''22'' ARG_INT (A_int 1) 0 0, Arg ''80'' ARG_INT (A_int 1) 0 0]"
  have "cache_wf (\<lambda>_. 0) cache_start" by (simp add: cache_wf_def cache_start_def bucket_ok_def)
  moreover have "required_ports (req_plugin (Some ?r1)) = Some ?r1" "required_ports (req_plugin (Some ?r2)) = Some ?r2"
    by (simp_all add: req_plugin_def)
  moreover obtain c' l where "requirements_common_ports (\<lambda>_. 0) cache_start
      (Some (req_plugin (Some ?r1))) (Some (req_plugin (Some ?r2))) = (c', l)" by fastforce
  ultimately show ?thesis
    using common_ports_exact [of "\<lambda>_. 0" cache_start "req_plugin (Some ?r1)" ?r1 "req_plugin (Some ?r2)" ?r2 c' l] by auto
qed

end
