(* ===== verification/PluginLaunch.thy ===== *)
theory PluginLaunch
  imports PluginReq
begin

text \<open>
  The processes of the plugins of one host, \<open>openvas-scanner/src/pluginlaunch.c\<close>: a table of
  \<open>MAX_PROCESSES\<close> slots, the number of used ones and its limit, with the limits and timeouts
  it takes from \<open>utils.c\<close> and \<open>preferences.c\<close>.

  The table is part of a record that also holds the scheduler (whose plugins change their state
  when a process ends), the knowledge base of the host, the static buffer for messages, the
  value SOCKET of each plugin, and the timeout messages that were sent. A slot carries the
  process of \<open>PlugMsg\<close> with its sockets; a descriptor is its number.

  What the system answers is a parameter: the loops that wait take a list of ticks, one per
  round, each with the sockets that are readable, the time and the processes that live. They
  are blocked when the list ends. A new process comes with its number (not positive when the
  fork failed), the socket pair and the time.
\<close>

subsection \<open>Data\<close>

definition MAX_PROCESSES :: nat where "MAX_PROCESSES = 32"

record running =
  pid :: int
  rplugin :: nat
  rtimeout :: int
  rstart :: int
  launch_status :: int
  upstream_fd :: int
  internal_fd :: int
  proc :: process

record launcher =
  slots :: "running list"
  num_running :: int
  max_running :: int
  old_max_running :: int
  non_simult :: "arglist list option"
  sched :: plugins_scheduler
  host_kb :: "kb option"
  host_name :: "string option"
  saving_kb :: bool
  kb_saved :: "(string \<times> kb_value) list"
  msg_buf :: "string option"
  msg_sz :: int
  socket_of :: "nat \<Rightarrow> int"
  errmsgs :: "(int \<times> string) list"
  timeout_cache :: int

record tick =
  readable :: "nat \<Rightarrow> bool"
  now :: int
  lives :: "int \<Rightarrow> bool"

record spawn =
  spawn_pid :: int
  spawn_fd0 :: int
  spawn_fd1 :: int
  spawn_conn :: conn
  spawn_up :: conn
  spawn_time :: int

datatype 'a outcome = Blocked | Undefined | Done 'a

definition free_process :: process where
  "free_process = \<lparr>internal_soc = \<lparr>rx = [], tx = [], sent = []\<rparr>, upstream_soc = \<lparr>rx = [], tx = [], sent = []\<rparr>,
     proc_kb = None, alive = False, saving = False, saved = [], buffer = None, bufsz = 0\<rparr>"

definition free_slot :: running where
  "free_slot = \<lparr>pid = 0, rplugin = 0, rtimeout = 0, rstart = 0, launch_status = 0, upstream_fd = 0,
     internal_fd = 0, proc = free_process\<rparr>"

definition used :: "launcher \<Rightarrow> nat \<Rightarrow> bool" where
  "used L i \<longleftrightarrow> pid (slots L ! i) > 0"

subsection \<open>Limits and timeouts\<close>

definition max_number :: "(string \<Rightarrow> u32) \<Rightarrow> prefs \<Rightarrow> string \<Rightarrow> int \<Rightarrow> int" where
  "max_number gsh prefs name global_max =
     (case pref_str gsh prefs name of
        None \<Rightarrow> global_max
      | Some v \<Rightarrow>
          let n = atoi v in
          if n \<le> 0 then global_max else if n > global_max then global_max else n)"

definition get_max_hosts_number :: "(string \<Rightarrow> u32) \<Rightarrow> prefs \<Rightarrow> int \<Rightarrow> int" where
  "get_max_hosts_number gsh prefs global_max_hosts = max_number gsh prefs ''max_hosts'' global_max_hosts"

definition get_max_checks_number :: "(string \<Rightarrow> u32) \<Rightarrow> prefs \<Rightarrow> int \<Rightarrow> int" where
  "get_max_checks_number gsh prefs global_max_checks = max_number gsh prefs ''max_checks'' global_max_checks"

definition NVT_TIMEOUT :: int where "NVT_TIMEOUT = 320"

text \<open>The result and the new value of the static variable \<open>to\<close>.\<close>

definition preferences_plugins_timeout :: "(string \<Rightarrow> u32) \<Rightarrow> prefs \<Rightarrow> int \<Rightarrow> int \<times> int" where
  "preferences_plugins_timeout gsh prefs to =
     (if prefs = None then (-1, -1)
      else if to \<ge> 0 then (to, to)
      else
        let to = (case pref_str gsh prefs ''plugins_timeout'' of
                    None \<Rightarrow> NVT_TIMEOUT
                  | Some v \<Rightarrow> if atoi v = 0 then NVT_TIMEOUT else atoi v)
        in (to, to))"

definition preferences_plugin_timeout :: "(string \<Rightarrow> u32) \<Rightarrow> prefs \<Rightarrow> string option \<Rightarrow> int" where
  "preferences_plugin_timeout gsh prefs oid =
     (let name = ''timeout.'' @ (case oid of None \<Rightarrow> ''(null)'' | Some o' \<Rightarrow> o') in
      if arg_get_type gsh prefs name = ARG_STRING
      then (case pref_str gsh prefs name of None \<Rightarrow> 0 | Some v \<Rightarrow> atoi v)
      else 0)"

subsection \<open>Reading and updating\<close>

text \<open>\<open>process_internal_msg\<close> for the process in slot \<open>i\<close>, with what all processes share.\<close>

definition slot_message :: "launcher \<Rightarrow> nat \<Rightarrow> launcher" where
  "slot_message L i =
     (let r = slots L ! i;
          p = (proc r)\<lparr>proc_kb := host_kb L, saving := saving_kb L, saved := kb_saved L,
                buffer := msg_buf L, bufsz := msg_sz L\<rparr>;
          (e, p) = process_internal_msg p
      in L\<lparr>slots := (slots L)[i := r\<lparr>proc := p\<rparr>], host_kb := proc_kb p, kb_saved := saved p,
           msg_buf := buffer p, msg_sz := bufsz p\<rparr>)"

definition read_slot :: "(nat \<Rightarrow> bool) \<Rightarrow> launcher \<Rightarrow> nat \<Rightarrow> launcher" where
  "read_slot rd L i = (if used L i \<and> rd i then slot_message L i else L)"

text \<open>
  \<open>select\<close> returns 0 when no socket of a process is readable; the reset of the number of
  processes at the end is for a table without processes, which is not reached then.
\<close>

definition read_running_processes :: "(nat \<Rightarrow> bool) \<Rightarrow> launcher \<Rightarrow> launcher" where
  "read_running_processes rd L =
     (if num_running L = 0 then L
      else if \<not> list_ex (\<lambda>i. used L i \<and> rd i) [0..<MAX_PROCESSES] then L
      else foldl (read_slot rd) L [0..<MAX_PROCESSES])"

definition timeout_msg :: "launcher \<Rightarrow> running \<Rightarrow> string" where
  "timeout_msg L r =
     ''SERVER <|> ERRMSG <|> '' @ (case host_name L of None \<Rightarrow> ''HOST'' | Some h \<Rightarrow> h)
       @ '' <|> general/tcp <|> NVT timed out after '' @ int_text (rtimeout r) @ '' seconds. <|> ''
       @ (case pa_oid (args (sched L) (rplugin r)) of None \<Rightarrow> ''0'' | Some o' \<Rightarrow> o')
       @ '' <|> SERVER'' @ [CHR 0x0A]"

definition end_slot :: "launcher \<Rightarrow> nat \<Rightarrow> launcher" where
  "end_slot L i =
     L\<lparr>num_running := num_running L - 1,
       sched := plugin_set_running_state (sched L) (Some (rplugin (slots L ! i))) PLUGIN_STATUS_DONE,
       slots := (slots L)[i := free_slot]\<rparr>"

definition expired :: "int \<Rightarrow> running \<Rightarrow> bool" where
  "expired t r \<longleftrightarrow> \<not> alive (proc r) \<or> (rtimeout r > 0 \<and> t - rstart r > rtimeout r)"

definition update_slot :: "int \<Rightarrow> launcher \<Rightarrow> nat \<Rightarrow> launcher" where
  "update_slot t L i =
     (let r = slots L ! i in
      if used L i \<and> expired t r
      then end_slot (if alive (proc r) then L\<lparr>errmsgs := errmsgs L @ [(upstream_fd r, timeout_msg L r)]\<rparr> else L) i
      else L)"

definition update_running_processes :: "int \<Rightarrow> launcher \<Rightarrow> launcher" where
  "update_running_processes t L =
     (if num_running L = 0 then L else foldl (update_slot t) L [0..<MAX_PROCESSES])"

definition turn :: "tick \<Rightarrow> launcher \<Rightarrow> launcher" where
  "turn t L = update_running_processes (now t) (read_running_processes (readable t) L)"

subsection \<open>A free slot\<close>

fun wait_slot :: "nat \<Rightarrow> tick list \<Rightarrow> launcher \<Rightarrow> (launcher \<times> tick list) outcome" where
  "wait_slot r [] L = (if pid (slots L ! r) = 0 then Done (L, []) else Blocked)"
| "wait_slot r (t # ts) L =
     (if pid (slots L ! r) = 0 \<or> \<not> lives t (pid (slots L ! r)) then Done (L, t # ts)
      else wait_slot r ts (turn t L))"

fun conflict_loop ::
  "(string \<Rightarrow> u32) \<Rightarrow> nat \<Rightarrow> nat list \<Rightarrow> tick list \<Rightarrow> launcher \<Rightarrow> (launcher \<times> tick list) outcome" where
  "conflict_loop gsh p [] ts L = Done (L, ts)"
| "conflict_loop gsh p (r # rs) ts L =
     (if used L r then
        let s = sched L;
            (c, cp) = requirements_common_ports gsh (cache s)
              (Some (plugin s (rplugin (slots L ! r)))) (Some (plugin s p))
        in (case cp of
              None \<Rightarrow> conflict_loop gsh p rs ts (L\<lparr>sched := s\<lparr>cache := c\<rparr>\<rparr>)
            | Some al \<Rightarrow>
                let L = L\<lparr>sched := s\<lparr>cache := arg_free gsh c al\<rparr>\<rparr> in
                if common (Some al) (non_simult L)
                then (case wait_slot r ts L of
                        Done (L, ts) \<Rightarrow> conflict_loop gsh p rs ts L
                      | Undefined \<Rightarrow> Undefined
                      | Blocked \<Rightarrow> Blocked)
                else conflict_loop gsh p rs ts L)
      else conflict_loop gsh p rs ts L)"

definition next_free_process ::
  "(string \<Rightarrow> u32) \<Rightarrow> nat \<Rightarrow> tick list \<Rightarrow> launcher \<Rightarrow> (int \<times> launcher \<times> tick list) outcome" where
  "next_free_process gsh p ts L =
     (case conflict_loop gsh p [0..<MAX_PROCESSES] ts L of
        Blocked \<Rightarrow> Blocked
      | Undefined \<Rightarrow> Undefined
      | Done (L, ts) \<Rightarrow>
          Done (case find (\<lambda>r. \<not> used L r) [0..<MAX_PROCESSES] of None \<Rightarrow> -1 | Some r \<Rightarrow> int r, L, ts))"

subsection \<open>Launching\<close>

definition pluginlaunch_init :: "(string \<Rightarrow> u32) \<Rightarrow> prefs \<Rightarrow> int \<Rightarrow> launcher \<Rightarrow> launcher" where
  "pluginlaunch_init gsh prefs global_max_checks L =
     (let m = get_max_checks_number gsh prefs global_max_checks in
      L\<lparr>non_simult := (case arg_get_value gsh prefs ''non_simult_ports_list'' of A_list l \<Rightarrow> Some l | _ \<Rightarrow> None),
        old_max_running := m,
        max_running := (if m \<ge> int MAX_PROCESSES then int MAX_PROCESSES - 1 else m),
        num_running := 0,
        slots := replicate MAX_PROCESSES free_slot\<rparr>)"

definition pluginlaunch_disable_parrallel_checks :: "launcher \<Rightarrow> launcher" where
  "pluginlaunch_disable_parrallel_checks L = L\<lparr>max_running := 1\<rparr>"

definition pluginlaunch_enable_parrallel_checks :: "launcher \<Rightarrow> launcher" where
  "pluginlaunch_enable_parrallel_checks L = L\<lparr>max_running := old_max_running L\<rparr>"

definition stop_slot :: "launcher \<Rightarrow> nat \<Rightarrow> launcher" where
  "stop_slot L i = (if used L i then end_slot L i else L)"

definition pluginlaunch_stop :: "(nat \<Rightarrow> bool) \<Rightarrow> launcher \<Rightarrow> launcher" where
  "pluginlaunch_stop rd L = foldl stop_slot (read_running_processes rd L) [0..<MAX_PROCESSES]"

text \<open>The handler of SIGTERM, up to the exit of the process of the host.\<close>

definition process_mgr_sighand_term :: "launcher \<Rightarrow> launcher" where
  "process_mgr_sighand_term L = foldl stop_slot L [0..<MAX_PROCESSES]"

fun launch_wait :: "tick list \<Rightarrow> launcher \<Rightarrow> (launcher \<times> tick list) outcome" where
  "launch_wait [] L = (if num_running L \<ge> max_running L then Blocked else Done (L, []))"
| "launch_wait (t # ts) L =
     (if num_running L \<ge> max_running L then launch_wait ts (turn t L) else Done (L, t # ts))"

definition plugin_timeout :: "(string \<Rightarrow> u32) \<Rightarrow> prefs \<Rightarrow> launcher \<Rightarrow> nat \<Rightarrow> int \<times> int" where
  "plugin_timeout gsh prefs L p =
     (let to = preferences_plugin_timeout gsh prefs (pa_oid (args (sched L) p));
          to = (if to = 0 then timeout (plugin (sched L) p) else to)
      in if to = 0 then
           (if category (plugin (sched L) p) = int ACT_SCANNER then (-1, timeout_cache L)
            else preferences_plugins_timeout gsh prefs (timeout_cache L))
         else (to, timeout_cache L))"

text \<open>The part of \<open>plugin_launch\<close> after the slot \<open>i\<close> is found.\<close>

definition fill_slot :: "(string \<Rightarrow> u32) \<Rightarrow> prefs \<Rightarrow> spawn \<Rightarrow> nat \<Rightarrow> nat \<Rightarrow> launcher \<Rightarrow> launcher" where
  "fill_slot gsh prefs sp p i L =
     (let (to, tc) = plugin_timeout gsh prefs L p;
          r = \<lparr>pid = spawn_pid sp, rplugin = p, rtimeout = to, rstart = spawn_time sp,
               launch_status = plug_get_launch (sched L) p, upstream_fd = socket_of L p,
               internal_fd = spawn_fd0 sp,
               proc = free_process\<lparr>internal_soc := spawn_conn sp, upstream_soc := spawn_up sp, alive := True\<rparr>\<rparr>;
          L = L\<lparr>slots := (slots L)[i := r], timeout_cache := tc, socket_of := (socket_of L)(p := spawn_fd1 sp)\<rparr>
      in if spawn_pid sp > 0 then L\<lparr>num_running := num_running L + 1\<rparr>
         else L\<lparr>sched := plugin_set_running_state (sched L) (Some p) PLUGIN_STATUS_UNRUN\<rparr>)"

definition plugin_launch ::
  "(string \<Rightarrow> u32) \<Rightarrow> prefs \<Rightarrow> spawn \<Rightarrow> nat \<Rightarrow> tick list \<Rightarrow> launcher \<Rightarrow> (int \<times> launcher \<times> tick list) outcome" where
  "plugin_launch gsh prefs sp p ts L =
     (case launch_wait ts L of
        Blocked \<Rightarrow> Blocked
      | Undefined \<Rightarrow> Undefined
      | Done (L, ts) \<Rightarrow>
          (case next_free_process gsh p ts L of
             Blocked \<Rightarrow> Blocked
           | Undefined \<Rightarrow> Undefined
           | Done (i, L, ts) \<Rightarrow>
               if i < 0 then Undefined
               else Done (spawn_pid sp, fill_slot gsh prefs sp p (nat i) L, ts)))"

subsection \<open>Waiting\<close>

fun pluginlaunch_wait :: "tick list \<Rightarrow> launcher \<Rightarrow> (launcher \<times> tick list) outcome" where
  "pluginlaunch_wait [] L = Blocked"
| "pluginlaunch_wait (t # ts) L =
     (let L = turn t L in if num_running L \<noteq> 0 then pluginlaunch_wait ts L else Done (L, ts))"

fun wait_while :: "int \<Rightarrow> tick list \<Rightarrow> launcher \<Rightarrow> (launcher \<times> tick list) outcome" where
  "wait_while n [] L = Blocked"
| "wait_while n (t # ts) L =
     (let L = turn t L in if num_running L = n then wait_while n ts L else Done (L, ts))"

definition pluginlaunch_wait_for_free_process :: "tick list \<Rightarrow> launcher \<Rightarrow> (launcher \<times> tick list) outcome" where
  "pluginlaunch_wait_for_free_process ts L = wait_while (num_running L) ts L"

end
