(* ===== verification/PluginLaunchCorrect.thy ===== *)
theory PluginLaunchCorrect
  imports PluginLaunch SchedulerCorrect
begin

text \<open>
  The table of processes: its invariant, that all operations keep it and stay within the
  table, how the states of the plugins follow, and that waiting comes to an end.
\<close>

subsection \<open>The invariant\<close>

definition used_set :: "launcher \<Rightarrow> nat set" where
  "used_set L = {i. i < MAX_PROCESSES \<and> used L i}"

definition launch_inv :: "launcher \<Rightarrow> bool" where
  "launch_inv L \<longleftrightarrow> length (slots L) = MAX_PROCESSES \<and> num_running L = int (card (used_set L))
     \<and> (\<forall>i \<in> used_set L. state (sched L) (rplugin (slots L ! i)) = PLUGIN_STATUS_RUNNING)
     \<and> inj_on (\<lambda>i. rplugin (slots L ! i)) (used_set L)"

lemma finite_used [simp]: "finite (used_set L)"
  by (simp add: used_set_def)

lemma used_card: "card (used_set L) \<le> MAX_PROCESSES"
  using card_mono [of "{..<MAX_PROCESSES}" "used_set L"] by (auto simp: used_set_def)

text \<open>
  What a turn does to the table: slots may be freed, their plugins go from running to done,
  everything else stays.
\<close>

definition later :: "launcher \<Rightarrow> launcher \<Rightarrow> bool" where
  "later L L' \<longleftrightarrow> used_set L' \<subseteq> used_set L \<and> length (slots L') = length (slots L)
     \<and> (\<forall>i \<in> used_set L'. let r = slots L ! i; r' = slots L' ! i in
          rplugin r' = rplugin r \<and> rtimeout r' = rtimeout r \<and> rstart r' = rstart r)
     \<and> max_running L' = max_running L \<and> old_max_running L' = old_max_running L \<and> non_simult L' = non_simult L
     \<and> entry (sched L') = entry (sched L) \<and> args (sched L') = args (sched L) \<and> hash (sched L') = hash (sched L)
     \<and> lists (sched L') = lists (sched L) \<and> desc (sched L') = desc (sched L) \<and> socket_of L' = socket_of L
     \<and> (\<forall>q. state (sched L') q = state (sched L) q
           \<or> (state (sched L) q = PLUGIN_STATUS_RUNNING \<and> state (sched L') q = PLUGIN_STATUS_DONE
              \<and> q \<in> (\<lambda>i. rplugin (slots L ! i)) ` (used_set L - used_set L')))
     \<and> (\<forall>i \<in> used_set L - used_set L'. state (sched L') (rplugin (slots L ! i)) = PLUGIN_STATUS_DONE)"

lemma later_refl [simp]: "later L L"
  by (simp add: later_def)

lemma later_freed: "later L L' \<Longrightarrow> i \<in> used_set L \<Longrightarrow> i \<notin> used_set L' \<Longrightarrow>
    state (sched L') (rplugin (slots L ! i)) = PLUGIN_STATUS_DONE"
  by (simp add: later_def)

lemma later_slot: "later L L' \<Longrightarrow> i \<in> used_set L' \<Longrightarrow> rplugin (slots L' ! i) = rplugin (slots L ! i)
    \<and> rtimeout (slots L' ! i) = rtimeout (slots L ! i) \<and> rstart (slots L' ! i) = rstart (slots L ! i)"
  by (auto simp: later_def Let_def)

lemma later_used: "later L L' \<Longrightarrow> used_set L' \<subseteq> used_set L"
  by (simp add: later_def)

lemma later_state: "later L L' \<Longrightarrow> q \<notin> (\<lambda>i. rplugin (slots L ! i)) ` used_set L \<Longrightarrow>
    state (sched L') q = state (sched L) q"
  by (auto simp: later_def)

lemma later_trans:
  assumes "later A B" "later B C"
  shows "later A C"
proof -
  have uc: "used_set C \<subseteq> used_set B" "used_set B \<subseteq> used_set A" using assms by (simp_all add: later_def)
  have rp: "rplugin (slots B ! i) = rplugin (slots A ! i)" if "i \<in> used_set B" for i
    using assms(1) that by (auto simp: later_def Let_def)
  have im: "(\<lambda>i. rplugin (slots B ! i)) ` (used_set B - used_set C) \<subseteq> (\<lambda>i. rplugin (slots A ! i)) ` (used_set A - used_set C)"
    using rp uc by force
  have im': "(\<lambda>i. rplugin (slots A ! i)) ` (used_set A - used_set B) \<subseteq> (\<lambda>i. rplugin (slots A ! i)) ` (used_set A - used_set C)"
    using uc by blast
  have st: "state (sched C) q = state (sched A) q
      \<or> (state (sched A) q = PLUGIN_STATUS_RUNNING \<and> state (sched C) q = PLUGIN_STATUS_DONE
         \<and> q \<in> (\<lambda>i. rplugin (slots A ! i)) ` (used_set A - used_set C))" for q
  proof -
    have "state (sched B) q = state (sched A) q \<or> (state (sched A) q = PLUGIN_STATUS_RUNNING
      \<and> state (sched B) q = PLUGIN_STATUS_DONE \<and> q \<in> (\<lambda>i. rplugin (slots A ! i)) ` (used_set A - used_set B))"
      "state (sched C) q = state (sched B) q \<or> (state (sched B) q = PLUGIN_STATUS_RUNNING
      \<and> state (sched C) q = PLUGIN_STATUS_DONE \<and> q \<in> (\<lambda>i. rplugin (slots B ! i)) ` (used_set B - used_set C))"
      using assms by (simp_all add: later_def)
    then show ?thesis using im im' by auto
  qed
  have "state (sched C) (rplugin (slots A ! i)) = PLUGIN_STATUS_DONE" if "i \<in> used_set A - used_set C" for i
  proof (cases "i \<in> used_set B")
    case True
    with that rp [OF True] later_freed [OF assms(2) True] show ?thesis by simp
  next
    case False
    with that assms(1) have "state (sched B) (rplugin (slots A ! i)) = PLUGIN_STATUS_DONE" by (auto simp: later_def)
    moreover have "state (sched C) q = state (sched B) q \<or> state (sched B) q = PLUGIN_STATUS_RUNNING" for q
      using assms(2) by (auto simp: later_def)
    ultimately show ?thesis by (metis plugin_status.distinct(7))
  qed
  moreover have "\<forall>i \<in> used_set C. let r = slots A ! i; r' = slots C ! i in
          rplugin r' = rplugin r \<and> rtimeout r' = rtimeout r \<and> rstart r' = rstart r"
    using assms uc by (fastforce simp: later_def Let_def)
  ultimately show ?thesis using st uc assms by (auto simp: later_def)
qed

lemma foldl_later:
  "(\<And>L i. P L \<Longrightarrow> i \<in> set is \<Longrightarrow> later L (f L i) \<and> P (f L i)) \<Longrightarrow> P L \<Longrightarrow> later L (foldl f L is) \<and> P (foldl f L is)"
proof (induction "is" arbitrary: L)
  case (Cons i "is")
  then have s: "later L (f L i)" "P (f L i)" by simp_all
  have "later (f L i) (foldl f (f L i) is) \<and> P (foldl f (f L i) is)"
    using Cons.prems(1) s(2) by (intro Cons.IH) auto
  with s(1) show ?case by (auto intro: later_trans)
qed simp

subsection \<open>Messages\<close>

lemma slot_message_frame:
  assumes "i < length (slots L)"
  shows "later L (slot_message L i)" "used_set (slot_message L i) = used_set L"
    "num_running (slot_message L i) = num_running L" "sched (slot_message L i) = sched L"
    "map pid (slots (slot_message L i)) = map pid (slots L)"
    "map rplugin (slots (slot_message L i)) = map rplugin (slots L)"
proof -
  obtain P where sl: "slots (slot_message L i) = (slots L)[i := (slots L ! i)\<lparr>proc := P\<rparr>]"
    by (simp add: slot_message_def Let_def case_prod_beta)
  have nth: "slots (slot_message L i) ! j = (if j = i then (slots L ! i)\<lparr>proc := P\<rparr> else slots L ! j)" for j
    using assms by (simp add: sl nth_list_update)
  show "map pid (slots (slot_message L i)) = map pid (slots L)"
    "map rplugin (slots (slot_message L i)) = map rplugin (slots L)"
    using assms by (simp_all add: sl map_update list_update_same_conv)
  show u: "used_set (slot_message L i) = used_set L" by (auto simp: used_set_def used_def nth)
  show "num_running (slot_message L i) = num_running L" and s: "sched (slot_message L i) = sched L"
    by (simp_all add: slot_message_def Let_def case_prod_beta)
  have "max_running (slot_message L i) = max_running L" "old_max_running (slot_message L i) = old_max_running L"
    "non_simult (slot_message L i) = non_simult L" "socket_of (slot_message L i) = socket_of L"
    by (simp_all add: slot_message_def Let_def case_prod_beta)
  moreover have "length (slots (slot_message L i)) = length (slots L)" by (simp add: sl)
  ultimately show "later L (slot_message L i)" by (auto simp: later_def u s nth Let_def)
qed

lemma launch_inv_same:
  assumes "launch_inv L" "length (slots L') = length (slots L)" "used_set L' = used_set L" "num_running L' = num_running L"
    "\<And>i. i \<in> used_set L \<Longrightarrow> rplugin (slots L' ! i) = rplugin (slots L ! i)"
    "\<And>q. state (sched L') q = state (sched L) q"
  shows "launch_inv L'"
  using assms by (auto simp: launch_inv_def inj_on_def)

lemma read_slot_inv:
  assumes "launch_inv L" and "i < MAX_PROCESSES"
  shows "later L (read_slot rd L i) \<and> launch_inv (read_slot rd L i)"
proof (cases "used L i \<and> rd i")
  case True
  have i: "i < length (slots L)" using assms by (simp add: launch_inv_def)
  note f = slot_message_frame [OF i]
  have "rplugin (slots (slot_message L i) ! j) = rplugin (slots L ! j)" if "j < length (slots L)" for j
    using f(6) that by (metis length_map nth_map)
  then have "launch_inv (slot_message L i)"
    using assms f(1-4) by (intro launch_inv_same [OF assms(1)]) (auto simp: later_def used_set_def launch_inv_def)
  with f(1) True show ?thesis by (simp add: read_slot_def)
next
  case False
  with assms show ?thesis unfolding read_slot_def by (simp only: if_False later_refl)
qed

lemma read_inv:
  assumes "launch_inv L"
  shows "later L (read_running_processes rd L) \<and> launch_inv (read_running_processes rd L)"
  using assms foldl_later [of launch_inv "[0..<MAX_PROCESSES]" "read_slot rd" L] read_slot_inv
  by (auto simp: read_running_processes_def)

subsection \<open>Ended processes\<close>

lemma end_slot_inv:
  assumes "launch_inv L" and "i \<in> used_set L"
  shows "later L (end_slot L i)" "launch_inv (end_slot L i)" "used_set (end_slot L i) = used_set L - {i}"
    "state (sched (end_slot L i)) (rplugin (slots L ! i)) = PLUGIN_STATUS_DONE"
proof -
  let ?p = "rplugin (slots L ! i)"
  have len: "length (slots L) = MAX_PROCESSES" and i: "i < MAX_PROCESSES" "used L i"
    and run: "\<And>j. j \<in> used_set L \<Longrightarrow> state (sched L) (rplugin (slots L ! j)) = PLUGIN_STATUS_RUNNING"
    and inj: "inj_on (\<lambda>i. rplugin (slots L ! i)) (used_set L)"
    and num: "num_running L = int (card (used_set L))"
    using assms by (auto simp: launch_inv_def used_set_def)
  have nth: "slots (end_slot L i) ! j = (if j = i then free_slot else slots L ! j)" for j
    using len i by (simp add: end_slot_def nth_list_update)
  have st: "state (sched (end_slot L i)) q = (if q = ?p then PLUGIN_STATUS_DONE else state (sched L) q)" for q
    by (simp add: end_slot_def plugin_set_running_state_def)
  show u: "used_set (end_slot L i) = used_set L - {i}" by (auto simp: used_set_def used_def nth free_slot_def)
  show "state (sched (end_slot L i)) ?p = PLUGIN_STATUS_DONE" by (simp add: st)
  have other: "rplugin (slots L ! j) \<noteq> ?p" if "j \<in> used_set L" "j \<noteq> i" for j
    using inj that assms(2) by (auto simp: inj_on_def)
  have "num_running (end_slot L i) = int (card (used_set L - {i}))"
    using num assms(2) card_gt_0_iff [of "used_set L"] by (auto simp: end_slot_def of_nat_diff)
  moreover have "length (slots (end_slot L i)) = MAX_PROCESSES" using len by (simp add: end_slot_def)
  moreover have "inj_on (\<lambda>j. rplugin (slots (end_slot L i) ! j)) (used_set L - {i})"
    using inj by (auto simp: inj_on_def nth)
  moreover have "state (sched (end_slot L i)) (rplugin (slots (end_slot L i) ! j)) = PLUGIN_STATUS_RUNNING"
    if "j \<in> used_set L - {i}" for j
    using that run [of j] other [of j] by (simp add: nth st)
  ultimately show "launch_inv (end_slot L i)" by (simp add: launch_inv_def u)
  have "used_set L - (used_set L - {i}) = {i}" using assms(2) by blast
  moreover have "desc (sched (end_slot L i)) = desc (sched L)" by (simp add: end_slot_def)
  ultimately show "later L (end_slot L i)"
    using run [OF assms(2)]
    by (auto simp: later_def u st nth Let_def) (simp_all add: end_slot_def plugin_set_running_state_def)
qed

lemma errmsgs_inv:
  "launch_inv (L\<lparr>errmsgs := x\<rparr>) = launch_inv L" "used_set (L\<lparr>errmsgs := x\<rparr>) = used_set L"
  "later (L\<lparr>errmsgs := x\<rparr>) L' = later L L'"
  by (simp_all add: launch_inv_def used_set_def used_def later_def)

lemma update_slot_inv:
  assumes "launch_inv L" and "i < MAX_PROCESSES"
  shows "later L (update_slot t L i)" "launch_inv (update_slot t L i)"
    "used_set (update_slot t L i) = used_set L - {j. j = i \<and> expired t (slots L ! i)}"
proof -
  let ?L = "if alive (proc (slots L ! i)) then L\<lparr>errmsgs := errmsgs L @ [(upstream_fd (slots L ! i), timeout_msg L (slots L ! i))]\<rparr> else L"
  have same: "launch_inv ?L" "used_set ?L = used_set L" "slots ?L = slots L" "later ?L = later L"
    using assms(1) by (auto simp: errmsgs_inv fun_eq_iff)
  have "later L (update_slot t L i) \<and> launch_inv (update_slot t L i)
    \<and> used_set (update_slot t L i) = used_set L - {j. j = i \<and> expired t (slots L ! i)}"
  proof (cases "used L i \<and> expired t (slots L ! i)")
    case True
    then have "i \<in> used_set ?L" using assms(2) same(2) by (simp add: used_set_def)
    from end_slot_inv [OF same(1) this] True same show ?thesis by (simp add: update_slot_def Let_def)
  next
    case False
    then have "update_slot t L i = L" unfolding update_slot_def Let_def by (simp only: if_False)
    with False assms show ?thesis by (auto simp: used_set_def)
  qed
  then show "later L (update_slot t L i)" "launch_inv (update_slot t L i)"
    "used_set (update_slot t L i) = used_set L - {j. j = i \<and> expired t (slots L ! i)}" by blast+
qed

lemma update_inv:
  assumes "launch_inv L"
  shows "later L (update_running_processes t L) \<and> launch_inv (update_running_processes t L)"
  using assms foldl_later [of launch_inv "[0..<MAX_PROCESSES]" "update_slot t" L] update_slot_inv
  by (auto simp: update_running_processes_def)

lemma turn_inv:
  assumes "launch_inv L"
  shows "later L (turn t L) \<and> launch_inv (turn t L)"
  using read_inv [OF assms, of "readable t"] update_inv [of "read_running_processes (readable t) L" "now t"]
  by (auto simp: turn_def intro: later_trans)

subsection \<open>Waiting for a free slot\<close>

lemma wait_slot_later:
  "launch_inv L \<Longrightarrow> wait_slot r ts L = Done (L', ts') \<Longrightarrow> later L L' \<and> launch_inv L'"
proof (induction r ts L rule: wait_slot.induct)
  case (2 r t ts L)
  note w = turn_inv [OF "2.prems"(1), of t]
  show ?case
  proof (cases "pid (slots L ! r) = 0 \<or> \<not> lives t (pid (slots L ! r))")
    case False
    with "2.prems"(2) have "wait_slot r ts (turn t L) = Done (L', ts')" by simp
    with "2.IH" [OF False] w show ?thesis by (blast intro: later_trans)
  qed (use "2.prems" in auto)
qed (auto split: if_splits)

lemma cache_inv:
  "launch_inv (L\<lparr>sched := (sched L)\<lparr>cache := c\<rparr>\<rparr>) = launch_inv L"
  "later L (L\<lparr>sched := (sched L)\<lparr>cache := c\<rparr>\<rparr>)"
  by (simp_all add: launch_inv_def used_set_def used_def later_def)

lemma conflict_loop_later:
  "launch_inv L \<Longrightarrow> conflict_loop gsh p rs ts L = Done (L', ts') \<Longrightarrow> later L L' \<and> launch_inv L'"
proof (induction rs arbitrary: ts L)
  case (Cons r rs)
  note IH = Cons.IH and inv = Cons.prems(1) and res = Cons.prems(2)
  show ?case
  proof (cases "used L r")
    case True
    obtain c cp where cp: "requirements_common_ports gsh (cache (sched L))
        (Some (plugin (sched L) (rplugin (slots L ! r)))) (Some (plugin (sched L) p)) = (c, cp)" by fastforce
    show ?thesis
    proof (cases cp)
      case None
      let ?L = "L\<lparr>sched := (sched L)\<lparr>cache := c\<rparr>\<rparr>"
      from res True cp None have "conflict_loop gsh p rs ts ?L = Done (L', ts')" by (simp add: Let_def)
      moreover have "launch_inv ?L" "later L ?L" using inv by (simp_all add: cache_inv)
      ultimately show ?thesis using IH [of ?L] by (blast intro: later_trans)
    next
      case (Some al)
      let ?L = "L\<lparr>sched := (sched L)\<lparr>cache := arg_free gsh c al\<rparr>\<rparr>"
      have i: "launch_inv ?L" "later L ?L" using inv by (simp_all add: cache_inv)
      show ?thesis
      proof (cases "common (Some al) (non_simult ?L)")
        case True
        with res \<open>used L r\<close> cp Some obtain L1 ts1 where w: "wait_slot r ts ?L = Done (L1, ts1)"
          "conflict_loop gsh p rs ts1 L1 = Done (L', ts')" by (auto simp: Let_def split: outcome.splits)
        with wait_slot_later [OF i(1) w(1)] IH [of L1 ts1] i(2) show ?thesis by (blast intro: later_trans)
      next
        case False
        with res \<open>used L r\<close> cp Some have "conflict_loop gsh p rs ts ?L = Done (L', ts')" by (simp add: Let_def)
        with IH [of ?L] i show ?thesis by (blast intro: later_trans)
      qed
    qed
  qed (use IH inv res in simp)
qed simp

lemma launch_wait_later:
  "launch_inv L \<Longrightarrow> launch_wait ts L = Done (L', ts') \<Longrightarrow> later L L' \<and> launch_inv L' \<and> num_running L' < max_running L'"
proof (induction ts L rule: launch_wait.induct)
  case (2 t ts L)
  note w = turn_inv [OF "2.prems"(1), of t]
  show ?case
  proof (cases "num_running L \<ge> max_running L")
    case True
    with "2.prems"(2) have "launch_wait ts (turn t L) = Done (L', ts')" by simp
    with "2.IH" [OF True] w show ?thesis by (blast intro: later_trans)
  qed (use "2.prems" in auto)
qed (auto split: if_splits)

lemma outcomes_not_undefined:
  "launch_wait ts L \<noteq> Undefined" "wait_slot r ts L \<noteq> Undefined" "conflict_loop gsh p rs ts L \<noteq> Undefined"
proof -
  show "launch_wait ts L \<noteq> Undefined" by (induction ts L rule: launch_wait.induct) auto
  have ws: "wait_slot r ts L \<noteq> Undefined" for r ts L by (induction r ts L rule: wait_slot.induct) auto
  then show "wait_slot r ts L \<noteq> Undefined" .
  show "conflict_loop gsh p rs ts L \<noteq> Undefined"
    using ws by (induction rs arbitrary: ts L) (auto simp: Let_def split: option.splits outcome.splits prod.splits)
qed

subsection \<open>Launching\<close>

lemma fill_slot_slots:
  assumes "length (slots L) = MAX_PROCESSES" and "i < MAX_PROCESSES"
  shows "j \<noteq> i \<Longrightarrow> slots (fill_slot gsh prefs sp p i L) ! j = slots L ! j"
    "pid (slots (fill_slot gsh prefs sp p i L) ! i) = spawn_pid sp"
    "rplugin (slots (fill_slot gsh prefs sp p i L) ! i) = p"
    "upstream_fd (slots (fill_slot gsh prefs sp p i L) ! i) = socket_of L p"
    "length (slots (fill_slot gsh prefs sp p i L)) = MAX_PROCESSES"
    "socket_of (fill_slot gsh prefs sp p i L) = (socket_of L)(p := spawn_fd1 sp)"
    "max_running (fill_slot gsh prefs sp p i L) = max_running L"
    "state (sched (fill_slot gsh prefs sp p i L)) q =
       (if q = p \<and> spawn_pid sp \<le> 0 then PLUGIN_STATUS_UNRUN else state (sched L) q)"
    "num_running (fill_slot gsh prefs sp p i L) = (if spawn_pid sp > 0 then num_running L + 1 else num_running L)"
  using assms by (simp_all add: fill_slot_def Let_def case_prod_beta plugin_set_running_state_def)

lemma fill_slot_inv:
  assumes "launch_inv L" and "i < MAX_PROCESSES" and "\<not> used L i"
    and "state (sched L) p = PLUGIN_STATUS_RUNNING" and "p \<notin> (\<lambda>i. rplugin (slots L ! i)) ` used_set L"
  shows "launch_inv (fill_slot gsh prefs sp p i L)"
    "used_set (fill_slot gsh prefs sp p i L) = used_set L \<union> (if spawn_pid sp > 0 then {i} else {})"
proof -
  have len: "length (slots L) = MAX_PROCESSES" using assms(1) by (simp add: launch_inv_def)
  note f = fill_slot_slots [OF len assms(2), where gsh = gsh and prefs = prefs and sp = sp and p = p]
  have i: "i \<notin> used_set L" using assms(3) by (simp add: used_set_def)
  show u: "used_set (fill_slot gsh prefs sp p i L) = used_set L \<union> (if spawn_pid sp > 0 then {i} else {})"
  proof (rule set_eqI)
    fix j
    show "j \<in> used_set (fill_slot gsh prefs sp p i L) \<longleftrightarrow> j \<in> used_set L \<union> (if spawn_pid sp > 0 then {i} else {})"
      using f(1) [of j] f(2) assms(2,3) by (cases "j = i") (auto simp: used_set_def used_def)
  qed
  have rp: "rplugin (slots (fill_slot gsh prefs sp p i L) ! j) = (if j = i then p else rplugin (slots L ! j))" for j
    using f(1) [of j] f(3) by simp
  have "num_running (fill_slot gsh prefs sp p i L) = int (card (used_set (fill_slot gsh prefs sp p i L)))"
    using assms(1) i by (simp add: u f(9) launch_inv_def)
  moreover have "inj_on (\<lambda>j. rplugin (slots (fill_slot gsh prefs sp p i L) ! j)) (used_set (fill_slot gsh prefs sp p i L))"
    using assms(1,5) i by (auto simp: u rp launch_inv_def inj_on_def image_iff)
  moreover have "state (sched (fill_slot gsh prefs sp p i L)) (rplugin (slots (fill_slot gsh prefs sp p i L) ! j))
      = PLUGIN_STATUS_RUNNING" if "j \<in> used_set (fill_slot gsh prefs sp p i L)" for j
    using that assms(1,4,5) i by (auto simp: u rp f(8) launch_inv_def image_iff split: if_splits)
  ultimately show "launch_inv (fill_slot gsh prefs sp p i L)" by (simp add: launch_inv_def f(5))
qed

lemma find_free:
  assumes "find (\<lambda>r. \<not> used L r) [0..<MAX_PROCESSES] = None"
  shows "used_set L = {..<MAX_PROCESSES}"
  using assms by (auto simp: find_None_iff used_set_def)

lemma plugin_launch_cases:
  assumes "launch_inv L" and "plugin_launch gsh prefs sp p ts L \<noteq> Blocked"
  obtains L1 where "later L L1" "launch_inv L1" "num_running L1 < max_running L1" "max_running L1 = max_running L"
    "(used_set L1 = {..<MAX_PROCESSES} \<and> plugin_launch gsh prefs sp p ts L = Undefined)
     \<or> (\<exists>i ts'. i < MAX_PROCESSES \<and> \<not> used L1 i
          \<and> plugin_launch gsh prefs sp p ts L = Done (spawn_pid sp, fill_slot gsh prefs sp p i L1, ts'))"
proof -
  obtain L0 ts0 where w: "launch_wait ts L = Done (L0, ts0)"
    using assms(2) outcomes_not_undefined(1) [of ts L] by (auto simp: plugin_launch_def split: outcome.splits)
  note l0 = launch_wait_later [OF assms(1) w]
  obtain L1 ts1 where c: "conflict_loop gsh p [0..<MAX_PROCESSES] ts0 L0 = Done (L1, ts1)"
    using assms(2) w outcomes_not_undefined(3) [of gsh p "[0..<MAX_PROCESSES]" ts0 L0]
    by (auto simp: plugin_launch_def next_free_process_def split: outcome.splits)
  have l1: "later L0 L1" "launch_inv L1" using conflict_loop_later [of L0, OF _ c] l0 by blast+
  have "card (used_set L1) \<le> card (used_set L0)" using later_used [OF l1(1)] by (intro card_mono) auto
  then have n: "num_running L1 < max_running L1" "max_running L1 = max_running L"
    using l0 l1 by (auto simp: launch_inv_def later_def)
  show thesis
  proof (cases "find (\<lambda>r. \<not> used L1 r) [0..<MAX_PROCESSES]")
    case None
    with w c have "plugin_launch gsh prefs sp p ts L = Undefined" by (simp add: plugin_launch_def next_free_process_def)
    with None l0 l1 n find_free show thesis by (intro that [of L1]) (auto intro: later_trans)
  next
    case (Some i)
    then have "i < MAX_PROCESSES" "\<not> used L1 i" by (auto simp: find_Some_iff)
    moreover have "plugin_launch gsh prefs sp p ts L = Done (spawn_pid sp, fill_slot gsh prefs sp p i L1, ts1)"
      using w c Some by (simp add: plugin_launch_def next_free_process_def)
    ultimately show thesis using l0 l1 n by (intro that [of L1]) (auto intro: later_trans)
  qed
qed

text \<open>
  With a limit of at most \<open>MAX_PROCESSES\<close> a launch never writes outside the table. When it
  returns, the table is consistent, the number of processes is within the limit, and the plugin
  either runs in a slot or, when the fork failed, is back in the state of one that has not run.
\<close>

theorem plugin_launch_safe:
  assumes "launch_inv L" and "max_running L \<le> int MAX_PROCESSES"
    and "state (sched L) p = PLUGIN_STATUS_RUNNING" and "p \<notin> (\<lambda>i. rplugin (slots L ! i)) ` used_set L"
  shows "case plugin_launch gsh prefs sp p ts L of
      Undefined \<Rightarrow> False
    | Blocked \<Rightarrow> True
    | Done (r, L', ts') \<Rightarrow> launch_inv L' \<and> num_running L' \<le> max_running L' \<and> max_running L' = max_running L
        \<and> (if r > 0 then state (sched L') p = PLUGIN_STATUS_RUNNING \<and> (\<exists>i \<in> used_set L'. rplugin (slots L' ! i) = p)
           else state (sched L') p = PLUGIN_STATUS_UNRUN)"
proof (cases "plugin_launch gsh prefs sp p ts L = Blocked")
  case False
  obtain L1 where L1: "later L L1" "launch_inv L1" "num_running L1 < max_running L1" "max_running L1 = max_running L"
    and cs: "(used_set L1 = {..<MAX_PROCESSES} \<and> plugin_launch gsh prefs sp p ts L = Undefined)
     \<or> (\<exists>i ts'. i < MAX_PROCESSES \<and> \<not> used L1 i
          \<and> plugin_launch gsh prefs sp p ts L = Done (spawn_pid sp, fill_slot gsh prefs sp p i L1, ts'))"
    by (rule plugin_launch_cases [OF assms(1) False])
  have "used_set L1 \<noteq> {..<MAX_PROCESSES}" using L1 assms(2) by (auto simp: launch_inv_def)
  with cs obtain i ts' where i: "i < MAX_PROCESSES" "\<not> used L1 i"
    "plugin_launch gsh prefs sp p ts L = Done (spawn_pid sp, fill_slot gsh prefs sp p i L1, ts')" by blast
  have p: "state (sched L1) p = PLUGIN_STATUS_RUNNING" using later_state [OF L1(1) assms(4)] assms(3) by simp
  have np: "p \<notin> (\<lambda>i. rplugin (slots L1 ! i)) ` used_set L1"
    using assms(4) later_slot [OF L1(1)] later_used [OF L1(1)] by (auto simp: image_iff)
  have len: "length (slots L1) = MAX_PROCESSES" using L1(2) by (simp add: launch_inv_def)
  note f = fill_slot_slots [OF len i(1), where gsh = gsh and prefs = prefs and sp = sp and p = p] and inv = fill_slot_inv [OF L1(2) i(1,2) p np, of gsh prefs sp]
  show ?thesis
    unfolding i(3) using inv f(3,7,8,9) L1(3,4) p by auto
qed simp

lemma conflict_loop_free:
  "(\<And>r. r \<in> set rs \<Longrightarrow> \<not> used L r) \<Longrightarrow> conflict_loop gsh p rs ts L = Done (L, ts)"
  by (induction rs) auto

definition launcher0 :: "running list \<Rightarrow> int \<Rightarrow> plugins_scheduler \<Rightarrow> launcher" where
  "launcher0 sl m s = \<lparr>slots = sl, num_running = int (length (filter (\<lambda>r. pid r > 0) sl)), max_running = m, old_max_running = m,
     non_simult = None, sched = s, host_kb = None, host_name = None, saving_kb = False, kb_saved = [], msg_buf = None,
     msg_sz = 0, socket_of = (\<lambda>_. 3), errmsgs = [], timeout_cache = -1\<rparr>"

definition all_free :: "running list" where
  "all_free = replicate MAX_PROCESSES free_slot"

definition spawn0 :: "int \<Rightarrow> spawn" where
  "spawn0 i = \<lparr>spawn_pid = i, spawn_fd0 = 7, spawn_fd1 = 8, spawn_conn = \<lparr>rx = [], tx = [], sent = []\<rparr>,
     spawn_up = \<lparr>rx = [], tx = [], sent = []\<rparr>, spawn_time = 0\<rparr>"

abbreviation all_running :: plugins_scheduler where
  "all_running \<equiv> example 40 Map.empty (\<lambda>_. PLUGIN_STATUS_RUNNING)"

lemma all_running_state: "state all_running p = PLUGIN_STATUS_RUNNING"
  by (simp add: example_def Let_def)

lemma all_free_unused: "r < MAX_PROCESSES \<Longrightarrow> \<not> used (launcher0 all_free m s) r"
  by (simp add: used_def launcher0_def all_free_def free_slot_def)

lemma all_free_inv: "launch_inv (launcher0 all_free m s)" "used_set (launcher0 all_free m s) = {}"
proof -
  show u: "used_set (launcher0 all_free m s) = {}" using all_free_unused by (auto simp: used_set_def)
  show "launch_inv (launcher0 all_free m s)"
    unfolding launch_inv_def u by (simp add: launcher0_def all_free_def free_slot_def)
qed

lemma empty_launch:
  assumes "used_set L = {}" and "num_running L < max_running L"
  shows "plugin_launch gsh prefs sp p ts L = Done (spawn_pid sp, fill_slot gsh prefs sp p 0 L, ts)"
proof -
  have u: "\<not> used L r" if "r < MAX_PROCESSES" for r using assms(1) that by (auto simp: used_set_def)
  have "launch_wait ts L = Done (L, ts)" using assms(2) by (cases ts) simp_all
  moreover have "conflict_loop gsh p [0..<MAX_PROCESSES] ts L = Done (L, ts)"
    using u by (intro conflict_loop_free) auto
  moreover have "find (\<lambda>r. \<not> used L r) [0..<MAX_PROCESSES] = Some 0"
    using u [of 0] by (simp add: MAX_PROCESSES_def upt_rec)
  ultimately show ?thesis by (simp add: plugin_launch_def next_free_process_def)
qed

lemma all_free_num: "num_running (launcher0 all_free 31 s) < max_running (launcher0 all_free 31 s)"
  by (simp add: launcher0_def all_free_def free_slot_def)

lemmas free_launch = empty_launch [OF all_free_inv(2) all_free_num]

theorem plugin_launch_safe_witness:
  "\<exists>L'. plugin_launch (\<lambda>_. 0) None (spawn0 5) 2 [] (launcher0 all_free 31 all_running) = Done (5, L', [])
     \<and> launch_inv L' \<and> (\<exists>i \<in> used_set L'. rplugin (slots L' ! i) = 2)"
proof -
  let ?L = "launcher0 all_free 31 all_running"
  have "max_running ?L \<le> int MAX_PROCESSES" "state (sched ?L) 2 = PLUGIN_STATUS_RUNNING"
    by (simp_all add: launcher0_def MAX_PROCESSES_def all_running_state)
  moreover have "2 \<notin> (\<lambda>i. rplugin (slots ?L ! i)) ` used_set ?L" by (simp add: all_free_inv(2))
  moreover have "spawn_pid (spawn0 5) = 5" by (simp add: spawn0_def)
  ultimately show ?thesis
    using plugin_launch_safe [OF all_free_inv(1), of 31 all_running 2 "\<lambda>_. 0" None "spawn0 5" "[]"]
    unfolding free_launch by auto
qed

subsection \<open>The limit is lost\<close>

lemma conflict_loop_no_wait:
  "non_simult L = None \<Longrightarrow> \<exists>L'. conflict_loop gsh p rs ts L = Done (L', ts) \<and> slots L' = slots L"
proof (induction rs arbitrary: L)
  case (Cons r rs)
  show ?case
  proof (cases "used L r")
    case True
    obtain c cp where cp: "requirements_common_ports gsh (cache (sched L))
        (Some (plugin (sched L) (rplugin (slots L ! r)))) (Some (plugin (sched L) p)) = (c, cp)" by fastforce
    define c' where "c' = (case cp of None \<Rightarrow> c | Some al \<Rightarrow> arg_free gsh c al)"
    have "conflict_loop gsh p (r # rs) ts L = conflict_loop gsh p rs ts (L\<lparr>sched := (sched L)\<lparr>cache := c'\<rparr>\<rparr>)"
      using True cp Cons.prems by (auto simp: Let_def c'_def common_def split: option.splits)
    moreover have "non_simult (L\<lparr>sched := (sched L)\<lparr>cache := c'\<rparr>\<rparr>) = None" using Cons.prems by simp
    ultimately show ?thesis using Cons.IH [of "L\<lparr>sched := (sched L)\<lparr>cache := c'\<rparr>\<rparr>"] by simp
  qed (use Cons in simp)
qed simp

text \<open>
  The start of the launcher limits the number of processes to the size of the table, but
  enabling parallel checks, which the scheduler does before it looks for a plugin, brings the
  limit of the preferences back. With a larger one and a full table the next launch writes
  before the table.
\<close>

theorem launch_overruns_table:
  assumes "old_max_running L > int MAX_PROCESSES" and "launch_inv L" and "num_running L = int MAX_PROCESSES"
    and "non_simult L = None"
  shows "max_running (pluginlaunch_init gsh prefs g L) < int MAX_PROCESSES
    \<and> plugin_launch gsh prefs sp p ts (pluginlaunch_enable_parrallel_checks L) = Undefined"
proof -
  let ?L = "pluginlaunch_enable_parrallel_checks L"
  have "\<not> num_running ?L \<ge> max_running ?L" using assms(1,3) by (simp add: pluginlaunch_enable_parrallel_checks_def)
  then have w: "launch_wait ts ?L = Done (?L, ts)" by (cases ts) simp_all
  obtain L' where L': "conflict_loop gsh p [0..<MAX_PROCESSES] ts ?L = Done (L', ts)" "slots L' = slots L"
    using conflict_loop_no_wait [of ?L gsh p "[0..<MAX_PROCESSES]" ts] assms(4)
    by (auto simp: pluginlaunch_enable_parrallel_checks_def)
  have "used_set L = {..<MAX_PROCESSES}"
    using assms(2,3) card_subset_eq [of "{..<MAX_PROCESSES}" "used_set L"] by (auto simp: launch_inv_def used_set_def)
  then have "used L' r" if "r < MAX_PROCESSES" for r using that L'(2) by (auto simp: used_set_def used_def)
  then have "find (\<lambda>r. \<not> used L' r) [0..<MAX_PROCESSES] = None" by (simp add: find_None_iff)
  then have "plugin_launch gsh prefs sp p ts ?L = Undefined"
    using w L'(1) by (simp add: plugin_launch_def next_free_process_def)
  then show ?thesis by (simp add: pluginlaunch_init_def Let_def)
qed

definition full_table :: "running list" where
  "full_table = map (\<lambda>i. free_slot\<lparr>pid := int i + 1, rplugin := i\<rparr>) [0..<MAX_PROCESSES]"

lemma full_table_inv: "launch_inv (launcher0 full_table m all_running)"
  "used_set (launcher0 full_table m all_running) = {..<MAX_PROCESSES}"
proof -
  show u: "used_set (launcher0 full_table m all_running) = {..<MAX_PROCESSES}"
    by (auto simp: used_set_def used_def launcher0_def full_table_def)
  have "length (filter (\<lambda>r. pid r > 0) full_table) = MAX_PROCESSES"
    by (simp add: full_table_def filter_map o_def)
  then show "launch_inv (launcher0 full_table m all_running)"
    unfolding launch_inv_def u
    by (auto simp: launcher0_def full_table_def all_running_state inj_on_def)
qed

theorem launch_overruns_table_witness:
  "plugin_launch (\<lambda>_. 0) None (spawn0 5) 39 [] (pluginlaunch_enable_parrallel_checks (launcher0 full_table 40 all_running)) = Undefined"
proof -
  have "num_running (launcher0 full_table 40 all_running) = int MAX_PROCESSES"
    using full_table_inv [of 40] by (simp add: launch_inv_def)
  moreover have "old_max_running (launcher0 full_table 40 all_running) > int MAX_PROCESSES"
    "non_simult (launcher0 full_table 40 all_running) = None"
    by (simp_all add: launcher0_def MAX_PROCESSES_def)
  ultimately show ?thesis using launch_overruns_table [OF _ full_table_inv(1)] by blast
qed

subsection \<open>A launch that is tried again\<close>

text \<open>
  After a launch whose fork failed, a second launch of the same plugin that succeeds leaves
  it running in a slot but in the state of a plugin that has not run, so that the scheduler may
  hand it out once more; and the socket to the client that is kept for it is the descriptor of
  the socket pair of the first try, which is closed by then.
\<close>

theorem relaunch_not_marked_running:
  assumes "launch_inv L" and "state (sched L) p = PLUGIN_STATUS_RUNNING"
    and "p \<notin> (\<lambda>i. rplugin (slots L ! i)) ` used_set L"
    and "plugin_launch gsh prefs sp1 p ts L = Done (r1, L1, ts1)" and "r1 \<le> 0"
    and "plugin_launch gsh prefs sp2 p ts1 L1 = Done (r2, L2, ts2)" and "r2 > 0"
  shows "state (sched L2) p = PLUGIN_STATUS_UNRUN
    \<and> (\<exists>i \<in> used_set L2. rplugin (slots L2 ! i) = p \<and> upstream_fd (slots L2 ! i) = spawn_fd1 sp1)"
proof -
  have nb: "plugin_launch gsh prefs sp1 p ts L \<noteq> Blocked" "plugin_launch gsh prefs sp2 p ts1 L1 \<noteq> Blocked"
    using assms(4,6) by simp_all
  obtain A where A: "later L A" "launch_inv A"
    "(used_set A = {..<MAX_PROCESSES} \<and> plugin_launch gsh prefs sp1 p ts L = Undefined)
     \<or> (\<exists>i ts'. i < MAX_PROCESSES \<and> \<not> used A i
          \<and> plugin_launch gsh prefs sp1 p ts L = Done (spawn_pid sp1, fill_slot gsh prefs sp1 p i A, ts'))"
    by (rule plugin_launch_cases [OF assms(1) nb(1)])
  with assms(4) obtain i where i: "i < MAX_PROCESSES" "\<not> used A i" "L1 = fill_slot gsh prefs sp1 p i A" "r1 = spawn_pid sp1" by auto
  have pA: "state (sched A) p = PLUGIN_STATUS_RUNNING" using later_state [OF A(1) assms(3)] assms(2) by simp
  have npA: "p \<notin> (\<lambda>i. rplugin (slots A ! i)) ` used_set A"
    using assms(3) later_slot [OF A(1)] later_used [OF A(1)] by (auto simp: image_iff)
  have lenA: "length (slots A) = MAX_PROCESSES" using A(2) by (simp add: launch_inv_def)
  note f1 = fill_slot_slots [OF lenA i(1), where gsh = gsh and prefs = prefs and sp = sp1 and p = p, folded i(3)]
  have inv1: "launch_inv L1" "used_set L1 = used_set A"
    using fill_slot_inv [OF A(2) i(1,2) pA npA, of gsh prefs sp1] assms(5) i(3,4) by auto
  have s1: "state (sched L1) p = PLUGIN_STATUS_UNRUN" "socket_of L1 p = spawn_fd1 sp1"
    using f1(6,8) assms(5) i(4) by auto
  have np1: "p \<notin> (\<lambda>i. rplugin (slots L1 ! i)) ` used_set L1"
  proof
    assume "p \<in> (\<lambda>i. rplugin (slots L1 ! i)) ` used_set L1"
    then obtain x where x: "x \<in> used_set A" "p = rplugin (slots L1 ! x)" using inv1(2) by auto
    with i(2) have "x \<noteq> i" by (auto simp: used_set_def)
    with x f1(1) [of x] npA show False by auto
  qed
  obtain B where B: "later L1 B" "launch_inv B"
    "(used_set B = {..<MAX_PROCESSES} \<and> plugin_launch gsh prefs sp2 p ts1 L1 = Undefined)
     \<or> (\<exists>i ts'. i < MAX_PROCESSES \<and> \<not> used B i
          \<and> plugin_launch gsh prefs sp2 p ts1 L1 = Done (spawn_pid sp2, fill_slot gsh prefs sp2 p i B, ts'))"
    by (rule plugin_launch_cases [OF inv1(1) nb(2)])
  with assms(6) obtain j where j: "j < MAX_PROCESSES" "\<not> used B j" "L2 = fill_slot gsh prefs sp2 p j B" "r2 = spawn_pid sp2" by auto
  have lenB: "length (slots B) = MAX_PROCESSES" using B(2) by (simp add: launch_inv_def)
  note f2 = fill_slot_slots [OF lenB j(1), where gsh = gsh and prefs = prefs and sp = sp2 and p = p, folded j(3)]
  have "state (sched B) p = PLUGIN_STATUS_UNRUN" using later_state [OF B(1) np1] s1 by simp
  moreover have "socket_of B = socket_of L1" using B(1) by (simp add: later_def)
  ultimately show ?thesis
    using f2(2,3,4,8) assms(7) j(1,4) s1(2) by (auto simp: used_set_def used_def intro!: bexI [of _ j])
qed

theorem relaunch_not_marked_running_witness:
  "\<exists>L1 L2. plugin_launch (\<lambda>_. 0) None (spawn0 (-1)) 2 [] (launcher0 all_free 31 all_running) = Done (-1, L1, [])
     \<and> plugin_launch (\<lambda>_. 0) None (spawn0 5) 2 [] L1 = Done (5, L2, [])
     \<and> state (sched L2) 2 = PLUGIN_STATUS_UNRUN \<and> (\<exists>i \<in> used_set L2. rplugin (slots L2 ! i) = 2 \<and> upstream_fd (slots L2 ! i) = 8)"
proof -
  let ?L = "launcher0 all_free 31 all_running"
  define L1 where "L1 = fill_slot (\<lambda>_. 0) None (spawn0 (-1)) 2 0 ?L"
  define L2 where "L2 = fill_slot (\<lambda>_. 0) None (spawn0 5) 2 0 L1"
  have sp: "spawn_pid (spawn0 i) = i" "spawn_fd1 (spawn0 i) = 8" for i by (simp_all add: spawn0_def)
  have st: "state (sched ?L) 2 = PLUGIN_STATUS_RUNNING" by (simp add: launcher0_def all_running_state)
  have np: "2 \<notin> (\<lambda>i. rplugin (slots ?L ! i)) ` used_set ?L" by (simp add: all_free_inv(2))
  have z: "0 < MAX_PROCESSES" by (simp add: MAX_PROCESSES_def)
  have one: "plugin_launch (\<lambda>_. 0) None (spawn0 (-1)) 2 [] ?L = Done (-1, L1, [])"
    unfolding free_launch L1_def by (simp add: sp)
  have "used_set L1 = {}"
    unfolding L1_def using fill_slot_inv(2) [OF all_free_inv(1) z all_free_unused [OF z] st np] by (simp add: sp all_free_inv(2))
  moreover have "num_running L1 < max_running L1"
    using fill_slot_slots(7,9) [of ?L 0 "\<lambda>_. 0" None "spawn0 (-1)" 2] all_free_num z unfolding L1_def
    by (simp add: sp launcher0_def all_free_def)
  ultimately have two: "plugin_launch (\<lambda>_. 0) None (spawn0 5) 2 [] L1 = Done (5, L2, [])"
    by (simp add: empty_launch L2_def sp)
  show ?thesis
    using relaunch_not_marked_running [OF all_free_inv(1) st np one _ two] one two by (auto simp: sp)
qed

subsection \<open>The end of the processes\<close>

definition timed_out :: "int \<Rightarrow> running \<Rightarrow> bool" where
  "timed_out t r \<longleftrightarrow> rtimeout r > 0 \<and> t - rstart r > rtimeout r"

lemma later_timed_out: "later L L' \<Longrightarrow> i \<in> used_set L' \<Longrightarrow> timed_out t (slots L' ! i) = timed_out t (slots L ! i)"
  using later_slot by (simp add: timed_out_def)

lemma update_fold_frees:
  "launch_inv L \<Longrightarrow> set is \<subseteq> {..<MAX_PROCESSES} \<Longrightarrow> i \<in> set is \<Longrightarrow> timed_out t (slots L ! i) \<Longrightarrow>
    i \<notin> used_set (foldl (update_slot t) L is)"
proof (induction "is" arbitrary: L)
  case (Cons a "is")
  let ?L = "update_slot t L a"
  have a: "a < MAX_PROCESSES" using Cons.prems(2) by simp
  note u = update_slot_inv [OF Cons.prems(1) a, of t]
  have "later ?L (foldl (update_slot t) ?L is) \<and> launch_inv (foldl (update_slot t) ?L is)"
    using update_slot_inv(1,2) [where t = t] Cons.prems(2) u(2) by (intro foldl_later) auto
  then have sub: "used_set (foldl (update_slot t) ?L is) \<subseteq> used_set ?L" by (blast dest: later_used)
  show ?case
  proof (cases "i \<in> used_set ?L")
    case True
    then have "i \<noteq> a" using u(3) Cons.prems(4) by (auto simp: expired_def timed_out_def)
    moreover have "timed_out t (slots ?L ! i)" using later_timed_out [OF u(1) True] Cons.prems(4) by simp
    ultimately show ?thesis using Cons u(2) by simp
  qed (use sub in auto)
qed simp

lemma no_processes: "launch_inv L \<Longrightarrow> num_running L = 0 \<longleftrightarrow> used_set L = {}"
  by (simp add: launch_inv_def)

lemma turn_ends_timed_out:
  assumes "launch_inv L" and "\<forall>i \<in> used_set L. timed_out (now t) (slots L ! i)"
  shows "num_running (turn t L) = 0"
proof -
  let ?R = "read_running_processes (readable t) L"
  have R: "later L ?R" "launch_inv ?R" using read_inv [OF assms(1)] by blast+
  have to: "timed_out (now t) (slots ?R ! i)" if "i \<in> used_set ?R" for i
    using that later_timed_out [OF R(1) that] later_used [OF R(1)] assms(2) by auto
  have "used_set (turn t L) = {}"
  proof (cases "num_running ?R = 0")
    case True
    then show ?thesis using no_processes [OF R(2)] by (simp add: turn_def update_running_processes_def)
  next
    case False
    have sub: "used_set (turn t L) \<subseteq> used_set ?R" using update_inv [OF R(2), of "now t"] by (auto simp: turn_def dest: later_used)
    have "i \<notin> used_set (turn t L)" if "i \<in> used_set ?R" for i
      using that to [OF that] update_fold_frees [OF R(2), of "[0..<MAX_PROCESSES]" i "now t"] False
      by (simp add: turn_def update_running_processes_def used_set_def lessThan_atLeast0)
    with sub show ?thesis by blast
  qed
  then show ?thesis using turn_inv [OF assms(1)] no_processes by blast
qed

text \<open>
  C24: waiting for the processes returns as soon as some turn comes after the timeout of every
  one of them. No process is left then, and all their plugins are done.
\<close>

theorem pluginlaunch_wait_returns:
  assumes "launch_inv L" and "t \<in> set ts" and "\<forall>i \<in> used_set L. timed_out (now t) (slots L ! i)"
  shows "\<exists>L' ts'. pluginlaunch_wait ts L = Done (L', ts') \<and> launch_inv L' \<and> num_running L' = 0
    \<and> (\<forall>i \<in> used_set L. state (sched L') (rplugin (slots L ! i)) = PLUGIN_STATUS_DONE)"
proof -
  have "\<exists>L' ts'. pluginlaunch_wait ts L = Done (L', ts') \<and> launch_inv L' \<and> num_running L' = 0 \<and> later L L'"
    using assms
  proof (induction ts arbitrary: L)
    case (Cons t0 ts)
    let ?L = "turn t0 L"
    have l: "later L ?L" "launch_inv ?L" using turn_inv [OF Cons.prems(1)] by blast+
    show ?case
    proof (cases "num_running ?L = 0")
      case False
      then have "t \<in> set ts" using Cons.prems turn_ends_timed_out by auto
      moreover have "\<forall>i \<in> used_set ?L. timed_out (now t) (slots ?L ! i)"
        using Cons.prems(3) later_timed_out [OF l(1)] later_used [OF l(1)] by auto
      ultimately show ?thesis using Cons.IH [OF l(2)] False l(1) by (auto simp: Let_def intro: later_trans)
    qed (use l in \<open>simp add: Let_def\<close>)
  qed simp
  then obtain L' ts' where "pluginlaunch_wait ts L = Done (L', ts')" "launch_inv L'" "num_running L' = 0" "later L L'" by blast
  then show ?thesis using later_freed [of L L'] no_processes [of L'] by auto
qed

definition slow_slot :: running where
  "slow_slot = free_slot\<lparr>pid := 5, rplugin := 2, rtimeout := 320, proc := free_process\<lparr>alive := True\<rparr>\<rparr>"

definition slow_table :: "running list" where
  "slow_table = slow_slot # replicate 31 free_slot"

lemma slow_table_inv: "launch_inv (launcher0 slow_table m all_running)" "used_set (launcher0 slow_table m all_running) = {0}"
proof -
  show u: "used_set (launcher0 slow_table m all_running) = {0}"
    by (auto simp: used_set_def used_def launcher0_def slow_table_def slow_slot_def free_slot_def MAX_PROCESSES_def nth_Cons' split: if_splits)
  show "launch_inv (launcher0 slow_table m all_running)"
    unfolding launch_inv_def u
    by (simp add: launcher0_def slow_table_def slow_slot_def free_slot_def MAX_PROCESSES_def all_running_state)
qed

theorem pluginlaunch_wait_returns_witness:
  "\<exists>L' ts'. pluginlaunch_wait [\<lparr>readable = (\<lambda>_. False), now = 9, lives = (\<lambda>_. True)\<rparr>, \<lparr>readable = (\<lambda>_. False), now = 321, lives = (\<lambda>_. True)\<rparr>]
      (launcher0 slow_table 4 all_running) = Done (L', ts') \<and> num_running L' = 0 \<and> state (sched L') 2 = PLUGIN_STATUS_DONE"
proof -
  let ?t = "\<lparr>readable = (\<lambda>_. False), now = 321, lives = (\<lambda>_. True)\<rparr>"
  have sl: "slots (launcher0 slow_table 4 all_running) ! 0 = slow_slot" by (simp add: launcher0_def slow_table_def)
  have "timed_out (now ?t) slow_slot" "rplugin slow_slot = 2" by (simp_all add: timed_out_def slow_slot_def free_slot_def)
  then show ?thesis
    using pluginlaunch_wait_returns [OF slow_table_inv(1) [of 4], of ?t "[\<lparr>readable = (\<lambda>_. False), now = 9, lives = (\<lambda>_. True)\<rparr>, ?t]"]
    by (auto simp: slow_table_inv(2) sl)
qed

lemma stop_slot_inv:
  assumes "launch_inv L" and "i < MAX_PROCESSES"
  shows "later L (stop_slot L i)" "launch_inv (stop_slot L i)" "used_set (stop_slot L i) = used_set L - {i}"
proof -
  have "later L (stop_slot L i) \<and> launch_inv (stop_slot L i) \<and> used_set (stop_slot L i) = used_set L - {i}"
  proof (cases "used L i")
    case True
    then have "i \<in> used_set L" using assms(2) by (simp add: used_set_def)
    from end_slot_inv [OF assms(1) this] True show ?thesis by (simp add: stop_slot_def)
  next
    case False
    then have "stop_slot L i = L" by (simp add: stop_slot_def)
    with False assms show ?thesis by (auto simp: used_set_def)
  qed
  then show "later L (stop_slot L i)" "launch_inv (stop_slot L i)" "used_set (stop_slot L i) = used_set L - {i}" by blast+
qed

lemma stop_fold:
  "launch_inv L \<Longrightarrow> set is \<subseteq> {..<MAX_PROCESSES} \<Longrightarrow>
    later L (foldl stop_slot L is) \<and> launch_inv (foldl stop_slot L is) \<and> used_set (foldl stop_slot L is) = used_set L - set is"
proof (induction "is" arbitrary: L)
  case (Cons i "is")
  then have "i < MAX_PROCESSES" by simp
  note s = stop_slot_inv [OF Cons.prems(1) this]
  with Cons.IH [OF s(2)] Cons.prems(2) show ?case by (auto intro: later_trans)
qed simp

lemma stop_inv:
  assumes "launch_inv L"
  shows "later L (pluginlaunch_stop rd L)" "launch_inv (pluginlaunch_stop rd L)" "used_set (pluginlaunch_stop rd L) = {}"
proof -
  let ?R = "read_running_processes rd L"
  have R: "later L ?R" "launch_inv ?R" using read_inv [OF assms] by blast+
  have "used_set ?R - set [0..<MAX_PROCESSES] = {}" by (auto simp: used_set_def)
  with stop_fold [OF R(2), of "[0..<MAX_PROCESSES]"] R(1)
  show "later L (pluginlaunch_stop rd L)" "launch_inv (pluginlaunch_stop rd L)" "used_set (pluginlaunch_stop rd L) = {}"
    by (auto simp: pluginlaunch_stop_def lessThan_atLeast0 intro: later_trans)
qed

lemma sighand_term_ends_all:
  assumes "launch_inv L"
  shows "launch_inv (process_mgr_sighand_term L)" "num_running (process_mgr_sighand_term L) = 0"
    "i \<in> used_set L \<Longrightarrow> state (sched (process_mgr_sighand_term L)) (rplugin (slots L ! i)) = PLUGIN_STATUS_DONE"
proof -
  let ?T = "process_mgr_sighand_term L"
  have "used_set L - set [0..<MAX_PROCESSES] = {}" by (auto simp: used_set_def)
  with stop_fold [OF assms, of "[0..<MAX_PROCESSES]"] have T: "later L ?T" "launch_inv ?T" "used_set ?T = {}"
    by (auto simp: process_mgr_sighand_term_def lessThan_atLeast0)
  then show "launch_inv ?T" "num_running ?T = 0" using no_processes by blast+
  show "i \<in> used_set L \<Longrightarrow> state (sched ?T) (rplugin (slots L ! i)) = PLUGIN_STATUS_DONE"
    using later_freed [OF T(1)] T(3) by blast
qed

subsection \<open>All runs of the launcher\<close>

lemma pluginlaunch_wait_later:
  "launch_inv L \<Longrightarrow> pluginlaunch_wait ts L = Done (L', ts') \<Longrightarrow> later L L' \<and> launch_inv L'"
proof (induction ts L rule: pluginlaunch_wait.induct)
  case (2 t ts L)
  with turn_inv [OF "2.prems"(1), of t] show ?case by (auto simp: Let_def split: if_splits intro: later_trans)
qed simp

lemma wait_while_later:
  "launch_inv L \<Longrightarrow> wait_while n ts L = Done (L', ts') \<Longrightarrow> later L L' \<and> launch_inv L'"
proof (induction n ts L rule: wait_while.induct)
  case (2 n t ts L)
  with turn_inv [OF "2.prems"(1), of t] show ?case by (auto simp: Let_def split: if_splits intro: later_trans)
qed simp

text \<open>
  The states of the launcher of one host: its start, turns, waiting, the change of the limit, the
  end, and the launch of a plugin that has not run and is marked as running before.
\<close>

inductive launcher_run :: "(string \<Rightarrow> u32) \<Rightarrow> prefs \<Rightarrow> int \<Rightarrow> launcher \<Rightarrow> bool"
  for gsh prefs g where
  run_init: "launcher_run gsh prefs g (pluginlaunch_init gsh prefs g L)"
| run_turn: "launcher_run gsh prefs g L \<Longrightarrow> launcher_run gsh prefs g (turn t L)"
| run_launch: "launcher_run gsh prefs g L \<Longrightarrow> state (sched L) p = PLUGIN_STATUS_UNRUN \<Longrightarrow>
    plugin_launch gsh prefs sp p ts (L\<lparr>sched := plugin_set_running_state (sched L) (Some p) PLUGIN_STATUS_RUNNING\<rparr>)
      = Done (r, L', ts') \<Longrightarrow> launcher_run gsh prefs g L'"
| run_wait: "launcher_run gsh prefs g L \<Longrightarrow> pluginlaunch_wait ts L = Done (L', ts') \<Longrightarrow> launcher_run gsh prefs g L'"
| run_wait_free: "launcher_run gsh prefs g L \<Longrightarrow> pluginlaunch_wait_for_free_process ts L = Done (L', ts') \<Longrightarrow>
    launcher_run gsh prefs g L'"
| run_disable: "launcher_run gsh prefs g L \<Longrightarrow> launcher_run gsh prefs g (pluginlaunch_disable_parrallel_checks L)"
| run_enable: "launcher_run gsh prefs g L \<Longrightarrow> launcher_run gsh prefs g (pluginlaunch_enable_parrallel_checks L)"
| run_stop: "launcher_run gsh prefs g L \<Longrightarrow> launcher_run gsh prefs g (pluginlaunch_stop rd L)"

definition picked :: "launcher \<Rightarrow> nat \<Rightarrow> launcher" where
  "picked L p = L\<lparr>sched := plugin_set_running_state (sched L) (Some p) PLUGIN_STATUS_RUNNING\<rparr>"

lemma picked_inv:
  assumes "launch_inv L" and "state (sched L) p = PLUGIN_STATUS_UNRUN"
  shows "launch_inv (picked L p)" "state (sched (picked L p)) p = PLUGIN_STATUS_RUNNING"
    "p \<notin> (\<lambda>i. rplugin (slots (picked L p) ! i)) ` used_set (picked L p)"
proof -
  have u: "used_set (picked L p) = used_set L" by (simp add: picked_def used_set_def used_def)
  have st: "state (sched (picked L p)) q = (if q = p then PLUGIN_STATUS_RUNNING else state (sched L) q)" for q
    by (simp add: picked_def plugin_set_running_state_def)
  have sl: "slots (picked L p) = slots L" "num_running (picked L p) = num_running L" by (simp_all add: picked_def)
  show "launch_inv (picked L p)" using assms(1) by (auto simp: launch_inv_def u st sl)
  show "state (sched (picked L p)) p = PLUGIN_STATUS_RUNNING" by (simp add: st)
  show "p \<notin> (\<lambda>i. rplugin (slots (picked L p) ! i)) ` used_set (picked L p)"
    using assms by (auto simp: launch_inv_def u sl)
qed

lemma launched_inv:
  assumes "launch_inv L" and "state (sched L) p = PLUGIN_STATUS_RUNNING"
    and "p \<notin> (\<lambda>i. rplugin (slots L ! i)) ` used_set L" and "plugin_launch gsh prefs sp p ts L = Done (r, L', ts')"
  shows "launch_inv L' \<and> old_max_running L' = old_max_running L \<and> max_running L' = max_running L"
proof -
  have nb: "plugin_launch gsh prefs sp p ts L \<noteq> Blocked" using assms(4) by simp
  obtain L1 where L1: "later L L1" "launch_inv L1" "num_running L1 < max_running L1" "max_running L1 = max_running L"
    "(used_set L1 = {..<MAX_PROCESSES} \<and> plugin_launch gsh prefs sp p ts L = Undefined)
     \<or> (\<exists>i ts'. i < MAX_PROCESSES \<and> \<not> used L1 i
          \<and> plugin_launch gsh prefs sp p ts L = Done (spawn_pid sp, fill_slot gsh prefs sp p i L1, ts'))"
    by (rule plugin_launch_cases [OF assms(1) nb])
  with assms(4) obtain i where i: "i < MAX_PROCESSES" "\<not> used L1 i" "L' = fill_slot gsh prefs sp p i L1" by auto
  have "state (sched L1) p = PLUGIN_STATUS_RUNNING" using later_state [OF L1(1) assms(3)] assms(2) by simp
  moreover have "p \<notin> (\<lambda>i. rplugin (slots L1 ! i)) ` used_set L1"
    using assms(3) later_slot [OF L1(1)] later_used [OF L1(1)] by (auto simp: image_iff)
  moreover have "old_max_running L' = old_max_running L1" "max_running L' = max_running L1"
    by (simp_all add: i(3) fill_slot_def Let_def case_prod_beta)
  ultimately show ?thesis using fill_slot_inv(1) [OF L1(2) i(1,2)] L1(1,4) i(3) by (auto simp: later_def)
qed

lemma launcher_run_inv:
  "launcher_run gsh prefs g L \<Longrightarrow> launch_inv L \<and> old_max_running L = get_max_checks_number gsh prefs g
     \<and> (max_running L \<le> 1 \<or> max_running L < int MAX_PROCESSES \<or> max_running L = old_max_running L)"
proof (induction rule: launcher_run.induct)
  case (run_init L)
  let ?I = "pluginlaunch_init gsh prefs g L"
  have "slots ?I = replicate MAX_PROCESSES free_slot" by (simp add: pluginlaunch_init_def Let_def)
  then have u: "used_set ?I = {}" by (auto simp: used_set_def used_def free_slot_def)
  show ?case unfolding launch_inv_def u by (simp add: pluginlaunch_init_def Let_def)
next
  case (run_turn L t)
  with turn_inv [of L t] show ?case by (auto simp: later_def)
next
  case (run_launch L p sp ts r L' ts')
  then have inv: "launch_inv L" by blast
  note q = picked_inv [OF inv run_launch.hyps(2)]
  from launched_inv [OF q, of gsh prefs sp ts r L' ts'] run_launch.hyps(3) run_launch.IH show ?case
    by (auto simp: picked_def)
next
  case (run_wait L ts L' ts')
  with pluginlaunch_wait_later [of L ts L' ts'] show ?case by (auto simp: later_def)
next
  case (run_wait_free L ts L' ts')
  with wait_while_later [of L "num_running L" ts L' ts'] show ?case
    by (auto simp: pluginlaunch_wait_for_free_process_def later_def)
next
  case (run_disable L)
  then show ?case by (simp add: pluginlaunch_disable_parrallel_checks_def launch_inv_def used_set_def used_def)
next
  case (run_enable L)
  then show ?case by (simp add: pluginlaunch_enable_parrallel_checks_def launch_inv_def used_set_def used_def)
next
  case (run_stop L rd)
  with stop_inv [of L rd] show ?case by (auto simp: later_def)
qed



end
