(* ===== verification/Preferences.thy ===== *)
theory Preferences
  imports PluginLaunch
begin

text \<open>
  The preferences that the scanner asks for, \<open>openvas-scanner/src/preferences.c\<close> (the timeouts are
  in \<open>PluginLaunch\<close>), and which of them a client may not touch (\<open>is_scanner_only_pref\<close> of
  \<open>utils.c\<close>).

  Most getters keep their answer in a static variable, which is an argument and, with its new
  value, a part of the result. The variables together are the record \<open>pref_cache\<close>.
\<close>

subsection \<open>Cached switches\<close>

definition cached :: "prefs \<Rightarrow> int \<Rightarrow> bool \<Rightarrow> int \<times> int" where
  "cached prefs yes v =
     (if prefs = None then (-1, -1)
      else if yes \<ge> 0 then (yes, yes)
      else if v then (1, 1) else (0, 0))"

definition preferences_log_whole_attack :: "(string \<Rightarrow> u32) \<Rightarrow> prefs \<Rightarrow> int \<Rightarrow> int \<times> int" where
  "preferences_log_whole_attack gsh prefs yes =
     cached prefs yes (case pref_str gsh prefs ''log_whole_attack'' of None \<Rightarrow> True | Some v \<Rightarrow> v = ''yes'')"

definition preferences_optimize_test :: "(string \<Rightarrow> u32) \<Rightarrow> prefs \<Rightarrow> int \<Rightarrow> int \<times> int" where
  "preferences_optimize_test gsh prefs yes =
     cached prefs yes (pref_str gsh prefs ''optimize_test'' \<noteq> Some ''no'')"

definition preferences_log_plugins_at_load :: "(string \<Rightarrow> u32) \<Rightarrow> prefs \<Rightarrow> int \<Rightarrow> int \<times> int" where
  "preferences_log_plugins_at_load gsh prefs yes =
     cached prefs yes (pref_str gsh prefs ''log_plugins_name_at_load'' = Some ''yes'')"

definition preferences_safe_checks_enabled :: "(string \<Rightarrow> u32) \<Rightarrow> prefs \<Rightarrow> int \<Rightarrow> int \<times> int" where
  "preferences_safe_checks_enabled gsh prefs yes =
     cached prefs yes (pref_str gsh prefs ''safe_checks'' = Some ''yes'')"

definition preferences_nasl_no_signature_check :: "(string \<Rightarrow> u32) \<Rightarrow> prefs \<Rightarrow> int \<Rightarrow> int \<times> int" where
  "preferences_nasl_no_signature_check gsh prefs yes =
     cached prefs yes (pref_str gsh prefs ''nasl_no_signature_check'' = Some ''yes'')"

text \<open>Without preferences this one answers with the variable as it is.\<close>

definition preferences_benice :: "(string \<Rightarrow> u32) \<Rightarrow> prefs \<Rightarrow> int \<Rightarrow> int \<times> int" where
  "preferences_benice gsh prefs yes =
     (if prefs = None then (yes, yes)
      else cached prefs yes (pref_str gsh prefs ''be_nice'' = Some ''yes''))"

record pref_cache =
  yes_log_whole :: int
  yes_optimize :: int
  yes_log_load :: int
  to_plugins :: int
  yes_benice :: int
  yes_safe :: int
  yes_nosig :: int

definition preferences_reset_cache :: "(string \<Rightarrow> u32) \<Rightarrow> pref_cache \<Rightarrow> pref_cache" where
  "preferences_reset_cache gsh c =
     c\<lparr>yes_log_whole := snd (preferences_log_whole_attack gsh None (yes_log_whole c)),
       yes_optimize := snd (preferences_optimize_test gsh None (yes_optimize c)),
       yes_log_load := snd (preferences_log_plugins_at_load gsh None (yes_log_load c)),
       to_plugins := snd (preferences_plugins_timeout gsh None (to_plugins c)),
       yes_benice := snd (preferences_benice gsh None (yes_benice c)),
       yes_safe := snd (preferences_safe_checks_enabled gsh None (yes_safe c))\<rparr>"

subsection \<open>Other getters\<close>

definition preferences_drop_privileges :: "(string \<Rightarrow> u32) \<Rightarrow> prefs \<Rightarrow> int" where
  "preferences_drop_privileges gsh prefs =
     (if prefs = None then 0
      else if arg_get_type gsh prefs ''drop_privileges'' = ARG_STRING
        \<and> pref_str gsh prefs ''drop_privileges'' = Some ''yes'' then 1 else 0)"

definition preferences_get_bool :: "(string \<Rightarrow> u32) \<Rightarrow> prefs \<Rightarrow> string \<Rightarrow> int" where
  "preferences_get_bool gsh prefs name =
     (case pref_str gsh prefs name of
        None \<Rightarrow> -1
      | Some v \<Rightarrow> if v = [] then -1 else if v = ''no'' then 0 else if v = ''yes'' then 1 else -1)"

definition preferences_get_string :: "(string \<Rightarrow> u32) \<Rightarrow> prefs \<Rightarrow> string \<Rightarrow> string option" where
  "preferences_get_string gsh prefs name =
     (case pref_str gsh prefs name of
        Some v \<Rightarrow> if v \<noteq> [] \<and> v \<noteq> ''no'' then Some v else None
      | None \<Rightarrow> None)"

definition is_scanner_only_pref :: "string option \<Rightarrow> int" where
  "is_scanner_only_pref pref =
     (case pref of
        None \<Rightarrow> 0
      | Some p \<Rightarrow>
          if p = ''logfile'' \<or> p = ''config_file'' \<or> p = ''plugins_folder'' \<or> p = ''dumpfile''
            \<or> p = ''negot_timeout'' \<or> p = ''force_pubkey_auth'' \<or> p = ''log_while_attack''
            \<or> p = ''ca_file'' \<or> p = ''key_file'' \<or> p = ''cert_file'' \<or> p = ''be_nice''
            \<or> p = ''log_plugins_name_at_load'' \<or> p = ''nasl_no_signature_check'' \<or> take 4 p = ''sys_''
          then 1 else 0)"

subsection \<open>Lemmas\<close>

lemma cached_fresh: "prefs \<noteq> None \<Longrightarrow> cached prefs (-1) v = (of_bool v, of_bool v)"
  by (simp add: cached_def)

lemma cached_stable: "cached prefs yes v = (r, c) \<Longrightarrow> prefs \<noteq> None \<Longrightarrow> r = c \<and> cached prefs c w = (r, c)"
  by (auto simp: cached_def split: if_splits)

text \<open>
  After the caches are reset, the getters read the preferences again; only the switch for the
  priority, which is not reset without preferences, keeps its first answer.
\<close>

lemma reset_cache_effect:
  assumes "prefs \<noteq> None"
  shows "fst (preferences_safe_checks_enabled gsh prefs (yes_safe (preferences_reset_cache gsh c)))
      = of_bool (pref_str gsh prefs ''safe_checks'' = Some ''yes'')"
    and "fst (preferences_optimize_test gsh prefs (yes_optimize (preferences_reset_cache gsh c)))
      = of_bool (pref_str gsh prefs ''optimize_test'' \<noteq> Some ''no'')"
    and "yes_benice c \<ge> 0 \<Longrightarrow> fst (preferences_benice gsh prefs (yes_benice (preferences_reset_cache gsh c))) = yes_benice c"
  using assms
  by (simp_all add: preferences_reset_cache_def preferences_safe_checks_enabled_def preferences_optimize_test_def
      preferences_benice_def cached_def)

end
