(* ===== verification/Attack.thy ===== *)
theory Attack
  imports Preferences
begin

text \<open>
  The test of one host, \<open>openvas-scanner/src/attack.c\<close>: \<open>launch_plugin\<close>, which decides whether a
  plugin is run, and the loop of \<open>attack_host\<close> over the plugins that the scheduler hands out, with
  \<open>comm_send_status\<close> of \<open>openvas-libraries/misc/scanners_utils.c\<close>. Here the scheduler and the
  launcher meet: \<open>plugins_scheduler_next\<close> sets the limit of processes and waits for them, so its
  loop over the categories appears once more, over the state of the launcher.

  The record \<open>attack\<close> holds the launcher (with the scheduler and the knowledge base), the local
  and static variables of the two functions, the status messages for the client, the processes
  that were forked and the operations on the file of the knowledge base. \<open>attack_env\<close> holds what
  does not change and what the system answers: the socket pair and number of each new process,
  and for each round of the loop whether the parent lives and whether the scan is paused.
  Output to the log is left out, as is the memory of the scheduler that is freed at the end.
\<close>

subsection \<open>Data\<close>

definition ACT_DESTRUCTIVE_ATTACK :: nat where "ACT_DESTRUCTIVE_ATTACK = 6"

definition MAX_FORK_RETRIES :: nat where "MAX_FORK_RETRIES = 10"

definition ERR_HOST_DEAD :: int where "ERR_HOST_DEAD = -1"
definition ERR_CANT_FORK :: int where "ERR_CANT_FORK = -2"

datatype kb_file_op = Kb_close string | Kb_restore string

record attack_env =
  e_req :: reqlib
  e_prefs :: prefs
  e_max :: int
  e_status :: "string option"
  e_soc :: int
  e_host :: string
  e_plugins :: nat
  e_new_kb :: bool
  e_spawn :: "nat \<Rightarrow> spawn"
  e_father :: "nat \<Rightarrow> bool"
  e_pause :: "nat \<Rightarrow> bool"
  e_readable :: "nat \<Rightarrow> bool"

record attack =
  la :: launcher
  cur_plug :: int
  last_status :: int
  c_optimize :: int
  c_safe :: int
  client :: "string list"
  forks :: "(nat \<times> int) list"
  kb_files :: "kb_file_op list"
  forks_retry :: nat
  rounds :: nat

abbreviation e_gsh :: "attack_env \<Rightarrow> string \<Rightarrow> u32" where
  "e_gsh E \<equiv> r_gsh (e_req E)"

subsection \<open>Status\<close>

text \<open>\<open>None\<close> is the result -1, else the message that is sent.\<close>

definition comm_send_status ::
  "(string \<Rightarrow> u32) \<Rightarrow> prefs \<Rightarrow> int \<Rightarrow> string \<Rightarrow> string \<Rightarrow> int \<Rightarrow> int \<Rightarrow> string option" where
  "comm_send_status gsh prefs soc hostname action cur mx =
     (if soc < 0 \<or> soc > 1024 then None
      else if length hostname > 2048 - 50 then None
      else if pref_str gsh prefs ''ntp_short_status'' = Some ''yes''
      then Some (snprintf 2048 (''s:'' @ take 1 action @ '':'' @ hostname @ '':'' @ int_text cur @ '':'' @ int_text mx @ [CHR 0x0A]))
      else Some (snprintf 2048 (''SERVER <|> STATUS <|> '' @ hostname @ '' <|> '' @ action @ '' <|> ''
                   @ int_text cur @ ''/'' @ int_text mx @ '' <|> SERVER'' @ [CHR 0x0A])))"

definition send_status :: "attack_env \<Rightarrow> string \<Rightarrow> int \<Rightarrow> int \<Rightarrow> attack \<Rightarrow> bool \<times> attack" where
  "send_status E action cur mx A =
     (case comm_send_status (e_gsh E) (e_prefs E) (e_soc E) (e_host E) action cur mx of
        None \<Rightarrow> (False, A)
      | Some m \<Rightarrow> (True, A\<lparr>client := client A @ [m]\<rparr>))"

definition get_active_plugins_number :: "plugins_scheduler \<Rightarrow> nat \<Rightarrow> int" where
  "get_active_plugins_number s n =
     int (length (filter (\<lambda>p. plug_get_launch s p \<noteq> LAUNCH_DISABLED) [0..<n]))"

subsection \<open>One plugin\<close>

definition set_state :: "attack \<Rightarrow> nat \<Rightarrow> plugin_status \<Rightarrow> attack" where
  "set_state A p st = A\<lparr>la := (la A)\<lparr>sched := plugin_set_running_state (sched (la A)) (Some p) st\<rparr>\<rparr>"

definition stop_launcher :: "attack_env \<Rightarrow> attack \<Rightarrow> attack" where
  "stop_launcher E A = A\<lparr>la := pluginlaunch_stop (e_readable E) (la A)\<rparr>"

definition is_busy :: "string option \<Rightarrow> bool" where
  "is_busy st = (case st of None \<Rightarrow> False | Some s \<Rightarrow> strcaseeq s ''busy'')"

definition harmful :: "int \<Rightarrow> bool" where
  "harmful c \<longleftrightarrow> c = int ACT_DESTRUCTIVE_ATTACK \<or> c = int ACT_KILL_HOST \<or> c = int ACT_FLOOD \<or> c = int ACT_DENIAL"

text \<open>The last part: the plugin is run, and the host may turn out to be dead.\<close>

definition run_plugin :: "attack_env \<Rightarrow> nat \<Rightarrow> tick list \<Rightarrow> attack \<Rightarrow> (int \<times> attack \<times> tick list) outcome" where
  "run_plugin E p ts A =
     (case plugin_launch (e_gsh E) (e_prefs E) (e_spawn E (length (forks A))) p ts (la A) of
        Blocked \<Rightarrow> Blocked
      | Undefined \<Rightarrow> Undefined
      | Done (r, L, ts) \<Rightarrow>
          let A = A\<lparr>la := L, forks := forks A @ [(p, r)]\<rparr>;
              key = (\<lambda>n. kb_item_get_int (host_kb L) (Some n))
          in if r < 0 then Done (ERR_CANT_FORK, set_state A p PLUGIN_STATUS_UNRUN, ts)
             else if key ''Host/dead'' > 0 \<or> key ''Host/ping_failed'' > 0 then
               let A = stop_launcher E A;
                   A = (if e_new_kb E then A\<lparr>kb_files := kb_files A @ [Kb_close (e_host E)]\<rparr> else A);
                   A = (if kb_item_get_int (host_kb (la A)) (Some ''Host/ping_failed'') > 0
                        then A\<lparr>kb_files := kb_files A @ [Kb_restore (e_host E)]\<rparr> else A)
               in Done (ERR_HOST_DEAD, set_state A p PLUGIN_STATUS_DONE, ts)
             else Done (0, A, ts))"

text \<open>The checks before: an error is a reason not to run the plugin.\<close>

definition check_plugin :: "attack_env \<Rightarrow> bool \<Rightarrow> int \<Rightarrow> nat \<Rightarrow> tick list \<Rightarrow> attack \<Rightarrow> (int \<times> attack \<times> tick list) outcome" where
  "check_plugin E network_scan optimize p ts A =
     (let pl = plugin (sched (la A)) p; kb = host_kb (la A) in
      if \<not> (network_scan \<or> mandatory_requirements_met kb pl \<noteq> 0) then Done (0, set_state A p PLUGIN_STATUS_DONE, ts)
      else if optimize = 0 then run_plugin E p ts A
      else
        case requirements_plugin (e_req E) kb pl (e_prefs E) of
          None \<Rightarrow> Undefined
        | Some None \<Rightarrow> run_plugin E p ts A
        | Some (Some error) \<Rightarrow> Done (0, set_state A p PLUGIN_STATUS_DONE, ts))"

text \<open>During the scan of a network a plugin is marked in the knowledge base, and not run twice.\<close>

definition mark_launched :: "attack_env \<Rightarrow> string \<Rightarrow> attack \<Rightarrow> bool \<times> attack" where
  "mark_launched E oid A =
     (let L = la A; asc_id = snprintf 100 (''Launched/'' @ oid) in
      if kb_item_get_int (host_kb L) (Some asc_id) > 0 then (False, A)
      else (True, A\<lparr>la := L\<lparr>host_kb := snd (kb_item_add_int (host_kb L) asc_id 1),
                              kb_saved := kb_saved L @ [(asc_id, V_int 1)]\<rparr>\<rparr>))"

definition launch_plugin ::
  "attack_env \<Rightarrow> int \<Rightarrow> nat \<Rightarrow> tick list \<Rightarrow> attack \<Rightarrow> (int \<times> attack \<times> tick list) outcome" where
  "launch_plugin E num_plugs p ts A =
     (let s = sched (la A);
          (optimize, oc) = preferences_optimize_test (e_gsh E) (e_prefs E) (c_optimize A);
          A = A\<lparr>c_optimize := oc\<rparr>;
          cat = category (plugin s p);
          network_scan = is_busy (e_status E)
      in case pa_oid (args s p) of
           None \<Rightarrow> Done (0, A, ts)
         | Some oid \<Rightarrow>
             if plug_get_launch s p = LAUNCH_DISABLED \<and> cat \<noteq> int ACT_SETTINGS
             then Done (0, set_state A p PLUGIN_STATUS_DONE, ts)
             else
               let (safe, sc) = preferences_safe_checks_enabled (e_gsh E) (e_prefs E) (c_safe A);
                   A = A\<lparr>c_safe := sc\<rparr>
               in if safe \<noteq> 0 \<and> harmful cat then Done (0, set_state A p PLUGIN_STATUS_DONE, ts)
                  else if num_plugs = 0 then Undefined
                  else
                    let A = A\<lparr>cur_plug := cur_plug A + 1\<rparr>;
                        part = (cur_plug A * 100) div num_plugs;
                        (ok, A) = (if part \<ge> last_status A
                                   then send_status E ''attack'' (cur_plug A) num_plugs (A\<lparr>last_status := part + 2\<rparr>)
                                   else (True, A))
                    in if \<not> ok then Done (ERR_HOST_DEAD, stop_launcher E A, ts)
                       else
                         let (fresh, A) = (if network_scan then mark_launched E oid A else (True, A)) in
                         if \<not> fresh then Done (0, set_state A p PLUGIN_STATUS_DONE, ts)
                         else check_plugin E network_scan optimize p ts A)"

text \<open>
  The part of the loop after the label \<open>again\<close>, with the number of further tries: True when the
  test of the host ends.
\<close>

fun launch_again ::
  "attack_env \<Rightarrow> int \<Rightarrow> nat \<Rightarrow> nat \<Rightarrow> tick list \<Rightarrow> attack \<Rightarrow> (bool \<times> attack \<times> tick list) outcome" where
  "launch_again E num_plugs tries p ts A =
     (case launch_plugin E num_plugs p ts A of
        Blocked \<Rightarrow> Blocked
      | Undefined \<Rightarrow> Undefined
      | Done (e, A, ts) \<Rightarrow>
          if e = ERR_CANT_FORK then
            (case tries of
               0 \<Rightarrow> Done (True, A, ts)
             | Suc n \<Rightarrow> launch_again E num_plugs n p ts (A\<lparr>forks_retry := forks_retry A + 1\<rparr>))
          else Done (e = ERR_HOST_DEAD, A, ts))"

declare launch_again.simps [simp del]

subsection \<open>The next plugin\<close>

definition set_parallel :: "nat \<Rightarrow> launcher \<Rightarrow> launcher" where
  "set_parallel cat L =
     (let L = (if exclusive cat then pluginlaunch_disable_parrallel_checks L
               else pluginlaunch_enable_parrallel_checks L)
      in L\<lparr>sched := (sched L)\<lparr>parallel := \<not> exclusive cat\<rparr>\<rparr>)"

partial_function (option) launcher_next ::
  "nat \<Rightarrow> bool \<Rightarrow> int \<Rightarrow> tick list \<Rightarrow> launcher \<Rightarrow> (sched_result \<times> launcher \<times> tick list) outcome option" where
  "launcher_next cat flag rc ts L =
     (if cat \<le> ACT_LAST then
        Option.bind (scan_list cat (lists (sched L) cat) flag rc (sched (set_parallel cat L))) (\<lambda>r.
          let L1 = (set_parallel cat L)\<lparr>sched := snd r\<rparr> in
          case fst r of
            Scan_launch p \<Rightarrow> Some (Done (Sched_plugin p, L1, ts))
          | Scan_end fl rc' \<Rightarrow>
              if (cat = ACT_SCANNER \<or> cat = ACT_INIT \<or> cat = ACT_SETTINGS) \<and> fl
              then (case pluginlaunch_wait_for_free_process ts L1 of
                      Blocked \<Rightarrow> Some Blocked
                    | Undefined \<Rightarrow> Some Undefined
                    | Done w \<Rightarrow> launcher_next cat False rc' (snd w) (fst w))
              else if cat + 1 \<ge> ACT_DENIAL \<and> fl \<and> rc' < int ACT_DENIAL
              then Some (Done (Sched_running, L1, ts))
              else launcher_next (cat + 1) fl rc' ts L1)
      else Some (Done (if flag then Sched_running else Sched_null, L, ts)))"

declare launcher_next.simps [code]

subsection \<open>The loop\<close>

datatype attack_end = Father_gone | Host_died | All_done

text \<open>A paused scan: the plugins end, the client is told, and told again when it goes on.\<close>

definition pause_phase :: "attack_env \<Rightarrow> int \<Rightarrow> tick list \<Rightarrow> attack \<Rightarrow> (bool \<times> attack \<times> tick list) outcome" where
  "pause_phase E num_plugs ts A =
     (if \<not> e_pause E (rounds A) then Done (True, A, ts)
      else
        case pluginlaunch_wait ts (la A) of
          Blocked \<Rightarrow> Blocked
        | Undefined \<Rightarrow> Undefined
        | Done (L, ts) \<Rightarrow>
            let (ok, A) = send_status E ''pause'' (cur_plug A) num_plugs (A\<lparr>la := L\<rparr>) in
            if \<not> ok then Done (False, stop_launcher E A, ts)
            else
              let (ok, A) = send_status E ''resume'' (cur_plug A) num_plugs A in
              if \<not> ok then Done (False, stop_launcher E A, ts) else Done (True, A, ts))"

partial_function (option) attack_loop ::
  "attack_env \<Rightarrow> int \<Rightarrow> tick list \<Rightarrow> attack \<Rightarrow> (attack_end \<times> attack \<times> tick list) outcome option" where
  "attack_loop E num_plugs ts A =
     (if \<not> e_father E (rounds A) then Some (Done (Father_gone, stop_launcher E A, ts))
      else
        case pause_phase E num_plugs ts A of
          Blocked \<Rightarrow> Some Blocked
        | Undefined \<Rightarrow> Some Undefined
        | Done q \<Rightarrow>
            let A = (fst (snd q))\<lparr>rounds := rounds A + 1\<rparr>; ts = snd (snd q) in
            if \<not> fst q then Some (Done (Host_died, A, ts))
            else
              Option.bind (launcher_next ACT_INIT False (int ACT_LAST) ts (la A)) (\<lambda>o'.
                case o' of
                  Blocked \<Rightarrow> Some Blocked
                | Undefined \<Rightarrow> Some Undefined
                | Done n \<Rightarrow>
                    let A = A\<lparr>la := fst (snd n)\<rparr>; ts = snd (snd n) in
                    (case fst n of
                       Sched_plugin p \<Rightarrow>
                         (case launch_again E num_plugs (MAX_FORK_RETRIES - forks_retry A) p ts A of
                            Blocked \<Rightarrow> Some Blocked
                          | Undefined \<Rightarrow> Some Undefined
                          | Done r \<Rightarrow>
                              if fst r then Some (Done (Host_died, fst (snd r), snd (snd r)))
                              else attack_loop E num_plugs (snd (snd r)) (fst (snd r)))
                     | Sched_null \<Rightarrow>
                         (case pluginlaunch_wait ts (la A) of
                            Blocked \<Rightarrow> Some Blocked
                          | Undefined \<Rightarrow> Some Undefined
                          | Done w \<Rightarrow> Some (Done (All_done, A\<lparr>la := fst w\<rparr>, snd w)))
                     | Sched_running \<Rightarrow>
                         (case pluginlaunch_wait_for_free_process ts (la A) of
                            Blocked \<Rightarrow> Some Blocked
                          | Undefined \<Rightarrow> Some Undefined
                          | Done w \<Rightarrow> attack_loop E num_plugs (snd w) (A\<lparr>la := fst w\<rparr>)))))"

declare attack_loop.simps [code]

text \<open>After the label \<open>host_died\<close>.\<close>

definition host_died :: "attack_env \<Rightarrow> int \<Rightarrow> attack \<Rightarrow> attack" where
  "host_died E num_plugs A =
     (let A = stop_launcher E (snd (send_status E ''attack'' num_plugs num_plugs A)) in
      case e_status E of
        Some st \<Rightarrow> if strcaseeq st ''busy'' then A\<lparr>kb_files := kb_files A @ [Kb_close ''network'']\<rparr> else A
      | None \<Rightarrow> if e_new_kb E then A\<lparr>kb_files := kb_files A @ [Kb_close (e_host E)]\<rparr> else A)"

text \<open>\<open>attack_host\<close> after the knowledge base is there; \<open>A\<close> holds it and the static variables.\<close>

definition attack_host ::
  "attack_env \<Rightarrow> tick list \<Rightarrow> attack \<Rightarrow> (attack_end \<times> attack \<times> tick list) outcome option" where
  "attack_host E ts A =
     (let num_plugs = get_active_plugins_number (sched (la A)) (e_plugins E);
          A = A\<lparr>la := pluginlaunch_init (e_gsh E) (e_prefs E) (e_max E) (la A), cur_plug := 1, forks_retry := 0,
                rounds := 0\<rparr>
      in Option.bind (attack_loop E num_plugs ts A) (\<lambda>o'.
           case o' of
             Blocked \<Rightarrow> Some Blocked
           | Undefined \<Rightarrow> Some Undefined
           | Done (e, A, ts) \<Rightarrow>
               if e = Father_gone then Some (Done (e, A, ts))
               else Some (Done (e, host_died E num_plugs A, ts))))"

end
