(* ===== verification/AttackCorrect.thy ===== *)
theory AttackCorrect
  imports Attack PluginLaunchCorrect
begin

text \<open>
  The test of one host: which plugins are run, in which order, how often, and what is left of
  them when the loop ends.
\<close>

subsection \<open>The invariant\<close>

definition table :: "launcher \<Rightarrow> nat set" where
  "table L = (\<lambda>i. rplugin (slots L ! i)) ` used_set L"

text \<open>
  With respect to the scheduler \<open>s0\<close> at the start: the table is consistent, every running plugin
  is in it (but those in \<open>X\<close>, and plugins without OID, which are never launched), and what has
  left the lists of the scheduler has ended.
\<close>

definition attack_inv :: "plugins_scheduler \<Rightarrow> nat set \<Rightarrow> launcher \<Rightarrow> bool" where
  "attack_inv s0 X L \<longleftrightarrow> launch_inv L
     \<and> (\<forall>p. state (sched L) p = PLUGIN_STATUS_RUNNING \<longrightarrow> p \<in> table L \<or> p \<in> X \<or> pa_oid (args s0 p) = None)
     \<and> lists_distinct (sched L)
     \<and> (\<forall>i. \<forall>l \<in> set (lists s0 i) - set (lists (sched L) i). cleaned (sched L) l)
     \<and> args (sched L) = args s0 \<and> desc (sched L) = desc s0 \<and> entry (sched L) = entry s0"

lemma attack_inv_cong:
  "slots L' = slots L \<Longrightarrow> num_running L' = num_running L \<Longrightarrow> sched L' = sched L \<Longrightarrow> attack_inv s0 X L' = attack_inv s0 X L"
  by (simp add: attack_inv_def launch_inv_def table_def used_set_def used_def)

lemma later_wait_step: "later L L' \<Longrightarrow> wait_step (sched L) (sched L')"
  unfolding later_def wait_step_def by blast

lemma attack_inv_later:
  assumes "attack_inv s0 X L" and "later L L'" and "launch_inv L'"
  shows "attack_inv s0 X L'"
proof -
  note l = assms(2) [unfolded later_def]
  have "p \<in> table L' \<or> p \<in> X \<or> pa_oid (args s0 p) = None" if r: "state (sched L') p = PLUGIN_STATUS_RUNNING" for p
  proof -
    have "state (sched L) p = PLUGIN_STATUS_RUNNING" using r l by (metis plugin_status.distinct(7))
    then consider "p \<in> table L" | "p \<in> X" | "pa_oid (args s0 p) = None" using assms(1) by (auto simp: attack_inv_def)
    then show ?thesis
    proof cases
      case 1
      then obtain i where i: "i \<in> used_set L" "p = rplugin (slots L ! i)" by (auto simp: table_def)
      show ?thesis
      proof (cases "i \<in> used_set L'")
        case True
        with i later_slot [OF assms(2) True] show ?thesis by (force simp: table_def)
      next
        case False
        with later_freed [OF assms(2) i(1)] i(2) r show ?thesis by simp
      qed
    qed simp_all
  qed
  moreover have "cleaned (sched L') q" if "cleaned (sched L) q" for q
    using that wait_proceeds [OF later_wait_step [OF assms(2)]] proceeds_cleaned by blast
  ultimately show ?thesis
    using assms(1,3) l unfolding attack_inv_def lists_distinct_def by simp
qed

text \<open>The scheduler searches: running plugins stay as they are, others may be cleaned up.\<close>

lemma attack_inv_evolves:
  assumes "attack_inv s0 X L" and "slots L' = slots L" and "num_running L' = num_running L"
    and "evolves (sched L) (sched L')" and "lists_distinct (sched L')"
    and "\<forall>i. \<forall>l \<in> set (lists (sched L) i) - set (lists (sched L') i). cleaned (sched L') l"
  shows "attack_inv s0 X L'"
proof -
  have u: "used_set L' = used_set L" "table L' = table L" by (simp_all add: table_def used_set_def used_def assms(2))
  have "launch_inv L'"
    using assms(1-3) evolves_running [OF assms(4)] by (auto simp: attack_inv_def launch_inv_def u)
  moreover have "cleaned (sched L') l" if "l \<in> set (lists s0 i) - set (lists (sched L') i)" for i l
  proof (cases "l \<in> set (lists (sched L) i)")
    case False
    with that assms(1) have "cleaned (sched L) l" by (auto simp: attack_inv_def)
    with assms(4) show ?thesis by (rule evolves_cleaned)
  qed (use that assms(6) in blast)
  moreover have "args (sched L') = args s0 \<and> desc (sched L') = desc s0 \<and> entry (sched L') = entry s0"
    using assms(1,4) by (simp add: attack_inv_def evolves_def)
  moreover have "\<forall>p. state (sched L') p = PLUGIN_STATUS_RUNNING \<longrightarrow> p \<in> table L' \<or> p \<in> X \<or> pa_oid (args s0 p) = None"
    using assms(1) evolves_running [OF assms(4)] by (simp add: attack_inv_def u)
  ultimately show ?thesis using assms(5) by (simp add: attack_inv_def)
qed

text \<open>A plugin that was handed out and is not launched yet.\<close>

definition pending :: "plugins_scheduler \<Rightarrow> nat \<Rightarrow> launcher \<Rightarrow> bool" where
  "pending s0 p L \<longleftrightarrow> attack_inv s0 {p} L \<and> state (sched L) p = PLUGIN_STATUS_RUNNING \<and> p \<notin> table L"

lemma attack_inv_hand_out:
  assumes "attack_inv s0 {} L" and "state (sched L) p = PLUGIN_STATUS_UNRUN"
    and "slots L' = slots L" and "num_running L' = num_running L" and "sched L' = launch (sched L) p"
  shows "pending s0 p L'"
proof -
  have u: "used_set L' = used_set L" "table L' = table L" by (simp_all add: table_def used_set_def used_def assms(3))
  have "p \<notin> table L" using assms(1,2) by (auto simp: attack_inv_def launch_inv_def table_def)
  moreover have "launch_inv L'"
    using assms(1-4) by (auto simp: attack_inv_def launch_inv_def u assms(5))
  moreover have "cleaned (sched L') l" if "cleaned (sched L) l" for l
    using that assms(2) by (auto simp: assms(5) cleaned_def)
  ultimately show ?thesis
    using assms(1) by (auto simp: pending_def attack_inv_def u assms(5) lists_distinct_def)
qed

lemma pending_done:
  assumes "pending s0 p L"
  shows "attack_inv s0 {} (L\<lparr>sched := plugin_set_running_state (sched L) (Some p) PLUGIN_STATUS_DONE\<rparr>)"
proof -
  define M where "M = L\<lparr>sched := plugin_set_running_state (sched L) (Some p) PLUGIN_STATUS_DONE\<rparr>"
  have u: "used_set M = used_set L" "table M = table L" and sl: "slots M = slots L" "num_running M = num_running L"
    by (simp_all add: table_def used_set_def used_def M_def)
  have st: "state (sched M) q = (if q = p then PLUGIN_STATUS_DONE else state (sched L) q)" for q
    by (simp add: plugin_set_running_state_def M_def)
  have fr: "lists (sched M) = lists (sched L)" "args (sched M) = args (sched L)" "entry (sched M) = entry (sched L)"
    by (simp_all add: plugin_set_running_state_def M_def)
  have ds: "desc (sched M) = desc (sched L)" by (simp add: M_def)
  have "launch_inv M"
    using assms by (auto simp: pending_def attack_inv_def launch_inv_def u st sl table_def)
  moreover have "cleaned (sched M) l" if "cleaned (sched L) l" for l
    using that assms by (auto simp: pending_def cleaned_def st)
  ultimately have "attack_inv s0 {} M"
    using assms by (auto simp: pending_def attack_inv_def u st fr ds lists_distinct_def)
  then show ?thesis by (simp add: M_def)
qed

lemma pending_later:
  assumes "pending s0 p L" and "later L L'" and "launch_inv L'"
  shows "pending s0 p L'"
proof -
  have np: "p \<notin> (\<lambda>i. rplugin (slots L ! i)) ` used_set L" using assms(1) by (simp add: pending_def table_def)
  then have "p \<notin> table L'"
    using later_slot [OF assms(2)] later_used [OF assms(2)] by (auto simp: table_def image_iff)
  moreover have "state (sched L') p = PLUGIN_STATUS_RUNNING"
    using later_state [OF assms(2) np] assms(1) by (simp add: pending_def)
  ultimately show ?thesis using attack_inv_later [OF _ assms(2,3)] assms(1) by (simp add: pending_def)
qed

lemma pending_launched:
  assumes "pending s0 p L" and "i < MAX_PROCESSES" and "\<not> used L i" and "spawn_pid sp > 0"
  shows "attack_inv s0 {} (fill_slot gsh prefs sp p i L)" (is "attack_inv s0 {} ?L")
proof -
  have a: "attack_inv s0 {p} L" "launch_inv L" "state (sched L) p = PLUGIN_STATUS_RUNNING"
    "p \<notin> (\<lambda>i. rplugin (slots L ! i)) ` used_set L"
    using assms(1) by (simp_all add: pending_def attack_inv_def table_def)
  have len: "length (slots L) = MAX_PROCESSES" using a(2) by (simp add: launch_inv_def)
  note f = fill_slot_slots [OF len assms(2), where gsh = gsh and prefs = prefs and sp = sp and p = p]
  note inv = fill_slot_inv [OF a(2) assms(2,3) a(3,4), of gsh prefs sp]
  have i: "i \<notin> used_set L" using assms(3) by (simp add: used_set_def)
  have "slots ?L ! j = slots L ! j" if "j \<in> used_set L" for j using that i by (intro f(1)) auto
  then have "(\<lambda>j. rplugin (slots ?L ! j)) ` used_set L = table L" by (simp add: table_def)
  then have tb: "table ?L = insert p (table L)" using f(3) assms(4) by (simp add: table_def inv(2))
  have sc: "sched ?L = sched L" using assms(4) by (simp add: fill_slot_def Let_def case_prod_beta)
  show ?thesis using a(1) inv(1) unfolding attack_inv_def sc tb by auto
qed

subsection \<open>The scheduler over the launcher\<close>

lemma scan_list_cleaned:
  assumes "scan_list cat ls flag rc s = Some (r, s')" and "cleaned s q"
  shows "cleaned s' q"
proof (cases r)
  case (Scan_launch p)
  with assms(1) scan_list_launch obtain s1 where s1: "evolves s s1" "ready s1 p" "s' = launch s1 p" by blast
  have "cleaned s1 q" using s1(1) assms(2) by (rule evolves_cleaned)
  with s1(2,3) show ?thesis by (auto simp: ready_def cleaned_def)
next
  case (Scan_end fl rc')
  with assms(1) scan_list_end have "evolves s s'" by (auto simp: end_post_def)
  then show ?thesis using assms(2) by (rule evolves_cleaned)
qed

lemma scan_list_lists:
  "scan_list cat ls flag rc s = Some (r, s') \<Longrightarrow> (\<forall>c. c \<noteq> cat \<longrightarrow> lists s' c = lists s c)
    \<and> (distinct (lists s cat) \<longrightarrow> distinct (lists s' cat)) \<and> (\<forall>l \<in> set (lists s cat) - set (lists s' cat). cleaned s' l)"
proof (induction cat ls flag rc s rule: scan_list.induct)
  case (2 cat l ls flag rc s)
  have rm: ?case if "cleaned s1 l" "lists s1 = lists s"
    "scan_list cat ls flag rc (s1\<lparr>lists := (lists s1)(cat := remove1 l (lists s1 cat))\<rparr>) = Some (r, s')"
    "(\<forall>c. c \<noteq> cat \<longrightarrow> lists s' c = lists s c) \<and> (distinct (remove1 l (lists s cat)) \<longrightarrow> distinct (lists s' cat))
      \<and> (\<forall>l \<in> set (remove1 l (lists s cat)) - set (lists s' cat). cleaned s' l)" for s1
  proof -
    have "cleaned (s1\<lparr>lists := (lists s1)(cat := remove1 l (lists s1 cat))\<rparr>) l" using that(1) by (simp add: cleaned_def)
    with that(3) have "cleaned s' l" by (rule scan_list_cleaned)
    then have "cleaned s' x" if "x \<in> set (lists s cat) - set (lists s' cat)" for x
      using that \<open>_ \<and> _ \<and> (\<forall>l \<in> _. cleaned s' l)\<close> by (cases "x = l") auto
    with that(4) show ?thesis by auto
  qed
  show ?case
  proof (cases "state s l")
    case PLUGIN_STATUS_UNRUN
    show ?thesis
    proof (cases "deps_ptr s l")
      case None
      with PLUGIN_STATUS_UNRUN "2.prems" show ?thesis by auto
    next
      case (Some dd)
      with PLUGIN_STATUS_UNRUN "2.prems" obtain q s1 where n: "next_dep s dd False = Some (q, s1)"
        by (auto simp: plugin_next_unrun_dependencie_def split: bind_splits)
      have ls: "lists s1 = lists s" using next_dep_correct [OF n] by simp
      show ?thesis
      proof (cases q)
        case Sched_running
        from n Some PLUGIN_STATUS_UNRUN "2.prems" "2.IH"(1) [OF PLUGIN_STATUS_UNRUN Some, of "(Sched_running, s1)" Sched_running s1]
          Sched_running ls show ?thesis by (simp add: plugin_next_unrun_dependencie_def)
      qed (use n Some PLUGIN_STATUS_UNRUN "2.prems" ls in \<open>auto simp: plugin_next_unrun_dependencie_def\<close>)
    qed
  next
    case PLUGIN_STATUS_RUNNING
    with "2.prems" "2.IH"(2) show ?thesis by simp
  next
    case PLUGIN_STATUS_DONE
    with "2.prems" "2.IH"(3) [OF PLUGIN_STATUS_DONE refl] show ?thesis by (intro rm [of "clean s l"]) (simp_all add: cleaned_def)
  next
    case PLUGIN_STATUS_DONE_AND_CLEANED
    with "2.prems" "2.IH"(4) show ?thesis by (intro rm [of s]) (simp_all add: cleaned_def)
  qed
qed auto

lemma set_parallel_frame [simp]:
  "slots (set_parallel cat L) = slots L" "num_running (set_parallel cat L) = num_running L"
  "sched (set_parallel cat L) = (sched L)\<lparr>parallel := \<not> exclusive cat\<rparr>"
  by (simp_all add: set_parallel_def pluginlaunch_disable_parrallel_checks_def pluginlaunch_enable_parrallel_checks_def)

lemma parallel_evolves: "evolves s (s\<lparr>parallel := b\<rparr>)"
  by (simp add: evolves_def)

text \<open>One list scanned, in terms of the launcher: the end of the list, or a plugin to launch.\<close>

lemma scan_launcher:
  assumes "attack_inv s0 {} L" and "scan_list cat (lists (sched L) cat) flag rc (sched (set_parallel cat L)) = Some (r, s')"
    and "L' = (set_parallel cat L)\<lparr>sched := s'\<rparr>"
  shows "case r of Scan_launch p \<Rightarrow> pending s0 p L' | Scan_end fl rc' \<Rightarrow> attack_inv s0 {} L'"
proof -
  let ?s = "sched (set_parallel cat L)"
  have dl: "lists_distinct (sched L)" using assms(1) by (simp add: attack_inv_def)
  note sl = scan_list_lists [OF assms(2)]
  have dist: "lists_distinct s'"
    unfolding lists_distinct_def
  proof
    fix c show "distinct (lists s' c)" using sl dl by (cases "c = cat") (simp_all add: lists_distinct_def)
  qed
  have cov: "\<forall>i. \<forall>l \<in> set (lists (sched L) i) - set (lists s' i). cleaned s' l"
  proof (intro allI ballI)
    fix i l assume "l \<in> set (lists (sched L) i) - set (lists s' i)"
    then show "cleaned s' l" using sl by (cases "i = cat") auto
  qed
  show ?thesis
  proof (cases r)
    case (Scan_end fl rc')
    with assms(2) scan_list_end have "evolves ?s s'" by (auto simp: end_post_def)
    then have "evolves (sched L) s'" using parallel_evolves by (auto intro: evolves_trans)
    with attack_inv_evolves [OF assms(1), of L'] dist cov assms(3) Scan_end show ?thesis by simp
  next
    case (Scan_launch p)
    with assms(2) scan_list_launch obtain s1 where s1: "evolves ?s s1" "ready s1 p" "s' = launch s1 p" by blast
    let ?L1 = "(set_parallel cat L)\<lparr>sched := s1\<rparr>"
    have un: "state s1 p = PLUGIN_STATUS_UNRUN" using s1(2) by (simp add: ready_def)
    have "evolves (sched L) s1" using s1(1) parallel_evolves by (auto intro: evolves_trans)
    moreover have "lists s1 = lists s'" "cleaned s' l \<Longrightarrow> cleaned s1 l" for l
      using s1(3) by (auto simp: cleaned_def split: if_splits)
    ultimately have "attack_inv s0 {} ?L1"
      using attack_inv_evolves [OF assms(1), of ?L1] dist cov by (auto simp: lists_distinct_def)
    with attack_inv_hand_out [of s0 ?L1 p L'] un s1(3) assms(3) Scan_launch show ?thesis by simp
  qed
qed

abbreviation handed :: "plugins_scheduler \<Rightarrow> sched_result \<Rightarrow> launcher \<Rightarrow> bool" where
  "handed s0 r L \<equiv> (case r of Sched_plugin p \<Rightarrow> pending s0 p L | _ \<Rightarrow> attack_inv s0 {} L)"

lemma wait_free_later:
  "launch_inv L \<Longrightarrow> pluginlaunch_wait_for_free_process ts L = Done (L', ts') \<Longrightarrow> later L L' \<and> launch_inv L'"
  unfolding pluginlaunch_wait_for_free_process_def by (rule wait_while_later)

lemma pass_prepend:
  "pass c0 c1 \<Longrightarrow> \<exists>c. pass\<^sup>*\<^sup>* c1 c \<and> answer c r s \<Longrightarrow> \<exists>c. pass\<^sup>*\<^sup>* c0 c \<and> answer c r s"
  by (blast intro: converse_rtranclp_into_rtranclp)

lemma launcher_next_passes:
  assumes "launcher_next cat flag rc ts L = Some (Done (r, L', ts'))" and "attack_inv s0 {} L"
  shows "(\<exists>c. pass\<^sup>*\<^sup>* (cat, flag, rc, sched L) c \<and> answer c r (sched L')) \<and> handed s0 r L'"
proof -
  let ?P = "\<lambda>cat flag rc ts L o'. \<forall>r L' ts'. o' = Done (r, L', ts') \<longrightarrow> attack_inv s0 {} L \<longrightarrow>
    (\<exists>c. pass\<^sup>*\<^sup>* (cat, flag, rc, sched L) c \<and> answer c r (sched L')) \<and> handed s0 r L'"
  have "?P cat flag rc ts L (Done (r, L', ts'))"
  proof (rule launcher_next.raw_induct [where P = ?P, OF _ assms(1)], intro allI impI)
    fix f cat flag rc ts L o' r L' ts'
    assume IH: "\<And>cat flag rc ts L o'. f cat flag rc ts L = Some o' \<Longrightarrow> ?P cat flag rc ts L o'"
      and eq: "(if cat \<le> ACT_LAST then
        Option.bind (scan_list cat (lists (sched L) cat) flag rc (sched (set_parallel cat L))) (\<lambda>r.
          let L1 = (set_parallel cat L)\<lparr>sched := snd r\<rparr> in
          case fst r of
            Scan_launch p \<Rightarrow> Some (Done (Sched_plugin p, L1, ts))
          | Scan_end fl rc' \<Rightarrow>
              if (cat = ACT_SCANNER \<or> cat = ACT_INIT \<or> cat = ACT_SETTINGS) \<and> fl
              then (case pluginlaunch_wait_for_free_process ts L1 of
                      Blocked \<Rightarrow> Some Blocked
                    | Undefined \<Rightarrow> Some Undefined
                    | Done w \<Rightarrow> f cat False rc' (snd w) (fst w))
              else if cat + 1 \<ge> ACT_DENIAL \<and> fl \<and> rc' < int ACT_DENIAL
              then Some (Done (Sched_running, L1, ts))
              else f (cat + 1) fl rc' ts L1)
      else Some (Done (if flag then Sched_running else Sched_null, L, ts))) = Some o'"
      and o': "o' = Done (r, L', ts')" and inv: "attack_inv s0 {} L"
    show "(\<exists>c. pass\<^sup>*\<^sup>* (cat, flag, rc, sched L) c \<and> answer c r (sched L')) \<and> handed s0 r L'"
    proof (cases "cat \<le> ACT_LAST")
      case False
      with eq o' inv answer.out [of cat flag rc "sched L"] show ?thesis
        by (intro conjI exI [of _ "(cat, flag, rc, sched L)"]) auto
    next
      case True
      with eq obtain q s1 where sc: "scan_list cat (lists (sched L) cat) flag rc (sched (set_parallel cat L)) = Some (q, s1)"
        by (auto split: bind_splits)
      let ?L1 = "(set_parallel cat L)\<lparr>sched := s1\<rparr>"
      note sl = scan_launcher [OF inv sc refl]
      have pl: "pass_list (cat, flag, rc, sched L) = Some (q, s1)" using sc by simp
      show ?thesis
      proof (cases q)
        case (Scan_launch p)
        with eq sc True o' have "r = Sched_plugin p" "L' = ?L1" by auto
        with answer.launched [OF True] pl sl Scan_launch show ?thesis
          by (intro conjI exI [of _ "(cat, flag, rc, sched L)"]) auto
      next
        case (Scan_end fl rc')
        consider "early cat \<and> fl" | "\<not> (early cat \<and> fl)" "cat + 1 \<ge> ACT_DENIAL \<and> fl \<and> rc' < int ACT_DENIAL"
          | "\<not> (early cat \<and> fl)" "\<not> (cat + 1 \<ge> ACT_DENIAL \<and> fl \<and> rc' < int ACT_DENIAL)" by blast
        then show ?thesis
        proof cases
          case 1
          with eq sc True o' Scan_end obtain L2 ts2 where w: "pluginlaunch_wait_for_free_process ts ?L1 = Done (L2, ts2)"
            "f cat False rc' ts2 L2 = Some (Done (r, L', ts'))" by (auto simp: early_def Let_def split: outcome.splits)
          have l: "later ?L1 L2" "launch_inv L2" using wait_free_later [OF _ w(1)] sl Scan_end by (auto simp: attack_inv_def)
          have "pass (cat, flag, rc, sched L) (cat, False, rc', sched L2)"
            using pass.again [OF True, of flag rc "sched L" rc' s1 "sched L2"] pl Scan_end 1 later_wait_step [OF l(1)] by simp
          moreover have "attack_inv s0 {} L2" using attack_inv_later [OF _ l] sl Scan_end by simp
          ultimately show ?thesis using IH [OF w(2)] pass_prepend by blast
        next
          case 2
          with eq sc True o' Scan_end have "r = Sched_running" "L' = ?L1" by (auto simp: early_def Let_def)
          with answer.busy [OF True, of flag rc "sched L" rc' s1] pl Scan_end 2 sl show ?thesis
            by (intro conjI exI [of _ "(cat, flag, rc, sched L)"]) auto
        next
          case 3
          with eq sc True o' Scan_end have n: "f (cat + 1) fl rc' ts ?L1 = Some (Done (r, L', ts'))"
            by (auto simp: early_def Let_def split: if_splits)
          have "pass (cat, flag, rc, sched L) (cat + 1, fl, rc', sched ?L1)"
            using pass.on [OF True, of flag rc "sched L" fl rc' s1] pl Scan_end 3 by simp
          moreover have "attack_inv s0 {} ?L1" using sl Scan_end by simp
          ultimately show ?thesis using IH [OF n] pass_prepend by blast
        qed
      qed
    qed
  qed
  with assms(2) show ?thesis by blast
qed

subsection \<open>One plugin\<close>

lemma set_state_la: "la (set_state A p st) = (la A)\<lparr>sched := plugin_set_running_state (sched (la A)) (Some p) st\<rparr>"
  by (simp add: set_state_def)

lemma plugin_launch_pending:
  assumes "pending s0 p L" and "spawn_pid sp > 0" and "plugin_launch gsh prefs sp p ts L = Done (r, L', ts')"
  shows "attack_inv s0 {} L'" "r > 0" "proceeds (sched L) (sched L')" "state (sched L') p = PLUGIN_STATUS_RUNNING"
proof -
  have inv: "launch_inv L" using assms(1) by (simp add: pending_def attack_inv_def)
  have nb: "plugin_launch gsh prefs sp p ts L \<noteq> Blocked" using assms(3) by simp
  obtain L1 where L1: "later L L1" "launch_inv L1"
    "(used_set L1 = {..<MAX_PROCESSES} \<and> plugin_launch gsh prefs sp p ts L = Undefined)
     \<or> (\<exists>i ts'. i < MAX_PROCESSES \<and> \<not> used L1 i
          \<and> plugin_launch gsh prefs sp p ts L = Done (spawn_pid sp, fill_slot gsh prefs sp p i L1, ts'))"
    by (rule plugin_launch_cases [OF inv nb])
  with assms(3) obtain i where i: "i < MAX_PROCESSES" "\<not> used L1 i" "L' = fill_slot gsh prefs sp p i L1" "r = spawn_pid sp" by auto
  have sc: "sched L' = sched L1" using assms(2) by (simp add: i(3) fill_slot_def Let_def case_prod_beta)
  have pe: "pending s0 p L1" using assms(1) L1(1,2) by (rule pending_later)
  show "proceeds (sched L) (sched L')" using wait_proceeds [OF later_wait_step [OF L1(1)]] by (simp add: sc)
  show "attack_inv s0 {} L'" unfolding i(3) using pe i(1,2) assms(2) by (rule pending_launched)
  show "r > 0" using assms(2) i(4) by simp
  show "state (sched L') p = PLUGIN_STATUS_RUNNING" using pe by (simp add: sc pending_def)
qed

text \<open>
  The plugins that were run so far: each was allowed, all it depends on has ended, and no plugin
  was run again or after one that depends on it.
\<close>

definition safe_checks :: "attack_env \<Rightarrow> bool" where
  "safe_checks E \<longleftrightarrow> pref_str (e_gsh E) (e_prefs E) ''safe_checks'' = Some ''yes''"

definition allowed :: "attack_env \<Rightarrow> plugins_scheduler \<Rightarrow> nat \<Rightarrow> bool" where
  "allowed E s p \<longleftrightarrow> (plug_get_launch s p \<noteq> LAUNCH_DISABLED \<or> category (plugin s p) = int ACT_SETTINGS)
     \<and> \<not> (safe_checks E \<and> harmful (category (plugin s p)))"

definition forward :: "plugins_scheduler \<Rightarrow> plugins_scheduler \<Rightarrow> bool" where
  "forward s s' \<longleftrightarrow> (\<forall>q. cleaned s q \<longrightarrow> cleaned s' q)
     \<and> (\<forall>q. state s q \<noteq> PLUGIN_STATUS_UNRUN \<longrightarrow> state s' q \<noteq> PLUGIN_STATUS_UNRUN)"

abbreviation run_list :: "attack \<Rightarrow> nat list" where
  "run_list A \<equiv> map fst (forks A)"

definition trace_inv :: "attack_env \<Rightarrow> plugins_scheduler \<Rightarrow> attack \<Rightarrow> bool" where
  "trace_inv E s0 A \<longleftrightarrow> c_safe A \<in> {-1, of_bool (safe_checks E)}
     \<and> sorted_wrt (\<lambda>p q. p \<noteq> q \<and> q \<notin> deps_of s0 p) (run_list A)
     \<and> (\<forall>p \<in> set (run_list A). state (sched (la A)) p \<noteq> PLUGIN_STATUS_UNRUN
          \<and> (\<forall>d \<in> deps_of s0 p. cleaned (sched (la A)) d) \<and> allowed E s0 p)"

definition fresh :: "plugins_scheduler \<Rightarrow> nat \<Rightarrow> attack \<Rightarrow> bool" where
  "fresh s0 p A \<longleftrightarrow> p \<notin> set (run_list A) \<and> (\<forall>q \<in> set (run_list A). p \<notin> deps_of s0 q)
     \<and> (\<forall>d \<in> deps_of s0 p. cleaned (sched (la A)) d) \<and> state (sched (la A)) p = PLUGIN_STATUS_RUNNING"

lemma forward_refl [simp]: "forward s s"
  by (simp add: forward_def)

lemma forward_trans: "forward a b \<Longrightarrow> forward b c \<Longrightarrow> forward a c"
  by (simp add: forward_def)

lemma proceeds_forward: "proceeds s s' \<Longrightarrow> forward s s'"
  using proceeds_cleaned by (auto simp: forward_def proceeds_def)

lemma later_forward: "later L L' \<Longrightarrow> forward (sched L) (sched L')"
  by (rule proceeds_forward [OF wait_proceeds [OF later_wait_step]])

lemma set_state_forward: "\<not> cleaned (sched (la A)) p \<Longrightarrow> forward (sched (la A)) (sched (la (set_state A p PLUGIN_STATUS_DONE)))"
  by (auto simp: forward_def set_state_def plugin_set_running_state_def cleaned_def)

lemma trace_forward:
  assumes "trace_inv E s0 A" and "forks A' = forks A" and "c_safe A' = c_safe A" and "forward (sched (la A)) (sched (la A'))"
  shows "trace_inv E s0 A'"
  using assms by (simp add: trace_inv_def forward_def)

lemma trace_append:
  assumes "trace_inv E s0 A" and "fresh s0 p A" and "allowed E s0 p" and "forks A' = forks A @ [(p, r)]"
    and "c_safe A' = c_safe A" and "forward (sched (la A)) (sched (la A'))"
  shows "trace_inv E s0 A'"
proof -
  have "state (sched (la A')) p \<noteq> PLUGIN_STATUS_UNRUN" using assms(2,6) by (simp add: fresh_def forward_def)
  with assms show ?thesis by (auto simp: trace_inv_def fresh_def forward_def sorted_wrt_append)
qed

lemma run_plugin_correct:
  assumes "run_plugin E p ts A = Done (e, A', ts')" and "pending s0 p (la A)" and "trace_inv E s0 A" and "fresh s0 p A"
    and "allowed E s0 p" and "\<forall>n. spawn_pid (e_spawn E n) > 0"
  shows "(e = 0 \<and> attack_inv s0 {} (la A') \<or> e = ERR_HOST_DEAD) \<and> trace_inv E s0 A'"
proof -
  from assms(1) obtain r L1 ts1 where l: "plugin_launch (e_gsh E) (e_prefs E) (e_spawn E (length (forks A))) p ts (la A) = Done (r, L1, ts1)"
    by (auto simp: run_plugin_def split: outcome.splits)
  note c = plugin_launch_pending [OF assms(2) assms(6) [rule_format] l]
  let ?A = "A\<lparr>la := L1, forks := forks A @ [(p, r)]\<rparr>"
  have tr: "trace_inv E s0 ?A"
    using proceeds_forward [OF c(3)] by (intro trace_append [OF assms(3-5)]) simp_all
  show ?thesis
  proof (cases "kb_item_get_int (host_kb L1) (Some ''Host/dead'') > 0 \<or> kb_item_get_int (host_kb L1) (Some ''Host/ping_failed'') > 0")
    case False
    with assms(1) l c(2) have "e = 0" "A' = ?A" by (auto simp: run_plugin_def)
    with c(1) tr show ?thesis by simp
  next
    case True
    then obtain B where B: "la B = la (stop_launcher E ?A)" "forks B = forks ?A" "c_safe B = c_safe ?A"
      "A' = set_state B p PLUGIN_STATUS_DONE" "e = ERR_HOST_DEAD"
    proof -
      define B1 where "B1 = (if e_new_kb E then (stop_launcher E ?A)\<lparr>kb_files := kb_files (stop_launcher E ?A) @ [Kb_close (e_host E)]\<rparr> else stop_launcher E ?A)"
      define B2 where "B2 = (if kb_item_get_int (host_kb (la B1)) (Some ''Host/ping_failed'') > 0
                        then B1\<lparr>kb_files := kb_files B1 @ [Kb_restore (e_host E)]\<rparr> else B1)"
      have "A' = set_state B2 p PLUGIN_STATUS_DONE" "e = ERR_HOST_DEAD"
        using True assms(1) l c(2) by (auto simp: run_plugin_def Let_def B2_def B1_def)
      then show thesis by (intro that [of B2]) (auto simp: B1_def B2_def stop_launcher_def)
    qed
    have inv: "launch_inv L1" using c(1) by (simp add: attack_inv_def)
    have st: "later L1 (la B)" using stop_inv(1) [OF inv, of "e_readable E"] B(1) by (simp add: stop_launcher_def)
    have "\<not> cleaned (sched (la B)) p"
      using later_wait_step [OF st] c(4) unfolding wait_step_def cleaned_def by (metis plugin_status.distinct(9,11))
    then have "forward (sched (la ?A)) (sched (la A'))"
      using forward_trans [OF later_forward [OF st] set_state_forward] B(4) by simp
    then have "trace_inv E s0 A'" using B(2-4) by (intro trace_forward [OF tr]) (simp_all add: set_state_def)
    with B(5) show ?thesis by simp
  qed
qed

text \<open>What holds after a plugin was handled, with the result of \<open>launch_plugin\<close>.\<close>

definition handled :: "attack_env \<Rightarrow> plugins_scheduler \<Rightarrow> int \<Rightarrow> attack \<Rightarrow> bool" where
  "handled E s0 e A \<longleftrightarrow> (e = 0 \<and> attack_inv s0 {} (la A) \<or> e = ERR_HOST_DEAD) \<and> trace_inv E s0 A"

definition ready_to_run :: "attack_env \<Rightarrow> plugins_scheduler \<Rightarrow> nat \<Rightarrow> attack \<Rightarrow> bool" where
  "ready_to_run E s0 p A \<longleftrightarrow> pending s0 p (la A) \<and> trace_inv E s0 A \<and> fresh s0 p A"

lemma ready_to_run_cong:
  assumes "ready_to_run E s0 p A" and "slots (la B) = slots (la A)" and "num_running (la B) = num_running (la A)"
    and "sched (la B) = sched (la A)" and "forks B = forks A" and "c_safe B \<in> {-1, of_bool (safe_checks E)}"
  shows "ready_to_run E s0 p B"
  using assms(1) attack_inv_cong [OF assms(2-4)] assms(2-)
  unfolding ready_to_run_def pending_def trace_inv_def fresh_def table_def used_set_def used_def by simp

lemma handled_done:
  assumes "ready_to_run E s0 p A"
  shows "handled E s0 0 (set_state A p PLUGIN_STATUS_DONE)"
proof -
  have p: "pending s0 p (la A)" and t: "trace_inv E s0 A" using assms by (simp_all add: ready_to_run_def)
  have "\<not> cleaned (sched (la A)) p" using p by (simp add: pending_def cleaned_def)
  then have "trace_inv E s0 (set_state A p PLUGIN_STATUS_DONE)"
    using set_state_forward by (intro trace_forward [OF t]) (simp_all add: set_state_def)
  with pending_done [OF p] show ?thesis by (simp add: handled_def set_state_la)
qed

lemma handled_stop:
  assumes "ready_to_run E s0 p A"
  shows "handled E s0 ERR_HOST_DEAD (stop_launcher E A)"
proof -
  have inv: "launch_inv (la A)" and t: "trace_inv E s0 A"
    using assms by (simp_all add: ready_to_run_def pending_def attack_inv_def)
  have "trace_inv E s0 (stop_launcher E A)"
    using later_forward [OF stop_inv(1) [OF inv]] by (intro trace_forward [OF t]) (simp_all add: stop_launcher_def)
  then show ?thesis by (simp add: handled_def)
qed

lemma handled_check:
  assumes "check_plugin E ns opt p ts A = Done (e, A', ts')" and "ready_to_run E s0 p A" and "allowed E s0 p"
    and "\<forall>n. spawn_pid (e_spawn E n) > 0"
  shows "handled E s0 e A'"
proof -
  have "run_plugin E p ts A = Done (e, A', ts') \<or> (e = 0 \<and> A' = set_state A p PLUGIN_STATUS_DONE)"
    using assms(1) by (auto simp: check_plugin_def Let_def split: if_splits option.splits)
  then show ?thesis
  proof
    assume "run_plugin E p ts A = Done (e, A', ts')"
    from run_plugin_correct [OF this _ _ _ assms(3,4)] assms(2) show ?thesis by (simp add: handled_def ready_to_run_def)
  qed (use handled_done [OF assms(2)] in simp)
qed

lemma safe_cached:
  assumes "e_prefs E \<noteq> None" and "c \<in> {-1, of_bool (safe_checks E)}"
  shows "preferences_safe_checks_enabled (e_gsh E) (e_prefs E) c = (of_bool (safe_checks E), of_bool (safe_checks E))"
  using assms by (auto simp: preferences_safe_checks_enabled_def cached_def safe_checks_def)

lemma mark_launched_frame:
  "slots (la (snd (mark_launched E oid A))) = slots (la A)" "num_running (la (snd (mark_launched E oid A))) = num_running (la A)"
  "sched (la (snd (mark_launched E oid A))) = sched (la A)" "forks (snd (mark_launched E oid A)) = forks A"
  "c_safe (snd (mark_launched E oid A)) = c_safe A"
  by (simp_all add: mark_launched_def Let_def)

lemma send_status_frame:
  "la (snd (send_status E a b c A)) = la A" "forks (snd (send_status E a b c A)) = forks A"
  "c_safe (snd (send_status E a b c A)) = c_safe A"
  by (simp_all add: send_status_def split: option.splits)

lemma launch_plugin_correct:
  assumes "launch_plugin E n p ts A = Done (e, A', ts')" and "ready_to_run E s0 p A" and "e_prefs E \<noteq> None"
    and "\<forall>n. spawn_pid (e_spawn E n) > 0"
  shows "handled E s0 e A'"
proof -
  have inv: "attack_inv s0 {p} (la A)" and cs: "c_safe A \<in> {-1, of_bool (safe_checks E)}" and tr: "trace_inv E s0 A"
    using assms(2) by (simp_all add: ready_to_run_def pending_def trace_inv_def)
  have ar: "args (sched (la A)) = args s0" and ds: "desc (sched (la A)) = desc s0" using inv by (simp_all add: attack_inv_def)
  note cat = desc_category [OF ds, of p]
  define A1 where "A1 = A\<lparr>c_optimize := snd (preferences_optimize_test (e_gsh E) (e_prefs E) (c_optimize A))\<rparr>"
  define A2 where "A2 = A1\<lparr>c_safe := of_bool (safe_checks E)\<rparr>"
  define A3 where "A3 = A2\<lparr>cur_plug := cur_plug A2 + 1\<rparr>"
  define st where "st = (if (cur_plug A3 * 100) div n \<ge> last_status A3
      then send_status E ''attack'' (cur_plug A3) n (A3\<lparr>last_status := (cur_plug A3 * 100) div n + 2\<rparr>) else (True, A3))"
  define ml where "ml = (if is_busy (e_status E) then mark_launched E (the (pa_oid (args s0 p))) (snd st) else (True, snd st))"
  have r1: "ready_to_run E s0 p A1" using cs by (intro ready_to_run_cong [OF assms(2)]) (simp_all add: A1_def)
  have r2: "ready_to_run E s0 p A2" by (intro ready_to_run_cong [OF r1]) (simp_all add: A2_def)
  have "la (snd st) = la A2" "forks (snd st) = forks A2" "c_safe (snd st) = c_safe A2"
    by (simp_all add: st_def A3_def send_status_frame)
  then have r3: "ready_to_run E s0 p (snd st)" by (intro ready_to_run_cong [OF r2]) (simp_all add: A2_def)
  have "c_safe (snd st) \<in> {-1, of_bool (safe_checks E)}" using r3 by (simp add: ready_to_run_def trace_inv_def)
  then have r4: "ready_to_run E s0 p (snd ml)"
    by (intro ready_to_run_cong [OF r3]) (simp_all add: ml_def mark_launched_frame)
  show ?thesis
  proof (cases "pa_oid (args s0 p)")
    case None
    with assms(1) have "e = 0" "A' = A1" by (auto simp: launch_plugin_def Let_def case_prod_beta ar A1_def)
    moreover have "attack_inv s0 {} (la A1)" using inv None by (auto simp: attack_inv_def A1_def)
    ultimately show ?thesis using r1 by (simp add: handled_def ready_to_run_def)
  next
    case (Some oid)
    have sf: "preferences_safe_checks_enabled (e_gsh E) (e_prefs E) (c_safe A1) = (of_bool (safe_checks E), of_bool (safe_checks E))"
      using safe_cached [OF assms(3)] cs by (simp add: A1_def)
    have ml: "ml = (if is_busy (e_status E) then mark_launched E oid (snd st) else (True, snd st))" by (simp add: ml_def Some)
    have body: "launch_plugin E n p ts A =
      (if plug_get_launch (sched (la A)) p = LAUNCH_DISABLED \<and> category (plugin (sched (la A)) p) \<noteq> int ACT_SETTINGS
       then Done (0, set_state A1 p PLUGIN_STATUS_DONE, ts)
       else if safe_checks E \<and> harmful (category (plugin (sched (la A)) p)) then Done (0, set_state A2 p PLUGIN_STATUS_DONE, ts)
       else if n = 0 then Undefined
       else if \<not> fst st then Done (ERR_HOST_DEAD, stop_launcher E (snd st), ts)
       else if \<not> fst ml then Done (0, set_state (snd ml) p PLUGIN_STATUS_DONE, ts)
       else check_plugin E (is_busy (e_status E)) (fst (preferences_optimize_test (e_gsh E) (e_prefs E) (c_optimize A))) p ts (snd ml))"
      unfolding launch_plugin_def Let_def case_prod_beta A1_def [symmetric] sf fst_conv snd_conv A2_def [symmetric]
        A3_def [symmetric] st_def [symmetric]
      by (simp add: ar Some ml)
    consider "e = 0" "A' = set_state A1 p PLUGIN_STATUS_DONE" | "e = 0" "A' = set_state A2 p PLUGIN_STATUS_DONE"
      | "e = ERR_HOST_DEAD" "A' = stop_launcher E (snd st)" | "e = 0" "A' = set_state (snd ml) p PLUGIN_STATUS_DONE"
      | "allowed E s0 p" "check_plugin E (is_busy (e_status E)) (fst (preferences_optimize_test (e_gsh E) (e_prefs E) (c_optimize A))) p ts (snd ml)
           = Done (e, A', ts')"
      using assms(1) unfolding body by (auto simp: allowed_def plug_get_launch_def ar cat split: if_splits)
    then show ?thesis
    proof cases
      case 1 with handled_done [OF r1] show ?thesis by simp
    next
      case 2 with handled_done [OF r2] show ?thesis by simp
    next
      case 3 with handled_stop [OF r3] show ?thesis by simp
    next
      case 4 with handled_done [OF r4] show ?thesis by simp
    next
      case 5 with handled_check [OF 5(2) r4 5(1) assms(4)] show ?thesis by simp
    qed
  qed
qed

lemma launch_again_correct:
  assumes "launch_again E n k p ts A = Done (b, A', ts')" and "ready_to_run E s0 p A" and "e_prefs E \<noteq> None"
    and "\<forall>n. spawn_pid (e_spawn E n) > 0"
  shows "trace_inv E s0 A' \<and> (\<not> b \<longrightarrow> attack_inv s0 {} (la A'))"
proof -
  from assms(1) obtain e B ts1 where l: "launch_plugin E n p ts A = Done (e, B, ts1)"
    by (subst (asm) launch_again.simps) (auto split: outcome.splits)
  have h: "handled E s0 e B" using l assms(2-) by (rule launch_plugin_correct)
  then have "e \<noteq> ERR_CANT_FORK" by (auto simp: handled_def ERR_CANT_FORK_def ERR_HOST_DEAD_def)
  with assms(1) l have "b = (e = ERR_HOST_DEAD)" "A' = B" by (subst (asm) launch_again.simps, simp)+
  with h show ?thesis by (auto simp: handled_def)
qed

subsection \<open>The loop\<close>

lemma hand_out_ready:
  assumes "passes (sched (la A)) (Sched_plugin p) (sched L')" and "pending s0 p L'" and "attack_inv s0 {} (la A)"
    and "trace_inv E s0 A"
  shows "ready_to_run E s0 p (A\<lparr>la := L'\<rparr>)"
proof -
  from passes_plugin [OF assms(1)] obtain s1 where s1: "proceeds (sched (la A)) s1" "ready s1 p" "sched L' = launch s1 p" by blast
  have un: "state (sched (la A)) p = PLUGIN_STATUS_UNRUN" "state s1 p = PLUGIN_STATUS_UNRUN"
    using s1(1,2) by (simp_all add: proceeds_def ready_def)
  have en: "deps_of s1 = deps_of s0"
    using s1(1) assms(3) by (intro deps_of_frame) (simp add: proceeds_def attack_inv_def)
  have cl: "cleaned (sched L') d" if "cleaned s1 d" for d using that un(2) by (auto simp: s1(3) cleaned_def)
  have fw: "forward (sched (la A)) (sched L')"
    using proceeds_forward [OF s1(1)] cl by (auto simp: forward_def s1(3))
  have "p \<noteq> q \<and> p \<notin> deps_of s0 q" if "q \<in> set (run_list A)" for q
    using that assms(4) un(1) unfolding trace_inv_def cleaned_def by (metis plugin_status.distinct(5))
  moreover have "\<forall>d \<in> deps_of s0 p. cleaned (sched L') d" using s1(2) cl by (simp add: ready_def en)
  ultimately have "fresh s0 p (A\<lparr>la := L'\<rparr>)" using assms(2) by (auto simp: fresh_def pending_def)
  moreover have "trace_inv E s0 (A\<lparr>la := L'\<rparr>)" using fw by (intro trace_forward [OF assms(4)]) simp_all
  ultimately show ?thesis using assms(2) by (simp add: ready_to_run_def)
qed

lemma pluginlaunch_wait_zero: "pluginlaunch_wait ts L = Done (L', ts') \<Longrightarrow> num_running L' = 0"
proof (induction ts L rule: pluginlaunch_wait.induct)
  case (2 t ts L)
  from "2.prems" "2.IH" [OF refl] show ?case
    by (cases "num_running (turn t L) = 0") (simp_all add: Let_def)
qed simp

lemma trace_la: "trace_inv E s0 A \<Longrightarrow> later (la A) L' \<Longrightarrow> trace_inv E s0 (A\<lparr>la := L'\<rparr>)"
  by (erule trace_forward) (simp_all add: later_forward)

lemma pause_phase_correct:
  assumes "pause_phase E n ts A = Done (b, A', ts')" and "attack_inv s0 {} (la A)" and "trace_inv E s0 A"
  shows "attack_inv s0 {} (la A') \<and> trace_inv E s0 A'"
proof (cases "e_pause E (rounds A)")
  case False
  with assms show ?thesis by (simp add: pause_phase_def)
next
  case True
  then obtain L1 ts1 where w: "pluginlaunch_wait ts (la A) = Done (L1, ts1)"
    using assms(1) by (auto simp: pause_phase_def split: outcome.splits)
  have inv: "launch_inv (la A)" using assms(2) by (simp add: attack_inv_def)
  note l1 = pluginlaunch_wait_later [OF inv w]
  have i1: "attack_inv s0 {} L1" using attack_inv_later [OF assms(2)] l1 by blast
  have "trace_inv E s0 (A\<lparr>la := L1\<rparr>)" using trace_la [OF assms(3)] l1 by blast
  then have t1: "trace_inv E s0 B" if "la B = L1" "forks B = forks A" "c_safe B = c_safe A" for B
    by (rule trace_forward) (simp_all add: that)
  have st: "attack_inv s0 {} (la (stop_launcher E B)) \<and> trace_inv E s0 (stop_launcher E B)"
    if "la B = L1" "forks B = forks A" "c_safe B = c_safe A" for B
    using trace_la [OF t1 [OF that]] attack_inv_later [OF i1] stop_inv(1,2) [of L1] l1 that(1) by (simp add: stop_launcher_def)
  define S1 where "S1 = send_status E ''pause'' (cur_plug A) n (A\<lparr>la := L1\<rparr>)"
  define S2 where "S2 = send_status E ''resume'' (cur_plug (snd S1)) n (snd S1)"
  have f1: "la (snd S1) = L1" "forks (snd S1) = forks A" "c_safe (snd S1) = c_safe A" by (simp_all add: S1_def send_status_frame)
  have f2: "la (snd S2) = L1" "forks (snd S2) = forks A" "c_safe (snd S2) = c_safe A" by (simp_all add: S2_def send_status_frame f1)
  have "A' = stop_launcher E (snd S1) \<or> A' = stop_launcher E (snd S2) \<or> A' = snd S2"
    using assms(1) True w unfolding pause_phase_def by (auto simp: case_prod_beta Let_def S1_def [symmetric] S2_def [symmetric] split: if_splits)
  then show ?thesis using st [OF f1] st [OF f2] t1 [OF f2] i1 f2(1) by auto
qed

lemma answer_forward:
  assumes "answer (cat, flag, rc, s) r s'"
  shows "forward s s'"
  using assms
proof cases
  case (launched p)
  then obtain s1 where s1: "evolves (s\<lparr>parallel := \<not> exclusive cat\<rparr>) s1" "ready s1 p" "s' = launch s1 p"
    using scan_list_launch by fastforce
  have "forward s s1" using proceeds_forward [OF proceeds_trans [OF parallel_proceeds evolves_proceeds [OF s1(1)]]] .
  moreover have "forward s1 s'" using s1(2) by (auto simp: s1(3) forward_def ready_def cleaned_def)
  ultimately show ?thesis by (rule forward_trans)
next
  case (busy rc')
  with proceeds_forward [OF pass_end_proceeds] show ?thesis by blast
next
  case out
  then show ?thesis by simp
qed

lemma passes_forward: "passes s r s' \<Longrightarrow> forward s s'"
proof -
  assume "passes s r s'"
  then obtain cat flag rc t where c: "pass\<^sup>*\<^sup>* (ACT_INIT, False, int ACT_LAST, s) (cat, flag, rc, t)" "answer (cat, flag, rc, t) r s'"
    by auto
  have "forward s t" using proceeds_forward [OF passes_proceed [OF c(1)]] by simp
  with answer_forward [OF c(2)] show ?thesis by (blast intro: forward_trans)
qed

lemma attack_inv_lists:
  "attack_inv s0 X L \<Longrightarrow> lists_distinct (sched L)"
  "attack_inv s0 X L \<Longrightarrow> l \<in> set (lists s0 i) \<Longrightarrow> l \<notin> set (lists (sched L) i) \<Longrightarrow> cleaned (sched L) l"
  unfolding attack_inv_def by blast+

definition all_ended :: "plugins_scheduler \<Rightarrow> launcher \<Rightarrow> bool" where
  "all_ended s0 L \<longleftrightarrow> launch_inv L \<and> num_running L = 0 \<and> (\<forall>i \<le> ACT_LAST. \<forall>l \<in> set (lists s0 i). cleaned (sched L) l)"

lemma null_all_ended:
  assumes "passes s Sched_null (sched L)" and "lists_distinct s" and "attack_inv s0 {} L"
    and "pluginlaunch_wait ts L = Done (L', ts')"
  shows "all_ended s0 L'"
proof -
  have inv: "launch_inv L" using assms(3) by (simp add: attack_inv_def)
  have l: "later L L'" "launch_inv L'" using pluginlaunch_wait_later [OF inv assms(4)] by blast+
  then have fw: "forward (sched L) (sched L')" by (blast intro: later_forward)
  have "cleaned (sched L) l" if "i \<le> ACT_LAST" "l \<in> set (lists s0 i)" for i l
  proof -
    have "lists (sched L) i = []" using passes_null(1) [OF assms(1,2) that(1)] .
    then show ?thesis by (intro attack_inv_lists(2) [OF assms(3) that(2)]) simp
  qed
  with fw l(2) pluginlaunch_wait_zero [OF assms(4)] show ?thesis by (auto simp: all_ended_def forward_def)
qed

lemma attack_loop_correct:
  assumes "attack_loop E n ts A = Some (Done (e, A', ts'))" and "attack_inv s0 {} (la A)" and "trace_inv E s0 A"
    and "e_prefs E \<noteq> None" and "\<forall>n. spawn_pid (e_spawn E n) > 0"
  shows "trace_inv E s0 A' \<and> (e = All_done \<longrightarrow> all_ended s0 (la A'))"
proof -
  let ?Q = "\<lambda>E A o'. \<forall>e A' ts'. o' = Done (e, A', ts') \<longrightarrow> attack_inv s0 {} (la A) \<longrightarrow> trace_inv E s0 A \<longrightarrow>
    e_prefs E \<noteq> None \<longrightarrow> (\<forall>n. spawn_pid (e_spawn E n) > 0) \<longrightarrow>
    trace_inv E s0 A' \<and> (e = All_done \<longrightarrow> all_ended s0 (la A'))"
  have "?Q E A (Done (e, A', ts'))"
  proof (rule attack_loop.raw_induct [where P = "\<lambda>E n ts A o'. ?Q E A o'", OF _ assms(1)], intro allI impI)
    fix f E n ts A o' e A' ts'
    assume IH: "\<And>E n ts A o'. f E n ts A = Some o' \<Longrightarrow> ?Q E A o'"
      and eq: "(if \<not> e_father E (rounds A) then Some (Done (Father_gone, stop_launcher E A, ts))
      else
        case pause_phase E n ts A of
          Blocked \<Rightarrow> Some Blocked
        | Undefined \<Rightarrow> Some Undefined
        | Done q \<Rightarrow>
            let A = (fst (snd q))\<lparr>rounds := rounds A + 1\<rparr>; ts = snd (snd q) in
            if \<not> fst q then Some (Done (Host_died, A, ts))
            else
              Option.bind (launcher_next ACT_INIT False (int ACT_LAST) ts (la A)) (\<lambda>o'.
                case o' of
                  Blocked \<Rightarrow> Some Blocked
                | Undefined \<Rightarrow> Some Undefined
                | Done r \<Rightarrow>
                    let A = A\<lparr>la := fst (snd r)\<rparr>; ts = snd (snd r) in
                    (case fst r of
                       Sched_plugin p \<Rightarrow>
                         (case launch_again E n (MAX_FORK_RETRIES - forks_retry A) p ts A of
                            Blocked \<Rightarrow> Some Blocked
                          | Undefined \<Rightarrow> Some Undefined
                          | Done r \<Rightarrow>
                              if fst r then Some (Done (Host_died, fst (snd r), snd (snd r)))
                              else f E n (snd (snd r)) (fst (snd r)))
                     | Sched_null \<Rightarrow>
                         (case pluginlaunch_wait ts (la A) of
                            Blocked \<Rightarrow> Some Blocked
                          | Undefined \<Rightarrow> Some Undefined
                          | Done w \<Rightarrow> Some (Done (All_done, A\<lparr>la := fst w\<rparr>, snd w)))
                     | Sched_running \<Rightarrow>
                         (case pluginlaunch_wait_for_free_process ts (la A) of
                            Blocked \<Rightarrow> Some Blocked
                          | Undefined \<Rightarrow> Some Undefined
                          | Done w \<Rightarrow> f E n (snd w) (A\<lparr>la := fst w\<rparr>))))) = Some o'"
      and o': "o' = Done (e, A', ts')" and inv: "attack_inv s0 {} (la A)" and tr: "trace_inv E s0 A"
      and pf: "e_prefs E \<noteq> None" and sp: "\<forall>n. spawn_pid (e_spawn E n) > 0"
    show "trace_inv E s0 A' \<and> (e = All_done \<longrightarrow> all_ended s0 (la A'))"
    proof (cases "e_father E (rounds A)")
      case False
      with eq o' have "e = Father_gone" "A' = stop_launcher E A" by auto
      with trace_la [OF tr stop_inv(1)] inv show ?thesis by (simp add: stop_launcher_def attack_inv_def)
    next
      case True
      with eq o' obtain b B ts1 where ph: "pause_phase E n ts A = Done (b, B, ts1)" by (auto split: outcome.splits)
      define C where "C = B\<lparr>rounds := rounds A + 1\<rparr>"
      note B = pause_phase_correct [OF ph inv tr]
      have C: "attack_inv s0 {} (la C)" "trace_inv E s0 C"
        using B by (simp_all add: C_def trace_inv_def)
      show ?thesis
      proof (cases b)
        case False
        with eq o' ph True have "e = Host_died" "A' = C" by (auto simp: C_def)
        with C show ?thesis by simp
      next
        case b: True
        with eq o' ph True obtain r L1 ts2 where ln: "launcher_next ACT_INIT False (int ACT_LAST) ts1 (la C) = Some (Done (r, L1, ts2))"
          by (auto simp: C_def Let_def split: bind_splits outcome.splits)
        note pa = launcher_next_passes [OF ln C(1)]
        let ?D = "C\<lparr>la := L1\<rparr>"
        show ?thesis
        proof (cases r)
          case (Sched_plugin p)
          with eq o' ph True b ln obtain d G ts3 where g: "launch_again E n (MAX_FORK_RETRIES - forks_retry ?D) p ts2 ?D = Done (d, G, ts3)"
            and k: "if d then e = Host_died \<and> A' = G else f E n ts3 G = Some (Done (e, A', ts'))"
            by (auto simp: C_def Let_def split: outcome.splits if_splits)
          have "ready_to_run E s0 p ?D" using hand_out_ready [OF _ _ C] pa Sched_plugin by simp
          note G = launch_again_correct [OF g this pf sp]
          show ?thesis using G k IH [of E n ts3 G] pf sp by (cases d) auto
        next
          case Sched_null
          with eq o' ph True b ln obtain L2 where w: "pluginlaunch_wait ts2 L1 = Done (L2, ts')"
            and k: "e = All_done" "A' = ?D\<lparr>la := L2\<rparr>" by (auto simp: C_def Let_def split: outcome.splits)
          have i1: "attack_inv s0 {} L1" using pa Sched_null by simp
          have "all_ended s0 L2" using pa Sched_null by (intro null_all_ended [OF _ attack_inv_lists(1) [OF C(1)] i1 w]) simp
          moreover have "forward (sched (la C)) (sched L1)" using pa by (blast intro: passes_forward)
          moreover have "forward (sched L1) (sched L2)"
            using pluginlaunch_wait_later [OF _ w] i1 later_forward by (auto simp: attack_inv_def)
          ultimately show ?thesis using trace_forward [OF C(2), of A'] k by (auto intro: forward_trans)
        next
          case Sched_running
          with eq o' ph True b ln obtain L2 ts3 where w: "pluginlaunch_wait_for_free_process ts2 L1 = Done (L2, ts3)"
            and k: "f E n ts3 (C\<lparr>la := L2\<rparr>) = Some (Done (e, A', ts'))" by (auto simp: C_def Let_def split: outcome.splits)
          have i1: "attack_inv s0 {} L1" using pa Sched_running by simp
          then have l2: "later L1 L2" "launch_inv L2" using wait_free_later [OF _ w] by (auto simp: attack_inv_def)
          have "attack_inv s0 {} L2" by (rule attack_inv_later [OF i1 l2])
          moreover have "forward (sched (la C)) (sched L1)" using pa by (blast intro: passes_forward)
          then have "trace_inv E s0 (C\<lparr>la := L2\<rparr>)"
            using later_forward [OF l2(1)] by (intro trace_forward [OF C(2)]) (auto intro: forward_trans)
          ultimately show ?thesis using IH [OF k] pf sp by simp
        qed
      qed
    qed
  qed
  with assms(2-) show ?thesis by blast
qed

text \<open>A host before its test: nothing runs, nothing was run, and the caches of the preferences are empty.\<close>

definition attack_ready :: "attack_env \<Rightarrow> attack \<Rightarrow> bool" where
  "attack_ready E A \<longleftrightarrow> e_prefs E \<noteq> None \<and> c_safe A = -1 \<and> forks A = [] \<and> lists_distinct (sched (la A))
     \<and> (\<forall>p. state (sched (la A)) p \<noteq> PLUGIN_STATUS_RUNNING)"

lemma attack_ready_inv:
  assumes "attack_ready E A" and "la B = pluginlaunch_init gsh prefs g (la A)" and "forks B = forks A" and "c_safe B = c_safe A"
  shows "attack_inv (sched (la A)) {} (la B)" "trace_inv E (sched (la A)) B"
proof -
  have sc: "sched (la B) = sched (la A)" by (simp add: assms(2) pluginlaunch_init_def Let_def)
  have "launch_inv (la B)" unfolding assms(2) using launcher_run_inv [OF launcher_run.run_init] by blast
  then show "attack_inv (sched (la A)) {} (la B)" using assms(1) by (simp add: attack_inv_def sc attack_ready_def)
  show "trace_inv E (sched (la A)) B" using assms by (simp add: trace_inv_def attack_ready_def)
qed

lemma host_died_frame:
  "forks (host_died E n A) = forks A" "la (host_died E n A) = pluginlaunch_stop (e_readable E) (la A)"
  by (simp_all add: host_died_def Let_def stop_launcher_def send_status_frame split: option.splits)

lemma attack_host_result:
  assumes "attack_ready E A" and "\<forall>n. spawn_pid (e_spawn E n) > 0" and "attack_host E ts A = Some (Done (e, A', ts'))"
  shows "(\<exists>B. trace_inv E (sched (la A)) B \<and> forks A' = forks B) \<and> (e = All_done \<longrightarrow> all_ended (sched (la A)) (la A'))"
proof -
  let ?n = "get_active_plugins_number (sched (la A)) (e_plugins E)"
  let ?A = "A\<lparr>la := pluginlaunch_init (e_gsh E) (e_prefs E) (e_max E) (la A), cur_plug := 1, forks_retry := 0, rounds := 0\<rparr>"
  from assms(3) obtain B e' ts1 where l: "attack_loop E ?n ts ?A = Some (Done (e', B, ts1))"
    by (auto simp: attack_host_def Let_def split: bind_splits outcome.splits)
  have s: "attack_inv (sched (la A)) {} (la ?A)" "trace_inv E (sched (la A)) ?A"
    by (rule attack_ready_inv [OF assms(1)]; simp)+
  have pf: "e_prefs E \<noteq> None" using assms(1) by (simp add: attack_ready_def)
  note B = attack_loop_correct [OF l s pf assms(2)]
  have e: "e = e'" and A': "A' = (if e' = Father_gone then B else host_died E ?n B)"
    using assms(3) l by (auto simp: attack_host_def Let_def split: if_splits)
  have f: "forks A' = forks B" by (simp add: A' host_died_frame)
  have "all_ended (sched (la A)) (la A')" if "e' = All_done"
  proof -
    have ae: "all_ended (sched (la A)) (la B)" using B that by simp
    then have inv: "launch_inv (la B)" by (simp add: all_ended_def)
    have la: "la A' = pluginlaunch_stop (e_readable E) (la B)" by (simp add: A' that host_died_frame)
    note st = stop_inv [OF inv, of "e_readable E"]
    show ?thesis
      using ae later_forward [OF st(1)] st(2,3) no_processes [OF st(2)] unfolding la by (auto simp: all_ended_def forward_def)
  qed
  with B f e show ?thesis by blast
qed

end
