(* ===== verification/AttackHost.thy ===== *)
theory AttackHost
  imports AttackCorrect
begin

text \<open>
  The theorems on the test of one host, with the run of a host with one plugin, which is forked,
  overruns its timeout and is stopped: every step of the scheduler, of the launcher and of the loop
  is computed there.
\<close>

subsection \<open>A run with one plugin\<close>

text \<open>A scheduler with one plugin, that has no dependencies, in the list of its category.\<close>

definition single :: "nat list \<Rightarrow> plugin_status \<Rightarrow> launcher \<Rightarrow> bool" where
  "single xs st L \<longleftrightarrow> lists (sched L) = (\<lambda>i. if i = 3 then xs else []) \<and> deps_ptr (sched L) 0 = None
     \<and> ports (entry (sched L) 0) = None \<and> state (sched L) 0 = st \<and> category (plugin (sched L) 0) = 3"

lemma set_parallel_twice [simp]: "set_parallel c (set_parallel d L) = set_parallel c L"
  by (simp add: set_parallel_def pluginlaunch_disable_parrallel_checks_def pluginlaunch_enable_parrallel_checks_def)

lemma set_parallel_sched [simp]: "(set_parallel c L)\<lparr>sched := sched L\<lparr>parallel := \<not> exclusive c\<rparr>\<rparr> = set_parallel c L"
  by (simp add: set_parallel_def pluginlaunch_disable_parrallel_checks_def pluginlaunch_enable_parrallel_checks_def)

lemma next_empty:
  assumes "cat \<le> ACT_LAST" and "lists (sched L) cat = []" and "flag \<longrightarrow> cat + 1 < ACT_DENIAL" and "flag \<longrightarrow> 3 < cat"
  shows "launcher_next cat flag rc ts L = launcher_next (cat + 1) flag rc ts (set_parallel cat L)"
  using assms by (subst launcher_next.simps) (auto simp: Let_def act_defs)

lemma next_start:
  assumes "single xs st L"
  shows "launcher_next 0 False 10 ts L = launcher_next 3 False 10 ts (set_parallel 2 L)"
proof -
  have "lists (sched (set_parallel c L)) i = []" if "i \<noteq> 3" for c i using assms that by (simp add: single_def)
  then show ?thesis
    using next_empty [of 0 L False 10 ts] next_empty [of 1 "set_parallel 0 L" False 10 ts] next_empty [of 2 "set_parallel 1 L" False 10 ts]
      assms by (simp add: act_defs single_def flip: numeral_2_eq_2)
qed

lemma next_unrun:
  assumes "single [0] PLUGIN_STATUS_UNRUN L"
  shows "launcher_next 0 False 10 ts L =
    Some (Done (Sched_plugin 0, (set_parallel 3 L)\<lparr>sched := launch (sched (set_parallel 3 L)) 0\<rparr>, ts))"
  unfolding next_start [OF assms] using assms by (subst launcher_next.simps) (simp add: single_def act_defs)

lemma next_running:
  assumes "single [0] PLUGIN_STATUS_RUNNING L"
  shows "launcher_next 0 False 10 ts L = Some (Done (Sched_running, set_parallel 6 L, ts))"
proof -
  have e: "lists (sched (set_parallel c L)) i = []" if "i \<noteq> 3" for c i using assms that by (simp add: single_def)
  have "launcher_next 0 False 10 ts L = launcher_next 4 True 3 ts (set_parallel 3 L)"
    unfolding next_start [OF assms] using assms by (subst launcher_next.simps) (simp add: single_def act_defs)
  also have "\<dots> = launcher_next 6 True 3 ts (set_parallel 5 L)"
    using next_empty [of 4 "set_parallel 3 L" True 3 ts] next_empty [of 5 "set_parallel 4 L" True 3 ts] e by (simp add: act_defs)
  also have "\<dots> = Some (Done (Sched_running, set_parallel 6 L, ts))"
    using e [of 6 5] by (subst launcher_next.simps) (simp add: act_defs)
  finally show ?thesis .
qed

lemma next_done:
  assumes "single [0] PLUGIN_STATUS_DONE L"
  shows "\<exists>L'. launcher_next 0 False 10 ts L = Some (Done (Sched_null, L', ts)) \<and> slots L' = slots L \<and> num_running L' = num_running L"
proof -
  define s where "s = (let s = clean (sched (set_parallel 3 L)) 0 in s\<lparr>lists := (lists s)(3 := [])\<rparr>)"
  define M where "M = (set_parallel 3 L)\<lparr>sched := s\<rparr>"
  have e: "lists (sched M) i = []" for i using assms by (simp add: single_def M_def s_def Let_def)
  have "launcher_next 0 False 10 ts L = launcher_next 4 False 10 ts M"
    unfolding next_start [OF assms] using assms by (subst launcher_next.simps) (simp add: single_def act_defs M_def s_def Let_def)
  also have "\<dots> = launcher_next 7 False 10 ts (set_parallel 6 M)"
    using next_empty [of 4 M False 10 ts] next_empty [of 5 "set_parallel 4 M" False 10 ts] next_empty [of 6 "set_parallel 5 M" False 10 ts] e
    by (simp add: act_defs)
  also have "\<dots> = launcher_next 11 False 10 ts (set_parallel 10 M)"
    using next_empty [of 7 "set_parallel 6 M" False 10 ts] next_empty [of 8 "set_parallel 7 M" False 10 ts]
      next_empty [of 9 "set_parallel 8 M" False 10 ts] next_empty [of 10 "set_parallel 9 M" False 10 ts] e
    by (simp add: act_defs)
  also have "\<dots> = Some (Done (Sched_null, set_parallel 10 M, ts))" by (subst launcher_next.simps) (simp add: act_defs)
  finally show ?thesis by (simp add: M_def)
qed


lemma loop_plugin:
  assumes "e_father E (rounds A)" and "\<not> e_pause E (rounds A)"
    and "launcher_next 0 False 10 ts (la A) = Some (Done (Sched_plugin p, L, ts1))"
    and "launch_again E n (MAX_FORK_RETRIES - forks_retry A) p ts1 (A\<lparr>rounds := rounds A + 1, la := L\<rparr>) = Done (False, B, ts2)"
  shows "attack_loop E n ts A = attack_loop E n ts2 B"
  using assms by (subst attack_loop.simps) (simp add: pause_phase_def act_defs)

lemma loop_wait:
  assumes "e_father E (rounds A)" and "\<not> e_pause E (rounds A)"
    and "launcher_next 0 False 10 ts (la A) = Some (Done (Sched_running, L, ts1))"
    and "pluginlaunch_wait_for_free_process ts1 L = Done (L2, ts2)"
  shows "attack_loop E n ts A = attack_loop E n ts2 (A\<lparr>rounds := rounds A + 1, la := L2\<rparr>)"
  using assms by (subst attack_loop.simps) (simp add: pause_phase_def act_defs)

lemma loop_end:
  assumes "e_father E (rounds A)" and "\<not> e_pause E (rounds A)"
    and "launcher_next 0 False 10 ts (la A) = Some (Done (Sched_null, L, ts1))"
    and "pluginlaunch_wait ts1 L = Done (L2, ts2)"
  shows "attack_loop E n ts A = Some (Done (All_done, A\<lparr>rounds := rounds A + 1, la := L2\<rparr>, ts2))"
  using assms by (subst attack_loop.simps) (simp add: pause_phase_def act_defs)

definition one_plugin :: plugins_scheduler where
  "one_plugin = (example 1 Map.empty (\<lambda>_. PLUGIN_STATUS_UNRUN))\<lparr>args := (\<lambda>p. \<lparr>pa_name = [], pa_oid = Some ''1'', pa_launch = 1\<rparr>)\<rparr>"

definition env0 :: attack_env where
  "env0 = \<lparr>e_req = \<lparr>r_gsh = (\<lambda>_. 0), r_strsplit = (\<lambda>_ _. []), r_strstrip = id\<rparr>, e_prefs = Some [], e_max = 4, e_status = None,
     e_soc = 5, e_host = ''h'', e_plugins = 1, e_new_kb = False, e_spawn = (\<lambda>n. spawn0 (int n + 10)), e_father = (\<lambda>_. True),
     e_pause = (\<lambda>_. False), e_readable = (\<lambda>_. False)\<rparr>"

definition attack0 :: attack where
  "attack0 = \<lparr>la = launcher0 [] 0 one_plugin, cur_plug = 1, last_status = 900, c_optimize = -1, c_safe = -1, client = [],
     forks = [], kb_files = [], forks_retry = 0, rounds = 0\<rparr>"

definition late :: tick where
  "late = \<lparr>readable = (\<lambda>_. False), now = 999, lives = (\<lambda>_. True)\<rparr>"

lemma attack0_start: "attack_ready env0 attack0"
  by (simp add: attack_ready_def attack0_def env0_def launcher0_def one_plugin_def example_def Let_def lists_distinct_def)

definition started :: launcher where
  "started = pluginlaunch_init (e_gsh env0) (e_prefs env0) (e_max env0) (la attack0)"

lemma started_facts: "single [0] PLUGIN_STATUS_UNRUN started" "slots started = all_free" "num_running started = 0" "old_max_running started = 4"
  "host_kb started = None" "timeout_cache started = -1" "args (sched started) 0 = \<lparr>pa_name = [], pa_oid = Some ''1'', pa_launch = 1\<rparr>"
  "plugin (sched started) 0 = (plugin one_plugin 0)"
  by (simp_all add: started_def single_def pluginlaunch_init_def Let_def attack0_def launcher0_def one_plugin_def example_def
      empty_scheduler_def all_free_def get_max_checks_number_def max_number_def env0_def pref_str_def arg_get_value_def arg_get_def fun_eq_iff)

definition launched1 :: launcher where
  "launched1 = fill_slot (e_gsh env0) (e_prefs env0) (spawn0 10) 0 0 ((set_parallel 3 started)\<lparr>sched := launch (sched (set_parallel 3 started)) 0\<rparr>)"

lemma launch1:
  "\<exists>B. launch_again env0 1 10 0 ts (attack0\<lparr>cur_plug := 1, forks_retry := 0, rounds := 1, la := (set_parallel 3 started)\<lparr>sched := launch (sched (set_parallel 3 started)) 0\<rparr>\<rparr>)
     = Done (False, B, ts) \<and> la B = launched1 \<and> forks B = [(0, 10)] \<and> rounds B = 1 \<and> forks_retry B = 0"
proof -
  define L where "L = (set_parallel 3 started)\<lparr>sched := launch (sched (set_parallel 3 started)) 0\<rparr>"
  have u: "used_set L = {}" by (simp add: L_def used_set_def used_def started_facts all_free_def free_slot_def)
  have n: "num_running L < max_running L"
    by (simp add: L_def set_parallel_def pluginlaunch_enable_parrallel_checks_def exclusive_def act_defs started_facts)
  have facts: "args (sched L) 0 = \<lparr>pa_name = [], pa_oid = Some ''1'', pa_launch = 1\<rparr>" "category (plugin (sched L) 0) = 3"
    "required_ports (plugin (sched L) 0) = None" "required_udp_ports (plugin (sched L) 0) = None" "required_keys (plugin (sched L) 0) = None"
    "mandatory_keys (plugin (sched L) 0) = None" "excluded_keys (plugin (sched L) 0) = None" "host_kb L = None"
    by (simp_all add: L_def launch_def plugin_set_running_state_def scheduler_mark_running_ports_def set_parallel_def
        pluginlaunch_enable_parrallel_checks_def exclusive_def act_defs started_facts one_plugin_def example_def Let_def empty_scheduler_def
        started_facts(1) [unfolded single_def])
  have env: "e_gsh env0 = (\<lambda>_. 0)" "e_prefs env0 = Some []" "e_status env0 = None" "e_spawn env0 0 = spawn0 10" "r_gsh (e_req env0) = (\<lambda>_. 0)"
    by (simp_all add: env0_def)
  have pr: "pref_str g (Some []) n = None" for g n by (simp add: pref_str_def arg_get_value_def arg_get_def)
  have pl: "plugin_launch (\<lambda>_. 0) (Some []) (spawn0 10) 0 ts L = Done (10, launched1, ts)"
    using empty_launch [OF u n, of "e_gsh env0" "e_prefs env0" "spawn0 10" 0 ts]
    by (simp add: env launched1_def L_def spawn0_def)
  have kb: "host_kb launched1 = None"
    using facts(8) unfolding launched1_def L_def [symmetric] by (simp add: fill_slot_def Let_def case_prod_beta)
  define A where "A = attack0\<lparr>cur_plug := 1, forks_retry := 0, rounds := 1, la := L\<rparr>"
  have A: "la A = L" "forks A = []" "c_optimize A = -1" "c_safe A = -1" "cur_plug A = 1" "last_status A = 900" "rounds A = 1" "forks_retry A = 0"
    by (simp_all add: A_def attack0_def)
  have rq: "requirements_plugin (e_req env0) None (plugin (sched L) 0) (Some []) = Some None"
    by (simp add: requirements_plugin_def facts pr env key_missing_def key_present_def)
  have "launch_plugin env0 1 0 ts A = check_plugin env0 False 1 0 ts (A\<lparr>c_optimize := 1, c_safe := 0, cur_plug := 2\<rparr>)"
    by (simp add: launch_plugin_def Let_def A facts env preferences_optimize_test_def preferences_safe_checks_enabled_def cached_def pr
        is_busy_def plug_get_launch_def LAUNCH_DISABLED_def harmful_def ACT_DESTRUCTIVE_ATTACK_def act_defs)
  also have "\<dots> = Done (0, A\<lparr>c_optimize := 1, c_safe := 0, cur_plug := 2, la := launched1, forks := [(0, 10)]\<rparr>, ts)"
    by (simp add: check_plugin_def run_plugin_def Let_def A facts env rq pl kb mandatory_requirements_met_def key_missing_def
        kb_item_get_int_def kb_item_get_single_def)
  finally have lp: "launch_plugin env0 1 0 ts A = \<dots>" .
  show ?thesis
    unfolding L_def [symmetric] A_def [symmetric]
    by (subst launch_again.simps) (simp add: lp ERR_CANT_FORK_def ERR_HOST_DEAD_def A)
qed


lemma launched1_facts:
  "launch_inv launched1" "used_set launched1 = {0}" "single [0] PLUGIN_STATUS_RUNNING launched1" "timed_out 999 (slots launched1 ! 0)"
  "rplugin (slots launched1 ! 0) = 0"
proof -
  define L where "L = (set_parallel 3 started)\<lparr>sched := launch (sched (set_parallel 3 started)) 0\<rparr>"
  have l1: "launched1 = fill_slot (e_gsh env0) (e_prefs env0) (spawn0 10) 0 0 L" by (simp add: launched1_def L_def)
  have u: "used_set L = {}" by (simp add: L_def used_set_def used_def started_facts all_free_def free_slot_def)
  have sl: "slots L = all_free" "num_running L = 0" by (simp_all add: L_def started_facts)
  have inv: "launch_inv L" unfolding launch_inv_def u sl by (simp add: all_free_def)
  have sg: "single [0] PLUGIN_STATUS_RUNNING L"
    using started_facts(1) by (simp add: single_def L_def launch_def plugin_set_running_state_def scheduler_mark_running_ports_def)
  have st: "state (sched L) 0 = PLUGIN_STATUS_RUNNING" using sg by (simp add: single_def)
  have z: "0 < MAX_PROCESSES" "\<not> used L 0" using u by (auto simp: MAX_PROCESSES_def used_set_def)
  have np: "0 \<notin> (\<lambda>i. rplugin (slots L ! i)) ` used_set L" by (simp add: u)
  have sp: "spawn_pid (spawn0 10) > 0" by (simp add: spawn0_def)
  note f = fill_slot_inv [OF inv z st np, of "e_gsh env0" "e_prefs env0" "spawn0 10"]
  show "launch_inv launched1" "used_set launched1 = {0}" using f sp by (simp_all add: l1 u)
  have len: "length (slots L) = MAX_PROCESSES" using inv by (simp add: launch_inv_def)
  show "rplugin (slots launched1 ! 0) = 0" unfolding l1 by (rule fill_slot_slots(3) [OF len z(1)])
  have sc: "sched launched1 = sched L" using sp by (simp add: l1 fill_slot_def Let_def case_prod_beta)
  then show "single [0] PLUGIN_STATUS_RUNNING launched1" using sg by (simp add: single_def)
  have "timeout (plugin (sched L) 0) = 0" "category (plugin (sched L) 0) = 3" "timeout_cache L = -1"
    by (simp_all add: L_def launch_def plugin_set_running_state_def scheduler_mark_running_ports_def set_parallel_def
        pluginlaunch_enable_parrallel_checks_def exclusive_def act_defs started_facts one_plugin_def example_def Let_def empty_scheduler_def
        started_facts(1) [unfolded single_def])
  then have "plugin_timeout (e_gsh env0) (e_prefs env0) L 0 = (320, 320)"
    by (simp add: plugin_timeout_def Let_def env0_def preferences_plugin_timeout_def preferences_plugins_timeout_def pref_str_def
        arg_get_value_def arg_get_def arg_get_type_def NVT_TIMEOUT_def act_defs)
  then show "timed_out 999 (slots launched1 ! 0)"
    using len z(1) by (simp add: l1 fill_slot_def Let_def timed_out_def spawn0_def)
qed

text \<open>The test of a host with one plugin, which runs until its timeout.\<close>

lemma attack0_run:
  "\<exists>A'. attack_host env0 [late, late] attack0 = Some (Done (All_done, A', [])) \<and> forks A' = [(0, 10)]"
proof -
  let ?A = "attack0\<lparr>la := started, cur_plug := 1, forks_retry := 0, rounds := 0\<rparr>"
  have env: "e_father env0 n" "\<not> e_pause env0 n" for n by (simp_all add: env0_def)
  have n1: "get_active_plugins_number (sched (la attack0)) (e_plugins env0) = 1"
    by (simp add: get_active_plugins_number_def attack0_def env0_def launcher0_def one_plugin_def plug_get_launch_def LAUNCH_DISABLED_def)
  obtain B where B: "launch_again env0 1 10 0 [late, late] (attack0\<lparr>cur_plug := 1, forks_retry := 0, rounds := 1, la := (set_parallel 3 started)\<lparr>sched := launch (sched (set_parallel 3 started)) 0\<rparr>\<rparr>)
     = Done (False, B, [late, late])" "la B = launched1" "forks B = [(0, 10)]" "rounds B = 1" "forks_retry B = 0" using launch1 by blast
  have "attack_loop env0 1 [late, late] ?A = attack_loop env0 1 [late, late] B"
    using next_unrun [OF started_facts(1), of "[late, late]"] B(1) env by (intro loop_plugin [where L = "(set_parallel 3 started)\<lparr>sched := launch (sched (set_parallel 3 started)) 0\<rparr>"]) (simp_all add: MAX_FORK_RETRIES_def)
  define P where "P = set_parallel 6 launched1"
  define Q where "Q = turn late P"
  have P: "launch_inv P" "used_set P = {0}" "timed_out 999 (slots P ! 0)" "rplugin (slots P ! 0) = 0" "single [0] PLUGIN_STATUS_RUNNING P" "num_running P = 1"
    using launched1_facts by (simp_all add: P_def launch_inv_def used_set_def used_def single_def)
  have Q: "later P Q" "launch_inv Q" "num_running Q = 0"
    using turn_inv [OF P(1), of late] turn_ends_timed_out [OF P(1), of late] P(2,3) by (simp_all add: Q_def late_def)
  have "0 \<notin> used_set Q" using Q(2,3) no_processes by blast
  then have "state (sched Q) 0 = PLUGIN_STATUS_DONE" using later_freed [OF Q(1), of 0] P(2,4) by simp
  then have sQ: "single [0] PLUGIN_STATUS_DONE Q"
    using P(5) Q(1) desc_category [of "sched Q" "sched P" 0] by (simp add: single_def later_def)
  have w: "pluginlaunch_wait_for_free_process [late, late] P = Done (Q, [late])"
    using Q(3) P(6) by (simp add: pluginlaunch_wait_for_free_process_def Q_def [symmetric] Let_def)
  define C where "C = B\<lparr>rounds := rounds B + 1, la := Q\<rparr>"
  have "attack_loop env0 1 [late, late] B = attack_loop env0 1 [late] C"
    unfolding C_def using next_running [OF launched1_facts(3)] w env by (intro loop_wait) (simp_all add: B P_def)
  obtain R where R: "launcher_next 0 False 10 [late] Q = Some (Done (Sched_null, R, [late]))" "num_running R = 0"
    using next_done [OF sQ, of "[late]"] Q(3) by auto
  have pw: "pluginlaunch_wait [late] R = Done (R, [])"
    using R(2) by (simp add: turn_def read_running_processes_def update_running_processes_def Let_def)
  have "attack_loop env0 1 [late] C = Some (Done (All_done, C\<lparr>rounds := rounds C + 1, la := R\<rparr>, []))"
    using env R(1) by (intro loop_end [OF _ _ _ pw]) (simp_all add: C_def)
  with \<open>attack_loop env0 1 [late, late] ?A = _\<close> \<open>attack_loop env0 1 [late, late] B = _\<close>
  show ?thesis by (simp add: attack_host_def n1 started_def [symmetric] host_died_frame C_def B)
qed

lemma env0_forks: "\<forall>n. spawn_pid (e_spawn env0 n) > 0"
  by (simp add: env0_def spawn0_def)

lemma attack0_lists: "lists (sched (la attack0)) 3 = [0]"
  by (simp add: attack0_def launcher0_def one_plugin_def example_def Let_def)

lemma launched1_inv: "attack_inv (sched launched1) {} launched1"
proof -
  have "state (sched launched1) p = (if p = 0 then PLUGIN_STATUS_RUNNING else PLUGIN_STATUS_UNRUN)" for p
    by (simp add: launched1_def fill_slot_def Let_def case_prod_beta launch_def plugin_set_running_state_def
        scheduler_mark_running_ports_def started_facts(1) [unfolded single_def] started_def pluginlaunch_init_def attack0_def
        launcher0_def one_plugin_def example_def empty_scheduler_def spawn0_def env0_def)
  then have "p \<in> table launched1" if "state (sched launched1) p = PLUGIN_STATUS_RUNNING" for p
    using that launched1_facts(2,5) by (auto simp: table_def split: if_splits)
  with launched1_facts show ?thesis by (simp add: attack_inv_def single_def lists_distinct_def)
qed

subsection \<open>Theorems\<close>

text \<open>
  The plugins that are run against a host, whenever forking works, are enabled (or hold
  settings) and, with safe checks, not harmful; none is run twice, and none is run after a plugin
  that depends on it.
\<close>

theorem attack_host_order:
  assumes "attack_ready E A" and "\<forall>n. spawn_pid (e_spawn E n) > 0" and "attack_host E ts A = Some (Done (e, A', ts'))"
  shows "sorted_wrt (\<lambda>p q. p \<noteq> q \<and> q \<notin> deps_of (sched (la A)) p) (run_list A')
    \<and> (\<forall>p \<in> set (run_list A'). allowed E (sched (la A)) p)"
  using attack_host_result [OF assms] by (auto simp: trace_inv_def)

theorem attack_host_order_witness:
  "\<exists>A'. attack_host env0 [late, late] attack0 = Some (Done (All_done, A', [])) \<and> run_list A' = [0] \<and> allowed env0 (sched (la attack0)) 0"
proof -
  obtain A' where A: "attack_host env0 [late, late] attack0 = Some (Done (All_done, A', []))" "forks A' = [(0, 10)]" using attack0_run by blast
  have r: "run_list A' = [0]" by (simp add: A)
  with attack_host_order [OF attack0_start env0_forks A(1)] A show ?thesis by simp
qed



text \<open>
  The loop waits for a process only when there is one: if the scheduler answers that a plugin
  is running, a slot is in use, unless a plugin without OID was handed out.
\<close>

theorem attack_waits_for_process:
  assumes "attack_inv s0 {} L" and "launcher_next ACT_INIT False (int ACT_LAST) ts L = Some (Done (Sched_running, L', ts'))"
  shows "num_running L' > 0 \<or> (\<exists>p. state (sched L') p = PLUGIN_STATUS_RUNNING \<and> pa_oid (args s0 p) = None)"
proof -
  note p = launcher_next_passes [OF assms(2,1)]
  then obtain q where q: "state (sched L') q = PLUGIN_STATUS_RUNNING"
    using passes_running [OF _ attack_inv_lists(1) [OF assms(1)]] by blast
  have inv: "attack_inv s0 {} L'" using p by simp
  show ?thesis
  proof (cases "q \<in> table L'")
    case True
    then have "card (used_set L') > 0" by (auto simp: table_def card_gt_0_iff)
    with inv show ?thesis by (simp add: attack_inv_def launch_inv_def)
  next
    case False
    with inv q show ?thesis by (auto simp: attack_inv_def)
  qed
qed

theorem attack_waits_for_process_witness:
  "launcher_next ACT_INIT False (int ACT_LAST) [] launched1 = Some (Done (Sched_running, set_parallel 6 launched1, []))
   \<and> (num_running (set_parallel 6 launched1) > 0
      \<or> (\<exists>p. state (sched (set_parallel 6 launched1)) p = PLUGIN_STATUS_RUNNING \<and> pa_oid (args (sched launched1) p) = None))"
proof -
  have n: "launcher_next ACT_INIT False (int ACT_LAST) [] launched1 = Some (Done (Sched_running, set_parallel 6 launched1, []))"
    using next_running [OF launched1_facts(3)] by (simp add: act_defs)
  from attack_waits_for_process [OF launched1_inv n] n show ?thesis by blast
qed

end
