(* ===== verification/Files.thy ===== *)
theory Files
  imports PlugMsg
begin

text \<open>
  What the scanner uses of the file system, and the lock files of
  \<open>openvas-scanner/src/locks.c\<close>. A file system has a directory from paths to inodes, the text of
  each inode, and the open descriptors with inode and offset; descriptors are handed out from the
  lowest one that is free. Paths that cannot be opened and a full disk are fields, so that each
  failure the code tests for can occur. Directories are taken to exist.
\<close>

subsection \<open>Files\<close>

record fs =
  f_dir :: "string \<Rightarrow> nat option"
  f_data :: "nat \<Rightarrow> string"
  f_next :: nat
  f_fds :: "(nat \<times> nat) option list"
  f_denied :: "string \<Rightarrow> bool"
  f_full :: bool

definition fs_slot :: "fs \<Rightarrow> int \<Rightarrow> (nat \<times> nat) option" where
  "fs_slot F fd = (if 0 \<le> fd \<and> nat fd < length (f_fds F) then f_fds F ! nat fd else None)"

definition fs_alloc :: "nat \<Rightarrow> fs \<Rightarrow> int \<times> fs" where
  "fs_alloc i F =
     (let n = length (takeWhile (\<lambda>x. x \<noteq> None) (f_fds F)) in
      (int n, F\<lparr>f_fds := (if n < length (f_fds F) then (f_fds F)[n := Some (i, 0)] else f_fds F @ [Some (i, 0)])\<rparr>))"

text \<open>\<open>open\<close> with the flags \<open>O_CREAT\<close>, \<open>O_EXCL\<close> and \<open>O_TRUNC\<close>.\<close>

definition fs_open :: "bool \<Rightarrow> bool \<Rightarrow> bool \<Rightarrow> string \<Rightarrow> fs \<Rightarrow> int \<times> fs" where
  "fs_open creat excl trunc path F =
     (if f_denied F path then (-1, F)
      else
        case f_dir F path of
          Some i \<Rightarrow>
            if creat \<and> excl then (-1, F)
            else fs_alloc i (if trunc then F\<lparr>f_data := (f_data F)(i := [])\<rparr> else F)
        | None \<Rightarrow>
            if \<not> creat then (-1, F)
            else
              let i = f_next F in
              fs_alloc i (F\<lparr>f_dir := (f_dir F)(path \<mapsto> i), f_data := (f_data F)(i := []), f_next := i + 1\<rparr>))"

definition fs_close :: "int \<Rightarrow> fs \<Rightarrow> fs" where
  "fs_close fd F = (if fs_slot F fd = None then F else F\<lparr>f_fds := (f_fds F)[nat fd := None]\<rparr>)"

definition fs_seek :: "int \<Rightarrow> nat \<Rightarrow> fs \<Rightarrow> fs" where
  "fs_seek fd off F =
     (case fs_slot F fd of
        None \<Rightarrow> F
      | Some (i, _) \<Rightarrow> F\<lparr>f_fds := (f_fds F)[nat fd := Some (i, off)]\<rparr>)"

definition fs_seek_end :: "int \<Rightarrow> fs \<Rightarrow> fs" where
  "fs_seek_end fd F = (case fs_slot F fd of None \<Rightarrow> F | Some (i, _) \<Rightarrow> fs_seek fd (length (f_data F i)) F)"

definition fs_truncate :: "int \<Rightarrow> fs \<Rightarrow> fs" where
  "fs_truncate fd F = (case fs_slot F fd of None \<Rightarrow> F | Some (i, _) \<Rightarrow> F\<lparr>f_data := (f_data F)(i := [])\<rparr>)"

text \<open>A write at an offset after the end fills the gap with zeros.\<close>

definition overlay :: "string \<Rightarrow> nat \<Rightarrow> string \<Rightarrow> string" where
  "overlay d off s = take off d @ replicate (off - length d) (CHR 0x00) @ s @ drop (off + length s) d"

definition fs_write :: "int \<Rightarrow> string \<Rightarrow> fs \<Rightarrow> int \<times> fs" where
  "fs_write fd s F =
     (case fs_slot F fd of
        None \<Rightarrow> (-1, F)
      | Some (i, off) \<Rightarrow>
          if f_full F then (-1, F)
          else (int (length s), F\<lparr>f_data := (f_data F)(i := overlay (f_data F i) off s),
                                   f_fds := (f_fds F)[nat fd := Some (i, off + length s)]\<rparr>))"

definition fs_unlink :: "string \<Rightarrow> fs \<Rightarrow> int \<times> fs" where
  "fs_unlink path F = (if f_dir F path = None then (-1, F) else (0, F\<lparr>f_dir := (f_dir F)(path := None)\<rparr>))"

definition fs_rename :: "string \<Rightarrow> string \<Rightarrow> fs \<Rightarrow> fs" where
  "fs_rename a b F =
     (if f_dir F a = None \<or> a = b then F else F\<lparr>f_dir := (f_dir F)(b := f_dir F a, a := None)\<rparr>)"

text \<open>The text behind a descriptor.\<close>

definition fs_text :: "fs \<Rightarrow> int \<Rightarrow> string" where
  "fs_text F fd = (case fs_slot F fd of None \<Rightarrow> [] | Some (i, _) \<Rightarrow> f_data F i)"

subsection \<open>Locks\<close>

text \<open>What the system tells a process: its own number, which processes it can signal, the time.\<close>

record sysenv =
  sys_pid :: int
  sys_kill :: "int \<Rightarrow> bool"
  sys_now :: int
  sys_kbs :: string

definition process_alive :: "sysenv \<Rightarrow> int \<Rightarrow> bool" where
  "process_alive S pid \<longleftrightarrow> pid \<noteq> 0 \<and> sys_kill S pid"

definition file_lock_name :: "string \<Rightarrow> string" where
  "file_lock_name name =
     (if CHR ''/'' \<in> set name
      then rev (tl (dropWhile (\<lambda>c. c \<noteq> CHR ''/'') (rev name))) @ ''/.''
           @ rev (takeWhile (\<lambda>c. c \<noteq> CHR ''/'') (rev name)) @ ''.lck''
      else ''.'' @ name @ ''.lck'')"

definition file_lock :: "sysenv \<Rightarrow> string \<Rightarrow> fs \<Rightarrow> int \<times> fs" where
  "file_lock S name F =
     (let (fd, F) = fs_open True True False (file_lock_name name) F in
      if fd < 0 then (-1, F)
      else
        let (e, F) = fs_write fd (snprintf 20 (int_text (sys_pid S))) F in
        if e < 0 then (-1, fs_close fd F) else (0, fs_close fd F))"

definition file_unlock :: "string \<Rightarrow> fs \<Rightarrow> int \<times> fs" where
  "file_unlock name F = fs_unlink (file_lock_name name) F"

definition file_locked :: "sysenv \<Rightarrow> string \<Rightarrow> fs \<Rightarrow> bool \<times> fs" where
  "file_locked S name F =
     (let (fd, F) = fs_open False False False (file_lock_name name) F in
      if fd < 0 then (False, F)
      else
        let asc_pid = take 19 (fs_text F fd);
            F = fs_close fd F
        in if process_alive S (atoi asc_pid) then (True, F)
           else (False, snd (file_unlock name F)))"

end
