(* ===== verification/SaveKb.thy ===== *)
theory SaveKb
  imports Files Arglist
begin

text \<open>
  Saved knowledge bases, \<open>openvas-scanner/src/save_kb.c\<close>: one file for each host, with a line
  for each value. The descriptor of the file that is open is a value of the globals, here a field
  next to the file system; 0 is no value.
\<close>

record saver =
  sv_fs :: fs
  sv_fd :: int

subsection \<open>Names\<close>

definition filter_odd_name :: "string \<Rightarrow> string" where
  "filter_odd_name name = map (\<lambda>c. if c = CHR ''/'' then CHR ''_'' else c) name"

definition kb_fname :: "sysenv \<Rightarrow> string \<Rightarrow> string" where
  "kb_fname S hostname = sys_kbs S @ ''/'' @ filter_odd_name hostname"

definition bak_name :: "string \<Rightarrow> string" where
  "bak_name fname = fname @ ''.bak''"

subsection \<open>Entries of a file\<close>

text \<open>The file as a C string, and the offset at its end.\<close>

definition map_file :: "int \<Rightarrow> fs \<Rightarrow> string option \<times> fs" where
  "map_file fd F =
     (let d = fs_text F fd in
      if d = [] then (None, F) else (Some (takeWhile (\<lambda>c. c \<noteq> CHR 0x00) d), fs_seek fd (length d) F))"

text \<open>\<open>strstr\<close>: the text before the first occurrence and the text from it on.\<close>

fun strstr :: "string \<Rightarrow> string \<Rightarrow> (string \<times> string) option" where
  "strstr [] req = (if req = [] then Some ([], []) else None)"
| "strstr (c # s) req =
     (if take (length req) (c # s) = req then Some ([], c # s)
      else map_option (\<lambda>(a, b). (c # a, b)) (strstr s req))"

definition save_kb_entry_present_already :: "string \<Rightarrow> string \<Rightarrow> saver \<Rightarrow> int \<times> saver" where
  "save_kb_entry_present_already name value V =
     (if sv_fd V \<le> 0 then (-1, V)
      else
        case map_file (sv_fd V) (sv_fs V) of
          (None, F) \<Rightarrow> (-1, V\<lparr>sv_fs := F\<rparr>)
        | (Some ln, F) \<Rightarrow>
            (if strstr ln (name @ ''='' @ value) \<noteq> None then 1 else 0, V\<lparr>sv_fs := F\<rparr>))"

text \<open>The text before the line of an occurrence, and the text after it, if the line has an end.\<close>

definition split_line :: "string \<Rightarrow> string \<Rightarrow> string \<times> string option" where
  "split_line a b =
     (let nl = CHR 0x0A;
          (keep, line) =
            (if b \<noteq> [] \<and> hd b = nl then (a @ [nl], tl b)
             else (rev (dropWhile (\<lambda>c. c \<noteq> nl) (rev a)), rev (takeWhile (\<lambda>c. c \<noteq> nl) (rev a)) @ b))
      in (keep, map_option snd (str_cut nl line)))"

definition save_kb_rm_entry_value :: "string \<Rightarrow> string option \<Rightarrow> saver \<Rightarrow> int \<times> saver" where
  "save_kb_rm_entry_value name value V =
     (let fd = sv_fd V in
      if fd \<le> 0 then (-1, V)
      else
        case map_file fd (sv_fs V) of
          (None, F) \<Rightarrow> (0, V\<lparr>sv_fs := F\<rparr>)
        | (Some ln, F) \<Rightarrow>
            let req = (case value of Some v \<Rightarrow> name @ ''='' @ v | None \<Rightarrow> name);
                F = (case strstr ln req of
                       None \<Rightarrow> F
                     | Some (a, b) \<Rightarrow>
                         let (keep, rest) = split_line a b;
                             F = fs_truncate fd (fs_seek fd 0 F);
                             F = snd (fs_write fd keep F)
                         in case rest of None \<Rightarrow> F | Some r \<Rightarrow> snd (fs_write fd r F))
            in (0, V\<lparr>sv_fs := fs_seek_end fd F\<rparr>))"

definition save_kb_rm_entry :: "string \<Rightarrow> saver \<Rightarrow> int \<times> saver" where
  "save_kb_rm_entry name V = save_kb_rm_entry_value name None V"

definition starts :: "string \<Rightarrow> string \<Rightarrow> bool" where
  "starts p s \<longleftrightarrow> take (length p) s = p"

definition not_saved :: "string \<Rightarrow> bool" where
  "not_saved name \<longleftrightarrow> starts ''/tmp'' name \<or> starts ''NIDS/'' name \<or> starts ''Settings/'' name \<or> starts ''Secret/'' name"

definition kept_single :: "string \<Rightarrow> bool" where
  "kept_single name \<longleftrightarrow> starts ''Success/'' name \<or> starts ''Launched/'' name \<or> starts ''SentData/'' name"

definition entry_text :: "int \<Rightarrow> int \<Rightarrow> string \<Rightarrow> string \<Rightarrow> string" where
  "entry_text date ty name value =
     int_text date @ '' '' @ int_text ty @ '' '' @ name @ ''='' @ value @ [CHR 0x0A]"

definition save_kb_write ::
  "sysenv \<Rightarrow> string option \<Rightarrow> string option \<Rightarrow> string option \<Rightarrow> int \<Rightarrow> saver \<Rightarrow> int \<times> saver" where
  "save_kb_write S hostname name value ty V =
     (case (hostname, name, value) of
        (Some h, Some n, Some v) \<Rightarrow>
          if sv_fd V \<le> 0 then (-1, V)
          else if not_saved n then (0, V)
          else
            let V = (if kept_single n then snd (save_kb_rm_entry n V) else V);
                (present, V) = save_kb_entry_present_already n v V;
                V = (if present \<noteq> 0 then snd (save_kb_rm_entry_value n (Some v) V) else V)
            in (0, V\<lparr>sv_fs := snd (fs_write (sv_fd V) (entry_text (sys_now S) ty n v) (sv_fs V))\<rparr>)
      | _ \<Rightarrow> (-1, V))"

definition save_kb_write_str :: "sysenv \<Rightarrow> string option \<Rightarrow> string option \<Rightarrow> string option \<Rightarrow> saver \<Rightarrow> int \<times> saver" where
  "save_kb_write_str S hostname name value V = save_kb_write S hostname name (addslashes value) ARG_STRING V"

definition save_kb_write_int :: "sysenv \<Rightarrow> string option \<Rightarrow> string option \<Rightarrow> int \<Rightarrow> saver \<Rightarrow> int \<times> saver" where
  "save_kb_write_int S hostname name value V = save_kb_write S hostname name (Some (int_text value)) ARG_INT V"

subsection \<open>Opening and closing\<close>

definition save_kb_new :: "sysenv \<Rightarrow> string option \<Rightarrow> saver \<Rightarrow> int \<times> saver" where
  "save_kb_new S hostname V =
     (case hostname of
        None \<Rightarrow> (-1, V)
      | Some h \<Rightarrow>
          let fname = kb_fname S h;
              (locked, F) = file_locked S fname (sv_fs V)
          in if locked then (0, V\<lparr>sv_fs := F\<rparr>)
             else
               let F = snd (fs_unlink fname F);
                   (f, F) = fs_open True True False fname F
               in if f < 0 then (-1, V\<lparr>sv_fs := F\<rparr>)
                  else (0, V\<lparr>sv_fs := snd (file_lock S fname F), sv_fd := f\<rparr>))"

definition save_kb_close :: "sysenv \<Rightarrow> string \<Rightarrow> saver \<Rightarrow> saver" where
  "save_kb_close S hostname V =
     (let F = (if sv_fd V > 0 then fs_close (sv_fd V) (sv_fs V) else sv_fs V)
      in V\<lparr>sv_fs := snd (file_unlock (kb_fname S hostname) F)\<rparr>)"

definition save_kb_exists :: "sysenv \<Rightarrow> string \<Rightarrow> saver \<Rightarrow> bool \<times> saver" where
  "save_kb_exists S hostname V =
     (let fname = kb_fname S hostname;
          (locked, F) = file_locked S fname (sv_fs V)
      in if locked then (False, V\<lparr>sv_fs := F\<rparr>)
         else
           let (f, F) = fs_open False False False fname F in
           if f < 0 then (False, V\<lparr>sv_fs := F\<rparr>) else (True, V\<lparr>sv_fs := fs_close f F\<rparr>))"

subsection \<open>Backup\<close>

definition save_kb_restore_backup :: "sysenv \<Rightarrow> string \<Rightarrow> saver \<Rightarrow> int \<times> saver" where
  "save_kb_restore_backup S hostname V =
     (let fname = kb_fname S hostname;
          F = snd (fs_unlink fname (sv_fs V));
          (fd, F) = fs_open False False False (bak_name fname) F
      in (0, V\<lparr>sv_fs := (if fd \<ge> 0 then fs_rename (bak_name fname) fname (fs_close fd F) else F)\<rparr>))"

text \<open>The copy in blocks of 4096 bytes; False when a write fails.\<close>

function copy_blocks :: "int \<Rightarrow> string \<Rightarrow> fs \<Rightarrow> bool \<times> fs" where
  "copy_blocks fd s F =
     (if s = [] then (True, F)
      else
        let (e, F) = fs_write fd (take 4096 s) F in
        if e < 0 then (False, F) else copy_blocks fd (drop 4096 s) F)"
  by pat_completeness auto
termination by (relation "measure (\<lambda>(fd, s, F). length s)") auto

declare copy_blocks.simps [simp del]

definition save_kb_backup :: "sysenv \<Rightarrow> string \<Rightarrow> saver \<Rightarrow> int \<times> saver" where
  "save_kb_backup S hostname V =
     (let fname = kb_fname S hostname;
          (locked, F) = file_locked S fname (sv_fs V)
      in if locked then (-1, V\<lparr>sv_fs := F\<rparr>)
         else
           let F = snd (file_lock S fname F);
               (src, F) = fs_open False False False fname F
           in if src < 0 then (0, V\<lparr>sv_fs := snd (file_unlock fname F)\<rparr>)
              else
                let (dst, F) = fs_open True False True (bak_name fname) F in
                if dst < 0 then (-1, V\<lparr>sv_fs := snd (file_unlock fname (fs_close src F))\<rparr>)
                else
                  let (ok, F) = copy_blocks dst (fs_text F src) F;
                      F = snd (file_unlock fname (fs_close dst (fs_close src F)))
                  in (if ok then 0 else -1, V\<lparr>sv_fs := F\<rparr>))"

subsection \<open>Loading\<close>

text \<open>\<open>fgets\<close> into a buffer of \<open>sizeof (buf) - 1\<close> bytes: at most 4094 characters, up to a newline.\<close>

definition fgets :: "string \<Rightarrow> string \<times> string" where
  "fgets s =
     (case str_cut (CHR 0x0A) (take 4094 s) of
        Some (l, _) \<Rightarrow> (l @ [CHR 0x0A], drop (length l + 1) s)
      | None \<Rightarrow> (take 4094 s, drop 4094 s))"

definition too_old :: "int \<Rightarrow> int \<Rightarrow> bool" where
  "too_old now date \<longleftrightarrow> now - date > 864000"

definition not_restored :: "string \<Rightarrow> bool" where
  "not_restored name \<longleftrightarrow> name = ''Host/dead'' \<or> starts ''/tmp'' name \<or> name = ''Host/ping_failed''"

text \<open>One line without its last character.\<close>

definition load_line :: "int \<Rightarrow> string \<Rightarrow> kb \<Rightarrow> kb" where
  "load_line now ln kb =
     (case str_cut (CHR '' '') ln of
        None \<Rightarrow> kb
      | Some (date, t) \<Rightarrow>
          (case str_cut (CHR '' '') t of
             None \<Rightarrow> kb
           | Some (_, entry) \<Rightarrow>
               (case str_cut (CHR ''='') entry of
                  None \<Rightarrow> kb
                | Some (name, value) \<Rightarrow>
                    if not_restored name then kb
                    else if too_old now (fst (strtol 10 date)) then kb
                    else if atoi t = ARG_STRING then the (snd (kb_item_add_str (Some kb) name (rmslashes value)))
                    else if atoi t = ARG_INT then the (snd (kb_item_add_int (Some kb) name (atoi value)))
                    else kb)))"

text \<open>
  The lines of a file. A line that starts with NUL has length 0, and cutting its last character
  writes before the buffer: the result is then None.
\<close>

function load_lines :: "int \<Rightarrow> string \<Rightarrow> kb \<Rightarrow> kb option" where
  "load_lines now s kb =
     (if s = [] then Some kb
      else
        let ln = takeWhile (\<lambda>c. c \<noteq> CHR 0x00) (fst (fgets s)) in
        if ln = [] then None else load_lines now (snd (fgets s)) (load_line now (butlast ln) kb))"
  by pat_completeness auto
termination
proof (relation "measure (\<lambda>(now, s, kb). length s)")
  fix now s kb and ln :: string
  assume "(s :: string) \<noteq> []"
  then show "((now, snd (fgets s), load_line now (butlast ln) kb), now, s, kb) \<in> measure (\<lambda>(now, s, kb). length s)"
    by (auto simp: fgets_def split: option.splits)
qed simp

declare load_lines.simps [simp del]

definition save_kb_load_kb :: "sysenv \<Rightarrow> string \<Rightarrow> saver \<Rightarrow> (kb option \<times> saver) option" where
  "save_kb_load_kb S hostname V =
     (let fname = kb_fname S hostname;
          (locked, F) = file_locked S fname (sv_fs V)
      in if locked then Some (None, V\<lparr>sv_fs := F\<rparr>)
         else
           let (f, F) = fs_open False False False fname F in
           if f < 0 then Some (None, V\<lparr>sv_fs := F\<rparr>)
           else
             let whole = fs_text F f; F = fs_close f F in
             if whole = [] then Some (None, V\<lparr>sv_fs := F\<rparr>)
             else
               case load_lines (sys_now S) (snd (fgets whole)) kb_new of
                 None \<Rightarrow> None
               | Some kb \<Rightarrow>
                   let (fd, F) = fs_open False False False fname F in
                   if fd > 0 then Some (Some kb, V\<lparr>sv_fs := fs_seek_end fd F, sv_fd := fd\<rparr>)
                   else Some (Some kb, V\<lparr>sv_fs := F\<rparr>))"

definition save_kb :: "(string \<Rightarrow> string option) option \<Rightarrow> bool" where
  "save_kb globals = (case globals of None \<Rightarrow> False | Some g \<Rightarrow> g ''network_scan_status'' = Some ''busy'')"

end
