(* ===== verification/FilesCorrect.thy ===== *)
theory FilesCorrect
  imports Files
begin

text \<open>What opening, closing and locking of files do to the file system.\<close>

subsection \<open>Descriptors\<close>

lemma fs_alloc_effect:
  assumes "fs_alloc i F = (fd, G)"
  shows "0 \<le> fd" "fs_slot F fd = None" "fs_slot G fd = Some (i, 0)" "fd' \<noteq> fd \<Longrightarrow> fs_slot G fd' = fs_slot F fd'"
    "f_dir G = f_dir F" "f_data G = f_data F" "f_next G = f_next F" "f_denied G = f_denied F" "f_full G = f_full F"
    "fs_slot F 0 \<noteq> None \<Longrightarrow> 0 < fd"
proof -
  define n where "n = length (takeWhile (\<lambda>x. x \<noteq> None) (f_fds F))"
  have le: "n \<le> length (f_fds F)" by (simp add: n_def length_takeWhile_le)
  have nn: "f_fds F ! n = None" if "n < length (f_fds F)" using nth_length_takeWhile [of "\<lambda>x. x \<noteq> None" "f_fds F"] that unfolding n_def by blast
  have fd: "fd = int n" and G: "G = F\<lparr>f_fds := (if n < length (f_fds F) then (f_fds F)[n := Some (i, 0)] else f_fds F @ [Some (i, 0)])\<rparr>"
    using assms by (auto simp: fs_alloc_def n_def Let_def)
  show "0 \<le> fd" "f_dir G = f_dir F" "f_data G = f_data F" "f_next G = f_next F" "f_denied G = f_denied F" "f_full G = f_full F"
    by (simp_all add: fd G)
  show s: "fs_slot F fd = None" using nn by (simp add: fs_slot_def fd)
  show "fs_slot G fd = Some (i, 0)" using le by (auto simp: fs_slot_def fd G nth_append)
  show "fs_slot G fd' = fs_slot F fd'" if "fd' \<noteq> fd"
    using that le by (auto simp: fs_slot_def fd G nth_append nth_list_update)
  show "0 < fd" if "fs_slot F 0 \<noteq> None"
  proof -
    have "fd \<noteq> 0" using that s by auto
    with fd show ?thesis by simp
  qed
qed

lemma fs_close_effect:
  "fs_slot (fs_close fd F) fd = None" "fd' \<noteq> fd \<Longrightarrow> fs_slot (fs_close fd F) fd' = fs_slot F fd'"
  "f_dir (fs_close fd F) = f_dir F" "f_data (fs_close fd F) = f_data F" "f_next (fs_close fd F) = f_next F"
  "f_denied (fs_close fd F) = f_denied F" "f_full (fs_close fd F) = f_full F"
  by (auto simp: fs_close_def fs_slot_def nth_list_update split: if_splits)

lemma fs_open_missing: "f_dir F path = None \<Longrightarrow> fs_open False e t path F = (-1, F)"
  by (simp add: fs_open_def)

lemma file_locked_missing: "f_dir F (file_lock_name name) = None \<Longrightarrow> file_locked S name F = (False, F)"
  by (simp add: file_locked_def fs_open_missing)

text \<open>The lock of a file has a longer name than the file.\<close>

lemma file_lock_name_length: "length (file_lock_name name) = length name + 5"
proof (cases "CHR ''/'' \<in> set name")
  case True
  have "dropWhile (\<lambda>c. c \<noteq> CHR ''/'') (rev name) \<noteq> []" using True by (auto simp: dropWhile_eq_Nil_conv)
  then have "length (dropWhile (\<lambda>c. c \<noteq> CHR ''/'') (rev name)) > 0" by blast
  moreover have "length (takeWhile (\<lambda>c. c \<noteq> CHR ''/'') (rev name)) + length (dropWhile (\<lambda>c. c \<noteq> CHR ''/'') (rev name)) = length name"
    by (metis length_append length_rev takeWhile_dropWhile_id)
  ultimately have "length (takeWhile (\<lambda>c. c \<noteq> CHR ''/'') (rev name)) + (length (dropWhile (\<lambda>c. c \<noteq> CHR ''/'') (rev name)) - 1) + 1 = length name"
    by linarith
  then show ?thesis using True by (simp add: file_lock_name_def)
qed (simp add: file_lock_name_def)

lemma file_lock_name_neq [simp]: "file_lock_name name \<noteq> name" "name \<noteq> file_lock_name name"
  using file_lock_name_length [of name] by (metis add_cancel_right_right zero_neq_numeral)+

lemma file_lock_effect:
  assumes "f_dir F (file_lock_name name) = None" and "\<not> f_denied F (file_lock_name name)" and "\<not> f_full F"
  shows "\<exists>G. file_lock S name F = (0, G) \<and> f_dir G = (f_dir F)(file_lock_name name \<mapsto> f_next F)
    \<and> f_data G = (f_data F)(f_next F := snprintf 20 (int_text (sys_pid S))) \<and> f_next G = f_next F + 1
    \<and> f_denied G = f_denied F \<and> f_full G = f_full F \<and> (\<forall>fd. fs_slot F fd \<noteq> None \<longrightarrow> fs_slot G fd = fs_slot F fd)"
proof -
  define F1 where "F1 = F\<lparr>f_dir := (f_dir F)(file_lock_name name \<mapsto> f_next F), f_data := (f_data F)(f_next F := []), f_next := f_next F + 1\<rparr>"
  obtain fd F2 where a: "fs_alloc (f_next F) F1 = (fd, F2)" by fastforce
  note e = fs_alloc_effect [OF a]
  have sl: "fs_slot F1 d = fs_slot F d" for d by (simp add: F1_def fs_slot_def)
  have op: "fs_open True True False (file_lock_name name) F = (fd, F2)" using assms a by (simp add: fs_open_def F1_def Let_def)
  have nf: "\<not> f_full F2" using assms(3) e(9) by (simp add: F1_def)
  define t where "t = snprintf 20 (int_text (sys_pid S))"
  have w: "fs_write fd t F2 = (int (length t), F2\<lparr>f_data := (f_data F2)(f_next F := t), f_fds := (f_fds F2)[nat fd := Some (f_next F, length t)]\<rparr>)"
    (is "_ = (_, ?F3)") using e(3,6) nf by (simp add: fs_write_def overlay_def F1_def)
  have "file_lock S name F = (0, fs_close fd ?F3)" using op e(1) w by (simp add: file_lock_def t_def)
  moreover have "fs_slot (fs_close fd ?F3) d = fs_slot F d" if "fs_slot F d \<noteq> None" for d
  proof -
    have "d \<noteq> fd" using that e(2) sl by auto
    moreover have "fs_slot ?F3 d = fs_slot F2 d" if "d \<noteq> fd" using that e(1) by (auto simp: fs_slot_def nth_list_update)
    ultimately show ?thesis using e(4) sl by (simp add: fs_close_effect)
  qed
  ultimately show ?thesis using e(5-9) by (simp add: fs_close_effect F1_def t_def)
qed

end
