(* ===== verification/SaveKbCorrect.thy ===== *)
theory SaveKbCorrect
  imports SaveKb FilesCorrect PlugMsgCorrect
begin

text \<open>
  What a saved knowledge base keeps: a file is a list of entries, a write takes at most one entry
  out for each search and adds one at the end, loading gives back the entries after the first.
\<close>

subsection \<open>Searching text\<close>

definition occurs :: "string \<Rightarrow> string \<Rightarrow> bool" where
  "occurs req s \<longleftrightarrow> strstr s req \<noteq> None"

lemma strstr_split: "strstr s req = Some (a, b) \<Longrightarrow> s = a @ b \<and> take (length req) b = req"
  by (induction s arbitrary: a) (auto split: if_splits)

lemma occurs_iff: "occurs req s \<longleftrightarrow> (\<exists>a b. s = a @ req @ b)"
proof
  assume "occurs req s"
  then obtain a b where "strstr s req = Some (a, b)" by (auto simp: occurs_def)
  then have "s = a @ req @ drop (length req) b" using strstr_split [of s req a b] by (metis append_take_drop_id)
  then show "\<exists>a b. s = a @ req @ b" by blast
next
  assume "\<exists>a b. s = a @ req @ b"
  then show "occurs req s"
    unfolding occurs_def by (induction s) (auto simp: Cons_eq_append_conv)
qed

text \<open>A line ends with its only newline; an occurrence of a text without newlines stays in a line.\<close>

definition is_line :: "string \<Rightarrow> bool" where
  "is_line l \<longleftrightarrow> (\<exists>l0. l = l0 @ [CHR 0x0A] \<and> CHR 0x0A \<notin> set l0)"

lemma prefix_in_line:
  assumes "take (length req) (l0 @ CHR 0x0A # r) = req" and "CHR 0x0A \<notin> set req"
  shows "take (length req) l0 = req"
proof (cases "length req \<le> length l0")
  case True with assms show ?thesis by simp
next
  case False
  then have "req ! length l0 = CHR 0x0A"
    using assms(1) by (metis linorder_not_le nth_append_length nth_take)
  with False assms(2) show ?thesis by (metis linorder_not_le nth_mem)
qed

lemma strstr_line:
  assumes "CHR 0x0A \<notin> set req" and "req \<noteq> []" and "CHR 0x0A \<notin> set l0"
  shows "strstr (l0 @ CHR 0x0A # r) req =
    (case strstr (l0 @ [CHR 0x0A]) req of
       None \<Rightarrow> map_option (\<lambda>(a, b). (l0 @ CHR 0x0A # a, b)) (strstr r req)
     | Some (a, b) \<Rightarrow> Some (a, b @ r))"
  using assms(3)
proof (induction l0)
  case Nil
  obtain c q where q: "req = c # q" using assms(2) by (cases req) auto
  with assms(1) have "c \<noteq> CHR 0x0A" by auto
  with q show ?case by simp
next
  case (Cons c l0)
  have p: "take (length req) (c # l0 @ CHR 0x0A # r) = req \<longleftrightarrow> take (length req) (c # l0 @ [CHR 0x0A]) = req"
  proof
    assume "take (length req) (c # l0 @ CHR 0x0A # r) = req"
    then have "take (length req) (c # l0) = req" using prefix_in_line [of req "c # l0" r] assms(1) by simp
    moreover from this have "length req \<le> length (c # l0)" by (metis length_take min.cobounded1)
    ultimately show "take (length req) (c # l0 @ [CHR 0x0A]) = req" by (cases "length req") auto
  next
    assume "take (length req) (c # l0 @ [CHR 0x0A]) = req"
    then have "take (length req) (c # l0) = req" using prefix_in_line [of req "c # l0" "[]"] assms(1) by simp
    moreover from this have "length req \<le> length (c # l0)" by (metis length_take min.cobounded1)
    ultimately show "take (length req) (c # l0 @ CHR 0x0A # r) = req" by (cases "length req") auto
  qed
  with Cons show ?case
    by (auto simp: option.map_comp comp_def split_def split: option.splits)
qed

lemma strstr_match_in_line:
  assumes "strstr (l0 @ [CHR 0x0A]) req = Some (a, b)" and "CHR 0x0A \<notin> set req" and "req \<noteq> []" and "CHR 0x0A \<notin> set l0"
  shows "\<exists>b0. b = b0 @ [CHR 0x0A] \<and> l0 = a @ b0 \<and> b0 \<noteq> [] \<and> hd b0 \<noteq> CHR 0x0A \<and> CHR 0x0A \<notin> set a \<and> CHR 0x0A \<notin> set b0"
proof -
  note s = strstr_split [OF assms(1)]
  have "b \<noteq> []" using s assms(3) by auto
  then obtain b0 x where b: "b = b0 @ [x]" by (metis rev_exhaust)
  with s have x: "x = CHR 0x0A" "l0 = a @ b0" by auto
  have "b0 \<noteq> []"
  proof
    assume "b0 = []"
    with s b x have "take (length req) [CHR 0x0A] = req" by simp
    with assms(2,3) show False by (cases req) auto
  qed
  with b x assms(4) show ?thesis by (cases b0) auto
qed

lemma split_line_mid:
  assumes "p = [] \<or> last p = CHR 0x0A" and "b0 \<noteq> []" and "CHR 0x0A \<notin> set a" and "CHR 0x0A \<notin> set b0"
  shows "split_line (p @ a) (b0 @ CHR 0x0A # r) = (p, Some r)"
proof -
  have h: "hd (b0 @ CHR 0x0A # r) \<noteq> CHR 0x0A" using assms(2,4) by (cases b0) auto
  have d: "dropWhile (\<lambda>c. c \<noteq> CHR 0x0A) (rev (p @ a)) = rev p" "takeWhile (\<lambda>c. c \<noteq> CHR 0x0A) (rev (p @ a)) = rev a"
    using assms(1,3) by (cases p rule: rev_cases; force simp: dropWhile_append3 takeWhile_tail dropWhile_append)+
  have "CHR 0x0A \<notin> set (a @ b0)" using assms(3,4) by simp
  from str_cut_append [OF this, of r] h d show ?thesis by (simp add: split_line_def Let_def)
qed

subsection \<open>Files as lists of entries\<close>

record saved_entry =
  se_date :: int
  se_type :: int
  se_name :: string
  se_value :: string

definition entry_line :: "saved_entry \<Rightarrow> string" where
  "entry_line e = entry_text (se_date e) (se_type e) (se_name e) (se_value e)"

definition file_of :: "saved_entry list \<Rightarrow> string" where
  "file_of es = concat (map entry_line es)"

definition clean_text :: "string \<Rightarrow> bool" where
  "clean_text s \<longleftrightarrow> CHR 0x0A \<notin> set s \<and> CHR 0x00 \<notin> set s"

definition plain_entry :: "saved_entry \<Rightarrow> bool" where
  "plain_entry e \<longleftrightarrow> clean_text (se_name e) \<and> CHR ''='' \<notin> set (se_name e) \<and> clean_text (se_value e)"

fun rm_first :: "('a \<Rightarrow> bool) \<Rightarrow> 'a list \<Rightarrow> 'a list" where
  "rm_first P [] = []"
| "rm_first P (x # xs) = (if P x then xs else x # rm_first P xs)"

lemma int_text_clean [simp]: "clean_text (int_text i)"
  by (auto simp: clean_text_def digit_val_def dest!: int_text_chars)

lemma entry_line_split:
  assumes "plain_entry e"
  obtains l0 where "entry_line e = l0 @ [CHR 0x0A]" "CHR 0x0A \<notin> set l0" "CHR 0x00 \<notin> set l0"
proof
  show "entry_line e = (int_text (se_date e) @ '' '' @ int_text (se_type e) @ '' '' @ se_name e @ ''='' @ se_value e) @ [CHR 0x0A]"
    by (simp add: entry_line_def entry_text_def)
qed (use assms int_text_clean [of "se_date e"] int_text_clean [of "se_type e"] in \<open>auto simp: plain_entry_def clean_text_def\<close>)

lemma file_of_simps [simp]: "file_of [] = []" "file_of (e # es) = entry_line e @ file_of es" "file_of (es @ fs) = file_of es @ file_of fs"
  by (simp_all add: file_of_def)

lemma entry_line_nonempty [simp]: "entry_line e \<noteq> []" "file_of es = [] \<longleftrightarrow> es = []"
  by (simp_all add: entry_line_def entry_text_def file_of_def)

lemma file_no_nul: "\<forall>e \<in> set es. plain_entry e \<Longrightarrow> CHR 0x00 \<notin> set (file_of es)"
proof (induction es)
  case (Cons e es)
  then obtain l0 where "entry_line e = l0 @ [CHR 0x0A]" "CHR 0x00 \<notin> set l0" using entry_line_split [of e] by auto
  with Cons show ?case by simp
qed simp

definition rm_text :: "string \<Rightarrow> string \<Rightarrow> string" where
  "rm_text s req =
     (case strstr s req of
        None \<Rightarrow> s
      | Some (a, b) \<Rightarrow> (case split_line a b of (keep, rest) \<Rightarrow> keep @ (case rest of None \<Rightarrow> [] | Some r \<Rightarrow> r)))"

lemma rm_text_file:
  assumes "CHR 0x0A \<notin> set req" and "req \<noteq> []"
    and "p = [] \<or> last p = CHR 0x0A" and "strstr (p @ file_of es) req = map_option (\<lambda>(a, b). (p @ a, b)) (strstr (file_of es) req)"
    and "\<forall>e \<in> set es. plain_entry e"
  shows "rm_text (p @ file_of es) req = p @ file_of (rm_first (\<lambda>e. occurs req (entry_line e)) es)"
  using assms(3-5)
proof (induction es arbitrary: p)
  case Nil
  then have "strstr p req = None" using assms(2) by simp
  then show ?case by (simp add: rm_text_def)
next
  case (Cons e es)
  obtain l0 where l: "entry_line e = l0 @ [CHR 0x0A]" "CHR 0x0A \<notin> set l0" 
    using entry_line_split [OF bspec [OF Cons.prems(3), of e]] by (metis list.set_intros(1))
  note sl = strstr_line [OF assms(1,2) l(2), of "file_of es"]
  show ?case
  proof (cases "strstr (entry_line e) req")
    case None
    have "strstr (p @ file_of (e # es)) req = map_option (\<lambda>(a, b). ((p @ entry_line e) @ a, b)) (strstr (file_of es) req)"
      using Cons.prems(2) sl None l by (simp add: option.map_comp comp_def split_def)
    then have "rm_text ((p @ entry_line e) @ file_of es) req = (p @ entry_line e) @ file_of (rm_first (\<lambda>e. occurs req (entry_line e)) es)"
      using Cons.prems(3) l by (intro Cons.IH) simp_all
    with None show ?thesis by (simp add: occurs_def)
  next
    case (Some ab)
    then obtain a b where ab: "strstr (l0 @ [CHR 0x0A]) req = Some (a, b)" using l by (cases ab) auto
    from strstr_match_in_line [OF ab assms(1,2) l(2)] obtain b0
      where b: "b = b0 @ [CHR 0x0A]" "b0 \<noteq> []" "CHR 0x0A \<notin> set a" "CHR 0x0A \<notin> set b0" by blast
    have "split_line (p @ a) (b0 @ CHR 0x0A # file_of es) = (p, Some (file_of es))"
      by (rule split_line_mid [OF Cons.prems(1) b(2-4)])
    then show ?thesis using Cons.prems(2) sl ab b(1) l Some by (simp add: rm_text_def occurs_def)
  qed
qed

lemma rm_text_entries:
  assumes "\<forall>e \<in> set es. plain_entry e" and "CHR 0x0A \<notin> set req" and "req \<noteq> []"
  shows "rm_text (file_of es) req = file_of (rm_first (\<lambda>e. occurs req (entry_line e)) es)"
proof -
  have "map_option (\<lambda>(a, b). (a, b)) x = x" for x :: "(string \<times> string) option" by (cases x) auto
  then show ?thesis using rm_text_file [OF assms(2,3), of "[]" es] assms(1) by simp
qed


subsection \<open>The open file\<close>

text \<open>The descriptor of the globals is open, at the end of a file with text \<open>t\<close>, and the disk is not full.\<close>

definition open_text :: "saver \<Rightarrow> nat \<Rightarrow> string \<Rightarrow> bool" where
  "open_text V i t \<longleftrightarrow> 0 < sv_fd V \<and> fs_slot (sv_fs V) (sv_fd V) = Some (i, length t) \<and> f_data (sv_fs V) i = t
     \<and> \<not> f_full (sv_fs V)"

text \<open>The same state with another text in the file.\<close>

definition with_text :: "nat \<Rightarrow> string \<Rightarrow> saver \<Rightarrow> saver" where
  "with_text i t V =
     V\<lparr>sv_fs := (sv_fs V)\<lparr>f_data := (f_data (sv_fs V))(i := t), f_fds := (f_fds (sv_fs V))[nat (sv_fd V) := Some (i, length t)]\<rparr>\<rparr>"

lemma fs_slot_upd: "fs_slot F fd = Some x \<Longrightarrow> fs_slot (F\<lparr>f_fds := (f_fds F)[nat fd := y]\<rparr>) fd = y"
  by (auto simp: fs_slot_def split: if_splits)

lemma fs_slot_cong: "f_fds G = f_fds F \<Longrightarrow> fs_slot G fd = fs_slot F fd"
  by (simp add: fs_slot_def)

lemma open_slot_bound: "open_text V i t \<Longrightarrow> nat (sv_fd V) < length (f_fds (sv_fs V)) \<and> f_fds (sv_fs V) ! nat (sv_fd V) = Some (i, length t)"
  by (auto simp: open_text_def fs_slot_def split: if_splits)

lemma with_text_open:
  assumes "open_text V i t"
  shows "open_text (with_text i u V) i u"
proof -
  have "nat (sv_fd V) < length (f_fds (sv_fs V))" "0 < sv_fd V" "\<not> f_full (sv_fs V)"
    using assms open_slot_bound [OF assms] by (simp_all add: open_text_def)
  then show ?thesis by (simp add: open_text_def with_text_def fs_slot_def)
qed

lemma with_text_same:
  assumes "open_text V i t"
  shows "with_text i t V = V"
proof -
  have "(f_fds (sv_fs V))[nat (sv_fd V) := Some (i, length t)] = f_fds (sv_fs V)"
    using open_slot_bound [OF assms] by (metis list_update_id)
  moreover have "(f_data (sv_fs V))(i := t) = f_data (sv_fs V)" using assms by (simp add: open_text_def fun_upd_idem)
  ultimately show ?thesis by (simp add: with_text_def)
qed

lemma with_text_twice [simp]: "with_text i u (with_text i t V) = with_text i u V"
  by (simp add: with_text_def)

lemma with_text_fd [simp]: "sv_fd (with_text i t V) = sv_fd V" "f_dir (sv_fs (with_text i t V)) = f_dir (sv_fs V)"
  "f_denied (sv_fs (with_text i t V)) = f_denied (sv_fs V)" "f_full (sv_fs (with_text i t V)) = f_full (sv_fs V)"
  "f_next (sv_fs (with_text i t V)) = f_next (sv_fs V)" "length (f_fds (sv_fs (with_text i t V))) = length (f_fds (sv_fs V))"
  by (simp_all add: with_text_def)

lemma overlay_end: "overlay t (length t) s = t @ s"
  by (simp add: overlay_def)

lemma write_open:
  "open_text V i t \<Longrightarrow> V\<lparr>sv_fs := snd (fs_write (sv_fd V) s (sv_fs V))\<rparr> = with_text i (t @ s) V"
  by (simp add: open_text_def fs_write_def with_text_def overlay_end)

lemma map_file_open:
  assumes "open_text V i t" and "CHR 0x00 \<notin> set t"
  shows "map_file (sv_fd V) (sv_fs V) = (if t = [] then None else Some t, sv_fs V)"
proof -
  have "takeWhile (\<lambda>c. c \<noteq> CHR 0x00) t = t" using assms(2) by (auto intro: takeWhile_eq_all_conv [THEN iffD2])
  moreover have "fs_seek (sv_fd V) (length t) (sv_fs V) = sv_fs V"
    using assms(1) open_slot_bound [OF assms(1)] list_update_id [of "f_fds (sv_fs V)" "nat (sv_fd V)"]
    by (simp add: fs_seek_def open_text_def)
  ultimately show ?thesis using assms(1) by (simp add: map_file_def fs_text_def open_text_def)
qed

lemma rm_entry_open:
  assumes "open_text V i t" and "CHR 0x00 \<notin> set t"
  shows "save_kb_rm_entry_value name value V =
    (0, with_text i (rm_text t (case value of Some v \<Rightarrow> name @ ''='' @ v | None \<Rightarrow> name)) V)"
proof -
  define req where "req = (case value of Some v \<Rightarrow> name @ ''='' @ v | None \<Rightarrow> name)"
  define F where "F = sv_fs V"
  define fd where "fd = sv_fd V"
  have V: "V\<lparr>sv_fs := F\<rparr> = V" by (simp add: F_def)
  have m: "map_file fd F = (if t = [] then None else Some t, F)" using map_file_open [OF assms] by (simp add: F_def fd_def)
  have slot: "fs_slot F fd = Some (i, length t)" "f_data F i = t" "\<not> f_full F" "0 < fd" using assms(1) by (simp_all add: open_text_def F_def fd_def)
  have b: "nat fd < length (f_fds F)" "f_fds F ! nat fd = Some (i, length t)" using open_slot_bound [OF assms(1)] by (simp_all add: F_def fd_def)
  consider "t = []" | "t \<noteq> []" "strstr t req = None" | a c where "t \<noteq> []" "strstr t req = Some (a, c)"
    by (cases "strstr t req") auto
  then show ?thesis
  proof cases
    case 1
    then have "rm_text t req = t" by (auto simp: rm_text_def split_line_def str_cut_def)
    then show ?thesis
      using m 1 slot with_text_same [OF assms(1)] V
      by (simp add: save_kb_rm_entry_value_def Let_def req_def [symmetric] F_def [symmetric] fd_def [symmetric])
  next
    case None: 2
    have "fs_seek_end fd F = F" using slot b list_update_id [of "f_fds F" "nat fd"] by (simp add: fs_seek_end_def fs_seek_def)
    moreover have "rm_text t req = t" using None by (simp add: rm_text_def)
    ultimately show ?thesis
      using m None slot with_text_same [OF assms(1)] V
      by (simp add: save_kb_rm_entry_value_def Let_def req_def [symmetric] F_def [symmetric] fd_def [symmetric])
  next
    case (3 a c)
    obtain keep rest where k: "split_line a c = (keep, rest)" by fastforce
    define G where "G = F\<lparr>f_data := (f_data F)(i := []), f_fds := (f_fds F)[nat fd := Some (i, 0)]\<rparr>"
    have G: "fs_truncate fd (fs_seek fd 0 F) = G" using slot b by (simp add: fs_seek_def fs_truncate_def fs_slot_def G_def)
    have wr: "snd (fs_write fd s (F\<lparr>f_data := (f_data F)(i := u), f_fds := (f_fds F)[nat fd := Some (i, length u)]\<rparr>))
        = F\<lparr>f_data := (f_data F)(i := u @ s), f_fds := (f_fds F)[nat fd := Some (i, length (u @ s))]\<rparr>" for s u
      using slot b by (simp add: fs_write_def fs_slot_def overlay_end)
    have se: "fs_seek_end fd (F\<lparr>f_data := (f_data F)(i := u), f_fds := (f_fds F)[nat fd := Some (i, length u)]\<rparr>)
        = F\<lparr>f_data := (f_data F)(i := u), f_fds := (f_fds F)[nat fd := Some (i, length u)]\<rparr>" for u
      using slot b by (simp add: fs_seek_end_def fs_seek_def fs_slot_def)
    have w1: "snd (fs_write fd keep G) = F\<lparr>f_data := (f_data F)(i := keep), f_fds := (f_fds F)[nat fd := Some (i, length keep)]\<rparr>"
      using wr [of keep "[]"] by (simp add: G_def)
    show ?thesis
      using m 3 k slot(4) wr [of _ keep] se [of keep] se [of "keep @ the rest"]
      by (cases rest) (simp_all add: save_kb_rm_entry_value_def Let_def req_def [symmetric] F_def [symmetric] fd_def [symmetric] G w1
          rm_text_def with_text_def)
  qed
qed

subsection \<open>Writing\<close>

text \<open>What a write does to the entries.\<close>

definition put_entry :: "int \<Rightarrow> int \<Rightarrow> string \<Rightarrow> string \<Rightarrow> saved_entry list \<Rightarrow> saved_entry list" where
  "put_entry now ty n v es =
     (let es = (if kept_single n then rm_first (\<lambda>e. occurs n (entry_line e)) es else es);
          es = rm_first (\<lambda>e. occurs (n @ ''='' @ v) (entry_line e)) es
      in es @ [\<lparr>se_date = now, se_type = ty, se_name = n, se_value = v\<rparr>])"

lemma rm_first_subset: "set (rm_first P xs) \<subseteq> set xs"
  by (induction xs) auto

lemma rm_first_none: "\<forall>x \<in> set xs. \<not> P x \<Longrightarrow> rm_first P xs = xs"
  by (induction xs) auto

lemma occurs_line_file: "e \<in> set es \<Longrightarrow> occurs req (entry_line e) \<Longrightarrow> occurs req (file_of es)"
proof -
  assume e: "e \<in> set es" and "occurs req (entry_line e)"
  then obtain a b where ab: "entry_line e = a @ req @ b" by (auto simp: occurs_iff)
  from e obtain xs ys where "es = xs @ e # ys" by (meson split_list)
  then have "file_of es = (file_of xs @ a) @ req @ (b @ file_of ys)" using ab by simp
  then show "occurs req (file_of es)" unfolding occurs_iff by blast
qed

lemma kept_single_nonempty: "kept_single n \<Longrightarrow> n \<noteq> []"
  by (auto simp: kept_single_def starts_def)

lemma present_open:
  assumes "open_text V i (file_of es)" and "\<forall>e \<in> set es. plain_entry e" and "save_kb_entry_present_already n v V = (r, V')"
  shows "V' = V \<and> (r = 0 \<longrightarrow> (\<forall>e \<in> set es. \<not> occurs (n @ ''='' @ v) (entry_line e)))"
proof -
  have m: "map_file (sv_fd V) (sv_fs V) = (if es = [] then None else Some (file_of es), sv_fs V)"
    using map_file_open [OF assms(1) file_no_nul [OF assms(2)]] by simp
  have pos: "0 < sv_fd V" using assms(1) by (simp add: open_text_def)
  show ?thesis
    using assms(3) m pos occurs_line_file [of _ es "n @ ''='' @ v"]
    by (auto simp: save_kb_entry_present_already_def occurs_def split: if_splits)
qed

lemma write_entries:
  assumes "open_text V i (file_of es)" and "\<forall>e \<in> set es. plain_entry e" and "\<not> not_saved n"
    and "plain_entry \<lparr>se_date = sys_now S, se_type = ty, se_name = n, se_value = v\<rparr>"
  shows "save_kb_write S (Some h) (Some n) (Some v) ty V = (0, with_text i (file_of (put_entry (sys_now S) ty n v es)) V)"
proof -
  define es1 where "es1 = (if kept_single n then rm_first (\<lambda>e. occurs n (entry_line e)) es else es)"
  define es2 where "es2 = rm_first (\<lambda>e. occurs (n @ ''='' @ v) (entry_line e)) es1"
  define V1 where "V1 = with_text i (file_of es1) V"
  define V2 where "V2 = with_text i (file_of es2) V"
  have cl: "CHR 0x0A \<notin> set n" "CHR 0x0A \<notin> set (n @ ''='' @ v)" "n @ ''='' @ v \<noteq> []"
    using assms(4) by (auto simp: plain_entry_def clean_text_def)
  have p1: "\<forall>e \<in> set es1. plain_entry e" using assms(2) rm_first_subset [of "\<lambda>e. occurs n (entry_line e)" es] by (auto simp: es1_def)
  have pos: "0 < sv_fd V" using assms(1) by (simp add: open_text_def)
  have s1: "(if kept_single n then snd (save_kb_rm_entry n V) else V) = V1"
    using rm_entry_open [OF assms(1) file_no_nul [OF assms(2)], of n None] rm_text_entries [OF assms(2) cl(1) kept_single_nonempty]
      with_text_same [OF assms(1)]
    by (auto simp: V1_def es1_def save_kb_rm_entry_def)
  have o1: "open_text V1 i (file_of es1)" unfolding V1_def by (rule with_text_open [OF assms(1)])
  obtain r where pr: "save_kb_entry_present_already n v V1 = (r, V1)"
    and r: "r = 0 \<longrightarrow> (\<forall>e \<in> set es1. \<not> occurs (n @ ''='' @ v) (entry_line e))"
    using present_open [OF o1 p1] by (metis prod.exhaust)
  have s2: "(if r \<noteq> 0 then snd (save_kb_rm_entry_value n (Some v) V1) else V1) = V2"
    using rm_entry_open [OF o1 file_no_nul [OF p1], of n "Some v"] rm_text_entries [OF p1 cl(2,3)] r
      rm_first_none [of es1 "\<lambda>e. occurs (n @ ''='' @ v) (entry_line e)"]
    by (auto simp: V2_def es2_def V1_def)
  have o2: "open_text V2 i (file_of es2)" unfolding V2_def by (rule with_text_open [OF assms(1)])
  note w = write_open [OF o2, of "entry_text (sys_now S) ty n v"]
  have new: "entry_line \<lparr>se_date = sys_now S, se_type = ty, se_name = n, se_value = v\<rparr> = entry_text (sys_now S) ty n v"
    by (simp add: entry_line_def)
  have "save_kb_write S (Some h) (Some n) (Some v) ty V
      = (0, V2\<lparr>sv_fs := snd (fs_write (sv_fd V2) (entry_text (sys_now S) ty n v) (sv_fs V2))\<rparr>)"
    unfolding save_kb_write_def using pos assms(3) s1 pr s2 by (simp add: Let_def)
  also have "\<dots> = (0, with_text i (file_of (put_entry (sys_now S) ty n v es)) V)"
    unfolding w by (simp add: V2_def put_entry_def Let_def es2_def es1_def new)
  finally show ?thesis .
qed

text \<open>The file that is open holds exactly these entries.\<close>

definition holds :: "saver \<Rightarrow> saved_entry list \<Rightarrow> bool" where
  "holds V es \<longleftrightarrow> (\<exists>i. open_text V i (file_of es)) \<and> (\<forall>e \<in> set es. plain_entry e)"

text \<open>Everything but the text behind the descriptor is the same.\<close>

definition same_but_text :: "saver \<Rightarrow> saver \<Rightarrow> bool" where
  "same_but_text V V' \<longleftrightarrow> (\<exists>i t off. fs_slot (sv_fs V) (sv_fd V) = Some (i, off) \<and> V' = with_text i t V)"

lemma put_entry_plain:
  assumes "\<forall>e \<in> set es. plain_entry e" and "plain_entry \<lparr>se_date = now, se_type = ty, se_name = n, se_value = v\<rparr>"
  shows "\<forall>e \<in> set (put_entry now ty n v es). plain_entry e"
  using assms by (auto simp: put_entry_def Let_def dest!: rm_first_subset [THEN subsetD])


subsection \<open>Loading\<close>

lemma strtol_int_text:
  assumes "LONG_MIN \<le> i" and "i \<le> LONG_MAX" and "r = [] \<or> \<not> is_digit_in 10 (hd r)"
  shows "strtol 10 (int_text i @ r) = (i, r, False)"
proof (cases "i < 0")
  case True
  then show ?thesis
    using strtol10_build [of "[]" "''-''" "to_base 10 (nat (- i))" r] to_base_nonempty to_base_digits assms
    by (auto simp: int_text_def Let_def num_of_to_base)
next
  case False
  then show ?thesis
    using strtol10_build [of "[]" "[]" "to_base 10 (nat i)" r] to_base_nonempty to_base_digits assms
    by (auto simp: int_text_def Let_def num_of_to_base)
qed

definition is_int32 :: "int \<Rightarrow> bool" where
  "is_int32 i \<longleftrightarrow> - (2 ^ 31) \<le> i \<and> i < 2 ^ 31"

lemma atoi_prefix: "is_int32 i \<Longrightarrow> r = [] \<or> \<not> is_digit_in 10 (hd r) \<Longrightarrow> atoi (int_text i @ r) = i"
  using strtol_int_text [of i r] by (simp add: atoi_def is_int32_def to_int32_id LONG_MIN_def LONG_MAX_def)

text \<open>What an entry is when it is read: its line fits the buffer, its numbers fit their types.\<close>

definition loadable :: "saved_entry \<Rightarrow> bool" where
  "loadable e \<longleftrightarrow> plain_entry e \<and> length (entry_line e) \<le> 4094 \<and> is_int32 (se_type e)
     \<and> LONG_MIN \<le> se_date e \<and> se_date e \<le> LONG_MAX"

definition entry_value :: "saved_entry \<Rightarrow> kb_value option" where
  "entry_value e =
     (if se_type e = ARG_STRING then Some (V_str (rmslashes (se_value e)))
      else if se_type e = ARG_INT then Some (V_int (atoi (se_value e))) else None)"

definition restored :: "int \<Rightarrow> saved_entry \<Rightarrow> bool" where
  "restored now e \<longleftrightarrow> \<not> not_restored (se_name e) \<and> \<not> too_old now (se_date e)"

definition restore :: "int \<Rightarrow> kb \<Rightarrow> saved_entry \<Rightarrow> kb" where
  "restore now kb e =
     (case entry_value e of Some v \<Rightarrow> if restored now e then kb_add kb (se_name e) v else kb | None \<Rightarrow> kb)"

lemma load_line_entry:
  assumes "loadable e"
  shows "load_line now (butlast (entry_line e)) kb = restore now kb e"
proof -
  let ?r = "int_text (se_type e) @ CHR '' '' # se_name e @ CHR ''='' # se_value e"
  have b: "butlast (entry_line e) = int_text (se_date e) @ CHR '' '' # ?r" by (simp add: entry_line_def entry_text_def butlast_append)
  have 1: "str_cut (CHR '' '') (butlast (entry_line e)) = Some (int_text (se_date e), ?r)" unfolding b by (rule str_cut_append) simp
  have 2: "str_cut (CHR '' '') ?r = Some (int_text (se_type e), se_name e @ CHR ''='' # se_value e)" by (rule str_cut_append) simp
  have 3: "str_cut (CHR ''='') (se_name e @ CHR ''='' # se_value e) = Some (se_name e, se_value e)"
    using assms by (intro str_cut_append) (simp add: loadable_def plain_entry_def)
  have d: "fst (strtol 10 (int_text (se_date e))) = se_date e" using strtol_int_text [of "se_date e" "[]"] assms by (simp add: loadable_def)
  have t: "atoi ?r = se_type e" using assms by (intro atoi_prefix) (simp_all add: loadable_def digit_val_def)
  show ?thesis
    unfolding load_line_def 1 by (simp add: 2 3 d t restore_def restored_def entry_value_def kb_item_mutators)
qed

lemma fgets_entry:
  assumes "loadable e"
  shows "fgets (entry_line e @ r) = (entry_line e, r)"
proof -
  have "plain_entry e" using assms by (simp add: loadable_def)
  then obtain l0 where l: "entry_line e = l0 @ [CHR 0x0A]" "CHR 0x0A \<notin> set l0" by (rule entry_line_split)
  have n: "length l0 < 4094" using assms l by (simp add: loadable_def)
  then have "take 4094 (l0 @ CHR 0x0A # r) = l0 @ CHR 0x0A # take (4093 - length l0) r"
    by (simp add: take_Cons')
  with str_cut_append [OF l(2)] l show ?thesis by (simp add: fgets_def)
qed

lemma load_lines_file:
  assumes "\<forall>e \<in> set es. loadable e"
  shows "load_lines now (file_of es) kb = Some (foldl (restore now) kb es)"
  using assms
proof (induction es arbitrary: kb)
  case Nil
  then show ?case by (simp add: load_lines.simps)
next
  case (Cons e es)
  have le: "loadable e" using Cons.prems by simp
  then have "CHR 0x00 \<notin> set (file_of [e])" by (intro file_no_nul) (simp add: loadable_def)
  then have t: "takeWhile (\<lambda>c. c \<noteq> CHR 0x00) (entry_line e) = entry_line e"
    by (auto intro: takeWhile_eq_all_conv [THEN iffD2])
  show ?case
    using Cons.IH Cons.prems by (subst load_lines.simps) (simp add: fgets_entry [OF le] load_line_entry [OF le] Let_def t)
qed

lemma restored_values:
  "v \<in> set (kb_vals (foldl (restore now) kb es) n) \<longleftrightarrow>
     v \<in> set (kb_vals kb n) \<or> (\<exists>e \<in> set es. restored now e \<and> se_name e = n \<and> entry_value e = Some v)"
proof (induction es arbitrary: kb)
  case (Cons e es)
  have "v \<in> set (kb_vals (restore now kb e) n) \<longleftrightarrow> v \<in> set (kb_vals kb n) \<or> restored now e \<and> se_name e = n \<and> entry_value e = Some v"
    by (auto simp: restore_def kbs.vals_add split: option.splits)
  with Cons show ?case by auto
qed simp

end
