(* ===== verification/SaveKbLife.thy ===== *)
theory SaveKbLife
  imports SaveKbCorrect
begin

text \<open>
  The life of a saved knowledge base: it is created, written, closed and loaded again; backup and
  restore; and what the search for text in the whole file does to entries with longer names.
\<close>

subsection \<open>A new file\<close>

text \<open>
  The file of a host can be created: it is not locked, the files may be opened, there is space,
  descriptor 0 is in use, and the inodes of the directory are older than the next one.
\<close>

definition can_create :: "sysenv \<Rightarrow> string \<Rightarrow> saver \<Rightarrow> bool" where
  "can_create S h V \<longleftrightarrow>
     (let F = sv_fs V; fname = kb_fname S h in
      f_dir F (file_lock_name fname) = None \<and> \<not> f_denied F fname \<and> \<not> f_denied F (file_lock_name fname)
      \<and> \<not> f_full F \<and> fs_slot F 0 \<noteq> None)"

lemma save_kb_new_opens:
  assumes "can_create S h V"
  shows "\<exists>V' i. save_kb_new S (Some h) V = (0, V') \<and> open_text V' i [] \<and> f_dir (sv_fs V') (kb_fname S h) = Some i
    \<and> f_dir (sv_fs V') (file_lock_name (kb_fname S h)) \<noteq> None \<and> \<not> f_denied (sv_fs V') (kb_fname S h)
    \<and> fs_slot (sv_fs V') 0 \<noteq> None \<and> sv_fd V' \<noteq> 0"
proof -
  define fname where "fname = kb_fname S h"
  define F where "F = sv_fs V"
  have c: "f_dir F (file_lock_name fname) = None" "\<not> f_denied F fname" "\<not> f_denied F (file_lock_name fname)" "\<not> f_full F" "fs_slot F 0 \<noteq> None"
    using assms by (simp_all add: can_create_def Let_def F_def fname_def)
  define F1 where "F1 = snd (fs_unlink fname F)"
  have F1: "f_dir F1 = (f_dir F)(fname := None)" "f_denied F1 = f_denied F" "f_full F1 = f_full F" "\<And>d. fs_slot F1 d = fs_slot F d"
    by (auto simp: F1_def fs_unlink_def fs_slot_def fun_upd_idem)
  define i where "i = f_next F1"
  define F2 where "F2 = F1\<lparr>f_dir := (f_dir F1)(fname \<mapsto> i), f_data := (f_data F1)(i := []), f_next := i + 1\<rparr>"
  obtain fd F3 where a: "fs_alloc i F2 = (fd, F3)" by fastforce
  note e = fs_alloc_effect [OF a]
  have sl2: "fs_slot F2 d = fs_slot F d" for d using fs_slot_cong [of F2 F1 d] F1(4) by (simp add: F2_def)
  have fd: "0 < fd" using e(10) c(5) sl2 by simp
  have op: "fs_open True True False fname F1 = (fd, F3)" using a c(2) F1 by (simp add: fs_open_def i_def F2_def Let_def)
  have F3: "f_dir F3 = (f_dir F)(fname \<mapsto> i)" "f_data F3 i = []" "f_next F3 = i + 1" "f_denied F3 = f_denied F" "\<not> f_full F3"
    using e F1 c(4) by (simp_all add: F2_def)
  obtain G where G: "file_lock S fname F3 = (0, G)" "f_dir G = (f_dir F3)(file_lock_name fname \<mapsto> i + 1)"
    "f_data G = (f_data F3)(i + 1 := snprintf 20 (int_text (sys_pid S)))" "f_denied G = f_denied F3" "f_full G = f_full F3"
    "\<And>d. fs_slot F3 d \<noteq> None \<Longrightarrow> fs_slot G d = fs_slot F3 d"
    using file_lock_effect [of F3 fname S] c F3 by auto
  have sG: "fs_slot G fd = Some (i, 0)" "fs_slot G 0 \<noteq> None"
    using G(6) [of fd] G(6) [of 0] e(3) e(4) [of 0] fd sl2 c(5) by auto
  have "save_kb_new S (Some h) V = (0, V\<lparr>sv_fs := G, sv_fd := fd\<rparr>)"
    using file_locked_missing [OF c(1), of S] op G(1) fd
    by (simp add: save_kb_new_def fname_def [symmetric] F_def [symmetric] F1_def [symmetric])
  then show ?thesis using G F3 sG fd c(2) by (auto simp: open_text_def fname_def [symmetric])
qed

subsection \<open>A sequence of writes\<close>

type_synonym timed_value = "int \<times> string \<times> kb_value"

fun write_value :: "sysenv \<Rightarrow> string \<Rightarrow> timed_value \<Rightarrow> saver \<Rightarrow> saver" where
  "write_value S h (now, n, V_str s) V = snd (save_kb_write_str (S\<lparr>sys_now := now\<rparr>) (Some h) (Some n) (Some s) V)"
| "write_value S h (now, n, V_int k) V = snd (save_kb_write_int (S\<lparr>sys_now := now\<rparr>) (Some h) (Some n) k V)"

definition write_values :: "sysenv \<Rightarrow> string \<Rightarrow> timed_value list \<Rightarrow> saver \<Rightarrow> saver" where
  "write_values S h ps V = foldl (\<lambda>V p. write_value S h p V) V ps"

fun entry_for :: "timed_value \<Rightarrow> saved_entry" where
  "entry_for (now, n, V_str s) = \<lparr>se_date = now, se_type = ARG_STRING, se_name = n, se_value = add_loop s\<rparr>"
| "entry_for (now, n, V_int k) = \<lparr>se_date = now, se_type = ARG_INT, se_name = n, se_value = int_text k\<rparr>"

text \<open>Names and values that a file keeps.\<close>

fun keepable :: "timed_value \<Rightarrow> bool" where
  "keepable (now, n, v) \<longleftrightarrow> clean_text n \<and> CHR ''='' \<notin> set n \<and> \<not> not_saved n
     \<and> LONG_MIN \<le> now \<and> now \<le> LONG_MAX \<and> length (entry_line (entry_for (now, n, v))) \<le> 4094
     \<and> (case v of V_str s \<Rightarrow> CHR 0x00 \<notin> set s | V_int k \<Rightarrow> is_int32 k)"

text \<open>The search for an entry finds another one.\<close>

definition clash :: "saved_entry \<Rightarrow> saved_entry \<Rightarrow> bool" where
  "clash e f \<longleftrightarrow> occurs (se_name f @ ''='' @ se_value f) (entry_line e) \<or> kept_single (se_name f) \<and> occurs (se_name f) (entry_line e)"

lemma add_loop_clean: "CHR 0x00 \<notin> set s \<Longrightarrow> clean_text (add_loop s)"
  by (induction s) (auto simp: clean_text_def BSLASH_def)

lemma entry_for_loadable: "keepable p \<Longrightarrow> loadable (entry_for p)"
proof -
  assume k: "keepable p"
  obtain now n v where p: "p = (now, n, v)" by (cases p) auto
  have "is_int32 ARG_STRING" "is_int32 ARG_INT" by (simp_all add: is_int32_def arg_types)
  with k add_loop_clean show "loadable (entry_for p)"
    unfolding p by (cases v) (auto simp: loadable_def plain_entry_def)
qed

lemma entry_for_fields: "se_name (entry_for (now, n, v)) = n" "se_date (entry_for (now, n, v)) = now"
  by (cases v; simp)+

lemma entry_for_value: "keepable (now, n, v) \<Longrightarrow> entry_value (entry_for (now, n, v)) = Some v"
  using atoi_prefix [of _ "[]"] by (cases v) (auto simp: entry_value_def rmslashes_add arg_types)

lemma put_entry_no_clash:
  assumes "\<forall>e \<in> set es. \<not> clash e (entry_for (now, n, v))"
  shows "put_entry now (se_type (entry_for (now, n, v))) n (se_value (entry_for (now, n, v))) es = es @ [entry_for (now, n, v)]"
proof -
  have "rm_first (\<lambda>e. occurs n (entry_line e)) es = es" if "kept_single n"
    using assms that by (intro rm_first_none) (auto simp: clash_def entry_for_fields)
  moreover have "rm_first (\<lambda>e. occurs (n @ ''='' @ se_value (entry_for (now, n, v))) (entry_line e)) es = es"
    using assms by (intro rm_first_none) (auto simp: clash_def entry_for_fields)
  ultimately show ?thesis by (cases v) (simp_all add: put_entry_def Let_def)
qed

lemma write_value_open:
  assumes "open_text V i (file_of es)" and "\<forall>e \<in> set es. plain_entry e" and "keepable p" and "\<forall>e \<in> set es. \<not> clash e (entry_for p)"
  shows "write_value S h p V = with_text i (file_of (es @ [entry_for p])) V"
proof -
  obtain now n v where p: "p = (now, n, v)" by (cases p) auto
  have pl: "plain_entry (entry_for p)" using entry_for_loadable [OF assms(3)] by (simp add: loadable_def)
  have ns: "\<not> not_saved n" using assms(3) by (simp add: p)
  note w = write_entries [OF assms(1,2) ns, of "S\<lparr>sys_now := now\<rparr>" _ _ h]
  show ?thesis
    using w [of "se_type (entry_for p)" "se_value (entry_for p)"] pl put_entry_no_clash [of es now n v] assms(4)
    unfolding p by (cases v) (simp_all add: save_kb_write_str_def save_kb_write_int_def addslashes_def)
qed

lemma write_values_open:
  assumes "open_text V i (file_of es)" and "\<forall>e \<in> set es. plain_entry e" and "\<forall>p \<in> set ps. keepable p"
    and "sorted_wrt (\<lambda>e f. \<not> clash e f) (es @ map entry_for ps)"
  shows "write_values S h ps V = with_text i (file_of (es @ map entry_for ps)) V"
  using assms
proof (induction ps arbitrary: es V)
  case Nil
  then show ?case by (simp add: write_values_def with_text_same)
next
  case (Cons p ps)
  let ?es = "es @ [entry_for p]"
  have w: "write_value S h p V = with_text i (file_of ?es) V"
    using Cons.prems by (intro write_value_open) (auto simp: sorted_wrt_append)
  have pl: "plain_entry (entry_for p)" using entry_for_loadable [of p] Cons.prems(3) by (simp add: loadable_def)
  have o: "open_text (with_text i (file_of ?es) V) i (file_of ?es)" by (rule with_text_open [OF Cons.prems(1)])
  have "write_values S h ps (with_text i (file_of ?es) V) = with_text i (file_of (?es @ map entry_for ps)) (with_text i (file_of ?es) V)"
    using Cons.prems pl by (intro Cons.IH [OF o]) auto
  then show ?case using w by (simp add: write_values_def)
qed

subsection \<open>Loading it again\<close>

lemma load_text:
  assumes "f_dir (sv_fs V) (file_lock_name (kb_fname S h)) = None" and "\<not> f_denied (sv_fs V) (kb_fname S h)"
    and "f_dir (sv_fs V) (kb_fname S h) = Some i" and "f_data (sv_fs V) i = file_of (e # es)" and "\<forall>f \<in> set (e # es). loadable f"
  shows "\<exists>V'. save_kb_load_kb S h V = Some (Some (foldl (restore (sys_now S)) kb_new es), V')"
proof -
  define F where "F = sv_fs V"
  define fname where "fname = kb_fname S h"
  note a = assms [folded F_def fname_def]
  obtain fd F1 where al: "fs_alloc i F = (fd, F1)" by fastforce
  note e = fs_alloc_effect [OF al]
  have op: "fs_open False False False fname F = (fd, F1)" using a al by (simp add: fs_open_def)
  have t: "fs_text F1 fd = file_of (e # es)" using e(3,6) a(4) by (simp add: fs_text_def)
  have ne: "file_of (e # es) \<noteq> []" by simp
  have g: "snd (fgets (file_of (e # es))) = file_of es" using fgets_entry [of e "file_of es"] a(5) by simp
  have l: "load_lines (sys_now S) (file_of es) kb_new = Some (foldl (restore (sys_now S)) kb_new es)"
    using a(5) by (intro load_lines_file) simp
  show ?thesis
    unfolding save_kb_load_kb_def fname_def [symmetric] F_def [symmetric]
    using file_locked_missing [OF a(1), of S] op e(1) t ne g l by (simp add: Let_def split: prod.split)
qed


definition sys0 :: sysenv where
  "sys0 = \<lparr>sys_pid = 7, sys_kill = (\<lambda>p. p = 7), sys_now = 1000, sys_kbs = ''/k''\<rparr>"

definition saver0 :: saver where
  "saver0 = \<lparr>sv_fs = \<lparr>f_dir = Map.empty, f_data = (\<lambda>_. []), f_next = 1, f_fds = [Some (0, 0)], f_denied = (\<lambda>_. False), f_full = False\<rparr>,
     sv_fd = 0\<rparr>"



subsection \<open>Marks of plugins with longer numbers\<close>

text \<open>
  A mark of a launched plugin takes out the mark of another plugin whose number starts with
  the same digits: the search for the old mark is a search for its name anywhere in the file.
\<close>

theorem launched_mark_lost:
  assumes "holds V [entry_for (t, ''Launched/'' @ oid @ x, V_int 1)]" and "clean_text oid" and "CHR ''='' \<notin> set oid"
  shows "\<exists>V'. save_kb_write_int S (Some h) (Some (''Launched/'' @ oid)) 1 V = (0, V')
    \<and> holds V' [entry_for (sys_now S, ''Launched/'' @ oid, V_int 1)]"
proof -
  let ?n = "''Launched/'' @ oid"
  let ?e = "entry_for (t, ?n @ x, V_int 1)"
  obtain i where o: "open_text V i (file_of [?e])" "plain_entry ?e" using assms(1) by (auto simp: holds_def)
  have "entry_line ?e = (int_text t @ '' '' @ int_text ARG_INT @ '' '') @ ?n @ (x @ ''='' @ int_text 1 @ [CHR 0x0A])"
    by (simp add: entry_line_def entry_text_def)
  then have oc: "occurs ?n (entry_line ?e)" unfolding occurs_iff by blast
  have k: "kept_single ?n" "\<not> not_saved ?n" by (simp_all add: kept_single_def not_saved_def starts_def)
  have pl: "plain_entry (entry_for (sys_now S, ?n, V_int 1))"
    using assms(2,3) by (simp add: plain_entry_def clean_text_def int_text_clean [unfolded clean_text_def])
  have pe: "put_entry (sys_now S) ARG_INT ?n (int_text 1) [?e] = [entry_for (sys_now S, ?n, V_int 1)]"
    using k oc by (simp add: put_entry_def Let_def)
  have w: "save_kb_write S (Some h) (Some ?n) (Some (int_text 1)) ARG_INT V
      = (0, with_text i (file_of (put_entry (sys_now S) ARG_INT ?n (int_text 1) [?e])) V)"
    using o(2) pl by (intro write_entries [OF o(1) _ k(2)]) simp_all
  show ?thesis unfolding save_kb_write_int_def w pe using with_text_open [OF o(1)] pl by (auto simp: holds_def)
qed

theorem launched_mark_lost_witness:
  "\<exists>V V'. holds V [entry_for (2, ''Launched/'' @ ''1.0.1'' @ ''0'', V_int 1)]
     \<and> save_kb_write_int sys0 (Some ''h'') (Some (''Launched/'' @ ''1.0.1'')) 1 V = (0, V')
     \<and> holds V' [entry_for (sys_now sys0, ''Launched/'' @ ''1.0.1'', V_int 1)]"
proof -
  let ?e = "entry_for (2, ''Launched/'' @ ''1.0.1'' @ ''0'', V_int 1)"
  have "can_create sys0 ''h'' saver0" by code_simp
  from save_kb_new_opens [OF this] obtain V1 i where V1: "open_text V1 i []" by auto
  have "plain_entry ?e" by code_simp
  then have "holds (with_text i (file_of [?e]) V1) [?e]" using with_text_open [OF V1] by (auto simp: holds_def)
  from launched_mark_lost [OF this, of sys0 "''h''"] this show ?thesis by (auto simp: clean_text_def)
qed

subsection \<open>Backup and restore\<close>

definition file_text :: "fs \<Rightarrow> string \<Rightarrow> string option" where
  "file_text F path = map_option (f_data F) (f_dir F path)"

lemma copy_blocks_effect:
  assumes "fs_slot F fd = Some (i, length t)" and "f_data F i = t" and "\<not> f_full F"
  shows "\<exists>G. copy_blocks fd s F = (True, G) \<and> f_data G = (f_data F)(i := t @ s) \<and> f_dir G = f_dir F \<and> f_denied G = f_denied F"
  using assms
proof (induction fd s F arbitrary: t rule: copy_blocks.induct)
  case (1 fd s F)
  show ?case
  proof (cases "s = []")
    case True
    then show ?thesis using "1.prems" by (simp add: copy_blocks.simps fun_upd_idem)
  next
    case False
    define F1 where "F1 = F\<lparr>f_data := (f_data F)(i := t @ take 4096 s), f_fds := (f_fds F)[nat fd := Some (i, length (t @ take 4096 s))]\<rparr>"
    define k where "k = length (take 4096 s)"
    have w: "fs_write fd (take 4096 s) F = (int k, F1)"
      using "1.prems" by (simp add: fs_write_def overlay_end F1_def k_def)
    have sl: "fs_slot F1 fd = Some (i, length (t @ take 4096 s))"
      unfolding F1_def using "1.prems"(1) by (auto simp: fs_slot_def split: if_splits)
    have nk: "\<not> int k < 0" by simp
    have "\<exists>G. copy_blocks fd (drop 4096 s) F1 = (True, G) \<and> f_data G = (f_data F1)(i := (t @ take 4096 s) @ drop 4096 s)
        \<and> f_dir G = f_dir F1 \<and> f_denied G = f_denied F1"
      by (rule "1.IH" [OF False w [symmetric] refl nk sl]) (use "1.prems" in \<open>simp_all add: F1_def\<close>)
    moreover have "copy_blocks fd s F = copy_blocks fd (drop 4096 s) F1"
      using False w by (subst copy_blocks.simps) simp
    moreover have "(f_data F1)(i := (t @ take 4096 s) @ drop 4096 s) = (f_data F)(i := t @ s)" "f_dir F1 = f_dir F" "f_denied F1 = f_denied F"
      by (simp_all add: F1_def)
    ultimately show ?thesis by metis
  qed
qed

text \<open>A file that can be copied: it is there and not locked, files may be opened, there is space, inodes are distinct.\<close>

definition can_backup :: "sysenv \<Rightarrow> string \<Rightarrow> saver \<Rightarrow> bool" where
  "can_backup S h V \<longleftrightarrow>
     (let F = sv_fs V; fname = kb_fname S h in
      f_dir F (file_lock_name fname) = None \<and> \<not> f_denied F (file_lock_name fname) \<and> \<not> f_denied F fname
      \<and> \<not> f_denied F (bak_name fname) \<and> \<not> f_full F
      \<and> (case f_dir F fname of None \<Rightarrow> False | Some i \<Rightarrow> i < f_next F \<and> f_dir F (bak_name fname) \<noteq> Some i)
      \<and> (case f_dir F (bak_name fname) of None \<Rightarrow> True | Some j \<Rightarrow> j < f_next F))"

lemma bak_lock_neq [simp]: "bak_name n \<noteq> file_lock_name n" "file_lock_name n \<noteq> bak_name n" "bak_name n \<noteq> n" "n \<noteq> bak_name n"
proof -
  have l: "length (file_lock_name n) \<noteq> length (bak_name n)" by (simp add: file_lock_name_length bak_name_def)
  then show "bak_name n \<noteq> file_lock_name n" "file_lock_name n \<noteq> bak_name n" by metis+
qed (simp_all add: bak_name_def)

lemma backup_copies:
  assumes "can_backup S h V"
  shows "\<exists>V'. save_kb_backup S h V = (0, V') \<and> file_text (sv_fs V') (bak_name (kb_fname S h)) = file_text (sv_fs V) (kb_fname S h)"
proof -
  define fname where "fname = kb_fname S h"
  define F where "F = sv_fs V"
  obtain i where c: "f_dir F (file_lock_name fname) = None" "\<not> f_denied F fname" "\<not> f_denied F (file_lock_name fname)" "\<not> f_full F"
    "\<not> f_denied F (bak_name fname)" "f_dir F fname = Some i" "i < f_next F" "f_dir F (bak_name fname) \<noteq> Some i"
    "\<And>j. f_dir F (bak_name fname) = Some j \<Longrightarrow> j < f_next F"
    using assms by (auto simp: can_backup_def Let_def F_def fname_def split: option.splits)
  obtain F1 where L: "file_lock S fname F = (0, F1)" "f_dir F1 = (f_dir F)(file_lock_name fname \<mapsto> f_next F)"
    "f_data F1 = (f_data F)(f_next F := snprintf 20 (int_text (sys_pid S)))" "f_next F1 = f_next F + 1"
    "f_denied F1 = f_denied F" "f_full F1 = f_full F" using file_lock_effect [OF c(1,3,4), of S] by blast
  obtain src F2 where a: "fs_alloc i F1 = (src, F2)" by fastforce
  note e = fs_alloc_effect [OF a]
  have o1: "fs_open False False False fname F1 = (src, F2)" using a c L by (simp add: fs_open_def)
  define j where "j = (case f_dir F (bak_name fname) of None \<Rightarrow> f_next F2 | Some j \<Rightarrow> j)"
  define F3 where "F3 = (case f_dir F (bak_name fname) of
      None \<Rightarrow> F2\<lparr>f_dir := (f_dir F2)(bak_name fname \<mapsto> j), f_data := (f_data F2)(j := []), f_next := j + 1\<rparr>
    | Some _ \<Rightarrow> F2\<lparr>f_data := (f_data F2)(j := [])\<rparr>)"
  obtain dst F4 where b: "fs_alloc j F3 = (dst, F4)" by fastforce
  note g = fs_alloc_effect [OF b]
  have o2: "fs_open True False True (bak_name fname) F2 = (dst, F4)"
    using b c(5) e L by (simp add: fs_open_def F3_def j_def Let_def split: option.splits)
  have ji: "j \<noteq> i" using c L e by (auto simp: j_def split: option.splits)
  have D: "f_data F4 j = []" "f_data F4 i = f_data F i" "f_dir F4 (bak_name fname) = Some j" "\<not> f_full F4"
    using g e L c ji by (auto simp: F3_def j_def split: option.splits)
  have s3: "fs_slot F3 d = fs_slot F2 d" for d by (rule fs_slot_cong) (simp add: F3_def split: option.splits)
  have t: "fs_text F4 src = f_data F i"
  proof -
    have "dst \<noteq> src" using g(2) e(3) s3 by auto
    then show ?thesis using g(4) [of src] e(3) s3 D by (simp add: fs_text_def)
  qed
  obtain G where G: "copy_blocks dst (f_data F i) F4 = (True, G)" "f_data G = (f_data F4)(j := f_data F i)" "f_dir G = f_dir F4"
    using copy_blocks_effect [of F4 dst j "[]" "f_data F i"] g(3) D by auto
  define V' where "V' = V\<lparr>sv_fs := snd (file_unlock fname (fs_close dst (fs_close src G)))\<rparr>"
  have "save_kb_backup S h V = (0, V')"
    using file_locked_missing [OF c(1), of S] L(1) o1 o2 e(1) g(1) t G(1)
    by (simp add: save_kb_backup_def fname_def [symmetric] F_def [symmetric] V'_def)
  moreover have "file_text (sv_fs V') (bak_name fname) = Some (f_data F i)"
    using D G by (simp add: V'_def file_text_def file_unlock_def fs_unlink_def fs_close_effect)
  ultimately show ?thesis using c(6) by (simp add: fname_def [symmetric] F_def [symmetric] file_text_def)
qed

lemma restore_backup_effect:
  assumes "\<not> f_denied (sv_fs V) (bak_name (kb_fname S h))" and "file_text (sv_fs V) (bak_name (kb_fname S h)) = Some t"
  shows "\<exists>V'. save_kb_restore_backup S h V = (0, V') \<and> file_text (sv_fs V') (kb_fname S h) = Some t
    \<and> f_dir (sv_fs V') (bak_name (kb_fname S h)) = None"
proof -
  define fname where "fname = kb_fname S h"
  define F where "F = snd (fs_unlink fname (sv_fs V))"
  obtain i where i: "f_dir (sv_fs V) (bak_name fname) = Some i" "f_data (sv_fs V) i = t"
    using assms(2) by (auto simp: file_text_def fname_def)
  have F: "f_dir F (bak_name fname) = Some i" "f_data F i = t" "\<not> f_denied F (bak_name fname)"
    using i assms(1) by (auto simp: F_def fs_unlink_def fname_def)
  obtain fd G where a: "fs_alloc i F = (fd, G)" by fastforce
  note e = fs_alloc_effect [OF a]
  have "fs_open False False False (bak_name fname) F = (fd, G)" using a F by (simp add: fs_open_def)
  then have "save_kb_restore_backup S h V = (0, V\<lparr>sv_fs := fs_rename (bak_name fname) fname (fs_close fd G)\<rparr>)"
    using e(1) by (simp add: save_kb_restore_backup_def fname_def [symmetric] F_def [symmetric])
  then show ?thesis using F e by (simp add: fname_def [symmetric] fs_rename_def file_text_def fs_close_effect)
qed

text \<open>
  C32: restoring a backup undoes whatever happened to the file of a host since the backup, as long
  as the backup itself is not touched: the file has the text it had.
\<close>

theorem backup_restore_roundtrip:
  assumes "can_backup S h V" and "save_kb_backup S h V = (r, V1)"
    and "file_text (sv_fs V2) (bak_name (kb_fname S h)) = file_text (sv_fs V1) (bak_name (kb_fname S h))"
    and "\<not> f_denied (sv_fs V2) (bak_name (kb_fname S h))"
  shows "r = 0 \<and> (\<exists>V3. save_kb_restore_backup S h V2 = (0, V3) \<and> file_text (sv_fs V3) (kb_fname S h) = file_text (sv_fs V) (kb_fname S h))"
proof -
  have "file_text (sv_fs V) (kb_fname S h) \<noteq> None" using assms(1) by (auto simp: can_backup_def Let_def file_text_def split: option.splits)
  then obtain t where t: "file_text (sv_fs V) (kb_fname S h) = Some t" by blast
  from backup_copies [OF assms(1)] assms(2) t have r: "r = 0" "file_text (sv_fs V1) (bak_name (kb_fname S h)) = Some t" by auto
  with restore_backup_effect [OF assms(4)] assms(3) t show ?thesis by auto
qed

definition saver1 :: saver where
  "saver1 = \<lparr>sv_fs = \<lparr>f_dir = [''/k/h'' \<mapsto> 5], f_data = (\<lambda>_. ''text''), f_next = 9, f_fds = [Some (0, 0)], f_denied = (\<lambda>_. False), f_full = False\<rparr>,
     sv_fd = 0\<rparr>"

theorem backup_restore_roundtrip_witness:
  "\<exists>V1 V3. save_kb_backup sys0 ''h'' saver1 = (0, V1) \<and> save_kb_restore_backup sys0 ''h'' V1 = (0, V3)
     \<and> file_text (sv_fs V3) ''/k/h'' = Some ''text''"
proof -
  have c: "can_backup sys0 ''h'' saver1" by code_simp
  obtain r V1 where b: "save_kb_backup sys0 ''h'' saver1 = (r, V1)" by fastforce
  have d: "\<not> f_denied (sv_fs V1) (bak_name (kb_fname sys0 ''h''))"
  proof -
    have "f_denied (sv_fs (snd (save_kb_backup sys0 ''h'' saver1))) (bak_name (kb_fname sys0 ''h'')) = False" by code_simp
    with b show ?thesis by simp
  qed
  have "kb_fname sys0 ''h'' = ''/k/h''" "file_text (sv_fs saver1) ''/k/h'' = Some ''text''" by code_simp+
  with backup_restore_roundtrip [OF c b refl d] b show ?thesis by auto
qed

subsection \<open>Locks\<close>

definition same_files :: "saver \<Rightarrow> saver \<Rightarrow> bool" where
  "same_files V V' \<longleftrightarrow> f_dir (sv_fs V') = f_dir (sv_fs V) \<and> f_data (sv_fs V') = f_data (sv_fs V) \<and> sv_fd V' = sv_fd V"

lemma file_locked_alive:
  assumes "file_text F (file_lock_name name) = Some (int_text pid)" and "\<not> f_denied F (file_lock_name name)"
    and "is_int32 pid" and "process_alive S pid"
  shows "\<exists>G. file_locked S name F = (True, G) \<and> f_dir G = f_dir F \<and> f_data G = f_data F"
proof -
  obtain i where i: "f_dir F (file_lock_name name) = Some i" "f_data F i = int_text pid" using assms(1) by (auto simp: file_text_def)
  obtain fd G where a: "fs_alloc i F = (fd, G)" by fastforce
  note e = fs_alloc_effect [OF a]
  have "length (int_text pid) \<le> 11" using int_text_length assms(3) by (simp add: is_int32_def)
  then have "take 19 (fs_text G fd) = int_text pid" using e(3,6) i by (simp add: fs_text_def)
  moreover have "atoi (int_text pid) = pid" using atoi_prefix [of pid "[]"] assms(3) by simp
  moreover have "fs_open False False False (file_lock_name name) F = (fd, G)" using i a assms(2) by (simp add: fs_open_def)
  ultimately show ?thesis using e assms(4) by (simp add: file_locked_def Let_def fs_close_effect)
qed

text \<open>
  While a living process holds the lock of the file of a host, no other process changes a
  file: it is not created anew (which is reported as success, with the old descriptor in place),
  not copied, not loaded, and counts as not there.
\<close>

theorem locked_kb_untouched:
  assumes "file_text (sv_fs V) (file_lock_name (kb_fname S h)) = Some (int_text pid)"
    and "\<not> f_denied (sv_fs V) (file_lock_name (kb_fname S h))" and "is_int32 pid" and "process_alive S pid"
  shows "(\<exists>V'. save_kb_new S (Some h) V = (0, V') \<and> same_files V V') \<and> (\<exists>V'. save_kb_backup S h V = (-1, V') \<and> same_files V V')
    \<and> (\<exists>V'. save_kb_load_kb S h V = Some (None, V') \<and> same_files V V') \<and> (\<exists>V'. save_kb_exists S h V = (False, V') \<and> same_files V V')"
proof -
  obtain G where G: "file_locked S (kb_fname S h) (sv_fs V) = (True, G)" "f_dir G = f_dir (sv_fs V)" "f_data G = f_data (sv_fs V)"
    using file_locked_alive [OF assms] by blast
  then have "same_files V (V\<lparr>sv_fs := G\<rparr>)" by (simp add: same_files_def)
  then show ?thesis
    using G(1) by (simp add: save_kb_new_def save_kb_backup_def save_kb_load_kb_def save_kb_exists_def)
qed

theorem locked_kb_untouched_witness:
  "\<exists>V V'. save_kb_new sys0 (Some ''h'') saver0 = (0, V) \<and> save_kb_load_kb sys0 ''h'' V = Some (None, V') \<and> same_files V V'"
proof -
  define V where "V = snd (save_kb_new sys0 (Some ''h'') saver0)"
  have n: "fst (save_kb_new sys0 (Some ''h'') saver0) = 0" by code_simp
  have t: "file_text (sv_fs V) (file_lock_name (kb_fname sys0 ''h'')) = Some (int_text 7)"
    "\<not> f_denied (sv_fs V) (file_lock_name (kb_fname sys0 ''h''))" unfolding V_def by code_simp+
  have p: "is_int32 7" "process_alive sys0 7" by (simp_all add: is_int32_def process_alive_def sys0_def)
  from locked_kb_untouched [OF t p] n show ?thesis by (metis V_def prod.collapse)
qed

end
