(* ===== verification/HostTable.thy ===== *)
theory HostTable
  imports Ipc
begin

text \<open>
  The table of the hosts that are being tested, \<open>openvas-scanner/src/hosts.c\<close>: a list with the
  newest host first, each with the process that tests it and the socket to that process. What the
  processes send is forwarded to the client. The record \<open>hosts_table\<close> holds the list, the static
  variables of the file and of \<open>forward\<close>, and the signals that were sent.

  Which processes are alive and which sockets have data is told by a tick, one for each call that
  looks; a host is alive for the whole of such a call or not at all.
\<close>

subsection \<open>Data\<close>

record host =
  h_name :: string
  h_fd :: int
  h_psoc :: int
  h_pid :: int
  h_conn :: conn

datatype signal = SIGTERM | SIGUSR1 | SIGUSR2

record hosts_table =
  ht_list :: "host list"
  g_soc :: int
  g_max_hosts :: int
  g_conn :: conn
  fw_buf :: "string option"
  fw_sz :: int
  ht_signals :: "(int \<times> signal) list"

record htick =
  tk_alive :: "int \<Rightarrow> bool"
  tk_ready :: "int \<Rightarrow> bool"
  tk_left :: "int \<Rightarrow> bool"

subsection \<open>Forwarding\<close>

definition forward_msg :: "conn \<Rightarrow> hosts_table \<Rightarrow> int \<times> conn \<times> hosts_table" where
  "forward_msg c T =
     (let (r, c) = internal_recv c (fw_buf T) (fw_sz T) 0;
          T = T\<lparr>fw_buf := buf r, fw_sz := sz r\<rparr>
      in if ret r < 0 then (-1, c, T)
         else if has (mtype r) INTERNAL_COMM_MSG_TYPE_CTRL then (-1, c, T)
         else if \<not> has (mtype r) INTERNAL_COMM_MSG_TYPE_DATA then (-1, c, T)
         else
           let (ok, k) = (if g_soc T > 0 then conn_send (g_conn T) (case buf r of None \<Rightarrow> [] | Some b \<Rightarrow> b)
                          else (True, g_conn T));
               T = T\<lparr>g_conn := k\<rparr>
           in if \<not> ok then (-1, c, T)
              else (0, c, if fw_sz T > 65535 then T\<lparr>fw_buf := None, fw_sz := 0\<rparr> else T))"

text \<open>What is left to receive shrinks with every message.\<close>

definition rx_size :: "rx_event list \<Rightarrow> nat" where
  "rx_size q = length q + length (concat (map chunk q))"

lemma rx_size_simps [simp]: "rx_size [] = 0" "rx_size (e # q) = 1 + length (chunk e) + rx_size q"
  by (simp_all add: rx_size_def)

lemma os_recv_size: "os_recv n q = (r, q') \<Longrightarrow> rx_size q' \<le> rx_size q \<and> (n > 0 \<longrightarrow> r \<noteq> None \<longrightarrow> rx_size q' < rx_size q)"
proof (induction n q arbitrary: r q' rule: os_recv.induct)
  case (5 n c q)
  show ?case
  proof (cases "c = []")
    case True
    with "5.prems" show ?thesis by auto
  next
    case False
    define k where "k = min (Suc n) (length c)"
    define q1 where "q1 = (if k < length c then Rx (drop k c) # q else q)"
    obtain r1 q2 where r1: "os_recv (Suc n - k) q1 = (r1, q2)" by fastforce
    have q': "q' = q2" using "5.prems" False r1 by (auto simp: k_def [symmetric] q1_def [symmetric] Let_def)
    have "0 < k" using False by (simp add: k_def)
    then have "rx_size q1 < rx_size (Rx c # q)" by (auto simp: q1_def)
    moreover have "rx_size q2 \<le> rx_size q1" using "5.IH" [OF False k_def, folded q1_def, OF r1] by blast
    ultimately show ?thesis using q' by auto
  qed
qed auto

lemma conn_recv_size:
  "conn_recv c n = (r, c') \<Longrightarrow> rx_size (rx c') \<le> rx_size (rx c) \<and> (n > 0 \<longrightarrow> r \<noteq> None \<longrightarrow> rx_size (rx c') < rx_size (rx c))"
  using os_recv_size [of n "rx c"] by (auto simp: conn_recv_def split: prod.splits)

lemma conn_send_rx: "conn_send c bs = (ok, c') \<Longrightarrow> rx c' = rx c"
  by (auto simp: conn_send_def split: prod.splits)

lemma recv_ack_rx: "recv_ack c r = (r', c') \<Longrightarrow> rx c' = rx c"
  using conn_send_rx by (auto simp: recv_ack_def split: prod.splits)

lemma internal_recv_size:
  assumes "internal_recv c d z t = (r, c')" and "\<not> ret r < 0"
  shows "rx_size (rx c') < rx_size (rx c)"
proof -
  obtain r1 c1 where r1: "conn_recv c 4 = (r1, c1)" by fastforce
  have "r1 \<noteq> None" using assms r1 by (auto simp: internal_recv_def recv_error_def Let_def split: prod.splits option.splits)
  then have s1: "rx_size (rx c1) < rx_size (rx c)" using conn_recv_size [OF r1] by simp
  obtain r2 c2 where r2: "conn_recv c1 4 = (r2, c2)" by fastforce
  have s2: "rx_size (rx c2) \<le> rx_size (rx c1)" using conn_recv_size [OF r2] by blast
  have s3: "rx_size (rx c3) \<le> rx_size (rx c2)" if "conn_recv c2 n = (r3, c3)" for n r3 c3 using conn_recv_size [OF that] by blast
  show ?thesis
    using assms(1) s1 s2 r1 r2 recv_ack_rx
    by (auto simp: internal_recv_def Let_def split: prod.splits option.splits if_splits dest!: s3; fastforce)
qed

lemma forward_size: "forward_msg c T = (0, c', T') \<Longrightarrow> rx_size (rx c') < rx_size (rx c)"
  using internal_recv_size [of c "fw_buf T" "fw_sz T" 0] by (auto simp: forward_msg_def Let_def split: prod.splits if_splits)

function forward_all :: "conn \<Rightarrow> hosts_table \<Rightarrow> conn \<times> hosts_table" where
  "forward_all c T =
     (case forward_msg c T of (e, c', T') \<Rightarrow> if e = 0 then forward_all c' T' else (c', T'))"
  by pat_completeness auto
termination
  by (relation "measure (\<lambda>(c, T). rx_size (rx c))") (auto dest!: forward_size [OF sym])

declare forward_all.simps [simp del]

subsection \<open>The list\<close>

definition host_rm :: "nat \<Rightarrow> hosts_table \<Rightarrow> hosts_table" where
  "host_rm i T =
     (let (_, T) = forward_all (h_conn (ht_list T ! i)) T
      in T\<lparr>ht_list := take i (ht_list T) @ drop (i + 1) (ht_list T)\<rparr>)"

definition hosts_num :: "hosts_table \<Rightarrow> int" where
  "hosts_num T = int (length (ht_list T))"

fun find_host :: "(host \<Rightarrow> bool) \<Rightarrow> host list \<Rightarrow> nat option" where
  "find_host P [] = None"
| "find_host P (h # hs) = (if P h then Some 0 else map_option Suc (find_host P hs))"

definition hosts_get :: "string \<Rightarrow> hosts_table \<Rightarrow> nat option" where
  "hosts_get name T = find_host (\<lambda>h. h_name h = name) (ht_list T)"

definition hosts_init :: "int \<Rightarrow> int \<Rightarrow> hosts_table \<Rightarrow> hosts_table" where
  "hosts_init soc max_hosts T = T\<lparr>g_soc := soc, g_max_hosts := max_hosts\<rparr>"

definition hosts_set_pid :: "string \<Rightarrow> int \<Rightarrow> hosts_table \<Rightarrow> int \<times> hosts_table" where
  "hosts_set_pid name pid T =
     (case hosts_get name T of
        None \<Rightarrow> (-1, T)
      | Some i \<Rightarrow> (0, T\<lparr>ht_list := (ht_list T)[i := (ht_list T ! i)\<lparr>h_pid := pid, h_psoc := 0\<rparr>]\<rparr>))"

text \<open>After \<open>shutdown\<close> the next call of \<open>send\<close> fails, while data that has arrived can be read.\<close>

definition shutdown_conn :: "conn \<Rightarrow> conn" where
  "shutdown_conn c = c\<lparr>tx := [Tx_fail]\<rparr>"

definition hosts_stop_host :: "string \<Rightarrow> hosts_table \<Rightarrow> int \<times> hosts_table" where
  "hosts_stop_host name T =
     (case hosts_get name T of
        None \<Rightarrow> (-1, T)
      | Some i \<Rightarrow>
          let h = ht_list T ! i;
              T = T\<lparr>ht_list := (ht_list T)[i := h\<lparr>h_conn := shutdown_conn (h_conn h)\<rparr>],
                    ht_signals := ht_signals T @ [(h_pid h, SIGTERM)]\<rparr>
          in (0, host_rm i T))"

lemma forward_msg_list: "forward_msg c T = (e, c', T') \<Longrightarrow> ht_list T' = ht_list T \<and> ht_signals T' = ht_signals T
    \<and> g_soc T' = g_soc T \<and> g_max_hosts T' = g_max_hosts T"
  by (auto simp: forward_msg_def Let_def split: prod.splits if_splits)

lemma forward_all_list: "forward_all c T = (c', T') \<Longrightarrow> ht_list T' = ht_list T \<and> ht_signals T' = ht_signals T
    \<and> g_soc T' = g_soc T \<and> g_max_hosts T' = g_max_hosts T"
proof (induction c T arbitrary: c' T' rule: forward_all.induct)
  case (1 c T)
  obtain e c1 T1 where f: "forward_msg c T = (e, c1, T1)" by (metis prod_cases3)
  note l = forward_msg_list [OF f]
  show ?case
  proof (cases "e = 0")
    case True
    with "1.prems" f have "forward_all c1 T1 = (c', T')" by (simp add: forward_all.simps [of c T])
    with "1.IH" [OF f [symmetric] refl True] l show ?thesis by simp
  next
    case False
    with "1.prems" f l show ?thesis by (simp add: forward_all.simps [of c T])
  qed
qed

lemma host_rm_list:
  "ht_list (host_rm i T) = take i (ht_list T) @ drop (i + 1) (ht_list T)" "ht_signals (host_rm i T) = ht_signals T"
  "g_soc (host_rm i T) = g_soc T" "g_max_hosts (host_rm i T) = g_max_hosts T"
  using forward_all_list by (auto simp: host_rm_def Let_def split: prod.splits)

lemma find_host_Some: "find_host P hs = Some i \<Longrightarrow> i < length hs \<and> P (hs ! i) \<and> (\<forall>j < i. \<not> P (hs ! j))"
  by (induction hs arbitrary: i) (auto simp: less_Suc_eq_0_disj split: if_splits)

lemma find_host_None: "find_host P hs = None \<longleftrightarrow> (\<forall>h \<in> set hs. \<not> P h)"
  by (induction hs) auto

lemma stop_host_list:
  assumes "hosts_get name T = Some i"
  shows "ht_list (snd (hosts_stop_host name T)) = take i (ht_list T) @ drop (i + 1) (ht_list T)"
    "ht_signals (snd (hosts_stop_host name T)) = ht_signals T @ [(h_pid (ht_list T ! i), SIGTERM)]"
    "g_soc (snd (hosts_stop_host name T)) = g_soc T" "g_max_hosts (snd (hosts_stop_host name T)) = g_max_hosts T"
  using assms by (simp_all add: hosts_stop_host_def Let_def host_rm_list)

lemma hosts_get_first: "ht_list T = h # hs \<Longrightarrow> hosts_get (h_name h) T = Some 0"
  by (simp add: hosts_get_def)

function hosts_stop_all :: "hosts_table \<Rightarrow> hosts_table" where
  "hosts_stop_all T =
     (case ht_list T of [] \<Rightarrow> T | h # _ \<Rightarrow> hosts_stop_all (snd (hosts_stop_host (h_name h) T)))"
  by pat_completeness auto
termination
  by (relation "measure (\<lambda>T. length (ht_list T))") (auto simp: stop_host_list [OF hosts_get_first])

declare hosts_stop_all.simps [simp del]

definition hosts_pause_all :: "hosts_table \<Rightarrow> hosts_table" where
  "hosts_pause_all T = T\<lparr>ht_signals := ht_signals T @ map (\<lambda>h. (h_pid h, SIGUSR1)) (ht_list T)\<rparr>"

definition hosts_resume_all :: "hosts_table \<Rightarrow> hosts_table" where
  "hosts_resume_all T = T\<lparr>ht_signals := ht_signals T @ map (\<lambda>h. (h_pid h, SIGUSR2)) (ht_list T)\<rparr>"

subsection \<open>Reading from the processes\<close>

text \<open>The first loop of \<open>hosts_read_data\<close>: it starts again after each host that is removed.\<close>

function reap :: "(int \<Rightarrow> bool) \<Rightarrow> hosts_table \<Rightarrow> hosts_table" where
  "reap alv T =
     (case find_host (\<lambda>h. \<not> alv (h_pid h)) (ht_list T) of
        None \<Rightarrow> T
      | Some i \<Rightarrow> reap alv (host_rm i T))"
  by pat_completeness auto
termination
  by (relation "measure (\<lambda>(a, T). length (ht_list T))") (auto simp: host_rm_list dest!: find_host_Some)

declare reap.simps [simp del]

definition read_host :: "htick \<Rightarrow> int \<times> hosts_table \<Rightarrow> nat \<Rightarrow> int \<times> hosts_table" where
  "read_host tk x i =
     (let (r, T) = x; h = ht_list T ! i in
      if tk_ready tk (h_fd h) \<and> tk_left tk (h_fd h)
      then
        let (e, c, T) = forward_msg (h_conn h) T in
        (if e = 0 then r + 1 else r, T\<lparr>ht_list := (ht_list T)[i := h\<lparr>h_conn := c\<rparr>]\<rparr>)
      else (r, T))"

definition hosts_read_data :: "htick \<Rightarrow> hosts_table \<Rightarrow> int \<times> hosts_table" where
  "hosts_read_data tk T =
     (if ht_list T = [] then (0, T)
      else
        let T = reap (tk_alive tk) T in
        if \<not> list_ex (\<lambda>h. tk_ready tk (h_fd h)) (ht_list T) then (-1, T)
        else foldl (read_host tk) (0, T) [0..<length (ht_list T)])"

end
