(* ===== verification/Client.thy ===== *)
theory Client
  imports HostTable Preferences SaveKb "HOL-Library.List_Lexorder"
begin

text \<open>
  Requests of the client, \<open>openvas-scanner/src/ntp.c\<close>, \<open>otp.c\<close> and the choice of plugins in
  \<open>comm.c\<close>. The client is the text that it has sent and that is not read yet; after its end the
  connection is closed. The record \<open>scan\<close> holds what the requests change: the table of hosts, the
  preferences and the name cache, the values of the globals, the plugins and the uploaded files.
  Requests that are answered from the list of plugins leave a mark only.

  A request may end the process, read memory that was never written, or wait for ever; a call that
  waits for processes may not have returned at the end of the ticks.
\<close>

subsection \<open>Data\<close>

datatype 'a reply = Exited | Unspecified | Hangs | Returned 'a

datatype client_request =
    CREQ_ATTACHED_FILE | CREQ_LONG_ATTACK | CREQ_OPENVAS_VERSION | CREQ_PLUGIN_INFO | CREQ_PREFERENCES
  | CREQ_STOP_ATTACK | CREQ_STOP_WHOLE_TEST | CREQ_PAUSE_WHOLE_TEST | CREQ_RESUME_WHOLE_TEST | CREQ_NVT_INFO
  | CREQ_UNKNOWN

datatype answer = Ans_version | Ans_plugin_info string | Ans_nvt_info | Ans_file_accepted | Ans_interrupted string

definition NTP_STOP_WHOLE_TEST :: int where "NTP_STOP_WHOLE_TEST = 2"
definition NTP_PAUSE_WHOLE_TEST :: int where "NTP_PAUSE_WHOLE_TEST = 3"
definition NTP_RESUME_WHOLE_TEST :: int where "NTP_RESUME_WHOLE_TEST = 4"

text \<open>A login account, and the key files with accounts, which GLib parses.\<close>

record ssh_login =
  username :: "string option"
  userpassword :: "string option"
  public_key_path :: "string option"
  private_key_path :: "string option"
  ssh_key_passphrase :: "string option"

record keyfiles =
  kf_gsh :: "string \<Rightarrow> u32"
  kf_hosts :: "string \<Rightarrow> (string \<times> string) list option"
  kf_logins :: "string \<Rightarrow> (string \<times> ssh_login) list option"

record scan =
  sc_hosts :: hosts_table
  sc_prefs :: prefs
  sc_cache :: name_cache
  sc_in :: string
  sc_plugins :: "plugin_arg list"
  sc_stop :: nat
  sc_status :: "string option"
  sc_files :: "string \<Rightarrow> string option"
  sc_sizes :: "string \<Rightarrow> string option"
  sc_host_logins :: "(string \<times> string) list option"
  sc_logins :: "(string \<times> ssh_login) list option"
  sc_answers :: "answer list"
  sc_errors :: "string list"

subsection \<open>Lines\<close>

text \<open>
  \<open>recv_line\<close> with a buffer of \<open>n\<close> bytes: the number of bytes, the text in the buffer, the rest.
  When the connection ends within a line the text is not terminated, and the result is None.
\<close>

definition recv_line :: "nat \<Rightarrow> string \<Rightarrow> (int \<times> string \<times> string) option" where
  "recv_line n s =
     (let body = takeWhile (\<lambda>c. c \<noteq> CHR 0x00 \<and> c \<noteq> CHR 0x0A) (take n s); k = length body in
      if k = n then Some (int n, butlast body, drop n s)
      else if k = length s then (if s = [] then Some (0, [], []) else None)
      else Some (int k + 1, if s ! k = CHR 0x00 \<or> k + 1 = n then body else body @ [CHR 0x0A], drop (k + 1) s))"

lemma recv_line_shorter:
  assumes "recv_line n s = Some (k, t, r)" and "t \<noteq> []"
  shows "length r < length s"
proof -
  define body where "body = takeWhile (\<lambda>c. c \<noteq> CHR 0x00 \<and> c \<noteq> CHR 0x0A) (take n s)"
  have "length body \<le> length (take n s)" unfolding body_def by (rule length_takeWhile_le)
  then have "length body \<le> length s" "s = [] \<Longrightarrow> body = []" by auto
  then show ?thesis
    using assms unfolding recv_line_def body_def [symmetric] by (cases "s = []"; cases "body = []") (auto simp: Let_def split: if_splits)
qed

subsection \<open>Preferences\<close>

definition PREFS_LINE :: nat where "PREFS_LINE = 2097151"

text \<open>One line \<open>name <|> value\<close>: None when the text has another form that is not handled.\<close>

definition read_pref :: "(string \<Rightarrow> u32) \<Rightarrow> string \<Rightarrow> name_cache \<times> prefs \<Rightarrow> (name_cache \<times> prefs) option" where
  "read_pref gsh input st =
     (case str_cut (CHR ''<'') input of
        None \<Rightarrow> Some st
      | Some (a, b) \<Rightarrow>
          if a = [] then None
          else
            let pref = butlast a; (c, prefs) = st in
            if is_scanner_only_pref (Some pref) \<noteq> 0 then Some st
            else if length b < 3 then None
            else
              let value = butlast (drop 3 b) in
              (case arg_get_value gsh prefs pref of
                 A_null \<Rightarrow> Some (arg_add_value gsh c prefs pref ARG_STRING (int (length value)) (A_str value))
               | A_str old \<Rightarrow>
                   if old = value then Some st
                   else Some (c, snd (arg_set_value gsh prefs (Some pref) (int (length value)) (A_str value)))
               | _ \<Rightarrow> None))"

function ntp_read_prefs :: "(string \<Rightarrow> u32) \<Rightarrow> string \<Rightarrow> name_cache \<times> prefs \<Rightarrow> (string \<times> name_cache \<times> prefs) reply" where
  "ntp_read_prefs gsh s st =
     (case recv_line PREFS_LINE s of
        None \<Rightarrow> Unspecified
      | Some (n, input, rest) \<Rightarrow>
          if n < 0 \<or> input = [] then Exited
          else if strstr input ''<|> CLIENT'' \<noteq> None then Returned (rest, st)
          else case read_pref gsh input st of
                 None \<Rightarrow> Unspecified
               | Some st' \<Rightarrow> ntp_read_prefs gsh rest st')"
  by pat_completeness auto
termination
  by (relation "measure (\<lambda>(gsh, s, st). length s)") (auto dest: recv_line_shorter)

declare ntp_read_prefs.simps [simp del]

subsection \<open>Choice of plugins\<close>

text \<open>\<open>strcmp\<close>: the sign of the first difference.\<close>

fun strcmp :: "string \<Rightarrow> string \<Rightarrow> int" where
  "strcmp [] [] = 0"
| "strcmp [] (d # t) = -1"
| "strcmp (c # s) [] = 1"
| "strcmp (c # s) (d # t) = (if c = d then strcmp s t else if ccode c < ccode d then -1 else 1)"

text \<open>The search in the part of the array from \<open>start\<close> to \<open>end\<close>; the array holds indices of plugins.\<close>

function get_plug_by_oid_range :: "(nat \<Rightarrow> string) \<Rightarrow> string \<Rightarrow> nat \<Rightarrow> nat \<Rightarrow> nat \<Rightarrow> nat option" where
  "get_plug_by_oid_range oid_at oid start fin rend =
     (if start \<ge> rend then None
      else if start \<ge> fin then (if start = fin \<and> oid_at start = oid then Some start else None)
      else
        let mid = (start + fin) div 2; r = strcmp (oid_at mid) oid in
        if r > 0 then get_plug_by_oid_range oid_at oid start mid rend
        else if r < 0 then get_plug_by_oid_range oid_at oid (mid + 1) fin rend
        else Some mid)"
  by pat_completeness auto
termination
  by (relation "measure (\<lambda>(oid_at, oid, start, fin, rend). fin - start)") auto

declare get_plug_by_oid_range.simps [simp del]

definition get_plug_by_oid :: "(nat \<Rightarrow> string) \<Rightarrow> string \<Rightarrow> nat \<Rightarrow> nat option" where
  "get_plug_by_oid oid_at oid num_plugins = get_plug_by_oid_range oid_at oid 0 num_plugins num_plugins"

text \<open>\<open>strtok (list, ";")\<close>: the pieces that are not empty.\<close>

fun pieces :: "char \<Rightarrow> string \<Rightarrow> string \<Rightarrow> string list" where
  "pieces sep acc [] = (if acc = [] then [] else [acc])"
| "pieces sep acc (c # s) =
     (if c = sep then (if acc = [] then pieces sep [] s else acc # pieces sep [] s) else pieces sep (acc @ [c]) s)"

definition set_launch :: "nat \<Rightarrow> int \<Rightarrow> plugin_arg list \<Rightarrow> plugin_arg list" where
  "set_launch i v ps = ps[i := (ps ! i)\<lparr>pa_launch := v\<rparr>]"

text \<open>None: a plugin without OID is compared.\<close>

definition comm_setup_plugins :: "string option \<Rightarrow> plugin_arg list \<Rightarrow> plugin_arg list option" where
  "comm_setup_plugins lst ps =
     (let lst = (case lst of None \<Rightarrow> ''-1;'' | Some l \<Rightarrow> l);
          enable = (if atoi lst = -1 then LAUNCH_RUN else LAUNCH_DISABLED);
          ps = map (\<lambda>p. p\<lparr>pa_launch := enable\<rparr>) ps
      in if ps = [] \<or> enable \<noteq> 0 then Some ps
         else if list_ex (\<lambda>p. pa_oid p = None) ps then None
         else
           let array = sort_key (\<lambda>i. map ccode (the (pa_oid (ps ! i)))) [0..<length ps]
           in Some (foldl (\<lambda>qs oid.
                 case get_plug_by_oid (\<lambda>k. the (pa_oid (ps ! (array ! k)))) oid (length ps) of
                   None \<Rightarrow> qs
                 | Some k \<Rightarrow> set_launch (array ! k) LAUNCH_RUN qs) ps (pieces (CHR '';'') [] lst)))"

subsection \<open>Start of a scan and files\<close>

definition sc_read :: "nat \<Rightarrow> scan \<Rightarrow> (int \<times> string \<times> scan) option" where
  "sc_read n S = map_option (\<lambda>(k, t, r). (k, t, S\<lparr>sc_in := r\<rparr>)) (recv_line n (sc_in S))"

definition set_pref :: "(string \<Rightarrow> u32) \<Rightarrow> string \<Rightarrow> string \<Rightarrow> scan \<Rightarrow> scan" where
  "set_pref gsh name v S =
     (if arg_get_value gsh (sc_prefs S) name = A_null
      then let (c, p) = arg_add_value gsh (sc_cache S) (sc_prefs S) name ARG_STRING (int (length v)) (A_str v)
           in S\<lparr>sc_cache := c, sc_prefs := p\<rparr>
      else S\<lparr>sc_prefs := snd (arg_set_value gsh (sc_prefs S) (Some name) (int (length v)) (A_str v))\<rparr>)"

definition ntp_long_attack :: "(string \<Rightarrow> u32) \<Rightarrow> scan \<Rightarrow> (int \<times> scan) reply" where
  "ntp_long_attack gsh S =
     (case sc_read 16383 S of
        None \<Rightarrow> Unspecified
      | Some (n, input, S) \<Rightarrow>
          if n \<le> 0 then Returned (-1, S)
          else if input = ''<|> CLIENT'' then Returned (1, S)
          else
            let size = atoi input in
            if size < 0 then Unspecified
            else if int (length (sc_in S)) < size then Returned (-1, S\<lparr>sc_in := []\<rparr>)
            else
              let target = takeWhile (\<lambda>c. c \<noteq> CHR 0x00) (take (nat size) (sc_in S));
                  S = S\<lparr>sc_in := drop (nat size) (sc_in S)\<rparr>;
                  S = (case pref_str gsh (sc_prefs S) ''plugin_set'' of
                         None \<Rightarrow> set_pref gsh ''plugin_set'' ''-1'' S
                       | Some v \<Rightarrow> if v = [] then set_pref gsh ''plugin_set'' ''-1'' S else S)
              in case comm_setup_plugins (pref_str gsh (sc_prefs S) ''plugin_set'') (sc_plugins S) of
                   None \<Rightarrow> Unspecified
                 | Some ps \<Rightarrow> Returned (0, set_pref gsh ''TARGET'' target (S\<lparr>sc_plugins := ps\<rparr>)))"

text \<open>
  An upload. An upload of no bytes fails, because no memory is allocated for it; when the
  connection ends before all bytes have come, the loop does not end. The files with accounts are
  read up to a NUL, which nothing adds after the bytes of the file.
\<close>

definition ntp_recv_file :: "keyfiles \<Rightarrow> scan \<Rightarrow> (int \<times> scan) reply" where
  "ntp_recv_file K S =
     (case sc_read 4095 S of
        None \<Rightarrow> Unspecified
      | Some (n, input, S) \<Rightarrow>
          if n \<le> 0 then Returned (-1, S)
          else if \<not> starts ''name: '' input then Returned (-1, S)
          else
            let origname = drop 6 input;
                name = (if last origname = CHR 0x0A then butlast origname else origname)
            in if origname = [] then Unspecified
               else case sc_read 4095 S of
                 None \<Rightarrow> Unspecified
               | Some (n, _, S) \<Rightarrow>
                   if n \<le> 0 then Returned (-1, S)
                   else case sc_read 4095 S of
                     None \<Rightarrow> Unspecified
                   | Some (n, input, S) \<Rightarrow>
                       if n \<le> 0 then Returned (-1, S)
                       else if \<not> starts ''bytes: '' input then Returned (-1, S)
                       else
                         let bytes = fst (strtol 10 (drop 7 input)) in
                         if bytes \<le> 0 then Returned (-1, S)
                         else if int (length (sc_in S)) < bytes then Hangs
                         else
                           let contents = take (nat bytes) (sc_in S);
                               base = rev (takeWhile (\<lambda>c. c \<noteq> CHR ''/'') (rev name));
                               S = S\<lparr>sc_in := drop (nat bytes) (sc_in S), sc_answers := sc_answers S @ [Ans_file_accepted],
                                     sc_files := (sc_files S)(name \<mapsto> contents),
                                     sc_sizes := (sc_sizes S)(name \<mapsto> int_text bytes)\<rparr>
                           in if base = ''.host_sshlogins'' \<or> base = ''.logins'' then
                                (case str_cut (CHR 0x00) contents of
                                   None \<Rightarrow> Unspecified
                                 | Some (text, _) \<Rightarrow>
                                     Returned (0,
                                       if base = ''.host_sshlogins''
                                       then (case kf_hosts K text of None \<Rightarrow> S | Some m \<Rightarrow> S\<lparr>sc_host_logins := Some m\<rparr>)
                                       else (case kf_logins K text of None \<Rightarrow> S | Some m \<Rightarrow> S\<lparr>sc_logins := Some m\<rparr>)))
                              else Returned (0, S))"

subsection \<open>Requests\<close>

definition otp_get_client_request :: "string \<Rightarrow> client_request" where
  "otp_get_client_request str =
     (if str = ''ATTACHED_FILE'' then CREQ_ATTACHED_FILE
      else if str = ''LONG_ATTACK'' then CREQ_LONG_ATTACK
      else if str = ''OPENVASSD_VERSION'' then CREQ_OPENVAS_VERSION
      else if str = ''PLUGIN_INFO'' then CREQ_PLUGIN_INFO
      else if str = ''PREFERENCES'' then CREQ_PREFERENCES
      else if str = ''STOP_ATTACK'' then CREQ_STOP_ATTACK
      else if str = ''STOP_WHOLE_TEST'' then CREQ_STOP_WHOLE_TEST
      else if str = ''PAUSE_WHOLE_TEST'' then CREQ_PAUSE_WHOLE_TEST
      else if str = ''RESUME_WHOLE_TEST'' then CREQ_RESUME_WHOLE_TEST
      else if str = ''NVT_INFO'' then CREQ_NVT_INFO
      else CREQ_UNKNOWN)"

definition answer_with :: "answer \<Rightarrow> scan \<Rightarrow> scan" where
  "answer_with a S = S\<lparr>sc_answers := sc_answers S @ [a]\<rparr>"

text \<open>The switch; \<open>str\<close> is the text after the name of the request and one space, if there is a space.\<close>

definition client_command ::
  "keyfiles \<Rightarrow> client_request \<Rightarrow> string option \<Rightarrow> scan \<Rightarrow> (int \<times> scan) reply" where
  "client_command K req str S =
     (case req of
        CREQ_ATTACHED_FILE \<Rightarrow>
          (case ntp_recv_file K S of
             Returned (_, S) \<Rightarrow> Returned (1, S) | Exited \<Rightarrow> Exited | Unspecified \<Rightarrow> Unspecified | Hangs \<Rightarrow> Hangs)
      | CREQ_LONG_ATTACK \<Rightarrow> ntp_long_attack (kf_gsh K) S
      | CREQ_OPENVAS_VERSION \<Rightarrow> Returned (1, answer_with Ans_version S)
      | CREQ_PAUSE_WHOLE_TEST \<Rightarrow> Returned (NTP_PAUSE_WHOLE_TEST, S\<lparr>sc_hosts := hosts_pause_all (sc_hosts S)\<rparr>)
      | CREQ_PLUGIN_INFO \<Rightarrow>
          (case str of
             None \<Rightarrow> Unspecified
           | Some t \<Rightarrow>
               (case strstr t '' <|> '' of
                  None \<Rightarrow> Returned (-1, S)
                | Some (_, b) \<Rightarrow> Returned (1, answer_with (Ans_plugin_info (drop 5 b)) S)))
      | CREQ_PREFERENCES \<Rightarrow>
          (case ntp_read_prefs (kf_gsh K) (sc_in S) (sc_cache S, sc_prefs S) of
             Returned (r, c, p) \<Rightarrow> Returned (1, S\<lparr>sc_in := r, sc_cache := c, sc_prefs := p\<rparr>)
           | Exited \<Rightarrow> Exited | Unspecified \<Rightarrow> Unspecified | Hangs \<Rightarrow> Hangs)
      | CREQ_RESUME_WHOLE_TEST \<Rightarrow>
          Returned (NTP_RESUME_WHOLE_TEST, S\<lparr>sc_hosts := hosts_resume_all (sc_hosts S), sc_stop := sc_stop S - 1\<rparr>)
      | CREQ_STOP_WHOLE_TEST \<Rightarrow>
          Returned (NTP_STOP_WHOLE_TEST, S\<lparr>sc_stop := sc_stop S + 1, sc_hosts := hosts_stop_all (sc_hosts S)\<rparr>)
      | CREQ_STOP_ATTACK \<Rightarrow>
          (case str of
             None \<Rightarrow> Unspecified
           | Some t \<Rightarrow>
               if length t < 4 then Unspecified
               else
                 (case strstr (drop 4 t) '' <|> '' of
                    None \<Rightarrow> Returned (-1, S)
                  | Some (s, _) \<Rightarrow>
                      Returned (1, answer_with (Ans_interrupted s)
                        (S\<lparr>sc_hosts := snd (hosts_stop_host s (sc_hosts S)), sc_stop := sc_stop S + 1\<rparr>))))
      | CREQ_NVT_INFO \<Rightarrow> Returned (1, answer_with Ans_nvt_info S)
      | CREQ_UNKNOWN \<Rightarrow> Returned (1, S))"

definition ntp_parse_input :: "keyfiles \<Rightarrow> string \<Rightarrow> scan \<Rightarrow> (int \<times> scan) reply" where
  "ntp_parse_input K input S =
     (case strstr input '' <|> '' of
        None \<Rightarrow> Returned (1, S)
      | Some (a, b) \<Rightarrow>
          if a \<noteq> ''CLIENT'' then Returned (1, S)
          else
            let (cmd, str) = (case str_cut (CHR '' '') (drop 5 b) of
                                None \<Rightarrow> (drop 5 b, None)
                              | Some (x, y) \<Rightarrow> (x, Some y));
                cmd = (if cmd \<noteq> [] \<and> last cmd = CHR 0x0A then butlast cmd else cmd)
            in client_command K (otp_get_client_request cmd) str S)"

subsection \<open>Reading from client and processes\<close>

text \<open>What the client does at a moment: nothing, a broken connection, or data to read.\<close>

datatype client_event = Client_quiet | Client_lost | Client_data

definition hosts_read_client :: "keyfiles \<Rightarrow> client_event \<Rightarrow> scan \<Rightarrow> (int \<times> scan) reply" where
  "hosts_read_client K ev S =
     (if g_soc (sc_hosts S) = -1 then Returned (0, S)
      else
        case ev of
          Client_lost \<Rightarrow> Returned (-1, S)
        | Client_quiet \<Rightarrow> Returned (0, S)
        | Client_data \<Rightarrow>
            (case sc_read 4095 S of
               None \<Rightarrow> Unspecified
             | Some (n, ln, S) \<Rightarrow>
                 if n \<le> 0 then Returned (-1, S)
                 else
                   (case ntp_parse_input K ln S of
                      Exited \<Rightarrow> Exited | Unspecified \<Rightarrow> Unspecified | Hangs \<Rightarrow> Hangs
                    | Returned (f, S) \<Rightarrow>
                        if f = NTP_STOP_WHOLE_TEST then Returned (-1, S)
                        else if f = NTP_PAUSE_WHOLE_TEST then Returned (0, S\<lparr>sc_hosts := hosts_pause_all (sc_hosts S)\<rparr>)
                        else if f = NTP_RESUME_WHOLE_TEST then Returned (0, S\<lparr>sc_hosts := hosts_resume_all (sc_hosts S)\<rparr>)
                        else Returned (0, S))))"

definition hosts_read :: "keyfiles \<Rightarrow> client_event \<Rightarrow> htick \<Rightarrow> scan \<Rightarrow> (int \<times> scan) reply" where
  "hosts_read K ev tk S =
     (case hosts_read_client K ev S of
        Exited \<Rightarrow> Exited | Unspecified \<Rightarrow> Unspecified | Hangs \<Rightarrow> Hangs
      | Returned (e, S) \<Rightarrow>
          if e < 0 then Returned (-1, S\<lparr>sc_hosts := hosts_stop_all (sc_hosts S)\<rparr>)
          else if ht_list (sc_hosts S) = [] then Returned (-1, S)
          else Returned (0, S\<lparr>sc_hosts := snd (hosts_read_data tk (sc_hosts S))\<rparr>))"

subsection \<open>A new host\<close>

record hsock =
  hs_fd0 :: int
  hs_fd1 :: int
  hs_conn :: conn

type_synonym moment = "client_event \<times> htick"

definition hosts_add :: "string \<Rightarrow> hsock option \<Rightarrow> hosts_table \<Rightarrow> int \<times> hosts_table" where
  "hosts_add name pair T =
     (case pair of
        None \<Rightarrow> (-1, T)
      | Some s \<Rightarrow>
          (hs_fd0 s, T\<lparr>ht_list := \<lparr>h_name = name, h_fd = hs_fd1 s, h_psoc = hs_fd0 s, h_pid = 0, h_conn = hs_conn s\<rparr> # ht_list T\<rparr>))"

fun hosts_new :: "keyfiles \<Rightarrow> hsock option \<Rightarrow> string \<Rightarrow> moment list \<Rightarrow> scan \<Rightarrow> (int \<times> scan \<times> moment list) reply" where
  "hosts_new K pair name ms S =
     (if hosts_num (sc_hosts S) \<ge> g_max_hosts (sc_hosts S)
      then
        case ms of
          [] \<Rightarrow> Hangs
        | m # ms \<Rightarrow>
            (case hosts_read K (fst m) (snd m) S of
               Exited \<Rightarrow> Exited | Unspecified \<Rightarrow> Unspecified | Hangs \<Rightarrow> Hangs
             | Returned (e, S) \<Rightarrow> if e < 0 then Returned (-1, S, ms) else hosts_new K pair name ms S)
      else let (s, T) = hosts_add name pair (sc_hosts S) in Returned (s, S\<lparr>sc_hosts := T\<rparr>, ms))"

declare hosts_new.simps [simp del]

text \<open>The loop at the end of a scan: \<open>while (hosts_read (globals) == 0);\<close>\<close>

fun wait_hosts :: "keyfiles \<Rightarrow> moment list \<Rightarrow> scan \<Rightarrow> (scan \<times> moment list) reply" where
  "wait_hosts K [] S = Hangs"
| "wait_hosts K (m # ms) S =
     (case hosts_read K (fst m) (snd m) S of
        Exited \<Rightarrow> Exited | Unspecified \<Rightarrow> Unspecified | Hangs \<Rightarrow> Hangs
      | Returned (e, S) \<Rightarrow> if e = 0 then wait_hosts K ms S else Returned (S, ms))"

end
