(* ===== verification/AttackNetwork.thy ===== *)
theory AttackNetwork
  imports Client Attack Hosts
begin

text \<open>
  The scan of all targets, \<open>attack_network\<close> of \<open>openvas-scanner/src/attack.c\<close>, with the checks of
  interfaces and hosts. The process that runs it forks a process for each host and serves the
  client meanwhile; \<open>net_run\<close> is its state, with the log of the processes it has forked, and
  \<open>net_env\<close> what the libraries and the system answer.

  With a scan of the network the function calls itself for the hosts after the first phase, so that
  it is a partial function: None is a call that does not return.
\<close>

subsection \<open>Data\<close>

record net_env =
  n_lib :: netlib
  n_keys :: keyfiles
  n_rnd :: "nat \<Rightarrow> nat"
  n_ifs :: "ifaddr list option"
  n_max_hosts :: int
  n_soc :: int
  n_local :: "in6_addr \<Rightarrow> bool"
  n_mac :: "in6_addr \<Rightarrow> int \<times> string option"
  n_pair :: "nat \<Rightarrow> hsock option"
  n_fork :: "nat \<Rightarrow> int"
  n_dirname :: "string \<Rightarrow> string"
  n_build :: "string \<Rightarrow> string \<Rightarrow> string"
  n_nvti :: "string \<Rightarrow> nvti"

record forked =
  fk_host :: openvas_host
  fk_ip :: in6_addr
  fk_mac :: "string option"
  fk_soc :: int
  fk_pid :: int
  fk_sched :: "plugins_scheduler option"

record net_run =
  nr_scan :: scan
  nr_source :: source
  nr_retries :: nat
  nr_tries :: nat
  nr_pairs :: nat
  nr_forks :: "forked list"
  nr_moments :: "moment list"

abbreviation n_gsh :: "net_env \<Rightarrow> string \<Rightarrow> u32" where
  "n_gsh E \<equiv> kf_gsh (n_keys E)"

abbreviation nr_prefs :: "net_run \<Rightarrow> prefs" where
  "nr_prefs A \<equiv> sc_prefs (nr_scan A)"

subsection \<open>Preferences for hosts\<close>

text \<open>None: the text of the excluded hosts has no defined collection.\<close>

definition apply_hosts_preferences :: "net_env \<Rightarrow> prefs \<Rightarrow> openvas_hosts option \<Rightarrow> openvas_hosts option option" where
  "apply_hosts_preferences E prefs hs =
     (case hs of
        None \<Rightarrow> Some None
      | Some h \<Rightarrow>
          if prefs = None then Some (Some h)
          else
            let str = preferences_get_string (n_gsh E) prefs;
                h = (case str ''hosts_ordering'' of
                       Some o' \<Rightarrow> if o' = ''random'' then openvas_hosts_shuffle (n_rnd E) h
                                  else if o' = ''reverse'' then openvas_hosts_reverse h else h
                     | None \<Rightarrow> h);
                ex = (case str ''exclude_hosts'' of
                        None \<Rightarrow> Some (Some h)
                      | Some x \<Rightarrow> map_option snd (openvas_hosts_exclude (n_lib E) (Some h) (Some x) True))
            in case ex of
                 None \<Rightarrow> None
               | Some h \<Rightarrow>
                   let h = (if preferences_get_bool (n_gsh E) prefs ''reverse_lookup_unify'' = 1
                            then snd (openvas_hosts_reverse_lookup_unify (n_lib E) h) else h)
                   in Some (if preferences_get_bool (n_gsh E) prefs ''reverse_lookup_only'' = 1
                            then snd (openvas_hosts_reverse_lookup_only (n_lib E) h) else h))"

subsection \<open>Interfaces\<close>

definition error_text :: "string option \<Rightarrow> string option \<Rightarrow> string option \<Rightarrow> string" where
  "error_text msg hostname port =
     ''SERVER <|> ERRMSG <|> '' @ (case hostname of None \<Rightarrow> [] | Some h \<Rightarrow> h) @ '' <|> ''
       @ (case port of None \<Rightarrow> [] | Some p \<Rightarrow> p) @ '' <|> '' @ (case msg of None \<Rightarrow> ''No error.'' | Some m \<Rightarrow> m)
       @ '' <|>  <|> SERVER'' @ [CHR 0x0A]"

definition error_message_to_client :: "string option \<Rightarrow> string option \<Rightarrow> string option \<Rightarrow> net_run \<Rightarrow> net_run" where
  "error_message_to_client msg hostname port A =
     A\<lparr>nr_scan := (nr_scan A)\<lparr>sc_errors := sc_errors (nr_scan A) @ [error_text msg hostname port]\<rparr>\<rparr>"

definition str_in_comma_list :: "netlib \<Rightarrow> string option \<Rightarrow> string option \<Rightarrow> bool" where
  "str_in_comma_list L str comma_list =
     (case (str, comma_list) of
        (Some s, Some l) \<Rightarrow> list_ex (\<lambda>e. g_strstrip L e = s) (g_strsplit L l '','')
      | _ \<Rightarrow> False)"

definition iface_authorized :: "net_env \<Rightarrow> string option \<Rightarrow> prefs \<Rightarrow> int" where
  "iface_authorized E iface prefs =
     (let inl = (\<lambda>n. case preferences_get_string (n_gsh E) prefs n of
                       None \<Rightarrow> None | Some l \<Rightarrow> Some (str_in_comma_list (n_lib E) iface (Some l)))
      in if iface = None then 0
         else if inl ''ifaces_deny'' = Some True then -1
         else if inl ''ifaces_allow'' = Some False then -1
         else if inl ''sys_ifaces_deny'' = Some True then -2
         else if inl ''sys_ifaces_allow'' = Some False then -2
         else 1)"

definition apply_source_iface_preference :: "net_env \<Rightarrow> net_run \<Rightarrow> int \<times> net_run" where
  "apply_source_iface_preference E A =
     (case preferences_get_string (n_gsh E) (nr_prefs A) ''source_iface'' of
        None \<Rightarrow> (0, A)
      | Some iface \<Rightarrow>
          let r = iface_authorized E (Some iface) (nr_prefs A) in
          if r = -1
          then (-1, error_message_to_client (Some (''Unauthorized source interface: '' @ iface)) None None A)
          else if r = -2
          then (-1, error_message_to_client (Some (''Unauthorized source interface: '' @ iface @ '' (system-wide restriction.)'')) None None A)
          else
            let (e, g) = openvas_source_iface_init (n_ifs E) (nr_source A) (Some iface);
                A = A\<lparr>nr_source := g\<rparr>
            in if e \<noteq> 0 then (-2, error_message_to_client (Some (''Erroneous source interface: '' @ iface)) None None A)
               else (0, A))"

subsection \<open>Hosts\<close>

definition host_authorized ::
  "netlib \<Rightarrow> openvas_host option \<Rightarrow> in6_addr option \<Rightarrow> openvas_hosts option \<Rightarrow> openvas_hosts option \<Rightarrow> bool" where
  "host_authorized L host addr hosts_allow hosts_deny =
     (if host = None then False
      else if hosts_deny \<noteq> None \<and> openvas_host_in_hosts L host addr hosts_deny then False
      else if hosts_allow \<noteq> None \<and> \<not> openvas_host_in_hosts L host addr hosts_allow then False
      else True)"

text \<open>The four lists of hosts of one call.\<close>

record access =
  hosts_allow :: "openvas_hosts option"
  hosts_deny :: "openvas_hosts option"
  sys_hosts_allow :: "openvas_hosts option"
  sys_hosts_deny :: "openvas_hosts option"

definition read_access :: "net_env \<Rightarrow> prefs \<Rightarrow> access option" where
  "read_access E prefs =
     (let hs = (\<lambda>n. openvas_hosts_new (n_lib E) (preferences_get_string (n_gsh E) prefs n)) in
      case (hs ''hosts_allow'', hs ''hosts_deny'', hs ''sys_hosts_allow'', hs ''sys_hosts_deny'') of
        (Some a, Some d, Some sa, Some sd) \<Rightarrow>
          Some \<lparr>hosts_allow = a, hosts_deny = d, sys_hosts_allow = sa, sys_hosts_deny = sd\<rparr>
      | _ \<Rightarrow> None)"

text \<open>The part after \<open>forkagain\<close>: the number of the process, or None after too many tries.\<close>

fun fork_again :: "net_env \<Rightarrow> nat \<Rightarrow> net_run \<Rightarrow> int option \<times> net_run" where
  "fork_again E left A =
     (let pid = n_fork E (nr_tries A); A = A\<lparr>nr_tries := nr_tries A + 1\<rparr> in
      if pid < 0 then
        let A = A\<lparr>nr_retries := nr_retries A + 1\<rparr> in
        (case left of 0 \<Rightarrow> (None, A) | Suc l \<Rightarrow> fork_again E l A)
      else (Some pid, A))"

declare fork_again.simps [simp del]

datatype net_end = Hosts_done | Scan_stop | Stop

text \<open>One host that may be tested. False: go on with the next host at once.\<close>

definition start_host ::
  "net_env \<Rightarrow> plugins_scheduler option \<Rightarrow> openvas_host \<Rightarrow> string \<Rightarrow> in6_addr \<Rightarrow> net_run \<Rightarrow> (net_end option \<times> bool \<times> net_run) reply" where
  "start_host E sch h hostname ip A =
     (let use_mac = preferences_get_bool (n_gsh E) (nr_prefs A) ''use_mac_addr'' > 0 \<and> n_local E ip;
          (mac_err, mac) = (if use_mac then n_mac E ip else (-1, None))
      in if mac_err > 0 then Returned (None, False, A)
         else
           case hosts_new (n_keys E) (n_pair E (nr_pairs A)) hostname (nr_moments A) (nr_scan A) of
             Exited \<Rightarrow> Exited | Unspecified \<Rightarrow> Unspecified | Hangs \<Rightarrow> Hangs
           | Returned (s, S, ms) \<Rightarrow>
               let A = A\<lparr>nr_scan := S, nr_moments := ms, nr_pairs := nr_pairs A + 1\<rparr> in
               if s < 0 then Returned (Some Scan_stop, False, A)
               else
                 (case fork_again E (MAX_FORK_RETRIES - nr_retries A) A of
                    (None, A) \<Rightarrow> Returned (Some Stop, False, A)
                  | (Some p, A) \<Rightarrow>
                      let f = \<lparr>fk_host = h, fk_ip = ip, fk_mac = mac, fk_soc = s, fk_pid = p, fk_sched = sch\<rparr>;
                          S = (nr_scan A)\<lparr>sc_hosts := snd (hosts_set_pid hostname p (sc_hosts (nr_scan A)))\<rparr>
                      in Returned (None, True, A\<lparr>nr_scan := S, nr_forks := nr_forks A @ [f]\<rparr>)))"

text \<open>The loop over the hosts.\<close>

fun attack_hosts ::
  "net_env \<Rightarrow> bool \<Rightarrow> access \<Rightarrow> plugins_scheduler option \<Rightarrow> openvas_host list \<Rightarrow> net_run \<Rightarrow> (net_end \<times> net_run) reply" where
  "attack_hosts E network_phase acc sch [] A = Returned (Hosts_done, A)"
| "attack_hosts E network_phase acc sch (h # hs) A =
     (let L = n_lib E in
      case openvas_host_value_str L h of
        None \<Rightarrow> Unspecified
      | Some hostname \<Rightarrow>
          (case openvas_host_get_addr6 L h of
             None \<Rightarrow> Unspecified
           | Some None \<Rightarrow>
               attack_hosts E network_phase acc sch hs
                 (error_message_to_client (Some ''Couldn't resolve hostname.'') (Some hostname) None A)
           | Some (Some ip) \<Rightarrow>
               let r = (if \<not> host_authorized L (Some h) (Some ip) (hosts_allow acc) (hosts_deny acc)
                        then Returned (None, True, error_message_to_client (Some ''Host access denied.'') (Some hostname) None A)
                        else if \<not> host_authorized L (Some h) (Some ip) (sys_hosts_allow acc) (sys_hosts_deny acc)
                        then Returned (None, True,
                               error_message_to_client (Some ''Host access denied (system-wide restriction.)'') (Some hostname) None A)
                        else start_host E sch h hostname ip A)
               in case r of
                    Exited \<Rightarrow> Exited | Unspecified \<Rightarrow> Unspecified | Hangs \<Rightarrow> Hangs
                  | Returned (Some e, _, A) \<Rightarrow> Returned (e, A)
                  | Returned (None, tested, A) \<Rightarrow>
                      if tested \<and> network_phase
                      then Returned (Hosts_done, A\<lparr>nr_scan := (nr_scan A)\<lparr>sc_status := Some ''done''\<rparr>\<rparr>)
                      else attack_hosts E network_phase acc sch hs A))"

subsection \<open>The scan\<close>

definition network_phase_of :: "net_env \<Rightarrow> net_run \<Rightarrow> bool \<times> bool \<times> net_run" where
  "network_phase_of E A =
     (if preferences_get_bool (n_gsh E) (nr_prefs A) ''network_scan'' = 1
      then (case sc_status (nr_scan A) of
              Some st \<Rightarrow> (True, \<not> strcaseeq st ''done'', A)
            | None \<Rightarrow> (True, True, A\<lparr>nr_scan := (nr_scan A)\<lparr>sc_status := Some ''busy''\<rparr>\<rparr>))
      else (False, False, A))"

text \<open>The labels \<open>scan_stop\<close> and \<open>stop\<close>; True when the function calls itself.\<close>

definition scan_end :: "net_end \<Rightarrow> bool \<Rightarrow> net_run \<Rightarrow> bool \<times> net_run" where
  "scan_end e phase A =
     (let S = nr_scan A; S = (if e = Stop then S else S\<lparr>sc_files := Map.empty\<rparr>)
      in (phase \<and> sc_stop S = 0, A\<lparr>nr_scan := S\<rparr>))"

definition start_scan :: "net_env \<Rightarrow> bool \<Rightarrow> plugins_scheduler option \<Rightarrow> openvas_hosts option \<Rightarrow> net_run \<Rightarrow> (bool \<times> net_run) reply" where
  "start_scan E phase sch hs A =
     (case read_access E (nr_prefs A) of
        None \<Rightarrow> Unspecified
      | Some acc \<Rightarrow>
          (case hs of
             None \<Rightarrow> Returned (scan_end Stop phase A)
           | Some h \<Rightarrow>
               if current h = [] then Returned (scan_end Stop phase A)
               else
                 let max_hosts = get_max_hosts_number (n_gsh E) (nr_prefs A) (n_max_hosts E);
                     A = A\<lparr>nr_retries := 0, nr_scan := (nr_scan A)\<lparr>sc_hosts := hosts_init (n_soc E) max_hosts (sc_hosts (nr_scan A))\<rparr>\<rparr>
                 in case attack_hosts E phase acc sch (current h) A of
                      Exited \<Rightarrow> Exited | Unspecified \<Rightarrow> Unspecified | Hangs \<Rightarrow> Hangs
                    | Returned (e, A) \<Rightarrow>
                        if e = Hosts_done
                        then (case wait_hosts (n_keys E) (nr_moments A) (nr_scan A) of
                                Exited \<Rightarrow> Exited | Unspecified \<Rightarrow> Unspecified | Hangs \<Rightarrow> Hangs
                              | Returned (S, ms) \<Rightarrow> Returned (scan_end e phase (A\<lparr>nr_scan := S, nr_moments := ms\<rparr>)))
                        else Returned (scan_end e phase A)))"

text \<open>One call up to the call of itself.\<close>

definition attack_pass :: "net_env \<Rightarrow> net_run \<Rightarrow> (bool \<times> net_run) reply" where
  "attack_pass E A =
     (let (do_scan, phase, A) = network_phase_of E A;
          gsh = n_gsh E; prefs = nr_prefs A; L = n_lib E
      in case pref_str gsh prefs ''TARGET'' of
           None \<Rightarrow> Returned (False, error_message_to_client (Some ''Missing target hosts'') None None A)
         | Some hostlist \<Rightarrow>
             let port_range = pref_str gsh prefs ''port_range'' in
             if validate_port_range (g_strsplit L) (g_strstrip L) port_range \<noteq> 0
             then Returned (False, error_message_to_client (Some ''Invalid port range'') None port_range A)
             else
               case plugins_scheduler_init gsh (g_strsplit L) (n_dirname E) (n_build E) (n_nvti E) (sc_cache (nr_scan A))
                      (Some (sc_plugins (nr_scan A)))
                      (if preferences_get_bool gsh prefs ''auto_enable_dependencies'' = 1 then 1 else 0) (if phase then 1 else 0) of
                 None \<Rightarrow> Unspecified
               | Some sch \<Rightarrow>
                   (case Option.bind (openvas_hosts_new L (Some hostlist)) (apply_hosts_preferences E prefs) of
                      None \<Rightarrow> Unspecified
                    | Some hs \<Rightarrow>
                        let (r, A) = apply_source_iface_preference E A in
                        if r \<noteq> 0
                        then Returned (False, error_message_to_client (Some ''Interface not authorized for scanning'') None None A)
                        else start_scan E phase sch hs A))"

partial_function (option) attack_network :: "net_env \<Rightarrow> net_run \<Rightarrow> net_run reply option" where
  "attack_network E A =
     (case attack_pass E A of
        Exited \<Rightarrow> Some Exited
      | Unspecified \<Rightarrow> Some Unspecified
      | Hangs \<Rightarrow> Some Hangs
      | Returned r \<Rightarrow> if fst r then attack_network E (snd r) else Some (Returned (snd r)))"

declare attack_network.simps [code]

end
