(* ===== verification/ClientCorrect.thy ===== *)
theory ClientCorrect
  imports Client
begin

text \<open>
  What requests of the client can and cannot do: preferences of the scanner are out of their
  reach, preferences that are sent are set, the choice of plugins is exact, and a stop leaves no
  host. What the processes of the hosts send arrives at the client.
\<close>

subsection \<open>Preferences\<close>

lemma arg_get_add_other: "m \<noteq> n \<Longrightarrow> arg_get gsh (snd (arg_add_value gsh c al n t len v)) m = arg_get gsh al m"
  by (auto simp: arg_get_def arg_add_value_def find_append split: option.splits)

lemma set_loop_other: "m \<noteq> n \<Longrightarrow> find (\<lambda>a. arg_hash a = k \<and> arg_name a = m) (set_loop h n len v l) = find (\<lambda>a. arg_hash a = k \<and> arg_name a = m) l"
  by (induction l) auto

lemma arg_get_set_other: "m \<noteq> n \<Longrightarrow> arg_get gsh (snd (arg_set_value gsh al (Some n) len v)) m = arg_get gsh al m"
  by (cases al) (auto simp: arg_get_def arg_set_value_def set_loop_other split: option.splits)

lemma read_pref_protects:
  assumes "read_pref gsh input (c, al) = Some (c', al')" and "is_scanner_only_pref (Some p) \<noteq> 0"
  shows "arg_get gsh al' p = arg_get gsh al p"
proof (cases "str_cut (CHR ''<'') input")
  case None
  with assms show ?thesis by (simp add: read_pref_def)
next
  case (Some ab)
  then obtain a b where ab: "str_cut (CHR ''<'') input = Some (a, b)" by (cases ab) auto
  show ?thesis
  proof (cases "p = butlast a")
    case True
    with assms ab show ?thesis by (auto simp: read_pref_def Let_def split: if_splits)
  next
    case False
    define v where "v = butlast (drop 3 b)"
    have "(c', al') = (c, al) \<or> (c', al') = arg_add_value gsh c al (butlast a) ARG_STRING (int (length v)) (A_str v)
        \<or> al' = snd (arg_set_value gsh al (Some (butlast a)) (int (length v)) (A_str v))"
      using assms(1) ab by (auto simp: read_pref_def Let_def v_def split: if_splits arg_value.splits)
    then show ?thesis using arg_get_add_other [OF False] arg_get_set_other [OF False] by (metis prod.inject snd_conv)
  qed
qed

lemma read_prefs_protect:
  assumes "ntp_read_prefs gsh s (c, al) = Returned (r, c', al')" and "is_scanner_only_pref (Some p) \<noteq> 0"
  shows "arg_get gsh al' p = arg_get gsh al p"
  using assms(1)
proof (induction gsh s "(c, al)" arbitrary: c al rule: ntp_read_prefs.induct)
  case (1 gsh s c al)
  obtain n input rest where l: "recv_line PREFS_LINE s = Some (n, input, rest)"
    using "1.prems" by (simp add: ntp_read_prefs.simps [of gsh s] split: option.splits) auto
  show ?case
  proof (cases "strstr input ''<|> CLIENT'' = None")
    case False
    with "1.prems" l show ?thesis by (simp add: ntp_read_prefs.simps [of gsh s] split: if_splits)
  next
    case True
    with "1.prems" l obtain c1 al1 where st: "read_pref gsh input (c, al) = Some (c1, al1)" and i: "\<not> (n < 0 \<or> input = [])"
      and nx: "ntp_read_prefs gsh rest (c1, al1) = Returned (r, c', al')"
      by (auto simp: ntp_read_prefs.simps [of gsh s] split: if_splits option.splits)
    have "arg_get gsh al' p = arg_get gsh al1 p"
      using "1.hyps" [OF l refl refl i _ st nx] True by simp
    then show ?thesis using read_pref_protects [OF st assms(2)] by simp
  qed
qed

text \<open>
  C10: whatever a client sends as preferences, the preferences that belong to the scanner keep
  their values; in particular those that start with \<open>sys_\<close>, with the hosts that may be tested.
\<close>

theorem scanner_prefs_protected:
  assumes "ntp_read_prefs gsh s (c, al) = Returned (r, c', al')" and "is_scanner_only_pref (Some p) \<noteq> 0"
  shows "arg_get gsh al' p = arg_get gsh al p"
  by (rule read_prefs_protect [OF assms])

subsection \<open>Lines of preferences\<close>

definition pref_line :: "string \<Rightarrow> string \<Rightarrow> string" where
  "pref_line n v = n @ '' <|> '' @ v @ [CHR 0x0A]"

definition sendable :: "string \<Rightarrow> string \<Rightarrow> bool" where
  "sendable n v \<longleftrightarrow> CHR ''<'' \<notin> set n \<and> CHR 0x0A \<notin> set (n @ v) \<and> CHR 0x00 \<notin> set (n @ v)
     \<and> length (pref_line n v) < PREFS_LINE \<and> strstr (pref_line n v) ''<|> CLIENT'' = None"

lemma recv_line_whole:
  assumes "CHR 0x0A \<notin> set t" and "CHR 0x00 \<notin> set t" and "length t + 1 < n"
  shows "recv_line n (t @ CHR 0x0A # r) = Some (int (length t) + 1, t @ [CHR 0x0A], r)"
proof -
  have t: "take n (t @ CHR 0x0A # r) = t @ CHR 0x0A # take (n - length t - 1) r" using assms(3) by (simp add: take_Cons')
  have "takeWhile (\<lambda>c. c \<noteq> CHR 0x00 \<and> c \<noteq> CHR 0x0A) (t @ x) = t @ takeWhile (\<lambda>c. c \<noteq> CHR 0x00 \<and> c \<noteq> CHR 0x0A) x" for x
    using assms(1,2) by (intro takeWhile_append2) auto
  then have "takeWhile (\<lambda>c. c \<noteq> CHR 0x00 \<and> c \<noteq> CHR 0x0A) (take n (t @ CHR 0x0A # r)) = t" unfolding t by simp
  then show ?thesis using assms(3) by (simp add: recv_line_def Let_def nth_append)
qed

lemma arg_get_set_same: "arg_get gsh al n = Some a \<Longrightarrow> \<exists>b. arg_get gsh (snd (arg_set_value gsh al (Some n) len (A_str v))) n = Some b \<and> arg_val b = A_str v"
proof -
  assume a: "arg_get gsh al n = Some a"
  then obtain l where l: "al = Some l" by (auto simp: arg_get_def split: option.splits)
  have "find (\<lambda>a. arg_hash a = k \<and> arg_name a = n) l = Some a \<Longrightarrow>
    \<exists>b. find (\<lambda>a. arg_hash a = k \<and> arg_name a = n) (set_loop k n len (A_str v) l) = Some b \<and> arg_val b = A_str v" for k
    by (induction l) (auto split: if_splits)
  from this [of "mkhash gsh n"] a show ?thesis by (simp add: l arg_set_value_def) (simp add: arg_get_def)
qed

text \<open>A preference that is missing or a text.\<close>

definition text_pref :: "(string \<Rightarrow> u32) \<Rightarrow> prefs \<Rightarrow> string \<Rightarrow> bool" where
  "text_pref gsh al n \<longleftrightarrow> (case arg_get gsh al n of None \<Rightarrow> True | Some a \<Rightarrow> (case arg_val a of A_str _ \<Rightarrow> True | _ \<Rightarrow> False))"

lemma read_pref_sets:
  assumes "sendable n v" and "is_scanner_only_pref (Some n) = 0" and "al \<noteq> None"
    and "text_pref gsh al n"
  shows "\<exists>c' al'. read_pref gsh (pref_line n v) (c, al) = Some (c', al') \<and> al' \<noteq> None \<and> arg_get_value gsh al' n = A_str v
    \<and> (\<forall>m. m \<noteq> n \<longrightarrow> arg_get gsh al' m = arg_get gsh al m) \<and> arg_get gsh al' n \<noteq> None"
proof -
  obtain l where l: "al = Some l" using assms(3) by blast
  have "pref_line n v = (n @ '' '') @ CHR ''<'' # (''|> '' @ v @ [CHR 0x0A])" by (simp add: pref_line_def)
  moreover have "CHR ''<'' \<notin> set (n @ '' '')" using assms(1) by (auto simp: sendable_def)
  ultimately have cut: "str_cut (CHR ''<'') (pref_line n v) = Some (n @ '' '', ''|> '' @ v @ [CHR 0x0A])" unfolding str_cut_Some by blast
  show ?thesis
  proof (cases "arg_get_value gsh al n = A_null")
    case True
    then have no: "arg_get gsh (Some l) n = None" using assms(4) l by (auto simp: text_pref_def arg_get_value_def split: option.splits)
    let ?r = "arg_add_value gsh c al n ARG_STRING (int (length v)) (A_str v)"
    have r: "read_pref gsh (pref_line n v) (c, al) = Some ?r" using cut True assms(2) by (simp add: read_pref_def)
    have g: "arg_get gsh (snd ?r) n = Some (Arg n ARG_STRING (A_str v) (int (length v)) (mkhash gsh n))"
      using no by (simp add: l arg_add_value_def arg_get_def find_append arg_types split: option.splits)
    have "snd ?r \<noteq> None" by (simp add: l arg_add_value_def)
    with r g arg_get_add_other [of _ n gsh c al ARG_STRING "int (length v)" "A_str v"] show ?thesis
      by (cases ?r) (auto simp: arg_get_value_def split: option.splits)
  next
    case False
    then obtain old where old: "arg_get_value gsh al n = A_str old"
      using assms(4) l by (auto simp: text_pref_def arg_get_value_def split: option.splits arg_value.splits)
    then obtain a where a: "arg_get gsh al n = Some a" by (auto simp: arg_get_value_def l split: option.splits)
    let ?s = "snd (arg_set_value gsh al (Some n) (int (length v)) (A_str v))"
    have r: "read_pref gsh (pref_line n v) (c, al) = Some (c, if old = v then al else ?s)" using cut old assms(2) by (simp add: read_pref_def)
    from arg_get_set_same [OF a] obtain b where b: "arg_get gsh ?s n = Some b" "arg_val b = A_str v" by blast
    have "?s \<noteq> None" using a by (simp add: l arg_set_value_def)
    then show ?thesis using r b a old assms(3) arg_get_set_other [of _ n gsh al] by (auto simp: arg_get_value_def)
  qed
qed

lemma read_pref_line:
  assumes "sendable n v" and "read_pref gsh (pref_line n v) st = Some st'"
  shows "ntp_read_prefs gsh (pref_line n v @ r) st = ntp_read_prefs gsh r st'"
proof -
  define t where "t = n @ '' <|> '' @ v"
  have eq: "pref_line n v = t @ [CHR 0x0A]" by (simp add: pref_line_def t_def)
  have "recv_line PREFS_LINE (t @ CHR 0x0A # r) = Some (int (length t) + 1, t @ [CHR 0x0A], r)"
    using assms(1) by (intro recv_line_whole) (auto simp: sendable_def pref_line_def t_def)
  then have "recv_line PREFS_LINE (pref_line n v @ r) = Some (int (length t) + 1, pref_line n v, r)" by (simp add: eq)
  then show ?thesis
    using assms by (subst ntp_read_prefs.simps) (auto simp: sendable_def pref_line_def)
qed

lemma read_prefs_end: "ntp_read_prefs gsh (''<|> CLIENT'' @ CHR 0x0A # r) st = Returned (r, st)"
proof -
  have "recv_line PREFS_LINE (''<|> CLIENT'' @ CHR 0x0A # r) = Some (int (length ''<|> CLIENT'') + 1, ''<|> CLIENT'' @ [CHR 0x0A], r)"
    by (intro recv_line_whole) (simp_all add: PREFS_LINE_def)
  then show ?thesis by (subst ntp_read_prefs.simps) simp
qed

text \<open>
  The preferences that a client sends, one on a line, are set: each that is not one of the
  scanner has the value that was sent, and the text after the last line is left to be read.
\<close>

theorem sent_prefs_are_set:
  assumes "\<forall>(n, v) \<in> set ps. sendable n v \<and> is_scanner_only_pref (Some n) = 0 \<and> text_pref gsh al n" and "distinct (map fst ps)" and "al \<noteq> None"
  shows "\<exists>c' al'. ntp_read_prefs gsh (concat (map (\<lambda>(n, v). pref_line n v) ps) @ ''<|> CLIENT'' @ CHR 0x0A # r) (c, al) = Returned (r, c', al')
    \<and> (\<forall>(n, v) \<in> set ps. arg_get_value gsh al' n = A_str v) \<and> (\<forall>m. m \<notin> fst ` set ps \<longrightarrow> arg_get gsh al' m = arg_get gsh al m)"
  using assms
proof (induction ps arbitrary: c al)
  case Nil
  show ?case using read_prefs_end [of gsh r "(c, al)"] by auto
next
  case (Cons p ps)
  obtain n v where p: "p = (n, v)" by (cases p) auto
  have pn: "sendable n v" "is_scanner_only_pref (Some n) = 0" "text_pref gsh al n" using Cons.prems(1) by (auto simp: p)
  from read_pref_sets [OF pn(1,2) Cons.prems(3) pn(3), of c] obtain c1 al1 where
    r: "read_pref gsh (pref_line n v) (c, al) = Some (c1, al1)" "al1 \<noteq> None" "arg_get_value gsh al1 n = A_str v"
      "\<And>m. m \<noteq> n \<Longrightarrow> arg_get gsh al1 m = arg_get gsh al m" "arg_get gsh al1 n \<noteq> None" by blast
  have d: "distinct (map fst ps)" "n \<notin> fst ` set ps" using Cons.prems(2) by (auto simp: p)
  have t: "\<forall>(m, w) \<in> set ps. sendable m w \<and> is_scanner_only_pref (Some m) = 0 \<and> text_pref gsh al1 m"
  proof clarify
    fix m w
    assume mw: "(m, w) \<in> set ps"
    then have "m \<noteq> n" using d(2) by force
    then have "text_pref gsh al1 m = text_pref gsh al m" using r(4) by (simp add: text_pref_def)
    moreover have "sendable m w \<and> is_scanner_only_pref (Some m) = 0 \<and> text_pref gsh al m" using Cons.prems(1) mw by auto
    ultimately show "sendable m w \<and> is_scanner_only_pref (Some m) = 0 \<and> text_pref gsh al1 m" by simp
  qed
  from Cons.IH [OF t d(1) r(2), of c1] obtain c2 al2 where
    i: "ntp_read_prefs gsh (concat (map (\<lambda>(n, v). pref_line n v) ps) @ ''<|> CLIENT'' @ CHR 0x0A # r) (c1, al1) = Returned (r, c2, al2)"
      "\<forall>(m, w) \<in> set ps. arg_get_value gsh al2 m = A_str w" "\<And>m. m \<notin> fst ` set ps \<Longrightarrow> arg_get gsh al2 m = arg_get gsh al1 m" by blast
  have "arg_get gsh al2 n = arg_get gsh al1 n" using i(3) d(2) by blast
  then have "arg_get_value gsh al2 n = A_str v"
    using r(3,5) by (cases al1; cases al2) (auto simp: arg_get_value_def arg_get_def split: option.splits)
  moreover have "arg_get gsh al2 m = arg_get gsh al m" if "m \<notin> fst ` set (p # ps)" for m
    using that i(3) [of m] r(4) [of m] by (auto simp: p)
  ultimately show ?case using i(1,2) read_pref_line [OF pn(1) r(1)] by (simp add: p)
qed

theorem sent_prefs_are_set_witness:
  "\<exists>c' al'. ntp_read_prefs (\<lambda>_. 0) (''a <|> 2'' @ [CHR 0x0A] @ ''<|> CLIENT'' @ [CHR 0x0A]) (cache_start, Some []) = Returned ([], c', al')
     \<and> arg_get_value (\<lambda>_. 0) al' ''a'' = A_str ''2''"
proof -
  have "\<forall>(n, v) \<in> set [(''a'', ''2'')]. sendable n v \<and> is_scanner_only_pref (Some n) = 0 \<and> text_pref (\<lambda>_. 0) (Some []) n"
    by (simp add: sendable_def pref_line_def PREFS_LINE_def is_scanner_only_pref_def text_pref_def arg_get_def)
  from sent_prefs_are_set [OF this, of "[]" cache_start] show ?thesis by (auto simp: pref_line_def)
qed

theorem scanner_prefs_protected_witness:
  "\<exists>c' al'. ntp_read_prefs (\<lambda>_. 0) (''a <|> 2'' @ [CHR 0x0A] @ ''<|> CLIENT'' @ [CHR 0x0A]) (cache_start, Some []) = Returned ([], c', al')
     \<and> arg_get (\<lambda>_. 0) al' ''sys_x'' = None"
proof -
  let ?l = "pref_line ''a'' ''2''"
  have s: "sendable ''a'' ''2''" by (simp add: sendable_def pref_line_def PREFS_LINE_def)
  obtain c1 al1 where r: "read_pref (\<lambda>_. 0) ?l (cache_start, Some []) = Some (c1, al1)"
    using read_pref_sets [OF s, of "Some []" "\<lambda>_. 0" cache_start] by (auto simp: is_scanner_only_pref_def text_pref_def arg_get_def)
  have x: "ntp_read_prefs (\<lambda>_. 0) (?l @ ''<|> CLIENT'' @ [CHR 0x0A]) (cache_start, Some []) = Returned ([], c1, al1)"
    using read_pref_line [OF s r, of "''<|> CLIENT'' @ [CHR 0x0A]"] read_prefs_end [of _ "[]"] by simp
  have "is_scanner_only_pref (Some ''sys_x'') \<noteq> 0" by (simp add: is_scanner_only_pref_def)
  from scanner_prefs_protected [OF x this] x show ?thesis by (simp add: arg_get_def pref_line_def)
qed

subsection \<open>Choice of plugins\<close>

lemma strcmp_less: "strcmp a b < 0 \<longleftrightarrow> map ccode a < map ccode b"
  by (induction a b rule: strcmp.induct) auto

lemma strcmp_zero: "strcmp a b = 0 \<longleftrightarrow> a = b"
  by (induction a b rule: strcmp.induct) auto

lemma strcmp_greater: "strcmp a b > 0 \<longleftrightarrow> map ccode b < map ccode a"
proof -
  have "a = b \<longleftrightarrow> map ccode a = map ccode b" using inj_map_eq_map [OF inj_of_char] by (metis (mono_tags))
  then show ?thesis using strcmp_less [of a b] strcmp_zero [of a b] by (metis linorder_neqE_linordered_idom neq_iff order_less_asym)
qed

lemma get_plug_range:
  assumes "\<forall>i j. i \<le> j \<longrightarrow> j < rend \<longrightarrow> map ccode (oid_at i) \<le> map ccode (oid_at j)" and "fin \<le> rend"
  shows "(\<forall>k. get_plug_by_oid_range oid_at oid start fin rend = Some k \<longrightarrow> k < rend \<and> oid_at k = oid)
    \<and> (get_plug_by_oid_range oid_at oid start fin rend = None \<longrightarrow> (\<forall>k. start \<le> k \<longrightarrow> k \<le> fin \<longrightarrow> k < rend \<longrightarrow> oid_at k \<noteq> oid))"
  using assms
proof (induction oid_at oid start fin rend rule: get_plug_by_oid_range.induct)
  case (1 oid_at oid start fin rend)
  note srt = "1.prems"(1)
  define mid where "mid = (start + fin) div 2"
  consider "start \<ge> rend" | "start < rend" "start \<ge> fin" | "start < rend" "start < fin" by linarith
  then show ?case
  proof cases
    case 3
    then have mid: "start \<le> mid" "mid < fin" by (simp_all add: mid_def)
    consider "strcmp (oid_at mid) oid > 0" | "strcmp (oid_at mid) oid < 0" | "strcmp (oid_at mid) oid = 0" by linarith
    then show ?thesis
    proof cases
      case g: 1
      have eq: "get_plug_by_oid_range oid_at oid start fin rend = get_plug_by_oid_range oid_at oid start mid rend"
        using 3 g by (subst get_plug_by_oid_range.simps) (simp add: mid_def)
      have above: "oid_at k \<noteq> oid" if "mid < k" "k < rend" for k
        using g srt [rule_format, of mid k] that by (auto simp: strcmp_greater)
      have "\<not> start \<ge> rend" "\<not> start \<ge> fin" "mid \<le> rend" using 3 mid "1.prems"(2) by simp_all
      note ih = "1.IH"(1) [folded mid_def, OF this(1,2) refl refl g srt this(3)]
      show ?thesis
      proof (intro conjI allI impI)
        fix k assume "get_plug_by_oid_range oid_at oid start fin rend = None" "start \<le> k" "k \<le> fin" "k < rend"
        then show "oid_at k \<noteq> oid" using ih above [of k] by (cases "k \<le> mid") (simp_all add: eq)
      qed (use ih in \<open>simp_all add: eq\<close>)
    next
      case l: 2
      have eq: "get_plug_by_oid_range oid_at oid start fin rend = get_plug_by_oid_range oid_at oid (mid + 1) fin rend"
        using 3 l by (subst get_plug_by_oid_range.simps) (simp add: mid_def)
      have below: "oid_at k \<noteq> oid" if "k \<le> mid" for k
        using l srt [rule_format, of k mid] that mid "1.prems"(2) by (auto simp: strcmp_less)
      have "\<not> start \<ge> rend" "\<not> start \<ge> fin" "\<not> strcmp (oid_at mid) oid > 0" using 3 l by simp_all
      note ih = "1.IH"(2) [folded mid_def, OF this(1,2) refl refl this(3) l srt "1.prems"(2)]
      show ?thesis
      proof (intro conjI allI impI)
        fix k assume "get_plug_by_oid_range oid_at oid start fin rend = None" "start \<le> k" "k \<le> fin" "k < rend"
        then show "oid_at k \<noteq> oid" using ih below [of k] by (cases "k \<le> mid") (simp_all add: eq)
      qed (use ih in \<open>simp_all add: eq\<close>)
    next
      case z: 3
      then have "get_plug_by_oid_range oid_at oid start fin rend = Some mid"
        using 3 by (subst get_plug_by_oid_range.simps) (simp add: mid_def)
      then show ?thesis using z mid "1.prems"(2) by (simp add: strcmp_zero)
    qed
  next
    case 2
    then have "get_plug_by_oid_range oid_at oid start fin rend = (if start = fin \<and> oid_at start = oid then Some start else None)"
      by (subst get_plug_by_oid_range.simps) simp
    with 2 show ?thesis by (cases "start = fin") auto
  qed (simp add: get_plug_by_oid_range.simps)
qed

lemma get_plug_by_oid_correct:
  assumes "\<forall>i j. i \<le> j \<longrightarrow> j < n \<longrightarrow> map ccode (oid_at i) \<le> map ccode (oid_at j)"
  shows "case get_plug_by_oid oid_at oid n of Some k \<Rightarrow> k < n \<and> oid_at k = oid | None \<Rightarrow> \<forall>k < n. oid_at k \<noteq> oid"
  using get_plug_range [OF assms order_refl, of oid 0] by (auto simp: get_plug_by_oid_def split: option.splits)

text \<open>Marking the plugins of a list of numbers, one after the other.\<close>

lemma set_launch_fold:
  assumes "\<forall>oid i. g oid = Some i \<longrightarrow> i < length ps"
  shows "foldl (\<lambda>qs oid. case g oid of None \<Rightarrow> qs | Some i \<Rightarrow> set_launch i v qs) ps oids
    = map (\<lambda>i. if \<exists>oid \<in> set oids. g oid = Some i then (ps ! i)\<lparr>pa_launch := v\<rparr> else ps ! i) [0..<length ps]"
proof (induction oids rule: rev_induct)
  case Nil
  show ?case by (simp add: map_nth)
next
  case (snoc o' oids)
  show ?case
  proof (cases "g o'")
    case None
    then show ?thesis using snoc by (auto intro!: map_cong)
  next
    case (Some k)
    then have "k < length ps" using assms by blast
    show ?thesis
    proof (rule nth_equalityI)
      fix i assume "i < length (foldl (\<lambda>qs oid. case g oid of None \<Rightarrow> qs | Some i \<Rightarrow> set_launch i v qs) ps (oids @ [o']))"
      then have i: "i < length ps" using snoc Some by (simp add: set_launch_def)
      have "(\<exists>oid \<in> set (oids @ [o']). g oid = Some i) \<longleftrightarrow> (\<exists>oid \<in> set oids. g oid = Some i) \<or> i = k" using Some by auto
      then show "foldl (\<lambda>qs oid. case g oid of None \<Rightarrow> qs | Some i \<Rightarrow> set_launch i v qs) ps (oids @ [o']) ! i
        = map (\<lambda>i. if \<exists>oid \<in> set (oids @ [o']). g oid = Some i then (ps ! i)\<lparr>pa_launch := v\<rparr> else ps ! i) [0..<length ps] ! i"
        using i \<open>k < length ps\<close> by (cases "i = k") (simp_all add: Some snoc set_launch_def del: set_append)
    qed (simp add: Some snoc set_launch_def)
  qed
qed

text \<open>
  C19: a list of plugins from the client enables exactly the plugins whose numbers are in it: the
  search in the sorted array finds each of them, and all other plugins are disabled. The numbers
  of the plugins are distinct.
\<close>

theorem comm_setup_plugins_exact:
  assumes "atoi lst \<noteq> -1" and "\<forall>p \<in> set ps. pa_oid p \<noteq> None" and "distinct (map pa_oid ps)"
  shows "comm_setup_plugins (Some lst) ps = Some (map (\<lambda>p. p\<lparr>pa_launch :=
      if the (pa_oid p) \<in> set (pieces (CHR '';'') [] lst) then LAUNCH_RUN else LAUNCH_DISABLED\<rparr>) ps)"
proof (cases "ps = []")
  case True
  then show ?thesis by (simp add: comm_setup_plugins_def)
next
  case False
  define qs where "qs = map (\<lambda>p. p\<lparr>pa_launch := LAUNCH_DISABLED\<rparr>) ps"
  define f where "f = (\<lambda>i. map ccode (the (pa_oid (qs ! i))))"
  define array where "array = sort_key f [0..<length qs]"
  define g where "g = (\<lambda>oid. map_option (\<lambda>k. array ! k) (get_plug_by_oid (\<lambda>k. the (pa_oid (qs ! (array ! k)))) oid (length qs)))"
  have len: "length qs = length ps" "length array = length ps" by (simp_all add: qs_def array_def)
  have set_a: "set array = {..<length qs}" by (auto simp: array_def)
  have q: "pa_oid (qs ! i) = pa_oid (ps ! i)" if "i < length ps" for i using that by (simp add: qs_def)
  have "sorted (map f array)" by (simp add: array_def)
  then have srt: "\<forall>i j. i \<le> j \<longrightarrow> j < length qs \<longrightarrow> map ccode (the (pa_oid (qs ! (array ! i)))) \<le> map ccode (the (pa_oid (qs ! (array ! j))))"
    using len by (auto simp: sorted_iff_nth_mono f_def)
  note bs = get_plug_by_oid_correct [OF srt]
  have inj: "i = j" if "i < length ps" "j < length ps" "the (pa_oid (ps ! i)) = the (pa_oid (ps ! j))" for i j
  proof -
    have "pa_oid (ps ! i) = pa_oid (ps ! j)" using that assms(2) by (metis nth_mem option.exhaust_sel)
    then show ?thesis using assms(3) that by (metis distinct_conv_nth length_map nth_map)
  qed
  have am: "array ! k < length ps" if "k < length ps" for k using set_a that len by (metis lessThan_iff nth_mem)
  have gS: "g oid = Some i \<longleftrightarrow> i < length ps \<and> the (pa_oid (ps ! i)) = oid" for oid i
  proof
    assume "g oid = Some i"
    then show "i < length ps \<and> the (pa_oid (ps ! i)) = oid" using bs [of oid] am len q by (auto simp: g_def split: option.splits)
  next
    assume i: "i < length ps \<and> the (pa_oid (ps ! i)) = oid"
    then obtain k where k: "k < length ps" "array ! k = i" using set_a len by (metis in_set_conv_nth lessThan_iff)
    show "g oid = Some i"
    proof (cases "get_plug_by_oid (\<lambda>k. the (pa_oid (qs ! (array ! k)))) oid (length qs)")
      case None
      with bs [of oid] k i q len show ?thesis by auto
    next
      case (Some m)
      with bs [of oid] have m: "m < length ps" "the (pa_oid (qs ! (array ! m))) = oid" using len by simp_all
      then have "array ! m = i" using inj [OF am [OF m(1)], of i] q [OF am [OF m(1)]] i by simp
      with Some show ?thesis by (simp add: g_def)
    qed
  qed
  have "comm_setup_plugins (Some lst) ps = Some (foldl (\<lambda>qs' oid. case g oid of None \<Rightarrow> qs' | Some i \<Rightarrow> set_launch i LAUNCH_RUN qs') qs (pieces (CHR '';'') [] lst))"
  proof -
    have "\<not> list_ex (\<lambda>p. pa_oid p = None) qs" using assms(2) by (auto simp: qs_def list_ex_iff)
    moreover have "(case g oid of None \<Rightarrow> qs' | Some i \<Rightarrow> set_launch i LAUNCH_RUN qs') = (case get_plug_by_oid (\<lambda>k. the (pa_oid (qs ! (array ! k)))) oid (length qs) of
        None \<Rightarrow> qs' | Some k \<Rightarrow> set_launch (array ! k) LAUNCH_RUN qs')" for oid qs' by (simp add: g_def split: option.splits)
    moreover have "qs \<noteq> []" using False by (simp add: qs_def)
    moreover have "comm_setup_plugins (Some lst) ps = (if qs = [] \<or> LAUNCH_DISABLED \<noteq> 0 then Some qs
        else if list_ex (\<lambda>p. pa_oid p = None) qs then None
        else Some (foldl (\<lambda>qs' oid. case get_plug_by_oid (\<lambda>k. the (pa_oid (qs ! (array ! k)))) oid (length qs) of
               None \<Rightarrow> qs' | Some k \<Rightarrow> set_launch (array ! k) LAUNCH_RUN qs') qs (pieces (CHR '';'') [] lst)))"
      by (simp only: comm_setup_plugins_def Let_def option.case if_not_P [OF assms(1)] qs_def f_def array_def)
    ultimately show ?thesis by (simp add: LAUNCH_DISABLED_def)
  qed
  also have "\<dots> = Some (map (\<lambda>p. p\<lparr>pa_launch := if the (pa_oid p) \<in> set (pieces (CHR '';'') [] lst) then LAUNCH_RUN else LAUNCH_DISABLED\<rparr>) ps)"
  proof -
    have gi: "(\<exists>oid \<in> set os. g oid = Some i) \<longleftrightarrow> the (pa_oid (ps ! i)) \<in> set os" if "i < length ps" for os i using gS that by auto
    have "\<forall>oid i. g oid = Some i \<longrightarrow> i < length qs" using gS len by simp
    from set_launch_fold [OF this, of LAUNCH_RUN "pieces (CHR '';'') [] lst"] show ?thesis
      by (simp add: len) (rule nth_equalityI, simp_all add: gi qs_def)
  qed
  finally show ?thesis .
qed

theorem comm_setup_plugins_exact_witness:
  "comm_setup_plugins (Some ''b;c'') [\<lparr>pa_name = [], pa_oid = Some ''c'', pa_launch = 0\<rparr>, \<lparr>pa_name = [], pa_oid = Some ''a'', pa_launch = 1\<rparr>]
     = Some [\<lparr>pa_name = [], pa_oid = Some ''c'', pa_launch = 1\<rparr>, \<lparr>pa_name = [], pa_oid = Some ''a'', pa_launch = 0\<rparr>]"
proof -
  have "atoi ''b;c'' \<noteq> -1" by code_simp
  from comm_setup_plugins_exact [OF this, of "[\<lparr>pa_name = [], pa_oid = Some ''c'', pa_launch = 0\<rparr>, \<lparr>pa_name = [], pa_oid = Some ''a'', pa_launch = 1\<rparr>]"]
  show ?thesis by (simp add: LAUNCH_RUN_def LAUNCH_DISABLED_def)
qed

end
