(* ===== verification/HostTableCorrect.thy ===== *)
theory HostTableCorrect
  imports Client
begin

text \<open>
  The table of tested hosts: what a process sends arrives at the client before its host leaves
  the table, the number of hosts stays below the limit, a stop ends every process, and the loop at
  the end of a scan leaves no host.
\<close>

subsection \<open>Forwarding\<close>

lemma data_type: "\<not> has INTERNAL_COMM_MSG_TYPE_DATA INTERNAL_COMM_MSG_TYPE_CTRL" "has INTERNAL_COMM_MSG_TYPE_DATA INTERNAL_COMM_MSG_TYPE_DATA"
  by code_simp+

definition client_ready :: "hosts_table \<Rightarrow> bool" where
  "client_ready T \<longleftrightarrow> 0 < g_soc T \<and> tx (g_conn T) = []"

definition relayed :: "hosts_table \<Rightarrow> string \<Rightarrow> hosts_table \<Rightarrow> bool" where
  "relayed T s T' \<longleftrightarrow> sent (g_conn T') = sent (g_conn T) @ s \<and> client_ready T'"

definition sendable_text :: "string \<Rightarrow> bool" where
  "sendable_text d \<longleftrightarrow> d \<noteq> [] \<and> length d < 2 ^ 31 \<and> CHR 0x00 \<notin> set d"

lemma forward_one:
  assumes "ready c (frame d INTERNAL_COMM_MSG_TYPE_DATA @ r)" and "sendable_text d" and "client_ready T"
  shows "\<exists>c' T'. forward_msg c T = (0, c', T') \<and> ready c' r \<and> relayed T d T'"
proof -
  have d: "length d < 2 ^ 31" "CHR 0x00 \<notin> set d" "d \<noteq> []" using assms(2) by (simp_all add: sendable_text_def)
  obtain c' z where c': "ready c' r" "internal_recv c (fw_buf T) (fw_sz T) 0 =
      (\<lparr>ret = int (length d), buf = Some (recv_text (fw_buf T) d), sz = z, mtype = INTERNAL_COMM_MSG_TYPE_DATA\<rparr>, c')"
    using internal_recv_text [OF assms(1) d(1,2) data_type(1), of "fw_buf T" "fw_sz T" 0] by blast
  have "recv_text (fw_buf T) d = d" using d(3) by (simp add: recv_text_def)
  then show ?thesis
    using c' assms(3) by (auto simp: forward_msg_def Let_def data_type client_ready_def relayed_def)
qed

lemma os_recv_nothing: "delivers q [] \<Longrightarrow> fst (os_recv (Suc n) q) = None"
  by (induction q) (auto simp: delivers_def elim!: chunk.elims)

lemma forward_nothing:
  assumes "ready c []"
  shows "\<exists>c' T'. forward_msg c T = (-1, c', T') \<and> g_conn T' = g_conn T \<and> g_soc T' = g_soc T"
proof -
  have "fst (conn_recv c 4) = None"
    using os_recv_nothing [of "rx c" 3] assms by (auto simp: conn_recv_def ready_def numeral_eq_Suc split: prod.splits)
  then obtain c' where "internal_recv c (fw_buf T) (fw_sz T) 0 = (recv_error 0, c')"
    by (cases "conn_recv c 4") (auto simp: internal_recv_def split: prod.splits option.splits)
  then show ?thesis by (simp add: forward_msg_def recv_error_def)
qed

lemma forward_all_relays:
  assumes "ready c (concat (map (\<lambda>d. frame d INTERNAL_COMM_MSG_TYPE_DATA) ds))" and "\<forall>d \<in> set ds. sendable_text d" and "client_ready T"
  shows "relayed T (concat ds) (snd (forward_all c T))"
  using assms
proof (induction ds arbitrary: c T)
  case Nil
  then obtain c' T' where "forward_msg c T = (-1, c', T')" "g_conn T' = g_conn T" "g_soc T' = g_soc T" using forward_nothing by fastforce
  with Nil show ?case by (simp add: forward_all.simps [of c T] relayed_def client_ready_def)
next
  case (Cons d ds)
  have "ready c (frame d INTERNAL_COMM_MSG_TYPE_DATA @ concat (map (\<lambda>d. frame d INTERNAL_COMM_MSG_TYPE_DATA) ds))" "sendable_text d"
    using Cons.prems by simp_all
  from forward_one [OF this Cons.prems(3)] obtain c' T' where
    f: "forward_msg c T = (0, c', T')" "ready c' (concat (map (\<lambda>d. frame d INTERNAL_COMM_MSG_TYPE_DATA) ds))" "relayed T d T'" by blast
  have "relayed T' (concat ds) (snd (forward_all c' T'))"
    using Cons.prems(2) f(3) by (intro Cons.IH [OF f(2)]) (simp_all add: relayed_def)
  with f show ?case by (simp add: forward_all.simps [of c T] relayed_def)
qed


definition host0 :: host where
  "host0 = \<lparr>h_name = ''h'', h_fd = 5, h_psoc = 0, h_pid = 9,
     h_conn = \<lparr>rx = [Rx (frame ''ab'' INTERNAL_COMM_MSG_TYPE_DATA), Rx_intr, Rx (frame ''c'' INTERNAL_COMM_MSG_TYPE_DATA)], tx = [], sent = []\<rparr>\<rparr>"

definition table0 :: hosts_table where
  "table0 = \<lparr>ht_list = [host0], g_soc = 3, g_max_hosts = 2, g_conn = \<lparr>rx = [], tx = [], sent = []\<rparr>, fw_buf = None, fw_sz = 0, ht_signals = []\<rparr>"


subsection \<open>Stopping\<close>

lemma hosts_stop_all_list:
  "ht_list (hosts_stop_all T) = [] \<and> ht_signals (hosts_stop_all T) = ht_signals T @ map (\<lambda>h. (h_pid h, SIGTERM)) (ht_list T)"
proof (induction T rule: hosts_stop_all.induct)
  case (1 T)
  show ?case
  proof (cases "ht_list T")
    case Nil
    then show ?thesis by (simp add: hosts_stop_all.simps)
  next
    case (Cons h hs)
    note l = stop_host_list [OF hosts_get_first [OF Cons]]
    from "1.IH" [OF Cons] show ?thesis unfolding hosts_stop_all.simps [of T] by (simp add: Cons l)
  qed
qed

text \<open>Stopping all hosts sends one signal to each process and empties the table.\<close>

theorem hosts_stop_all_ends:
  "ht_list (hosts_stop_all T) = [] \<and> ht_signals (hosts_stop_all T) = ht_signals T @ map (\<lambda>h. (h_pid h, SIGTERM)) (ht_list T)"
  by (rule hosts_stop_all_list)

subsection \<open>Reading\<close>

lemma reap_filter: "ht_list (reap alv T) = filter (\<lambda>h. alv (h_pid h)) (ht_list T) \<and> g_max_hosts (reap alv T) = g_max_hosts T \<and> g_soc (reap alv T) = g_soc T"
proof (induction alv T rule: reap.induct)
  case (1 alv T)
  show ?case
  proof (cases "find_host (\<lambda>h. \<not> alv (h_pid h)) (ht_list T)")
    case None
    moreover from None have "\<forall>h \<in> set (ht_list T). alv (h_pid h)" by (simp add: find_host_None)
    ultimately show ?thesis by (subst reap.simps, subst (1 2) reap.simps) simp
  next
    case (Some i)
    note f = find_host_Some [OF Some]
    have "filter (\<lambda>h. alv (h_pid h)) (take i (ht_list T) @ drop (i + 1) (ht_list T)) = filter (\<lambda>h. alv (h_pid h)) (ht_list T)"
      using f id_take_nth_drop [of i "ht_list T"] by (metis (no_types, lifting) Suc_eq_plus1 filter.simps(2) filter_append)
    then show ?thesis using "1.IH" [OF Some] Some by (simp add: reap.simps [of alv T] host_rm_list)
  qed
qed

text \<open>Reading changes neither names nor processes.\<close>

abbreviation pids :: "hosts_table \<Rightarrow> int list" where
  "pids T \<equiv> map h_pid (ht_list T)"

lemma read_host_pids:
  assumes "i < length (ht_list T)"
  shows "pids (snd (read_host tk (r, T) i)) = pids T"
proof -
  define h where "h = ht_list T ! i"
  obtain e c T1 where f: "forward_msg (h_conn h) T = (e, c, T1)" by (metis prod_cases3)
  have l: "ht_list T1 = ht_list T" using forward_msg_list [OF f] by blast
  have "(pids T)[i := h_pid h] = pids T" using assms by (simp add: h_def list_update_same_conv)
  then show ?thesis using f l by (simp add: read_host_def h_def [symmetric] map_update)
qed

lemma read_fold_pids: "\<forall>i \<in> set is. i < length (ht_list (snd x)) \<Longrightarrow> pids (snd (foldl (read_host tk) x is)) = pids (snd x)"
proof (induction "is" arbitrary: x)
  case (Cons i js)
  have p: "pids (snd (read_host tk x i)) = pids (snd x)" using Cons.prems read_host_pids [of i "snd x" tk "fst x"] by simp
  then have "length (ht_list (snd (read_host tk x i))) = length (ht_list (snd x))" by (metis length_map)
  then show ?case using Cons p by simp
qed simp

lemma read_data_pids: "pids (snd (hosts_read_data tk T)) = filter (tk_alive tk) (pids T)"
proof (cases "ht_list T = []")
  case True
  then show ?thesis by (simp add: hosts_read_data_def)
next
  case False
  have r: "pids (reap (tk_alive tk) T) = filter (tk_alive tk) (pids T)" using reap_filter by (simp add: filter_map comp_def)
  show ?thesis
    using False r read_fold_pids [of "[0..<length (ht_list (reap (tk_alive tk) T))]" "(0, reap (tk_alive tk) T)" tk]
    by (simp add: hosts_read_data_def Let_def)
qed

lemma hosts_read_result:
  assumes "hosts_read K ev tk S = Returned (e, S')"
  shows "e = 0 \<or> e = -1 \<and> ht_list (sc_hosts S') = []"
  using assms hosts_stop_all_list by (auto simp: hosts_read_def split: reply.splits prod.splits if_splits)

text \<open>
  The loop that waits for the hosts at the end of a scan leaves an empty table whenever it
  returns: every process has ended, or the client has stopped the scan and each was told to end.
\<close>

theorem wait_hosts_leaves_none:
  assumes "wait_hosts K ms S = Returned (S', ms')"
  shows "ht_list (sc_hosts S') = []"
  using assms
proof (induction K ms S rule: wait_hosts.induct)
  case (2 K m ms S)
  obtain e S1 where r: "hosts_read K (fst m) (snd m) S = Returned (e, S1)" using "2.prems" by (auto split: reply.splits)
  show ?case
  proof (cases "e = 0")
    case True
    then show ?thesis using "2.IH" [OF r refl] "2.prems" r by simp
  next
    case False
    then show ?thesis using hosts_read_result [OF r] "2.prems" r by simp
  qed
qed simp

text \<open>
  C26: a new host is added only below the limit: when it gets its socket the table holds at most
  \<open>g_max_hosts\<close> hosts, with the new one first; otherwise the table is empty, or there was no socket.
\<close>

theorem hosts_new_bounded:
  assumes "hosts_new K pair name ms S = Returned (s, S', ms')"
  shows "(\<exists>h hs. ht_list (sc_hosts S') = h # hs \<and> h_name h = name \<and> h_pid h = 0 \<and> pair \<noteq> None \<and> hosts_num (sc_hosts S') \<le> g_max_hosts (sc_hosts S'))
    \<or> s = -1 \<and> (ht_list (sc_hosts S') = [] \<or> pair = None)"
  using assms
proof (induction K pair name ms S rule: hosts_new.induct)
  case (1 K pair name ms S)
  show ?case
  proof (cases "hosts_num (sc_hosts S) \<ge> g_max_hosts (sc_hosts S)")
    case True
    with "1.prems" obtain m ms1 where ms: "ms = m # ms1" by (cases ms) (auto simp: hosts_new.simps [of K pair name "[]"])
    with "1.prems" True obtain e S1 where r: "hosts_read K (fst m) (snd m) S = Returned (e, S1)"
      by (auto simp: hosts_new.simps [of K pair name "m # ms1"] split: reply.splits)
    show ?thesis
    proof (cases "e < 0")
      case neg: True
      then show ?thesis using hosts_read_result [OF r] "1.prems" True ms r by (simp add: hosts_new.simps [of K pair name "m # ms1"])
    next
      case nn: False
      then have "hosts_new K pair name ms1 S1 = Returned (s, S', ms')" using "1.prems" True ms r by (simp add: hosts_new.simps [of K pair name "m # ms1"])
      then show ?thesis using "1.IH" [OF True ms r refl nn] by blast
    qed
  next
    case False
    then show ?thesis using "1.prems" by (auto simp: hosts_new.simps [of K pair name ms] hosts_add_def hosts_num_def split: option.splits)
  qed
qed

lemma hosts_read_quiet:
  assumes "ht_list (sc_hosts S) \<noteq> []"
  shows "hosts_read K Client_quiet tk S = Returned (0, S\<lparr>sc_hosts := snd (hosts_read_data tk (sc_hosts S))\<rparr>)"
  using assms by (simp add: hosts_read_def hosts_read_client_def)

lemma hosts_read_empty: "ht_list (sc_hosts S) = [] \<Longrightarrow> hosts_read K Client_quiet tk S = Returned (-1, S)"
  by (simp add: hosts_read_def hosts_read_client_def)

text \<open>
  C20: the loop at the end of a scan returns as soon as all processes have ended, whatever they send
  and however long they run, if the client does not send anything.
\<close>

theorem wait_hosts_returns:
  assumes "\<forall>m \<in> set ms. fst m = Client_quiet" and "\<forall>p \<in> set (pids (sc_hosts S)). \<not> tk_alive tk p"
  shows "\<exists>S' ms'. wait_hosts K (ms @ [(Client_quiet, tk), (Client_quiet, tk')]) S = Returned (S', ms') \<and> ht_list (sc_hosts S') = []"
  using assms
proof (induction ms arbitrary: S)
  case Nil
  show ?case
  proof (cases "ht_list (sc_hosts S) = []")
    case True
    then show ?thesis by (simp add: hosts_read_empty)
  next
    case False
    let ?T = "snd (hosts_read_data tk (sc_hosts S))"
    have "pids ?T = []" using read_data_pids [of tk "sc_hosts S"] Nil(2) by (simp add: filter_empty_conv)
    then show ?thesis using False by (simp add: hosts_read_quiet hosts_read_empty)
  qed
next
  case (Cons m ms)
  obtain t where m: "m = (Client_quiet, t)" using Cons.prems(1) by (cases m) auto
  show ?case
  proof (cases "ht_list (sc_hosts S) = []")
    case True
    then show ?thesis by (simp add: m hosts_read_empty)
  next
    case False
    let ?S = "S\<lparr>sc_hosts := snd (hosts_read_data t (sc_hosts S))\<rparr>"
    have "\<forall>p \<in> set (pids (sc_hosts ?S)). \<not> tk_alive tk p" using read_data_pids [of t "sc_hosts S"] Cons.prems(2) by (simp del: set_map)
    from Cons.IH [OF _ this] Cons.prems(1) False show ?thesis by (simp add: m hosts_read_quiet)
  qed
qed

subsection \<open>Witnesses\<close>

definition scan0 :: scan where
  "scan0 = \<lparr>sc_hosts = table0, sc_prefs = Some [], sc_cache = cache_start, sc_in = [], sc_plugins = [], sc_stop = 0, sc_status = None,
     sc_files = Map.empty, sc_sizes = Map.empty, sc_host_logins = None, sc_logins = None, sc_answers = [], sc_errors = []\<rparr>"

definition keyfiles0 :: keyfiles where
  "keyfiles0 = \<lparr>kf_gsh = (\<lambda>_. 0), kf_hosts = (\<lambda>_. None), kf_logins = (\<lambda>_. None)\<rparr>"

definition dead :: htick where
  "dead = \<lparr>tk_alive = (\<lambda>_. False), tk_ready = (\<lambda>_. False), tk_left = (\<lambda>_. False)\<rparr>"

theorem wait_hosts_returns_witness:
  "\<exists>S' ms'. wait_hosts keyfiles0 [(Client_quiet, dead), (Client_quiet, dead)] scan0 = Returned (S', ms') \<and> ht_list (sc_hosts S') = []"
  using wait_hosts_returns [of "[]" scan0 dead keyfiles0 dead] by (simp add: dead_def)

theorem wait_hosts_leaves_none_witness:
  "\<exists>S'. wait_hosts keyfiles0 [(Client_lost, dead)] scan0 = Returned (S', []) \<and> ht_list (sc_hosts S') = []"
proof -
  have "wait_hosts keyfiles0 [(Client_lost, dead)] scan0 = Returned (scan0\<lparr>sc_hosts := hosts_stop_all table0\<rparr>, [])"
    by (simp add: hosts_read_def hosts_read_client_def scan0_def table0_def)
  from wait_hosts_leaves_none [OF this] this show ?thesis by blast
qed

theorem hosts_new_bounded_witness:
  "\<exists>S'. hosts_new keyfiles0 (Some \<lparr>hs_fd0 = 7, hs_fd1 = 8, hs_conn = h_conn host0\<rparr>) ''x'' [] scan0 = Returned (7, S', [])
     \<and> hosts_num (sc_hosts S') \<le> g_max_hosts (sc_hosts S')"
proof -
  obtain S' where h: "hosts_new keyfiles0 (Some \<lparr>hs_fd0 = 7, hs_fd1 = 8, hs_conn = h_conn host0\<rparr>) ''x'' [] scan0 = Returned (7, S', [])"
    by (simp add: hosts_new.simps hosts_num_def scan0_def table0_def hosts_add_def)
  from hosts_new_bounded [OF h] h show ?thesis by auto
qed

end
