(* ===== verification/AttackNetworkCorrect.thy ===== *)
theory AttackNetworkCorrect
  imports AttackNetwork ClientCorrect HostTableCorrect
begin

text \<open>
  Which hosts are tested: only those of the targets that no list forbids, and those that the
  system-wide lists allow, whatever the client sends during the scan. And where the scan of a
  network never ends.
\<close>

subsection \<open>Preferences during a scan\<close>

definition kept :: "(string \<Rightarrow> u32) \<Rightarrow> string \<Rightarrow> scan \<Rightarrow> scan \<Rightarrow> bool" where
  "kept gsh p S S' \<longleftrightarrow> arg_get gsh (sc_prefs S') p = arg_get gsh (sc_prefs S) p"

lemma kept_refl [simp]: "kept gsh p S S"
  by (simp add: kept_def)

lemma kept_trans: "kept gsh p S T \<Longrightarrow> kept gsh p T U \<Longrightarrow> kept gsh p S U"
  by (simp add: kept_def)

lemma kept_same: "sc_prefs S' = sc_prefs S \<Longrightarrow> kept gsh p S S'"
  by (simp add: kept_def)

lemma set_pref_kept: "p \<noteq> n \<Longrightarrow> kept gsh p S (set_pref gsh n v S)"
proof -
  assume "p \<noteq> n"
  then show ?thesis
    using arg_get_add_other [of p n gsh "sc_cache S" "sc_prefs S" ARG_STRING "int (length v)" "A_str v"]
      arg_get_set_other [of p n gsh "sc_prefs S" "int (length v)" "A_str v"]
    by (auto simp: kept_def set_pref_def split: prod.splits)
qed

lemma sc_read_prefs: "sc_read n S = Some (k, t, S') \<Longrightarrow> sc_prefs S' = sc_prefs S"
  by (auto simp: sc_read_def)

lemma long_attack_kept:
  assumes "ntp_long_attack gsh S = Returned (r, S')" and "is_scanner_only_pref (Some p) \<noteq> 0"
  shows "kept gsh p S S'"
proof -
  have n: "p \<noteq> ''TARGET''" "p \<noteq> ''plugin_set''" using assms(2) by (auto simp: is_scanner_only_pref_def split: if_splits)
  obtain k t S1 where r: "sc_read 16383 S = Some (k, t, S1)" using assms(1) by (auto simp: ntp_long_attack_def split: option.splits)
  have S1: "kept gsh p S S1" by (rule kept_same) (rule sc_read_prefs [OF r])
  define S2 where "S2 = S1\<lparr>sc_in := drop (nat (atoi t)) (sc_in S1)\<rparr>"
  define S3 where "S3 = (case pref_str gsh (sc_prefs S2) ''plugin_set'' of
      None \<Rightarrow> set_pref gsh ''plugin_set'' ''-1'' S2 | Some v \<Rightarrow> if v = [] then set_pref gsh ''plugin_set'' ''-1'' S2 else S2)"
  have S2: "kept gsh p S S2" using S1 by (simp add: S2_def kept_def)
  have S3: "kept gsh p S S3" using S2 set_pref_kept [OF n(2)] by (auto simp: S3_def intro: kept_trans split: option.splits)
  have "S' = S1 \<or> S' = S1\<lparr>sc_in := []\<rparr> \<or> (\<exists>ps tg. S' = set_pref gsh ''TARGET'' tg (S3\<lparr>sc_plugins := ps\<rparr>))"
    using assms(1) r unfolding ntp_long_attack_def S3_def S2_def by (auto simp: Let_def split: if_splits option.splits)
  moreover have "kept gsh p S (set_pref gsh ''TARGET'' tg (S3\<lparr>sc_plugins := ps\<rparr>))" for tg ps
    using S3 set_pref_kept [OF n(1), of gsh "S3\<lparr>sc_plugins := ps\<rparr>" tg] by (simp add: kept_def)
  ultimately show ?thesis using S1 by (auto simp: kept_def)
qed

lemma recv_file_kept: "ntp_recv_file K S = Returned (r, S') \<Longrightarrow> sc_prefs S' = sc_prefs S"
  by (auto simp: ntp_recv_file_def Let_def dest!: sc_read_prefs split: option.splits if_splits)

lemma client_command_kept:
  assumes "client_command K req str S = Returned (r, S')" and "is_scanner_only_pref (Some p) \<noteq> 0"
  shows "kept (kf_gsh K) p S S'"
proof (cases req)
  case CREQ_ATTACHED_FILE
  then show ?thesis using assms(1) recv_file_kept [of K S] by (auto simp: client_command_def intro: kept_same split: reply.splits)
next
  case CREQ_LONG_ATTACK
  then show ?thesis using assms long_attack_kept by (simp add: client_command_def)
next
  case CREQ_PREFERENCES
  with assms(1) obtain s c al where "ntp_read_prefs (kf_gsh K) (sc_in S) (sc_cache S, sc_prefs S) = Returned (s, c, al)"
    and "S' = S\<lparr>sc_in := s, sc_cache := c, sc_prefs := al\<rparr>" by (auto simp: client_command_def split: reply.splits)
  then show ?thesis using read_prefs_protect assms(2) by (simp add: kept_def)
qed (use assms(1) in \<open>auto simp: client_command_def answer_with_def kept_def split: option.splits if_splits\<close>)

lemma parse_input_kept:
  assumes "ntp_parse_input K input S = Returned (r, S')" and "is_scanner_only_pref (Some p) \<noteq> 0"
  shows "kept (kf_gsh K) p S S'"
  using assms client_command_kept by (auto simp: ntp_parse_input_def Let_def split: option.splits if_splits)

lemma read_client_kept:
  assumes "hosts_read_client K ev S = Returned (r, S')" and "is_scanner_only_pref (Some p) \<noteq> 0"
  shows "kept (kf_gsh K) p S S'"
proof (cases "g_soc (sc_hosts S) = -1 \<or> ev \<noteq> Client_data")
  case True
  then show ?thesis using assms(1) by (auto simp: hosts_read_client_def split: client_event.splits if_splits)
next
  case False
  with assms(1) obtain n t S1 where r: "sc_read 4095 S = Some (n, t, S1)" by (auto simp: hosts_read_client_def split: option.splits)
  have s: "sc_prefs S1 = sc_prefs S" by (rule sc_read_prefs [OF r])
  show ?thesis
  proof (cases "n \<le> 0")
    case True
    then show ?thesis using False assms(1) r s by (auto simp: hosts_read_client_def kept_def)
  next
    case pos: False
    with False assms(1) r obtain f S2 where f: "ntp_parse_input K t S1 = Returned (f, S2)" and p: "sc_prefs S' = sc_prefs S2"
      by (auto simp: hosts_read_client_def split: reply.splits if_splits)
    show ?thesis using parse_input_kept [OF f assms(2)] s p by (simp add: kept_def)
  qed
qed

lemma hosts_read_kept:
  assumes "hosts_read K ev tk S = Returned (r, S')" and "is_scanner_only_pref (Some p) \<noteq> 0"
  shows "kept (kf_gsh K) p S S'"
proof -
  obtain e S1 where c: "hosts_read_client K ev S = Returned (e, S1)" using assms(1) by (auto simp: hosts_read_def split: reply.splits)
  have "sc_prefs S' = sc_prefs S1" using assms(1) c by (auto simp: hosts_read_def split: if_splits)
  with read_client_kept [OF c assms(2)] show ?thesis by (simp add: kept_def)
qed

lemma hosts_new_kept:
  assumes "hosts_new K pair name ms S = Returned (s, S', ms')" and "is_scanner_only_pref (Some p) \<noteq> 0"
  shows "kept (kf_gsh K) p S S'"
  using assms(1)
proof (induction K pair name ms S rule: hosts_new.induct)
  case (1 K pair name ms S)
  show ?case
  proof (cases "hosts_num (sc_hosts S) \<ge> g_max_hosts (sc_hosts S)")
    case True
    with "1.prems" obtain m ms1 where ms: "ms = m # ms1" by (cases ms) (auto simp: hosts_new.simps [of K pair name "[]"])
    with "1.prems" True obtain e S1 where r: "hosts_read K (fst m) (snd m) S = Returned (e, S1)"
      by (auto simp: hosts_new.simps [of K pair name "m # ms1"] split: reply.splits)
    note k = hosts_read_kept [OF r assms(2)]
    show ?thesis
    proof (cases "e < 0")
      case neg: True
      then show ?thesis using k "1.prems" True ms r by (simp add: hosts_new.simps [of K pair name "m # ms1"])
    next
      case nn: False
      then have "hosts_new K pair name ms1 S1 = Returned (s, S', ms')" using "1.prems" True ms r by (simp add: hosts_new.simps [of K pair name "m # ms1"])
      then show ?thesis using "1.IH" [OF True ms r refl nn] k kept_trans by blast
    qed
  next
    case False
    then show ?thesis using "1.prems" by (auto simp: hosts_new.simps [of K pair name ms] kept_def split: prod.splits)
  qed
qed

lemma wait_hosts_kept:
  assumes "wait_hosts K ms S = Returned (S', ms')" and "is_scanner_only_pref (Some p) \<noteq> 0"
  shows "kept (kf_gsh K) p S S'"
  using assms(1)
proof (induction K ms S rule: wait_hosts.induct)
  case (2 K m ms S)
  obtain e S1 where r: "hosts_read K (fst m) (snd m) S = Returned (e, S1)" using "2.prems" by (auto split: reply.splits)
  note k = hosts_read_kept [OF r assms(2)]
  show ?case
  proof (cases "e = 0")
    case True
    then show ?thesis using "2.IH" [OF r refl] "2.prems" r k kept_trans by fastforce
  next
    case False
    then show ?thesis using "2.prems" r k by simp
  qed
qed simp

subsection \<open>Forked processes\<close>

definition may_test :: "net_env \<Rightarrow> access \<Rightarrow> forked \<Rightarrow> bool" where
  "may_test E acc f \<longleftrightarrow> openvas_host_get_addr6 (n_lib E) (fk_host f) = Some (Some (fk_ip f))
     \<and> host_authorized (n_lib E) (Some (fk_host f)) (Some (fk_ip f)) (hosts_allow acc) (hosts_deny acc)
     \<and> host_authorized (n_lib E) (Some (fk_host f)) (Some (fk_ip f)) (sys_hosts_allow acc) (sys_hosts_deny acc)"

text \<open>A step of the scan adds processes for these hosts only, and keeps the preferences of the scanner.\<close>

definition adds :: "net_env \<Rightarrow> (forked \<Rightarrow> bool) \<Rightarrow> net_run \<Rightarrow> net_run \<Rightarrow> bool" where
  "adds E P A A' \<longleftrightarrow> (\<exists>fs. nr_forks A' = nr_forks A @ fs \<and> (\<forall>f \<in> set fs. P f))
     \<and> (\<forall>p. is_scanner_only_pref (Some p) \<noteq> 0 \<longrightarrow> kept (n_gsh E) p (nr_scan A) (nr_scan A'))"

lemma adds_refl: "nr_forks A' = nr_forks A \<Longrightarrow> sc_prefs (nr_scan A') = sc_prefs (nr_scan A) \<Longrightarrow> adds E P A A'"
  by (simp add: adds_def kept_def)

lemma adds_trans: "adds E P A B \<Longrightarrow> adds E P B C \<Longrightarrow> adds E P A C"
  unfolding adds_def by (auto intro: kept_trans)

lemma adds_mono: "adds E P A B \<Longrightarrow> (\<And>f. P f \<Longrightarrow> Q f) \<Longrightarrow> adds E Q A B"
  unfolding adds_def by blast

lemma error_message_adds [simp]: "adds E P A (error_message_to_client m h p A)"
  by (rule adds_refl) (simp_all add: error_message_to_client_def)

lemma fork_again_frame: "fork_again E l A = (r, A') \<Longrightarrow> nr_forks A' = nr_forks A \<and> nr_scan A' = nr_scan A"
proof (induction E l A rule: fork_again.induct)
  case (1 E l A)
  show ?case
  proof (cases l)
    case 0
    with "1.prems" show ?thesis by (auto simp: fork_again.simps [of E 0] Let_def split: if_splits)
  next
    case (Suc k)
    let ?A = "A\<lparr>nr_tries := nr_tries A + 1, nr_retries := nr_retries A + 1\<rparr>"
    show ?thesis
    proof (cases "n_fork E (nr_tries A) < 0")
      case True
      then have "fork_again E k ?A = (r, A')" using "1.prems" Suc by (simp add: fork_again.simps [of E "Suc k" A])
      then show ?thesis using "1.IH" [OF refl refl True refl Suc] by simp
    next
      case False
      then show ?thesis using "1.prems" Suc by (auto simp: fork_again.simps [of E "Suc k"])
    qed
  qed
qed

lemma start_host_adds:
  assumes "start_host E sch h name ip A = Returned (e, t, A')"
  shows "adds E (\<lambda>f. fk_host f = h \<and> fk_ip f = ip) A A'"
proof -
  let ?P = "\<lambda>f. fk_host f = h \<and> fk_ip f = ip"
  define m where "m = (if preferences_get_bool (n_gsh E) (nr_prefs A) ''use_mac_addr'' > 0 \<and> n_local E ip then n_mac E ip else (-1, None))"
  show ?thesis
  proof (cases "fst m > 0")
    case True
    then have "A' = A" using assms by (auto simp: start_host_def Let_def m_def [symmetric] split: prod.splits)
    then show ?thesis by (simp add: adds_refl)
  next
    case False
    with assms obtain s S ms where n: "hosts_new (n_keys E) (n_pair E (nr_pairs A)) name (nr_moments A) (nr_scan A) = Returned (s, S, ms)"
      by (auto simp: start_host_def Let_def m_def [symmetric] split: prod.splits reply.splits)
    define B where "B = A\<lparr>nr_scan := S, nr_moments := ms, nr_pairs := nr_pairs A + 1\<rparr>"
    have B: "adds E ?P A B" using hosts_new_kept [OF n] by (simp add: adds_def B_def)
    obtain r C where C: "fork_again E (MAX_FORK_RETRIES - nr_retries B) B = (r, C)" by fastforce
    have BC: "adds E ?P B C" using fork_again_frame [OF C] by (simp add: adds_refl)
    show ?thesis
    proof (cases "s < 0")
      case True
      then have "A' = B" using assms False n by (auto simp: start_host_def Let_def m_def [symmetric] B_def split: prod.splits)
      then show ?thesis using B by simp
    next
      case s: False
      show ?thesis
      proof (cases r)
        case None
        then have "A' = C" using assms False n s C by (auto simp: start_host_def Let_def m_def [symmetric] B_def split: prod.splits)
        then show ?thesis using B BC adds_trans by blast
      next
        case (Some p)
        then obtain f S1 where "A' = C\<lparr>nr_scan := S1, nr_forks := nr_forks C @ [f]\<rparr>" "?P f" "sc_prefs S1 = sc_prefs (nr_scan C)"
          using assms False n s C by (auto simp: start_host_def Let_def m_def [symmetric] B_def split: prod.splits)
        then have "adds E ?P C A'" by (auto simp: adds_def kept_def)
        then show ?thesis using B BC adds_trans by blast
      qed
    qed
  qed
qed

lemma attack_hosts_adds:
  assumes "attack_hosts E ph acc sch hs A = Returned (e, A')"
  shows "adds E (\<lambda>f. may_test E acc f \<and> fk_host f \<in> set hs) A A'"
  using assms
proof (induction hs arbitrary: A)
  case Nil
  then show ?case by (simp add: adds_refl)
next
  case (Cons h hs)
  let ?Q = "\<lambda>hs f. may_test E acc f \<and> fk_host f \<in> set hs"
  obtain name where nm: "openvas_host_value_str (n_lib E) h = Some name" using Cons.prems
    by (cases "openvas_host_value_str (n_lib E) h") (simp_all add: Let_def)
  have later: "adds E (?Q (h # hs)) A A'" if "adds E (?Q (h # hs)) A B" "attack_hosts E ph acc sch hs B = Returned (e, A')" for B
    using that(1) adds_mono [OF Cons.IH [OF that(2)], of "?Q (h # hs)"] adds_trans by fastforce
  show ?case
  proof (cases "openvas_host_get_addr6 (n_lib E) h")
    case None
    then show ?thesis using Cons.prems nm by simp
  next
    case (Some r)
    show ?thesis
    proof (cases r)
      case None
      then show ?thesis using Cons.prems nm Some by (intro later) simp_all
    next
      case ip: (Some ip)
      define x where "x = (if \<not> host_authorized (n_lib E) (Some h) (Some ip) (hosts_allow acc) (hosts_deny acc)
          then Returned (None, True, error_message_to_client (Some ''Host access denied.'') (Some name) None A)
          else if \<not> host_authorized (n_lib E) (Some h) (Some ip) (sys_hosts_allow acc) (sys_hosts_deny acc)
          then Returned (None, True, error_message_to_client (Some ''Host access denied (system-wide restriction.)'') (Some name) None A)
          else start_host E sch h name ip A)"
      have eq: "(case x of Exited \<Rightarrow> Exited | Unspecified \<Rightarrow> Unspecified | Hangs \<Rightarrow> Hangs
          | Returned (Some e, _, A) \<Rightarrow> Returned (e, A)
          | Returned (None, tested, A) \<Rightarrow>
              if tested \<and> ph then Returned (Hosts_done, A\<lparr>nr_scan := (nr_scan A)\<lparr>sc_status := Some ''done''\<rparr>\<rparr>)
              else attack_hosts E ph acc sch hs A) = Returned (e, A')"
        using Cons.prems nm Some ip by (simp add: x_def Let_def)
      then obtain o1 t B where x: "x = Returned (o1, t, B)" by (auto split: reply.splits)
      have B: "adds E (?Q (h # hs)) A B"
      proof (cases "host_authorized (n_lib E) (Some h) (Some ip) (hosts_allow acc) (hosts_deny acc)
          \<and> host_authorized (n_lib E) (Some h) (Some ip) (sys_hosts_allow acc) (sys_hosts_deny acc)")
        case True
        then have "start_host E sch h name ip A = Returned (o1, t, B)" using x by (simp add: x_def)
        from adds_mono [OF start_host_adds [OF this], of "?Q (h # hs)"] show ?thesis using True Some ip by (simp add: may_test_def)
      next
        case False
        then obtain m where "B = error_message_to_client (Some m) (Some name) None A" using x by (auto simp: x_def split: if_splits)
        then show ?thesis by simp
      qed
      show ?thesis
      proof (cases o1)
        case (Some e1)
        then show ?thesis using eq x B by simp
      next
        case None
        show ?thesis
        proof (cases "t \<and> ph")
          case True
          then have "adds E (?Q (h # hs)) B A'" using eq x None by (intro adds_refl) auto
          then show ?thesis using B adds_trans by blast
        next
          case False
          then show ?thesis using eq x None B by (intro later) auto
        qed
      qed
    qed
  qed
qed

end
