(* ===== verification/AttackNetworkSafe.thy ===== *)
theory AttackNetworkSafe
  imports AttackNetworkCorrect
begin

text \<open>
  What a whole scan guarantees: it starts processes for permitted targets only, the restrictions of
  the system hold whatever the client sends while the scan runs, a forbidden interface starts
  nothing. The scan of hosts always returns; the scan of a network may call itself for ever.
\<close>

subsection \<open>One pass\<close>

lemma scan_end_adds: "scan_end e ph A = (again, A') \<Longrightarrow> adds E P A A'"
  by (rule adds_refl) (auto simp: scan_end_def Let_def split: if_splits)

lemma network_phase_frame:
  "network_phase_of E A = (d, ph, B) \<Longrightarrow> nr_forks B = nr_forks A \<and> nr_prefs B = nr_prefs A"
  by (auto simp: network_phase_of_def split: if_splits option.splits)

lemma error_message_frame [simp]:
  "nr_forks (error_message_to_client m h p A) = nr_forks A" "nr_prefs (error_message_to_client m h p A) = nr_prefs A"
  by (simp_all add: error_message_to_client_def)

lemma source_iface_frame:
  "apply_source_iface_preference E A = (r, B) \<Longrightarrow> nr_forks B = nr_forks A \<and> nr_prefs B = nr_prefs A"
  by (auto simp: apply_source_iface_preference_def Let_def split: option.splits if_splits prod.splits)

lemma start_scan_adds:
  assumes "start_scan E ph sch hs A = Returned (again, A')"
  shows "adds E (\<lambda>f. \<exists>acc h. read_access E (nr_prefs A) = Some acc \<and> may_test E acc f \<and> hs = Some h \<and> fk_host f \<in> set (current h)) A A'"
    (is "adds E ?P A A'")
proof -
  obtain acc where acc: "read_access E (nr_prefs A) = Some acc" using assms by (auto simp: start_scan_def split: option.splits)
  show ?thesis
  proof (cases "\<exists>h. hs = Some h \<and> current h \<noteq> []")
    case False
    then have "scan_end Stop ph A = (again, A')" using assms acc by (cases hs) (simp_all add: start_scan_def)
    then show ?thesis by (rule scan_end_adds)
  next
    case True
    then obtain h where h: "hs = Some h" "current h \<noteq> []" by blast
    define B where "B = A\<lparr>nr_retries := 0, nr_scan := (nr_scan A)\<lparr>sc_hosts :=
        hosts_init (n_soc E) (get_max_hosts_number (n_gsh E) (nr_prefs A) (n_max_hosts E)) (sc_hosts (nr_scan A))\<rparr>\<rparr>"
    have eq: "(case attack_hosts E ph acc sch (current h) B of
          Exited \<Rightarrow> Exited | Unspecified \<Rightarrow> Unspecified | Hangs \<Rightarrow> Hangs
        | Returned (e, A) \<Rightarrow>
            if e = Hosts_done
            then (case wait_hosts (n_keys E) (nr_moments A) (nr_scan A) of
                    Exited \<Rightarrow> Exited | Unspecified \<Rightarrow> Unspecified | Hangs \<Rightarrow> Hangs
                  | Returned (S, ms) \<Rightarrow> Returned (scan_end e ph (A\<lparr>nr_scan := S, nr_moments := ms\<rparr>)))
            else Returned (scan_end e ph A)) = Returned (again, A')"
      using assms acc h by (simp add: start_scan_def Let_def B_def)
    have B: "adds E ?P A B" by (rule adds_refl) (simp_all add: B_def)
    obtain e C where C: "attack_hosts E ph acc sch (current h) B = Returned (e, C)" using eq by (auto split: reply.splits)
    have BC: "adds E ?P B C" by (rule adds_mono [OF attack_hosts_adds [OF C]]) (use acc h in auto)
    show ?thesis
    proof (cases "e = Hosts_done")
      case True
      then obtain S ms where w: "wait_hosts (n_keys E) (nr_moments C) (nr_scan C) = Returned (S, ms)"
        and A': "scan_end e ph (C\<lparr>nr_scan := S, nr_moments := ms\<rparr>) = (again, A')" using eq C by (auto split: reply.splits)
      have "adds E ?P C (C\<lparr>nr_scan := S, nr_moments := ms\<rparr>)" using wait_hosts_kept [OF w] by (simp add: adds_def)
      then show ?thesis using adds_trans [OF adds_trans [OF B BC]] adds_trans scan_end_adds [OF A'] by blast
    next
      case False
      then have "scan_end e ph C = (again, A')" using eq C by simp
      then show ?thesis using adds_trans [OF adds_trans [OF B BC]] scan_end_adds by blast
    qed
  qed
qed

definition targets_of :: "net_env \<Rightarrow> prefs \<Rightarrow> openvas_hosts option option" where
  "targets_of E prefs =
     Option.bind (openvas_hosts_new (n_lib E) (pref_str (n_gsh E) prefs ''TARGET'')) (apply_hosts_preferences E prefs)"

definition permitted :: "net_env \<Rightarrow> prefs \<Rightarrow> forked \<Rightarrow> bool" where
  "permitted E prefs f \<longleftrightarrow> (\<exists>acc h. read_access E prefs = Some acc \<and> may_test E acc f
     \<and> targets_of E prefs = Some (Some h) \<and> fk_host f \<in> set (current h))"

lemma attack_pass_adds:
  assumes "attack_pass E A = Returned (again, A')"
  shows "adds E (permitted E (nr_prefs A)) A A'"
proof -
  let ?P = "permitted E (nr_prefs A)"
  obtain d ph B where B: "network_phase_of E A = (d, ph, B)" by (metis prod_cases3)
  have fB: "nr_forks B = nr_forks A" "nr_prefs B = nr_prefs A" using network_phase_frame [OF B] by simp_all
  have AB: "adds E ?P A B" using fB by (simp add: adds_refl)
  have early: ?thesis if "A' = error_message_to_client m h p C" "adds E ?P B C" for m h p C
    using AB that adds_trans error_message_adds by metis
  show ?thesis
  proof (cases "pref_str (n_gsh E) (nr_prefs A) ''TARGET''")
    case None
    then show ?thesis using assms B fB by (intro early [of _ _ _ B]) (auto simp: attack_pass_def adds_refl)
  next
    case (Some tl)
    let ?pr = "pref_str (n_gsh E) (nr_prefs A) ''port_range''"
    show ?thesis
    proof (cases "validate_port_range (g_strsplit (n_lib E)) (g_strstrip (n_lib E)) ?pr = 0")
      case False
      then show ?thesis using assms B fB Some by (intro early [of _ _ _ B]) (auto simp: attack_pass_def adds_refl Let_def)
    next
      case ok: True
      obtain sch hs r C where hs: "targets_of E (nr_prefs A) = Some hs" and C: "apply_source_iface_preference E B = (r, C)"
        and rest: "(if r \<noteq> 0 then Returned (False, error_message_to_client (Some ''Interface not authorized for scanning'') None None C)
           else start_scan E ph sch hs C) = Returned (again, A')"
        using assms B fB Some ok by (auto simp: attack_pass_def Let_def targets_of_def split: option.splits prod.splits)
      have fC: "nr_forks C = nr_forks A" "nr_prefs C = nr_prefs A" using source_iface_frame [OF C] fB by simp_all
      have BC: "adds E ?P B C" using fB fC by (simp add: adds_refl)
      show ?thesis
      proof (cases "r = 0")
        case True
        then have "start_scan E ph sch hs C = Returned (again, A')" using rest by simp
        from adds_mono [OF start_scan_adds [OF this], of ?P] have "adds E ?P C A'" using fC hs by (auto simp: permitted_def)
        then show ?thesis using AB BC adds_trans by blast
      next
        case False
        then show ?thesis using rest BC by (intro early) auto
      qed
    qed
  qed
qed

text \<open>
  C7: a pass of the scan starts processes only for hosts of the target list, after the preferences
  for hosts are applied to it, whose address no list of denied hosts holds and every list of
  allowed hosts holds, the lists of the client and the ones of the system alike.
\<close>

theorem attack_pass_authorized:
  assumes "attack_pass E A = Returned (again, A')"
  shows "\<exists>fs. nr_forks A' = nr_forks A @ fs \<and> (\<forall>f \<in> set fs. permitted E (nr_prefs A) f)"
  using attack_pass_adds [OF assms] by (simp add: adds_def)

subsection \<open>The whole scan\<close>

definition system_permits :: "net_env \<Rightarrow> prefs \<Rightarrow> forked \<Rightarrow> bool" where
  "system_permits E prefs f \<longleftrightarrow> (\<exists>sa sd.
     openvas_hosts_new (n_lib E) (preferences_get_string (n_gsh E) prefs ''sys_hosts_allow'') = Some sa
     \<and> openvas_hosts_new (n_lib E) (preferences_get_string (n_gsh E) prefs ''sys_hosts_deny'') = Some sd
     \<and> host_authorized (n_lib E) (Some (fk_host f)) (Some (fk_ip f)) sa sd)"

lemma permitted_system: "permitted E prefs f \<Longrightarrow> system_permits E prefs f"
  by (auto simp: permitted_def system_permits_def read_access_def may_test_def Let_def split: option.splits)

lemma kept_string: "kept gsh p S S' \<Longrightarrow> preferences_get_string gsh (sc_prefs S') p = preferences_get_string gsh (sc_prefs S) p"
  by (cases "sc_prefs S"; cases "sc_prefs S'") (simp_all add: kept_def preferences_get_string_def pref_str_def arg_get_value_def arg_get_def)

lemma sys_scanner_only: "is_scanner_only_pref (Some (''sys_'' @ p)) \<noteq> 0"
  by (simp add: is_scanner_only_pref_def)

lemma adds_system:
  assumes "adds E P A B"
  shows "system_permits E (nr_prefs B) f \<longleftrightarrow> system_permits E (nr_prefs A) f"
  using assms kept_string [of "n_gsh E" _ "nr_scan A" "nr_scan B"] sys_scanner_only [of "''hosts_allow''"] sys_scanner_only [of "''hosts_deny''"]
  by (simp add: adds_def system_permits_def)

lemma attack_network_adds:
  assumes "attack_network E A = Some r" and "r = Returned A'"
  shows "adds E (system_permits E (nr_prefs A)) A A'"
proof -
  have "r = Returned A' \<longrightarrow> adds E (system_permits E (nr_prefs A)) A A'"
  proof (rule attack_network.raw_induct [where P = "\<lambda>E A r. r = Returned A' \<longrightarrow> adds E (system_permits E (nr_prefs A)) A A'", OF _ assms(1)], rule impI)
    fix f E A and r :: "net_run reply"
    assume IH: "\<And>E A r. f E A = Some r \<Longrightarrow> r = Returned A' \<longrightarrow> adds E (system_permits E (nr_prefs A)) A A'"
      and s: "(case attack_pass E A of Exited \<Rightarrow> Some Exited | Unspecified \<Rightarrow> Some Unspecified | Hangs \<Rightarrow> Some Hangs
        | Returned r \<Rightarrow> if fst r then f E (snd r) else Some (Returned (snd r))) = Some r" and r: "r = Returned A'"
    obtain again B where B: "attack_pass E A = Returned (again, B)" using s r by (cases "attack_pass E A") auto
    have AB: "adds E (system_permits E (nr_prefs A)) A B"
      by (rule adds_mono [OF attack_pass_adds [OF B]]) (rule permitted_system)
    show "adds E (system_permits E (nr_prefs A)) A A'"
    proof (cases again)
      case True
      then have "adds E (system_permits E (nr_prefs B)) B A'" using IH [of E B r] s r B by simp
      then have "adds E (system_permits E (nr_prefs A)) B A'" using adds_mono adds_system [OF AB] by blast
      then show ?thesis using AB adds_trans by blast
    next
      case False
      then show ?thesis using s r B AB by simp
    qed
  qed
  then show ?thesis using assms(2) by blast
qed

text \<open>
  C1: every process of a whole scan tests a host that the lists \<open>sys_hosts_allow\<close> and
  \<open>sys_hosts_deny\<close> permit, as they were when the scan began, whatever the client sends while the
  scan waits for its hosts.
\<close>

theorem sys_restrictions_hold:
  assumes "attack_network E A = Some (Returned A')"
  shows "\<exists>fs. nr_forks A' = nr_forks A @ fs \<and> (\<forall>f \<in> set fs. system_permits E (nr_prefs A) f)"
  using attack_network_adds [OF assms refl] by (simp add: adds_def)

subsection \<open>Return of the scan\<close>

lemma attack_pass_once:
  assumes "network_phase_of E A = (d, False, B)" and "attack_pass E A = Returned r"
  shows "\<not> fst r"
  using assms by (auto simp: attack_pass_def start_scan_def scan_end_def Let_def split: option.splits if_splits prod.splits reply.splits)

lemma attack_network_once:
  assumes "\<And>r. attack_pass E A = Returned r \<Longrightarrow> \<not> fst r"
  shows "attack_network E A = Some (case attack_pass E A of
     Exited \<Rightarrow> Exited | Unspecified \<Rightarrow> Unspecified | Hangs \<Rightarrow> Hangs | Returned r \<Rightarrow> Returned (snd r))"
  using assms by (subst attack_network.simps) (auto split: reply.splits)

text \<open>
  The scan of hosts, without a scan of the network or after its first phase, does not call
  itself: the call ends with the outcome of one pass.
\<close>

theorem attack_network_returns:
  assumes "preferences_get_bool (n_gsh E) (nr_prefs A) ''network_scan'' \<noteq> 1
     \<or> (\<exists>st. sc_status (nr_scan A) = Some st \<and> strcaseeq st ''done'')"
  shows "attack_network E A = Some (case attack_pass E A of
     Exited \<Rightarrow> Exited | Unspecified \<Rightarrow> Unspecified | Hangs \<Rightarrow> Hangs | Returned r \<Rightarrow> Returned (snd r))"
proof (rule attack_network_once)
  fix r
  assume r: "attack_pass E A = Returned r"
  obtain d B where "network_phase_of E A = (d, False, B)" using assms
    by (cases "preferences_get_bool (n_gsh E) (nr_prefs A) ''network_scan'' = 1") (auto simp: network_phase_of_def)
  from attack_pass_once [OF this r] show "\<not> fst r" .
qed

text \<open>The state in which each pass of the network phase leads to the next.\<close>

definition no_targets :: "net_env \<Rightarrow> net_run \<Rightarrow> bool" where
  "no_targets E A \<longleftrightarrow> preferences_get_bool (n_gsh E) (nr_prefs A) ''network_scan'' = 1
     \<and> (\<forall>st. sc_status (nr_scan A) = Some st \<longrightarrow> \<not> strcaseeq st ''done'') \<and> sc_stop (nr_scan A) = 0
     \<and> (\<exists>tl. pref_str (n_gsh E) (nr_prefs A) ''TARGET'' = Some tl) \<and> targets_of E (nr_prefs A) = Some None
     \<and> validate_port_range (g_strsplit (n_lib E)) (g_strstrip (n_lib E)) (pref_str (n_gsh E) (nr_prefs A) ''port_range'') = 0
     \<and> plugins_scheduler_init (n_gsh E) (g_strsplit (n_lib E)) (n_dirname E) (n_build E) (n_nvti E) (sc_cache (nr_scan A))
         (Some (sc_plugins (nr_scan A))) (if preferences_get_bool (n_gsh E) (nr_prefs A) ''auto_enable_dependencies'' = 1 then 1 else 0) 1 \<noteq> None
     \<and> preferences_get_string (n_gsh E) (nr_prefs A) ''source_iface'' = None \<and> read_access E (nr_prefs A) \<noteq> None"

lemma busy_not_done: "\<not> strcaseeq ''busy'' ''done''"
  by code_simp

lemma no_targets_phase:
  assumes "no_targets E A"
  obtains B where "network_phase_of E A = (True, True, B)" "no_targets E B" "nr_prefs B = nr_prefs A"
proof (cases "sc_status (nr_scan A)")
  case None
  show ?thesis by (rule that [of "A\<lparr>nr_scan := (nr_scan A)\<lparr>sc_status := Some ''busy''\<rparr>\<rparr>"])
      (use None assms in \<open>simp_all add: no_targets_def network_phase_of_def busy_not_done\<close>)
next
  case (Some st)
  show ?thesis by (rule that [of A]) (use Some assms in \<open>simp_all add: no_targets_def network_phase_of_def\<close>)
qed

lemma no_targets_pass:
  assumes "no_targets E A"
  shows "\<exists>B. attack_pass E A = Returned (True, B) \<and> no_targets E B"
proof -
  obtain B where B: "network_phase_of E A = (True, True, B)" "no_targets E B" "nr_prefs B = nr_prefs A" using no_targets_phase [OF assms] .
  obtain sch where sch: "plugins_scheduler_init (n_gsh E) (g_strsplit (n_lib E)) (n_dirname E) (n_build E) (n_nvti E) (sc_cache (nr_scan B))
         (Some (sc_plugins (nr_scan B))) (if preferences_get_bool (n_gsh E) (nr_prefs B) ''auto_enable_dependencies'' = 1 then 1 else 0) 1 = Some sch"
    using B(2) by (auto simp: no_targets_def)
  have ss: "start_scan E True sch None B = Returned (True, B)"
    using B(2) by (auto simp: start_scan_def scan_end_def no_targets_def)
  have si: "apply_source_iface_preference E B = (0, B)" using B(2) by (simp add: apply_source_iface_preference_def no_targets_def)
  obtain tl where tl: "pref_str (n_gsh E) (nr_prefs B) ''TARGET'' = Some tl" using B(2) by (auto simp: no_targets_def)
  have "Option.bind (openvas_hosts_new (n_lib E) (Some tl)) (apply_hosts_preferences E (nr_prefs B)) = Some None"
    using B(2) tl by (simp add: no_targets_def targets_of_def)
  then have "attack_pass E A = Returned (True, B)"
    using B(1,2) sch ss si tl by (simp add: attack_pass_def Let_def no_targets_def)
  then show ?thesis using B(2) by blast
qed

text \<open>
  C38: when the network is to be scanned and the text of the targets names no hosts at all, because
  the parser refuses it, the call never returns: no pass marks the first phase as done, and each
  pass starts the next one.
\<close>

theorem network_scan_without_hosts_diverges:
  assumes "no_targets E A"
  shows "attack_network E A = None"
proof (rule ccontr)
  assume "attack_network E A \<noteq> None"
  then obtain r where r: "attack_network E A = Some r" by blast
  have "no_targets E A \<longrightarrow> False"
  proof (rule attack_network.raw_induct [where P = "\<lambda>E A r. no_targets E A \<longrightarrow> False", OF _ r], rule impI)
    fix f E A and r :: "net_run reply"
    assume IH: "\<And>E A r. f E A = Some r \<Longrightarrow> no_targets E A \<longrightarrow> False"
      and s: "(case attack_pass E A of Exited \<Rightarrow> Some Exited | Unspecified \<Rightarrow> Some Unspecified | Hangs \<Rightarrow> Some Hangs
        | Returned r \<Rightarrow> if fst r then f E (snd r) else Some (Returned (snd r))) = Some r" and n: "no_targets E A"
    obtain B where "attack_pass E A = Returned (True, B)" "no_targets E B" using no_targets_pass [OF n] by blast
    then show False using IH [of E B r] s by simp
  qed
  then show False using assms by blast
qed

subsection \<open>Forbidden interfaces\<close>

definition iface_forbidden :: "net_env \<Rightarrow> prefs \<Rightarrow> string \<Rightarrow> bool" where
  "iface_forbidden E prefs i \<longleftrightarrow> (\<exists>p \<in> {[], ''sys_''}.
     (\<exists>l. preferences_get_string (n_gsh E) prefs (p @ ''ifaces_deny'') = Some l \<and> str_in_comma_list (n_lib E) (Some i) (Some l))
     \<or> (\<exists>l. preferences_get_string (n_gsh E) prefs (p @ ''ifaces_allow'') = Some l \<and> \<not> str_in_comma_list (n_lib E) (Some i) (Some l)))"

lemma iface_authorized_exact: "iface_authorized E (Some i) prefs < 0 \<longleftrightarrow> iface_forbidden E prefs i"
  by (auto simp: iface_authorized_def iface_forbidden_def Let_def split: option.splits)

lemma forbidden_source:
  assumes "preferences_get_string (n_gsh E) (nr_prefs A) ''source_iface'' = Some i" and "iface_forbidden E (nr_prefs A) i"
  shows "\<exists>B. apply_source_iface_preference E A = (-1, B) \<and> nr_forks B = nr_forks A \<and> nr_source B = nr_source A"
proof -
  have "iface_authorized E (Some i) (nr_prefs A) \<in> {-1, -2}"
    using assms(2) unfolding iface_authorized_exact [symmetric] by (auto simp: iface_authorized_def Let_def split: if_splits)
  then show ?thesis using assms(1) by (auto simp: apply_source_iface_preference_def error_message_to_client_def)
qed

lemma forbidden_pass:
  assumes "preferences_get_string (n_gsh E) (nr_prefs A) ''source_iface'' = Some i" and "iface_forbidden E (nr_prefs A) i"
    and "attack_pass E A = Returned r"
  shows "\<not> fst r \<and> nr_forks (snd r) = nr_forks A \<and> nr_source (snd r) = nr_source A"
proof -
  obtain d ph B where B: "network_phase_of E A = (d, ph, B)" by (metis prod_cases3)
  have fB: "nr_forks B = nr_forks A" "nr_prefs B = nr_prefs A" "nr_source B = nr_source A"
    using B by (auto simp: network_phase_of_def split: if_splits option.splits)
  obtain C where C: "apply_source_iface_preference E B = (-1, C)" "nr_forks C = nr_forks B" "nr_source C = nr_source B"
    using forbidden_source [of E B i] assms(1,2) fB by auto
  show ?thesis using assms(3) B fB C
    by (auto simp: attack_pass_def Let_def error_message_to_client_def split: option.splits if_splits)
qed

text \<open>
  When the chosen source interface is on a list of denied interfaces, or missing on a list of
  allowed ones, of the client or of the system, the call returns without starting a process and
  without changing the source addresses.
\<close>

theorem forbidden_iface_starts_nothing:
  assumes "preferences_get_string (n_gsh E) (nr_prefs A) ''source_iface'' = Some i" and "iface_forbidden E (nr_prefs A) i"
  shows "\<exists>r. attack_network E A = Some r \<and> (\<forall>A'. r = Returned A' \<longrightarrow> nr_forks A' = nr_forks A \<and> nr_source A' = nr_source A)"
  using attack_network_once [of E A] forbidden_pass [OF assms] by (auto split: reply.splits)

subsection \<open>Witnesses\<close>

definition pref0 :: "string \<Rightarrow> string \<Rightarrow> arglist" where
  "pref0 n v = Arg n ARG_STRING (A_str v) (int (length v)) 0"

definition nvti0 :: nvti where
  "nvti0 = \<lparr>nvti_category = 3, nvti_timeout = 0, nvti_dependencies = None, nvti_required_ports = None, nvti_required_udp_ports = None,
     nvti_required_keys = None, nvti_mandatory_keys = None, nvti_excluded_keys = None\<rparr>"

definition net0 :: net_env where
  "net0 = \<lparr>n_lib = ref_netlib, n_keys = keyfiles0, n_rnd = (\<lambda>_. 0), n_ifs = None, n_max_hosts = 5, n_soc = 3,
     n_local = (\<lambda>_. False), n_mac = (\<lambda>_. (-1, None)), n_pair = (\<lambda>_. Some \<lparr>hs_fd0 = 7, hs_fd1 = 8, hs_conn = h_conn host0\<rparr>),
     n_fork = (\<lambda>_. 100), n_dirname = id, n_build = (\<lambda>a b. a @ b), n_nvti = (\<lambda>_. nvti0)\<rparr>"

definition netprefs0 :: "(string \<times> string) list \<Rightarrow> prefs" where
  "netprefs0 ps = Some (map (\<lambda>(n, v). pref0 n v) ps)"

definition netrun0 :: "(string \<times> string) list \<Rightarrow> net_run" where
  "netrun0 ps = \<lparr>nr_scan = scan0\<lparr>sc_hosts := table0\<lparr>ht_list := []\<rparr>, sc_prefs := netprefs0 ps\<rparr>,
     nr_source = \<lparr>source_iface = [], source_addr = 0, source_addr6 = []\<rparr>, nr_retries = 0, nr_tries = 0, nr_pairs = 0, nr_forks = [],
     nr_moments = [(Client_lost, dead)]\<rparr>"

lemma net0_fields [simp]:
  "n_lib net0 = ref_netlib" "n_keys net0 = keyfiles0" "n_ifs net0 = None" "n_max_hosts net0 = 5" "n_soc net0 = 3"
  "n_local net0 = (\<lambda>_. False)" "n_pair net0 = (\<lambda>_. Some \<lparr>hs_fd0 = 7, hs_fd1 = 8, hs_conn = h_conn host0\<rparr>)"
  "n_fork net0 = (\<lambda>_. 100)" "kf_gsh keyfiles0 = (\<lambda>_. 0)"
  by (simp_all add: net0_def keyfiles0_def)

lemma netrun0_fields [simp]:
  "nr_prefs (netrun0 ps) = netprefs0 ps" "sc_plugins (nr_scan (netrun0 ps)) = []" "sc_status (nr_scan (netrun0 ps)) = None"
  "sc_stop (nr_scan (netrun0 ps)) = 0" "nr_forks (netrun0 ps) = []"
  by (simp_all add: netrun0_def scan0_def)

lemma pref0_str [simp]: "pref_str (\<lambda>_. 0) (netprefs0 ps) n = map_of ps n"
  by (induction ps) (auto simp: netprefs0_def pref_str_def arg_get_value_def arg_get_def pref0_def mkhash_def)

lemma no_plugins: "plugins_scheduler_init gsh sp dn bd nv c (Some []) al n \<noteq> None"
  by (auto simp: plugins_scheduler_init_def fill_all_def Let_def)

lemma target1: "openvas_hosts_new ref_netlib (Some ''10.0.0.1'')
  = Some (Some \<lparr>orig_str = ''10.0.0.1'', hosts = [Host_addr 0x0a000001], current = [Host_addr 0x0a000001], count = 1, removed = 0\<rparr>)"
  by code_simp

lemma denied_host: "openvas_hosts_new ref_netlib (Some ''10.0.0.2'')
  = Some (Some \<lparr>orig_str = ''10.0.0.2'', hosts = [Host_addr 0x0a000002], current = [Host_addr 0x0a000002], count = 1, removed = 0\<rparr>)"
  by code_simp

lemma bad_hosts: "openvas_hosts_new ref_netlib (Some ''10.0.0.2,10.0.0.3/99'') = Some None"
  by code_simp

lemma single_port: "validate_port_range glib_strsplit glib_strstrip (Some ''80'') = 0"
  by code_simp

lemma no_hosts [simp]: "openvas_hosts_new L None = Some None"
  by (simp add: openvas_hosts_new_def openvas_hosts_new_with_max_def)

definition host1 :: in6_addr where "host1 = [0,0,0,0,0,0,0,0,0,0,255,255,10,0,0,1]"
definition host2 :: in6_addr where "host2 = [0,0,0,0,0,0,0,0,0,0,255,255,10,0,0,2]"

lemma two_hosts:
  "openvas_host_value_str ref_netlib (Host_addr 0x0a000001) = Some ''10.0.0.1''" "openvas_host_value_str ref_netlib (Host_addr 0x0a000002) = Some ''10.0.0.2''"
  "openvas_host_get_addr6 ref_netlib (Host_addr 0x0a000001) = Some (Some host1)" "openvas_host_get_addr6 ref_netlib (Host_addr 0x0a000002) = Some (Some host2)"
  unfolding host1_def host2_def by code_simp+

definition deny2 :: openvas_hosts where
  "deny2 = \<lparr>orig_str = ''10.0.0.2'', hosts = [Host_addr 0x0a000002], current = [Host_addr 0x0a000002], count = 1, removed = 0\<rparr>"

lemma denied:
  "\<not> openvas_host_in_hosts ref_netlib (Some (Host_addr 0x0a000001)) (Some host1) (Some deny2)"
  "openvas_host_in_hosts ref_netlib (Some (Host_addr 0x0a000002)) (Some host2) (Some deny2)"
  unfolding host1_def host2_def deny2_def by code_simp+

lemma ref_glib: "g_strsplit ref_netlib = glib_strsplit" "g_strstrip ref_netlib = glib_strstrip"
  by (simp_all add: ref_netlib_def)

lemma ready_host:
  assumes h: "ht_list (sc_hosts (nr_scan B)) = []" "g_max_hosts (sc_hosts (nr_scan B)) = 5" "g_soc (sc_hosts (nr_scan B)) = 3"
    and B: "nr_moments B = [(Client_lost, dead)]"
  shows "\<exists>C f. start_host net0 sch x nm ip B = Returned (None, True, C) \<and> nr_forks C = nr_forks B @ [f] \<and> fk_ip f = ip
    \<and> (\<exists>S. wait_hosts keyfiles0 (nr_moments C) (nr_scan C) = Returned (S, []) \<and> sc_stop S = sc_stop (nr_scan B))"
proof -
  obtain S where n: "hosts_new keyfiles0 (Some \<lparr>hs_fd0 = 7, hs_fd1 = 8, hs_conn = h_conn host0\<rparr>) nm [(Client_lost, dead)] (nr_scan B) = Returned (7, S, [(Client_lost, dead)])"
    and S: "g_soc (sc_hosts S) = 3" "sc_stop S = sc_stop (nr_scan B)"
    using h by (simp add: hosts_new.simps hosts_num_def hosts_add_def)
  define C where "C = B\<lparr>nr_scan := S\<lparr>sc_hosts := snd (hosts_set_pid nm 100 (sc_hosts S))\<rparr>, nr_pairs := nr_pairs B + 1, nr_tries := nr_tries B + 1,
    nr_forks := nr_forks B @ [\<lparr>fk_host = x, fk_ip = ip, fk_mac = None, fk_soc = 7, fk_pid = 100, fk_sched = sch\<rparr>]\<rparr>"
  have "start_host net0 sch x nm ip B = Returned (None, True, C)"
    using n B by (simp add: start_host_def Let_def fork_again.simps C_def)
  moreover have "g_soc (sc_hosts (nr_scan C)) = 3" using S by (simp add: C_def hosts_set_pid_def split: option.splits)
  then have "\<exists>S'. wait_hosts keyfiles0 [(Client_lost, dead)] (nr_scan C) = Returned (S', []) \<and> sc_stop S' = sc_stop (nr_scan C)"
    by (simp add: hosts_read_def hosts_read_client_def)
  ultimately show ?thesis using S B by (auto simp: C_def)
qed

lemma no_lists: "host_authorized L (Some x) ip None None"
  by (simp add: host_authorized_def)

lemma one_target:
  assumes t: "openvas_hosts_new ref_netlib (Some t) = Some (Some h)" "current h = [x]" "openvas_host_value_str ref_netlib x = Some nm"
      "openvas_host_get_addr6 ref_netlib x = Some (Some ip)"
    and d: "openvas_hosts_new ref_netlib (Some d) = Some dl" "d \<noteq> []" "d \<noteq> ''no''" "host_authorized ref_netlib (Some x) (Some ip) None dl"
  shows "\<exists>A' f. attack_pass net0 (netrun0 [(''TARGET'', t), (''port_range'', ''80''), (''sys_hosts_deny'', d)]) = Returned (False, A')
     \<and> nr_forks A' = [f] \<and> fk_ip f = ip"
proof -
  let ?A = "netrun0 [(''TARGET'', t), (''port_range'', ''80''), (''sys_hosts_deny'', d)]"
  let ?acc = "\<lparr>hosts_allow = None, hosts_deny = None, sys_hosts_allow = None, sys_hosts_deny = dl\<rparr>"
  obtain sch where sch: "plugins_scheduler_init (\<lambda>_. 0) glib_strsplit (n_dirname net0) (n_build net0) (n_nvti net0) (sc_cache (nr_scan ?A)) (Some []) 0 0 = Some sch"
    using no_plugins by blast
  define B where "B = ?A\<lparr>nr_retries := 0, nr_scan := (nr_scan ?A)\<lparr>sc_hosts := hosts_init 3 5 (sc_hosts (nr_scan ?A))\<rparr>\<rparr>"
  have "ht_list (sc_hosts (nr_scan B)) = []" "g_max_hosts (sc_hosts (nr_scan B)) = 5" "g_soc (sc_hosts (nr_scan B)) = 3"
    "nr_moments B = [(Client_lost, dead)]" and B: "nr_forks B = []" "sc_stop (nr_scan B) = 0"
    by (simp_all add: B_def hosts_init_def netrun0_def scan0_def table0_def)
  from ready_host [OF this(1-4), of sch x nm ip] obtain C f S
    where s: "start_host net0 sch x nm ip B = Returned (None, True, C)" "nr_forks C = [f]" "fk_ip f = ip"
      and w: "wait_hosts keyfiles0 (nr_moments C) (nr_scan C) = Returned (S, [])"
    using B by auto
  have r: "read_access net0 (nr_prefs ?A) = Some ?acc"
    using d by (simp add: read_access_def preferences_get_string_def Let_def)
  have a: "attack_hosts net0 False ?acc sch [x] B = Returned (Hosts_done, C)"
    using s(1) t d(4) no_lists [of ref_netlib x "Some ip"] by (simp add: Let_def)
  have m: "get_max_hosts_number (\<lambda>_. 0) (nr_prefs ?A) 5 = 5"
    by (simp add: get_max_hosts_number_def max_number_def)
  have ss: "start_scan net0 False sch (Some h) ?A = Returned (scan_end Hosts_done False (C\<lparr>nr_scan := S, nr_moments := []\<rparr>))"
    using a w r m t(2) by (simp add: start_scan_def B_def Let_def del: attack_hosts.simps netrun0_fields(1))
  have p: "network_phase_of net0 ?A = (False, False, ?A)" by (simp add: network_phase_of_def preferences_get_bool_def)
  have i: "apply_source_iface_preference net0 ?A = (0, ?A)" by (simp add: apply_source_iface_preference_def preferences_get_string_def)
  have hp: "apply_hosts_preferences net0 (nr_prefs ?A) (Some h) = Some (Some h)"
    by (simp add: apply_hosts_preferences_def preferences_get_string_def preferences_get_bool_def Let_def)
  have "attack_pass net0 ?A = Returned (scan_end Hosts_done False (C\<lparr>nr_scan := S, nr_moments := []\<rparr>))"
    using p i sch ss t(1) hp by (simp add: attack_pass_def Let_def ref_glib single_port preferences_get_bool_def)
  then show ?thesis using s by (simp add: scan_end_def Let_def)
qed

lemma denied_other: "host_authorized ref_netlib (Some (Host_addr 0x0a000001)) (Some host1) None (Some deny2)"
  using denied(1) by (simp add: host_authorized_def)

lemma target1_tested:
  "\<exists>A' f. attack_pass net0 (netrun0 [(''TARGET'', ''10.0.0.1''), (''port_range'', ''80''), (''sys_hosts_deny'', ''10.0.0.2'')]) = Returned (False, A')
     \<and> nr_forks A' = [f] \<and> fk_ip f = host1"
  by (rule one_target [OF target1 _ two_hosts(1) two_hosts(3) denied_host _ _ denied_other [unfolded deny2_def]]) simp_all

theorem attack_pass_authorized_witness:
  "\<exists>A' f. attack_pass net0 (netrun0 [(''TARGET'', ''10.0.0.1''), (''port_range'', ''80''), (''sys_hosts_deny'', ''10.0.0.2'')]) = Returned (False, A')
     \<and> nr_forks A' = [f] \<and> fk_ip f = host1
     \<and> permitted net0 (netprefs0 [(''TARGET'', ''10.0.0.1''), (''port_range'', ''80''), (''sys_hosts_deny'', ''10.0.0.2'')]) f"
  using target1_tested attack_pass_authorized [of net0 "netrun0 [(''TARGET'', ''10.0.0.1''), (''port_range'', ''80''), (''sys_hosts_deny'', ''10.0.0.2'')]" False]
  by fastforce

theorem sys_restrictions_hold_witness:
  "\<exists>A' f. attack_network net0 (netrun0 [(''TARGET'', ''10.0.0.1''), (''port_range'', ''80''), (''sys_hosts_deny'', ''10.0.0.2'')]) = Some (Returned A')
     \<and> nr_forks A' = [f] \<and> fk_ip f = host1
     \<and> system_permits net0 (netprefs0 [(''TARGET'', ''10.0.0.1''), (''port_range'', ''80''), (''sys_hosts_deny'', ''10.0.0.2'')]) f"
proof -
  let ?A = "netrun0 [(''TARGET'', ''10.0.0.1''), (''port_range'', ''80''), (''sys_hosts_deny'', ''10.0.0.2'')]"
  obtain A' f where p: "attack_pass net0 ?A = Returned (False, A')" "nr_forks A' = [f]" "fk_ip f = host1" using target1_tested by blast
  then have n: "attack_network net0 ?A = Some (Returned A')" by (subst attack_network_once) auto
  from sys_restrictions_hold [OF n] p n show ?thesis by auto
qed

theorem attack_network_returns_witness:
  "\<exists>A' f. attack_network net0 (netrun0 [(''TARGET'', ''10.0.0.1''), (''port_range'', ''80''), (''sys_hosts_deny'', ''10.0.0.2'')]) = Some (Returned A')
     \<and> nr_forks A' = [f]"
  using target1_tested attack_network_returns [of net0 "netrun0 [(''TARGET'', ''10.0.0.1''), (''port_range'', ''80''), (''sys_hosts_deny'', ''10.0.0.2'')]"]
  by (auto simp: preferences_get_bool_def)

theorem network_scan_without_hosts_diverges_witness:
  "attack_network net0 (netrun0 [(''TARGET'', ''10.0.0.2,10.0.0.3/99''), (''port_range'', ''80''), (''network_scan'', ''yes'')]) = None"
  by (rule network_scan_without_hosts_diverges)
     (use no_plugins in \<open>simp add: no_targets_def preferences_get_bool_def preferences_get_string_def targets_of_def bad_hosts
        apply_hosts_preferences_def ref_glib single_port read_access_def Let_def\<close>)

theorem forbidden_iface_starts_nothing_witness:
  "\<exists>r. attack_network net0 (netrun0 [(''TARGET'', ''10.0.0.1''), (''port_range'', ''80''), (''source_iface'', ''eth0''), (''sys_ifaces_deny'', ''lo, eth0'')]) = Some r
     \<and> (\<forall>A'. r = Returned A' \<longrightarrow> nr_forks A' = [])"
proof -
  let ?A = "netrun0 [(''TARGET'', ''10.0.0.1''), (''port_range'', ''80''), (''source_iface'', ''eth0''), (''sys_ifaces_deny'', ''lo, eth0'')]"
  have "str_in_comma_list ref_netlib (Some ''eth0'') (Some ''lo, eth0'')" by code_simp
  then have "iface_forbidden net0 (nr_prefs ?A) ''eth0''" by (simp add: iface_forbidden_def preferences_get_string_def)
  from forbidden_iface_starts_nothing [OF _ this] show ?thesis by (auto simp: preferences_get_string_def)
qed

subsection \<open>Lists that cannot be parsed\<close>


end
