(* ===== verification/AttackStart.thy ===== *)
theory AttackStart
  imports Attack Client Hosts
begin

text \<open>
  The process that tests one host, \<open>attack_start\<close> of \<open>openvas-scanner/src/attack.c\<close>: what the
  plugins are told of the host (\<open>attack_init_hostinfos\<close>), the knowledge base that it starts with
  (\<open>init_host_kb\<close>: results of the scan of the network, accounts of the client for local checks,
  names of virtual hosts), and then \<open>attack_host\<close>. The globals that these functions read and change
  are the fields of \<open>host_run\<close>; \<open>start_env\<close> holds functions of the libraries and of the system.
  The process first closes descriptors that it inherited; \<open>hr_saver\<close> is the state of files after
  that.
\<close>

subsection \<open>Data\<close>

record start_env =
  st_lib :: netlib
  st_sys :: sysenv
  st_gsh :: "string \<Rightarrow> u32"
  st_pattern :: "string \<Rightarrow> string \<Rightarrow> bool"
  st_fnmatch :: "string \<Rightarrow> string \<Rightarrow> bool"
  st_dup2 :: "int \<Rightarrow> int"
  st_ctime :: "nat \<Rightarrow> string"

record attack_start_args =
  hostip :: in6_addr
  host_mac_addr :: "string option"
  thread_socket :: int
  fqdn :: string

record host_run =
  hr_status :: "string option"
  hr_prefs :: prefs
  hr_cache :: name_cache
  hr_saver :: saver
  hr_tested :: "string option"
  hr_host_logins :: "(string \<times> string) list option"
  hr_logins :: "(string \<times> ssh_login) list option"
  hr_files :: "(string \<Rightarrow> string option) option"

subsection \<open>What the plugins are told\<close>

text \<open>A value that is NULL is not added.\<close>

definition add_info :: "(string \<Rightarrow> u32) \<Rightarrow> string \<Rightarrow> string option \<Rightarrow> name_cache \<times> arglist list option \<Rightarrow> name_cache \<times> arglist list option" where
  "add_info gsh n v x =
     (case v of None \<Rightarrow> x | Some s \<Rightarrow> arg_add_value gsh (fst x) (snd x) n ARG_STRING (int (length s)) (A_str s))"

definition attack_init_hostinfos_vhosts ::
  "(string \<Rightarrow> u32) \<Rightarrow> name_cache \<Rightarrow> string option \<Rightarrow> string \<Rightarrow> in6_addr \<Rightarrow> string option \<Rightarrow> string option \<Rightarrow> name_cache \<times> arglist list option" where
  "attack_init_hostinfos_vhosts gsh c mac hostname ip vhosts fq =
     (let x = (case mac of
                 Some m \<Rightarrow> add_info gsh ''MAC'' (Some m) (add_info gsh ''NAME'' (Some m) (c, Some []))
               | None \<Rightarrow> add_info gsh ''NAME'' (Some hostname) (c, Some []));
          x = add_info gsh ''FQDN'' fq x;
          x = arg_add_value gsh (fst x) (snd x) ''IP'' ARG_PTR 16 (A_struct ip)
      in add_info gsh ''VHOSTS'' vhosts x)"

definition attack_init_hostinfos ::
  "(string \<Rightarrow> u32) \<Rightarrow> name_cache \<Rightarrow> string option \<Rightarrow> string \<Rightarrow> in6_addr \<Rightarrow> string option \<Rightarrow> name_cache \<times> arglist list option" where
  "attack_init_hostinfos gsh c mac hostname ip fq =
     (let x = (case mac of
                 Some m \<Rightarrow> add_info gsh ''MAC'' (Some m) (add_info gsh ''NAME'' (Some m) (c, Some []))
               | None \<Rightarrow> add_info gsh ''NAME'' (Some hostname) (c, Some []));
          x = add_info gsh ''FQDN'' fq x
      in arg_add_value gsh (fst x) (snd x) ''IP'' ARG_PTR 16 (A_struct ip))"

subsection \<open>Accounts for local checks\<close>

definition is_pattern :: "string option \<Rightarrow> bool" where
  "is_pattern str = (case str of None \<Rightarrow> False | Some s \<Rightarrow> CHR ''*'' \<in> set s \<or> CHR ''?'' \<in> set s)"

definition pattern_matches :: "(string \<Rightarrow> string \<Rightarrow> bool) \<Rightarrow> string \<Rightarrow> string \<Rightarrow> bool" where
  "pattern_matches g_pattern_match_simple key_pattern hostname =
     (if \<not> is_pattern (Some key_pattern) then False else g_pattern_match_simple key_pattern hostname)"

text \<open>
  The account for a host. A hash table is the list of its entries in the order in which it is
  searched.
\<close>

definition find_login ::
  "(string \<Rightarrow> string \<Rightarrow> bool) \<Rightarrow> (string \<times> string) list \<Rightarrow> (string \<times> ssh_login) list \<Rightarrow> string \<Rightarrow> ssh_login option" where
  "find_login gpm hmap logins hostname =
     (let account = map_of hmap hostname;
          login = Option.bind account (map_of logins);
          (account, login) =
            (if account = None \<or> login = None then
               let account = map_option snd (find (\<lambda>(k, v). pattern_matches gpm k hostname) hmap)
               in (account, case account of None \<Rightarrow> login | Some a \<Rightarrow> map_of logins a)
             else (account, login))
      in if account = None \<or> login = None then Option.bind (map_of hmap ''Default'') (map_of logins)
         else login)"

definition set_item :: "string \<Rightarrow> string option \<Rightarrow> kb option \<Rightarrow> kb option" where
  "set_item n v kb = (case v of None \<Rightarrow> kb | Some s \<Rightarrow> snd (kb_item_set_str kb n s))"

definition fill_host_kb_ssh_credentials :: "start_env \<Rightarrow> host_run \<Rightarrow> string \<Rightarrow> kb option \<Rightarrow> kb option" where
  "fill_host_kb_ssh_credentials E R hostname kb =
     (case (hr_host_logins R, hr_logins R) of
        (Some hmap, Some logins) \<Rightarrow>
          (case find_login (st_pattern E) hmap logins hostname of
             None \<Rightarrow> kb
           | Some login \<Rightarrow>
               (case hr_files R of
                  None \<Rightarrow> kb
                | Some files \<Rightarrow>
                    let kb = set_item ''Secret/SSH/login'' (username login) kb;
                        kb = set_item ''Secret/SSH/password'' (userpassword login) kb;
                        kb = set_item ''Secret/SSH/passphrase'' (ssh_key_passphrase login) kb;
                        kb = set_item ''Secret/SSH/publickey'' (Option.bind (public_key_path login) files) kb
                    in set_item ''Secret/SSH/privatekey'' (Option.bind (private_key_path login) files) kb))
      | _ \<Rightarrow> kb)"

subsection \<open>The knowledge base of the host\<close>

text \<open>A value that is added to the knowledge base and written to its file.\<close>

definition add_saved :: "sysenv \<Rightarrow> string \<Rightarrow> string \<Rightarrow> kb_value \<Rightarrow> kb option \<times> saver \<Rightarrow> kb option \<times> saver" where
  "add_saved S hostname n v x =
     (case v of
        V_str s \<Rightarrow> (snd (kb_item_add_str (fst x) n s), snd (save_kb_write_str S (Some hostname) (Some n) (Some s) (snd x)))
      | V_int i \<Rightarrow> (snd (kb_item_add_int (fst x) n i), snd (save_kb_write_int S (Some hostname) (Some n) i (snd x))))"

text \<open>The name of a result of the network without the name of the host.\<close>

definition own_name :: "string \<Rightarrow> string" where
  "own_name n = tl (dropWhile (\<lambda>c. c \<noteq> CHR ''/'') n)"

text \<open>The results of the scan of the network for a host; loading them opens their file.\<close>

definition network_results :: "start_env \<Rightarrow> string \<Rightarrow> host_run \<Rightarrow> (kb_item list \<times> host_run) option" where
  "network_results E hostname R =
     (case hr_status R of
        Some st \<Rightarrow>
          if strcaseeq st ''done''
          then map_option (\<lambda>(nkb, V). (kb_item_get_pattern (st_fnmatch E) nkb (hostname @ ''/*''), R\<lparr>hr_saver := V\<rparr>))
                 (save_kb_load_kb (st_sys E) ''network'' (hr_saver R))
          else Some ([], R)
      | None \<Rightarrow> Some ([], R))"

text \<open>
  The knowledge base, and whether it is new. None: the saved file cannot be read, or a result has
  no slash in its name.
\<close>

definition init_host_kb ::
  "start_env \<Rightarrow> string \<Rightarrow> arglist list option \<Rightarrow> host_run \<Rightarrow> (kb option \<times> bool \<times> host_run) option" where
  "init_host_kb E hostname hostinfos R =
     (let S = st_sys E in
      case network_results E hostname R of
        None \<Rightarrow> None
      | Some (results, R) \<Rightarrow>
          if is_busy (hr_status R)
          then Some (Some kb_new, True, R\<lparr>hr_tested := Some ''network'', hr_saver := snd (save_kb_new S (Some ''network'') (hr_saver R))\<rparr>)
          else
            (case (if save_kb (Some (\<lambda>n. if n = ''network_scan_status'' then hr_status R else None)) then
                     let (ex, V) = save_kb_exists S hostname (hr_saver R) in
                     map_option (\<lambda>(kb, new_kb, V). (kb, new_kb, R\<lparr>hr_saver := V, hr_tested := Some hostname\<rparr>))
                       (if ex then map_option (\<lambda>(kb, V). (kb, False, V)) (save_kb_load_kb S hostname (snd (save_kb_backup S hostname V)))
                        else Some (Some kb_new, True, snd (save_kb_new S (Some hostname) V)))
                   else Some (Some kb_new, False, R)) of
               None \<Rightarrow> None
             | Some (kb, new_kb, R) \<Rightarrow>
                 if list_ex (\<lambda>it. CHR ''/'' \<notin> set (kb_name it)) results then None
                 else
                   let kb = fill_host_kb_ssh_credentials E R hostname kb;
                       x = (kb, hr_saver R);
                       x = (case pref_str (st_gsh E) hostinfos ''VHOSTS'' of
                              None \<Rightarrow> x
                            | Some vh \<Rightarrow> foldl (\<lambda>x v. add_saved S hostname ''hostinfos/vhosts'' (V_str v) x) x (g_strsplit (st_lib E) vh '',''));
                       x = foldl (\<lambda>x it. add_saved S hostname (own_name (kb_name it)) (kb_v it) x) x results
                   in Some (fst x, new_kb, R\<lparr>hr_saver := snd x\<rparr>)))"

subsection \<open>The process of a host\<close>

text \<open>\<open>IN6_IS_ADDR_V4MAPPED\<close> and the IPv4 address within such an address.\<close>

definition v4mapped :: "in6_addr \<Rightarrow> bool" where
  "v4mapped a \<longleftrightarrow> take 12 a = [0, 0, 0, 0, 0, 0, 0, 0, 0, 0, 255, 255]"

definition addr4_of :: "in6_addr \<Rightarrow> in_addr" where
  "addr4_of a = word_of_int (uint (a ! 12) * 2 ^ 24 + uint (a ! 13) * 2 ^ 16 + uint (a ! 14) * 2 ^ 8 + uint (a ! 15))"

definition host_text :: "netlib \<Rightarrow> in6_addr \<Rightarrow> string option" where
  "host_text L a = (if v4mapped a then inet_ntop4 L (addr4_of a) else inet_ntop6 L a)"

text \<open>The message with the time, of at most 1023 characters.\<close>

definition ntp_timestamp_scan_host :: "string \<Rightarrow> string \<Rightarrow> string \<Rightarrow> string" where
  "ntp_timestamp_scan_host timestr msg hst =
     snprintf 1024 (''SERVER <|> TIME <|> '' @ msg @ '' <|> '' @ hst @ '' <|> ''
       @ (if timestr \<noteq> [] \<and> last timestr = CHR 0x0A then butlast timestr else timestr) @ '' <|> SERVER'' @ [CHR 0x0A])"

definition tell :: "string \<Rightarrow> attack \<Rightarrow> attack" where
  "tell m A = A\<lparr>client := client A @ [m]\<rparr>"

text \<open>The preferences with the ports that are not to be tested at the same time.\<close>

definition set_non_simult :: "(string \<Rightarrow> u32) \<Rightarrow> name_cache \<times> prefs \<Rightarrow> name_cache \<times> prefs" where
  "set_non_simult gsh x =
     (let non_simult = pref_str gsh (snd x) ''non_simult_ports'';
          (ns, x) = (case non_simult of
                       Some s \<Rightarrow> (s, x)
                     | None \<Rightarrow> (''139, 445'', add_info gsh ''non_simult_ports'' (Some ''139, 445'') x));
          (c, l) = list2arglist gsh (fst x) (Some ns)
      in arg_add_value gsh c (snd x) ''non_simult_ports_list'' ARG_ARGLIST (-1) (case l of None \<Rightarrow> A_null | Some l \<Rightarrow> A_list l))"

definition host_infos :: "start_env \<Rightarrow> attack_start_args \<Rightarrow> prefs \<Rightarrow> name_cache \<Rightarrow> string \<Rightarrow> name_cache \<times> arglist list option" where
  "host_infos E a prefs c host_str =
     (case (pref_str (st_gsh E) prefs ''vhosts'', pref_str (st_gsh E) prefs ''vhosts_ip'') of
        (Some vhosts, Some vhosts_ip) \<Rightarrow>
          attack_init_hostinfos_vhosts (st_gsh E) c (host_mac_addr a) host_str (hostip a)
            (if vhosts_ip \<noteq> host_str then None else Some vhosts) (Some (fqdn a))
      | _ \<Rightarrow> attack_init_hostinfos (st_gsh E) c (host_mac_addr a) host_str (hostip a) (Some (fqdn a)))"

text \<open>
  The whole process: the environment and the state for \<open>attack_host\<close> are completed with what is
  set up here. None: it never ends.
\<close>

definition attack_start ::
  "start_env \<Rightarrow> attack_start_args \<Rightarrow> host_run \<Rightarrow> attack_env \<Rightarrow> tick list \<Rightarrow> attack
     \<Rightarrow> (attack_end \<times> attack \<times> tick list \<times> host_run) outcome option" where
  "attack_start E a R X ts A =
     (case host_text (st_lib E) (hostip a) of
        None \<Rightarrow> Some Undefined
      | Some host_str \<Rightarrow>
          let gsh = st_gsh E;
              (c, prefs) = set_non_simult gsh (hr_cache R, hr_prefs R);
              (c, infos) = host_infos E a (hr_prefs R) c host_str;
              host_str = (case host_mac_addr a of None \<Rightarrow> host_str | Some m \<Rightarrow> m);
              A = tell (ntp_timestamp_scan_host (st_ctime E 0) ''HOST_START'' host_str) A
          in case init_host_kb E host_str infos (R\<lparr>hr_cache := c, hr_prefs := prefs\<rparr>) of
               None \<Rightarrow> Some Undefined
             | Some (kb, new_kb, R) \<Rightarrow>
                 let X = X\<lparr>e_prefs := prefs, e_status := hr_status R, e_soc := st_dup2 E (thread_socket a), e_host := host_str, e_new_kb := new_kb\<rparr>;
                     A = A\<lparr>la := (la A)\<lparr>host_kb := kb, host_name := pref_str gsh infos ''NAME'',
                           saving_kb := (hr_status R = Some ''busy''), socket_of := (\<lambda>_. e_soc X)\<rparr>\<rparr>
                 in Option.bind (attack_host X ts A) (\<lambda>o'.
                      case o' of
                        Blocked \<Rightarrow> Some Blocked
                      | Undefined \<Rightarrow> Some Undefined
                      | Done (e, A, ts) \<Rightarrow> Some (Done (e, tell (ntp_timestamp_scan_host (st_ctime E 1) ''HOST_END'' host_str) A, ts, R))))"

end
