(* ===== verification/AttackStartCorrect.thy ===== *)
theory AttackStartCorrect
  imports AttackStart AttackHost SaveKbLife
begin

text \<open>
  The start of the process of a host: which account it gets, what its knowledge base holds, where
  its first results are written, and that the plugins run in the order of \<open>attack_host\<close>.
\<close>

subsection \<open>Accounts\<close>

text \<open>
  The account for a host is the first one that exists of: the account of its name, the
  account of the first pattern that matches its name, the account of \<open>Default\<close>.
\<close>

theorem find_login_choice:
  "find_login gpm hmap logins h =
     (case Option.bind (map_of hmap h) (map_of logins) of
        Some l \<Rightarrow> Some l
      | None \<Rightarrow>
          (case Option.bind (map_option snd (find (\<lambda>(k, v). pattern_matches gpm k h) hmap)) (map_of logins) of
             Some l \<Rightarrow> Some l
           | None \<Rightarrow> Option.bind (map_of hmap ''Default'') (map_of logins)))"
  by (auto simp: find_login_def Let_def split: option.splits)

definition login_items :: "(string \<Rightarrow> string option) \<Rightarrow> ssh_login \<Rightarrow> (string \<times> string option) list" where
  "login_items files login =
     [(''Secret/SSH/login'', username login), (''Secret/SSH/password'', userpassword login),
      (''Secret/SSH/passphrase'', ssh_key_passphrase login), (''Secret/SSH/publickey'', Option.bind (public_key_path login) files),
      (''Secret/SSH/privatekey'', Option.bind (private_key_path login) files)]"

definition credentials :: "start_env \<Rightarrow> host_run \<Rightarrow> string \<Rightarrow> (string \<times> string option) list" where
  "credentials E R h =
     (case (hr_host_logins R, hr_logins R, hr_files R) of
        (Some hmap, Some logins, Some files) \<Rightarrow>
          (case find_login (st_pattern E) hmap logins h of None \<Rightarrow> [] | Some login \<Rightarrow> login_items files login)
      | _ \<Rightarrow> [])"

lemma set_item_some: "set_item n v (Some k) = Some (case v of None \<Rightarrow> k | Some s \<Rightarrow> kb_set k n (V_str s))"
  using kb_addset_result [of k n _ True] by (auto simp: set_item_def kb_item_mutators split: option.splits) (metis snd_conv)+

lemma fill_fold: "fill_host_kb_ssh_credentials E R h kb = foldl (\<lambda>kb (n, v). set_item n v kb) kb (credentials E R h)"
  by (auto simp: fill_host_kb_ssh_credentials_def credentials_def login_items_def Let_def split: option.splits)

lemma set_items:
  assumes "distinct (map fst ps)"
  shows "\<exists>k'. foldl (\<lambda>kb (n, v). set_item n v kb) (Some k) ps = Some k'
    \<and> (\<forall>n. kb_vals k' n = (case map_of ps n of Some (Some s) \<Rightarrow> V_str s # tl (kb_vals k n) | _ \<Rightarrow> kb_vals k n))"
  using assms
proof (induction ps arbitrary: k)
  case (Cons p ps)
  obtain m v where p: "p = (m, v)" by (cases p)
  define k1 where "k1 = (case v of None \<Rightarrow> k | Some s \<Rightarrow> kb_set k m (V_str s))"
  have k1: "kb_vals k1 n = (if n = m then (case v of None \<Rightarrow> kb_vals k n | Some s \<Rightarrow> V_str s # tl (kb_vals k n)) else kb_vals k n)" for n
    by (auto simp: k1_def kb_vals_set split: option.splits)
  have m: "map_of ps m = None" using Cons.prems by (auto simp: p map_of_eq_None_iff)
  from Cons.IH [of k1] Cons.prems obtain k' where k': "foldl (\<lambda>kb (n, v). set_item n v kb) (Some k1) ps = Some k'"
    "\<And>n. kb_vals k' n = (case map_of ps n of Some (Some s) \<Rightarrow> V_str s # tl (kb_vals k1 n) | _ \<Rightarrow> kb_vals k1 n)" by auto
  show ?case
    by (rule exI [of _ k']) (use k' k1 m in \<open>auto simp: p set_item_some k1_def [symmetric] split: option.splits\<close>)
qed simp

lemma credentials_distinct: "distinct (map fst (credentials E R h))"
  by (auto simp: credentials_def login_items_def split: option.splits)

lemma credentials_secret: "(n, v) \<in> set (credentials E R h) \<Longrightarrow> not_saved n"
  by (auto simp: credentials_def login_items_def not_saved_def starts_def split: option.splits)

subsection \<open>The knowledge base\<close>

lemma add_saved_some: "fst (add_saved S h n v (Some k, V)) = Some (kb_add k n v)"
  using kb_addset_result [of k n v False] by (cases v) (auto simp: add_saved_def kb_item_mutators, (metis snd_conv)+)

lemma add_saved_fold:
  "\<exists>k'. fst (foldl (\<lambda>x (n, v). add_saved S h n v x) (Some k, V) ps) = Some k'
    \<and> (\<forall>n v. v \<in> set (kb_vals k' n) \<longleftrightarrow> v \<in> set (kb_vals k n) \<or> (n, v) \<in> set ps)"
proof (induction ps arbitrary: k V)
  case (Cons p ps)
  obtain m w where p: "p = (m, w)" by (cases p)
  obtain V1 where a: "add_saved S h m w (Some k, V) = (Some (kb_add k m w), V1)"
    using add_saved_some [of S h m w k V] by (metis prod.collapse)
  from Cons.IH [of "kb_add k m w" V1] show ?case by (auto simp: p a kbs.vals_add)
qed simp

definition vhost_items :: "start_env \<Rightarrow> arglist list option \<Rightarrow> (string \<times> kb_value) list" where
  "vhost_items E infos =
     (case pref_str (st_gsh E) infos ''VHOSTS'' of
        None \<Rightarrow> []
      | Some vh \<Rightarrow> map (\<lambda>v. (''hostinfos/vhosts'', V_str v)) (g_strsplit (st_lib E) vh '',''))"

definition result_items :: "kb_item list \<Rightarrow> (string \<times> kb_value) list" where
  "result_items rs = map (\<lambda>it. (own_name (kb_name it), kb_v it)) rs"

lemma busy_iff: "st = Some ''busy'' \<Longrightarrow> is_busy st"
  by (simp add: is_busy_def strcaseeq_def)

lemma init_host_kb_eq:
  assumes "\<not> is_busy (hr_status R)" and "init_host_kb E h infos R = Some (kb, new_kb, R')"
  shows "\<exists>rs R1 x. network_results E h R = Some (rs, R1) \<and> \<not> new_kb
    \<and> x = foldl (\<lambda>x (n, v). add_saved (st_sys E) h n v x) (fill_host_kb_ssh_credentials E R h (Some kb_new), hr_saver R1)
            (vhost_items E infos @ result_items rs)
    \<and> kb = fst x \<and> R' = R1\<lparr>hr_saver := snd x\<rparr>"
proof -
  obtain rs R1 where n: "network_results E h R = Some (rs, R1)"
    using assms(2) by (auto simp: init_host_kb_def Let_def split: option.splits)
  have R1: "hr_status R1 = hr_status R" "hr_host_logins R1 = hr_host_logins R" "hr_logins R1 = hr_logins R" "hr_files R1 = hr_files R"
    using n by (auto simp: network_results_def split: option.splits if_splits)
  have f: "fill_host_kb_ssh_credentials E R1 h kb = fill_host_kb_ssh_credentials E R h kb" for kb
    unfolding fill_host_kb_ssh_credentials_def R1 by (rule refl)
  have s: "\<not> save_kb (Some (\<lambda>n. if n = ''network_scan_status'' then hr_status R1 else None))"
    using assms(1) busy_iff [of "hr_status R"] by (auto simp: save_kb_def R1)
  let ?x = "foldl (\<lambda>x (n, v). add_saved (st_sys E) h n v x) (fill_host_kb_ssh_credentials E R h (Some kb_new), hr_saver R1)
            (vhost_items E infos @ result_items rs)"
  have "Some (kb, new_kb, R') = Some (fst ?x, False, R1\<lparr>hr_saver := snd ?x\<rparr>)"
    using assms unfolding init_host_kb_def
    by (simp add: n s R1 f Let_def vhost_items_def result_items_def foldl_map split: if_splits option.splits)
  then show ?thesis using n by blast
qed

text \<open>
  C18: outside of the first phase of a network scan the process of a host starts with a new
  knowledge base, which holds exactly the account of the host, the names of its virtual hosts and
  the results of the scan of the network that carry its name; it is not marked to be saved.
\<close>

theorem host_kb_contents:
  assumes "\<not> is_busy (hr_status R)" and "init_host_kb E h infos R = Some (kb, new_kb, R')"
  shows "\<exists>k rs R1. kb = Some k \<and> network_results E h R = Some (rs, R1) \<and> \<not> new_kb \<and> hr_tested R' = hr_tested R
    \<and> (\<forall>n v. v \<in> set (kb_vals k n) \<longleftrightarrow> (\<exists>s. map_of (credentials E R h) n = Some (Some s) \<and> v = V_str s)
        \<or> (n, v) \<in> set (vhost_items E infos) \<or> (n, v) \<in> set (result_items rs))"
proof -
  obtain rs R1 x where i: "network_results E h R = Some (rs, R1)" "\<not> new_kb" "kb = fst x" "R' = R1\<lparr>hr_saver := snd x\<rparr>"
    "x = foldl (\<lambda>x (n, v). add_saved (st_sys E) h n v x) (fill_host_kb_ssh_credentials E R h (Some kb_new), hr_saver R1)
            (vhost_items E infos @ result_items rs)"
    using init_host_kb_eq [OF assms] by blast
  from set_items [OF credentials_distinct [of E R h], of kb_new] obtain k1 where k1: "fill_host_kb_ssh_credentials E R h (Some kb_new) = Some k1"
    "\<And>n. kb_vals k1 n = (case map_of (credentials E R h) n of Some (Some s) \<Rightarrow> V_str s # tl (kb_vals kb_new n) | _ \<Rightarrow> kb_vals kb_new n)"
    by (auto simp: fill_fold)
  from add_saved_fold [of "st_sys E" h k1 "hr_saver R1" "vhost_items E infos @ result_items rs"]
  obtain k where k: "fst x = Some k"
    "\<And>n v. v \<in> set (kb_vals k n) \<longleftrightarrow> v \<in> set (kb_vals k1 n) \<or> (n, v) \<in> set (vhost_items E infos @ result_items rs)"
    unfolding i(5) k1(1) by blast
  have "hr_tested R1 = hr_tested R" using i(1) by (auto simp: network_results_def split: option.splits if_splits)
  then show ?thesis using i k by (intro exI [of _ k] exI [of _ rs] exI [of _ R1]) (auto simp: k1(2) kbs.vals_empty split: option.splits)
qed

subsection \<open>Where the results are written\<close>

lemma done_not_busy: "\<not> is_busy (Some ''done'')" "strcaseeq ''done'' ''done''"
  by code_simp+

lemma load_reopens:
  assumes "f_dir (sv_fs V) (file_lock_name (kb_fname S h)) = None" and "\<not> f_denied (sv_fs V) (kb_fname S h)"
    and "f_dir (sv_fs V) (kb_fname S h) = Some i" and "f_data (sv_fs V) i = t" and "\<not> f_full (sv_fs V)"
    and "fs_slot (sv_fs V) 0 \<noteq> None" and "save_kb_load_kb S h V = Some (Some kb, V')"
  shows "open_text V' i t \<and> f_dir (sv_fs V') = f_dir (sv_fs V)"
proof -
  define F where "F = sv_fs V"
  define fname where "fname = kb_fname S h"
  note a = assms [folded F_def fname_def]
  obtain fd F1 where al: "fs_alloc i F = (fd, F1)" by fastforce
  note e = fs_alloc_effect [OF al]
  have op: "fs_open False False False fname F = (fd, F1)" using a al by (simp add: fs_open_def)
  have pos: "0 < fd" using e(10) a(6) by simp
  define F2 where "F2 = fs_close fd F1"
  have F2: "f_dir F2 = f_dir F" "f_data F2 = f_data F" "f_denied F2 = f_denied F" "f_full F2 = f_full F" "fs_slot F2 0 \<noteq> None"
    using e(4) [of 0] e(5-9) a(6) pos by (simp_all add: F2_def fs_close_effect)
  obtain fd2 F3 where al2: "fs_alloc i F2 = (fd2, F3)" by fastforce
  note e2 = fs_alloc_effect [OF al2]
  have op2: "fs_open False False False fname F2 = (fd2, F3)" using a al2 F2 by (simp add: fs_open_def)
  have pos2: "0 < fd2" using e2(10) F2(5) by simp
  have V': "V' = V\<lparr>sv_fs := fs_seek_end fd2 F3, sv_fd := fd2\<rparr>"
    using a(7) op e(1) pos2 op2 unfolding save_kb_load_kb_def fname_def [symmetric] F_def [symmetric]
    by (auto simp: file_locked_missing [OF a(1)] Let_def F2_def [symmetric] split: if_splits option.splits)
  have "nat fd2 < length (f_fds F3)" using e2(3) pos2 by (simp add: fs_slot_def split: if_splits)
  then show ?thesis
    using e2 F2 a pos2 by (simp add: V' open_text_def fs_seek_end_def fs_seek_def fs_slot_def F_def split: if_splits)
qed

lemma add_saved_writes: "snd (add_saved S h n v x) = write_value S h (sys_now S, n, v) (snd x)"
  by (cases v) (simp_all add: add_saved_def)

lemma add_saved_fold_writes:
  "snd (foldl (\<lambda>x (n, v). add_saved S h n v x) x ps) = write_values S h (map (\<lambda>(n, v). (sys_now S, n, v)) ps) (snd x)"
  by (induction ps arbitrary: x) (auto simp: write_values_def add_saved_writes)

definition network_file :: "start_env \<Rightarrow> host_run \<Rightarrow> saved_entry list \<Rightarrow> bool" where
  "network_file E R es \<longleftrightarrow>
     (let F = sv_fs (hr_saver R); fname = kb_fname (st_sys E) ''network'' in
      f_dir F (file_lock_name fname) = None \<and> \<not> f_denied F fname \<and> file_text F fname = Some (file_of es)
      \<and> \<not> f_full F \<and> fs_slot F 0 \<noteq> None \<and> es \<noteq> [] \<and> (\<forall>e \<in> set es. loadable e))"

lemma write_value_put:
  assumes "open_text V i (file_of es)" and "\<forall>e \<in> set es. plain_entry e" and "keepable (d, n, v)"
  shows "write_value S h (d, n, v) V
    = with_text i (file_of (put_entry d (se_type (entry_for (d, n, v))) n (se_value (entry_for (d, n, v))) es)) V"
proof -
  have pl: "plain_entry (entry_for (d, n, v))" using entry_for_loadable [OF assms(3)] by (simp add: loadable_def)
  have ns: "\<not> not_saved n" using assms(3) by simp
  show ?thesis
    using write_entries [OF assms(1,2) ns, of "S\<lparr>sys_now := d\<rparr>" "se_type (entry_for (d, n, v))" "se_value (entry_for (d, n, v))" h] pl
    by (cases v) (simp_all add: save_kb_write_str_def save_kb_write_int_def addslashes_def)
qed

lemma rm_first_split: "\<forall>x \<in> set xs. \<not> P x \<Longrightarrow> P y \<Longrightarrow> rm_first P (xs @ y # ys) = xs @ ys"
  by (induction xs) auto

lemma put_entry_replaces:
  assumes "\<not> kept_single n" and "\<forall>e \<in> set es1. \<not> occurs (n @ ''='' @ se_value (entry_for (d, n, v))) (entry_line e)"
  shows "put_entry d (se_type (entry_for (d, n, v))) n (se_value (entry_for (d, n, v))) (es1 @ entry_for (t, h @ ''/'' @ n, v) # es2)
    = es1 @ es2 @ [entry_for (d, n, v)]"
proof -
  let ?x = "se_value (entry_for (d, n, v))"
  have x: "se_value (entry_for (t, h @ ''/'' @ n, v)) = ?x" by (cases v) simp_all
  have "entry_line (entry_for (t, h @ ''/'' @ n, v))
      = (int_text t @ '' '' @ int_text (se_type (entry_for (t, h @ ''/'' @ n, v))) @ '' '' @ h @ ''/'') @ (n @ ''='' @ ?x) @ [CHR 0x0A]"
    by (cases v) (simp_all add: entry_line_def entry_text_def)
  then have "occurs (n @ ''='' @ ?x) (entry_line (entry_for (t, h @ ''/'' @ n, v)))" unfolding occurs_iff by blast
  from rm_first_split [of es1 "\<lambda>e. occurs (n @ ''='' @ ?x) (entry_line e)", OF assms(2) this] assms(1)
  show ?thesis by (cases v) (simp_all add: put_entry_def Let_def)
qed

text \<open>
  When the scan of the network is done and its file holds a result for a host, the start of
  the process of that host takes the result out of the file of the network and enters it there
  again without the name of the host: the file that is open is the one of the network, and the
  search for the old entry finds the one of the network.
\<close>

theorem network_result_consumed:
  assumes "hr_status R = Some ''done''" and "network_file E R (e # es1 @ entry_for (t, h @ ''/'' @ n, v) # es2)"
    and "init_host_kb E h infos R = Some (kb, new_kb, R')" and "network_results E h R = Some (rs, R1)"
    and "vhost_items E infos @ result_items rs = [(n, v)]" and "keepable (sys_now (st_sys E), n, v)" and "\<not> kept_single n"
    and "\<forall>f \<in> set (e # es1). \<not> occurs (n @ ''='' @ se_value (entry_for (t, n, v))) (entry_line f)"
  shows "file_text (sv_fs (hr_saver R')) (kb_fname (st_sys E) ''network'')
    = Some (file_of (e # es1 @ es2 @ [entry_for (sys_now (st_sys E), n, v)]))"
proof -
  let ?S = "st_sys E" and ?V = "hr_saver R" and ?es = "e # es1 @ entry_for (t, h @ ''/'' @ n, v) # es2"
  let ?w = "entry_for (sys_now ?S, n, v)"
  have nb: "\<not> is_busy (hr_status R)" using assms(1) done_not_busy by simp
  obtain i where f: "f_dir (sv_fs ?V) (file_lock_name (kb_fname ?S ''network'')) = None" "\<not> f_denied (sv_fs ?V) (kb_fname ?S ''network'')"
    "f_dir (sv_fs ?V) (kb_fname ?S ''network'') = Some i" "f_data (sv_fs ?V) i = file_of ?es" "\<not> f_full (sv_fs ?V)" "fs_slot (sv_fs ?V) 0 \<noteq> None"
    and lo: "\<forall>e \<in> set ?es. loadable e"
    using assms(2) unfolding network_file_def Let_def file_text_def by blast
  obtain nkb V1 where ld: "save_kb_load_kb ?S ''network'' ?V = Some (Some nkb, V1)"
    using load_text [OF f(1-4) lo] by blast
  have R1: "hr_saver R1 = V1" using assms(1,4) ld done_not_busy by (auto simp: network_results_def)
  note op = load_reopens [OF f ld]
  have "hr_saver R' = snd (foldl (\<lambda>x (n, v). add_saved ?S h n v x) (fill_host_kb_ssh_credentials E R h (Some kb_new), V1) [(n, v)])"
    using init_host_kb_eq [OF nb assms(3)] assms(4,5) R1 by (auto simp del: foldl_append)
  then have "hr_saver R' = write_value ?S h (sys_now ?S, n, v) V1" by (simp add: add_saved_writes)
  also have "\<dots> = with_text i (file_of (put_entry (sys_now ?S) (se_type ?w) n (se_value ?w) ?es)) V1"
    using op lo assms(6) by (intro write_value_put) (auto simp: loadable_def)
  also have "put_entry (sys_now ?S) (se_type ?w) n (se_value ?w) ?es = e # es1 @ es2 @ [?w]"
    using put_entry_replaces [OF assms(7), of "e # es1" "sys_now ?S" v t h es2] assms(8) by (cases v) simp_all
  finally show ?thesis using op f(3) by (simp add: with_text_def file_text_def)
qed

subsection \<open>The whole process\<close>

lemma set_non_simult_prefs: "p \<noteq> None \<Longrightarrow> snd (set_non_simult gsh (c, p)) \<noteq> None"
  by (auto simp: set_non_simult_def add_info_def Let_def arg_add_value_def split: prod.splits option.splits)

lemma attack_start_runs:
  assumes "attack_start E a R X ts A = Some (Done (e, A', ts', R'))" and "hr_prefs R \<noteq> None"
  obtains X' B B' m m' where "attack_host X' ts B = Some (Done (e, B', ts'))" "A' = tell m' B'" "e_prefs X' \<noteq> None" "e_spawn X' = e_spawn X"
    "forks B = forks A" "c_safe B = c_safe A" "sched (la B) = sched (la A)" "client B = client A @ [m]"
    "e_prefs X' = snd (set_non_simult (st_gsh E) (hr_cache R, hr_prefs R))" "e_req X' = e_req X"
proof -
  obtain hs where hs: "host_text (st_lib E) (hostip a) = Some hs" using assms(1) by (auto simp: attack_start_def split: option.splits)
  obtain c prefs where p: "set_non_simult (st_gsh E) (hr_cache R, hr_prefs R) = (c, prefs)" by fastforce
  obtain c2 infos where i: "host_infos E a (hr_prefs R) c hs = (c2, infos)" by fastforce
  define h where "h = (case host_mac_addr a of None \<Rightarrow> hs | Some m \<Rightarrow> m)"
  obtain kb nk R1 where k: "init_host_kb E h infos (R\<lparr>hr_cache := c2, hr_prefs := prefs\<rparr>) = Some (kb, nk, R1)"
    using assms(1) by (auto simp: attack_start_def hs p i h_def [symmetric] Let_def split: option.splits)
  let ?X = "X\<lparr>e_prefs := prefs, e_status := hr_status R1, e_soc := st_dup2 E (thread_socket a), e_host := h, e_new_kb := nk\<rparr>"
  let ?m = "ntp_timestamp_scan_host (st_ctime E 0) ''HOST_START'' h"
  let ?A = "tell ?m A"
  let ?B = "?A\<lparr>la := (la ?A)\<lparr>host_kb := kb, host_name := pref_str (st_gsh E) infos ''NAME'', saving_kb := (hr_status R1 = Some ''busy''),
     socket_of := (\<lambda>_. st_dup2 E (thread_socket a))\<rparr>\<rparr>"
  obtain e' B' ts1 where r: "attack_host ?X ts ?B = Some (Done (e', B', ts1))"
    and q: "e' = e" "ts1 = ts'" "A' = tell (ntp_timestamp_scan_host (st_ctime E 1) ''HOST_END'' h) B'"
    using assms(1) by (auto simp: attack_start_def hs p i h_def [symmetric] k Let_def split: bind_splits outcome.splits)
  show ?thesis
    by (rule that [OF r [unfolded q(1,2)] q(3)]) (use set_non_simult_prefs [OF assms(2)] p in \<open>simp_all add: tell_def\<close>, metis snd_conv)
qed


subsection \<open>Witnesses\<close>

definition start0 :: start_env where
  "start0 = \<lparr>st_lib = ref_netlib, st_sys = sys0, st_gsh = (\<lambda>_. 0), st_pattern = (\<lambda>p s. True),
     st_fnmatch = (\<lambda>p s. take (length p - 1) s = butlast p), st_dup2 = (\<lambda>_. 4), st_ctime = (\<lambda>_. ''now'')\<rparr>"

definition network0 :: saver where
  "network0 = \<lparr>sv_fs = \<lparr>f_dir = [''/k/network'' \<mapsto> 5], f_data = (\<lambda>_. file_of [entry_for (5, ''a'', V_int 1), entry_for (6, ''h/b'', V_int 3)]), f_next = 9,
     f_fds = [Some (0, 0)], f_denied = (\<lambda>_. False), f_full = False\<rparr>, sv_fd = 0\<rparr>"

definition host_run0 :: host_run where
  "host_run0 = \<lparr>hr_status = Some ''done'', hr_prefs = Some [], hr_cache = cache_start, hr_saver = network0, hr_tested = None,
     hr_host_logins = Some [(''*'', ''u'')], hr_logins = Some [(''u'', \<lparr>username = Some ''me'', userpassword = None, public_key_path = None,
       private_key_path = None, ssh_key_passphrase = None\<rparr>)], hr_files = Some Map.empty\<rparr>"

lemma network0_file: "network_file start0 host_run0 [entry_for (5, ''a'', V_int 1), entry_for (6, ''h/b'', V_int 3)]"
  by code_simp

lemma concat_single: "concat (map (\<lambda>i. if i = a then [x] else []) [0..<n]) = (if a < n then [x] else [])"
  by (induction n) auto

lemma single_kb: "kb_add kb_new n v = (\<lambda>i. if i = mkkey (Some n) then [\<lparr>kb_name = n, kb_v = v\<rparr>] else [])"
  by (auto simp: kb_addset_def Let_def kb_new_def fun_eq_iff)

lemma single_pattern: "kb_item_get_pattern f (Some (kb_add kb_new n v)) p = (if f p n then [\<lparr>kb_name = n, kb_v = v\<rparr>] else [])"
  unfolding kb_pattern_rev single_kb concat_single by (simp add: mkkey_bound)

lemma results0: "\<exists>R1. network_results start0 ''h'' host_run0 = Some ([\<lparr>kb_name = ''h/b'', kb_v = V_int 3\<rparr>], R1)"
proof -
  let ?es = "[entry_for (5, ''a'', V_int 1), entry_for (6, ''h/b'', V_int 3)]"
  have n: "f_dir (sv_fs network0) (file_lock_name (kb_fname sys0 ''network'')) = None" "\<not> f_denied (sv_fs network0) (kb_fname sys0 ''network'')"
    "f_dir (sv_fs network0) (kb_fname sys0 ''network'') = Some 5" "f_data (sv_fs network0) 5 = file_of ?es" "\<forall>f \<in> set ?es. loadable f"
    by code_simp+
  have r: "restore 1000 kb_new (entry_for (6, ''h/b'', V_int 3)) = kb_add kb_new ''h/b'' (V_int 3)"
  proof -
    have "keepable (6, ''h/b'', V_int 3)" "restored 1000 (entry_for (6, ''h/b'', V_int 3))" by code_simp+
    then show ?thesis using entry_for_value [of 6 "''h/b''" "V_int 3"] by (simp add: restore_def)
  qed
  obtain V where "save_kb_load_kb sys0 ''network'' network0 = Some (Some (kb_add kb_new ''h/b'' (V_int 3)), V)"
    using load_text [OF n] r by (auto simp: sys0_def)
  then show ?thesis by (simp add: network_results_def host_run0_def start0_def done_not_busy single_pattern)
qed

lemma init0: "init_host_kb start0 ''h'' None host_run0 \<noteq> None"
proof -
  obtain R1 where R1: "network_results start0 ''h'' host_run0 = Some ([\<lparr>kb_name = ''h/b'', kb_v = V_int 3\<rparr>], R1)" using results0 by blast
  then have "hr_status R1 = Some ''done''" by (auto simp: network_results_def host_run0_def split: if_splits option.splits)
  then show ?thesis using R1 done_not_busy by (simp add: init_host_kb_def save_kb_def Let_def)
qed

theorem network_result_consumed_witness:
  "\<exists>kb R'. init_host_kb start0 ''h'' None host_run0 = Some (kb, False, R')
     \<and> file_text (sv_fs (hr_saver R')) ''/k/network'' = Some (file_of [entry_for (5, ''a'', V_int 1), entry_for (1000, ''b'', V_int 3)])"
proof -
  obtain kb nk R' where i: "init_host_kb start0 ''h'' None host_run0 = Some (kb, nk, R')" using init0 by auto
  obtain R1 where r: "network_results start0 ''h'' host_run0 = Some ([\<lparr>kb_name = ''h/b'', kb_v = V_int 3\<rparr>], R1)" using results0 by blast
  have s: "hr_status host_run0 = Some ''done''" by (simp add: host_run0_def)
  have it: "vhost_items start0 None @ result_items [\<lparr>kb_name = ''h/b'', kb_v = V_int 3\<rparr>] = [(''b'', V_int 3)]" by code_simp
  have k: "keepable (sys_now (st_sys start0), ''b'', V_int 3)" "\<not> kept_single ''b''"
    "\<forall>f \<in> set [entry_for (5, ''a'', V_int 1)]. \<not> occurs (''b'' @ ''='' @ se_value (entry_for (6, ''b'', V_int 3))) (entry_line f)" by code_simp+
  have f: "network_file start0 host_run0 (entry_for (5, ''a'', V_int 1) # [] @ entry_for (6, ''h'' @ ''/'' @ ''b'', V_int 3) # [])"
    using network0_file by simp
  have "kb_fname sys0 ''network'' = ''/k/network''" by code_simp
  moreover have "\<not> nk" using init_host_kb_eq [OF _ i] s done_not_busy by auto
  ultimately show ?thesis using network_result_consumed [OF s f i r it k] i by (auto simp: start0_def sys0_def)
qed

theorem host_kb_contents_witness:
  "\<exists>k R'. init_host_kb start0 ''h'' None host_run0 = Some (Some k, False, R') \<and> V_str ''me'' \<in> set (kb_vals k ''Secret/SSH/login'')
     \<and> V_int 3 \<in> set (kb_vals k ''b'') \<and> kb_vals k ''h/b'' = []"
proof -
  obtain kb nk R' where i: "init_host_kb start0 ''h'' None host_run0 = Some (kb, nk, R')" using init0 by auto
  obtain R1 where r: "network_results start0 ''h'' host_run0 = Some ([\<lparr>kb_name = ''h/b'', kb_v = V_int 3\<rparr>], R1)" using results0 by blast
  have "\<not> is_busy (hr_status host_run0)" by code_simp
  from host_kb_contents [OF this i] r obtain k where k: "kb = Some k" "\<not> nk"
    "\<And>n v. v \<in> set (kb_vals k n) \<longleftrightarrow> (\<exists>s. map_of (credentials start0 host_run0 ''h'') n = Some (Some s) \<and> v = V_str s)
        \<or> (n, v) \<in> set (vhost_items start0 None) \<or> (n, v) \<in> set (result_items [\<lparr>kb_name = ''h/b'', kb_v = V_int 3\<rparr>])" by auto
  have c: "map_of (credentials start0 host_run0 ''h'') ''Secret/SSH/login'' = Some (Some ''me'')"
    "map_of (credentials start0 host_run0 ''h'') ''h/b'' = None" "vhost_items start0 None = []"
    "result_items [\<lparr>kb_name = ''h/b'', kb_v = V_int 3\<rparr>] = [(''b'', V_int 3)]" by code_simp+
  have "kb_vals k ''h/b'' = []" using k(3) [of "hd (kb_vals k ''h/b'')" "''h/b''"] c by (cases "kb_vals k ''h/b''") auto
  moreover have "V_str ''me'' \<in> set (kb_vals k ''Secret/SSH/login'')" "V_int 3 \<in> set (kb_vals k ''b'')" unfolding k(3) using c by auto
  ultimately show ?thesis using i k(1,2) by auto
qed

lemma bind_done:
  "(\<exists>B. m = Some (Done (e, B, ts))) \<Longrightarrow>
    \<exists>A' ts' R'. Option.bind m (case_outcome (Some Blocked) (Some Undefined) (\<lambda>(e, A, ts). Some (Done (e, f A, ts, R)))) = Some (Done (e, A', ts', R'))"
  by auto


end
