(* ===== verification/NaslTree.thy ===== *)
theory NaslTree
  imports Prelude
begin

text \<open>
  Data of the NASL interpreter: syntax trees (\<open>nasl/nasl_tree.h\<close>), variables (\<open>nasl/nasl_var.h\<close>),
  functions (\<open>nasl/nasl_func.h\<close>) and contexts (\<open>nasl/nasl_lex_ctxt.h\<close>), and the state that the
  interpreter works on. Variables live in a store, since cells refer to them by address and the
  same variable can be reached from several places; a variable that was freed has no value in the
  store and its address is not used again, so that any use of it is seen.
\<close>

subsection \<open>Results\<close>

text \<open>
  A computation ends with a value, ends the process (\<open>abort\<close>, \<open>exit\<close>, or undefined behaviour:
  reading a NULL pointer, a freed variable or memory outside of a buffer), or needs more steps
  than it was given.
\<close>

datatype 'a run = Timeout | Abort | Fin 'a

definition andthen :: "'a run \<Rightarrow> ('a \<Rightarrow> 'b run) \<Rightarrow> 'b run" where
  "andthen m f = (case m of Timeout \<Rightarrow> Timeout | Abort \<Rightarrow> Abort | Fin x \<Rightarrow> f x)"

lemma andthen_simps [simp]: "andthen Timeout f = Timeout" "andthen Abort f = Abort" "andthen (Fin x) f = f x"
  by (simp_all add: andthen_def)

lemma andthen_Fin: "andthen m f = Fin y \<longleftrightarrow> (\<exists>x. m = Fin x \<and> f x = Fin y)"
  by (cases m) simp_all

lemma andthen_FinE: "andthen m f = Fin y \<Longrightarrow> (\<And>x. m = Fin x \<Longrightarrow> f x = Fin y \<Longrightarrow> P) \<Longrightarrow> P"
  by (auto simp: andthen_Fin)

lemma andthen_assoc: "andthen (andthen m f) g = andthen m (\<lambda>x. andthen (f x) g)"
  by (cases m) simp_all

lemma andthen_cong [fundef_cong]: "m = m' \<Longrightarrow> (\<And>x. m' = Fin x \<Longrightarrow> f x = f' x) \<Longrightarrow> andthen m f = andthen m' f'"
  by (cases m') simp_all

subsection \<open>Variables\<close>

type_synonym i32 = "32 word"
type_synonym addr = nat

text \<open>
  An array has numbered elements, where \<open>max_idx\<close> is the length of the list and NULL pointers are
  None, and, once a name was used, \<open>VAR_NAME_HASH\<close> chains of named elements.
\<close>

definition VAR_NAME_HASH :: nat where "VAR_NAME_HASH = 17"

record nasl_array =
  num_elt :: "addr option list"
  hash_elt :: "(string \<times> addr) list list option"

text \<open>
  The type and value of a variable. A text is the list of its \<open>s_siz\<close> bytes, None when \<open>s_val\<close> is
  NULL; the byte after it is NUL, because \<open>emalloc\<close> returns one byte more than asked for and clears
  it.
\<close>

datatype anon_nasl_var =
    VAR2_UNDEF
  | VAR2_INT i32
  | VAR2_STRING "string option"
  | VAR2_DATA "string option"
  | VAR2_ARRAY nasl_array

definition empty_array :: nasl_array where
  "empty_array = \<lparr>num_elt = [], hash_elt = None\<rparr>"

subsection \<open>Trees\<close>

text \<open>
  The nodes, with the links and the value that each type uses. NULL and \<open>FAKE_CELL\<close> are nodes
  without contents; types that are treated alike have a common node that holds the type. A regular
  expression is its text, None when it did not compile.
\<close>

datatype int_op = EXPR_MULT | EXPR_DIV | EXPR_EXPO | EXPR_MODULO | EXPR_BIT_AND | EXPR_BIT_OR | EXPR_BIT_XOR
  | EXPR_L_SHIFT | EXPR_R_SHIFT | EXPR_R_USHIFT

datatype comp_op = COMP_LT | COMP_LE | COMP_EQ | COMP_NE | COMP_GT | COMP_GE

datatype eq_op = NODE_PLUS_EQ | NODE_MINUS_EQ | NODE_MULT_EQ | NODE_DIV_EQ | NODE_MODULO_EQ | NODE_L_SHIFT_EQ
  | NODE_R_SHIFT_EQ | NODE_R_USHIFT_EQ

datatype tree_cell =
    NULL
  | FAKE_CELL
  | CONST_INT i32
  | CONST_STR "string option"
  | CONST_DATA "string option"
  | REF_VAR "addr option"
  | REF_ARRAY addr
  | DYN_ARRAY addr
  | NODE_IF_ELSE tree_cell tree_cell tree_cell
  | NODE_INSTR_L tree_cell tree_cell
  | NODE_FOR tree_cell tree_cell tree_cell tree_cell
  | NODE_WHILE tree_cell tree_cell
  | NODE_FOREACH string tree_cell tree_cell
  | NODE_REPEAT_UNTIL tree_cell tree_cell
  | NODE_REPEATED tree_cell tree_cell
  | NODE_FUN_DEF string tree_cell tree_cell
  | NODE_FUN_CALL string tree_cell
  | NODE_DECL "string option" tree_cell
  | NODE_ARG "string option" tree_cell tree_cell
  | NODE_RETURN tree_cell
  | NODE_BREAK
  | NODE_CONTINUE
  | NODE_ARRAY_EL string tree_cell
  | NODE_AFF tree_cell tree_cell
  | NODE_OP_EQ eq_op tree_cell tree_cell
  | NODE_VAR string
  | NODE_LOCAL tree_cell
  | NODE_GLOBAL tree_cell
  | EXPR_AND tree_cell tree_cell
  | EXPR_OR tree_cell tree_cell
  | EXPR_NOT tree_cell
  | EXPR_INCR tree_cell tree_cell
  | EXPR_DECR tree_cell tree_cell
  | EXPR_PLUS tree_cell tree_cell
  | EXPR_MINUS tree_cell tree_cell
  | EXPR_U_MINUS tree_cell
  | EXPR_BIT_NOT tree_cell
  | EXPR_INT int_op tree_cell tree_cell
  | COMP_MATCH tree_cell tree_cell
  | COMP_NOMATCH tree_cell tree_cell
  | COMP_RE_MATCH "string option" tree_cell
  | COMP_RE_NOMATCH "string option" tree_cell
  | COMP comp_op tree_cell tree_cell
  | ARRAY_ELEM "string option" tree_cell tree_cell

definition is_void :: "tree_cell \<Rightarrow> bool" where
  "is_void c \<longleftrightarrow> c = NULL \<or> c = FAKE_CELL"

definition nasl_is_leaf :: "tree_cell \<Rightarrow> bool" where
  "nasl_is_leaf c = (case c of
       NULL \<Rightarrow> True | FAKE_CELL \<Rightarrow> True | CONST_INT _ \<Rightarrow> True | CONST_STR _ \<Rightarrow> True | CONST_DATA _ \<Rightarrow> True
     | REF_ARRAY _ \<Rightarrow> True | DYN_ARRAY _ \<Rightarrow> True | _ \<Rightarrow> False)"

subsection \<open>Functions, contexts and the state\<close>

definition FUNC_NAME_HASH :: nat where "FUNC_NAME_HASH = 17"

text \<open>The code of a function: a tree, or the name of a C function.\<close>

datatype code = Block tree_cell | C_code string

record nasl_func =
  func_name :: string
  flag_compat :: bool
  flag_internal :: bool
  nb_unnamed_args :: nat
  nb_named_args :: nat
  args_names :: "string list"
  block :: code

record lex_ctxt =
  ret_val :: tree_cell
  fct_ctxt :: bool
  break_flag :: bool
  cont_flag :: bool
  ctx_vars :: nasl_array
  ctx_functions :: "nasl_func list list"

text \<open>
  The contexts, from the one that is executed (\<open>lexic\<close>) along \<open>up_ctxt\<close>; the store and the first
  address that was never used; the length of the static buffer of \<open>array2str\<close>.
\<close>

record nasl_state =
  ns_ctxts :: "lex_ctxt list"
  ns_heap :: "addr \<rightharpoonup> anon_nasl_var"
  ns_next :: addr
  ns_len :: nat

definition lexic :: "nasl_state \<Rightarrow> lex_ctxt" where
  "lexic \<sigma> = hd (ns_ctxts \<sigma>)"

definition upd_lexic :: "(lex_ctxt \<Rightarrow> lex_ctxt) \<Rightarrow> nasl_state \<Rightarrow> nasl_state" where
  "upd_lexic f \<sigma> = \<sigma>\<lparr>ns_ctxts := (case ns_ctxts \<sigma> of [] \<Rightarrow> [] | c # cs \<Rightarrow> f c # cs)\<rparr>"

definition set_var :: "addr \<Rightarrow> anon_nasl_var \<Rightarrow> nasl_state \<Rightarrow> nasl_state" where
  "set_var p v \<sigma> = \<sigma>\<lparr>ns_heap := (ns_heap \<sigma>)(p \<mapsto> v)\<rparr>"

definition alloc_var :: "anon_nasl_var \<Rightarrow> nasl_state \<Rightarrow> addr \<times> nasl_state" where
  "alloc_var v \<sigma> = (ns_next \<sigma>, \<sigma>\<lparr>ns_heap := (ns_heap \<sigma>)(ns_next \<sigma> \<mapsto> v), ns_next := Suc (ns_next \<sigma>)\<rparr>)"

definition init_empty_lex_ctxt :: lex_ctxt where
  "init_empty_lex_ctxt = \<lparr>ret_val = NULL, fct_ctxt = False, break_flag = False, cont_flag = False,
     ctx_vars = \<lparr>num_elt = [], hash_elt = Some (replicate VAR_NAME_HASH [])\<rparr>, ctx_functions = replicate FUNC_NAME_HASH []\<rparr>"

end
