(* ===== verification/NaslVar.thy ===== *)
theory NaslVar
  imports NaslTree
begin

text \<open>
  Variables of the NASL interpreter, \<open>nasl/nasl_var.c\<close>: finding and creating them in contexts and
  arrays, copying and freeing, assignment, conversion to numbers and texts, iteration.
\<close>

subsection \<open>Texts and growing tables\<close>

text \<open>A text as the functions of the C library read it, up to the first NUL.\<close>

definition c_str :: "string \<Rightarrow> string" where
  "c_str s = takeWhile (\<lambda>c. c \<noteq> CHR 0x00) s"

definition hash_str2 :: "string \<Rightarrow> nat \<Rightarrow> nat" where
  "hash_str2 s n = unat (foldl (\<lambda>h c. push_bit 3 h + of_nat (ccode c)) (0 :: 64 word) (c_str s)) mod n"

definition hash_str :: "string \<Rightarrow> nat" where
  "hash_str s = hash_str2 s VAR_NAME_HASH"

text \<open>
  Room for index \<open>i\<close> in a table with entries of \<open>sz\<close> bytes: \<open>erealloc\<close> ends the process when the
  size is negative as an int, and when \<open>i + 1\<close> overflows there is no memory of that size.
\<close>

definition grow :: "nat \<Rightarrow> nat \<Rightarrow> addr option list \<Rightarrow> addr option list run" where
  "grow sz i xs =
     (if i < length xs then Fin xs
      else if Suc i \<ge> 2 ^ 31 \<or> (sz * Suc i) mod 2 ^ 32 \<ge> 2 ^ 31 then Abort
      else Fin (xs @ replicate (Suc i - length xs) None))"

text \<open>Both are evaluated on integers.\<close>

lemma uint_of_nat64: "uint (of_nat k :: 64 word) = int k mod 2 ^ 64"
  using uint_word_of_int [where 'a = 64, of "int k"] by simp

lemma hash_str2_code [code]: "hash_str2 s n = nat (foldl (\<lambda>h c. (8 * h + int (ccode c)) mod 2 ^ 64) 0 (c_str s) mod int n)"
proof -
  have "uint (foldl (\<lambda>h c. push_bit 3 h + of_nat (ccode c)) (w :: 64 word) t) = foldl (\<lambda>h c. (8 * h + int (ccode c)) mod 2 ^ 64) (uint w) t" for w t
  proof (induction t arbitrary: w)
    case (Cons c t)
    have "uint (push_bit 3 w + of_nat (ccode c)) = (8 * uint w + int (ccode c)) mod 2 ^ 64"
      by (simp only: push_bit_eq_mult uint_word_ariths(1,3) uint_of_nat64) (simp add: mod_simps mult.commute)
    then show ?case using Cons by simp
  qed simp
  then have f: "foldl (\<lambda>h c. (8 * h + int (ccode c)) mod 2 ^ 64) 0 (c_str s) = uint (foldl (\<lambda>h c. push_bit 3 h + of_nat (ccode c)) (0 :: 64 word) (c_str s))"
    by (metis unsigned_0)
  have "nat (uint w mod int n) = unat w mod n" for w :: "64 word" by (metis nat_int uint_nat zmod_int)
  then show ?thesis unfolding hash_str2_def f by simp
qed

lemma grow_code [code]: "grow sz i xs =
     (if i < length xs then Fin xs
      else if int i + 1 \<ge> 2 ^ 31 \<or> (int sz * (int i + 1)) mod 2 ^ 32 \<ge> 2 ^ 31 then Abort
      else Fin (xs @ replicate (Suc i - length xs) None))"
proof -
  have "int (sz * Suc i mod 2 ^ 32) = (int sz * (int i + 1)) mod 2 ^ 32" by (simp add: zmod_int algebra_simps)
  then have "sz * Suc i mod 2 ^ 32 \<ge> 2 ^ 31 \<longleftrightarrow> (int sz * (int i + 1)) mod 2 ^ 32 \<ge> 2 ^ 31" by (metis int_ops(3) of_nat_le_iff of_nat_numeral of_nat_power)
  moreover have "Suc i \<ge> 2 ^ 31 \<longleftrightarrow> int i + 1 \<ge> 2 ^ 31" by simp
  ultimately show ?thesis unfolding grow_def by simp
qed

subsection \<open>Finding variables\<close>

definition nasl_get_var_by_num ::
  "nasl_array \<Rightarrow> i32 \<Rightarrow> bool \<Rightarrow> nasl_state \<Rightarrow> (addr option \<times> nasl_array \<times> nasl_state) run" where
  "nasl_get_var_by_num a num create \<sigma> =
     (if sint num < 0 then Fin (None, a, \<sigma>)
      else
        let i = nat (sint num);
            v = (if i < length (num_elt a) then num_elt a ! i else None)
        in if v \<noteq> None \<or> \<not> create then Fin (v, a, \<sigma>)
           else andthen (grow 8 i (num_elt a)) (\<lambda>xs.
             let (p, \<sigma>) = alloc_var VAR2_UNDEF \<sigma>
             in Fin (Some p, a\<lparr>num_elt := xs[i := Some p]\<rparr>, \<sigma>)))"

definition chains :: "nasl_array \<Rightarrow> (string \<times> addr) list list" where
  "chains a = (case hash_elt a of None \<Rightarrow> replicate VAR_NAME_HASH [] | Some es \<Rightarrow> es)"

text \<open>A new variable at the head of the chain of its name.\<close>

definition push_name :: "nasl_array \<Rightarrow> string \<Rightarrow> addr \<Rightarrow> nasl_array" where
  "push_name a s p =
     (let h = hash_str s; es = chains a in a\<lparr>hash_elt := Some (es[h := (s, p) # es ! h])\<rparr>)"

definition get_var_by_name :: "nasl_array \<Rightarrow> string \<Rightarrow> nasl_state \<Rightarrow> addr \<times> nasl_array \<times> nasl_state" where
  "get_var_by_name a s \<sigma> =
     (let s = c_str s; h = hash_str s; a = a\<lparr>hash_elt := Some (chains a)\<rparr> in
      case map_of (chains a ! h) s of
        Some p \<Rightarrow> (p, a, \<sigma>)
      | None \<Rightarrow> let (p, \<sigma>) = alloc_var VAR2_UNDEF \<sigma> in (p, push_name a s p, \<sigma>))"

definition find_name :: "string \<Rightarrow> lex_ctxt \<Rightarrow> addr option" where
  "find_name name c = (case hash_elt (ctx_vars c) of None \<Rightarrow> None | Some es \<Rightarrow> map_of (es ! hash_str name) name)"

primrec climb_ctxts :: "string \<Rightarrow> lex_ctxt list \<Rightarrow> addr option" where
  "climb_ctxts name [] = None"
| "climb_ctxts name (c # cs) = (case find_name name c of Some p \<Rightarrow> Some p | None \<Rightarrow> climb_ctxts name cs)"

definition get_var_ref_by_name :: "string \<Rightarrow> bool \<Rightarrow> nasl_state \<Rightarrow> addr \<times> nasl_state" where
  "get_var_ref_by_name name climb \<sigma> =
     (let name = c_str name in
      case (if climb then climb_ctxts name (ns_ctxts \<sigma>) else find_name name (lexic \<sigma>)) of
        Some p \<Rightarrow> (p, \<sigma>)
      | None \<Rightarrow>
          let (p, \<sigma>) = alloc_var VAR2_UNDEF \<sigma>
          in (p, upd_lexic (\<lambda>c. c\<lparr>ctx_vars := push_name (ctx_vars c) name p\<rparr>) \<sigma>))"

definition get_var_ref_by_num :: "i32 \<Rightarrow> nasl_state \<Rightarrow> (addr option \<times> nasl_state) run" where
  "get_var_ref_by_num num \<sigma> =
     (if sint num < 0 then Fin (None, \<sigma>)
      else
        let i = nat (sint num) in
        andthen (grow 8 i (num_elt (ctx_vars (lexic \<sigma>)))) (\<lambda>xs.
          let \<sigma> = upd_lexic (\<lambda>c. c\<lparr>ctx_vars := (ctx_vars c)\<lparr>num_elt := xs\<rparr>\<rparr>) \<sigma> in
          case xs ! i of
            Some p \<Rightarrow> Fin (Some p, \<sigma>)
          | None \<Rightarrow>
              let (p, \<sigma>) = alloc_var VAR2_UNDEF \<sigma>
              in Fin (Some p, upd_lexic (\<lambda>c. c\<lparr>ctx_vars := (ctx_vars c)\<lparr>num_elt := xs[i := Some p]\<rparr>\<rparr>) \<sigma>)))"

definition FCT_ANON_ARGS :: string where
  "FCT_ANON_ARGS = ''_FCT_ANON_ARGS''"

subsection \<open>Freeing\<close>

definition kids :: "nasl_array \<Rightarrow> addr list" where
  "kids a = concat (map (case_option [] (\<lambda>p. [p])) (num_elt a)) @ (case hash_elt a of None \<Rightarrow> [] | Some es \<Rightarrow> map snd (concat es))"

definition var_kids :: "anon_nasl_var \<Rightarrow> addr list" where
  "var_kids v = (case v of VAR2_ARRAY a \<Rightarrow> kids a | _ \<Rightarrow> [])"

text \<open>
  \<open>free_anon_var\<close> and \<open>free_var_chain\<close> for several variables with all that their arrays hold; one
  step for each variable. A variable that is free already ends the process.
\<close>

primrec free_vars :: "nat \<Rightarrow> addr list \<Rightarrow> nasl_state \<Rightarrow> nasl_state run" where
  "free_vars 0 ps \<sigma> = Timeout"
| "free_vars (Suc n) ps \<sigma> =
     (case ps of
        [] \<Rightarrow> Fin \<sigma>
      | p # ps \<Rightarrow>
          (case ns_heap \<sigma> p of
             None \<Rightarrow> Abort
           | Some v \<Rightarrow> free_vars n (var_kids v @ ps) (\<sigma>\<lparr>ns_heap := (ns_heap \<sigma>)(p := None)\<rparr>)))"

definition free_array :: "nasl_array \<Rightarrow> nasl_state \<Rightarrow> nasl_state run" where
  "free_array a \<sigma> = free_vars (Suc (ns_next \<sigma>)) (kids a) \<sigma>"

definition clear_anon_var :: "addr \<Rightarrow> nasl_state \<Rightarrow> nasl_state run" where
  "clear_anon_var p \<sigma> =
     (case ns_heap \<sigma> p of
        None \<Rightarrow> Abort
      | Some v \<Rightarrow> free_vars (Suc (ns_next \<sigma>)) (var_kids v) (set_var p VAR2_UNDEF \<sigma>))"

subsection \<open>Copying\<close>

text \<open>
  The copy is filled where it lies, element by element, so that a copy into an element of its
  source sees what was copied so far. \<open>cp\<close> copies a value to an address.
\<close>

definition upd_array :: "addr \<Rightarrow> (nasl_array \<Rightarrow> nasl_array) \<Rightarrow> nasl_state \<Rightarrow> nasl_state" where
  "upd_array p f \<sigma> = (case ns_heap \<sigma> p of Some (VAR2_ARRAY a) \<Rightarrow> set_var p (VAR2_ARRAY (f a)) \<sigma> | _ \<Rightarrow> \<sigma>)"

definition dup_anon_var ::
  "(addr \<Rightarrow> anon_nasl_var \<Rightarrow> nasl_state \<Rightarrow> nasl_state run) \<Rightarrow> addr option \<Rightarrow> nasl_state \<Rightarrow> (addr option \<times> nasl_state) run" where
  "dup_anon_var cp x \<sigma> =
     (case x of
        None \<Rightarrow> Fin (None, \<sigma>)
      | Some p \<Rightarrow>
          (case ns_heap \<sigma> p of
             None \<Rightarrow> Abort
           | Some v \<Rightarrow> let (q, \<sigma>) = alloc_var VAR2_UNDEF \<sigma> in andthen (cp q v \<sigma>) (\<lambda>\<sigma>. Fin (Some q, \<sigma>))))"

primrec copy_nums ::
  "(addr \<Rightarrow> anon_nasl_var \<Rightarrow> nasl_state \<Rightarrow> nasl_state run) \<Rightarrow> addr \<Rightarrow> nat \<Rightarrow> addr option list \<Rightarrow> nasl_state \<Rightarrow> nasl_state run" where
  "copy_nums cp p i [] \<sigma> = Fin \<sigma>"
| "copy_nums cp p i (x # xs) \<sigma> =
     andthen (dup_anon_var cp x \<sigma>) (\<lambda>(q, \<sigma>).
       copy_nums cp p (Suc i) xs (upd_array p (\<lambda>a. a\<lparr>num_elt := (num_elt a)[i := q]\<rparr>) \<sigma>))"

definition set_chain :: "nat \<Rightarrow> string \<times> addr \<Rightarrow> nasl_array \<Rightarrow> nasl_array" where
  "set_chain h x a = (let es = chains a in a\<lparr>hash_elt := Some (es[h := x # es ! h])\<rparr>)"

primrec copy_chain ::
  "(addr \<Rightarrow> anon_nasl_var \<Rightarrow> nasl_state \<Rightarrow> nasl_state run) \<Rightarrow> addr \<Rightarrow> nat \<Rightarrow> (string \<times> addr) list \<Rightarrow> nasl_state \<Rightarrow> nasl_state run" where
  "copy_chain cp p h [] \<sigma> = Fin \<sigma>"
| "copy_chain cp p h (x # xs) \<sigma> =
     andthen (dup_anon_var cp (Some (snd x)) \<sigma>) (\<lambda>(q, \<sigma>).
       copy_chain cp p h xs (upd_array p (set_chain h (fst x, the q)) \<sigma>))"

primrec copy_chains ::
  "(addr \<Rightarrow> anon_nasl_var \<Rightarrow> nasl_state \<Rightarrow> nasl_state run) \<Rightarrow> addr \<Rightarrow> nat \<Rightarrow> (string \<times> addr) list list \<Rightarrow> nasl_state \<Rightarrow> nasl_state run" where
  "copy_chains cp p h [] \<sigma> = Fin \<sigma>"
| "copy_chains cp p h (es # ess) \<sigma> = andthen (copy_chain cp p h es \<sigma>) (copy_chains cp p (Suc h) ess)"

definition copy_array ::
  "(addr \<Rightarrow> anon_nasl_var \<Rightarrow> nasl_state \<Rightarrow> nasl_state run) \<Rightarrow> addr \<Rightarrow> nasl_array \<Rightarrow> bool \<Rightarrow> nasl_state \<Rightarrow> nasl_state run" where
  "copy_array cp p a copy_named \<sigma> =
     (let \<sigma> = set_var p (VAR2_ARRAY \<lparr>num_elt = replicate (length (num_elt a)) None, hash_elt = None\<rparr>) \<sigma> in
      andthen (copy_nums cp p 0 (num_elt a) \<sigma>) (\<lambda>\<sigma>.
        case hash_elt a of
          Some es \<Rightarrow>
            if copy_named
            then copy_chains cp p 0 es (upd_array p (\<lambda>b. b\<lparr>hash_elt := Some (replicate VAR_NAME_HASH [])\<rparr>) \<sigma>)
            else Fin \<sigma>
        | None \<Rightarrow> Fin \<sigma>))"

primrec copy_anon_var :: "nat \<Rightarrow> addr \<Rightarrow> anon_nasl_var \<Rightarrow> nasl_state \<Rightarrow> nasl_state run" where
  "copy_anon_var 0 p v \<sigma> = Timeout"
| "copy_anon_var (Suc n) p v \<sigma> =
     (case v of VAR2_ARRAY a \<Rightarrow> copy_array (copy_anon_var n) p a True \<sigma> | _ \<Rightarrow> Fin (set_var p v \<sigma>))"

text \<open>The array that a cell refers to.\<close>

definition array_at :: "addr \<Rightarrow> nasl_state \<Rightarrow> nasl_array run" where
  "array_at p \<sigma> = (case ns_heap \<sigma> p of Some (VAR2_ARRAY a) \<Rightarrow> Fin a | _ \<Rightarrow> Abort)"

text \<open>A new array that no variable holds.\<close>

definition new_array :: "nat \<Rightarrow> nasl_array \<Rightarrow> bool \<Rightarrow> nasl_state \<Rightarrow> (tree_cell \<times> nasl_state) run" where
  "new_array n a copy_named \<sigma> =
     (let (p, \<sigma>) = alloc_var (VAR2_ARRAY empty_array) \<sigma>
      in andthen (copy_array (copy_anon_var n) p a copy_named \<sigma>) (\<lambda>\<sigma>. Fin (DYN_ARRAY p, \<sigma>)))"

definition copy_ref_array :: "nat \<Rightarrow> tree_cell \<Rightarrow> nasl_state \<Rightarrow> (tree_cell \<times> nasl_state) run" where
  "copy_ref_array n c1 \<sigma> =
     (case c1 of
        REF_ARRAY p \<Rightarrow> andthen (array_at p \<sigma>) (\<lambda>a. new_array n a True \<sigma>)
      | _ \<Rightarrow> Fin (NULL, \<sigma>))"

subsection \<open>Variables and elements as cells\<close>

definition get_variable_by_name :: "nat \<Rightarrow> string \<Rightarrow> nasl_state \<Rightarrow> (tree_cell \<times> nasl_state) run" where
  "get_variable_by_name n name \<sigma> =
     (if c_str name = FCT_ANON_ARGS then new_array n (ctx_vars (lexic \<sigma>)) False \<sigma>
      else let (p, \<sigma>) = get_var_ref_by_name name True \<sigma> in Fin (REF_VAR (Some p), \<sigma>))"

text \<open>An element of the numbered arguments of the function that is executed; none is created.\<close>

definition anon_arg :: "tree_cell \<Rightarrow> nasl_state \<Rightarrow> (tree_cell \<times> nasl_state) run" where
  "anon_arg idx \<sigma> =
     (case dropWhile (\<lambda>c. \<not> fct_ctxt c) (ns_ctxts \<sigma>) of
        [] \<Rightarrow> Fin (NULL, \<sigma>)
      | c # _ \<Rightarrow>
          let a = (ctx_vars c)\<lparr>hash_elt := None\<rparr> in
          (case idx of
             CONST_INT i \<Rightarrow> andthen (nasl_get_var_by_num a i False \<sigma>) (\<lambda>(v, _, \<sigma>). Fin (REF_VAR v, \<sigma>))
           | CONST_STR (Some s) \<Rightarrow> let (p, _, \<sigma>) = get_var_by_name a s \<sigma> in Fin (REF_VAR (Some p), \<sigma>)
           | CONST_DATA (Some s) \<Rightarrow> let (p, _, \<sigma>) = get_var_by_name a s \<sigma> in Fin (REF_VAR (Some p), \<sigma>)
           | CONST_STR None \<Rightarrow> Abort
           | CONST_DATA None \<Rightarrow> Abort
           | FAKE_CELL \<Rightarrow> Abort
           | _ \<Rightarrow> Fin (NULL, \<sigma>)))"

definition array_elem :: "addr \<Rightarrow> nasl_array \<Rightarrow> tree_cell \<Rightarrow> nasl_state \<Rightarrow> (tree_cell \<times> nasl_state) run" where
  "array_elem p a idx \<sigma> =
     (case idx of
        CONST_INT i \<Rightarrow>
          andthen (nasl_get_var_by_num a i True \<sigma>) (\<lambda>(v, a, \<sigma>). Fin (REF_VAR v, set_var p (VAR2_ARRAY a) \<sigma>))
      | CONST_STR (Some s) \<Rightarrow>
          let (q, a, \<sigma>) = get_var_by_name a s \<sigma> in Fin (REF_VAR (Some q), set_var p (VAR2_ARRAY a) \<sigma>)
      | CONST_DATA (Some s) \<Rightarrow>
          let (q, a, \<sigma>) = get_var_by_name a s \<sigma> in Fin (REF_VAR (Some q), set_var p (VAR2_ARRAY a) \<sigma>)
      | CONST_STR None \<Rightarrow> Abort
      | CONST_DATA None \<Rightarrow> Abort
      | FAKE_CELL \<Rightarrow> Abort
      | _ \<Rightarrow> Fin (NULL, set_var p (VAR2_ARRAY a) \<sigma>))"

definition text_elem :: "string option \<Rightarrow> tree_cell \<Rightarrow> tree_cell run" where
  "text_elem s idx =
     (case idx of
        CONST_INT i \<Rightarrow>
          (let l = (case s of None \<Rightarrow> 0 | Some t \<Rightarrow> int (length t)) in
           if sint i \<ge> l then Fin (CONST_DATA (Some []))
           else if sint i < 0 then Fin NULL
           else Fin (CONST_DATA (Some [the s ! nat (sint i)])))
      | FAKE_CELL \<Rightarrow> Abort
      | _ \<Rightarrow> Fin NULL)"

definition get_array_elem :: "string \<Rightarrow> tree_cell \<Rightarrow> nasl_state \<Rightarrow> (tree_cell \<times> nasl_state) run" where
  "get_array_elem name idx \<sigma> =
     (let idx = (if idx = NULL then CONST_INT 0 else idx) in
      if c_str name = FCT_ANON_ARGS then anon_arg idx \<sigma>
      else
        let (p, \<sigma>) = get_var_ref_by_name name True \<sigma> in
        (case ns_heap \<sigma> p of
           None \<Rightarrow> Abort
         | Some VAR2_UNDEF \<Rightarrow> array_elem p empty_array idx \<sigma>
         | Some (VAR2_ARRAY a) \<Rightarrow> array_elem p a idx \<sigma>
         | Some (VAR2_INT _) \<Rightarrow> Fin (NULL, \<sigma>)
         | Some (VAR2_STRING s) \<Rightarrow> andthen (text_elem s idx) (\<lambda>c. Fin (c, \<sigma>))
         | Some (VAR2_DATA s) \<Rightarrow> andthen (text_elem s idx) (\<lambda>c. Fin (c, \<sigma>))))"

subsection \<open>Assignment\<close>

text \<open>
  The old contents are freed after the new ones were copied (\<open>v0\<close> of the code). The variable has its
  new type and no contents while an array is copied to it.
\<close>

definition assign :: "(nasl_state \<Rightarrow> nasl_state run) \<Rightarrow> addr \<Rightarrow> nasl_state \<Rightarrow> (tree_cell \<times> nasl_state) run" where
  "assign f p \<sigma> =
     (case ns_heap \<sigma> p of
        None \<Rightarrow> Abort
      | Some v0 \<Rightarrow>
          andthen (f \<sigma>) (\<lambda>\<sigma>.
          andthen (free_vars (Suc (ns_next \<sigma>)) (var_kids v0) \<sigma>) (\<lambda>\<sigma>. Fin (FAKE_CELL, \<sigma>))))"

definition holds_array :: "anon_nasl_var option \<Rightarrow> bool" where
  "holds_array v = (case v of Some (VAR2_ARRAY _) \<Rightarrow> True | _ \<Rightarrow> False)"

definition affect_to_anon_var :: "nat \<Rightarrow> addr option \<Rightarrow> tree_cell \<Rightarrow> nasl_state \<Rightarrow> (tree_cell \<times> nasl_state) run" where
  "affect_to_anon_var n v1 rval \<sigma> =
     (case v1 of
        None \<Rightarrow> Fin (NULL, \<sigma>)
      | Some p \<Rightarrow>
          if ns_heap \<sigma> p = None then Abort
          else if is_void rval then andthen (clear_anon_var p \<sigma>) (\<lambda>\<sigma>. Fin (NULL, \<sigma>))
          else
            (case rval of
               CONST_INT i \<Rightarrow> assign (\<lambda>\<sigma>. Fin (set_var p (VAR2_INT i) \<sigma>)) p \<sigma>
             | CONST_STR s \<Rightarrow> assign (\<lambda>\<sigma>. Fin (set_var p (VAR2_STRING s) \<sigma>)) p \<sigma>
             | CONST_DATA s \<Rightarrow> assign (\<lambda>\<sigma>. Fin (set_var p (VAR2_DATA s) \<sigma>)) p \<sigma>
             | REF_VAR None \<Rightarrow> assign (\<lambda>\<sigma>. Fin (set_var p VAR2_UNDEF \<sigma>)) p \<sigma>
             | REF_VAR (Some q) \<Rightarrow>
                 if q = p then Fin (FAKE_CELL, \<sigma>)
                 else (case ns_heap \<sigma> q of
                         None \<Rightarrow> Abort
                       | Some v \<Rightarrow> assign (copy_anon_var n p v) p \<sigma>)
             | REF_ARRAY q \<Rightarrow>
                 if q = p \<and> holds_array (ns_heap \<sigma> p) then Fin (FAKE_CELL, \<sigma>)
                 else andthen (array_at q \<sigma>) (\<lambda>a. assign (copy_array (copy_anon_var n) p a True) p \<sigma>)
             | DYN_ARRAY q \<Rightarrow>
                 if q = p \<and> holds_array (ns_heap \<sigma> p) then Fin (FAKE_CELL, \<sigma>)
                 else andthen (array_at q \<sigma>) (\<lambda>a. assign (copy_array (copy_anon_var n) p a True) p \<sigma>)
             | _ \<Rightarrow> Fin (NULL, \<sigma>)))"

definition nasl_affect :: "nat \<Rightarrow> tree_cell \<Rightarrow> tree_cell \<Rightarrow> nasl_state \<Rightarrow> (tree_cell \<times> nasl_state) run" where
  "nasl_affect n lval rval \<sigma> =
     (case lval of
        NULL \<Rightarrow> Fin (NULL, \<sigma>)
      | FAKE_CELL \<Rightarrow> Abort
      | REF_VAR v1 \<Rightarrow> affect_to_anon_var n v1 rval \<sigma>
      | _ \<Rightarrow> Fin (NULL, \<sigma>))"

text \<open>\<open>create_anon_var\<close>, and the variable part of \<open>create_named_var\<close>.\<close>

definition create_anon_var :: "nat \<Rightarrow> tree_cell \<Rightarrow> nasl_state \<Rightarrow> (addr \<times> nasl_state) run" where
  "create_anon_var n val \<sigma> =
     (let (p, \<sigma>) = alloc_var VAR2_UNDEF \<sigma> in
      if is_void val then Fin (p, \<sigma>)
      else andthen (affect_to_anon_var n (Some p) val \<sigma>) (\<lambda>(_, \<sigma>). Fin (p, \<sigma>)))"

definition add_named_var_to_ctxt ::
  "nat \<Rightarrow> lex_ctxt \<Rightarrow> string \<Rightarrow> tree_cell \<Rightarrow> nasl_state \<Rightarrow> (addr option \<times> lex_ctxt \<times> nasl_state) run" where
  "add_named_var_to_ctxt n c name val \<sigma> =
     (let name = c_str name in
      case hash_elt (ctx_vars c) of
        None \<Rightarrow> Abort
      | Some es \<Rightarrow>
          if map_of (es ! hash_str name) name \<noteq> None then Fin (None, c, \<sigma>)
          else andthen (create_anon_var n val \<sigma>) (\<lambda>(p, \<sigma>).
            Fin (Some p, c\<lparr>ctx_vars := push_name (ctx_vars c) name p\<rparr>, \<sigma>)))"

definition add_numbered_var_to_ctxt ::
  "nat \<Rightarrow> lex_ctxt \<Rightarrow> nat \<Rightarrow> tree_cell \<Rightarrow> nasl_state \<Rightarrow> (addr option \<times> lex_ctxt \<times> nasl_state) run" where
  "add_numbered_var_to_ctxt n c num val \<sigma> =
     (let a = ctx_vars c; xs = num_elt a;
          put = (\<lambda>xs \<sigma>. andthen (create_anon_var n val \<sigma>) (\<lambda>(p, \<sigma>).
                   Fin (Some p, c\<lparr>ctx_vars := a\<lparr>num_elt := xs[num := Some p]\<rparr>\<rparr>, \<sigma>)))
      in if num < length xs
         then (case xs ! num of
                 None \<Rightarrow> put xs \<sigma>
               | Some p \<Rightarrow>
                   (case ns_heap \<sigma> p of
                      None \<Rightarrow> Abort
                    | Some VAR2_UNDEF \<Rightarrow> andthen (free_vars (Suc (ns_next \<sigma>)) [p] \<sigma>) (put xs)
                    | Some _ \<Rightarrow> Fin (None, c, \<sigma>)))
         else andthen (grow 32 num xs) (\<lambda>xs. put xs \<sigma>))"

text \<open>The declarations are a chain of \<open>NODE_DECL\<close>; the result of the addition is not looked at.\<close>

fun decl_variables :: "tree_cell \<Rightarrow> lex_ctxt \<Rightarrow> nasl_state \<Rightarrow> (lex_ctxt \<times> nasl_state) run" where
  "decl_variables (NODE_DECL (Some name) t) c \<sigma> =
     andthen (add_named_var_to_ctxt 0 c name NULL \<sigma>) (\<lambda>(_, c, \<sigma>). decl_variables t c \<sigma>)"
| "decl_variables (NODE_DECL None t) c \<sigma> = decl_variables t c \<sigma>"
| "decl_variables NULL c \<sigma> = Fin (c, \<sigma>)"
| "decl_variables _ c \<sigma> = Abort"

definition decl_local_variables :: "tree_cell \<Rightarrow> nasl_state \<Rightarrow> (tree_cell \<times> nasl_state) run" where
  "decl_local_variables vars \<sigma> =
     andthen (decl_variables vars (lexic \<sigma>) \<sigma>) (\<lambda>(c, \<sigma>). Fin (FAKE_CELL, upd_lexic (\<lambda>_. c) \<sigma>))"

definition decl_global_variables :: "tree_cell \<Rightarrow> nasl_state \<Rightarrow> (tree_cell \<times> nasl_state) run" where
  "decl_global_variables vars \<sigma> =
     andthen (decl_variables vars (last (ns_ctxts \<sigma>)) \<sigma>) (\<lambda>(c, \<sigma>).
       Fin (FAKE_CELL, \<sigma>\<lparr>ns_ctxts := butlast (ns_ctxts \<sigma>) @ [c]\<rparr>))"

subsection \<open>Reading and counting\<close>

definition nasl_read_var_ref :: "tree_cell \<Rightarrow> nasl_state \<Rightarrow> tree_cell run" where
  "nasl_read_var_ref tc \<sigma> =
     (case tc of
        REF_VAR None \<Rightarrow> Fin NULL
      | REF_VAR (Some p) \<Rightarrow>
          (case ns_heap \<sigma> p of
             None \<Rightarrow> Abort
           | Some (VAR2_INT i) \<Rightarrow> Fin (CONST_INT i)
           | Some (VAR2_STRING None) \<Rightarrow> Abort
           | Some (VAR2_STRING s) \<Rightarrow> Fin (CONST_STR s)
           | Some (VAR2_DATA s) \<Rightarrow> Fin (CONST_DATA s)
           | Some (VAR2_ARRAY _) \<Rightarrow> Fin (REF_ARRAY p)
           | Some VAR2_UNDEF \<Rightarrow> Fin NULL)
      | _ \<Rightarrow> Fin NULL)"

definition atoi32 :: "string option \<Rightarrow> i32" where
  "atoi32 s = (case s of None \<Rightarrow> 0 | Some t \<Rightarrow> word_of_int (atoi (c_str t)))"

text \<open>Additions wrap; \<open>pre\<close> chooses between the new and the old value.\<close>

definition nasl_incr_variable :: "tree_cell \<Rightarrow> bool \<Rightarrow> i32 \<Rightarrow> nasl_state \<Rightarrow> (tree_cell \<times> nasl_state) run" where
  "nasl_incr_variable tc pre val \<sigma> =
     (let store = (\<lambda>p old. andthen (clear_anon_var p \<sigma>) (\<lambda>\<sigma>.
            Fin (CONST_INT (if pre then old + val else old), set_var p (VAR2_INT (old + val)) \<sigma>)))
      in case tc of
           FAKE_CELL \<Rightarrow> Abort
         | NULL \<Rightarrow> Abort
         | REF_VAR None \<Rightarrow> Abort
         | REF_VAR (Some p) \<Rightarrow>
             (case ns_heap \<sigma> p of
                None \<Rightarrow> Abort
              | Some (VAR2_INT i) \<Rightarrow> store p i
              | Some (VAR2_STRING s) \<Rightarrow> store p (atoi32 s)
              | Some (VAR2_DATA s) \<Rightarrow> store p (atoi32 s)
              | Some VAR2_UNDEF \<Rightarrow> store p 0
              | Some (VAR2_ARRAY _) \<Rightarrow> Fin (NULL, \<sigma>))
         | _ \<Rightarrow> Fin (NULL, \<sigma>))"

definition var2int :: "addr option \<Rightarrow> i32 \<Rightarrow> nasl_state \<Rightarrow> i32 run" where
  "var2int v defval \<sigma> =
     (case v of
        None \<Rightarrow> Fin defval
      | Some p \<Rightarrow>
          (case ns_heap \<sigma> p of
             None \<Rightarrow> Abort
           | Some (VAR2_INT i) \<Rightarrow> Fin i
           | Some (VAR2_STRING None) \<Rightarrow> Abort
           | Some (VAR2_DATA None) \<Rightarrow> Abort
           | Some (VAR2_STRING s) \<Rightarrow> Fin (atoi32 s)
           | Some (VAR2_DATA s) \<Rightarrow> Fin (atoi32 s)
           | Some _ \<Rightarrow> Fin defval))"

subsection \<open>Texts\<close>

text \<open>
  The buffer of \<open>array2str\<close>: its length, the text up to the first NUL, the place \<open>n\<close> of the next
  write, and whether an element was written. What is written behind a NUL is not seen.
\<close>

record buf2str =
  b_len :: nat
  b_txt :: string
  b_n :: nat
  b_any :: bool

text \<open>
  A write of \<open>t\<close> of at most \<open>lim\<close> bytes with the NUL at \<open>n\<close>, outside of the buffer it ends the
  process; \<open>adv\<close> is what is added to \<open>n\<close>.
\<close>

definition put_text :: "nat \<Rightarrow> string \<Rightarrow> (nat \<Rightarrow> nat) \<Rightarrow> buf2str \<Rightarrow> buf2str run" where
  "put_text lim t adv b =
     (let k = min (lim - 1) (length t) in
      if b_n b + k \<ge> b_len b then Abort
      else Fin (b\<lparr>b_txt := (if b_n b = length (b_txt b) then b_txt b @ take k t else b_txt b), b_n := b_n b + adv k\<rparr>))"

definition put_all :: "string \<Rightarrow> buf2str \<Rightarrow> buf2str run" where
  "put_all t = put_text (Suc (length t)) t id"

definition text_of :: "string option \<Rightarrow> string" where
  "text_of s = (case s of None \<Rightarrow> ''(null)'' | Some t \<Rightarrow> c_str t)"

definition text_size :: "string option \<Rightarrow> nat" where
  "text_size s = (case s of None \<Rightarrow> 0 | Some t \<Rightarrow> length t)"

text \<open>
  One element with the text \<open>key\<close> of its index. \<open>extra\<close> is the length of a name (0 for a number);
  for named integers \<open>n\<close> grows by the length of the whole text even when it was cut.
\<close>

definition elem2str :: "string \<Rightarrow> nat \<Rightarrow> bool \<Rightarrow> anon_nasl_var \<Rightarrow> buf2str \<Rightarrow> buf2str run" where
  "elem2str key extra named u b =
     (if u = VAR2_UNDEF then Fin b
      else
        let b = (if b_n b + 80 \<ge> b_len b then b\<lparr>b_len := b_len b + 80 + extra\<rparr> else b) in
        andthen (if b_any b then put_all '', '' b else Fin b) (\<lambda>b.
          let b = b\<lparr>b_any := True\<rparr>;
              str = (\<lambda>s.
                if text_size s < 64
                then put_text (b_len b - b_n b) (key @ '': '' @ [CHR 0x27] @ text_of s @ [CHR 0x27]) id b
                else andthen (put_text (70 + extra) (key @ '': '' @ [CHR 0x27] @ text_of s) id b) (put_all (CHR 0x27 # ''...'')))
          in case u of
               VAR2_INT i \<Rightarrow>
                 let t = key @ '': '' @ int_text (sint i)
                 in put_text (b_len b - b_n b) t (if named then (\<lambda>_. length t) else id) b
             | VAR2_STRING s \<Rightarrow> str s
             | VAR2_DATA s \<Rightarrow> str s
             | _ \<Rightarrow> put_text (b_len b - b_n b) (key @ '': ????'') id b))"

primrec nums2str :: "nat \<Rightarrow> addr option list \<Rightarrow> nasl_state \<Rightarrow> buf2str \<Rightarrow> buf2str run" where
  "nums2str i [] \<sigma> b = Fin b"
| "nums2str i (x # xs) \<sigma> b =
     andthen (case x of
                None \<Rightarrow> Fin b
              | Some p \<Rightarrow> (case ns_heap \<sigma> p of None \<Rightarrow> Abort | Some u \<Rightarrow> elem2str (int_text (int i)) 0 False u b))
       (nums2str (Suc i) xs \<sigma>)"

primrec names2str :: "(string \<times> addr) list \<Rightarrow> nasl_state \<Rightarrow> buf2str \<Rightarrow> buf2str run" where
  "names2str [] \<sigma> b = Fin b"
| "names2str (x # xs) \<sigma> b =
     andthen (case ns_heap \<sigma> (snd x) of None \<Rightarrow> Abort | Some u \<Rightarrow> elem2str (fst x) (length (fst x)) True u b) (names2str xs \<sigma>)"

definition array2str :: "nasl_array \<Rightarrow> nasl_state \<Rightarrow> (string \<times> nasl_state) run" where
  "array2str a \<sigma> =
     (let len = (if ns_len \<sigma> = 0 then 80 else ns_len \<sigma>) in
      andthen (put_all ''[ '' \<lparr>b_len = len, b_txt = [], b_n = 0, b_any = False\<rparr>) (\<lambda>b.
      andthen (nums2str 0 (num_elt a) \<sigma> b) (\<lambda>b.
      andthen (case hash_elt a of None \<Rightarrow> Fin b | Some es \<Rightarrow> names2str (concat es) \<sigma> b) (\<lambda>b.
        let b = (if b_n b + 2 \<ge> b_len b then b\<lparr>b_len := b_len b + 80\<rparr> else b) in
        andthen (put_all '' ]'' b) (\<lambda>b. Fin (b_txt b, \<sigma>\<lparr>ns_len := b_len b\<rparr>))))))"

definition var2str :: "addr option \<Rightarrow> nasl_state \<Rightarrow> (string option \<times> nasl_state) run" where
  "var2str v \<sigma> =
     (case v of
        None \<Rightarrow> Fin (None, \<sigma>)
      | Some p \<Rightarrow>
          (case ns_heap \<sigma> p of
             None \<Rightarrow> Abort
           | Some (VAR2_INT i) \<Rightarrow> Fin (Some (snprintf 16 (int_text (sint i))), \<sigma>)
           | Some (VAR2_STRING s) \<Rightarrow> Fin (Some (case s of None \<Rightarrow> [] | Some t \<Rightarrow> t), \<sigma>)
           | Some (VAR2_DATA s) \<Rightarrow> Fin (Some (case s of None \<Rightarrow> [] | Some t \<Rightarrow> t), \<sigma>)
           | Some VAR2_UNDEF \<Rightarrow> Fin (None, \<sigma>)
           | Some (VAR2_ARRAY a) \<Rightarrow> andthen (array2str a \<sigma>) (\<lambda>(t, \<sigma>). Fin (Some t, \<sigma>))))"

subsection \<open>Access by the builtin functions\<close>

definition get_int_var_by_num :: "i32 \<Rightarrow> i32 \<Rightarrow> nasl_state \<Rightarrow> (i32 \<times> nasl_state) run" where
  "get_int_var_by_num num defval \<sigma> =
     andthen (get_var_ref_by_num num \<sigma>) (\<lambda>(v, \<sigma>). andthen (var2int v defval \<sigma>) (\<lambda>x. Fin (x, \<sigma>)))"

definition get_int_var_by_name :: "string \<Rightarrow> i32 \<Rightarrow> nasl_state \<Rightarrow> (i32 \<times> nasl_state) run" where
  "get_int_var_by_name name defval \<sigma> =
     (let (p, \<sigma>) = get_var_ref_by_name name True \<sigma> in andthen (var2int (Some p) defval \<sigma>) (\<lambda>x. Fin (x, \<sigma>)))"

definition get_int_local_var_by_name :: "string \<Rightarrow> i32 \<Rightarrow> nasl_state \<Rightarrow> (i32 \<times> nasl_state) run" where
  "get_int_local_var_by_name name defval \<sigma> =
     (let (p, \<sigma>) = get_var_ref_by_name name False \<sigma> in andthen (var2int (Some p) defval \<sigma>) (\<lambda>x. Fin (x, \<sigma>)))"

definition get_str_var_by_num :: "i32 \<Rightarrow> nasl_state \<Rightarrow> (string option \<times> nasl_state) run" where
  "get_str_var_by_num num \<sigma> = andthen (get_var_ref_by_num num \<sigma>) (\<lambda>(v, \<sigma>). var2str v \<sigma>)"

definition get_str_var_by_name :: "string \<Rightarrow> nasl_state \<Rightarrow> (string option \<times> nasl_state) run" where
  "get_str_var_by_name name \<sigma> = (let (p, \<sigma>) = get_var_ref_by_name name True \<sigma> in var2str (Some p) \<sigma>)"

definition get_str_local_var_by_name :: "string \<Rightarrow> nasl_state \<Rightarrow> (string option \<times> nasl_state) run" where
  "get_str_local_var_by_name name \<sigma> = (let (p, \<sigma>) = get_var_ref_by_name name False \<sigma> in var2str (Some p) \<sigma>)"

definition get_var_size :: "addr option \<Rightarrow> nasl_state \<Rightarrow> nat run" where
  "get_var_size v \<sigma> =
     (case v of
        None \<Rightarrow> Fin 0
      | Some p \<Rightarrow>
          (case ns_heap \<sigma> p of
             None \<Rightarrow> Abort
           | Some (VAR2_DATA s) \<Rightarrow> Fin (text_size s)
           | Some (VAR2_STRING s) \<Rightarrow> Fin (text_size s)
           | Some _ \<Rightarrow> Fin 0))"

definition get_var_size_by_name :: "string \<Rightarrow> nasl_state \<Rightarrow> (nat \<times> nasl_state) run" where
  "get_var_size_by_name name \<sigma> =
     (let (p, \<sigma>) = get_var_ref_by_name name True \<sigma> in andthen (get_var_size (Some p) \<sigma>) (\<lambda>x. Fin (x, \<sigma>)))"

definition get_local_var_size_by_name :: "string \<Rightarrow> nasl_state \<Rightarrow> (nat \<times> nasl_state) run" where
  "get_local_var_size_by_name name \<sigma> =
     (let (p, \<sigma>) = get_var_ref_by_name name False \<sigma> in andthen (get_var_size (Some p) \<sigma>) (\<lambda>x. Fin (x, \<sigma>)))"

definition get_var_size_by_num :: "i32 \<Rightarrow> nasl_state \<Rightarrow> (nat \<times> nasl_state) run" where
  "get_var_size_by_num num \<sigma> =
     andthen (get_var_ref_by_num num \<sigma>) (\<lambda>(v, \<sigma>). andthen (get_var_size v \<sigma>) (\<lambda>x. Fin (x, \<sigma>)))"

text \<open>The type of a variable is the variable itself, of which only the type is used.\<close>

definition get_var_type_by_num :: "i32 \<Rightarrow> nasl_state \<Rightarrow> (anon_nasl_var \<times> nasl_state) run" where
  "get_var_type_by_num num \<sigma> =
     andthen (get_var_ref_by_num num \<sigma>) (\<lambda>(v, \<sigma>).
       case v of None \<Rightarrow> Fin (VAR2_UNDEF, \<sigma>) | Some p \<Rightarrow> (case ns_heap \<sigma> p of None \<Rightarrow> Abort | Some u \<Rightarrow> Fin (u, \<sigma>)))"

subsection \<open>Iteration\<close>

text \<open>
  An iterator: the array, the next number (None when the numbers are done), the next chain and the
  named element that was returned last.
\<close>

record nasl_iterator =
  it_a :: "addr option"
  i1 :: "nat option"
  iH :: nat
  it_v :: "addr option"

definition nasl_array_iterator :: "tree_cell \<Rightarrow> nasl_state \<Rightarrow> nasl_iterator run" where
  "nasl_array_iterator c \<sigma> =
     (let it = (\<lambda>a. \<lparr>it_a = a, i1 = Some 0, iH = 0, it_v = None\<rparr>) in
      case c of
        REF_VAR (Some p) \<Rightarrow>
          (case ns_heap \<sigma> p of
             None \<Rightarrow> Abort
           | Some (VAR2_ARRAY _) \<Rightarrow> Fin (it (Some p))
           | Some _ \<Rightarrow> Fin (it None))
      | REF_ARRAY p \<Rightarrow> Fin (it (Some p))
      | DYN_ARRAY p \<Rightarrow> Fin (it (Some p))
      | _ \<Rightarrow> Fin (it None))"

text \<open>The first defined number from \<open>i\<close> on, and the first defined name of a chain.\<close>

primrec next_num :: "nat \<Rightarrow> addr option list \<Rightarrow> nasl_state \<Rightarrow> (addr \<times> nat) option run" where
  "next_num i [] \<sigma> = Fin None"
| "next_num i (x # xs) \<sigma> =
     (case x of
        None \<Rightarrow> next_num (Suc i) xs \<sigma>
      | Some p \<Rightarrow>
          (case ns_heap \<sigma> p of
             None \<Rightarrow> Abort
           | Some VAR2_UNDEF \<Rightarrow> next_num (Suc i) xs \<sigma>
           | Some _ \<Rightarrow> Fin (Some (p, Suc i))))"

primrec next_name :: "(string \<times> addr) list \<Rightarrow> nasl_state \<Rightarrow> addr option run" where
  "next_name [] \<sigma> = Fin None"
| "next_name (x # xs) \<sigma> =
     (case ns_heap \<sigma> (snd x) of
        None \<Rightarrow> Abort
      | Some VAR2_UNDEF \<Rightarrow> next_name xs \<sigma>
      | Some _ \<Rightarrow> Fin (Some (snd x)))"

primrec next_chain :: "nat \<Rightarrow> (string \<times> addr) list list \<Rightarrow> nasl_state \<Rightarrow> (addr \<times> nat) option run" where
  "next_chain h [] \<sigma> = Fin None"
| "next_chain h (es # ess) \<sigma> =
     andthen (next_name es \<sigma>) (\<lambda>x. case x of Some p \<Rightarrow> Fin (Some (p, Suc h)) | None \<Rightarrow> next_chain (Suc h) ess \<sigma>)"

text \<open>The elements of a chain behind the one at \<open>p\<close>.\<close>

definition behind :: "addr \<Rightarrow> (string \<times> addr) list \<Rightarrow> (string \<times> addr) list" where
  "behind p es = tl (dropWhile (\<lambda>x. snd x \<noteq> p) es)"

definition iterate_names :: "nasl_iterator \<Rightarrow> nasl_array \<Rightarrow> nasl_state \<Rightarrow> (tree_cell \<times> nasl_iterator) run" where
  "iterate_names it a \<sigma> =
     (case hash_elt a of
        None \<Rightarrow> Fin (NULL, it)
      | Some es \<Rightarrow>
          andthen (case it_v it of
                     None \<Rightarrow> Fin None
                   | Some p \<Rightarrow> if ns_heap \<sigma> p = None then Abort else next_name (behind p (es ! (iH it - 1))) \<sigma>) (\<lambda>x.
            case x of
              Some q \<Rightarrow> Fin (REF_VAR (Some q), it\<lparr>it_v := Some q\<rparr>)
            | None \<Rightarrow>
                andthen (next_chain (iH it) (drop (iH it) es) \<sigma>) (\<lambda>y.
                  case y of
                    Some (q, h) \<Rightarrow> Fin (REF_VAR (Some q), it\<lparr>it_v := Some q, iH := h\<rparr>)
                  | None \<Rightarrow> Fin (NULL, it\<lparr>it_v := None, iH := VAR_NAME_HASH\<rparr>))))"

definition nasl_iterate_array :: "nasl_iterator \<Rightarrow> nasl_state \<Rightarrow> (tree_cell \<times> nasl_iterator) run" where
  "nasl_iterate_array it \<sigma> =
     (case it_a it of
        None \<Rightarrow> Fin (NULL, it)
      | Some p \<Rightarrow>
          andthen (array_at p \<sigma>) (\<lambda>a.
            case i1 it of
              None \<Rightarrow> iterate_names it a \<sigma>
            | Some i \<Rightarrow>
                andthen (next_num i (drop i (num_elt a)) \<sigma>) (\<lambda>x.
                  case x of
                    Some (q, j) \<Rightarrow> Fin (REF_VAR (Some q), it\<lparr>i1 := Some j\<rparr>)
                  | None \<Rightarrow> iterate_names (it\<lparr>i1 := None\<rparr>) a \<sigma>)))"

subsection \<open>Lists\<close>

text \<open>The functions on an array that lies at an address; the result of the C function comes first.\<close>

definition add_var_to_list :: "nat \<Rightarrow> addr \<Rightarrow> i32 \<Rightarrow> anon_nasl_var option \<Rightarrow> nasl_state \<Rightarrow> (int \<times> nasl_state) run" where
  "add_var_to_list n p i v \<sigma> =
     (if sint i < 0 then Fin (-1, \<sigma>)
      else
        let j = nat (sint i) in
        andthen (array_at p \<sigma>) (\<lambda>a.
        andthen (grow 8 j (num_elt a)) (\<lambda>xs.
          let \<sigma> = set_var p (VAR2_ARRAY (a\<lparr>num_elt := xs[j := None]\<rparr>)) \<sigma> in
          andthen (free_vars (Suc (ns_next \<sigma>)) (case xs ! j of None \<Rightarrow> [] | Some q \<Rightarrow> [q]) \<sigma>) (\<lambda>\<sigma>.
            case v of
              None \<Rightarrow> Fin (0, \<sigma>)
            | Some u \<Rightarrow>
                let (q, \<sigma>) = alloc_var VAR2_UNDEF \<sigma> in
                andthen (copy_anon_var n q u \<sigma>) (\<lambda>\<sigma>. Fin (1, upd_array p (\<lambda>a. a\<lparr>num_elt := (num_elt a)[j := Some q]\<rparr>) \<sigma>))))))"

definition add_var_to_array :: "nat \<Rightarrow> addr \<Rightarrow> string \<Rightarrow> anon_nasl_var \<Rightarrow> nasl_state \<Rightarrow> nasl_state run" where
  "add_var_to_array n p name v \<sigma> =
     andthen (array_at p \<sigma>) (\<lambda>a.
       let (q, \<sigma>) = alloc_var VAR2_UNDEF \<sigma>;
           \<sigma> = set_var p (VAR2_ARRAY (push_name a (c_str name) q)) \<sigma>
       in copy_anon_var n q v \<sigma>)"

text \<open>The index behind the last defined element, to which the array is cut when there is one.\<close>

definition defined_at :: "nasl_state \<Rightarrow> addr option \<Rightarrow> bool" where
  "defined_at \<sigma> x = (case x of None \<Rightarrow> False | Some p \<Rightarrow> ns_heap \<sigma> p \<noteq> Some VAR2_UNDEF)"

definition array_max_index :: "addr \<Rightarrow> nasl_state \<Rightarrow> (nat \<times> nasl_state) run" where
  "array_max_index p \<sigma> =
     andthen (array_at p \<sigma>) (\<lambda>a.
       let xs = rev (dropWhile (\<lambda>x. \<not> defined_at \<sigma> x) (rev (num_elt a)))
       in if xs = [] then Fin (0, \<sigma>) else Fin (length xs, set_var p (VAR2_ARRAY (a\<lparr>num_elt := xs\<rparr>)) \<sigma>))"

text \<open>
  The array of a literal: a chain of \<open>ARRAY_ELEM\<close>; other values than constants are undefined. The
  values are read into one variable of the function, which keeps its contents for an element without
  a value and is not set for the first one.
\<close>

fun elem_value :: "tree_cell \<Rightarrow> anon_nasl_var" where
  "elem_value (CONST_INT i) = VAR2_INT i"
| "elem_value (CONST_STR s) = VAR2_STRING s"
| "elem_value (CONST_DATA s) = VAR2_DATA s"
| "elem_value _ = VAR2_UNDEF"

fun elem_count :: "tree_cell \<Rightarrow> nat" where
  "elem_count (ARRAY_ELEM _ _ t) = Suc (elem_count t)"
| "elem_count _ = 0"

fun add_elems :: "addr \<Rightarrow> tree_cell \<Rightarrow> anon_nasl_var option \<Rightarrow> i32 \<Rightarrow> nasl_state \<Rightarrow> nasl_state run" where
  "add_elems p (ARRAY_ELEM key c t) v i \<sigma> =
     (case (if is_void c then v else Some (elem_value c)) of
        None \<Rightarrow> Abort
      | Some u \<Rightarrow>
          (case key of
             None \<Rightarrow> andthen (add_var_to_list 1 p i (Some u) \<sigma>) (\<lambda>(_, \<sigma>). add_elems p t (Some u) (i + 1) \<sigma>)
           | Some s \<Rightarrow> andthen (add_var_to_array 1 p s u \<sigma>) (add_elems p t (Some u) i)))"
| "add_elems p NULL v i \<sigma> = Fin \<sigma>"
| "add_elems p _ v i \<sigma> = Abort"

definition make_array_from_elems :: "tree_cell \<Rightarrow> nasl_state \<Rightarrow> (tree_cell \<times> nasl_state) run" where
  "make_array_from_elems el \<sigma> =
     (case el of
        ARRAY_ELEM key _ _ \<Rightarrow>
          let a = (case key of
                     None \<Rightarrow> \<lparr>num_elt = replicate (elem_count el) None, hash_elt = None\<rparr>
                   | Some _ \<Rightarrow> \<lparr>num_elt = [], hash_elt = Some (replicate VAR_NAME_HASH [])\<rparr>);
              (p, \<sigma>) = alloc_var (VAR2_ARRAY a) \<sigma>
          in andthen (add_elems p el None 0 \<sigma>) (\<lambda>\<sigma>. Fin (DYN_ARRAY p, \<sigma>))
      | _ \<Rightarrow> Abort)"

end
