(* ===== verification/NaslExec.thy ===== *)
theory NaslExec
  imports NaslVar
begin

text \<open>
  The NASL interpreter: \<open>nasl/exec.c\<close> with the calls of functions of \<open>nasl/nasl_func.c\<close>. The
  functions of the code call each other without bound, so \<open>nasl_exec\<close> takes a number of steps: with
  \<open>n + 1\<close> steps it executes one node, where \<open>ex\<close> is the execution with \<open>n\<close> steps and loops take at
  most \<open>n\<close> rounds. Without steps the result is \<open>Timeout\<close>; with more steps another result does not
  change. Reference counts of cells are left out: a cell lives as long as it is used.

  Signed additions, subtractions and multiplications wrap around. What the language leaves
  undefined otherwise (a division that overflows, shifts by a negative or too large number, the
  integer of a cell that holds a pointer) is \<open>Abort\<close>.
\<close>

type_synonym exec_fun = "tree_cell \<Rightarrow> nasl_state \<Rightarrow> (tree_cell \<times> nasl_state) run"

text \<open>What is outside: \<open>regexec\<close> of the C library, and the functions that are written in C.\<close>

record nasl_env =
  regexec :: "string \<Rightarrow> string \<Rightarrow> nat"
  c_funcs :: "string \<Rightarrow> nasl_state \<Rightarrow> (tree_cell \<times> nasl_state) run"

definition REG_NOMATCH :: nat where "REG_NOMATCH = 1"

subsection \<open>Conversions\<close>

primrec cell2bool :: "exec_fun \<Rightarrow> nat \<Rightarrow> tree_cell \<Rightarrow> nasl_state \<Rightarrow> (bool \<times> nasl_state) run" where
  "cell2bool ex 0 c \<sigma> = Timeout"
| "cell2bool ex (Suc k) c \<sigma> =
     (case c of
        NULL \<Rightarrow> Fin (False, \<sigma>)
      | FAKE_CELL \<Rightarrow> Fin (False, \<sigma>)
      | CONST_INT i \<Rightarrow> Fin (i \<noteq> 0, \<sigma>)
      | CONST_STR s \<Rightarrow> Fin (text_size s \<noteq> 0, \<sigma>)
      | CONST_DATA s \<Rightarrow> Fin (text_size s \<noteq> 0, \<sigma>)
      | REF_ARRAY _ \<Rightarrow> Fin (True, \<sigma>)
      | DYN_ARRAY _ \<Rightarrow> Fin (True, \<sigma>)
      | _ \<Rightarrow> andthen (ex c \<sigma>) (\<lambda>(c2, \<sigma>). cell2bool ex k c2 \<sigma>))"

text \<open>\<open>strtol\<close> with base 0 takes the base from the text.\<close>

definition auto_base :: "string \<Rightarrow> nat" where
  "auto_base s =
     (let t = snd (skip_sign (dropWhile isspace s)) in
      if skip_0x 16 t \<noteq> t then 16 else if take 1 t = ''0'' then 8 else 10)"

definition strtol0 :: "string \<Rightarrow> i32" where
  "strtol0 s = word_of_int (fst (strtol (auto_base s) s))"

text \<open>An array is executed to itself, so that the conversion of an array does not end.\<close>

primrec cell2int3 :: "exec_fun \<Rightarrow> nat \<Rightarrow> tree_cell \<Rightarrow> nasl_state \<Rightarrow> (i32 \<times> nasl_state) run" where
  "cell2int3 ex 0 c \<sigma> = Timeout"
| "cell2int3 ex (Suc k) c \<sigma> =
     (case c of
        NULL \<Rightarrow> Fin (0, \<sigma>)
      | FAKE_CELL \<Rightarrow> Fin (0, \<sigma>)
      | CONST_INT i \<Rightarrow> Fin (i, \<sigma>)
      | CONST_STR s \<Rightarrow> (case s of None \<Rightarrow> Abort | Some t \<Rightarrow> Fin (strtol0 (c_str t), \<sigma>))
      | CONST_DATA s \<Rightarrow> (case s of None \<Rightarrow> Abort | Some t \<Rightarrow> Fin (strtol0 (c_str t), \<sigma>))
      | _ \<Rightarrow> andthen (ex c \<sigma>) (\<lambda>(c2, \<sigma>). cell2int3 ex k c2 \<sigma>))"

definition int2cell :: "i32 \<Rightarrow> tree_cell" where
  "int2cell x = CONST_INT x"

definition bool2cell :: "bool \<Rightarrow> tree_cell" where
  "bool2cell b = int2cell (if b then 1 else 0)"

text \<open>The bytes of a text with their number; what follows is NUL.\<close>

primrec cell2str :: "exec_fun \<Rightarrow> nat \<Rightarrow> tree_cell \<Rightarrow> nasl_state \<Rightarrow> (string option \<times> nasl_state) run" where
  "cell2str ex 0 c \<sigma> = Timeout"
| "cell2str ex (Suc k) c \<sigma> =
     (case c of
        NULL \<Rightarrow> Fin (None, \<sigma>)
      | FAKE_CELL \<Rightarrow> Fin (None, \<sigma>)
      | CONST_INT i \<Rightarrow> Fin (Some (snprintf 16 (int_text (sint i))), \<sigma>)
      | CONST_STR s \<Rightarrow> Fin (Some (case s of None \<Rightarrow> [] | Some t \<Rightarrow> t), \<sigma>)
      | CONST_DATA s \<Rightarrow> Fin (Some (case s of None \<Rightarrow> [] | Some t \<Rightarrow> t), \<sigma>)
      | REF_ARRAY p \<Rightarrow> andthen (array_at p \<sigma>) (\<lambda>a. andthen (array2str a \<sigma>) (\<lambda>(t, \<sigma>). Fin (Some t, \<sigma>)))
      | DYN_ARRAY p \<Rightarrow> andthen (array_at p \<sigma>) (\<lambda>a. andthen (array2str a \<sigma>) (\<lambda>(t, \<sigma>). Fin (Some t, \<sigma>)))
      | _ \<Rightarrow> andthen (ex c \<sigma>) (\<lambda>(c2, \<sigma>). andthen (cell2str ex k c2 \<sigma>) (\<lambda>(p, \<sigma>).
              Fin (Some (case p of None \<Rightarrow> [] | Some t \<Rightarrow> t), \<sigma>))))"

primrec cell2atom :: "exec_fun \<Rightarrow> nat \<Rightarrow> tree_cell \<Rightarrow> nasl_state \<Rightarrow> (tree_cell \<times> nasl_state) run" where
  "cell2atom ex 0 c \<sigma> = Timeout"
| "cell2atom ex (Suc k) c \<sigma> =
     (if nasl_is_leaf c then Fin (c, \<sigma>) else andthen (ex c \<sigma>) (\<lambda>(c2, \<sigma>). cell2atom ex k c2 \<sigma>))"

subsection \<open>Comparison\<close>

datatype atom_type = T_NULL | T_INT | T_STR | T_DATA | T_REF_ARRAY | T_DYN_ARRAY

fun atom_type_of :: "tree_cell \<Rightarrow> atom_type" where
  "atom_type_of (CONST_INT _) = T_INT"
| "atom_type_of (CONST_STR _) = T_STR"
| "atom_type_of (CONST_DATA _) = T_DATA"
| "atom_type_of (REF_ARRAY _) = T_REF_ARRAY"
| "atom_type_of (DYN_ARRAY _) = T_DYN_ARRAY"
| "atom_type_of _ = T_NULL"

definition is_text :: "atom_type \<Rightarrow> bool" where
  "is_text t \<longleftrightarrow> t = T_DATA \<or> t = T_STR"

text \<open>The type as which two atoms are compared, or the result when they are not.\<close>

definition cmp_type :: "atom_type \<Rightarrow> atom_type \<Rightarrow> atom_type + int" where
  "cmp_type typ1 typ2 =
     (if typ1 = T_NULL \<and> typ2 = T_NULL then Inr 0
      else if typ1 = typ2 then Inl typ1
      else if is_text typ1 \<and> is_text typ2 then Inl T_DATA
      else if (typ1 = T_INT \<and> is_text typ2) \<or> (typ2 = T_INT \<and> is_text typ1) then Inl T_DATA
      else if typ1 = T_NULL then (if typ2 = T_INT \<or> is_text typ2 then Inl typ2 else Inr (- 1))
      else if typ2 = T_NULL then (if typ1 = T_INT \<or> is_text typ1 then Inl typ1 else Inr 1)
      else Inr 0)"

fun atom_int :: "tree_cell \<Rightarrow> i32" where
  "atom_int (CONST_INT i) = i"
| "atom_int _ = 0"

fun atom_bytes :: "tree_cell \<Rightarrow> string" where
  "atom_bytes (CONST_INT i) = snprintf 16 (int_text (sint i))"
| "atom_bytes (CONST_STR (Some t)) = t"
| "atom_bytes (CONST_DATA (Some t)) = t"
| "atom_bytes _ = []"

text \<open>\<open>memcmp\<close>: the difference of the first bytes that differ.\<close>

fun memcmp :: "string \<Rightarrow> string \<Rightarrow> int" where
  "memcmp (a # as) (b # bs) = (if a = b then memcmp as bs else int (ccode a) - int (ccode b))"
| "memcmp _ _ = 0"

definition cmp_atoms :: "tree_cell \<Rightarrow> tree_cell \<Rightarrow> int" where
  "cmp_atoms c1 c2 =
     (case cmp_type (atom_type_of c1) (atom_type_of c2) of
        Inr r \<Rightarrow> r
      | Inl T_INT \<Rightarrow> sint (atom_int c1 - atom_int c2)
      | Inl T_STR \<Rightarrow>
          let s1 = atom_bytes c1; s2 = atom_bytes c2; m = min (length s1) (length s2); flag = memcmp (take m s1) (take m s2)
          in if flag = 0 then int (length s1) - int (length s2) else flag
      | Inl T_DATA \<Rightarrow>
          let s1 = atom_bytes c1; s2 = atom_bytes c2; m = min (length s1) (length s2); flag = memcmp (take m s1) (take m s2)
          in if flag = 0 then int (length s1) - int (length s2) else flag
      | Inl _ \<Rightarrow> 0)"

definition cell_cmp :: "exec_fun \<Rightarrow> nat \<Rightarrow> tree_cell \<Rightarrow> tree_cell \<Rightarrow> nasl_state \<Rightarrow> (int \<times> nasl_state) run" where
  "cell_cmp ex k c1 c2 \<sigma> =
     andthen (cell2atom ex k c1 \<sigma>) (\<lambda>(c1, \<sigma>).
     andthen (cell2atom ex k c2 \<sigma>) (\<lambda>(c2, \<sigma>). Fin (cmp_atoms c1 c2, \<sigma>)))"

fun comp_holds :: "comp_op \<Rightarrow> int \<Rightarrow> bool" where
  "comp_holds COMP_LT r = (r < 0)"
| "comp_holds COMP_LE r = (r \<le> 0)"
| "comp_holds COMP_EQ r = (r = 0)"
| "comp_holds COMP_NE r = (r \<noteq> 0)"
| "comp_holds COMP_GT r = (r > 0)"
| "comp_holds COMP_GE r = (r \<ge> 0)"

subsection \<open>Arithmetic\<close>

function expo :: "i32 \<Rightarrow> i32 \<Rightarrow> i32" where
  "expo x y =
     (if y = 0 then 1
      else if sint y < 0 then (if x = 1 then 1 else 0)
      else if y = 1 then x
      else
        let z = expo x (word_of_int (sint y div 2))
        in if sint y mod 2 = 0 then z * z else x * z * z)"
  by pat_completeness auto

termination
proof (relation "measure (\<lambda>(x, y). nat (sint y))")
  fix x y :: i32
  assume a: "y \<noteq> 0" "\<not> sint y < 0" "y \<noteq> 1"
  have "sint y < 2 ^ 31" using sint_lt [of y] by simp
  then have "sint (word_of_int (sint y div 2) :: i32) = sint y div 2"
    using a(2) by (simp add: sint_sbintrunc' signed_take_bit_int_eq_self)
  moreover have "sint y \<noteq> 0" using a(1) by (metis of_int_sint of_int_0 scast_id)
  ultimately show "((x, word_of_int (sint y div 2)), x, y) \<in> measure (\<lambda>(x, y). nat (sint y))" using a(2) by simp
qed simp

declare expo.simps [simp del]

text \<open>Division truncates; the one quotient that is not an int, and shifts out of range, are undefined.\<close>

definition sdiv_trunc :: "int \<Rightarrow> int \<Rightarrow> int" where
  "sdiv_trunc x y = sgn x * sgn y * (\<bar>x\<bar> div \<bar>y\<bar>)"

definition shift_by :: "i32 \<Rightarrow> (nat \<Rightarrow> i32) \<Rightarrow> i32 run" where
  "shift_by y f = (if sint y < 0 \<or> sint y \<ge> 32 then Abort else Fin (f (nat (sint y))))"

fun int_op_val :: "int_op \<Rightarrow> i32 \<Rightarrow> i32 \<Rightarrow> i32 run" where
  "int_op_val EXPR_MULT x y = Fin (x * y)"
| "int_op_val EXPR_DIV x y =
     (if y = 0 then Fin 0
      else if sint x = - (2 ^ 31) \<and> sint y = - 1 then Abort
      else Fin (word_of_int (sdiv_trunc (sint x) (sint y))))"
| "int_op_val EXPR_EXPO x y = Fin (expo x y)"
| "int_op_val EXPR_MODULO x y =
     (if y = 0 then Fin 0
      else if sint x = - (2 ^ 31) \<and> sint y = - 1 then Abort
      else Fin (word_of_int (sint x - sdiv_trunc (sint x) (sint y) * sint y)))"
| "int_op_val EXPR_BIT_AND x y = Fin (and x y)"
| "int_op_val EXPR_BIT_OR x y = Fin (or x y)"
| "int_op_val EXPR_BIT_XOR x y = Fin (xor x y)"
| "int_op_val EXPR_L_SHIFT x y = shift_by y (\<lambda>k. push_bit k x)"
| "int_op_val EXPR_R_SHIFT x y = shift_by y (\<lambda>k. word_of_int (sint x div 2 ^ k))"
| "int_op_val EXPR_R_USHIFT x y = shift_by y (\<lambda>k. drop_bit k x)"

definition exec_int_op ::
  "exec_fun \<Rightarrow> nat \<Rightarrow> int_op \<Rightarrow> tree_cell \<Rightarrow> tree_cell \<Rightarrow> nasl_state \<Rightarrow> (tree_cell \<times> nasl_state) run" where
  "exec_int_op ex k q c1 c2 \<sigma> =
     andthen (cell2int3 ex k c1 \<sigma>) (\<lambda>(x, \<sigma>).
     andthen (cell2int3 ex k c2 \<sigma>) (\<lambda>(y, \<sigma>).
     andthen (int_op_val q x y) (\<lambda>z. Fin (int2cell z, \<sigma>))))"

text \<open>The type of a sum or difference, None when there is none.\<close>

definition sum_type :: "atom_type \<Rightarrow> atom_type \<Rightarrow> atom_type option" where
  "sum_type t1 t2 =
     (if t1 = T_DATA \<or> t2 = T_DATA then Some T_DATA
      else if t1 = T_STR \<or> t2 = T_STR then Some T_STR
      else if t1 = T_INT \<or> t2 = T_INT then Some T_INT
      else None)"

definition text_cell :: "atom_type \<Rightarrow> string \<Rightarrow> tree_cell" where
  "text_cell t s = (if t = T_STR then CONST_STR (Some s) else CONST_DATA (Some s))"

text \<open>The bytes of an atom that takes part in a text operation: \<open>strlen\<close> of the text of other types.\<close>

definition operand :: "exec_fun \<Rightarrow> nat \<Rightarrow> tree_cell \<Rightarrow> nasl_state \<Rightarrow> (string option \<times> nasl_state) run" where
  "operand ex k c \<sigma> =
     (case c of
        CONST_STR s \<Rightarrow> Fin (s, \<sigma>)
      | CONST_DATA s \<Rightarrow> Fin (s, \<sigma>)
      | _ \<Rightarrow> andthen (cell2str ex k c \<sigma>) (\<lambda>(s, \<sigma>). Fin (map_option c_str s, \<sigma>)))"

definition bytes :: "string option \<Rightarrow> string" where
  "bytes s = (case s of None \<Rightarrow> [] | Some t \<Rightarrow> t)"

text \<open>In a sum of integers the left operand is read from the cell without conversion.\<close>

definition exec_plus :: "exec_fun \<Rightarrow> nat \<Rightarrow> tree_cell \<Rightarrow> tree_cell \<Rightarrow> nasl_state \<Rightarrow> (tree_cell \<times> nasl_state) run" where
  "exec_plus ex k c1 c2 \<sigma> =
     andthen (cell2atom ex k c1 \<sigma>) (\<lambda>(tc1, \<sigma>).
     andthen (cell2atom ex k c2 \<sigma>) (\<lambda>(tc2, \<sigma>).
       if is_void tc2 then Fin (tc1, \<sigma>)
       else if is_void tc1 then Fin (tc2, \<sigma>)
       else
         case sum_type (atom_type_of tc1) (atom_type_of tc2) of
           None \<Rightarrow> Fin (NULL, \<sigma>)
         | Some T_INT \<Rightarrow>
             (case tc1 of
                CONST_INT x \<Rightarrow> andthen (cell2int3 ex k tc2 \<sigma>) (\<lambda>(y, \<sigma>). Fin (int2cell (x + y), \<sigma>))
              | _ \<Rightarrow> Abort)
         | Some flag \<Rightarrow>
             andthen (operand ex k tc1 \<sigma>) (\<lambda>(s1, \<sigma>).
             andthen (operand ex k tc2 \<sigma>) (\<lambda>(s2, \<sigma>). Fin (text_cell flag (bytes s1 @ bytes s2), \<sigma>)))))"

text \<open>\<open>memmem\<close>: the place of the first occurrence.\<close>

primrec memmem :: "string \<Rightarrow> string \<Rightarrow> nat option" where
  "memmem [] p = (if p = [] then Some 0 else None)"
| "memmem (c # s) p = (if take (length p) (c # s) = p then Some 0 else map_option Suc (memmem s p))"

definition remove_first :: "string \<Rightarrow> string \<Rightarrow> string" where
  "remove_first s p =
     (if p = [] \<or> length s < length p then s
      else case memmem s p of None \<Rightarrow> s | Some i \<Rightarrow> take i s @ drop (i + length p) s)"

definition exec_minus :: "exec_fun \<Rightarrow> nat \<Rightarrow> tree_cell \<Rightarrow> tree_cell \<Rightarrow> nasl_state \<Rightarrow> (tree_cell \<times> nasl_state) run" where
  "exec_minus ex k c1 c2 \<sigma> =
     andthen (cell2atom ex k c1 \<sigma>) (\<lambda>(tc1, \<sigma>).
     andthen (cell2atom ex k c2 \<sigma>) (\<lambda>(tc2, \<sigma>).
       if is_void tc2 then Fin (tc1, \<sigma>)
       else if is_void tc1 then (case tc2 of CONST_INT y \<Rightarrow> Fin (int2cell (- y), \<sigma>) | _ \<Rightarrow> Fin (NULL, \<sigma>))
       else
         case sum_type (atom_type_of tc1) (atom_type_of tc2) of
           None \<Rightarrow> Fin (NULL, \<sigma>)
         | Some T_INT \<Rightarrow>
             andthen (cell2int3 ex k tc1 \<sigma>) (\<lambda>(x, \<sigma>).
             andthen (cell2int3 ex k tc2 \<sigma>) (\<lambda>(y, \<sigma>). Fin (int2cell (x - y), \<sigma>)))
         | Some flag \<Rightarrow>
             andthen (operand ex k tc1 \<sigma>) (\<lambda>(s1, \<sigma>).
             andthen (operand ex k tc2 \<sigma>) (\<lambda>(s2, \<sigma>). Fin (text_cell flag (remove_first (bytes s1) (bytes s2)), \<sigma>)))))"

subsection \<open>Matching\<close>

definition match_operand :: "exec_fun \<Rightarrow> nat \<Rightarrow> tree_cell \<Rightarrow> nasl_state \<Rightarrow> (string option \<times> nasl_state) run" where
  "match_operand ex k c \<sigma> = (if is_void c then Fin (Some [], \<sigma>) else operand ex k c \<sigma>)"

definition exec_match :: "exec_fun \<Rightarrow> nat \<Rightarrow> bool \<Rightarrow> tree_cell \<Rightarrow> tree_cell \<Rightarrow> nasl_state \<Rightarrow> (tree_cell \<times> nasl_state) run" where
  "exec_match ex k pos c1 c2 \<sigma> =
     andthen (cell2atom ex k c1 \<sigma>) (\<lambda>(tc1, \<sigma>).
     andthen (cell2atom ex k c2 \<sigma>) (\<lambda>(tc2, \<sigma>).
     andthen (match_operand ex k tc1 \<sigma>) (\<lambda>(p1, \<sigma>).
     andthen (match_operand ex k tc2 \<sigma>) (\<lambda>(p2, \<sigma>).
       let flag = (case p2 of None \<Rightarrow> False | Some s \<Rightarrow> memmem s (bytes p1) \<noteq> None)
       in Fin (bool2cell (if pos then flag else \<not> flag), \<sigma>)))))"

definition exec_re_match ::
  "nasl_env \<Rightarrow> exec_fun \<Rightarrow> nat \<Rightarrow> bool \<Rightarrow> string option \<Rightarrow> tree_cell \<Rightarrow> nasl_state \<Rightarrow> (tree_cell \<times> nasl_state) run" where
  "exec_re_match env ex k pos re c \<sigma> =
     (case re of
        None \<Rightarrow> Fin (NULL, \<sigma>)
      | Some r \<Rightarrow>
          andthen (cell2str ex k c \<sigma>) (\<lambda>(s1, \<sigma>).
            case s1 of
              None \<Rightarrow> Fin (NULL, \<sigma>)
            | Some s \<Rightarrow>
                let nomatch = (regexec env r (c_str s) = REG_NOMATCH)
                in Fin (bool2cell (if pos then \<not> nomatch else nomatch), \<sigma>)))"

subsection \<open>Functions\<close>

definition func_hash :: "string \<Rightarrow> nat" where
  "func_hash s = hash_str2 s FUNC_NAME_HASH"

primrec get_func :: "lex_ctxt list \<Rightarrow> string \<Rightarrow> nat \<Rightarrow> nasl_func option" where
  "get_func [] name h = None"
| "get_func (c # cs) name h =
     (case find (\<lambda>f. func_name f = name) (ctx_functions c ! h) of Some f \<Rightarrow> Some f | None \<Rightarrow> get_func cs name h)"

definition get_func_ref_by_name :: "nasl_state \<Rightarrow> string \<Rightarrow> nasl_func option" where
  "get_func_ref_by_name \<sigma> name = get_func (ns_ctxts \<sigma>) (c_str name) (func_hash name)"

text \<open>The names of declared arguments; an argument without a name counts as unnamed.\<close>

fun decl_names :: "tree_cell \<Rightarrow> string option list" where
  "decl_names (NODE_DECL x t) = x # decl_names t"
| "decl_names _ = []"

text \<open>
  The order of \<open>args_names\<close> has no effect here; the code sorts them by the bytes of their addresses.
\<close>

definition make_func :: "string \<Rightarrow> (tree_cell \<times> tree_cell) option \<Rightarrow> nasl_func" where
  "make_func fname decl =
     (let f = \<lparr>func_name = fname, flag_compat = False, flag_internal = False, nb_unnamed_args = 0, nb_named_args = 0,
               args_names = [], block = Block NULL\<rparr>
      in case decl of
           None \<Rightarrow> f
         | Some (args, body) \<Rightarrow>
             let names = map the (filter (\<lambda>x. x \<noteq> None) (decl_names args))
             in f\<lparr>nb_unnamed_args := 9999, nb_named_args := length names, args_names := names, block := Block body\<rparr>)"

definition add_func :: "nat \<Rightarrow> nasl_func \<Rightarrow> lex_ctxt \<Rightarrow> lex_ctxt" where
  "add_func h f c = c\<lparr>ctx_functions := (ctx_functions c)[h := f # ctx_functions c ! h]\<rparr>"

text \<open>A function with this name, in any context, is not replaced.\<close>

definition insert_nasl_func :: "string \<Rightarrow> (tree_cell \<times> tree_cell) option \<Rightarrow> nasl_state \<Rightarrow> bool \<times> nasl_state" where
  "insert_nasl_func fname decl \<sigma> =
     (let fname = c_str fname; h = func_hash fname in
      if get_func (ns_ctxts \<sigma>) fname h \<noteq> None then (False, \<sigma>)
      else (True, upd_lexic (add_func h (make_func fname decl)) \<sigma>))"

definition decl_nasl_func :: "string \<Rightarrow> tree_cell \<Rightarrow> tree_cell \<Rightarrow> nasl_state \<Rightarrow> tree_cell \<times> nasl_state" where
  "decl_nasl_func fname args body \<sigma> =
     (let (ok, \<sigma>) = insert_nasl_func fname (Some (args, body)) \<sigma> in (if ok then FAKE_CELL else NULL, \<sigma>))"

text \<open>
  The arguments are evaluated in the context of the caller and entered in the new one; None when a
  name occurs twice.
\<close>

fun call_args :: "exec_fun \<Rightarrow> nat \<Rightarrow> tree_cell \<Rightarrow> nat \<Rightarrow> lex_ctxt \<Rightarrow> nasl_state \<Rightarrow> (bool \<times> lex_ctxt \<times> nasl_state) run" where
  "call_args ex k (NODE_ARG x c t) nb_u lexic2 \<sigma> =
     andthen (cell2atom ex k c \<sigma>) (\<lambda>(pc2, \<sigma>).
       case x of
         None \<Rightarrow>
           andthen (add_numbered_var_to_ctxt k lexic2 nb_u pc2 \<sigma>) (\<lambda>(v, lexic2, \<sigma>).
             if v = None then Fin (False, lexic2, \<sigma>) else call_args ex k t (Suc nb_u) lexic2 \<sigma>)
       | Some name \<Rightarrow>
           andthen (add_named_var_to_ctxt k lexic2 name pc2 \<sigma>) (\<lambda>(v, lexic2, \<sigma>).
             if v = None then Fin (False, lexic2, \<sigma>) else call_args ex k t nb_u lexic2 \<sigma>))"
| "call_args ex k NULL nb_u lexic2 \<sigma> = Fin (True, lexic2, \<sigma>)"
| "call_args ex k _ nb_u lexic2 \<sigma> = Abort"

definition pop_ctxt :: "nasl_state \<Rightarrow> nasl_state run" where
  "pop_ctxt \<sigma> = free_array (ctx_vars (lexic \<sigma>)) (\<sigma>\<lparr>ns_ctxts := tl (ns_ctxts \<sigma>)\<rparr>)"

definition nasl_func_call ::
  "nasl_env \<Rightarrow> exec_fun \<Rightarrow> nat \<Rightarrow> nasl_func \<Rightarrow> tree_cell \<Rightarrow> nasl_state \<Rightarrow> (tree_cell \<times> nasl_state) run" where
  "nasl_func_call env ex k f arg_list \<sigma> =
     (if flag_compat f then Fin (NULL, \<sigma>)
      else
        andthen (call_args ex k arg_list 0 (init_empty_lex_ctxt\<lparr>fct_ctxt := True\<rparr>) \<sigma>) (\<lambda>(ok, lexic2, \<sigma>).
          if \<not> ok then andthen (free_array (ctx_vars lexic2) \<sigma>) (\<lambda>\<sigma>. Fin (NULL, \<sigma>))
          else
            let \<sigma> = \<sigma>\<lparr>ns_ctxts := lexic2 # ns_ctxts \<sigma>\<rparr> in
            andthen (case block f of
                       C_code name \<Rightarrow> c_funcs env name \<sigma>
                     | Block body \<Rightarrow> andthen (ex body \<sigma>) (\<lambda>(_, \<sigma>). Fin (FAKE_CELL, \<sigma>))) (\<lambda>(retc, \<sigma>).
              let r = ret_val (lexic \<sigma>);
                  retc = (if is_void retc \<and> \<not> is_void r then r else retc)
              in andthen (pop_ctxt \<sigma>) (\<lambda>\<sigma>. Fin (retc, \<sigma>)))))"

text \<open>The value is set in all contexts up to that of the function.\<close>

fun set_ret_val :: "tree_cell \<Rightarrow> lex_ctxt list \<Rightarrow> lex_ctxt list" where
  "set_ret_val r [] = []"
| "set_ret_val r (c # cs) = c\<lparr>ret_val := r\<rparr> # (if fct_ctxt c then cs else set_ret_val r cs)"

definition nasl_return :: "exec_fun \<Rightarrow> nat \<Rightarrow> tree_cell \<Rightarrow> nasl_state \<Rightarrow> (tree_cell \<times> nasl_state) run" where
  "nasl_return ex k retv \<sigma> =
     andthen (cell2atom ex k retv \<sigma>) (\<lambda>(retv, \<sigma>).
       let retv = (if retv = NULL then FAKE_CELL else retv) in
       andthen (case retv of REF_ARRAY _ \<Rightarrow> copy_ref_array k retv \<sigma> | _ \<Rightarrow> Fin (retv, \<sigma>)) (\<lambda>(retv, \<sigma>).
         Fin (FAKE_CELL, \<sigma>\<lparr>ns_ctxts := set_ret_val retv (ns_ctxts \<sigma>)\<rparr>)))"

subsection \<open>Loops\<close>

definition set_break :: "bool \<Rightarrow> nasl_state \<Rightarrow> nasl_state" where
  "set_break b = upd_lexic (\<lambda>c. c\<lparr>break_flag := b\<rparr>)"

definition set_cont :: "bool \<Rightarrow> nasl_state \<Rightarrow> nasl_state" where
  "set_cont b = upd_lexic (\<lambda>c. c\<lparr>cont_flag := b\<rparr>)"

primrec for_loop :: "exec_fun \<Rightarrow> nat \<Rightarrow> tree_cell \<Rightarrow> tree_cell \<Rightarrow> tree_cell \<Rightarrow> nasl_state \<Rightarrow> (tree_cell \<times> nasl_state) run" where
  "for_loop ex 0 cond e body \<sigma> = Timeout"
| "for_loop ex (Suc k) cond e body \<sigma> =
     (if ret_val (lexic \<sigma>) \<noteq> NULL then Fin (ret_val (lexic \<sigma>), \<sigma>)
      else
        andthen (ex cond \<sigma>) (\<lambda>(ret, \<sigma>).
          if ret = NULL then Fin (NULL, \<sigma>)
          else
            andthen (cell2bool ex k ret \<sigma>) (\<lambda>(flag, \<sigma>).
              if \<not> flag then Fin (FAKE_CELL, \<sigma>)
              else
                andthen (ex body \<sigma>) (\<lambda>(_, \<sigma>).
                  if break_flag (lexic \<sigma>) then Fin (FAKE_CELL, set_break False \<sigma>)
                  else andthen (ex e (set_cont False \<sigma>)) (\<lambda>(_, \<sigma>). for_loop ex k cond e body \<sigma>)))))"

primrec while_loop :: "exec_fun \<Rightarrow> nat \<Rightarrow> tree_cell \<Rightarrow> tree_cell \<Rightarrow> nasl_state \<Rightarrow> (tree_cell \<times> nasl_state) run" where
  "while_loop ex 0 cond body \<sigma> = Timeout"
| "while_loop ex (Suc k) cond body \<sigma> =
     (if ret_val (lexic \<sigma>) \<noteq> NULL then Fin (ret_val (lexic \<sigma>), \<sigma>)
      else
        andthen (ex cond \<sigma>) (\<lambda>(ret, \<sigma>).
          if ret = NULL then Fin (NULL, \<sigma>)
          else
            andthen (cell2bool ex k ret \<sigma>) (\<lambda>(flag, \<sigma>).
              if \<not> flag then Fin (FAKE_CELL, \<sigma>)
              else
                andthen (ex body \<sigma>) (\<lambda>(_, \<sigma>).
                  if break_flag (lexic \<sigma>) then Fin (FAKE_CELL, set_break False \<sigma>)
                  else while_loop ex k cond body (set_cont False \<sigma>)))))"

primrec repeat_loop :: "exec_fun \<Rightarrow> nat \<Rightarrow> tree_cell \<Rightarrow> tree_cell \<Rightarrow> nasl_state \<Rightarrow> (tree_cell \<times> nasl_state) run" where
  "repeat_loop ex 0 body cond \<sigma> = Timeout"
| "repeat_loop ex (Suc k) body cond \<sigma> =
     (if ret_val (lexic \<sigma>) \<noteq> NULL then Fin (ret_val (lexic \<sigma>), \<sigma>)
      else
        andthen (ex body \<sigma>) (\<lambda>(_, \<sigma>).
          if break_flag (lexic \<sigma>) then Fin (FAKE_CELL, set_break False \<sigma>)
          else
            andthen (ex cond (set_cont False \<sigma>)) (\<lambda>(ret, \<sigma>).
            andthen (cell2bool ex k ret \<sigma>) (\<lambda>(flag, \<sigma>).
              if flag then Fin (FAKE_CELL, \<sigma>) else repeat_loop ex k body cond \<sigma>))))"

primrec foreach_loop ::
  "exec_fun \<Rightarrow> nat \<Rightarrow> tree_cell \<Rightarrow> nasl_iterator \<Rightarrow> tree_cell \<Rightarrow> nasl_state \<Rightarrow> (tree_cell \<times> nasl_state) run" where
  "foreach_loop ex 0 v it body \<sigma> = Timeout"
| "foreach_loop ex (Suc k) v it body \<sigma> =
     andthen (nasl_iterate_array it \<sigma>) (\<lambda>(val, it).
       if val = NULL then Fin (FAKE_CELL, \<sigma>)
       else
         andthen (nasl_affect k v val \<sigma>) (\<lambda>(_, \<sigma>).
         andthen (ex body \<sigma>) (\<lambda>(_, \<sigma>).
           if ret_val (lexic \<sigma>) \<noteq> NULL then Fin (FAKE_CELL, \<sigma>)
           else if break_flag (lexic \<sigma>) then Fin (FAKE_CELL, set_break False \<sigma>)
           else foreach_loop ex k v it body (set_cont False \<sigma>))))"

definition exec_foreach :: "exec_fun \<Rightarrow> nat \<Rightarrow> string \<Rightarrow> tree_cell \<Rightarrow> tree_cell \<Rightarrow> nasl_state \<Rightarrow> (tree_cell \<times> nasl_state) run" where
  "exec_foreach ex k name arr body \<sigma> =
     andthen (get_variable_by_name k name \<sigma>) (\<lambda>(v, \<sigma>).
     andthen (ex arr \<sigma>) (\<lambda>(a, \<sigma>).
     andthen (nasl_array_iterator a \<sigma>) (\<lambda>it. foreach_loop ex k v it body \<sigma>)))"

primrec times_loop :: "exec_fun \<Rightarrow> nat \<Rightarrow> tree_cell \<Rightarrow> nasl_state \<Rightarrow> (tree_cell \<times> nasl_state) run" where
  "times_loop ex 0 body \<sigma> = Fin (FAKE_CELL, \<sigma>)"
| "times_loop ex (Suc i) body \<sigma> = andthen (ex body \<sigma>) (\<lambda>(_, \<sigma>). times_loop ex i body \<sigma>)"

definition exec_repeated :: "exec_fun \<Rightarrow> nat \<Rightarrow> tree_cell \<Rightarrow> tree_cell \<Rightarrow> nasl_state \<Rightarrow> (tree_cell \<times> nasl_state) run" where
  "exec_repeated ex k body c \<sigma> =
     andthen (cell2int3 ex k c \<sigma>) (\<lambda>(n, \<sigma>).
       if sint n \<le> 0 then Fin (NULL, \<sigma>) else times_loop ex (nat (sint n)) body \<sigma>)"

subsection \<open>Assignments and counting\<close>

definition exec_aff :: "exec_fun \<Rightarrow> nat \<Rightarrow> tree_cell \<Rightarrow> tree_cell \<Rightarrow> nasl_state \<Rightarrow> (tree_cell \<times> nasl_state) run" where
  "exec_aff ex k l r \<sigma> =
     andthen (ex l \<sigma>) (\<lambda>(tc1, \<sigma>).
     andthen (ex r \<sigma>) (\<lambda>(tc2, \<sigma>).
     andthen (nasl_affect k tc1 tc2 \<sigma>) (\<lambda>(_, \<sigma>). Fin (tc2, \<sigma>))))"

fun op_node :: "eq_op \<Rightarrow> tree_cell \<Rightarrow> tree_cell \<Rightarrow> tree_cell" where
  "op_node NODE_PLUS_EQ = EXPR_PLUS"
| "op_node NODE_MINUS_EQ = EXPR_MINUS"
| "op_node NODE_MULT_EQ = EXPR_INT EXPR_MULT"
| "op_node NODE_DIV_EQ = EXPR_INT EXPR_DIV"
| "op_node NODE_MODULO_EQ = EXPR_INT EXPR_MODULO"
| "op_node NODE_L_SHIFT_EQ = EXPR_INT EXPR_L_SHIFT"
| "op_node NODE_R_SHIFT_EQ = EXPR_INT EXPR_R_SHIFT"
| "op_node NODE_R_USHIFT_EQ = EXPR_INT EXPR_R_USHIFT"

definition exec_op_eq :: "exec_fun \<Rightarrow> nat \<Rightarrow> eq_op \<Rightarrow> tree_cell \<Rightarrow> tree_cell \<Rightarrow> nasl_state \<Rightarrow> (tree_cell \<times> nasl_state) run" where
  "exec_op_eq ex k q l r \<sigma> =
     andthen (ex l \<sigma>) (\<lambda>(tc1, \<sigma>).
     andthen (ex r \<sigma>) (\<lambda>(tc2, \<sigma>).
     andthen (ex (op_node q tc1 tc2) \<sigma>) (\<lambda>(ret2, \<sigma>).
     andthen (nasl_affect k tc1 ret2 \<sigma>) (\<lambda>(_, \<sigma>). Fin (ret2, \<sigma>)))))"

text \<open>Before the variable when the left link is NULL, else behind it.\<close>

definition exec_incr :: "exec_fun \<Rightarrow> i32 \<Rightarrow> tree_cell \<Rightarrow> tree_cell \<Rightarrow> nasl_state \<Rightarrow> (tree_cell \<times> nasl_state) run" where
  "exec_incr ex x l r \<sigma> =
     andthen (ex (if l = NULL then r else l) \<sigma>) (\<lambda>(tc2, \<sigma>).
       if tc2 = NULL then Fin (NULL, \<sigma>) else nasl_incr_variable tc2 (l = NULL) x \<sigma>)"

subsection \<open>One node\<close>

definition exec_if :: "exec_fun \<Rightarrow> nat \<Rightarrow> tree_cell \<Rightarrow> tree_cell \<Rightarrow> tree_cell \<Rightarrow> nasl_state \<Rightarrow> (tree_cell \<times> nasl_state) run" where
  "exec_if ex k c a b \<sigma> =
     andthen (ex c \<sigma>) (\<lambda>(ret, \<sigma>).
     andthen (cell2bool ex k ret \<sigma>) (\<lambda>(flag, \<sigma>).
       if flag then ex a \<sigma> else if b \<noteq> NULL then ex b \<sigma> else Fin (FAKE_CELL, \<sigma>)))"

definition exec_instr :: "exec_fun \<Rightarrow> tree_cell \<Rightarrow> tree_cell \<Rightarrow> nasl_state \<Rightarrow> (tree_cell \<times> nasl_state) run" where
  "exec_instr ex a b \<sigma> =
     andthen (ex a \<sigma>) (\<lambda>(ret, \<sigma>).
       if b = NULL \<or> break_flag (lexic \<sigma>) \<or> cont_flag (lexic \<sigma>) then Fin (ret, \<sigma>) else ex b \<sigma>)"

definition exec_and_or :: "exec_fun \<Rightarrow> nat \<Rightarrow> bool \<Rightarrow> tree_cell \<Rightarrow> tree_cell \<Rightarrow> nasl_state \<Rightarrow> (tree_cell \<times> nasl_state) run" where
  "exec_and_or ex k stop a b \<sigma> =
     andthen (cell2bool ex k a \<sigma>) (\<lambda>(x, \<sigma>).
       if x = stop then Fin (bool2cell x, \<sigma>)
       else andthen (cell2bool ex k b \<sigma>) (\<lambda>(y, \<sigma>). Fin (bool2cell y, \<sigma>)))"

definition exec_node :: "nasl_env \<Rightarrow> exec_fun \<Rightarrow> nat \<Rightarrow> tree_cell \<Rightarrow> nasl_state \<Rightarrow> (tree_cell \<times> nasl_state) run" where
  "exec_node env ex k st \<sigma> =
     (case st of
        NULL \<Rightarrow> Fin (NULL, \<sigma>)
      | FAKE_CELL \<Rightarrow> Fin (FAKE_CELL, \<sigma>)
      | NODE_IF_ELSE c a b \<Rightarrow> exec_if ex k c a b \<sigma>
      | NODE_INSTR_L a b \<Rightarrow> exec_instr ex a b \<sigma>
      | NODE_FOR s c e b \<Rightarrow> andthen (ex s \<sigma>) (\<lambda>(_, \<sigma>). for_loop ex k c e b \<sigma>)
      | NODE_WHILE c b \<Rightarrow> while_loop ex k c b \<sigma>
      | NODE_REPEAT_UNTIL b c \<Rightarrow> repeat_loop ex k b c \<sigma>
      | NODE_FOREACH name a b \<Rightarrow> exec_foreach ex k name a b \<sigma>
      | NODE_FUN_DEF name args body \<Rightarrow> Fin (decl_nasl_func name args body \<sigma>)
      | NODE_FUN_CALL name args \<Rightarrow>
          (case get_func_ref_by_name \<sigma> name of None \<Rightarrow> Fin (NULL, \<sigma>) | Some pf \<Rightarrow> nasl_func_call env ex k pf args \<sigma>)
      | NODE_REPEATED b c \<Rightarrow> exec_repeated ex k b c \<sigma>
      | NODE_DECL x t \<Rightarrow> Fin (st, \<sigma>)
      | NODE_ARG x c t \<Rightarrow> ex c \<sigma>
      | NODE_RETURN c \<Rightarrow> nasl_return ex k c \<sigma>
      | NODE_BREAK \<Rightarrow> Fin (FAKE_CELL, set_break True \<sigma>)
      | NODE_CONTINUE \<Rightarrow> Fin (FAKE_CELL, set_cont True \<sigma>)
      | NODE_ARRAY_EL name c \<Rightarrow> andthen (cell2atom ex k c \<sigma>) (\<lambda>(idx, \<sigma>). get_array_elem name idx \<sigma>)
      | NODE_AFF l r \<Rightarrow> exec_aff ex k l r \<sigma>
      | NODE_OP_EQ q l r \<Rightarrow> exec_op_eq ex k q l r \<sigma>
      | NODE_VAR name \<Rightarrow> get_variable_by_name k name \<sigma>
      | NODE_LOCAL t \<Rightarrow> decl_local_variables t \<sigma>
      | NODE_GLOBAL t \<Rightarrow> decl_global_variables t \<sigma>
      | EXPR_AND a b \<Rightarrow> exec_and_or ex k False a b \<sigma>
      | EXPR_OR a b \<Rightarrow> exec_and_or ex k True a b \<sigma>
      | EXPR_NOT a \<Rightarrow> andthen (cell2bool ex k a \<sigma>) (\<lambda>(x, \<sigma>). Fin (bool2cell (\<not> x), \<sigma>))
      | EXPR_INCR a b \<Rightarrow> exec_incr ex 1 a b \<sigma>
      | EXPR_DECR a b \<Rightarrow> exec_incr ex (- 1) a b \<sigma>
      | EXPR_PLUS a b \<Rightarrow> exec_plus ex k a b \<sigma>
      | EXPR_MINUS a b \<Rightarrow> exec_minus ex k a b \<sigma>
      | EXPR_U_MINUS a \<Rightarrow> andthen (cell2int3 ex k a \<sigma>) (\<lambda>(x, \<sigma>). Fin (int2cell (- x), \<sigma>))
      | EXPR_BIT_NOT a \<Rightarrow> andthen (cell2int3 ex k a \<sigma>) (\<lambda>(x, \<sigma>). Fin (int2cell (not x), \<sigma>))
      | EXPR_INT q a b \<Rightarrow> exec_int_op ex k q a b \<sigma>
      | COMP_MATCH a b \<Rightarrow> exec_match ex k True a b \<sigma>
      | COMP_NOMATCH a b \<Rightarrow> exec_match ex k False a b \<sigma>
      | COMP_RE_MATCH re a \<Rightarrow> exec_re_match env ex k True re a \<sigma>
      | COMP_RE_NOMATCH re a \<Rightarrow> exec_re_match env ex k False re a \<sigma>
      | COMP q a b \<Rightarrow> andthen (cell_cmp ex k a b \<sigma>) (\<lambda>(r, \<sigma>). Fin (bool2cell (comp_holds q r), \<sigma>))
      | REF_VAR _ \<Rightarrow> andthen (nasl_read_var_ref st \<sigma>) (\<lambda>c. Fin (c, \<sigma>))
      | ARRAY_ELEM _ _ _ \<Rightarrow> Abort
      | _ \<Rightarrow> Fin (st, \<sigma>))"

text \<open>After a return, and between break or continue and the end of the round, nothing is executed.\<close>

primrec nasl_exec :: "nat \<Rightarrow> nasl_env \<Rightarrow> exec_fun" where
  "nasl_exec 0 env st \<sigma> = Timeout"
| "nasl_exec (Suc n) env st \<sigma> =
     (let c = lexic \<sigma> in
      if ret_val c \<noteq> NULL then Fin (ret_val c, \<sigma>)
      else if break_flag c \<or> cont_flag c then Fin (FAKE_CELL, \<sigma>)
      else exec_node env (nasl_exec n env) n st \<sigma>)"

subsection \<open>Scripts\<close>

text \<open>
  The library: functions with their number of unnamed arguments and their names; integers, whether
  libssh is used when it was compiled in, texts, and the undefined \<open>NULL\<close>. The tables are arguments.
\<close>

definition lib_func :: "string \<times> nat \<times> string list \<Rightarrow> nasl_state \<Rightarrow> nasl_state" where
  "lib_func x \<sigma> =
     (let (name, unnamed, args) = x; h = func_hash name in
      if get_func (ns_ctxts \<sigma>) name h \<noteq> None then \<sigma>
      else upd_lexic (add_func h ((make_func name None)\<lparr>flag_internal := True, block := C_code name, nb_unnamed_args := unnamed,
             nb_named_args := length args, args_names := args\<rparr>)) \<sigma>)"

definition set_global :: "string \<Rightarrow> tree_cell \<Rightarrow> nasl_state \<Rightarrow> nasl_state run" where
  "set_global name val \<sigma> =
     andthen (add_named_var_to_ctxt 1 (lexic \<sigma>) name val \<sigma>) (\<lambda>(_, c, \<sigma>). Fin (upd_lexic (\<lambda>_. c) \<sigma>))"

primrec set_globals :: "(string \<times> tree_cell) list \<Rightarrow> nasl_state \<Rightarrow> nasl_state run" where
  "set_globals [] \<sigma> = Fin \<sigma>"
| "set_globals (x # xs) \<sigma> = andthen (set_global (fst x) (snd x) \<sigma>) (set_globals xs)"

definition init_nasl_library ::
  "(string \<times> nat \<times> string list) list \<Rightarrow> (string \<times> i32) list \<Rightarrow> bool option \<Rightarrow> (string \<times> string) list \<Rightarrow> nasl_state \<Rightarrow> nasl_state run" where
  "init_nasl_library libfuncs libivars libssh libsvars \<sigma> =
     set_globals
       (map (\<lambda>(s, i). (s, CONST_INT i)) libivars
        @ (case libssh of None \<Rightarrow> [] | Some b \<Rightarrow> [(''_HAVE_LIBSSH'', bool2cell b)])
        @ map (\<lambda>(s, t). (s, CONST_DATA (Some t))) libsvars
        @ [(''NULL'', NULL)])
       (fold lib_func libfuncs \<sigma>)"

text \<open>The context in which a script starts.\<close>

definition start_state :: nasl_state where
  "start_state = \<lparr>ns_ctxts = [init_empty_lex_ctxt], ns_heap = Map.empty, ns_next = 0, ns_len = 0\<rparr>"

definition base_name :: "string \<Rightarrow> string" where
  "base_name s = rev (takeWhile (\<lambda>c. c \<noteq> CHR ''/'') (rev s))"

text \<open>
  The execution of a script that was parsed: variables, the tree, and the function \<open>on_exit\<close>. The
  result is 0, or -1 when the tree gives NULL.
\<close>

definition exec_script ::
  "nat \<Rightarrow> nasl_env \<Rightarrow> string \<Rightarrow> bool \<Rightarrow> bool \<Rightarrow> tree_cell \<Rightarrow> nasl_state \<Rightarrow> (int \<times> nasl_state) run" where
  "exec_script n env name command_line descr tree \<sigma> =
     andthen (set_globals [(''COMMAND_LINE'', bool2cell command_line), (''description'', bool2cell descr),
                           (''SCRIPT_NAME'', CONST_DATA (Some (base_name name)))] \<sigma>) (\<lambda>\<sigma>.
     andthen (nasl_exec n env tree \<sigma>) (\<lambda>(ret, \<sigma>).
       let err = (if ret = NULL then - 1 else 0) in
       case get_func_ref_by_name \<sigma> ''on_exit'' of
         None \<Rightarrow> Fin (err, \<sigma>)
       | Some pf \<Rightarrow> andthen (nasl_func_call env (nasl_exec n env) n pf NULL \<sigma>) (\<lambda>(_, \<sigma>). Fin (err, \<sigma>))))"

end
