(* ===== verification/NaslStore.thy ===== *)
theory NaslStore
  imports NaslExec "HOL-Library.Multiset"
begin

text \<open>
  Who owns the variables of the store. Every variable is held by at most one array, context or
  pending list \<open>F\<close>; whatever is held is allocated, and an element lies at a higher address than its
  array, so that arrays are trees. All functions of \<open>NaslVar\<close> keep this.
\<close>

subsection \<open>Ownership\<close>

definition kids_at :: "(addr \<rightharpoonup> anon_nasl_var) \<Rightarrow> addr \<Rightarrow> addr multiset" where
  "kids_at h p = (case h p of None \<Rightarrow> {#} | Some v \<Rightarrow> mset (var_kids v))"

definition roots :: "nasl_state \<Rightarrow> addr multiset" where
  "roots \<sigma> = mset (concat (map (\<lambda>c. kids (ctx_vars c)) (ns_ctxts \<sigma>)))"

definition owned :: "addr multiset \<Rightarrow> nasl_state \<Rightarrow> addr multiset" where
  "owned F \<sigma> = F + roots \<sigma> + (\<Sum>p < ns_next \<sigma>. kids_at (ns_heap \<sigma>) p)"

definition array_ok :: "nasl_array \<Rightarrow> bool" where
  "array_ok a \<longleftrightarrow> (case hash_elt a of None \<Rightarrow> True | Some es \<Rightarrow> length es = VAR_NAME_HASH)"

definition var_ok :: "anon_nasl_var \<Rightarrow> bool" where
  "var_ok v \<longleftrightarrow> (case v of VAR2_ARRAY a \<Rightarrow> array_ok a | _ \<Rightarrow> True)"

definition held_ok :: "addr multiset \<Rightarrow> (addr \<rightharpoonup> anon_nasl_var) \<Rightarrow> bool" where
  "held_ok M h \<longleftrightarrow> (\<forall>q. count M q \<le> 1) \<and> set_mset M \<subseteq> dom h"

definition shape_ok :: "nasl_state \<Rightarrow> bool" where
  "shape_ok \<sigma> \<longleftrightarrow>
     dom (ns_heap \<sigma>) \<subseteq> {..<ns_next \<sigma>}
     \<and> (\<forall>p v. ns_heap \<sigma> p = Some v \<longrightarrow> var_ok v \<and> (\<forall>q \<in> set (var_kids v). p < q))
     \<and> (\<forall>c \<in> set (ns_ctxts \<sigma>). array_ok (ctx_vars c) \<and> hash_elt (ctx_vars c) \<noteq> None)
     \<and> ns_ctxts \<sigma> \<noteq> []"

definition store_ok :: "addr multiset \<Rightarrow> nasl_state \<Rightarrow> bool" where
  "store_ok F \<sigma> \<longleftrightarrow> held_ok (owned F \<sigma>) (ns_heap \<sigma>) \<and> shape_ok \<sigma>"

lemma held_ok_less: "held_ok N h \<Longrightarrow> M \<subseteq># N \<Longrightarrow> held_ok M h"
  unfolding held_ok_def by (meson le_trans mset_subset_eq_count order_trans set_mset_mono)

lemma held_ok_dom: "held_ok M h \<Longrightarrow> dom h \<subseteq> dom h' \<Longrightarrow> held_ok M h'"
  unfolding held_ok_def by blast

lemma held_ok_fresh: "held_ok M h \<Longrightarrow> h p = None \<Longrightarrow> held_ok (M + {#p#}) (h(p \<mapsto> v))"
  unfolding held_ok_def by (auto simp: count_eq_zero_iff domIff subset_iff)

lemma sum_upd:
  fixes f :: "nat \<Rightarrow> addr multiset"
  assumes "p < n"
  shows "(\<Sum>i < n. (f(p := x)) i) + f p = (\<Sum>i < n. f i) + x"
proof -
  have "(\<Sum>i < n. g i) = g p + (\<Sum>i \<in> {..<n} - {p}. g i)" for g :: "nat \<Rightarrow> addr multiset"
    using assms by (intro sum.remove) auto
  moreover have "(\<Sum>i \<in> {..<n} - {p}. (f(p := x)) i) = (\<Sum>i \<in> {..<n} - {p}. f i)" by (intro sum.cong) auto
  ultimately show ?thesis by simp
qed

lemma kids_at_upd: "kids_at (h(p := x)) = (kids_at h)(p := (case x of None \<Rightarrow> {#} | Some v \<Rightarrow> mset (var_kids v)))"
  by (auto simp: kids_at_def)

lemma owned_upd:
  assumes "p < ns_next \<sigma>"
  shows "owned F (\<sigma>\<lparr>ns_heap := (ns_heap \<sigma>)(p := x)\<rparr>) + kids_at (ns_heap \<sigma>) p
    = owned F \<sigma> + (case x of None \<Rightarrow> {#} | Some v \<Rightarrow> mset (var_kids v))"
  using sum_upd [OF assms, of "kids_at (ns_heap \<sigma>)" "case x of None \<Rightarrow> {#} | Some v \<Rightarrow> mset (var_kids v)"]
  by (simp add: owned_def roots_def kids_at_upd ac_simps)

lemma owned_frame: "owned (F + G) \<sigma> = owned F \<sigma> + G"
  by (simp add: owned_def ac_simps)

lemma owned_add [simp]: "owned (add_mset p F) \<sigma> = add_mset p (owned F \<sigma>)"
  by (simp add: owned_def)

lemma store_ok_live: "store_ok (add_mset p F) \<sigma> \<Longrightarrow> \<exists>v. ns_heap \<sigma> p = Some v"
  by (auto simp: store_ok_def held_ok_def)

lemma store_ok_dom: "store_ok F \<sigma> \<Longrightarrow> ns_heap \<sigma> p = Some v \<Longrightarrow> p < ns_next \<sigma>"
  unfolding store_ok_def shape_ok_def by blast

text \<open>A smaller frame, since what is held by nobody is only lost.\<close>

lemma store_ok_weaken: "store_ok F \<sigma> \<Longrightarrow> G \<subseteq># F \<Longrightarrow> store_ok G \<sigma>"
  unfolding store_ok_def owned_def by (auto elim!: held_ok_less simp: ac_simps)

text \<open>A change of one variable, where the frame gains what the variable loses and the other way.\<close>

lemma store_ok_set:
  assumes "store_ok F \<sigma>" and "ns_heap \<sigma> p = Some v0" and "G + mset (var_kids v) = F + mset (var_kids v0)"
    and "var_ok v" and "\<forall>q \<in> set (var_kids v). p < q"
  shows "store_ok G (set_var p v \<sigma>)"
proof -
  have p: "p < ns_next \<sigma>" using store_ok_dom assms(1,2) .
  have "owned G (set_var p v \<sigma>) + mset (var_kids v0) = owned G \<sigma> + mset (var_kids v)"
    using owned_upd [OF p, of G "Some v"] assms(2) by (simp add: set_var_def kids_at_def)
  also have "\<dots> = owned {#} \<sigma> + (G + mset (var_kids v))" by (simp add: owned_def ac_simps)
  also have "\<dots> = owned F \<sigma> + mset (var_kids v0)" unfolding assms(3) by (simp add: owned_def ac_simps)
  finally have e: "owned G (set_var p v \<sigma>) = owned F \<sigma>" by simp
  have "held_ok (owned F \<sigma>) (ns_heap (set_var p v \<sigma>))"
    by (rule held_ok_dom [of "owned F \<sigma>" "ns_heap \<sigma>"]) (use assms(1) in \<open>auto simp: store_ok_def set_var_def\<close>)
  moreover have "shape_ok (set_var p v \<sigma>)"
    using assms(1,4,5) p by (auto simp: store_ok_def shape_ok_def set_var_def)
  ultimately show ?thesis unfolding store_ok_def e by blast
qed

lemma store_ok_alloc:
  assumes "store_ok F \<sigma>" and "alloc_var v \<sigma> = (p, \<sigma>')" and "var_kids v = []" and "var_ok v"
  shows "store_ok (F + {#p#}) \<sigma>'" and "ns_heap \<sigma>' = (ns_heap \<sigma>)(p \<mapsto> v)" and "p = ns_next \<sigma>" and "ns_heap \<sigma> p = None"
    and "ns_ctxts \<sigma>' = ns_ctxts \<sigma>"
proof -
  have p: "p = ns_next \<sigma>" "\<sigma>' = \<sigma>\<lparr>ns_heap := (ns_heap \<sigma>)(ns_next \<sigma> \<mapsto> v), ns_next := Suc (ns_next \<sigma>)\<rparr>"
    using assms(2) by (auto simp: alloc_var_def)
  show "p = ns_next \<sigma>" "ns_heap \<sigma>' = (ns_heap \<sigma>)(p \<mapsto> v)" "ns_ctxts \<sigma>' = ns_ctxts \<sigma>" using p by simp_all
  show n: "ns_heap \<sigma> p = None" using assms(1) p(1) unfolding store_ok_def shape_ok_def by fastforce
  have "(\<Sum>x < ns_next \<sigma>. kids_at ((ns_heap \<sigma>)(ns_next \<sigma> \<mapsto> v)) x) = (\<Sum>x < ns_next \<sigma>. kids_at (ns_heap \<sigma>) x)"
    by (intro sum.cong) (auto simp: kids_at_def)
  then have "owned (F + {#p#}) \<sigma>' = owned F \<sigma> + {#p#}"
    using p assms(3) by (simp add: owned_def roots_def kids_at_def)
  then show "store_ok (F + {#p#}) \<sigma>'"
    using assms p n held_ok_fresh [of "owned F \<sigma>" "ns_heap \<sigma>" p v] unfolding store_ok_def shape_ok_def by (auto simp: less_Suc_eq)
qed

text \<open>A change of the variables of the context that is executed.\<close>

lemma store_ok_lexic:
  assumes "store_ok F \<sigma>" and "G + mset (kids (ctx_vars (f (lexic \<sigma>)))) = F + mset (kids (ctx_vars (lexic \<sigma>)))"
    and "array_ok (ctx_vars (f (lexic \<sigma>)))" and "hash_elt (ctx_vars (f (lexic \<sigma>))) \<noteq> None"
  shows "store_ok G (upd_lexic f \<sigma>)"
proof -
  obtain c cs where c: "ns_ctxts \<sigma> = c # cs" using assms(1) by (cases "ns_ctxts \<sigma>") (auto simp: store_ok_def shape_ok_def)
  let ?r = "mset (concat (map (\<lambda>c. kids (ctx_vars c)) cs))" and ?s = "\<Sum>p < ns_next \<sigma>. kids_at (ns_heap \<sigma>) p"
  have "owned G (upd_lexic f \<sigma>) = (G + mset (kids (ctx_vars (f c)))) + ?r + ?s"
    by (simp add: owned_def roots_def upd_lexic_def c ac_simps)
  also have "\<dots> = owned F \<sigma>" using assms(2) by (simp add: owned_def roots_def lexic_def c ac_simps)
  finally show ?thesis using assms by (auto simp: store_ok_def shape_ok_def upd_lexic_def c lexic_def)
qed

subsection \<open>What arrays hold\<close>

lemma hash_str_less [simp]: "hash_str s < VAR_NAME_HASH"
  by (simp add: hash_str_def hash_str2_def VAR_NAME_HASH_def)

lemma chains_length [simp]: "array_ok a \<Longrightarrow> length (chains a) = VAR_NAME_HASH"
  by (auto simp: array_ok_def chains_def split: option.splits)

lemma kids_alt: "mset (kids a) = mset (concat (map (case_option [] (\<lambda>p. [p])) (num_elt a))) + mset (map snd (concat (chains a)))"
  by (auto simp: kids_def chains_def split: option.split)

lemma mset_concat_upd: "i < length xs \<Longrightarrow> mset (concat (xs[i := ys @ xs ! i])) = mset (concat xs) + mset ys"
proof (induction xs arbitrary: i)
  case (Cons x xs) then show ?case by (cases i) (auto simp: ac_simps)
qed simp

lemma kids_num:
  assumes "i < length (num_elt a)" and "num_elt a ! i = None"
  shows "mset (kids (a\<lparr>num_elt := (num_elt a)[i := Some q]\<rparr>)) = mset (kids a) + {#q#}"
  using mset_concat_upd [of i "map (case_option [] (\<lambda>p. [p])) (num_elt a)" "[q]"] assms
  by (simp add: kids_def map_update)

lemma kids_chain:
  assumes "h < length (chains a)"
  shows "mset (kids (a\<lparr>hash_elt := Some ((chains a)[h := x # chains a ! h])\<rparr>)) = mset (kids a) + {#snd x#}"
  using mset_concat_upd [of h "chains a" "[x]"] assms
  by (simp add: kids_alt) (simp add: chains_def mset_map [symmetric] del: mset_map)

lemma kids_grow: "grow sz i xs = Fin ys \<Longrightarrow> mset (kids (a\<lparr>num_elt := ys\<rparr>)) = mset (kids (a\<lparr>num_elt := xs\<rparr>)) \<and> i < length ys
    \<and> (\<forall>j. i \<noteq> j \<or> i < length xs \<longrightarrow> j < length xs \<longrightarrow> ys ! j = xs ! j) \<and> (\<not> i < length xs \<longrightarrow> ys ! i = None)"
  by (auto simp: grow_def kids_def nth_append split: if_splits)

lemma kids_push: "array_ok a \<Longrightarrow> mset (kids (push_name a s p)) = mset (kids a) + {#p#}"
  unfolding push_name_def Let_def using kids_chain [of "hash_str s" a "(s, p)"] by simp

lemma push_ok: "array_ok a \<Longrightarrow> array_ok (push_name a s p) \<and> hash_elt (push_name a s p) \<noteq> None"
  by (simp add: push_name_def Let_def array_ok_def [of "_\<lparr>hash_elt := _\<rparr>"])

lemma array_ok_num [simp]: "array_ok (a\<lparr>num_elt := xs\<rparr>) = array_ok a"
  by (simp add: array_ok_def)

subsection \<open>Freeing\<close>

lemma held_ok_remove: "held_ok (M + {#p#}) h \<Longrightarrow> held_ok M (h(p := None))"
proof -
  assume a: "held_ok (M + {#p#}) h"
  then have c: "count (M + {#p#}) q \<le> 1" for q by (simp add: held_ok_def)
  have "count M p = 0" using c [of p] by simp
  moreover have "count M q \<le> 1" for q using c [of q] by (cases "p = q") simp_all
  ultimately show ?thesis using a by (auto simp: held_ok_def count_eq_zero_iff)
qed

lemma free_one:
  assumes "store_ok (F + {#p#}) \<sigma>" and "ns_heap \<sigma> p = Some v"
  shows "store_ok (F + mset (var_kids v)) (\<sigma>\<lparr>ns_heap := (ns_heap \<sigma>)(p := None)\<rparr>)"
proof -
  let ?s = "\<sigma>\<lparr>ns_heap := (ns_heap \<sigma>)(p := None)\<rparr>"
  have "owned F ?s + mset (var_kids v) = owned F \<sigma>"
    using owned_upd [of p \<sigma> F None] store_ok_dom [OF assms] assms(2) by (simp add: kids_at_def)
  then have "owned (F + mset (var_kids v)) ?s = owned F \<sigma>" by (simp add: owned_def ac_simps)
  then have "held_ok (owned (F + mset (var_kids v)) ?s) (ns_heap ?s)"
    using held_ok_remove [of "owned F \<sigma>" p "ns_heap \<sigma>"] assms(1) by (simp add: store_ok_def)
  moreover have "shape_ok ?s" using assms(1) by (auto simp: store_ok_def shape_ok_def)
  ultimately show ?thesis by (simp add: store_ok_def)
qed

lemma free_vars_ok:
  "store_ok (F + mset ps) \<sigma> \<Longrightarrow> free_vars n ps \<sigma> = Fin \<sigma>' \<Longrightarrow> store_ok F \<sigma>' \<and> ns_ctxts \<sigma>' = ns_ctxts \<sigma> \<and> ns_next \<sigma>' = ns_next \<sigma>"
proof (induction n arbitrary: ps \<sigma>)
  case (Suc n)
  show ?case
  proof (cases ps)
    case (Cons p qs)
    then obtain v where v: "ns_heap \<sigma> p = Some v" "free_vars n (var_kids v @ qs) (\<sigma>\<lparr>ns_heap := (ns_heap \<sigma>)(p := None)\<rparr>) = Fin \<sigma>'"
      using Suc.prems(2) by (auto split: option.splits)
    have "store_ok ((F + mset qs) + {#p#}) \<sigma>" using Suc.prems(1) Cons by simp
    from free_one [OF this v(1)] have "store_ok (F + mset (var_kids v @ qs)) (\<sigma>\<lparr>ns_heap := (ns_heap \<sigma>)(p := None)\<rparr>)"
      by (simp add: ac_simps)
    from Suc.IH [OF this v(2)] show ?thesis by simp
  qed (use Suc.prems in simp)
qed simp

text \<open>The number of steps given in \<open>free_array\<close> and its callers is enough.\<close>

lemma free_vars_total:
  "store_ok (F + mset ps) \<sigma> \<Longrightarrow> card (dom (ns_heap \<sigma>)) < n \<Longrightarrow> \<exists>\<sigma>'. free_vars n ps \<sigma> = Fin \<sigma>'"
proof (induction n arbitrary: ps \<sigma>)
  case (Suc n)
  show ?case
  proof (cases ps)
    case (Cons p qs)
    have f: "finite (dom (ns_heap \<sigma>))" using Suc.prems(1) by (auto simp: store_ok_def shape_ok_def intro: finite_subset)
    have m: "store_ok ((F + mset qs) + {#p#}) \<sigma>" using Suc.prems(1) Cons by simp
    then obtain v where v: "ns_heap \<sigma> p = Some v" using store_ok_live [of p "F + mset qs" \<sigma>] by auto
    let ?s = "\<sigma>\<lparr>ns_heap := (ns_heap \<sigma>)(p := None)\<rparr>"
    have "store_ok (F + mset (var_kids v @ qs)) ?s" using free_one [OF m v] by (simp add: ac_simps)
    moreover have "card (dom (ns_heap ?s)) < n" using f Suc.prems(2) card_Diff1_less [OF f, of p] v by (simp add: domI)
    ultimately obtain \<sigma>' where "free_vars n (var_kids v @ qs) ?s = Fin \<sigma>'" using Suc.IH by blast
    then show ?thesis using v Cons by simp
  qed simp
qed simp

lemma free_enough: "store_ok F \<sigma> \<Longrightarrow> card (dom (ns_heap \<sigma>)) < Suc (ns_next \<sigma>)"
proof -
  assume "store_ok F \<sigma>"
  then have "dom (ns_heap \<sigma>) \<subseteq> {..<ns_next \<sigma>}" by (simp add: store_ok_def shape_ok_def)
  from card_mono [OF _ this] show ?thesis by simp
qed

lemma free_vars_above:
  "shape_ok \<sigma> \<Longrightarrow> \<forall>p \<in> set ps. b < p \<Longrightarrow> free_vars n ps \<sigma> = Fin \<sigma>' \<Longrightarrow> q \<le> b \<Longrightarrow> ns_heap \<sigma>' q = ns_heap \<sigma> q"
proof (induction n arbitrary: ps \<sigma>)
  case (Suc n)
  show ?case
  proof (cases ps)
    case (Cons p qs)
    then obtain v where v: "ns_heap \<sigma> p = Some v" "free_vars n (var_kids v @ qs) (\<sigma>\<lparr>ns_heap := (ns_heap \<sigma>)(p := None)\<rparr>) = Fin \<sigma>'"
      using Suc.prems(3) by (auto split: option.splits)
    have "shape_ok (\<sigma>\<lparr>ns_heap := (ns_heap \<sigma>)(p := None)\<rparr>)" using Suc.prems(1) by (auto simp: shape_ok_def)
    moreover have "\<forall>r \<in> set (var_kids v @ qs). b < r"
      using Suc.prems(1,2) Cons v(1) unfolding shape_ok_def by fastforce
    ultimately show ?thesis using Suc.IH [OF _ _ v(2) Suc.prems(4)] Suc.prems(2,4) Cons by auto
  qed (use Suc.prems in simp)
qed simp

subsection \<open>Copying\<close>

text \<open>Among the old addresses only the one at \<open>p\<close> may have changed.\<close>

definition only_at :: "addr \<Rightarrow> nasl_state \<Rightarrow> nasl_state \<Rightarrow> bool" where
  "only_at p \<sigma> \<sigma>' \<longleftrightarrow> ns_ctxts \<sigma>' = ns_ctxts \<sigma> \<and> ns_next \<sigma> \<le> ns_next \<sigma>' \<and> (\<forall>q < ns_next \<sigma>. q \<noteq> p \<longrightarrow> ns_heap \<sigma>' q = ns_heap \<sigma> q)"

lemma only_at_refl [simp]: "only_at p \<sigma> \<sigma>"
  by (simp add: only_at_def)

lemma only_at_trans: "only_at p \<sigma> \<sigma>' \<Longrightarrow> only_at p \<sigma>' \<sigma>'' \<Longrightarrow> only_at p \<sigma> \<sigma>''"
  by (auto simp: only_at_def)

lemma only_at_new: "only_at r \<sigma> \<sigma>' \<Longrightarrow> ns_next \<sigma> \<le> r \<Longrightarrow> only_at p \<sigma> \<sigma>'"
  by (auto simp: only_at_def)

lemma only_at_set [simp]: "only_at p \<sigma> (set_var p v \<sigma>)"
  by (simp add: only_at_def set_var_def)

lemma only_at_upd [simp]: "only_at p \<sigma> (upd_array p f \<sigma>)"
  by (simp add: upd_array_def split: option.split anon_nasl_var.split)

lemma only_at_alloc: "alloc_var v \<sigma> = (q, \<sigma>') \<Longrightarrow> only_at p \<sigma> \<sigma>'"
  by (auto simp: only_at_def alloc_var_def)

definition cp_ok :: "(addr \<Rightarrow> anon_nasl_var \<Rightarrow> nasl_state \<Rightarrow> nasl_state run) \<Rightarrow> bool" where
  "cp_ok cp \<longleftrightarrow> (\<forall>F \<sigma> p v v0 \<sigma>'. store_ok F \<sigma> \<longrightarrow> ns_heap \<sigma> p = Some v0 \<longrightarrow> var_ok v \<longrightarrow> cp p v \<sigma> = Fin \<sigma>'
     \<longrightarrow> store_ok (F + mset (var_kids v0)) \<sigma>' \<and> only_at p \<sigma> \<sigma>')"

lemma store_ok_var: "store_ok F \<sigma> \<Longrightarrow> ns_heap \<sigma> p = Some v \<Longrightarrow> var_ok v"
  by (auto simp: store_ok_def shape_ok_def)

lemma store_ok_array:
  assumes "store_ok F \<sigma>" and "ns_heap \<sigma> p = Some (VAR2_ARRAY b)"
  shows "array_ok b" and "\<forall>q \<in> set (kids b). p < q"
proof -
  show "array_ok b" using store_ok_var [OF assms] by (simp add: var_ok_def)
  have "\<forall>q \<in> set (var_kids (VAR2_ARRAY b)). p < q" using assms unfolding store_ok_def shape_ok_def by blast
  then show "\<forall>q \<in> set (kids b). p < q" by (simp add: var_kids_def)
qed

lemma cp_okD:
  "cp_ok cp \<Longrightarrow> store_ok F \<sigma> \<Longrightarrow> ns_heap \<sigma> p = Some v0 \<Longrightarrow> var_ok v \<Longrightarrow> cp p v \<sigma> = Fin \<sigma>'
   \<Longrightarrow> store_ok (F + mset (var_kids v0)) \<sigma>' \<and> only_at p \<sigma> \<sigma>'"
  unfolding cp_ok_def by blast

lemma dup_anon_var_ok:
  assumes "cp_ok cp" and "store_ok F \<sigma>" and "dup_anon_var cp x \<sigma> = Fin (y, \<sigma>')"
  shows "only_at (ns_next \<sigma>) \<sigma> \<sigma>' \<and> (case y of None \<Rightarrow> x = None \<and> \<sigma>' = \<sigma> | Some q \<Rightarrow> x \<noteq> None \<and> q = ns_next \<sigma> \<and> store_ok (F + {#q#}) \<sigma>')"
proof (cases x)
  case (Some p)
  then obtain v where v: "ns_heap \<sigma> p = Some v" using assms(3) by (auto simp: dup_anon_var_def split: option.splits)
  obtain q \<tau> where a: "alloc_var VAR2_UNDEF \<sigma> = (q, \<tau>)" by fastforce
  have c: "cp q v \<tau> = Fin \<sigma>'" "y = Some q" using assms(3) Some v a by (auto simp: dup_anon_var_def andthen_Fin)
  have k: "var_kids VAR2_UNDEF = []" "var_ok VAR2_UNDEF" by (simp_all add: var_kids_def var_ok_def)
  note al = store_ok_alloc [OF assms(2) a k]
  have "store_ok (F + {#q#} + mset (var_kids VAR2_UNDEF)) \<sigma>' \<and> only_at q \<tau> \<sigma>'"
    by (rule cp_okD [OF assms(1) al(1) _ store_ok_var [OF assms(2) v] c(1)]) (simp add: al(2))
  then show ?thesis using only_at_trans [OF only_at_alloc [OF a, of q]] c(2) al(3) k Some by simp
qed (use assms(3) in \<open>auto simp: dup_anon_var_def\<close>)

lemma upd_array_ok:
  assumes "store_ok G \<sigma>" and "ns_heap \<sigma> p = Some (VAR2_ARRAY b)" and "F + mset (kids (f b)) = G + mset (kids b)"
    and "array_ok b \<Longrightarrow> array_ok (f b)" and "\<forall>q \<in> set (kids (f b)). q \<in> set (kids b) \<or> p < q"
  shows "store_ok F (upd_array p f \<sigma>)" and "ns_heap (upd_array p f \<sigma>) p = Some (VAR2_ARRAY (f b))"
proof -
  note b = store_ok_array [OF assms(1,2)]
  then show "store_ok F (upd_array p f \<sigma>)"
    using store_ok_set [OF assms(1,2), of F "VAR2_ARRAY (f b)"] assms by (auto simp: upd_array_def var_kids_def var_ok_def)
  show "ns_heap (upd_array p f \<sigma>) p = Some (VAR2_ARRAY (f b))" using assms(2) by (simp add: upd_array_def set_var_def)
qed

lemma copy_nums_ok:
  assumes "cp_ok cp"
  shows "store_ok F \<sigma> \<Longrightarrow> ns_heap \<sigma> p = Some (VAR2_ARRAY b) \<Longrightarrow> length (num_elt b) = i + length xs
    \<Longrightarrow> \<forall>j. i \<le> j \<and> j < length (num_elt b) \<longrightarrow> num_elt b ! j = None \<Longrightarrow> copy_nums cp p i xs \<sigma> = Fin \<sigma>'
    \<Longrightarrow> store_ok F \<sigma>' \<and> only_at p \<sigma> \<sigma>' \<and> (\<exists>ys. ns_heap \<sigma>' p = Some (VAR2_ARRAY (b\<lparr>num_elt := ys\<rparr>)))"
proof (induction xs arbitrary: i \<sigma> b)
  case (Cons x xs)
  obtain y \<tau> where d: "dup_anon_var cp x \<sigma> = Fin (y, \<tau>)"
    and r: "copy_nums cp p (Suc i) xs (upd_array p (\<lambda>a. a\<lparr>num_elt := (num_elt a)[i := y]\<rparr>) \<tau>) = Fin \<sigma>'"
    using Cons.prems(5) by (auto simp: andthen_Fin)
  note o = dup_anon_var_ok [OF assms Cons.prems(1) d]
  have p: "p < ns_next \<sigma>" using store_ok_dom [OF Cons.prems(1,2)] .
  then have h: "ns_heap \<tau> p = Some (VAR2_ARRAY b)" using o Cons.prems(2) by (auto simp: only_at_def)
  let ?f = "\<lambda>a. a\<lparr>num_elt := (num_elt a)[i := y]\<rparr>"
  have n: "i < length (num_elt b)" "num_elt b ! i = None" using Cons.prems(3,4) by auto
  have u: "store_ok F (upd_array p ?f \<tau>) \<and> ns_heap (upd_array p ?f \<tau>) p = Some (VAR2_ARRAY (?f b))"
  proof (cases y)
    case None
    then have "?f b = b" using n by (metis list_update_id nasl_array.surjective nasl_array.update_convs(1))
    with None o h Cons.prems(1) show ?thesis by (auto simp: upd_array_def set_var_def fun_upd_idem)
  next
    case (Some q)
    then have q: "q = ns_next \<sigma>" "store_ok (F + {#q#}) \<tau>" using o by auto
    have m: "mset (kids (?f b)) = mset (kids b) + {#q#}" using kids_num [OF n] Some by simp
    have e: "F + mset (kids (?f b)) = F + {#q#} + mset (kids b)" unfolding m by simp
    have "set (kids (?f b)) = insert q (set (kids b))" using arg_cong [OF m, of set_mset] by simp
    then have "\<forall>r \<in> set (kids (?f b)). r \<in> set (kids b) \<or> p < r" using p q(1) by simp
    then show ?thesis using upd_array_ok [OF q(2) h, of F ?f] e by auto
  qed
  have "store_ok F \<sigma>' \<and> only_at p (upd_array p ?f \<tau>) \<sigma>' \<and> (\<exists>ys. ns_heap \<sigma>' p = Some (VAR2_ARRAY (?f b\<lparr>num_elt := ys\<rparr>)))"
    using Cons.IH [OF _ _ _ _ r, of "?f b"] u Cons.prems(3,4) by auto
  moreover have "only_at p \<sigma> (upd_array p ?f \<tau>)"
    using o only_at_new [of "ns_next \<sigma>" \<sigma> \<tau> p] only_at_trans [OF _ only_at_upd [of p \<tau> ?f]] by simp
  ultimately show ?case using only_at_trans by fastforce
next
  case Nil
  have "b = b\<lparr>num_elt := num_elt b\<rparr>" by simp
  with Nil show ?case by (metis copy_nums.simps(1) only_at_refl run.inject)
qed

lemma copy_chain_ok:
  assumes "cp_ok cp"
  shows "store_ok F \<sigma> \<Longrightarrow> ns_heap \<sigma> p = Some (VAR2_ARRAY b) \<Longrightarrow> hash_elt b = Some es \<Longrightarrow> h < VAR_NAME_HASH
    \<Longrightarrow> copy_chain cp p h xs \<sigma> = Fin \<sigma>'
    \<Longrightarrow> store_ok F \<sigma>' \<and> only_at p \<sigma> \<sigma>' \<and> (\<exists>ys. ns_heap \<sigma>' p = Some (VAR2_ARRAY (b\<lparr>hash_elt := Some (es[h := ys @ es ! h])\<rparr>))
      \<and> map fst ys = rev (map fst xs))"
proof (induction xs arbitrary: \<sigma> b es)
  case (Cons x xs)
  obtain y \<tau> where d: "dup_anon_var cp (Some (snd x)) \<sigma> = Fin (y, \<tau>)"
    and r: "copy_chain cp p h xs (upd_array p (set_chain h (fst x, the y)) \<tau>) = Fin \<sigma>'"
    using Cons.prems(5) by (auto simp: andthen_Fin)
  note o = dup_anon_var_ok [OF assms Cons.prems(1) d]
  then obtain q where q: "y = Some q" "q = ns_next \<sigma>" "store_ok (F + {#q#}) \<tau>" by (auto split: option.splits)
  have p: "p < ns_next \<sigma>" using store_ok_dom [OF Cons.prems(1,2)] .
  then have hp: "ns_heap \<tau> p = Some (VAR2_ARRAY b)" using o Cons.prems(2) by (auto simp: only_at_def)
  let ?f = "set_chain h (fst x, q)" and ?es = "es[h := (fst x, q) # es ! h]"
  have ok: "array_ok b" using store_ok_array(1) [OF Cons.prems(1,2)] .
  have l: "length es = VAR_NAME_HASH" "chains b = es" using ok Cons.prems(3) by (auto simp: array_ok_def chains_def)
  have f: "?f b = b\<lparr>hash_elt := Some ?es\<rparr>" by (simp add: set_chain_def l)
  have m: "mset (kids (?f b)) = mset (kids b) + {#q#}"
    using kids_chain [of h b "(fst x, q)"] l Cons.prems(4) by (simp add: set_chain_def)
  have e: "F + mset (kids (?f b)) = F + {#q#} + mset (kids b)" unfolding m by simp
  have "set (kids (?f b)) = insert q (set (kids b))" using arg_cong [OF m, of set_mset] by simp
  then have k: "\<forall>r \<in> set (kids (?f b)). r \<in> set (kids b) \<or> p < r" using p q(2) by simp
  have "array_ok (?f b)" using l by (simp add: f array_ok_def)
  note u = upd_array_ok [where f = ?f, OF q(3) hp e this k]
  from Cons.IH [OF u [unfolded f] _ Cons.prems(4) r [unfolded q(1) option.sel], of ?es]
  obtain ys where ys: "store_ok F \<sigma>'" "only_at p (upd_array p ?f \<tau>) \<sigma>'" "map fst ys = rev (map fst xs)"
    "ns_heap \<sigma>' p = Some (VAR2_ARRAY (b\<lparr>hash_elt := Some (?es[h := ys @ ?es ! h])\<rparr>))" by auto
  have "only_at p \<sigma> (upd_array p ?f \<tau>)"
    using o only_at_new [of "ns_next \<sigma>" \<sigma> \<tau> p] only_at_trans [OF _ only_at_upd [of p \<tau> ?f]] by simp
  moreover have "?es[h := ys @ ?es ! h] = es[h := (ys @ [(fst x, q)]) @ es ! h]" using l Cons.prems(4) by simp
  ultimately show ?case using ys only_at_trans by (intro conjI exI [of _ "ys @ [(fst x, q)]"]) auto
next
  case Nil
  then show ?case by (auto intro!: exI [of _ "[]"])
qed

text \<open>Every chain is reversed.\<close>

lemma copy_chains_ok:
  assumes "cp_ok cp"
  shows "store_ok F \<sigma> \<Longrightarrow> ns_heap \<sigma> p = Some (VAR2_ARRAY b) \<Longrightarrow> hash_elt b = Some es \<Longrightarrow> h + length ess = VAR_NAME_HASH
    \<Longrightarrow> \<forall>j. h \<le> j \<and> j < VAR_NAME_HASH \<longrightarrow> es ! j = [] \<Longrightarrow> copy_chains cp p h ess \<sigma> = Fin \<sigma>'
    \<Longrightarrow> store_ok F \<sigma>' \<and> only_at p \<sigma> \<sigma>' \<and> (\<exists>es'. ns_heap \<sigma>' p = Some (VAR2_ARRAY (b\<lparr>hash_elt := Some es'\<rparr>))
      \<and> length es' = VAR_NAME_HASH \<and> (\<forall>j < h. es' ! j = es ! j) \<and> (\<forall>j < length ess. map fst (es' ! (h + j)) = rev (map fst (ess ! j))))"
proof (induction ess arbitrary: \<sigma> b es h)
  case (Cons xs ess)
  obtain \<tau> where c: "copy_chain cp p h xs \<sigma> = Fin \<tau>" and r: "copy_chains cp p (Suc h) ess \<tau> = Fin \<sigma>'"
    using Cons.prems(6) by (auto simp: andthen_Fin)
  have h: "h < VAR_NAME_HASH" using Cons.prems(4) by simp
  have l: "length es = VAR_NAME_HASH" using store_ok_array(1) [OF Cons.prems(1,2)] Cons.prems(3) by (simp add: array_ok_def)
  from copy_chain_ok [OF assms Cons.prems(1-3) h c] obtain ys where ys: "store_ok F \<tau>" "only_at p \<sigma> \<tau>"
    "ns_heap \<tau> p = Some (VAR2_ARRAY (b\<lparr>hash_elt := Some (es[h := ys])\<rparr>))" "map fst ys = rev (map fst xs)"
    using Cons.prems(5) h by auto
  from Cons.IH [OF ys(1,3) _ _ _ r, of "es[h := ys]"] Cons.prems(4,5) obtain es' where
    e: "store_ok F \<sigma>'" "only_at p \<tau> \<sigma>'" "ns_heap \<sigma>' p = Some (VAR2_ARRAY (b\<lparr>hash_elt := Some es'\<rparr>))" "length es' = VAR_NAME_HASH"
    "\<forall>j < Suc h. es' ! j = es[h := ys] ! j" "\<forall>j < length ess. map fst (es' ! (Suc h + j)) = rev (map fst (ess ! j))" by auto
  have "map fst (es' ! (h + j)) = rev (map fst ((xs # ess) ! j))" if "j < length (xs # ess)" for j
    using that e(5,6) ys(4) h l by (cases j) auto
  then show ?case using e ys only_at_trans [OF ys(2) e(2)] by (intro conjI exI [of _ es']) auto
next
  case Nil
  then show ?case using store_ok_array(1) [OF Nil(1,2)] by (auto simp: array_ok_def intro!: exI [of _ es])
qed

definition reversed_names :: "nasl_array \<Rightarrow> nasl_array \<Rightarrow> bool" where
  "reversed_names a b \<longleftrightarrow> (hash_elt a = None \<longleftrightarrow> hash_elt b = None)
     \<and> (\<forall>j < VAR_NAME_HASH. map fst (chains b ! j) = rev (map fst (chains a ! j)))"

lemma copy_array_ok:
  assumes "cp_ok cp" and "store_ok F \<sigma>" and "ns_heap \<sigma> p = Some v0" and "array_ok a" and "copy_array cp p a named \<sigma> = Fin \<sigma>'"
  shows "store_ok (F + mset (var_kids v0)) \<sigma>' \<and> only_at p \<sigma> \<sigma>'
    \<and> (\<exists>b. ns_heap \<sigma>' p = Some (VAR2_ARRAY b) \<and> (named \<longrightarrow> reversed_names a b))"
proof -
  let ?b = "\<lparr>num_elt = replicate (length (num_elt a)) None, hash_elt = None\<rparr> :: nasl_array" and ?F = "F + mset (var_kids v0)"
  let ?\<sigma> = "set_var p (VAR2_ARRAY ?b) \<sigma>"
  have "kids ?b = []" by (auto simp: kids_def)
  then have s: "store_ok ?F ?\<sigma>" using store_ok_set [OF assms(2,3), of ?F "VAR2_ARRAY ?b"] by (simp add: var_kids_def var_ok_def array_ok_def)
  have h: "ns_heap ?\<sigma> p = Some (VAR2_ARRAY ?b)" by (simp add: set_var_def)
  obtain \<tau> where c: "copy_nums cp p 0 (num_elt a) ?\<sigma> = Fin \<tau>"
    and r: "(case hash_elt a of Some es \<Rightarrow> if named then copy_chains cp p 0 es (upd_array p (\<lambda>b. b\<lparr>hash_elt := Some (replicate VAR_NAME_HASH [])\<rparr>) \<tau>) else Fin \<tau>
       | None \<Rightarrow> Fin \<tau>) = Fin \<sigma>'"
    using assms(5) by (auto simp: copy_array_def Let_def andthen_Fin)
  from copy_nums_ok [OF assms(1) s h _ _ c] obtain ys where
    n: "store_ok ?F \<tau>" "only_at p ?\<sigma> \<tau>" "ns_heap \<tau> p = Some (VAR2_ARRAY (?b\<lparr>num_elt := ys\<rparr>))" by auto
  have o: "only_at p \<sigma> \<tau>" using only_at_trans [OF only_at_set n(2)] .
  show ?thesis
  proof (cases "hash_elt a")
    case None
    then have "reversed_names a (?b\<lparr>num_elt := ys\<rparr>)" by (simp add: reversed_names_def chains_def)
    then show ?thesis using n o r None by auto
  next
    case (Some es)
    show ?thesis
    proof (cases named)
      case True
      let ?f = "\<lambda>b. b\<lparr>hash_elt := Some (replicate VAR_NAME_HASH [])\<rparr>" and ?c = "?b\<lparr>num_elt := ys\<rparr>"
      have l: "length es = VAR_NAME_HASH" using assms(4) Some by (simp add: array_ok_def)
      have k: "kids (?f ?c) = kids ?c" by (simp add: kids_def)
      have "array_ok (?f ?c)" by (simp add: array_ok_def)
      note u = upd_array_ok [where f = ?f, OF n(1,3), unfolded k, OF refl this]
      have "copy_chains cp p 0 es (upd_array p ?f \<tau>) = Fin \<sigma>'" using r Some True by simp
      from copy_chains_ok [OF assms(1) u(1) u(2) _ _ _ this] l obtain es' where
        e: "store_ok ?F \<sigma>'" "only_at p (upd_array p ?f \<tau>) \<sigma>'" "ns_heap \<sigma>' p = Some (VAR2_ARRAY (?f ?c\<lparr>hash_elt := Some es'\<rparr>))"
        "\<forall>j < length es. map fst (es' ! j) = rev (map fst (es ! j))" by auto
      moreover have "only_at p \<sigma> \<sigma>'" using only_at_trans [OF only_at_trans [OF o only_at_upd] e(2)] .
      ultimately show ?thesis using Some l by (auto simp: reversed_names_def chains_def)
    qed (use n o r Some in auto)
  qed
qed

lemma copy_anon_var_ok: "cp_ok (copy_anon_var n)"
proof (induction n)
  case (Suc n)
  have "store_ok (F + mset (var_kids v0)) \<sigma>' \<and> only_at p \<sigma> \<sigma>'"
    if a: "store_ok F \<sigma>" "ns_heap \<sigma> p = Some v0" "var_ok v" "copy_anon_var (Suc n) p v \<sigma> = Fin \<sigma>'" for F \<sigma> p v v0 \<sigma>'
  proof (cases "holds_array (Some v)")
    case True
    then obtain x where x: "v = VAR2_ARRAY x" by (auto simp: holds_array_def split: anon_nasl_var.splits)
    then show ?thesis using copy_array_ok [OF Suc.IH a(1,2), of x True \<sigma>'] a(3,4) by (simp add: var_ok_def)
  next
    case False
    then have "var_kids v = []" "\<sigma>' = set_var p v \<sigma>" using a(4) by (auto simp: holds_array_def var_kids_def split: anon_nasl_var.splits)
    then show ?thesis using store_ok_set [OF a(1,2), of "F + mset (var_kids v0)" v] a(3) by simp
  qed
  then show ?case unfolding cp_ok_def by blast
qed (simp add: cp_ok_def)

subsection \<open>What every operation keeps\<close>

text \<open>
  The names that contexts have stay and keep their variables; new ones come to the head of their
  chains.
\<close>

definition grows :: "lex_ctxt \<Rightarrow> lex_ctxt \<Rightarrow> bool" where
  "grows c c' \<longleftrightarrow> fct_ctxt c' = fct_ctxt c \<and> (\<forall>j < VAR_NAME_HASH. \<exists>new. chains (ctx_vars c') ! j = new @ chains (ctx_vars c) ! j)"

definition keeps :: "addr multiset \<Rightarrow> nasl_state \<Rightarrow> nasl_state \<Rightarrow> bool" where
  "keeps F \<sigma> \<sigma>' \<longleftrightarrow> store_ok F \<sigma>' \<and> list_all2 grows (ns_ctxts \<sigma>) (ns_ctxts \<sigma>') \<and> ns_next \<sigma> \<le> ns_next \<sigma>'"

lemma grows_refl [simp]: "grows c c"
  by (auto simp: grows_def)

lemma grows_trans: "grows a b \<Longrightarrow> grows b c \<Longrightarrow> grows a c"
  unfolding grows_def by (metis append.assoc)

lemma keeps_refl: "store_ok F \<sigma> \<Longrightarrow> keeps F \<sigma> \<sigma>"
  by (simp add: keeps_def list_all2_refl)

lemma keeps_trans: "keeps F \<sigma> \<sigma>' \<Longrightarrow> keeps G \<sigma>' \<sigma>'' \<Longrightarrow> keeps G \<sigma> \<sigma>''"
  unfolding keeps_def using list_all2_trans [of grows grows grows, OF grows_trans] by fastforce

lemma keeps_ok: "keeps F \<sigma> \<sigma>' \<Longrightarrow> store_ok F \<sigma>'"
  by (simp add: keeps_def)

lemma keeps_same: "store_ok F \<sigma>' \<Longrightarrow> ns_ctxts \<sigma>' = ns_ctxts \<sigma> \<Longrightarrow> ns_next \<sigma> \<le> ns_next \<sigma>' \<Longrightarrow> keeps F \<sigma> \<sigma>'"
  by (simp add: keeps_def list_all2_refl)

lemma keeps_only_at: "store_ok F \<sigma>' \<Longrightarrow> only_at p \<sigma> \<sigma>' \<Longrightarrow> keeps F \<sigma> \<sigma>'"
  by (rule keeps_same) (simp_all add: only_at_def)

lemma keeps_weaken: "keeps F \<sigma> \<sigma>' \<Longrightarrow> G \<subseteq># F \<Longrightarrow> keeps G \<sigma> \<sigma>'"
  unfolding keeps_def using store_ok_weaken by blast

lemma store_ok_ctxts: "store_ok F \<sigma> \<Longrightarrow> ns_ctxts \<sigma> = lexic \<sigma> # tl (ns_ctxts \<sigma>)"
  by (auto simp: store_ok_def shape_ok_def lexic_def)

lemma store_ok_lexic_vars: "store_ok F \<sigma> \<Longrightarrow> array_ok (ctx_vars (lexic \<sigma>)) \<and> hash_elt (ctx_vars (lexic \<sigma>)) \<noteq> None"
  by (auto simp: store_ok_def shape_ok_def lexic_def)

text \<open>A change of the executed context.\<close>

lemma keeps_lexic:
  assumes "store_ok F \<sigma>" and "G + mset (kids (ctx_vars (f (lexic \<sigma>)))) = F + mset (kids (ctx_vars (lexic \<sigma>)))"
    and "array_ok (ctx_vars (f (lexic \<sigma>)))" and "hash_elt (ctx_vars (f (lexic \<sigma>))) \<noteq> None" and "grows (lexic \<sigma>) (f (lexic \<sigma>))"
  shows "keeps G \<sigma> (upd_lexic f \<sigma>)"
proof -
  obtain c cs where c: "ns_ctxts \<sigma> = c # cs" using store_ok_ctxts [OF assms(1)] by blast
  show ?thesis using store_ok_lexic [where f = f, OF assms(1-4)] assms(5) c by (simp add: keeps_def upd_lexic_def lexic_def list_all2_refl)
qed

lemma grows_push: "array_ok (ctx_vars c) \<Longrightarrow> grows c (c\<lparr>ctx_vars := push_name (ctx_vars c) s p\<rparr>)"
  by (auto simp: grows_def push_name_def Let_def chains_def [of "_\<lparr>hash_elt := Some _\<rparr>"] nth_list_update)

lemma grows_num: "grows c (c\<lparr>ctx_vars := (ctx_vars c)\<lparr>num_elt := xs\<rparr>\<rparr>)"
  by (simp add: grows_def chains_def)

end
