(* ===== verification/NaslKeep.thy ===== *)
theory NaslKeep
  imports NaslStore
begin

text \<open>
  The interpreter keeps the ownership of variables: for every function of \<open>NaslVar\<close> and
  \<open>NaslExec\<close>, \<open>run_keeps\<close> says that a result it comes to leaves the store in order and the names of
  all contexts in place.
\<close>

named_theorems rk \<open>functions that keep the store in order\<close>

definition run_keeps :: "addr multiset \<Rightarrow> nasl_state \<Rightarrow> ('a \<times> nasl_state) run \<Rightarrow> bool" where
  "run_keeps F \<sigma> m \<longleftrightarrow> (\<forall>r \<sigma>'. m = Fin (r, \<sigma>') \<longrightarrow> keeps F \<sigma> \<sigma>')"

lemma run_keepsI: "(\<And>r \<sigma>'. m = Fin (r, \<sigma>') \<Longrightarrow> keeps F \<sigma> \<sigma>') \<Longrightarrow> run_keeps F \<sigma> m"
  by (simp add: run_keeps_def)

lemma run_keepsD: "run_keeps F \<sigma> m \<Longrightarrow> m = Fin (r, \<sigma>') \<Longrightarrow> keeps F \<sigma> \<sigma>'"
  by (simp add: run_keeps_def)

lemma rk_Fin [rk]: "keeps F \<sigma> \<sigma>' \<Longrightarrow> run_keeps F \<sigma> (Fin (r, \<sigma>'))"
  by (simp add: run_keeps_def)

lemma rk_same [rk]: "store_ok F \<sigma> \<Longrightarrow> run_keeps F \<sigma> (Fin (r, \<sigma>))"
  by (simp add: run_keeps_def keeps_refl)

lemma rk_stop [rk]: "run_keeps F \<sigma> Timeout" "run_keeps F \<sigma> Abort"
  by (simp_all add: run_keeps_def)

lemma rk_bind [rk]:
  "run_keeps F \<sigma> m \<Longrightarrow> (\<And>r \<sigma>'. store_ok F \<sigma>' \<Longrightarrow> run_keeps F \<sigma>' (g r \<sigma>')) \<Longrightarrow> run_keeps F \<sigma> (andthen m (\<lambda>(r, \<sigma>). g r \<sigma>))"
  unfolding run_keeps_def by (auto simp: andthen_Fin) (meson keeps_ok keeps_trans)

lemma rk_pure: "(\<And>x. run_keeps F \<sigma> (f x)) \<Longrightarrow> run_keeps F \<sigma> (andthen m f)"
  unfolding run_keeps_def by (auto simp: andthen_Fin)

lemma rk_if [rk]: "(b \<Longrightarrow> run_keeps F \<sigma> m) \<Longrightarrow> (\<not> b \<Longrightarrow> run_keeps F \<sigma> r) \<Longrightarrow> run_keeps F \<sigma> (if b then m else r)"
  by simp

lemma rk_option [rk]:
  "run_keeps F \<sigma> m \<Longrightarrow> (\<And>y. run_keeps F \<sigma> (f y)) \<Longrightarrow> run_keeps F \<sigma> (case x of None \<Rightarrow> m | Some y \<Rightarrow> f y)"
  by (simp split: option.split)

subsection \<open>Variables\<close>

lemma undef_kids [simp]: "var_kids VAR2_UNDEF = []" "var_ok VAR2_UNDEF"
  by (simp_all add: var_kids_def var_ok_def)

lemma atom_kids [simp]: "var_kids (VAR2_INT i) = []" "var_kids (VAR2_STRING s) = []" "var_kids (VAR2_DATA s) = []"
  "var_ok (VAR2_INT i)" "var_ok (VAR2_STRING s)" "var_ok (VAR2_DATA s)"
  by (simp_all add: var_kids_def var_ok_def)

lemma alloc_keeps:
  "store_ok F \<sigma> \<Longrightarrow> alloc_var v \<sigma> = (p, \<sigma>') \<Longrightarrow> var_kids v = [] \<Longrightarrow> var_ok v \<Longrightarrow> keeps (add_mset p F) \<sigma> \<sigma>'"
  using store_ok_alloc [of F \<sigma> v p \<sigma>'] only_at_alloc [of v \<sigma> p \<sigma>' 0] by (intro keeps_only_at [of _ _ 0]) simp_all

lemma find_name_kid: "find_name s c = Some p \<Longrightarrow> array_ok (ctx_vars c) \<Longrightarrow> p \<in> set (kids (ctx_vars c))"
proof -
  assume a: "find_name s c = Some p" "array_ok (ctx_vars c)"
  then obtain es where e: "hash_elt (ctx_vars c) = Some es" "map_of (es ! hash_str s) s = Some p"
    by (auto simp: find_name_def split: option.splits)
  then have "(s, p) \<in> set (es ! hash_str s)" "hash_str s < length es" using a(2) by (auto simp: array_ok_def dest: map_of_SomeD)
  then show ?thesis using e(1) by (force simp: kids_def)
qed

lemma root_live: "store_ok F \<sigma> \<Longrightarrow> c \<in> set (ns_ctxts \<sigma>) \<Longrightarrow> p \<in> set (kids (ctx_vars c)) \<Longrightarrow> \<exists>v. ns_heap \<sigma> p = Some v"
  by (auto simp: store_ok_def held_ok_def owned_def roots_def)

lemma climb_kid:
  "climb_ctxts s cs = Some p \<Longrightarrow> \<forall>c \<in> set cs. array_ok (ctx_vars c) \<Longrightarrow> \<exists>c \<in> set cs. p \<in> set (kids (ctx_vars c))"
  by (induction cs) (auto split: option.splits dest: find_name_kid)

lemma get_var_ref_keeps:
  assumes "store_ok F \<sigma>" and "get_var_ref_by_name s b \<sigma> = (p, \<sigma>')"
  shows "keeps F \<sigma> \<sigma>'" and "\<exists>v. ns_heap \<sigma>' p = Some v"
proof -
  let ?x = "if b then climb_ctxts (c_str s) (ns_ctxts \<sigma>) else find_name (c_str s) (lexic \<sigma>)"
  have l: "lexic \<sigma> \<in> set (ns_ctxts \<sigma>)" "\<forall>c \<in> set (ns_ctxts \<sigma>). array_ok (ctx_vars c)"
    using assms(1) by (auto simp: store_ok_def shape_ok_def lexic_def)
  have "keeps F \<sigma> \<sigma>' \<and> (\<exists>v. ns_heap \<sigma>' p = Some v)"
  proof (cases ?x)
    case (Some q)
    then have "q = p" "\<sigma>' = \<sigma>" using assms(2) by (auto simp: get_var_ref_by_name_def Let_def split: if_splits)
    moreover have "\<exists>c \<in> set (ns_ctxts \<sigma>). q \<in> set (kids (ctx_vars c))"
      using Some l by (auto dest: find_name_kid climb_kid split: if_splits)
    ultimately show ?thesis using assms(1) root_live keeps_refl by blast
  next
    case None
    obtain q \<tau> where a: "alloc_var VAR2_UNDEF \<sigma> = (q, \<tau>)" by fastforce
    let ?f = "\<lambda>c. c\<lparr>ctx_vars := push_name (ctx_vars c) (c_str s) q\<rparr>"
    have r: "p = q" "\<sigma>' = upd_lexic ?f \<tau>" using assms(2) None a by (auto simp: get_var_ref_by_name_def Let_def split: if_splits)
    note al = store_ok_alloc [OF assms(1) a undef_kids]
    have v: "array_ok (ctx_vars (lexic \<tau>))" using store_ok_lexic_vars [OF al(1)] by simp
    have "keeps F \<tau> (upd_lexic ?f \<tau>)"
      by (rule keeps_lexic [OF al(1)]) (use v in \<open>simp_all add: kids_push push_ok grows_push\<close>)
    moreover have "ns_heap (upd_lexic ?f \<tau>) q = Some VAR2_UNDEF" using al(2) by (simp add: upd_lexic_def)
    ultimately show ?thesis using r keeps_trans [OF alloc_keeps [OF assms(1) a undef_kids]] by blast
  qed
  then show "keeps F \<sigma> \<sigma>'" "\<exists>v. ns_heap \<sigma>' p = Some v" by simp_all
qed

lemma get_var_ref_by_num_keeps [rk]:
  assumes "store_ok F \<sigma>"
  shows "run_keeps F \<sigma> (get_var_ref_by_num num \<sigma>)"
proof (rule run_keepsI)
  fix x \<sigma>' assume r: "get_var_ref_by_num num \<sigma> = Fin (x, \<sigma>')"
  show "keeps F \<sigma> \<sigma>'"
  proof (cases "sint num < 0")
    case True
    then show ?thesis using r assms by (simp add: get_var_ref_by_num_def keeps_refl)
  next
    case False
    let ?i = "nat (sint num)" and ?c = "lexic \<sigma>" and ?g = "\<lambda>xs c. c\<lparr>ctx_vars := (ctx_vars c)\<lparr>num_elt := xs\<rparr>\<rparr>"
    obtain xs where g: "grow 8 ?i (num_elt (ctx_vars ?c)) = Fin xs"
      using r False by (auto simp: get_var_ref_by_num_def Let_def andthen_Fin)
    note v = store_ok_lexic_vars [OF assms]
    have k: "mset (kids ((ctx_vars ?c)\<lparr>num_elt := xs\<rparr>)) = mset (kids (ctx_vars ?c))" "?i < length xs" using kids_grow [OF g, of "ctx_vars ?c"] by simp_all
    have s: "keeps F \<sigma> (upd_lexic (?g xs) \<sigma>)"
      by (rule keeps_lexic [OF assms]) (use v k in \<open>simp_all add: grows_num\<close>)
    show ?thesis
    proof (cases "xs ! ?i")
      case (Some p)
      then show ?thesis using r False g s by (simp add: get_var_ref_by_num_def Let_def)
    next
      case None
      let ?s = "upd_lexic (?g xs) \<sigma>"
      obtain q \<tau> where a: "alloc_var VAR2_UNDEF ?s = (q, \<tau>)" by fastforce
      have t: "\<sigma>' = upd_lexic (?g (xs[?i := Some q])) \<tau>" using r False g None a by (auto simp: get_var_ref_by_num_def Let_def)
      note al = store_ok_alloc [OF keeps_ok [OF s] a undef_kids]
      have lx: "lexic \<tau> = ?g xs ?c" using al(5) store_ok_ctxts [OF assms] by (cases "ns_ctxts \<sigma>") (simp_all add: lexic_def upd_lexic_def)
      have e: "mset (kids (ctx_vars (?g (xs[?i := Some q]) (lexic \<tau>)))) = mset (kids (ctx_vars (lexic \<tau>))) + {#q#}"
        using kids_num [of ?i "(ctx_vars ?c)\<lparr>num_elt := xs\<rparr>" q] k(2) None by (simp add: lx)
      have "keeps F \<tau> (upd_lexic (?g (xs[?i := Some q])) \<tau>)"
        by (rule keeps_lexic [OF al(1)]) (use v e in \<open>simp_all add: lx grows_def chains_def\<close>)
      then show ?thesis using t keeps_trans [OF s keeps_trans [OF alloc_keeps [OF keeps_ok [OF s] a undef_kids]]] by blast
    qed
  qed
qed

subsection \<open>Elements\<close>

text \<open>A variable that is turned into an array, or an array, gets a new element.\<close>

definition array_of :: "anon_nasl_var \<Rightarrow> nasl_array \<Rightarrow> bool" where
  "array_of v a \<longleftrightarrow> v = VAR2_ARRAY a \<or> v = VAR2_UNDEF \<and> a = empty_array"

lemma array_of_kids: "array_of v a \<Longrightarrow> var_kids v = kids a"
  by (auto simp: array_of_def var_kids_def empty_array_def kids_def)

lemma array_of_ok: "store_ok F \<sigma> \<Longrightarrow> ns_heap \<sigma> p = Some v \<Longrightarrow> array_of v a \<Longrightarrow> array_ok a \<and> (\<forall>q \<in> set (kids a). p < q)"
  using store_ok_array [of F \<sigma> p a] unfolding array_of_def by (auto simp: empty_array_def array_ok_def kids_def)

lemma keeps_array:
  assumes "store_ok F \<sigma>" and "ns_heap \<sigma> p = Some v" and "array_of v a" and "array_ok a'"
    and "mset (kids a') = mset (kids a)"
  shows "keeps F \<sigma> (set_var p (VAR2_ARRAY a') \<sigma>)"
proof -
  have "set (kids a') = set (kids a)" using arg_cong [OF assms(5), of set_mset] by simp
  then have "store_ok F (set_var p (VAR2_ARRAY a') \<sigma>)"
    using array_of_ok [OF assms(1-3)] assms(4,5) array_of_kids [OF assms(3)]
    by (intro store_ok_set [OF assms(1,2)]) (simp_all add: var_kids_def var_ok_def)
  then show ?thesis by (rule keeps_only_at [where p = p]) simp
qed

lemma keeps_new_elem:
  assumes "store_ok F \<sigma>" and "ns_heap \<sigma> p = Some v" and "array_of v a" and "alloc_var VAR2_UNDEF \<sigma> = (q, \<tau>)" and "array_ok a'"
    and "mset (kids a') = mset (kids a) + {#q#}"
  shows "keeps F \<sigma> (set_var p (VAR2_ARRAY a') \<tau>)"
proof -
  note al = store_ok_alloc [OF assms(1,4) undef_kids]
  have p: "p < q" using store_ok_dom [OF assms(1,2)] al(3) by simp
  have h: "ns_heap \<tau> p = Some v" using al(2) p assms(2) by simp
  have "set (kids a') = insert q (set (kids a))" using arg_cong [OF assms(6), of set_mset] by simp
  then have "store_ok F (set_var p (VAR2_ARRAY a') \<tau>)"
    using array_of_ok [OF assms(1-3)] assms(5,6) array_of_kids [OF assms(3)] p
    by (intro store_ok_set [OF al(1) h]) (simp_all add: var_kids_def var_ok_def)
  then show ?thesis by (rule keeps_only_at [OF _ only_at_trans [OF only_at_alloc [OF assms(4), of p]]]) simp
qed

lemma get_var_by_name_cases:
  assumes "array_ok a" and "get_var_by_name a s \<sigma> = (q, a', \<sigma>')"
  shows "array_ok a' \<and> (\<sigma>' = \<sigma> \<and> mset (kids a') = mset (kids a) \<or> alloc_var VAR2_UNDEF \<sigma> = (q, \<sigma>') \<and> mset (kids a') = mset (kids a) + {#q#})"
proof -
  let ?a = "a\<lparr>hash_elt := Some (chains a)\<rparr>"
  have a: "array_ok ?a" "chains ?a = chains a" using assms(1) by (simp_all add: array_ok_def [of "_\<lparr>hash_elt := _\<rparr>"] chains_def [of "_\<lparr>hash_elt := _\<rparr>"])
  have k: "mset (kids ?a) = mset (kids a)" by (simp add: kids_alt a(2))
  show ?thesis using assms(2) a k kids_push [OF a(1)] push_ok [OF a(1)]
    by (auto simp: get_var_by_name_def Let_def split: option.splits prod.splits)
qed

lemma get_var_by_num_cases:
  assumes "nasl_get_var_by_num a i cr \<sigma> = Fin (x, a', \<sigma>')"
  shows "(array_ok a \<longrightarrow> array_ok a')
    \<and> (\<sigma>' = \<sigma> \<and> a' = a \<or> (\<exists>q. alloc_var VAR2_UNDEF \<sigma> = (q, \<sigma>') \<and> mset (kids a') = mset (kids a) + {#q#}))"
proof (cases "sint i < 0 \<or> (nat (sint i) < length (num_elt a) \<and> num_elt a ! nat (sint i) \<noteq> None) \<or> \<not> cr")
  case True
  then show ?thesis using assms by (auto simp: nasl_get_var_by_num_def Let_def split: if_splits)
next
  case False
  let ?i = "nat (sint i)"
  have n: "\<not> sint i < 0" "cr" "(if ?i < length (num_elt a) then num_elt a ! ?i else None) = None" using False by auto
  then have "andthen (grow 8 ?i (num_elt a)) (\<lambda>xs. let (p, \<sigma>) = alloc_var VAR2_UNDEF \<sigma> in Fin (Some p, a\<lparr>num_elt := xs[?i := Some p]\<rparr>, \<sigma>)) = Fin (x, a', \<sigma>')"
    using assms unfolding nasl_get_var_by_num_def Let_def n(3) by simp
  moreover obtain q \<tau> where "alloc_var VAR2_UNDEF \<sigma> = (q, \<tau>)" by fastforce
  ultimately obtain xs where g: "grow 8 ?i (num_elt a) = Fin xs" "alloc_var VAR2_UNDEF \<sigma> = (q, \<sigma>')" "a' = a\<lparr>num_elt := xs[?i := Some q]\<rparr>"
    by (cases "grow 8 ?i (num_elt a)") auto
  note k = kids_grow [OF g(1), of a]
  have "xs ! ?i = None" using k n(3) by (cases "?i < length (num_elt a)") auto
  then show ?thesis using kids_num [of ?i "a\<lparr>num_elt := xs\<rparr>" q] k g by simp
qed

lemma array_elem_keeps:
  assumes "store_ok F \<sigma>" and "ns_heap \<sigma> p = Some v" and "array_of v a"
  shows "run_keeps F \<sigma> (array_elem p a idx \<sigma>)"
proof (rule run_keepsI)
  fix r \<sigma>' assume r: "array_elem p a idx \<sigma> = Fin (r, \<sigma>')"
  have ok: "array_ok a" using array_of_ok [OF assms] by simp
  have k: "keeps F \<sigma> (set_var p (VAR2_ARRAY a) \<sigma>)" using keeps_array [OF assms ok refl] .
  have s: "keeps F \<sigma> \<sigma>'" if "(let (q, a, \<sigma>) = get_var_by_name a s \<sigma> in Fin (REF_VAR (Some q), set_var p (VAR2_ARRAY a) \<sigma>)) = Fin (r, \<sigma>')" for s
  proof -
    obtain q b \<tau> where g: "get_var_by_name a s \<sigma> = (q, b, \<tau>)" by (metis prod_cases3)
    then have "\<sigma>' = set_var p (VAR2_ARRAY b) \<tau>" using that by simp
    then show ?thesis using get_var_by_name_cases [OF ok g] keeps_array [OF assms, of b] keeps_new_elem [OF assms, of q \<tau> b] by auto
  qed
  show "keeps F \<sigma> \<sigma>'"
  proof (cases idx)
    case (CONST_INT i)
    then obtain x b \<tau> where "nasl_get_var_by_num a i True \<sigma> = Fin (x, b, \<tau>)" "\<sigma>' = set_var p (VAR2_ARRAY b) \<tau>"
      using r by (auto simp: array_elem_def andthen_Fin)
    then show ?thesis using get_var_by_num_cases [of a i True \<sigma> x b \<tau>] ok k keeps_new_elem [OF assms, of _ \<tau> b] by auto
  next
    case (CONST_STR t) then show ?thesis using r s by (cases t) (auto simp: array_elem_def)
  next
    case (CONST_DATA t) then show ?thesis using r s by (cases t) (auto simp: array_elem_def)
  qed (use r k in \<open>auto simp: array_elem_def\<close>)
qed

lemma anon_arg_keeps:
  assumes "store_ok F \<sigma>"
  shows "run_keeps F \<sigma> (anon_arg idx \<sigma>)"
proof (rule run_keepsI)
  fix r \<sigma>' assume r: "anon_arg idx \<sigma> = Fin (r, \<sigma>')"
  have al: "keeps F \<sigma> \<tau>" if "alloc_var VAR2_UNDEF \<sigma> = (q, \<tau>)" for q \<tau>
    using keeps_weaken [OF alloc_keeps [OF assms that undef_kids], of F] by simp
  have by_name: "keeps F \<sigma> \<tau>" if "get_var_by_name a s \<sigma> = (q, b, \<tau>)" for a s q b \<tau>
    using that al keeps_refl [OF assms] by (auto simp: get_var_by_name_def Let_def split: option.splits prod.splits)
  have by_num: "keeps F \<sigma> \<tau>" if "nasl_get_var_by_num a i False \<sigma> = Fin (x, b, \<tau>)" for a i x b \<tau>
    using get_var_by_num_cases [OF that] al keeps_refl [OF assms] by auto
  show "keeps F \<sigma> \<sigma>'"
  proof (cases "dropWhile (\<lambda>c. \<not> fct_ctxt c) (ns_ctxts \<sigma>)")
    case Nil
    then have "\<sigma>' = \<sigma>" using r unfolding anon_arg_def Nil by simp
    then show ?thesis using keeps_refl [OF assms] by simp
  next
    case (Cons c cs)
    show ?thesis using r keeps_refl [OF assms] unfolding anon_arg_def Cons
      by (auto simp: andthen_Fin Let_def split: tree_cell.splits option.splits prod.splits dest: by_num by_name)
  qed
qed

lemma get_array_elem_keeps [rk]:
  assumes "store_ok F \<sigma>"
  shows "run_keeps F \<sigma> (get_array_elem name idx \<sigma>)"
proof (cases "c_str name = FCT_ANON_ARGS")
  case True
  then show ?thesis using anon_arg_keeps [OF assms] by (simp add: get_array_elem_def Let_def)
next
  case False
  obtain p \<tau> where g: "get_var_ref_by_name name True \<sigma> = (p, \<tau>)" by fastforce
  note k = get_var_ref_keeps [OF assms g]
  obtain v where v: "ns_heap \<tau> p = Some v" using k(2) by blast
  note e = array_elem_keeps [OF keeps_ok [OF k(1)] v]
  show ?thesis
  proof (rule run_keepsI)
    fix r \<sigma>' assume "get_array_elem name idx \<sigma> = Fin (r, \<sigma>')"
    then have "\<sigma>' = \<tau> \<or> (\<exists>a i. array_of v a \<and> array_elem p a i \<tau> = Fin (r, \<sigma>'))"
      using False g v by (cases v) (auto simp: get_array_elem_def Let_def array_of_def andthen_Fin split: if_splits)
    then show "keeps F \<sigma> \<sigma>'" using k(1) keeps_trans [OF k(1)] run_keepsD [OF e] by blast
  qed
qed

subsection \<open>Assignment\<close>

lemma clear_keeps:
  assumes "store_ok F \<sigma>" and "clear_anon_var p \<sigma> = Fin \<sigma>'"
  shows "keeps F \<sigma> \<sigma>'" and "ns_heap \<sigma>' p = Some VAR2_UNDEF"
proof -
  obtain v where v: "ns_heap \<sigma> p = Some v" "free_vars (Suc (ns_next \<sigma>)) (var_kids v) (set_var p VAR2_UNDEF \<sigma>) = Fin \<sigma>'"
    using assms(2) by (auto simp: clear_anon_var_def split: option.splits)
  have s: "store_ok (F + mset (var_kids v)) (set_var p VAR2_UNDEF \<sigma>)" by (rule store_ok_set [OF assms(1) v(1)]) simp_all
  show "keeps F \<sigma> \<sigma>'" using free_vars_ok [OF s v(2)] by (intro keeps_same) (simp_all add: set_var_def)
  have "\<forall>q \<in> set (var_kids v). p < q" using assms(1) v(1) by (auto simp: store_ok_def shape_ok_def)
  then show "ns_heap \<sigma>' p = Some VAR2_UNDEF"
    using free_vars_above [OF _ _ v(2), of p p] s by (simp add: store_ok_def set_var_def)
qed

text \<open>The new contents are written to \<open>p\<close>; what it held is held by nobody until it is freed.\<close>

definition fills :: "(nasl_state \<Rightarrow> nasl_state run) \<Rightarrow> addr \<Rightarrow> bool" where
  "fills f p \<longleftrightarrow> (\<forall>F \<sigma> v0 \<sigma>'. store_ok F \<sigma> \<longrightarrow> ns_heap \<sigma> p = Some v0 \<longrightarrow> f \<sigma> = Fin \<sigma>'
     \<longrightarrow> store_ok (F + mset (var_kids v0)) \<sigma>' \<and> only_at p \<sigma> \<sigma>')"

lemma fills_atom: "var_kids v = [] \<Longrightarrow> var_ok v \<Longrightarrow> fills (\<lambda>\<sigma>. Fin (set_var p v \<sigma>)) p"
  unfolding fills_def by (auto intro!: store_ok_set)

lemma fills_copy: "var_ok v \<Longrightarrow> fills (copy_anon_var n p v) p"
  unfolding fills_def using copy_anon_var_ok [of n] cp_okD by blast

lemma fills_array: "array_ok a \<Longrightarrow> fills (copy_array (copy_anon_var n) p a b) p"
  unfolding fills_def using copy_array_ok [OF copy_anon_var_ok [of n]] by blast

lemma assign_keeps:
  assumes "store_ok F \<sigma>" and "fills f p"
  shows "run_keeps F \<sigma> (assign f p \<sigma>)"
proof (rule run_keepsI)
  fix r \<sigma>' assume "assign f p \<sigma> = Fin (r, \<sigma>')"
  then obtain v0 \<tau> where v: "ns_heap \<sigma> p = Some v0" "f \<sigma> = Fin \<tau>" "free_vars (Suc (ns_next \<tau>)) (var_kids v0) \<tau> = Fin \<sigma>'"
    by (auto simp: assign_def andthen_Fin split: option.splits)
  have t: "store_ok (F + mset (var_kids v0)) \<tau>" "only_at p \<sigma> \<tau>" using assms v(1,2) unfolding fills_def by blast+
  show "keeps F \<sigma> \<sigma>'" using free_vars_ok [OF t(1) v(3)] t(2) by (intro keeps_same) (simp_all add: only_at_def)
qed

lemma array_at_Fin: "array_at p \<sigma> = Fin a \<longleftrightarrow> ns_heap \<sigma> p = Some (VAR2_ARRAY a)"
  by (auto simp: array_at_def split: option.splits anon_nasl_var.splits)

lemma rk_array_at:
  "store_ok F \<sigma> \<Longrightarrow> (\<And>a. array_ok a \<Longrightarrow> ns_heap \<sigma> p = Some (VAR2_ARRAY a) \<Longrightarrow> run_keeps F \<sigma> (f a)) \<Longrightarrow> run_keeps F \<sigma> (andthen (array_at p \<sigma>) f)"
  unfolding run_keeps_def by (auto simp: andthen_Fin array_at_Fin dest: store_ok_array(1))

lemma rk_clear: "store_ok F \<sigma> \<Longrightarrow> run_keeps F \<sigma> (andthen (clear_anon_var p \<sigma>) (\<lambda>\<sigma>. Fin (r, \<sigma>)))"
  unfolding run_keeps_def by (auto simp: andthen_Fin dest: clear_keeps(1))

lemma affect_keeps [rk]:
  assumes "store_ok F \<sigma>"
  shows "run_keeps F \<sigma> (affect_to_anon_var n v1 rval \<sigma>)"
proof (cases v1)
  case (Some p)
  have var: "run_keeps F \<sigma> (case ns_heap \<sigma> q of None \<Rightarrow> Abort | Some v \<Rightarrow> assign (copy_anon_var n p v) p \<sigma>)" for q
    by (cases "ns_heap \<sigma> q") (simp_all add: rk assign_keeps [OF assms fills_copy [OF store_ok_var [OF assms]]])
  have arr: "run_keeps F \<sigma> (andthen (array_at q \<sigma>) (\<lambda>a. assign (copy_array (copy_anon_var n) p a True) p \<sigma>))" for q
    by (rule rk_array_at [OF assms]) (rule assign_keeps [OF assms fills_array])
  show ?thesis unfolding affect_to_anon_var_def Some
    by (cases rval) (simp_all add: rk rk_clear assms var arr assign_keeps fills_atom)
qed (simp add: affect_to_anon_var_def rk assms)

lemma nasl_affect_keeps [rk]: "store_ok F \<sigma> \<Longrightarrow> run_keeps F \<sigma> (nasl_affect n l r \<sigma>)"
  unfolding nasl_affect_def by (cases l) (simp_all add: rk)

lemma new_array_keeps [rk]:
  assumes "store_ok F \<sigma>" and "array_ok a"
  shows "run_keeps F \<sigma> (new_array n a b \<sigma>)"
proof (rule run_keepsI)
  fix r \<sigma>' assume r: "new_array n a b \<sigma> = Fin (r, \<sigma>')"
  obtain p \<tau> where al: "alloc_var (VAR2_ARRAY empty_array) \<sigma> = (p, \<tau>)" by fastforce
  have c: "copy_array (copy_anon_var n) p a b \<tau> = Fin \<sigma>'" using r al by (auto simp: new_array_def andthen_Fin)
  have k: "var_kids (VAR2_ARRAY empty_array) = []" "var_ok (VAR2_ARRAY empty_array)"
    by (simp_all add: var_kids_def kids_def empty_array_def var_ok_def array_ok_def)
  note s = store_ok_alloc [OF assms(1) al k]
  have "store_ok (F + {#p#} + mset (var_kids (VAR2_ARRAY empty_array))) \<sigma>' \<and> only_at p \<tau> \<sigma>'"
    using copy_array_ok [OF copy_anon_var_ok s(1) _ assms(2) c] s(2) by simp
  then have "keeps (F + {#p#}) \<tau> \<sigma>'" using k by (auto intro: keeps_only_at)
  then have "keeps (F + {#p#}) \<sigma> \<sigma>'" using keeps_trans [OF alloc_keeps [OF assms(1) al k]] by blast
  then show "keeps F \<sigma> \<sigma>'" by (rule keeps_weaken) simp
qed

lemma copy_ref_array_keeps [rk]: "store_ok F \<sigma> \<Longrightarrow> run_keeps F \<sigma> (copy_ref_array n c \<sigma>)"
  unfolding copy_ref_array_def by (cases c) (simp_all add: rk rk_array_at)

lemma get_variable_keeps [rk]:
  assumes "store_ok F \<sigma>"
  shows "run_keeps F \<sigma> (get_variable_by_name n s \<sigma>)"
proof -
  obtain p \<tau> where g: "get_var_ref_by_name s True \<sigma> = (p, \<tau>)" by fastforce
  show ?thesis using store_ok_lexic_vars [OF assms] get_var_ref_keeps(1) [OF assms g]
    by (simp add: get_variable_by_name_def g rk assms)
qed

lemma incr_keeps [rk]:
  assumes "store_ok F \<sigma>"
  shows "run_keeps F \<sigma> (nasl_incr_variable tc pre val \<sigma>)"
proof -
  have s: "run_keeps F \<sigma> (andthen (clear_anon_var p \<sigma>) (\<lambda>\<sigma>. Fin (c, set_var p (VAR2_INT i) \<sigma>)))" for p c i
  proof (rule run_keepsI)
    fix r \<sigma>' assume "andthen (clear_anon_var p \<sigma>) (\<lambda>\<sigma>. Fin (c, set_var p (VAR2_INT i) \<sigma>)) = Fin (r, \<sigma>')"
    then obtain \<tau> where t: "clear_anon_var p \<sigma> = Fin \<tau>" "\<sigma>' = set_var p (VAR2_INT i) \<tau>" by (auto simp: andthen_Fin)
    note k = clear_keeps [OF assms t(1)]
    have "store_ok F \<sigma>'" unfolding t(2) by (rule store_ok_set [OF keeps_ok [OF k(1)] k(2)]) simp_all
    then show "keeps F \<sigma> \<sigma>'" using keeps_trans [OF k(1) keeps_only_at [where p = p]] t(2) by simp
  qed
  show ?thesis
  proof (cases tc)
    case (REF_VAR x)
    show ?thesis unfolding nasl_incr_variable_def Let_def REF_VAR
      by (cases x) (auto simp: rk s assms split: option.split anon_nasl_var.split)
  qed (simp_all add: nasl_incr_variable_def rk assms)
qed

subsection \<open>Texts\<close>

lemma store_ok_len [simp]: "store_ok F (\<sigma>\<lparr>ns_len := x\<rparr>) = store_ok F \<sigma>"
  by (simp add: store_ok_def shape_ok_def owned_def roots_def)

lemma array2str_keeps [rk]: "store_ok F \<sigma> \<Longrightarrow> run_keeps F \<sigma> (array2str a \<sigma>)"
  by (rule run_keepsI) (auto simp: array2str_def Let_def andthen_Fin intro!: keeps_same)

lemma var2str_keeps [rk]: "store_ok F \<sigma> \<Longrightarrow> run_keeps F \<sigma> (var2str v \<sigma>)"
  unfolding var2str_def by (cases v) (auto simp: rk split: option.split anon_nasl_var.split)

subsection \<open>New variables of contexts\<close>

lemma affect_ctxts:
  assumes "affect_to_anon_var n (Some p) val \<sigma> = Fin (r, \<sigma>')" and "store_ok F \<sigma>"
  shows "ns_ctxts \<sigma>' = ns_ctxts \<sigma>"
proof -
  have a: "ns_ctxts \<tau> = ns_ctxts \<sigma>" if as: "assign f p \<sigma> = Fin (c, \<tau>)" and f: "fills f p" for f \<tau> c
  proof -
    obtain v0 \<rho> where v: "ns_heap \<sigma> p = Some v0" "f \<sigma> = Fin \<rho>" "free_vars (Suc (ns_next \<rho>)) (var_kids v0) \<rho> = Fin \<tau>"
      using as by (auto simp: assign_def andthen_Fin split: option.splits)
    have "store_ok (F + mset (var_kids v0)) \<rho>" "only_at p \<sigma> \<rho>" using assms(2) v(1,2) f unfolding fills_def by blast+
    then show ?thesis using free_vars_ok [OF _ v(3)] by (auto simp: only_at_def)
  qed
  have c: "ns_ctxts \<tau> = ns_ctxts \<sigma>" if cl: "clear_anon_var p \<sigma> = Fin \<tau>" for \<tau>
  proof -
    obtain v where v: "ns_heap \<sigma> p = Some v" "free_vars (Suc (ns_next \<sigma>)) (var_kids v) (set_var p VAR2_UNDEF \<sigma>) = Fin \<tau>"
      using cl by (auto simp: clear_anon_var_def split: option.splits)
    have "store_ok (F + mset (var_kids v)) (set_var p VAR2_UNDEF \<sigma>)" by (rule store_ok_set [OF assms(2) v(1)]) simp_all
    from free_vars_ok [OF this v(2)] show ?thesis by (simp add: set_var_def)
  qed
  show ?thesis
  proof (cases "is_void val")
    case True
    then show ?thesis using assms(1) c by (auto simp: affect_to_anon_var_def andthen_Fin split: if_splits)
  next
    case False
    then show ?thesis using assms(1) a fills_atom fills_copy [OF store_ok_var [OF assms(2)]] fills_array [OF store_ok_array(1) [OF assms(2)]]
      by (cases val) (auto simp: affect_to_anon_var_def andthen_Fin array_at_Fin split: if_splits option.splits)
  qed
qed

lemma create_keeps:
  assumes "store_ok F \<sigma>" and "create_anon_var n val \<sigma> = Fin (p, \<sigma>')"
  shows "keeps (add_mset p F) \<sigma> \<sigma>'" and "ns_ctxts \<sigma>' = ns_ctxts \<sigma>"
proof -
  obtain q \<tau> where a: "alloc_var VAR2_UNDEF \<sigma> = (q, \<tau>)" by fastforce
  note k = alloc_keeps [OF assms(1) a undef_kids] and al = store_ok_alloc [OF assms(1) a undef_kids]
  have "q = p \<and> (\<tau> = \<sigma>' \<or> (\<exists>r. affect_to_anon_var n (Some q) val \<tau> = Fin (r, \<sigma>')))"
    using assms(2) a by (auto simp: create_anon_var_def andthen_Fin split: if_splits)
  then show "keeps (add_mset p F) \<sigma> \<sigma>'" "ns_ctxts \<sigma>' = ns_ctxts \<sigma>"
    using k al(5) keeps_trans [OF k] run_keepsD [OF affect_keeps [OF keeps_ok [OF k]]] affect_ctxts [OF _ keeps_ok [OF k]] by auto
qed

definition ctxt_ok :: "lex_ctxt \<Rightarrow> bool" where
  "ctxt_ok c \<longleftrightarrow> array_ok (ctx_vars c) \<and> hash_elt (ctx_vars c) \<noteq> None"

text \<open>\<open>N\<close> are the variables that the context gets.\<close>

lemma add_named_keeps:
  assumes "store_ok F \<sigma>" and "ctxt_ok c" and "add_named_var_to_ctxt n c s val \<sigma> = Fin (x, c', \<sigma>')"
  shows "\<exists>N. mset (kids (ctx_vars c')) = mset (kids (ctx_vars c)) + N \<and> keeps (F + N) \<sigma> \<sigma>' \<and> ns_ctxts \<sigma>' = ns_ctxts \<sigma> \<and> ctxt_ok c' \<and> grows c c'"
proof -
  obtain es where es: "hash_elt (ctx_vars c) = Some es" using assms(2) by (auto simp: ctxt_ok_def)
  show ?thesis
  proof (cases "map_of (es ! hash_str (c_str s)) (c_str s) = None")
    case True
    then obtain p where p: "create_anon_var n val \<sigma> = Fin (p, \<sigma>')" "c' = c\<lparr>ctx_vars := push_name (ctx_vars c) (c_str s) p\<rparr>"
      using assms(3) es by (auto simp: add_named_var_to_ctxt_def Let_def andthen_Fin)
    then show ?thesis using create_keeps [OF assms(1) p(1)] assms(2)
      by (intro exI [of _ "{#p#}"]) (simp add: ctxt_ok_def kids_push push_ok grows_push)
  next
    case False
    then have "c' = c" "\<sigma>' = \<sigma>" using assms(3) es by (auto simp: add_named_var_to_ctxt_def Let_def)
    then show ?thesis using keeps_refl [OF assms(1)] assms(2) by (intro exI [of _ "{#}"]) simp
  qed
qed

lemma add_numbered_keeps:
  assumes "store_ok (F + mset (kids (ctx_vars c))) \<sigma>" and "ctxt_ok c" and "add_numbered_var_to_ctxt n c i val \<sigma> = Fin (x, c', \<sigma>')"
  shows "keeps (F + mset (kids (ctx_vars c'))) \<sigma> \<sigma>' \<and> ns_ctxts \<sigma>' = ns_ctxts \<sigma> \<and> ctxt_ok c' \<and> grows c c'"
proof -
  let ?a = "ctx_vars c"
  have put: ?thesis if t: "store_ok (F + mset (kids (?a\<lparr>num_elt := ys[i := None]\<rparr>))) \<tau>" "ns_ctxts \<tau> = ns_ctxts \<sigma>" "ns_next \<tau> = ns_next \<sigma>" "i < length ys"
    "andthen (create_anon_var n val \<tau>) (\<lambda>(p, \<sigma>). Fin (Some p, c\<lparr>ctx_vars := ?a\<lparr>num_elt := ys[i := Some p]\<rparr>\<rparr>, \<sigma>)) = Fin (x, c', \<sigma>')" for ys \<tau>
  proof -
    obtain p where p: "create_anon_var n val \<tau> = Fin (p, \<sigma>')" "c' = c\<lparr>ctx_vars := ?a\<lparr>num_elt := ys[i := Some p]\<rparr>\<rparr>"
      using t(5) by (auto simp: andthen_Fin)
    have k: "mset (kids (ctx_vars c')) = mset (kids (?a\<lparr>num_elt := ys[i := None]\<rparr>)) + {#p#}"
      using kids_num [of i "?a\<lparr>num_elt := ys[i := None]\<rparr>" p] t(4) p(2) by simp
    note cr = create_keeps [OF t(1) p(1)]
    have "keeps (F + mset (kids (ctx_vars c'))) \<tau> \<sigma>'" using cr(1) by (simp add: k)
    then have "keeps (F + mset (kids (ctx_vars c'))) \<sigma> \<sigma>'" using t(2,3) by (simp add: keeps_def)
    then show ?thesis using cr(2) t(2) assms(2) p(2) by (simp add: ctxt_ok_def grows_num)
  qed
  show ?thesis
  proof (cases "i < length (num_elt ?a)")
    case False
    then obtain ys where g: "grow 32 i (num_elt ?a) = Fin ys"
      and r: "andthen (create_anon_var n val \<sigma>) (\<lambda>(p, \<sigma>). Fin (Some p, c\<lparr>ctx_vars := ?a\<lparr>num_elt := ys[i := Some p]\<rparr>\<rparr>, \<sigma>)) = Fin (x, c', \<sigma>')"
      using assms(3) unfolding add_numbered_var_to_ctxt_def Let_def by (cases "grow 32 i (num_elt ?a)") auto
    note k = kids_grow [OF g, of ?a]
    have "ys[i := None] = ys" using k False by (metis list_update_id)
    then show ?thesis using put [OF _ _ _ _ r] k assms(1) by simp
  next
    case True
    show ?thesis
    proof (cases "num_elt ?a ! i")
      case None
      then have "(num_elt ?a)[i := None] = num_elt ?a" by (metis list_update_id)
      then show ?thesis using put [of "num_elt ?a" \<sigma>] assms(1,3) True None by (simp add: add_numbered_var_to_ctxt_def Let_def)
    next
      case (Some p)
      have k: "mset (kids ?a) = mset (kids (?a\<lparr>num_elt := (num_elt ?a)[i := None]\<rparr>)) + {#p#}"
        using kids_num [of i "?a\<lparr>num_elt := (num_elt ?a)[i := None]\<rparr>" p] True list_update_id [of "num_elt ?a" i] Some by simp
      show ?thesis
      proof (cases "ns_heap \<sigma> p = Some VAR2_UNDEF")
        case u: True
        then obtain \<tau> where f: "free_vars (Suc (ns_next \<sigma>)) [p] \<sigma> = Fin \<tau>"
          and r: "andthen (create_anon_var n val \<tau>) (\<lambda>(q, \<sigma>). Fin (Some q, c\<lparr>ctx_vars := ?a\<lparr>num_elt := (num_elt ?a)[i := Some q]\<rparr>\<rparr>, \<sigma>)) = Fin (x, c', \<sigma>')"
          using assms(3) True Some unfolding add_numbered_var_to_ctxt_def Let_def by (cases "free_vars (Suc (ns_next \<sigma>)) [p] \<sigma>") auto
        have "store_ok (F + mset (kids (?a\<lparr>num_elt := (num_elt ?a)[i := None]\<rparr>)) + mset [p]) \<sigma>" using assms(1) k by (simp add: ac_simps)
        from put [OF _ _ _ True r] free_vars_ok [OF this f] show ?thesis by simp
      next
        case False
        then have "c' = c" "\<sigma>' = \<sigma>" using assms(3) True Some unfolding add_numbered_var_to_ctxt_def Let_def
          by (auto split: option.splits anon_nasl_var.splits)
        then show ?thesis using keeps_refl [OF assms(1)] assms(2) by simp
      qed
    qed
  qed
qed

lemma decl_keeps:
  "store_ok F \<sigma> \<Longrightarrow> ctxt_ok c \<Longrightarrow> decl_variables t c \<sigma> = Fin (c', \<sigma>')
   \<Longrightarrow> \<exists>N. mset (kids (ctx_vars c')) = mset (kids (ctx_vars c)) + N \<and> keeps (F + N) \<sigma> \<sigma>' \<and> ns_ctxts \<sigma>' = ns_ctxts \<sigma> \<and> ctxt_ok c' \<and> grows c c'"
proof (induction t c \<sigma> arbitrary: F rule: decl_variables.induct)
  case (1 name t c \<sigma>)
  then obtain x c1 \<tau> where a: "add_named_var_to_ctxt 0 c name NULL \<sigma> = Fin (x, c1, \<tau>)" "decl_variables t c1 \<tau> = Fin (c', \<sigma>')"
    by (auto simp: andthen_Fin)
  obtain N where n: "mset (kids (ctx_vars c1)) = mset (kids (ctx_vars c)) + N" "keeps (F + N) \<sigma> \<tau>" "ns_ctxts \<tau> = ns_ctxts \<sigma>" "ctxt_ok c1" "grows c c1"
    using add_named_keeps [OF 1(2,3) a(1)] by blast
  from 1(1) [OF a(1) refl refl keeps_ok [OF n(2)] n(4) a(2)] obtain M where
    m: "mset (kids (ctx_vars c')) = mset (kids (ctx_vars c1)) + M" "keeps (F + N + M) \<tau> \<sigma>'" "ns_ctxts \<sigma>' = ns_ctxts \<tau>" "ctxt_ok c'" "grows c1 c'" by blast
  show ?case using n m keeps_trans [OF n(2) m(2)] grows_trans by (intro exI [of _ "N + M"]) (auto simp: ac_simps)
qed (auto intro!: exI [of _ "{#}"] keeps_refl)

subsection \<open>Contexts\<close>

lemma store_ok_swap:
  assumes "store_ok G \<sigma>" and "cs \<noteq> []" and "\<forall>c \<in> set cs. ctxt_ok c"
    and "H + mset (concat (map (\<lambda>c. kids (ctx_vars c)) cs)) = G + roots \<sigma>"
  shows "store_ok H (\<sigma>\<lparr>ns_ctxts := cs\<rparr>)"
proof -
  have "owned H (\<sigma>\<lparr>ns_ctxts := cs\<rparr>) = owned G \<sigma>" using assms(4) by (simp add: owned_def roots_def)
  then show ?thesis using assms(1-3) by (auto simp: store_ok_def shape_ok_def ctxt_ok_def)
qed

lemma store_ok_ctxt_ok: "store_ok F \<sigma> \<Longrightarrow> c \<in> set (ns_ctxts \<sigma>) \<Longrightarrow> ctxt_ok c"
  by (auto simp: store_ok_def shape_ok_def ctxt_ok_def)

lemma keeps_replace:
  assumes "store_ok G \<sigma>" and "ns_ctxts \<sigma> = xs @ c # ys" and "H + mset (kids (ctx_vars c')) = G + mset (kids (ctx_vars c))"
    and "ctxt_ok c'" and "grows c c'"
  shows "keeps H \<sigma> (\<sigma>\<lparr>ns_ctxts := xs @ c' # ys\<rparr>)"
proof -
  let ?k = "\<lambda>cs. mset (concat (map (\<lambda>c. kids (ctx_vars c)) cs))"
  have "H + ?k (xs @ c' # ys) = (H + mset (kids (ctx_vars c'))) + ?k (xs @ ys)" by (simp add: ac_simps)
  also have "\<dots> = G + roots \<sigma>" unfolding assms(3) by (simp add: roots_def assms(2) ac_simps)
  finally have "store_ok H (\<sigma>\<lparr>ns_ctxts := xs @ c' # ys\<rparr>)"
    using assms(2,4) store_ok_ctxt_ok [OF assms(1)] by (intro store_ok_swap [OF assms(1)]) auto
  then show ?thesis using assms(2,5) by (simp add: keeps_def list_all2_refl list_all2_appendI)
qed

lemma upd_lexic_replace: "ns_ctxts \<sigma> = c # cs \<Longrightarrow> upd_lexic f \<sigma> = \<sigma>\<lparr>ns_ctxts := [] @ f c # cs\<rparr>"
  by (simp add: upd_lexic_def)

lemma flag_keeps:
  assumes "store_ok F \<sigma>" and "\<And>c. ctx_vars (f c) = ctx_vars c \<and> fct_ctxt (f c) = fct_ctxt c"
  shows "keeps F \<sigma> (upd_lexic f \<sigma>)"
proof -
  have "ns_ctxts \<sigma> = [] @ lexic \<sigma> # tl (ns_ctxts \<sigma>)" using store_ok_ctxts [OF assms(1)] by simp
  from keeps_replace [OF assms(1) this, of F "f (lexic \<sigma>)"] show ?thesis
    using store_ok_lexic_vars [OF assms(1)] assms(2) store_ok_ctxts [OF assms(1)]
    by (simp add: ctxt_ok_def grows_def upd_lexic_replace [of \<sigma> "lexic \<sigma>" "tl (ns_ctxts \<sigma>)"])
qed

lemma set_break_keeps [rk]: "store_ok F \<sigma> \<Longrightarrow> keeps F \<sigma> (set_break b \<sigma>)"
  unfolding set_break_def by (rule flag_keeps) simp_all

lemma set_cont_keeps [rk]: "store_ok F \<sigma> \<Longrightarrow> keeps F \<sigma> (set_cont b \<sigma>)"
  unfolding set_cont_def by (rule flag_keeps) simp_all

lemma add_func_keeps: "store_ok F \<sigma> \<Longrightarrow> keeps F \<sigma> (upd_lexic (add_func h f) \<sigma>)"
  by (rule flag_keeps) (simp_all add: add_func_def)

lemma decl_at_keeps:
  assumes "store_ok F \<sigma>" and "ns_ctxts \<sigma> = xs @ c # ys" and "decl_variables t c \<sigma> = Fin (c', \<tau>)"
  shows "keeps F \<sigma> (\<tau>\<lparr>ns_ctxts := xs @ c' # ys\<rparr>)"
proof -
  have "ctxt_ok c" using store_ok_ctxt_ok [OF assms(1)] assms(2) by simp
  from decl_keeps [OF assms(1) this assms(3)] obtain N where
    n: "mset (kids (ctx_vars c')) = mset (kids (ctx_vars c)) + N" "keeps (F + N) \<sigma> \<tau>" "ns_ctxts \<tau> = ns_ctxts \<sigma>" "ctxt_ok c'" "grows c c'" by blast
  have "keeps F \<tau> (\<tau>\<lparr>ns_ctxts := xs @ c' # ys\<rparr>)"
    by (rule keeps_replace [OF keeps_ok [OF n(2)], of xs c]) (use n assms(2) in \<open>simp_all add: ac_simps\<close>)
  then show ?thesis using keeps_trans n(2) by blast
qed

lemma decl_local_keeps [rk]:
  assumes "store_ok F \<sigma>"
  shows "run_keeps F \<sigma> (decl_local_variables t \<sigma>)"
proof (rule run_keepsI)
  fix r \<sigma>' assume "decl_local_variables t \<sigma> = Fin (r, \<sigma>')"
  then obtain c' \<tau> where d: "decl_variables t (lexic \<sigma>) \<sigma> = Fin (c', \<tau>)" "\<sigma>' = upd_lexic (\<lambda>_. c') \<tau>"
    by (auto simp: decl_local_variables_def andthen_Fin)
  have l: "ns_ctxts \<sigma> = [] @ lexic \<sigma> # tl (ns_ctxts \<sigma>)" using store_ok_ctxts [OF assms] by simp
  have "ctxt_ok (lexic \<sigma>)" using store_ok_lexic_vars [OF assms] by (simp add: ctxt_ok_def)
  from decl_keeps [OF assms this d(1)] have "ns_ctxts \<tau> = ns_ctxts \<sigma>" by blast
  then have "\<sigma>' = \<tau>\<lparr>ns_ctxts := [] @ c' # tl (ns_ctxts \<sigma>)\<rparr>" using d(2) l upd_lexic_replace [of \<tau> "lexic \<sigma>" "tl (ns_ctxts \<sigma>)"] by simp
  then show "keeps F \<sigma> \<sigma>'" using decl_at_keeps [OF assms l d(1)] by simp
qed

lemma decl_global_keeps [rk]:
  assumes "store_ok F \<sigma>"
  shows "run_keeps F \<sigma> (decl_global_variables t \<sigma>)"
proof (rule run_keepsI)
  fix r \<sigma>' assume "decl_global_variables t \<sigma> = Fin (r, \<sigma>')"
  then obtain c' \<tau> where d: "decl_variables t (last (ns_ctxts \<sigma>)) \<sigma> = Fin (c', \<tau>)" "\<sigma>' = \<tau>\<lparr>ns_ctxts := butlast (ns_ctxts \<tau>) @ [c']\<rparr>"
    by (auto simp: decl_global_variables_def andthen_Fin)
  have l: "ns_ctxts \<sigma> = butlast (ns_ctxts \<sigma>) @ last (ns_ctxts \<sigma>) # []" using assms by (simp add: store_ok_def shape_ok_def)
  have "ctxt_ok (last (ns_ctxts \<sigma>))" using store_ok_ctxt_ok [OF assms] assms by (simp add: store_ok_def shape_ok_def)
  from decl_keeps [OF assms this d(1)] have "ns_ctxts \<tau> = ns_ctxts \<sigma>" by blast
  then show "keeps F \<sigma> \<sigma>'" using decl_at_keeps [OF assms l d(1)] d(2) by simp
qed

lemma grows_ret [simp]: "grows c (c\<lparr>ret_val := r\<rparr>)"
  by (auto simp: grows_def)

lemma set_ret_kids: "map (\<lambda>c. kids (ctx_vars c)) (set_ret_val r cs) = map (\<lambda>c. kids (ctx_vars c)) cs"
  by (induction cs) simp_all

lemma set_ret_grows: "list_all2 grows cs (set_ret_val r cs)"
  by (induction cs) (simp_all add: list_all2_refl)

lemma ctxt_ok_ret [simp]: "ctxt_ok (c\<lparr>ret_val := r\<rparr>) = ctxt_ok c"
  by (simp add: ctxt_ok_def)

lemma set_ret_ok: "\<forall>c \<in> set cs. ctxt_ok c \<Longrightarrow> \<forall>c \<in> set (set_ret_val r cs). ctxt_ok c"
  by (induction cs) simp_all

lemma set_ret_nil: "set_ret_val r cs = [] \<longleftrightarrow> cs = []"
  by (cases cs) simp_all

lemma set_ret_keeps:
  assumes "store_ok F \<sigma>"
  shows "keeps F \<sigma> (\<sigma>\<lparr>ns_ctxts := set_ret_val r (ns_ctxts \<sigma>)\<rparr>)"
proof -
  have "store_ok F (\<sigma>\<lparr>ns_ctxts := set_ret_val r (ns_ctxts \<sigma>)\<rparr>)"
    using set_ret_ok [of "ns_ctxts \<sigma>" r] store_ok_ctxt_ok [OF assms] assms
    by (intro store_ok_swap [OF assms]) (simp_all add: roots_def set_ret_kids set_ret_nil store_ok_def shape_ok_def)
  then show ?thesis using set_ret_grows by (simp add: keeps_def)
qed

subsection \<open>Execution\<close>

definition ex_ok :: "exec_fun \<Rightarrow> bool" where
  "ex_ok ex \<longleftrightarrow> (\<forall>F c \<sigma>. store_ok F \<sigma> \<longrightarrow> run_keeps F \<sigma> (ex c \<sigma>))"

lemma ex_okD: "ex_ok ex \<Longrightarrow> store_ok F \<sigma> \<Longrightarrow> run_keeps F \<sigma> (ex c \<sigma>)"
  by (simp add: ex_ok_def)

text \<open>What the functions written in C have to keep.\<close>

definition env_ok :: "nasl_env \<Rightarrow> bool" where
  "env_ok env \<longleftrightarrow> (\<forall>F name \<sigma>. store_ok F \<sigma> \<longrightarrow> run_keeps F \<sigma> (c_funcs env name \<sigma>))"

lemma cell2bool_keeps [rk]: "ex_ok ex \<Longrightarrow> store_ok F \<sigma> \<Longrightarrow> run_keeps F \<sigma> (cell2bool ex k c \<sigma>)"
proof (induction k arbitrary: c \<sigma>)
  case (Suc k) then show ?case by (cases c; simp add: rk ex_okD)
qed (simp add: rk)

lemma cell2int3_keeps [rk]: "ex_ok ex \<Longrightarrow> store_ok F \<sigma> \<Longrightarrow> run_keeps F \<sigma> (cell2int3 ex k c \<sigma>)"
proof (induction k arbitrary: c \<sigma>)
  case (Suc k) then show ?case by (cases c; simp add: rk ex_okD)
qed (simp add: rk)

lemma cell2str_keeps [rk]: "ex_ok ex \<Longrightarrow> store_ok F \<sigma> \<Longrightarrow> run_keeps F \<sigma> (cell2str ex k c \<sigma>)"
proof (induction k arbitrary: c \<sigma>)
  case (Suc k) then show ?case by (cases c; simp add: rk ex_okD rk_array_at)
qed (simp add: rk)

lemma cell2atom_keeps [rk]: "ex_ok ex \<Longrightarrow> store_ok F \<sigma> \<Longrightarrow> run_keeps F \<sigma> (cell2atom ex k c \<sigma>)"
proof (induction k arbitrary: c \<sigma>)
  case (Suc k) then show ?case by (simp add: rk ex_okD)
qed (simp add: rk)

lemma cell_cmp_keeps [rk]: "ex_ok ex \<Longrightarrow> store_ok F \<sigma> \<Longrightarrow> run_keeps F \<sigma> (cell_cmp ex k a b \<sigma>)"
  unfolding cell_cmp_def by (simp add: rk)

lemma exec_int_op_keeps [rk]: "ex_ok ex \<Longrightarrow> store_ok F \<sigma> \<Longrightarrow> run_keeps F \<sigma> (exec_int_op ex k q a b \<sigma>)"
  unfolding exec_int_op_def by (simp add: rk rk_pure)

lemma operand_keeps [rk]: "ex_ok ex \<Longrightarrow> store_ok F \<sigma> \<Longrightarrow> run_keeps F \<sigma> (operand ex k c \<sigma>)"
  unfolding operand_def by (cases c; simp add: rk)

lemma rk_sum_type [rk]:
  "run_keeps F \<sigma> r \<Longrightarrow> run_keeps F \<sigma> m \<Longrightarrow> (\<And>t. run_keeps F \<sigma> (f t)) \<Longrightarrow> run_keeps F \<sigma> (case x of None \<Rightarrow> r | Some T_INT \<Rightarrow> m | Some t \<Rightarrow> f t)"
  by (simp split: option.split atom_type.split)

lemma exec_plus_keeps [rk]: "ex_ok ex \<Longrightarrow> store_ok F \<sigma> \<Longrightarrow> run_keeps F \<sigma> (exec_plus ex k a b \<sigma>)"
  unfolding exec_plus_def by (intro rk_bind rk_if rk_sum_type) (simp_all add: rk split: tree_cell.split)

lemma exec_minus_keeps [rk]: "ex_ok ex \<Longrightarrow> store_ok F \<sigma> \<Longrightarrow> run_keeps F \<sigma> (exec_minus ex k a b \<sigma>)"
  unfolding exec_minus_def by (intro rk_bind rk_if rk_sum_type) (simp_all add: rk split: tree_cell.split)

lemma match_operand_keeps [rk]: "ex_ok ex \<Longrightarrow> store_ok F \<sigma> \<Longrightarrow> run_keeps F \<sigma> (match_operand ex k c \<sigma>)"
  unfolding match_operand_def by (simp add: rk)

lemma exec_match_keeps [rk]: "ex_ok ex \<Longrightarrow> store_ok F \<sigma> \<Longrightarrow> run_keeps F \<sigma> (exec_match ex k pos a b \<sigma>)"
  unfolding exec_match_def Let_def by (simp add: rk)

lemma exec_re_match_keeps [rk]: "ex_ok ex \<Longrightarrow> store_ok F \<sigma> \<Longrightarrow> run_keeps F \<sigma> (exec_re_match env ex k pos re a \<sigma>)"
  unfolding exec_re_match_def Let_def by (simp add: rk)

subsection \<open>Calls\<close>

lemma call_args_keeps:
  "ex_ok ex \<Longrightarrow> store_ok (F + mset (kids (ctx_vars c))) \<sigma> \<Longrightarrow> ctxt_ok c \<Longrightarrow> call_args ex k t i c \<sigma> = Fin (ok, c', \<sigma>')
   \<Longrightarrow> keeps (F + mset (kids (ctx_vars c'))) \<sigma> \<sigma>' \<and> ctxt_ok c'"
proof (induction t arbitrary: i c \<sigma>)
  case (NODE_ARG x a t)
  then obtain pc \<tau> where a: "cell2atom ex k a \<sigma> = Fin (pc, \<tau>)" by (auto simp: andthen_Fin)
  note k1 = run_keepsD [OF cell2atom_keeps [OF NODE_ARG.prems(1,2)] a]
  have "\<exists>c1 \<rho>. keeps (F + mset (kids (ctx_vars c1))) \<tau> \<rho> \<and> ctxt_ok c1 \<and>
      ((c', \<sigma>') = (c1, \<rho>) \<or> (\<exists>j. call_args ex k t j c1 \<rho> = Fin (ok, c', \<sigma>')))"
  proof (cases x)
    case None
    then obtain v c1 \<rho> where r: "add_numbered_var_to_ctxt k c i pc \<tau> = Fin (v, c1, \<rho>)"
      "(if v = None then Fin (False, c1, \<rho>) else call_args ex k t (Suc i) c1 \<rho>) = Fin (ok, c', \<sigma>')"
      using NODE_ARG.prems(4) a by (auto simp: andthen_Fin)
    moreover have "(c', \<sigma>') = (c1, \<rho>) \<or> (\<exists>j. call_args ex k t j c1 \<rho> = Fin (ok, c', \<sigma>'))" using r(2) by (cases v) auto
    ultimately show ?thesis using add_numbered_keeps [OF keeps_ok [OF k1] NODE_ARG.prems(3) r(1)] by blast
  next
    case (Some name)
    then obtain v c1 \<rho> where r: "add_named_var_to_ctxt k c name pc \<tau> = Fin (v, c1, \<rho>)"
      "(if v = None then Fin (False, c1, \<rho>) else call_args ex k t i c1 \<rho>) = Fin (ok, c', \<sigma>')"
      using NODE_ARG.prems(4) a by (auto simp: andthen_Fin)
    from add_named_keeps [OF keeps_ok [OF k1] NODE_ARG.prems(3) r(1)] obtain N where
      "mset (kids (ctx_vars c1)) = mset (kids (ctx_vars c)) + N" "keeps (F + mset (kids (ctx_vars c)) + N) \<tau> \<rho>" "ctxt_ok c1" by blast
    then have "keeps (F + mset (kids (ctx_vars c1))) \<tau> \<rho>" "ctxt_ok c1" by (simp_all add: ac_simps)
    moreover have "(c', \<sigma>') = (c1, \<rho>) \<or> (\<exists>j. call_args ex k t j c1 \<rho> = Fin (ok, c', \<sigma>'))" using r(2) by (cases v) auto
    ultimately show ?thesis by blast
  qed
  then obtain c1 \<rho> where n: "keeps (F + mset (kids (ctx_vars c1))) \<tau> \<rho>" "ctxt_ok c1"
    "(c', \<sigma>') = (c1, \<rho>) \<or> (\<exists>j. call_args ex k t j c1 \<rho> = Fin (ok, c', \<sigma>'))" by (elim exE conjE)
  have k2: "keeps (F + mset (kids (ctx_vars c1))) \<sigma> \<rho>" using keeps_trans [OF k1 n(1)] .
  from n(3) show ?case
  proof
    assume "\<exists>j. call_args ex k t j c1 \<rho> = Fin (ok, c', \<sigma>')"
    then show ?thesis using NODE_ARG.IH(2) [OF NODE_ARG.prems(1) keeps_ok [OF k2] n(2)] keeps_trans [OF k2] by blast
  qed (use k2 n(2) in simp)
qed (auto intro: keeps_refl)

lemma kids_init [simp]: "kids (ctx_vars init_empty_lex_ctxt) = []" "ctxt_ok init_empty_lex_ctxt"
  by (simp_all add: init_empty_lex_ctxt_def kids_def ctxt_ok_def array_ok_def)

lemma push_ctxt_ok:
  assumes "store_ok (F + mset (kids (ctx_vars c))) \<sigma>" and "ctxt_ok c"
  shows "store_ok F (\<sigma>\<lparr>ns_ctxts := c # ns_ctxts \<sigma>\<rparr>)"
  using assms(2) store_ok_ctxt_ok [OF assms(1)] by (intro store_ok_swap [OF assms(1)]) (auto simp: roots_def ac_simps)

lemma pop_ctxt_ok:
  assumes "store_ok F \<sigma>" and "tl (ns_ctxts \<sigma>) \<noteq> []" and "pop_ctxt \<sigma> = Fin \<sigma>'"
  shows "store_ok F \<sigma>'" and "ns_ctxts \<sigma>' = tl (ns_ctxts \<sigma>)" and "ns_next \<sigma>' = ns_next \<sigma>"
proof -
  obtain c cs where c: "ns_ctxts \<sigma> = c # cs" using store_ok_ctxts [OF assms(1)] by blast
  let ?s = "\<sigma>\<lparr>ns_ctxts := cs\<rparr>"
  have s: "store_ok (F + mset (kids (ctx_vars c))) ?s"
    using assms(2) c store_ok_ctxt_ok [OF assms(1)] by (intro store_ok_swap [OF assms(1)]) (auto simp: roots_def ac_simps)
  have f: "free_vars (Suc (ns_next ?s)) (kids (ctx_vars c)) ?s = Fin \<sigma>'"
    using assms(3) c by (simp add: pop_ctxt_def free_array_def lexic_def del: free_vars.simps)
  from free_vars_ok [OF s f] show "store_ok F \<sigma>'" "ns_ctxts \<sigma>' = tl (ns_ctxts \<sigma>)" "ns_next \<sigma>' = ns_next \<sigma>" by (simp_all add: c)
qed

lemma nasl_func_call_keeps [rk]:
  assumes "env_ok env" and "ex_ok ex" and "store_ok F \<sigma>"
  shows "run_keeps F \<sigma> (nasl_func_call env ex k f t \<sigma>)"
proof (rule run_keepsI)
  fix r \<sigma>' assume r: "nasl_func_call env ex k f t \<sigma> = Fin (r, \<sigma>')"
  show "keeps F \<sigma> \<sigma>'"
  proof (cases "flag_compat f")
    case False
    let ?c = "init_empty_lex_ctxt\<lparr>fct_ctxt := True\<rparr>"
    obtain ok c \<tau> where a: "call_args ex k t 0 ?c \<sigma> = Fin (ok, c, \<tau>)"
      using r False by (auto simp: nasl_func_call_def andthen_Fin)
    have i: "kids (ctx_vars ?c) = []" "ctxt_ok ?c" using kids_init by (simp_all add: ctxt_ok_def)
    have ka: "keeps (F + mset (kids (ctx_vars c))) \<sigma> \<tau>" "ctxt_ok c"
      using call_args_keeps [of ex F ?c \<sigma> k t 0 ok c \<tau>] assms i a by simp_all
    show ?thesis
    proof (cases ok)
      case False
      then obtain \<rho> where f: "free_array (ctx_vars c) \<tau> = Fin \<rho>" "\<sigma>' = \<rho>"
        using r \<open>\<not> flag_compat f\<close> a by (auto simp: nasl_func_call_def andthen_Fin)
      then have "free_vars (Suc (ns_next \<tau>)) (kids (ctx_vars c)) \<tau> = Fin \<sigma>'" by (simp add: free_array_def del: free_vars.simps)
      from free_vars_ok [OF keeps_ok [OF ka(1)] this] show ?thesis using ka(1) by (simp add: keeps_def)
    next
      case True
      let ?s = "\<tau>\<lparr>ns_ctxts := c # ns_ctxts \<tau>\<rparr>"
      note p = push_ctxt_ok [OF keeps_ok [OF ka(1)] ka(2)]
      let ?body = "case block f of C_code name \<Rightarrow> c_funcs env name ?s | Block body \<Rightarrow> andthen (ex body ?s) (\<lambda>(_, \<sigma>). Fin (FAKE_CELL, \<sigma>))"
      obtain q \<rho> where b: "?body = Fin (q, \<rho>)" "pop_ctxt \<rho> = Fin \<sigma>'"
        using r \<open>\<not> flag_compat f\<close> a True by (auto simp: nasl_func_call_def andthen_Fin Let_def)
      have "run_keeps F ?s ?body"
        using assms(1) p by (cases "block f") (simp_all add: env_ok_def rk ex_okD [OF assms(2)])
      from run_keepsD [OF this b(1)] have kb: "keeps F ?s \<rho>" .
      then have g: "list_all2 grows (ns_ctxts \<tau>) (tl (ns_ctxts \<rho>))" "ns_next \<tau> \<le> ns_next \<rho>"
        by (auto simp: keeps_def list_all2_Cons1)
      moreover have "ns_ctxts \<tau> \<noteq> []" using ka(1) by (simp add: keeps_def store_ok_def shape_ok_def)
      ultimately have "tl (ns_ctxts \<rho>) \<noteq> []" by auto
      note o = pop_ctxt_ok [OF keeps_ok [OF kb] this b(2)]
      have "keeps F \<tau> \<sigma>'" using o g by (simp add: keeps_def)
      then show ?thesis using keeps_trans [OF ka(1)] by blast
    qed
  qed (use r assms(3) in \<open>simp add: nasl_func_call_def keeps_refl\<close>)
qed

subsection \<open>Nodes\<close>

lemma keeps_then: "keeps F \<sigma> \<tau> \<Longrightarrow> (store_ok F \<tau> \<Longrightarrow> run_keeps F \<tau> m) \<Longrightarrow> run_keeps F \<sigma> m"
  unfolding run_keeps_def using keeps_ok keeps_trans by blast

lemma nasl_return_keeps [rk]: "ex_ok ex \<Longrightarrow> store_ok F \<sigma> \<Longrightarrow> run_keeps F \<sigma> (nasl_return ex k c \<sigma>)"
  unfolding nasl_return_def Let_def by (intro rk_bind rk_Fin set_ret_keeps) (simp_all add: rk split: tree_cell.split)

lemma for_loop_keeps [rk]: "ex_ok ex \<Longrightarrow> store_ok F \<sigma> \<Longrightarrow> run_keeps F \<sigma> (for_loop ex k c e b \<sigma>)"
proof (induction k arbitrary: \<sigma>)
  case (Suc k)
  have "run_keeps F \<tau> (ex e (set_cont False \<tau>))" if "store_ok F \<tau>" for \<tau>
    using keeps_then [OF set_cont_keeps [OF that] ex_okD [OF Suc.prems(1)]] .
  with Suc show ?case by (simp add: rk ex_okD)
qed (simp add: rk)

lemma while_loop_keeps [rk]: "ex_ok ex \<Longrightarrow> store_ok F \<sigma> \<Longrightarrow> run_keeps F \<sigma> (while_loop ex k c b \<sigma>)"
proof (induction k arbitrary: \<sigma>)
  case (Suc k)
  have "run_keeps F \<tau> (while_loop ex k c b (set_cont False \<tau>))" if "store_ok F \<tau>" for \<tau>
    using keeps_then [OF set_cont_keeps [OF that] Suc.IH [OF Suc.prems(1)]] .
  with Suc.prems show ?case by (simp add: rk ex_okD)
qed (simp add: rk)

lemma repeat_loop_keeps [rk]: "ex_ok ex \<Longrightarrow> store_ok F \<sigma> \<Longrightarrow> run_keeps F \<sigma> (repeat_loop ex k c b \<sigma>)"
proof (induction k arbitrary: \<sigma>)
  case (Suc k)
  have "run_keeps F \<tau> (ex b (set_cont False \<tau>))" if "store_ok F \<tau>" for \<tau>
    using keeps_then [OF set_cont_keeps [OF that] ex_okD [OF Suc.prems(1)]] .
  with Suc show ?case by (simp add: rk ex_okD)
qed (simp add: rk)

lemma foreach_loop_keeps [rk]: "ex_ok ex \<Longrightarrow> store_ok F \<sigma> \<Longrightarrow> run_keeps F \<sigma> (foreach_loop ex k v it b \<sigma>)"
proof (induction k arbitrary: it \<sigma>)
  case (Suc k)
  have l: "run_keeps F \<tau> (foreach_loop ex k v it b (set_cont False \<tau>))" if "store_ok F \<tau>" for it \<tau>
    using keeps_then [OF set_cont_keeps [OF that] Suc.IH [OF Suc.prems(1)]] .
  show ?case unfolding foreach_loop.simps
  proof (rule rk_pure)
    fix x :: "tree_cell \<times> nasl_iterator"
    obtain val it' where "x = (val, it')" by fastforce
    with l Suc.prems show "run_keeps F \<sigma> (case x of (val, it) \<Rightarrow> if val = NULL then Fin (FAKE_CELL, \<sigma>) else
      andthen (nasl_affect k v val \<sigma>) (\<lambda>(_, \<sigma>). andthen (ex b \<sigma>) (\<lambda>(_, \<sigma>).
        if ret_val (lexic \<sigma>) \<noteq> NULL then Fin (FAKE_CELL, \<sigma>)
        else if break_flag (lexic \<sigma>) then Fin (FAKE_CELL, set_break False \<sigma>)
        else foreach_loop ex k v it b (set_cont False \<sigma>))))" by (simp add: rk ex_okD)
  qed
qed (simp add: rk)

lemma exec_foreach_keeps [rk]: "ex_ok ex \<Longrightarrow> store_ok F \<sigma> \<Longrightarrow> run_keeps F \<sigma> (exec_foreach ex k s a b \<sigma>)"
  unfolding exec_foreach_def by (simp add: rk ex_okD rk_pure)

lemma times_loop_keeps [rk]: "ex_ok ex \<Longrightarrow> store_ok F \<sigma> \<Longrightarrow> run_keeps F \<sigma> (times_loop ex i b \<sigma>)"
  by (induction i arbitrary: \<sigma>) (simp_all add: rk ex_okD)

lemma exec_repeated_keeps [rk]: "ex_ok ex \<Longrightarrow> store_ok F \<sigma> \<Longrightarrow> run_keeps F \<sigma> (exec_repeated ex k a b \<sigma>)"
  unfolding exec_repeated_def by (simp add: rk)

lemma exec_aff_keeps [rk]: "ex_ok ex \<Longrightarrow> store_ok F \<sigma> \<Longrightarrow> run_keeps F \<sigma> (exec_aff ex k a b \<sigma>)"
  unfolding exec_aff_def by (simp add: rk ex_okD)

lemma exec_op_eq_keeps [rk]: "ex_ok ex \<Longrightarrow> store_ok F \<sigma> \<Longrightarrow> run_keeps F \<sigma> (exec_op_eq ex k q a b \<sigma>)"
  unfolding exec_op_eq_def by (simp add: rk ex_okD)

lemma exec_incr_keeps [rk]: "ex_ok ex \<Longrightarrow> store_ok F \<sigma> \<Longrightarrow> run_keeps F \<sigma> (exec_incr ex x a b \<sigma>)"
  unfolding exec_incr_def by (simp add: rk ex_okD)

lemma exec_if_keeps [rk]: "ex_ok ex \<Longrightarrow> store_ok F \<sigma> \<Longrightarrow> run_keeps F \<sigma> (exec_if ex k c a b \<sigma>)"
  unfolding exec_if_def by (simp add: rk ex_okD)

lemma exec_instr_keeps [rk]: "ex_ok ex \<Longrightarrow> store_ok F \<sigma> \<Longrightarrow> run_keeps F \<sigma> (exec_instr ex a b \<sigma>)"
  unfolding exec_instr_def by (simp add: rk ex_okD)

lemma exec_and_or_keeps [rk]: "ex_ok ex \<Longrightarrow> store_ok F \<sigma> \<Longrightarrow> run_keeps F \<sigma> (exec_and_or ex k b c d \<sigma>)"
  unfolding exec_and_or_def by (simp add: rk)

lemma decl_func_keeps [rk]: "store_ok F \<sigma> \<Longrightarrow> run_keeps F \<sigma> (Fin (decl_nasl_func s a b \<sigma>))"
  by (rule run_keepsI) (auto simp: decl_nasl_func_def insert_nasl_func_def Let_def keeps_refl add_func_keeps split: if_splits)

lemma exec_node_keeps: "env_ok env \<Longrightarrow> ex_ok ex \<Longrightarrow> store_ok F \<sigma> \<Longrightarrow> run_keeps F \<sigma> (exec_node env ex k st \<sigma>)"
  unfolding exec_node_def by (cases st; simp add: rk ex_okD rk_pure)

lemma nasl_exec_ok: "env_ok env \<Longrightarrow> ex_ok (nasl_exec n env)"
proof (induction n)
  case (Suc n)
  have "run_keeps F \<sigma> (nasl_exec (Suc n) env st \<sigma>)" if "store_ok F \<sigma>" for F st \<sigma>
    unfolding nasl_exec.simps(2) [of n env st \<sigma>] Let_def using that Suc by (intro rk_if exec_node_keeps) (simp_all add: rk)
  then show ?case by (simp add: ex_ok_def)
qed (simp add: ex_ok_def rk)

end
