(* ===== verification/NaslLib.thy ===== *)
theory NaslLib
  imports NaslKeep
begin

text \<open>
  The builtin functions of \<open>nasl/nasl_misc_funcs.c\<close> that work on variables, contexts and the control
  flow of a script: \<open>make_list\<close>, \<open>make_array\<close>, \<open>keys\<close>, \<open>max_index\<close>, \<open>typeof\<close>, \<open>isnull\<close>,
  \<open>defined_func\<close> and \<open>exit\<close>. They keep the ownership of variables, so that the environment made of
  them is one for which the interpreter keeps it. The host detail that \<open>exit\<close> registers for its
  value 99 is output.
\<close>

subsection \<open>Arguments\<close>

text \<open>The numbered argument \<open>i\<close> of the call; None behind the last one.\<close>

definition anon_var :: "nat \<Rightarrow> nasl_state \<Rightarrow> addr option" where
  "anon_var i \<sigma> = (let xs = num_elt (ctx_vars (lexic \<sigma>)) in if i < length xs then xs ! i else None)"

definition new_list :: "nasl_state \<Rightarrow> addr \<times> nasl_state" where
  "new_list \<sigma> = alloc_var (VAR2_ARRAY empty_array) \<sigma>"

text \<open>Values appended to the list at \<open>p\<close>; \<open>n\<close> bounds the depth of arrays that are copied.\<close>

definition append_value :: "nat \<Rightarrow> addr \<Rightarrow> anon_nasl_var \<Rightarrow> i32 \<times> nasl_state \<Rightarrow> (i32 \<times> nasl_state) run" where
  "append_value n p v x =
     andthen (add_var_to_list n p (fst x) (Some v) (snd x)) (\<lambda>(r, \<sigma>). Fin (if r \<ge> 1 then fst x + 1 else fst x, \<sigma>))"

text \<open>A NULL element takes the place without moving on.\<close>

primrec append_vars :: "nat \<Rightarrow> addr \<Rightarrow> addr option list \<Rightarrow> i32 \<times> nasl_state \<Rightarrow> (i32 \<times> nasl_state) run" where
  "append_vars n p [] x = Fin x"
| "append_vars n p (y # ys) x =
     andthen (case y of
                None \<Rightarrow> andthen (add_var_to_list n p (fst x) None (snd x)) (\<lambda>(_, \<sigma>). Fin (fst x, \<sigma>))
              | Some q \<Rightarrow> (case ns_heap (snd x) q of None \<Rightarrow> Abort | Some v \<Rightarrow> append_value n p v x)) (append_vars n p ys)"

subsection \<open>Lists and arrays\<close>

text \<open>The named elements that are defined.\<close>

definition defined_names :: "nasl_state \<Rightarrow> nasl_array \<Rightarrow> (string \<times> addr) list" where
  "defined_names \<sigma> a = filter (\<lambda>x. ns_heap \<sigma> (snd x) \<noteq> Some VAR2_UNDEF) (case hash_elt a of None \<Rightarrow> [] | Some es \<Rightarrow> concat es)"

text \<open>
  An array given as an argument is appended element by element; for an undefined argument nothing is
  appended. \<open>k\<close> is the number of arguments that are left.
\<close>

primrec list_args :: "nat \<Rightarrow> addr \<Rightarrow> addr option list \<Rightarrow> i32 \<times> nasl_state \<Rightarrow> (i32 \<times> nasl_state) run" where
  "list_args n p [] x = Fin x"
| "list_args n p (arg # args) x =
     (case arg of
        None \<Rightarrow> Fin x
      | Some q \<Rightarrow>
          (case ns_heap (snd x) q of
             None \<Rightarrow> Abort
           | Some VAR2_UNDEF \<Rightarrow> list_args n p args x
           | Some (VAR2_ARRAY a) \<Rightarrow>
               andthen (append_vars n p (num_elt a @ map (\<lambda>y. Some (snd y)) (defined_names (snd x) a)) x) (list_args n p args)
           | Some v \<Rightarrow> andthen (append_value n p v x) (list_args n p args)))"

definition nasl_make_list :: "nat \<Rightarrow> nasl_state \<Rightarrow> (tree_cell \<times> nasl_state) run" where
  "nasl_make_list n \<sigma> =
     (let (p, \<sigma>) = new_list \<sigma> in
      andthen (list_args n p (num_elt (ctx_vars (lexic \<sigma>))) (0, \<sigma>)) (\<lambda>(_, \<sigma>). Fin (DYN_ARRAY p, \<sigma>)))"

text \<open>Pairs of a key and a value; a value that is an array or undefined is left out.\<close>

definition array_pair :: "nat \<Rightarrow> addr \<Rightarrow> anon_nasl_var \<Rightarrow> anon_nasl_var \<Rightarrow> nasl_state \<Rightarrow> nasl_state run" where
  "array_pair n p key v \<sigma> =
     (if v = VAR2_UNDEF \<or> holds_array (Some v) then Fin \<sigma>
      else
        case key of
          VAR2_INT i \<Rightarrow> andthen (add_var_to_list n p i (Some v) \<sigma>) (\<lambda>(_, \<sigma>). Fin \<sigma>)
        | VAR2_STRING s \<Rightarrow> add_var_to_array n p (case s of None \<Rightarrow> [] | Some t \<Rightarrow> t) v \<sigma>
        | VAR2_DATA s \<Rightarrow> add_var_to_array n p (case s of None \<Rightarrow> [] | Some t \<Rightarrow> t) v \<sigma>
        | _ \<Rightarrow> Fin \<sigma>)"

fun array_args :: "nat \<Rightarrow> addr \<Rightarrow> addr option list \<Rightarrow> nasl_state \<Rightarrow> nasl_state run" where
  "array_args n p (Some k # Some q # args) \<sigma> =
     (case (ns_heap \<sigma> k, ns_heap \<sigma> q) of
        (Some key, Some v) \<Rightarrow> andthen (array_pair n p key v \<sigma>) (array_args n p args)
      | _ \<Rightarrow> Abort)"
| "array_args n p _ \<sigma> = Fin \<sigma>"

definition nasl_make_array :: "nat \<Rightarrow> nasl_state \<Rightarrow> (tree_cell \<times> nasl_state) run" where
  "nasl_make_array n \<sigma> =
     (let (p, \<sigma>) = new_list \<sigma> in
      andthen (array_args n p (num_elt (ctx_vars (lexic \<sigma>))) \<sigma>) (\<lambda>\<sigma>. Fin (DYN_ARRAY p, \<sigma>)))"

primrec append_values :: "addr \<Rightarrow> anon_nasl_var list \<Rightarrow> i32 \<times> nasl_state \<Rightarrow> (i32 \<times> nasl_state) run" where
  "append_values p [] x = Fin x"
| "append_values p (v # vs) x = andthen (append_value 1 p v x) (append_values p vs)"

definition key_values :: "nasl_state \<Rightarrow> nasl_array \<Rightarrow> anon_nasl_var list" where
  "key_values \<sigma> a =
     map (\<lambda>j. VAR2_INT (word_of_nat j)) (filter (\<lambda>j. defined_at \<sigma> (num_elt a ! j)) [0..<length (num_elt a)])
     @ map (\<lambda>x. VAR2_STRING (Some (fst x))) (defined_names \<sigma> a)"

primrec key_args :: "addr \<Rightarrow> addr option list \<Rightarrow> i32 \<times> nasl_state \<Rightarrow> (i32 \<times> nasl_state) run" where
  "key_args p [] x = Fin x"
| "key_args p (arg # args) x =
     (case arg of
        None \<Rightarrow> Fin x
      | Some q \<Rightarrow>
          (case ns_heap (snd x) q of
             None \<Rightarrow> Abort
           | Some (VAR2_ARRAY a) \<Rightarrow> andthen (append_values p (key_values (snd x) a) x) (key_args p args)
           | Some _ \<Rightarrow> key_args p args x))"

definition nasl_keys :: "nasl_state \<Rightarrow> (tree_cell \<times> nasl_state) run" where
  "nasl_keys \<sigma> =
     (let (p, \<sigma>) = new_list \<sigma> in
      andthen (key_args p (num_elt (ctx_vars (lexic \<sigma>))) (0, \<sigma>)) (\<lambda>(_, \<sigma>). Fin (DYN_ARRAY p, \<sigma>)))"

definition nasl_max_index :: "nasl_state \<Rightarrow> (tree_cell \<times> nasl_state) run" where
  "nasl_max_index \<sigma> =
     (case anon_var 0 \<sigma> of
        None \<Rightarrow> Fin (NULL, \<sigma>)
      | Some p \<Rightarrow>
          (case ns_heap \<sigma> p of
             None \<Rightarrow> Abort
           | Some (VAR2_ARRAY a) \<Rightarrow> andthen (array_max_index p \<sigma>) (\<lambda>(i, \<sigma>). Fin (CONST_INT (word_of_nat i), \<sigma>))
           | Some _ \<Rightarrow> Fin (NULL, \<sigma>)))"

subsection \<open>Types and functions\<close>

fun type_name :: "anon_nasl_var \<Rightarrow> string" where
  "type_name VAR2_UNDEF = ''undef''"
| "type_name (VAR2_INT _) = ''int''"
| "type_name (VAR2_STRING _) = ''string''"
| "type_name (VAR2_DATA _) = ''data''"
| "type_name (VAR2_ARRAY _) = ''array''"

definition nasl_typeof :: "nasl_state \<Rightarrow> (tree_cell \<times> nasl_state) run" where
  "nasl_typeof \<sigma> =
     (case anon_var 0 \<sigma> of
        None \<Rightarrow> Fin (CONST_DATA (Some ''null''), \<sigma>)
      | Some p \<Rightarrow> (case ns_heap \<sigma> p of None \<Rightarrow> Abort | Some v \<Rightarrow> Fin (CONST_DATA (Some (type_name v)), \<sigma>)))"

definition nasl_isnull :: "nasl_state \<Rightarrow> (tree_cell \<times> nasl_state) run" where
  "nasl_isnull \<sigma> = andthen (get_var_type_by_num 0 \<sigma>) (\<lambda>(t, \<sigma>). Fin (bool2cell (t = VAR2_UNDEF), \<sigma>))"

definition nasl_defined_func :: "nasl_state \<Rightarrow> (tree_cell \<times> nasl_state) run" where
  "nasl_defined_func \<sigma> =
     andthen (get_str_var_by_num 0 \<sigma>) (\<lambda>(s, \<sigma>).
       case s of
         None \<Rightarrow> Fin (NULL, \<sigma>)
       | Some name \<Rightarrow> Fin (bool2cell (get_func_ref_by_name \<sigma> name \<noteq> None), \<sigma>))"

text \<open>The value is set in all contexts, so that everything ends.\<close>

definition nasl_do_exit :: "nasl_state \<Rightarrow> (tree_cell \<times> nasl_state) run" where
  "nasl_do_exit \<sigma> =
     andthen (get_int_var_by_num 0 0 \<sigma>) (\<lambda>(x, \<sigma>).
       Fin (CONST_INT x, \<sigma>\<lparr>ns_ctxts := map (\<lambda>c. c\<lparr>ret_val := CONST_INT x\<rparr>) (ns_ctxts \<sigma>)\<rparr>))"

text \<open>The table of functions; \<open>rest\<close> are those that are not modelled.\<close>

definition builtin :: "nat \<Rightarrow> (string \<Rightarrow> nasl_state \<Rightarrow> (tree_cell \<times> nasl_state) run) \<Rightarrow> string \<Rightarrow> nasl_state \<Rightarrow> (tree_cell \<times> nasl_state) run" where
  "builtin n rest name =
     (if name = ''make_list'' then nasl_make_list n
      else if name = ''make_array'' then nasl_make_array n
      else if name = ''keys'' then nasl_keys
      else if name = ''max_index'' then nasl_max_index
      else if name = ''typeof'' then nasl_typeof
      else if name = ''isnull'' then nasl_isnull
      else if name = ''defined_func'' then nasl_defined_func
      else if name = ''exit'' then nasl_do_exit
      else rest name)"

subsection \<open>Ownership\<close>

text \<open>A value is copied into a free place of the array at \<open>p\<close>.\<close>

lemma fill_place_keeps:
  assumes "store_ok F \<rho>" and "ns_heap \<rho> p = Some (VAR2_ARRAY b)" and "j < length (num_elt b)" and "num_elt b ! j = None"
    and "alloc_var VAR2_UNDEF \<rho> = (q, \<rho>1)" and "copy_anon_var n q u \<rho>1 = Fin \<rho>2" and "var_ok u"
  shows "keeps F \<rho> (upd_array p (\<lambda>a. a\<lparr>num_elt := (num_elt a)[j := Some q]\<rparr>) \<rho>2)"
proof -
  let ?f = "\<lambda>a. a\<lparr>num_elt := (num_elt a)[j := Some q]\<rparr>"
  note s = store_ok_alloc [OF assms(1,5) undef_kids]
  have cp: "store_ok (F + {#q#} + mset (var_kids VAR2_UNDEF)) \<rho>2 \<and> only_at q \<rho>1 \<rho>2"
    by (rule cp_okD [OF copy_anon_var_ok s(1) _ assms(7,6)]) (simp add: s(2))
  have pq: "p < ns_next \<rho>" using store_ok_dom [OF assms(1,2)] .
  have nx: "ns_next \<rho>1 = Suc (ns_next \<rho>)" using assms(5) by (auto simp: alloc_var_def)
  have o: "only_at p \<rho> \<rho>2" using cp s(2,3,5) nx by (auto simp: only_at_def)
  have hp: "ns_heap \<rho>2 p = Some (VAR2_ARRAY b)" using cp assms(2) s(2,3) pq nx by (auto simp: only_at_def)
  have kn: "mset (kids (?f b)) = mset (kids b) + {#q#}" using kids_num [OF assms(3,4)] .
  have e: "F + mset (kids (?f b)) = F + {#q#} + mset (kids b)" unfolding kn by simp
  have kq: "\<forall>r \<in> set (kids (?f b)). r \<in> set (kids b) \<or> p < r" using arg_cong [OF kn, of set_mset] pq s(3) by auto
  have "store_ok F (upd_array p ?f \<rho>2)"
    by (rule upd_array_ok(1) [where f = ?f, OF _ hp e _ kq]) (use cp in simp_all)
  then show ?thesis using only_at_trans [OF o only_at_upd [of p \<rho>2 ?f]] keeps_only_at by blast
qed

text \<open>The place is emptied and what was there is freed.\<close>

lemma empty_place_keeps:
  fixes xs :: "addr option list"
  defines "old \<equiv> \<lambda>j. case xs ! j of None \<Rightarrow> [] | Some q \<Rightarrow> [q]"
  assumes "store_ok F \<sigma>" and "ns_heap \<sigma> p = Some (VAR2_ARRAY a)" and "grow 8 j (num_elt a) = Fin xs"
    and "\<tau> = set_var p (VAR2_ARRAY (a\<lparr>num_elt := xs[j := None]\<rparr>)) \<sigma>" and "free_vars (Suc (ns_next \<tau>)) (old j) \<tau> = Fin \<rho>"
  shows "keeps F \<sigma> \<rho>" and "ns_heap \<rho> p = Some (VAR2_ARRAY (a\<lparr>num_elt := xs[j := None]\<rparr>))" and "j < length xs"
proof -
  let ?b = "a\<lparr>num_elt := xs[j := None]\<rparr>"
  note k = kids_grow [OF assms(4), of a] and ok = store_ok_array [OF assms(2,3)]
  have kb: "mset (kids ?b) + mset (old j) = mset (kids a)"
  proof (cases "xs ! j")
    case None then show ?thesis using k list_update_id [of xs j] by (simp add: old_def)
  next
    case (Some q)
    have "mset (kids (?b\<lparr>num_elt := (num_elt ?b)[j := Some q]\<rparr>)) = mset (kids ?b) + {#q#}" using kids_num [of j ?b q] k by simp
    then show ?thesis using k Some list_update_id [of xs j] by (simp add: old_def)
  qed
  have sub: "set (kids ?b) \<union> set (old j) = set (kids a)" using arg_cong [OF kb, of set_mset] by auto
  have e: "F + mset (old j) + mset (var_kids (VAR2_ARRAY ?b)) = F + mset (var_kids (VAR2_ARRAY a))"
    unfolding var_kids_def using kb by (simp add: ac_simps)
  have st: "store_ok (F + mset (old j)) \<tau>" unfolding assms(5)
    by (rule store_ok_set [OF assms(2,3) e]) (use ok sub in \<open>auto simp: var_kids_def var_ok_def\<close>)
  note fr = free_vars_ok [OF st assms(6)]
  have p: "\<forall>q \<in> set (old j). p < q" using ok(2) sub by auto
  show "ns_heap \<rho> p = Some (VAR2_ARRAY ?b)"
    using free_vars_above [OF _ p assms(6), of p] st by (simp add: store_ok_def assms(5) set_var_def)
  show "keeps F \<sigma> \<rho>" using fr by (intro keeps_same) (simp_all add: assms(5) set_var_def)
  show "j < length xs" using k by simp
qed

lemma add_list_keeps [rk]:
  assumes "store_ok F \<sigma>" and "\<And>u. v = Some u \<Longrightarrow> var_ok u"
  shows "run_keeps F \<sigma> (add_var_to_list n p i v \<sigma>)"
proof (rule run_keepsI)
  fix r \<sigma>' assume r: "add_var_to_list n p i v \<sigma> = Fin (r, \<sigma>')"
  show "keeps F \<sigma> \<sigma>'"
  proof (cases "sint i < 0")
    case False
    let ?j = "nat (sint i)"
    obtain a where a: "ns_heap \<sigma> p = Some (VAR2_ARRAY a)" "array_at p \<sigma> = Fin a"
      using r False by (auto simp: add_var_to_list_def Let_def andthen_Fin array_at_Fin)
    obtain xs where g: "grow 8 ?j (num_elt a) = Fin xs" using r False a by (auto simp: add_var_to_list_def Let_def andthen_Fin)
    define \<tau> where "\<tau> = set_var p (VAR2_ARRAY (a\<lparr>num_elt := xs[?j := None]\<rparr>)) \<sigma>"
    have rest: "andthen (free_vars (Suc (ns_next \<tau>)) (case xs ! ?j of None \<Rightarrow> [] | Some q \<Rightarrow> [q]) \<tau>) (\<lambda>\<sigma>. case v of None \<Rightarrow> Fin (0, \<sigma>)
        | Some u \<Rightarrow> let (q, \<sigma>) = alloc_var VAR2_UNDEF \<sigma> in
            andthen (copy_anon_var n q u \<sigma>) (\<lambda>\<sigma>. Fin (1, upd_array p (\<lambda>a. a\<lparr>num_elt := (num_elt a)[?j := Some q]\<rparr>) \<sigma>))) = Fin (r, \<sigma>')"
      using r False a g unfolding add_var_to_list_def \<tau>_def Let_def by (simp del: free_vars.simps)
    then obtain \<rho> where f: "free_vars (Suc (ns_next \<tau>)) (case xs ! ?j of None \<Rightarrow> [] | Some q \<Rightarrow> [q]) \<tau> = Fin \<rho>"
      by (auto simp: andthen_Fin simp del: free_vars.simps)
    note e = empty_place_keeps [OF assms(1) a(1) g \<tau>_def f]
    show ?thesis
    proof (cases v)
      case None then show ?thesis using rest f e(1) by (simp del: free_vars.simps)
    next
      case (Some u)
      obtain q \<rho>1 where al: "alloc_var VAR2_UNDEF \<rho> = (q, \<rho>1)" by fastforce
      obtain \<rho>2 where c: "copy_anon_var n q u \<rho>1 = Fin \<rho>2" "\<sigma>' = upd_array p (\<lambda>a. a\<lparr>num_elt := (num_elt a)[?j := Some q]\<rparr>) \<rho>2"
        using rest f Some al by (auto simp: andthen_Fin simp del: free_vars.simps)
      show ?thesis using keeps_trans [OF e(1) fill_place_keeps [OF keeps_ok [OF e(1)] e(2) _ _ al c(1) assms(2) [OF Some]]] e(3) c(2) by simp
    qed
  qed (use r assms(1) in \<open>simp add: add_var_to_list_def keeps_refl\<close>)
qed

lemma add_array_keeps:
  assumes "store_ok F \<sigma>" and "var_ok v" and "add_var_to_array n p s v \<sigma> = Fin \<sigma>'"
  shows "keeps F \<sigma> \<sigma>'"
proof -
  obtain a where a: "ns_heap \<sigma> p = Some (VAR2_ARRAY a)" using assms(3) by (auto simp: add_var_to_array_def andthen_Fin array_at_Fin)
  obtain q \<tau> where al: "alloc_var VAR2_UNDEF \<sigma> = (q, \<tau>)" by fastforce
  let ?b = "push_name a (c_str s) q" and ?r = "set_var p (VAR2_ARRAY (push_name a (c_str s) q)) \<tau>"
  have c: "copy_anon_var n q v ?r = Fin \<sigma>'"
    using assms(3) a al by (simp add: add_var_to_array_def array_at_def)
  have ok: "array_ok a" using store_ok_array(1) [OF assms(1) a] .
  have k: "keeps F \<sigma> ?r"
    by (rule keeps_new_elem [OF assms(1) a _ al]) (use ok in \<open>simp_all add: array_of_def kids_push push_ok\<close>)
  note s = store_ok_alloc [OF assms(1) al undef_kids]
  have "p < q" using store_ok_dom [OF assms(1) a] s(3) by simp
  then have q: "ns_heap ?r q = Some VAR2_UNDEF" using s(2) by (simp add: set_var_def)
  have "store_ok (F + mset (var_kids VAR2_UNDEF)) \<sigma>' \<and> only_at q ?r \<sigma>'"
    by (rule cp_okD [OF copy_anon_var_ok keeps_ok [OF k] q assms(2) c])
  then show ?thesis using keeps_trans [OF k keeps_only_at [of F \<sigma>' q]] by simp
qed

subsection \<open>The builtin functions\<close>

text \<open>A result that carries its state alone.\<close>

lemma rk_state:
  "(\<And>\<tau>. m = Fin \<tau> \<Longrightarrow> keeps F \<sigma> \<tau>) \<Longrightarrow> (\<And>\<tau>. store_ok F \<tau> \<Longrightarrow> run_keeps F \<tau> (f \<tau>)) \<Longrightarrow> run_keeps F \<sigma> (andthen m f)"
  unfolding run_keeps_def by (auto simp: andthen_Fin) (meson keeps_ok keeps_trans)

lemma rk_state_bind:
  "run_keeps F \<sigma> m \<Longrightarrow> (\<And>r \<tau>. store_ok F \<tau> \<Longrightarrow> run_keeps F \<tau> (f (r, \<tau>))) \<Longrightarrow> run_keeps F \<sigma> (andthen m f)"
  unfolding run_keeps_def by (auto simp: andthen_Fin) (meson keeps_ok keeps_trans)

lemma append_value_keeps: "store_ok F \<sigma> \<Longrightarrow> var_ok v \<Longrightarrow> run_keeps F \<sigma> (append_value n p v (i, \<sigma>))"
  unfolding append_value_def by (rule rk_state_bind) (auto simp: rk intro: add_list_keeps)

lemma append_none_keeps: "store_ok F \<sigma> \<Longrightarrow> run_keeps F \<sigma> (andthen (add_var_to_list n p i None \<sigma>) (\<lambda>(_, \<sigma>). Fin (j, \<sigma>)))"
  by (rule rk_state_bind) (auto simp: rk intro: add_list_keeps)

lemma append_vars_keeps: "store_ok F \<sigma> \<Longrightarrow> run_keeps F \<sigma> (append_vars n p ys (i, \<sigma>))"
proof (induction ys arbitrary: i \<sigma>)
  case (Cons y ys)
  show ?case unfolding append_vars.simps
    by (rule rk_state_bind [OF _ Cons.IH])
      (use Cons.prems append_none_keeps append_value_keeps store_ok_var in \<open>auto simp: rk split: option.split\<close>)
qed (simp add: rk)

lemma list_args_keeps: "store_ok F \<sigma> \<Longrightarrow> run_keeps F \<sigma> (list_args n p args (i, \<sigma>))"
proof (induction args arbitrary: i \<sigma>)
  case (Cons arg args)
  have "run_keeps F \<sigma> (andthen (append_value n p v (i, \<sigma>)) (list_args n p args))" if "var_ok v" for v
    by (rule rk_state_bind [OF append_value_keeps [OF Cons.prems that] Cons.IH])
  moreover have "run_keeps F \<sigma> (andthen (append_vars n p ys (i, \<sigma>)) (list_args n p args))" for ys
    by (rule rk_state_bind [OF append_vars_keeps [OF Cons.prems] Cons.IH])
  ultimately show ?case using Cons by (auto simp: rk split: option.split anon_nasl_var.split)
qed (simp add: rk)

lemma append_values_keeps: "store_ok F \<sigma> \<Longrightarrow> \<forall>v \<in> set vs. var_ok v \<Longrightarrow> run_keeps F \<sigma> (append_values p vs (i, \<sigma>))"
proof (induction vs arbitrary: i \<sigma>)
  case (Cons v vs)
  show ?case unfolding append_values.simps
    by (rule rk_state_bind [OF append_value_keeps Cons.IH]) (use Cons.prems in auto)
qed (simp add: rk)

lemma key_values_ok: "\<forall>v \<in> set (key_values \<sigma> a). var_ok v"
  by (auto simp: key_values_def)

lemma key_args_keeps: "store_ok F \<sigma> \<Longrightarrow> run_keeps F \<sigma> (key_args p args (i, \<sigma>))"
proof (induction args arbitrary: i \<sigma>)
  case (Cons arg args)
  have "run_keeps F \<sigma> (andthen (append_values p (key_values \<sigma> a) (i, \<sigma>)) (key_args p args))" for a
    by (rule rk_state_bind [OF append_values_keeps [OF Cons.prems key_values_ok] Cons.IH])
  then show ?case using Cons by (auto simp: rk split: option.split anon_nasl_var.split)
qed (simp add: rk)

lemma array_pair_keeps:
  assumes "store_ok F \<sigma>" and "var_ok v" and "array_pair n p key v \<sigma> = Fin \<sigma>'"
  shows "keeps F \<sigma> \<sigma>'"
  using assms run_keepsD [OF add_list_keeps [OF assms(1), of "Some v"]] add_array_keeps [OF assms(1,2)]
  by (cases key) (auto simp: array_pair_def andthen_Fin keeps_refl split: if_splits)

lemma array_args_keeps:
  "store_ok F \<sigma> \<Longrightarrow> array_args n p args \<sigma> = Fin \<sigma>' \<Longrightarrow> keeps F \<sigma> \<sigma>'"
proof (induction n p args \<sigma> rule: array_args.induct)
  case (1 n p k q args \<sigma>)
  obtain key v where h: "ns_heap \<sigma> k = Some key" "ns_heap \<sigma> q = Some v" using 1(3) by (auto split: option.splits)
  then obtain \<tau> where t: "array_pair n p key v \<sigma> = Fin \<tau>" "array_args n p args \<tau> = Fin \<sigma>'" using 1(3) by (auto simp: andthen_Fin)
  note k = array_pair_keeps [OF 1(2) store_ok_var [OF 1(2) h(2)] t(1)]
  show ?case by (rule keeps_trans [OF k 1(1) [OF _ _ _ t(1) keeps_ok [OF k] t(2)]]) (simp_all add: h)
qed (simp_all add: keeps_refl)

lemma new_list_keeps: "store_ok F \<sigma> \<Longrightarrow> new_list \<sigma> = (p, \<tau>) \<Longrightarrow> keeps F \<sigma> \<tau>"
  using alloc_keeps [of F \<sigma> "VAR2_ARRAY empty_array" p \<tau>] keeps_weaken [of "add_mset p F" \<sigma> \<tau> F]
  by (simp add: new_list_def var_kids_def var_ok_def empty_array_def kids_def array_ok_def)

lemma rk_new_list:
  assumes "store_ok F \<sigma>" and "\<And>p \<tau>. store_ok F \<tau> \<Longrightarrow> run_keeps F \<tau> (f p \<tau>)"
  shows "run_keeps F \<sigma> (case new_list \<sigma> of (p, \<tau>) \<Rightarrow> f p \<tau>)"
proof (rule run_keepsI)
  fix r \<sigma>' assume r: "(case new_list \<sigma> of (p, \<tau>) \<Rightarrow> f p \<tau>) = Fin (r, \<sigma>')"
  obtain p \<tau> where n: "new_list \<sigma> = (p, \<tau>)" by fastforce
  note k = new_list_keeps [OF assms(1) n]
  show "keeps F \<sigma> \<sigma>'" using keeps_trans [OF k run_keepsD [OF assms(2) [OF keeps_ok [OF k]]]] r n by simp
qed

lemma make_list_keeps:
  assumes "store_ok F \<sigma>"
  shows "run_keeps F \<sigma> (nasl_make_list n \<sigma>)"
  unfolding nasl_make_list_def Let_def
proof (rule rk_new_list [OF assms])
  fix p \<tau> assume "store_ok F \<tau>"
  then show "run_keeps F \<tau> (andthen (list_args n p (num_elt (ctx_vars (lexic \<tau>))) (0, \<tau>)) (\<lambda>(_, \<sigma>). Fin (DYN_ARRAY p, \<sigma>)))"
    by (rule rk_state_bind [OF list_args_keeps]) (simp add: rk)
qed

lemma make_array_keeps:
  assumes "store_ok F \<sigma>"
  shows "run_keeps F \<sigma> (nasl_make_array n \<sigma>)"
  unfolding nasl_make_array_def Let_def
proof (rule rk_new_list [OF assms])
  fix p \<tau> assume "store_ok F \<tau>"
  then show "run_keeps F \<tau> (andthen (array_args n p (num_elt (ctx_vars (lexic \<tau>))) \<tau>) (\<lambda>\<sigma>. Fin (DYN_ARRAY p, \<sigma>)))"
    by (rule rk_state [OF array_args_keeps]) (simp_all add: rk)
qed

lemma keys_keeps:
  assumes "store_ok F \<sigma>"
  shows "run_keeps F \<sigma> (nasl_keys \<sigma>)"
  unfolding nasl_keys_def Let_def
proof (rule rk_new_list [OF assms])
  fix p \<tau> assume "store_ok F \<tau>"
  then show "run_keeps F \<tau> (andthen (key_args p (num_elt (ctx_vars (lexic \<tau>))) (0, \<tau>)) (\<lambda>(_, \<sigma>). Fin (DYN_ARRAY p, \<sigma>)))"
    by (rule rk_state_bind [OF key_args_keeps]) (simp add: rk)
qed

text \<open>Elements behind the last defined one leave the array without being freed.\<close>

lemma cut_kids: "mset (kids (a\<lparr>num_elt := rev (dropWhile P (rev (num_elt a)))\<rparr>)) \<subseteq># mset (kids a)"
proof -
  let ?xs = "num_elt a" and ?ys = "rev (dropWhile P (rev (num_elt a)))"
  have "?xs = ?ys @ rev (takeWhile P (rev ?xs))" by (metis rev_append rev_rev_ident takeWhile_dropWhile_id)
  then have "kids a = kids (a\<lparr>num_elt := ?ys @ rev (takeWhile P (rev ?xs))\<rparr>)" by (metis nasl_array.surjective nasl_array.update_convs(1))
  then show ?thesis by (simp add: kids_def)
qed

lemma max_index_keeps:
  assumes "store_ok F \<sigma>"
  shows "run_keeps F \<sigma> (array_max_index p \<sigma>)"
proof (rule run_keepsI)
  fix r \<sigma>' assume r: "array_max_index p \<sigma> = Fin (r, \<sigma>')"
  then obtain a where a: "ns_heap \<sigma> p = Some (VAR2_ARRAY a)" "array_at p \<sigma> = Fin a"
    by (auto simp: array_max_index_def andthen_Fin array_at_Fin)
  let ?b = "a\<lparr>num_elt := rev (dropWhile (\<lambda>x. \<not> defined_at \<sigma> x) (rev (num_elt a)))\<rparr>"
  have s: "\<sigma>' = \<sigma> \<or> \<sigma>' = set_var p (VAR2_ARRAY ?b) \<sigma>" using r a by (auto simp: array_max_index_def Let_def split: if_splits)
  obtain M where m: "mset (kids a) = mset (kids ?b) + M" using cut_kids [of "\<lambda>x. \<not> defined_at \<sigma> x" a] by (auto simp: subset_mset.le_iff_add)
  have sub: "set (kids ?b) \<subseteq> set (kids a)" using arg_cong [OF m, of set_mset] by auto
  have "store_ok (F + M) (set_var p (VAR2_ARRAY ?b) \<sigma>)"
    by (rule store_ok_set [OF assms a(1)]) (use m sub store_ok_array [OF assms a(1)] in \<open>auto simp: var_kids_def var_ok_def\<close>)
  then have "keeps F \<sigma> (set_var p (VAR2_ARRAY ?b) \<sigma>)"
    using keeps_weaken [OF keeps_only_at [of "F + M" _ p]] by simp
  then show "keeps F \<sigma> \<sigma>'" using s assms keeps_refl by blast
qed

lemma nasl_max_index_keeps: "store_ok F \<sigma> \<Longrightarrow> run_keeps F \<sigma> (nasl_max_index \<sigma>)"
  unfolding nasl_max_index_def using max_index_keeps by (auto simp: rk split: option.split anon_nasl_var.split)

lemma typeof_keeps: "store_ok F \<sigma> \<Longrightarrow> run_keeps F \<sigma> (nasl_typeof \<sigma>)"
  unfolding nasl_typeof_def by (simp add: rk split: option.split)

lemma isnull_keeps: "store_ok F \<sigma> \<Longrightarrow> run_keeps F \<sigma> (nasl_isnull \<sigma>)"
  unfolding nasl_isnull_def get_var_type_by_num_def by (auto simp: rk split: option.split)

lemma defined_func_keeps: "store_ok F \<sigma> \<Longrightarrow> run_keeps F \<sigma> (nasl_defined_func \<sigma>)"
  unfolding nasl_defined_func_def get_str_var_by_num_def by (auto simp: rk split: option.split)

lemma exit_ctxts_keeps:
  assumes "store_ok F \<sigma>"
  shows "keeps F \<sigma> (\<sigma>\<lparr>ns_ctxts := map (\<lambda>c. c\<lparr>ret_val := r\<rparr>) (ns_ctxts \<sigma>)\<rparr>)" (is "keeps F \<sigma> ?s")
proof -
  have "store_ok F ?s"
    using store_ok_ctxt_ok [OF assms] assms
    by (intro store_ok_swap [OF assms]) (auto simp: roots_def o_def store_ok_def shape_ok_def)
  then show ?thesis by (simp add: keeps_def list_all2_map2 list_all2_refl)
qed

lemma do_exit_keeps:
  assumes "store_ok F \<sigma>"
  shows "run_keeps F \<sigma> (nasl_do_exit \<sigma>)"
proof -
  have "run_keeps F \<sigma> (get_int_var_by_num 0 0 \<sigma>)"
    unfolding get_int_var_by_num_def by (intro rk_bind rk_pure) (use assms in \<open>auto simp: rk\<close>)
  then show ?thesis unfolding nasl_do_exit_def by (rule rk_bind) (simp add: rk exit_ctxts_keeps)
qed

lemmas builtin_keeps = make_list_keeps make_array_keeps keys_keeps nasl_max_index_keeps typeof_keeps isnull_keeps
  defined_func_keeps do_exit_keeps

text \<open>The environment of the modelled functions is one that the interpreter may be run with.\<close>

lemma env_ok_builtin:
  assumes "\<And>F name \<sigma>. store_ok F \<sigma> \<Longrightarrow> run_keeps F \<sigma> (rest name \<sigma>)"
  shows "env_ok (env\<lparr>c_funcs := builtin n rest\<rparr>)"
  using assms unfolding env_ok_def builtin_def by (simp add: builtin_keeps)

end
