(* ===== verification/NaslMono.thy ===== *)
theory NaslMono
  imports NaslExec
begin

text \<open>
  More steps do not change a result of the interpreter: every function of \<open>NaslVar\<close> and \<open>NaslExec\<close>
  that takes a number of steps, or the execution of nodes as an argument, is monotone with respect
  to \<open>le_run\<close>, in which \<open>Timeout\<close> lies below everything.
\<close>

named_theorems run_mono \<open>monotonicity of the functions of the interpreter\<close>

definition le_run :: "'a run \<Rightarrow> 'a run \<Rightarrow> bool" where
  "le_run m m' \<longleftrightarrow> m = Timeout \<or> m = m'"

definition le_ex :: "exec_fun \<Rightarrow> exec_fun \<Rightarrow> bool" where
  "le_ex ex ex' \<longleftrightarrow> (\<forall>c \<sigma>. le_run (ex c \<sigma>) (ex' c \<sigma>))"

lemma le_run_refl [run_mono]: "le_run m m"
  by (simp add: le_run_def)

lemma le_run_Timeout [run_mono]: "le_run Timeout m"
  by (simp add: le_run_def)

lemma le_run_trans: "le_run a b \<Longrightarrow> le_run b c \<Longrightarrow> le_run a c"
  by (auto simp: le_run_def)

lemma le_ex_run: "le_ex ex ex' \<Longrightarrow> le_run (ex c \<sigma>) (ex' c \<sigma>)"
  by (simp add: le_ex_def)

lemma andthen_mono [run_mono]: "le_run m m' \<Longrightarrow> (\<And>x. le_run (f x) (f' x)) \<Longrightarrow> le_run (andthen m f) (andthen m' f')"
  unfolding le_run_def by (cases m') (auto, metis)

lemma if_mono [run_mono]: "(b \<Longrightarrow> le_run m m') \<Longrightarrow> (\<not> b \<Longrightarrow> le_run r r') \<Longrightarrow> le_run (if b then m else r) (if b then m' else r')"
  by simp

lemma option_mono [run_mono]:
  "le_run m m' \<Longrightarrow> (\<And>y. le_run (f y) (f' y)) \<Longrightarrow> le_run (case x of None \<Rightarrow> m | Some y \<Rightarrow> f y) (case x of None \<Rightarrow> m' | Some y \<Rightarrow> f' y)"
  by (simp split: option.split)

lemma prod_mono [run_mono]: "(\<And>a b. le_run (f a b) (f' a b)) \<Longrightarrow> le_run (case x of (a, b) \<Rightarrow> f a b) (case x of (a, b) \<Rightarrow> f' a b)"
  by (simp split: prod.split)

lemma let_mono [run_mono]: "(\<And>y. le_run (f y) (f' y)) \<Longrightarrow> le_run (let y = x in f y) (let y = x in f' y)"
  by simp

subsection \<open>Variables\<close>

definition le_cp :: "(addr \<Rightarrow> anon_nasl_var \<Rightarrow> nasl_state \<Rightarrow> nasl_state run) \<Rightarrow> (addr \<Rightarrow> anon_nasl_var \<Rightarrow> nasl_state \<Rightarrow> nasl_state run) \<Rightarrow> bool" where
  "le_cp cp cp' \<longleftrightarrow> (\<forall>p v \<sigma>. le_run (cp p v \<sigma>) (cp' p v \<sigma>))"

lemma le_cp_run: "le_cp cp cp' \<Longrightarrow> le_run (cp p v \<sigma>) (cp' p v \<sigma>)"
  by (simp add: le_cp_def)

lemma dup_anon_var_mono [run_mono]: "le_cp cp cp' \<Longrightarrow> le_run (dup_anon_var cp x \<sigma>) (dup_anon_var cp' x \<sigma>)"
  unfolding dup_anon_var_def by (intro run_mono le_cp_run)

lemma copy_nums_mono [run_mono]: "le_cp cp cp' \<Longrightarrow> le_run (copy_nums cp p i xs \<sigma>) (copy_nums cp' p i xs \<sigma>)"
  by (induction xs arbitrary: i \<sigma>) (simp_all add: run_mono)

lemma copy_chain_mono [run_mono]: "le_cp cp cp' \<Longrightarrow> le_run (copy_chain cp p i xs \<sigma>) (copy_chain cp' p i xs \<sigma>)"
  by (induction xs arbitrary: i \<sigma>) (simp_all add: run_mono)

lemma copy_chains_mono [run_mono]: "le_cp cp cp' \<Longrightarrow> le_run (copy_chains cp p i xs \<sigma>) (copy_chains cp' p i xs \<sigma>)"
  by (induction xs arbitrary: i \<sigma>) (simp_all add: run_mono)

lemma copy_array_mono [run_mono]: "le_cp cp cp' \<Longrightarrow> le_run (copy_array cp p a b \<sigma>) (copy_array cp' p a b \<sigma>)"
  unfolding copy_array_def by (intro run_mono)

lemma copy_anon_var_Suc: "le_cp (copy_anon_var n) (copy_anon_var (Suc n))"
proof (induction n)
  case (Suc n)
  have "le_run (copy_anon_var (Suc n) p v \<sigma>) (copy_anon_var (Suc (Suc n)) p v \<sigma>)" for p v \<sigma>
    by (cases v) (simp_all only: copy_anon_var.simps anon_nasl_var.case run_mono copy_array_mono [OF Suc.IH])
  then show ?case by (simp add: le_cp_def)
qed (simp add: le_cp_def run_mono)

lemma copy_anon_var_mono [run_mono]: "n \<le> m \<Longrightarrow> le_cp (copy_anon_var n) (copy_anon_var m)"
proof (induction m rule: dec_induct)
  case (step m)
  then show ?case using copy_anon_var_Suc [of m] unfolding le_cp_def by (blast intro: le_run_trans)
qed (simp add: le_cp_def run_mono)

lemma copy_anon_var_mono' [run_mono]: "n \<le> m \<Longrightarrow> le_run (copy_anon_var n p v \<sigma>) (copy_anon_var m p v \<sigma>)"
  by (intro le_cp_run run_mono)

lemma new_array_mono [run_mono]: "n \<le> m \<Longrightarrow> le_run (new_array n a b \<sigma>) (new_array m a b \<sigma>)"
  unfolding new_array_def by (intro run_mono)

lemma copy_ref_array_mono [run_mono]: "n \<le> m \<Longrightarrow> le_run (copy_ref_array n c \<sigma>) (copy_ref_array m c \<sigma>)"
  unfolding copy_ref_array_def by (cases c) (simp_all add: run_mono)

lemma get_variable_by_name_mono [run_mono]: "n \<le> m \<Longrightarrow> le_run (get_variable_by_name n s \<sigma>) (get_variable_by_name m s \<sigma>)"
  unfolding get_variable_by_name_def by (intro run_mono)

lemma assign_mono [run_mono]: "(\<And>\<sigma>. le_run (f \<sigma>) (f' \<sigma>)) \<Longrightarrow> le_run (assign f p \<sigma>) (assign f' p \<sigma>)"
  unfolding assign_def by (intro run_mono)

lemma affect_mono [run_mono]: "n \<le> m \<Longrightarrow> le_run (affect_to_anon_var n v r \<sigma>) (affect_to_anon_var m v r \<sigma>)"
  unfolding affect_to_anon_var_def by (cases v; cases r; simp add: run_mono)

lemma nasl_affect_mono [run_mono]: "n \<le> m \<Longrightarrow> le_run (nasl_affect n l r \<sigma>) (nasl_affect m l r \<sigma>)"
  unfolding nasl_affect_def by (cases l) (simp_all add: run_mono)

lemma create_anon_var_mono [run_mono]: "n \<le> m \<Longrightarrow> le_run (create_anon_var n v \<sigma>) (create_anon_var m v \<sigma>)"
  unfolding create_anon_var_def by (intro run_mono)

lemma add_named_mono [run_mono]: "n \<le> m \<Longrightarrow> le_run (add_named_var_to_ctxt n c s v \<sigma>) (add_named_var_to_ctxt m c s v \<sigma>)"
  unfolding add_named_var_to_ctxt_def by (intro run_mono)

lemma add_numbered_mono [run_mono]: "n \<le> m \<Longrightarrow> le_run (add_numbered_var_to_ctxt n c i v \<sigma>) (add_numbered_var_to_ctxt m c i v \<sigma>)"
  unfolding add_numbered_var_to_ctxt_def Let_def
  by (intro run_mono) (auto split: anon_nasl_var.split intro!: run_mono)

subsection \<open>Execution\<close>

lemma cell2bool_mono [run_mono]: "le_ex ex ex' \<Longrightarrow> k \<le> k' \<Longrightarrow> le_run (cell2bool ex k c \<sigma>) (cell2bool ex' k' c \<sigma>)"
proof (induction k arbitrary: k' c \<sigma>)
  case (Suc k)
  then obtain m where "k' = Suc m" "k \<le> m" by (cases k') auto
  with Suc show ?case by (cases c; simp add: run_mono le_ex_run)
qed (simp add: run_mono)

lemma cell2int3_mono [run_mono]: "le_ex ex ex' \<Longrightarrow> k \<le> k' \<Longrightarrow> le_run (cell2int3 ex k c \<sigma>) (cell2int3 ex' k' c \<sigma>)"
proof (induction k arbitrary: k' c \<sigma>)
  case (Suc k)
  then obtain m where "k' = Suc m" "k \<le> m" by (cases k') auto
  with Suc show ?case by (cases c; simp add: run_mono le_ex_run)
qed (simp add: run_mono)

lemma cell2str_mono [run_mono]: "le_ex ex ex' \<Longrightarrow> k \<le> k' \<Longrightarrow> le_run (cell2str ex k c \<sigma>) (cell2str ex' k' c \<sigma>)"
proof (induction k arbitrary: k' c \<sigma>)
  case (Suc k)
  then obtain m where "k' = Suc m" "k \<le> m" by (cases k') auto
  with Suc show ?case by (cases c; simp add: run_mono le_ex_run)
qed (simp add: run_mono)

lemma cell2atom_mono [run_mono]: "le_ex ex ex' \<Longrightarrow> k \<le> k' \<Longrightarrow> le_run (cell2atom ex k c \<sigma>) (cell2atom ex' k' c \<sigma>)"
proof (induction k arbitrary: k' c \<sigma>)
  case (Suc k)
  then obtain m where "k' = Suc m" "k \<le> m" by (cases k') auto
  with Suc show ?case by (simp add: run_mono le_ex_run)
qed (simp add: run_mono)

lemma cell_cmp_mono [run_mono]: "le_ex ex ex' \<Longrightarrow> k \<le> k' \<Longrightarrow> le_run (cell_cmp ex k a b \<sigma>) (cell_cmp ex' k' a b \<sigma>)"
  unfolding cell_cmp_def by (simp add: run_mono)

lemma exec_int_op_mono [run_mono]: "le_ex ex ex' \<Longrightarrow> k \<le> k' \<Longrightarrow> le_run (exec_int_op ex k q a b \<sigma>) (exec_int_op ex' k' q a b \<sigma>)"
  unfolding exec_int_op_def by (simp add: run_mono)

lemma operand_mono [run_mono]: "le_ex ex ex' \<Longrightarrow> k \<le> k' \<Longrightarrow> le_run (operand ex k c \<sigma>) (operand ex' k' c \<sigma>)"
  unfolding operand_def by (cases c; simp add: run_mono)

lemma atom_type_mono [run_mono]:
  "(\<And>t. le_run (f t) (f' t)) \<Longrightarrow> le_run m m' \<Longrightarrow> le_run r r'
   \<Longrightarrow> le_run (case x of None \<Rightarrow> r | Some T_INT \<Rightarrow> m | Some t \<Rightarrow> f t) (case x of None \<Rightarrow> r' | Some T_INT \<Rightarrow> m' | Some t \<Rightarrow> f' t)"
  by (simp split: option.split atom_type.split)

lemma exec_plus_mono [run_mono]: "le_ex ex ex' \<Longrightarrow> k \<le> k' \<Longrightarrow> le_run (exec_plus ex k a b \<sigma>) (exec_plus ex' k' a b \<sigma>)"
  unfolding exec_plus_def
  by (intro andthen_mono prod_mono if_mono atom_type_mono) (simp_all add: run_mono split: tree_cell.split)

lemma exec_minus_mono [run_mono]: "le_ex ex ex' \<Longrightarrow> k \<le> k' \<Longrightarrow> le_run (exec_minus ex k a b \<sigma>) (exec_minus ex' k' a b \<sigma>)"
  unfolding exec_minus_def
  by (intro andthen_mono prod_mono if_mono atom_type_mono) (simp_all add: run_mono)

lemma match_operand_mono [run_mono]: "le_ex ex ex' \<Longrightarrow> k \<le> k' \<Longrightarrow> le_run (match_operand ex k c \<sigma>) (match_operand ex' k' c \<sigma>)"
  unfolding match_operand_def by (simp add: run_mono)

lemma exec_match_mono [run_mono]: "le_ex ex ex' \<Longrightarrow> k \<le> k' \<Longrightarrow> le_run (exec_match ex k pos a b \<sigma>) (exec_match ex' k' pos a b \<sigma>)"
  unfolding exec_match_def by (simp add: run_mono)

lemma exec_re_match_mono [run_mono]: "le_ex ex ex' \<Longrightarrow> k \<le> k' \<Longrightarrow> le_run (exec_re_match env ex k pos re a \<sigma>) (exec_re_match env ex' k' pos re a \<sigma>)"
  unfolding exec_re_match_def by (simp add: run_mono)

lemma call_args_mono [run_mono]:
  "le_ex ex ex' \<Longrightarrow> k \<le> k' \<Longrightarrow> le_run (call_args ex k t i c \<sigma>) (call_args ex' k' t i c \<sigma>)"
  by (induction t arbitrary: i c \<sigma>) (simp_all add: run_mono)

lemma code_mono [run_mono]:
  "(\<And>b. le_run (f b) (f' b)) \<Longrightarrow> le_run (case x of Block b \<Rightarrow> f b | C_code s \<Rightarrow> g s) (case x of Block b \<Rightarrow> f' b | C_code s \<Rightarrow> g s)"
  by (simp add: run_mono split: code.split)

lemma nasl_func_call_mono [run_mono]:
  "le_ex ex ex' \<Longrightarrow> k \<le> k' \<Longrightarrow> le_run (nasl_func_call env ex k f t \<sigma>) (nasl_func_call env ex' k' f t \<sigma>)"
  unfolding nasl_func_call_def by (simp add: run_mono le_ex_run)

lemma nasl_return_mono [run_mono]: "le_ex ex ex' \<Longrightarrow> k \<le> k' \<Longrightarrow> le_run (nasl_return ex k c \<sigma>) (nasl_return ex' k' c \<sigma>)"
  unfolding nasl_return_def Let_def by (intro andthen_mono prod_mono) (simp_all add: run_mono split: tree_cell.split)

lemma for_loop_mono [run_mono]: "le_ex ex ex' \<Longrightarrow> k \<le> k' \<Longrightarrow> le_run (for_loop ex k c e b \<sigma>) (for_loop ex' k' c e b \<sigma>)"
proof (induction k arbitrary: k' \<sigma>)
  case (Suc k)
  then obtain m where "k' = Suc m" "k \<le> m" by (cases k') auto
  with Suc show ?case by (simp add: run_mono le_ex_run)
qed (simp add: run_mono)

lemma while_loop_mono [run_mono]: "le_ex ex ex' \<Longrightarrow> k \<le> k' \<Longrightarrow> le_run (while_loop ex k c b \<sigma>) (while_loop ex' k' c b \<sigma>)"
proof (induction k arbitrary: k' \<sigma>)
  case (Suc k)
  then obtain m where "k' = Suc m" "k \<le> m" by (cases k') auto
  with Suc show ?case by (simp add: run_mono le_ex_run)
qed (simp add: run_mono)

lemma repeat_loop_mono [run_mono]: "le_ex ex ex' \<Longrightarrow> k \<le> k' \<Longrightarrow> le_run (repeat_loop ex k c b \<sigma>) (repeat_loop ex' k' c b \<sigma>)"
proof (induction k arbitrary: k' \<sigma>)
  case (Suc k)
  then obtain m where "k' = Suc m" "k \<le> m" by (cases k') auto
  with Suc show ?case by (simp add: run_mono le_ex_run)
qed (simp add: run_mono)

lemma foreach_loop_mono [run_mono]: "le_ex ex ex' \<Longrightarrow> k \<le> k' \<Longrightarrow> le_run (foreach_loop ex k v it b \<sigma>) (foreach_loop ex' k' v it b \<sigma>)"
proof (induction k arbitrary: k' it \<sigma>)
  case (Suc k)
  then obtain m where "k' = Suc m" "k \<le> m" by (cases k') auto
  with Suc show ?case by (simp add: run_mono le_ex_run)
qed (simp add: run_mono)

lemma exec_foreach_mono [run_mono]: "le_ex ex ex' \<Longrightarrow> k \<le> k' \<Longrightarrow> le_run (exec_foreach ex k s a b \<sigma>) (exec_foreach ex' k' s a b \<sigma>)"
  unfolding exec_foreach_def by (simp add: run_mono le_ex_run)

lemma times_loop_mono [run_mono]: "le_ex ex ex' \<Longrightarrow> le_run (times_loop ex i b \<sigma>) (times_loop ex' i b \<sigma>)"
  by (induction i arbitrary: \<sigma>) (simp_all add: run_mono le_ex_run)

lemma exec_repeated_mono [run_mono]: "le_ex ex ex' \<Longrightarrow> k \<le> k' \<Longrightarrow> le_run (exec_repeated ex k a b \<sigma>) (exec_repeated ex' k' a b \<sigma>)"
  unfolding exec_repeated_def by (simp add: run_mono)

lemma exec_aff_mono [run_mono]: "le_ex ex ex' \<Longrightarrow> k \<le> k' \<Longrightarrow> le_run (exec_aff ex k a b \<sigma>) (exec_aff ex' k' a b \<sigma>)"
  unfolding exec_aff_def by (simp add: run_mono le_ex_run)

lemma exec_op_eq_mono [run_mono]: "le_ex ex ex' \<Longrightarrow> k \<le> k' \<Longrightarrow> le_run (exec_op_eq ex k q a b \<sigma>) (exec_op_eq ex' k' q a b \<sigma>)"
  unfolding exec_op_eq_def by (simp add: run_mono le_ex_run)

lemma exec_incr_mono [run_mono]: "le_ex ex ex' \<Longrightarrow> le_run (exec_incr ex x a b \<sigma>) (exec_incr ex' x a b \<sigma>)"
  unfolding exec_incr_def by (simp add: run_mono le_ex_run)

lemma exec_if_mono [run_mono]: "le_ex ex ex' \<Longrightarrow> k \<le> k' \<Longrightarrow> le_run (exec_if ex k c a b \<sigma>) (exec_if ex' k' c a b \<sigma>)"
  unfolding exec_if_def by (simp add: run_mono le_ex_run)

lemma exec_instr_mono [run_mono]: "le_ex ex ex' \<Longrightarrow> le_run (exec_instr ex a b \<sigma>) (exec_instr ex' a b \<sigma>)"
  unfolding exec_instr_def by (simp add: run_mono le_ex_run)

lemma exec_and_or_mono [run_mono]: "le_ex ex ex' \<Longrightarrow> k \<le> k' \<Longrightarrow> le_run (exec_and_or ex k s a b \<sigma>) (exec_and_or ex' k' s a b \<sigma>)"
  unfolding exec_and_or_def by (simp add: run_mono)

lemma exec_node_mono: "le_ex ex ex' \<Longrightarrow> k \<le> k' \<Longrightarrow> le_run (exec_node env ex k st \<sigma>) (exec_node env ex' k' st \<sigma>)"
  unfolding exec_node_def by (cases st; simp add: run_mono le_ex_run)

lemma nasl_exec_Suc: "le_ex (nasl_exec n env) (nasl_exec (Suc n) env)"
proof (induction n)
  case (Suc n)
  have "le_run (nasl_exec (Suc n) env c \<sigma>) (nasl_exec (Suc (Suc n)) env c \<sigma>)" for c \<sigma>
    unfolding nasl_exec.simps(2) [of n env c \<sigma>] nasl_exec.simps(2) [of "Suc n" env c \<sigma>] Let_def
    by (intro if_mono le_run_refl exec_node_mono [OF Suc.IH]) simp
  then show ?case by (simp add: le_ex_def)
qed (simp add: le_ex_def run_mono)

lemma nasl_exec_mono: "n \<le> m \<Longrightarrow> le_ex (nasl_exec n env) (nasl_exec m env)"
proof (induction m rule: dec_induct)
  case (step m)
  then show ?case using nasl_exec_Suc [of m env] unfolding le_ex_def by (blast intro: le_run_trans)
qed (simp add: le_ex_def run_mono)



end
