(* ===== verification/NaslCorrect.thy ===== *)
theory NaslCorrect
  imports NaslLib NaslMono
begin

text \<open>
  What the NASL interpreter does: scripts keep the variables of the store in order, assignments are
  read back, comparisons and powers are what they should be and where they are not, and the nodes on
  which the interpreter does not end or uses freed memory.
\<close>

subsection \<open>Scripts\<close>

lemma set_global_keeps:
  assumes "store_ok F \<sigma>" and "set_global name val \<sigma> = Fin \<sigma>'"
  shows "keeps F \<sigma> \<sigma>'"
proof -
  obtain x c \<tau> where d: "add_named_var_to_ctxt 1 (lexic \<sigma>) name val \<sigma> = Fin (x, c, \<tau>)" "\<sigma>' = upd_lexic (\<lambda>_. c) \<tau>"
    using assms(2) by (auto simp: set_global_def andthen_Fin)
  have l: "ns_ctxts \<sigma> = [] @ lexic \<sigma> # tl (ns_ctxts \<sigma>)" using store_ok_ctxts [OF assms(1)] by simp
  have "ctxt_ok (lexic \<sigma>)" using store_ok_lexic_vars [OF assms(1)] by (simp add: ctxt_ok_def)
  from add_named_keeps [OF assms(1) this d(1)] obtain N where
    n: "mset (kids (ctx_vars c)) = mset (kids (ctx_vars (lexic \<sigma>))) + N" "keeps (F + N) \<sigma> \<tau>" "ns_ctxts \<tau> = ns_ctxts \<sigma>" "ctxt_ok c" "grows (lexic \<sigma>) c"
    by blast
  have s: "\<sigma>' = \<tau>\<lparr>ns_ctxts := [] @ c # tl (ns_ctxts \<sigma>)\<rparr>"
    using d(2) l n(3) upd_lexic_replace [of \<tau> "lexic \<sigma>" "tl (ns_ctxts \<sigma>)"] by simp
  have "keeps F \<tau> \<sigma>'" unfolding s
    by (rule keeps_replace [OF keeps_ok [OF n(2)], of "[]" "lexic \<sigma>"]) (use n l in \<open>simp_all add: ac_simps\<close>)
  then show ?thesis using keeps_trans n(2) by blast
qed

lemma set_globals_keeps: "store_ok F \<sigma> \<Longrightarrow> set_globals xs \<sigma> = Fin \<sigma>' \<Longrightarrow> keeps F \<sigma> \<sigma>'"
proof (induction xs arbitrary: \<sigma>)
  case (Cons x xs)
  then obtain \<tau> where t: "set_global (fst x) (snd x) \<sigma> = Fin \<tau>" "set_globals xs \<tau> = Fin \<sigma>'" by (auto simp: andthen_Fin)
  note k = set_global_keeps [OF Cons.prems(1) t(1)]
  show ?case using keeps_trans [OF k Cons.IH [OF keeps_ok [OF k] t(2)]] .
qed (simp add: keeps_refl)

lemma lib_funcs_keeps: "store_ok F \<sigma> \<Longrightarrow> keeps F \<sigma> (fold lib_func fs \<sigma>)"
proof (induction fs arbitrary: \<sigma>)
  case (Cons f fs)
  have k: "keeps F \<sigma> (lib_func f \<sigma>)" using Cons.prems
    by (auto simp: lib_func_def Let_def keeps_refl add_func_keeps split: prod.split)
  show ?case using keeps_trans [OF k Cons.IH [OF keeps_ok [OF k]]] by simp
qed (simp add: keeps_refl)

lemma init_library_keeps:
  assumes "store_ok F \<sigma>" and "init_nasl_library fs vs ssh svs \<sigma> = Fin \<sigma>'"
  shows "keeps F \<sigma> \<sigma>'"
proof -
  note k = lib_funcs_keeps [OF assms(1), of fs]
  show ?thesis using keeps_trans [OF k set_globals_keeps [OF keeps_ok [OF k]]] assms(2) by (simp add: init_nasl_library_def)
qed

text \<open>The functions written in C, as the interpreter relies on them.\<close>

locale nasl_library =
  fixes funcs :: "string \<Rightarrow> nasl_state \<Rightarrow> (tree_cell \<times> nasl_state) run"
  assumes funcs_keep: "store_ok F \<sigma> \<Longrightarrow> run_keeps F \<sigma> (funcs name \<sigma>)"
begin

lemma env: "env_ok \<lparr>regexec = re, c_funcs = funcs\<rparr>"
  by (simp add: env_ok_def funcs_keep)

lemma exec_keeps: "store_ok F \<sigma> \<Longrightarrow> run_keeps F \<sigma> (nasl_exec n \<lparr>regexec = re, c_funcs = funcs\<rparr> t \<sigma>)"
  by (rule ex_okD [OF nasl_exec_ok [OF env]])

lemma script_keeps:
  assumes "store_ok F \<sigma>"
  shows "run_keeps F \<sigma> (exec_script n \<lparr>regexec = re, c_funcs = funcs\<rparr> name cl descr t \<sigma>)"
  unfolding exec_script_def Let_def
  by (rule rk_state [OF set_globals_keeps [OF assms]], assumption, rule rk_bind [OF exec_keeps], assumption)
    (simp add: rk rk_bind [OF nasl_func_call_keeps [OF env nasl_exec_ok [OF env]]] split: option.split)

end

text \<open>The modelled functions satisfy it, beside any others that do.\<close>

lemma builtin_library: "nasl_library rest \<Longrightarrow> nasl_library (builtin n rest)"
  unfolding nasl_library_def by (simp add: builtin_def builtin_keeps)

interpretation modelled: nasl_library "builtin n (\<lambda>_ \<sigma>. Fin (NULL, \<sigma>))" for n
  by (rule builtin_library) (simp add: nasl_library_def rk)

lemma start_ok: "store_ok {#} start_state"
  using kids_init(2) by (simp add: start_state_def store_ok_def held_ok_def owned_def roots_def shape_ok_def ctxt_ok_def)

text \<open>
  C3: a script of whatever tree, with any library of functions and constants, run from an empty
  context with the modelled builtin functions and any others that keep the store in order, leaves a
  store in order when it ends: every variable is held once, what is held is allocated, arrays are
  trees; and the names of the global context are still there.
\<close>

theorem script_keeps_store:
  assumes "\<forall>F name \<sigma>. store_ok F \<sigma> \<longrightarrow> run_keeps F \<sigma> (rest name \<sigma>)"
    and "init_nasl_library libfuncs libivars libssh libsvars start_state = Fin \<sigma>"
    and "exec_script n \<lparr>regexec = re, c_funcs = builtin m rest\<rparr> name cl descr tree \<sigma> = Fin (err, \<sigma>')"
  shows "store_ok {#} \<sigma>' \<and> list_all2 grows (ns_ctxts \<sigma>) (ns_ctxts \<sigma>') \<and> length (ns_ctxts \<sigma>') = 1"
proof -
  have r: "nasl_library rest" using assms(1) by (simp add: nasl_library_def)
  note i = init_library_keeps [OF start_ok assms(2)]
  have "list_all2 grows (ns_ctxts start_state) (ns_ctxts \<sigma>)" using i by (simp add: keeps_def)
  then have "length (ns_ctxts \<sigma>) = 1" by (auto simp: start_state_def dest: list_all2_lengthD)
  moreover have "keeps {#} \<sigma> \<sigma>'"
    using run_keepsD [OF nasl_library.script_keeps [OF builtin_library [OF r] keeps_ok [OF i]] assms(3)] .
  ultimately show ?thesis by (auto simp: keeps_def dest: list_all2_lengthD)
qed

text \<open>A script that makes a list and assigns it.\<close>

theorem script_keeps_store_witness:
  "\<exists>\<sigma> \<sigma>'. init_nasl_library [(''make_list'', 2, [])] [(''IPPROTO_TCP'', 6)] (Some True) [] start_state = Fin \<sigma>
     \<and> exec_script 6 \<lparr>regexec = \<lambda>_ _. 0, c_funcs = builtin 1 (\<lambda>_ \<sigma>. Fin (NULL, \<sigma>))\<rparr> ''a/b.nasl'' False True
         (NODE_AFF (NODE_VAR ''x'') (NODE_FUN_CALL ''make_list'' (NODE_ARG None (CONST_INT 7) NULL))) \<sigma> = Fin (0, \<sigma>')
     \<and> store_ok {#} \<sigma>'"
proof -
  let ?tree = "NODE_AFF (NODE_VAR ''x'') (NODE_FUN_CALL ''make_list'' (NODE_ARG None (CONST_INT 7) NULL))"
  let ?run = "exec_script 6 \<lparr>regexec = \<lambda>_ _. 0, c_funcs = builtin 1 (\<lambda>_ \<sigma>. Fin (NULL, \<sigma>))\<rparr> ''a/b.nasl'' False True ?tree"
  have "case init_nasl_library [(''make_list'', 2, [])] [(''IPPROTO_TCP'', 6)] (Some True) [] start_state of
      Fin \<sigma> \<Rightarrow> (case ?run \<sigma> of Fin (e, \<sigma>') \<Rightarrow> e = 0 | _ \<Rightarrow> False) | _ \<Rightarrow> False"
    by code_simp
  then obtain \<sigma> \<sigma>' where i: "init_nasl_library [(''make_list'', 2, [])] [(''IPPROTO_TCP'', 6)] (Some True) [] start_state = Fin \<sigma>"
    and r: "?run \<sigma> = Fin (0, \<sigma>')"
    by (auto split: run.splits)
  have "store_ok {#} \<sigma>'" using script_keeps_store [OF _ i r] by (simp add: rk)
  then show ?thesis using i r by blast
qed

subsection \<open>Comparison and powers\<close>

lemma mod_eq_shift: "0 \<le> a - k * m \<Longrightarrow> a - k * m < m \<Longrightarrow> a mod m = a - k * m" for a k m :: int
  by (metis minus_mod_eq_mult_div mod_mult_self1 mod_pos_pos_trivial mult.commute diff_add_cancel)

text \<open>
  C34: integers are compared by the sign of their difference, which is taken in 32 bits: the
  comparison is the order of the integers exactly when the difference is one of an int.
\<close>

theorem int_compare_exact:
  "comp_holds COMP_LT (cmp_atoms (CONST_INT i) (CONST_INT j)) = (sint i < sint j)
   \<longleftrightarrow> - (2 ^ 31) \<le> sint i - sint j \<and> sint i - sint j < 2 ^ 31"
proof -
  have r: "- (2 ^ 31) \<le> sint w \<and> sint w < 2 ^ 31" for w :: i32
    using sint_ge [of w] sint_lt [of w] by simp
  have c: "cmp_atoms (CONST_INT i) (CONST_INT j) = sint (i - j)" by (simp add: cmp_atoms_def cmp_type_def)
  let ?d = "sint i - sint j"
  have "i - j = word_of_int ?d" by simp
  then have s: "sint (i - j) = (?d + 2 ^ 31) mod 2 ^ 32 - 2 ^ 31"
    by (simp only: sint_sbintrunc') (simp add: signed_take_bit_eq_take_bit_shift take_bit_eq_mod)
  consider "?d < - (2 ^ 31)" | "- (2 ^ 31) \<le> ?d \<and> ?d < 2 ^ 31" | "?d \<ge> 2 ^ 31" by linarith
  then show ?thesis
  proof cases
    case 1
    then have "(?d + 2 ^ 31) mod 2 ^ 32 = ?d + 2 ^ 31 + 2 ^ 32" using r [of i] r [of j] mod_eq_shift [of "?d + 2 ^ 31" "- 1" "2 ^ 32"] by simp
    then show ?thesis using 1 s r [of i] r [of j] unfolding c comp_holds.simps by auto
  next
    case 2
    then have "(?d + 2 ^ 31) mod 2 ^ 32 = ?d + 2 ^ 31" by (intro mod_pos_pos_trivial) auto
    then show ?thesis using 2 s unfolding c comp_holds.simps by auto
  next
    case 3
    then have "(?d + 2 ^ 31) mod 2 ^ 32 = ?d + 2 ^ 31 - 2 ^ 32" using r [of i] r [of j] mod_eq_shift [of "?d + 2 ^ 31" 1 "2 ^ 32"] by simp
    then show ?thesis using 3 s r [of i] r [of j] unfolding c comp_holds.simps by auto
  qed
qed

text \<open>Bytes of the same number, in the order of the first ones that differ.\<close>

abbreviation byte_less :: "(char \<times> char) set" where
  "byte_less \<equiv> {(a, b). ccode a < ccode b}"

lemma memcmp_eq: "length s = length t \<Longrightarrow> memcmp s t = 0 \<longleftrightarrow> s = t"
  by (induction s t rule: list_induct2) auto

lemma lexord_take:
  "(s, t) \<in> lexord byte_less \<longleftrightarrow> (let m = min (length s) (length t) in memcmp (take m s) (take m t) < 0 \<or> (memcmp (take m s) (take m t) = 0 \<and> length s < length t))"
proof (induction s t rule: memcmp.induct)
  case (1 a as b bs)
  then show ?case by (auto simp: Let_def)
qed (auto simp: Let_def neq_Nil_conv)


lemma nat_halves: "0 \<le> n \<Longrightarrow> nat n = nat (n div 2) + nat (n div 2) + nat (n mod 2)" for n :: int
  by (simp flip: nat_add_distrib add: pos_imp_zdiv_nonneg_iff)

text \<open>
  C30: the power by repeated squaring is the power of the base in 32 bits for every exponent that is
  not negative; for a negative one it is 1 for base 1 and else 0.
\<close>

theorem expo_power:
  "expo x y = (if sint y \<ge> 0 then x ^ nat (sint y) else if x = 1 then 1 else 0)"
proof (induction x y rule: expo.induct)
  case (1 x y)
  show ?case
  proof (cases "sint y < 0 \<or> y = 0 \<or> y = 1")
    case True
    then show ?thesis by (auto simp: expo.simps [of x y])
  next
    case False
    let ?h = "word_of_int (sint y div 2) :: i32"
    have "sint y < 2 ^ 31" using sint_lt [of y] by simp
    then have h: "sint ?h = sint y div 2" using False
      by (intro trans [OF sint_sbintrunc' signed_take_bit_int_eq_self]) auto
    have z: "expo x ?h = x ^ nat (sint y div 2)" using 1 [of] False h by simp
    have n: "nat (sint y) = nat (sint y div 2) + nat (sint y div 2) + nat (sint y mod 2)" using nat_halves [of "sint y"] False by linarith
    show ?thesis
    proof (cases "sint y mod 2 = 0")
      case True
      then show ?thesis using False z n by (simp add: expo.simps [of x y] Let_def power_add)
    next
      case odd: False
      then have "sint y mod 2 = 1" by simp
      then show ?thesis using False z n odd by (simp add: expo.simps [of x y] Let_def power_add)
    qed
  qed
qed

subsection \<open>Variables\<close>

text \<open>Nothing stands in the way of execution in the current context.\<close>

definition live_ctxt :: "nasl_state \<Rightarrow> bool" where
  "live_ctxt \<sigma> \<longleftrightarrow> ret_val (lexic \<sigma>) = NULL \<and> \<not> break_flag (lexic \<sigma>) \<and> \<not> cont_flag (lexic \<sigma>)"

lemma nasl_exec_live: "live_ctxt \<sigma> \<Longrightarrow> nasl_exec (Suc n) env t \<sigma> = exec_node env (nasl_exec n env) n t \<sigma>"
  by (simp add: live_ctxt_def)

text \<open>The name \<open>x\<close> stands for the variable at \<open>p\<close>.\<close>

definition in_scope :: "string \<Rightarrow> addr \<Rightarrow> nasl_state \<Rightarrow> bool" where
  "in_scope x p \<sigma> \<longleftrightarrow> c_str x \<noteq> FCT_ANON_ARGS \<and> climb_ctxts (c_str x) (ns_ctxts \<sigma>) = Some p"

lemma in_scope_ref: "in_scope x p \<sigma> \<Longrightarrow> get_var_ref_by_name x True \<sigma> = (p, \<sigma>)"
  by (simp add: in_scope_def get_var_ref_by_name_def)

lemma exec_scope: "in_scope x p \<sigma> \<Longrightarrow> live_ctxt \<sigma> \<Longrightarrow> nasl_exec (Suc n) env (NODE_VAR x) \<sigma> = Fin (REF_VAR (Some p), \<sigma>)"
  unfolding nasl_exec_live exec_node_def by (simp add: get_variable_by_name_def in_scope_ref) (simp add: in_scope_def)

lemma exec_const: "live_ctxt \<sigma> \<Longrightarrow> elem_value c \<noteq> VAR2_UNDEF \<Longrightarrow> nasl_exec (Suc n) env c \<sigma> = Fin (c, \<sigma>)"
  unfolding nasl_exec_live exec_node_def by (cases c) simp_all

lemma free_vars_gone:
  "free_vars n ps \<sigma> = Fin \<sigma>' \<Longrightarrow> (\<forall>q \<in> set ps. ns_heap \<sigma>' q = None) \<and> (\<forall>q. ns_heap \<sigma>' q = None \<or> ns_heap \<sigma>' q = ns_heap \<sigma> q)"
proof (induction n arbitrary: ps \<sigma>)
  case (Suc n)
  show ?case
  proof (cases ps)
    case (Cons p qs)
    then obtain v where v: "free_vars n (var_kids v @ qs) (\<sigma>\<lparr>ns_heap := (ns_heap \<sigma>)(p := None)\<rparr>) = Fin \<sigma>'"
      using Suc.prems by (auto split: option.splits)
    have g: "\<forall>q \<in> set (var_kids v @ qs). ns_heap \<sigma>' q = None"
      "\<And>q. ns_heap \<sigma>' q = None \<or> ns_heap \<sigma>' q = (if q = p then None else ns_heap \<sigma> q)"
      using Suc.IH [OF v] by (auto split: if_splits)
    have "ns_heap \<sigma>' p = None" using g(2) [of p] by simp
    moreover have "ns_heap \<sigma>' q = None \<or> ns_heap \<sigma>' q = ns_heap \<sigma> q" for q using g(2) [of q] by (simp split: if_splits)
    ultimately show ?thesis using g(1) Cons by simp
  qed (use Suc.prems in simp)
qed simp

text \<open>The assignment of a value that is no array.\<close>

lemma assign_atom:
  assumes "store_ok F \<sigma>" and "ns_heap \<sigma> p = Some v0" and "var_kids v = []" and "var_ok v"
  shows "\<exists>\<sigma>'. assign (\<lambda>\<sigma>. Fin (set_var p v \<sigma>)) p \<sigma> = Fin (FAKE_CELL, \<sigma>') \<and> ns_ctxts \<sigma>' = ns_ctxts \<sigma> \<and> ns_heap \<sigma>' p = Some v
    \<and> (\<forall>q \<in> set (var_kids v0). ns_heap \<sigma>' q = None)
    \<and> (\<forall>c \<in> set (ns_ctxts \<sigma>). \<forall>q \<in> set (kids (ctx_vars c)). q \<noteq> p \<longrightarrow> ns_heap \<sigma>' q = ns_heap \<sigma> q)"
proof -
  let ?t = "set_var p v \<sigma>"
  have t: "store_ok (F + mset (var_kids v0)) ?t" by (rule store_ok_set [OF assms(1,2)]) (use assms in simp_all)
  obtain \<sigma>' where f: "free_vars (Suc (ns_next ?t)) (var_kids v0) ?t = Fin \<sigma>'" using free_vars_total [OF t free_enough [OF t]] by blast
  note o = free_vars_ok [OF t f] and g = free_vars_gone [OF f]
  have "\<forall>q \<in> set (var_kids v0). p < q" using assms(1,2) by (auto simp: store_ok_def shape_ok_def)
  then have p: "ns_heap \<sigma>' p = Some v" using free_vars_above [OF _ _ f, of p p] t by (simp add: store_ok_def set_var_def)
  have c: "ns_ctxts \<sigma>' = ns_ctxts \<sigma>" using o by (simp add: set_var_def)
  have "ns_heap \<sigma>' q = ns_heap \<sigma> q" if a: "c \<in> set (ns_ctxts \<sigma>)" "q \<in> set (kids (ctx_vars c))" "q \<noteq> p" for c q
  proof -
    obtain u where "ns_heap \<sigma>' q = Some u" using root_live [of F \<sigma>' c q] o c a by auto
    then show ?thesis using conjunct2 [OF g, rule_format, of q] a(3) by (simp add: set_var_def)
  qed
  then show ?thesis using assms(2) f p c g by (simp add: assign_def del: free_vars.simps)
qed

lemma ref_in_scope:
  assumes "store_ok F \<sigma>" and "c_str x \<noteq> FCT_ANON_ARGS"
  shows "\<exists>p \<tau> v. get_var_ref_by_name x True \<sigma> = (p, \<tau>) \<and> in_scope x p \<tau> \<and> store_ok F \<tau> \<and> ns_heap \<tau> p = Some v
    \<and> (live_ctxt \<tau> \<longleftrightarrow> live_ctxt \<sigma>) \<and> (\<forall>q v. ns_heap \<sigma> q = Some v \<longrightarrow> ns_heap \<tau> q = Some v)
    \<and> (\<forall>c \<in> set (ns_ctxts \<sigma>). \<exists>c' \<in> set (ns_ctxts \<tau>). set (kids (ctx_vars c)) \<subseteq> set (kids (ctx_vars c')))"
proof -
  obtain p \<tau> where r: "get_var_ref_by_name x True \<sigma> = (p, \<tau>)" by fastforce
  note k = get_var_ref_keeps [OF assms(1) r]
  show ?thesis
  proof (cases "climb_ctxts (c_str x) (ns_ctxts \<sigma>)")
    case (Some q)
    then have "\<tau> = \<sigma>" "q = p" using r by (auto simp: get_var_ref_by_name_def)
    then show ?thesis using r k assms Some by (auto simp: in_scope_def)
  next
    case None
    obtain c cs where c: "ns_ctxts \<sigma> = c # cs" using store_ok_ctxts [OF assms(1)] by blast
    have ok: "array_ok (ctx_vars c)" using store_ok_lexic_vars [OF assms(1)] c by (simp add: lexic_def)
    let ?c = "c\<lparr>ctx_vars := push_name (ctx_vars c) (c_str x) p\<rparr>"
    have t: "p = ns_next \<sigma>" "ns_ctxts \<tau> = ?c # cs" "ns_heap \<tau> = (ns_heap \<sigma>)(p \<mapsto> VAR2_UNDEF)"
      using r None c by (auto simp: get_var_ref_by_name_def alloc_var_def upd_lexic_def Let_def)
    have h: "hash_str (c_str x) < VAR_NAME_HASH" by (simp add: hash_str_def hash_str2_def VAR_NAME_HASH_def)
    have "find_name (c_str x) ?c = Some p"
      using h ok by (auto simp: find_name_def push_name_def Let_def chains_def array_ok_def split: option.splits)
    then have s: "in_scope x p \<tau>" using t assms(2) by (simp add: in_scope_def)
    have "\<forall>q v. ns_heap \<sigma> q = Some v \<longrightarrow> q \<noteq> p" using store_ok_dom [OF assms(1)] t(1) by auto
    moreover have "set (kids (ctx_vars c)) \<subseteq> set (kids (ctx_vars ?c))"
      using arg_cong [OF kids_push [OF ok, of "c_str x" p], of set_mset] by auto
    ultimately show ?thesis using r s k t c
      by (intro exI [of _ p] exI [of _ \<tau>] exI [of _ VAR2_UNDEF]) (auto simp: live_ctxt_def lexic_def keeps_ok)
  qed
qed

text \<open>
  C13: after a constant was assigned to a name that need not exist before, the name stands for a
  variable that holds the constant and evaluating it gives the constant back; all variables of all
  contexts but this one keep their values, also when the old value was an array that is freed.
\<close>

theorem assigned_value_is_read:
  assumes "store_ok F \<sigma>" and "live_ctxt \<sigma>" and "c_str x \<noteq> FCT_ANON_ARGS" and "elem_value c \<noteq> VAR2_UNDEF" and "c \<noteq> CONST_STR None"
  shows "\<exists>p \<sigma>'. nasl_exec (Suc (Suc n)) env (NODE_AFF (NODE_VAR x) c) \<sigma> = Fin (c, \<sigma>') \<and> in_scope x p \<sigma>'
    \<and> cell2atom (nasl_exec (Suc n) env) 3 (NODE_VAR x) \<sigma>' = Fin (c, \<sigma>')
    \<and> (\<forall>d \<in> set (ns_ctxts \<sigma>). \<forall>q \<in> set (kids (ctx_vars d)). q \<noteq> p \<longrightarrow> ns_heap \<sigma>' q = ns_heap \<sigma> q)"
proof -
  obtain p \<tau> v0 where t: "get_var_ref_by_name x True \<sigma> = (p, \<tau>)" "in_scope x p \<tau>" "store_ok F \<tau>" "ns_heap \<tau> p = Some v0"
    "live_ctxt \<tau>" "\<forall>q v. ns_heap \<sigma> q = Some v \<longrightarrow> ns_heap \<tau> q = Some v"
    "\<forall>c \<in> set (ns_ctxts \<sigma>). \<exists>c' \<in> set (ns_ctxts \<tau>). set (kids (ctx_vars c)) \<subseteq> set (kids (ctx_vars c'))"
    using ref_in_scope [OF assms(1,3)] assms(2) by blast
  have v: "var_kids (elem_value c) = []" "var_ok (elem_value c)" by (cases c; simp)+
  obtain \<sigma>' where s: "assign (\<lambda>\<sigma>. Fin (set_var p (elem_value c) \<sigma>)) p \<tau> = Fin (FAKE_CELL, \<sigma>')" "ns_ctxts \<sigma>' = ns_ctxts \<tau>"
    "ns_heap \<sigma>' p = Some (elem_value c)"
    "\<forall>c \<in> set (ns_ctxts \<tau>). \<forall>q \<in> set (kids (ctx_vars c)). q \<noteq> p \<longrightarrow> ns_heap \<sigma>' q = ns_heap \<tau> q"
    using assign_atom [OF t(3,4) v] by blast
  have i: "in_scope x p \<sigma>'" "live_ctxt \<sigma>'" using t(2,5) s(2) by (simp_all add: in_scope_def live_ctxt_def lexic_def)
  have l: "nasl_exec (Suc n) env (NODE_VAR x) \<sigma> = Fin (REF_VAR (Some p), \<tau>)"
    unfolding nasl_exec_live [OF assms(2)] exec_node_def using t(1) assms(3) by (simp add: get_variable_by_name_def)
  have "affect_to_anon_var n' (Some p) c \<tau> = Fin (FAKE_CELL, \<sigma>')" for n'
    using s(1) t(4) assms(4) by (cases c) (simp_all add: affect_to_anon_var_def is_void_def)
  then have "nasl_exec (Suc (Suc n)) env (NODE_AFF (NODE_VAR x) c) \<sigma> = Fin (c, \<sigma>')"
    unfolding nasl_exec_live [OF assms(2)] exec_node_def
    using l exec_const [OF t(5) assms(4), of n env] by (simp add: exec_aff_def nasl_affect_def del: nasl_exec.simps)
  moreover have "nasl_read_var_ref (REF_VAR (Some p)) \<sigma>' = Fin c"
    using s(3) assms(4,5) by (cases c) (simp_all add: nasl_read_var_ref_def split: option.split)
  then have "nasl_exec (Suc n) env (REF_VAR (Some p)) \<sigma>' = Fin (c, \<sigma>')"
    unfolding nasl_exec_live [OF i(2)] exec_node_def by simp
  then have "cell2atom (nasl_exec (Suc n) env) 3 (NODE_VAR x) \<sigma>' = Fin (c, \<sigma>')"
    using exec_scope [OF i, of n env] assms(4) by (cases c) (simp_all add: numeral_3_eq_3 nasl_is_leaf_def del: nasl_exec.simps)
  moreover have "ns_heap \<sigma>' q = ns_heap \<sigma> q" if d: "d \<in> set (ns_ctxts \<sigma>)" "q \<in> set (kids (ctx_vars d))" "q \<noteq> p" for d q
  proof -
    obtain w where "ns_heap \<sigma> q = Some w" using root_live [OF assms(1) d(1,2)] by blast
    then show ?thesis using t(6,7) s(4) d by (metis subsetD)
  qed
  ultimately show ?thesis using i(1) by blast
qed


text \<open>A state in which \<open>x\<close> is an array with one element.\<close>

definition array_state :: nasl_state where
  "array_state = \<lparr>ns_ctxts = [init_empty_lex_ctxt\<lparr>ctx_vars := push_name (ctx_vars init_empty_lex_ctxt) ''x'' 0\<rparr>],
     ns_heap = [0 \<mapsto> VAR2_ARRAY \<lparr>num_elt = [Some 1], hash_elt = None\<rparr>, 1 \<mapsto> VAR2_INT 7], ns_next = 2, ns_len = 0\<rparr>"

lemma array_state_live: "live_ctxt array_state"
  by (simp add: live_ctxt_def array_state_def lexic_def init_empty_lex_ctxt_def)

lemma array_state_scope: "in_scope ''x'' 0 array_state"
  by code_simp

lemma array_state_ok: "store_ok {#} array_state"
proof -
  have a: "array_ok (ctx_vars init_empty_lex_ctxt)" using kids_init(2) by (simp add: ctxt_ok_def)
  have r: "roots array_state = {#0#}" using kids_push [OF a, of "''x''" 0] by (simp add: roots_def array_state_def)
  have "(\<Sum>p < 2. kids_at (ns_heap array_state) p) = {#1#}"
    by (simp add: numeral_2_eq_2 kids_at_def array_state_def var_kids_def kids_def)
  then have "owned {#} array_state = {#0, 1#}" using r by (simp add: owned_def) (simp add: array_state_def)
  moreover have "shape_ok array_state" using push_ok [OF a, of "''x''" 0]
    by (auto simp: shape_ok_def array_state_def var_ok_def array_ok_def [of "\<lparr>num_elt = _, hash_elt = _\<rparr>"] var_kids_def kids_def [of "\<lparr>num_elt = _, hash_elt = _\<rparr>"])
  ultimately show ?thesis by (simp add: store_ok_def held_ok_def) (simp add: array_state_def)
qed


theorem assigned_value_is_read_witness:
  "\<exists>p \<sigma>'. nasl_exec (Suc (Suc 1)) \<lparr>regexec = \<lambda>_ _. 0, c_funcs = \<lambda>_ _. Abort\<rparr> (NODE_AFF (NODE_VAR ''x'') (CONST_INT 5)) array_state
      = Fin (CONST_INT 5, \<sigma>') \<and> in_scope ''x'' p \<sigma>'"
  using assigned_value_is_read [OF array_state_ok array_state_live, of "''x''" "CONST_INT 5" 1]
  by (simp add: c_str_def FCT_ANON_ARGS_def del: nasl_exec.simps) blast

text \<open>
  C35: an assignment evaluates its left side first and keeps a pointer to the variable. When the
  right side assigns a constant to the array that the left side is an element of, the element is
  freed before it is written: \<open>x[i] = (x = c)\<close> writes to freed memory.
\<close>

theorem element_of_reassigned_array:
  assumes "store_ok F \<sigma>" and "live_ctxt \<sigma>" and "in_scope x p \<sigma>" and "ns_heap \<sigma> p = Some (VAR2_ARRAY a)"
    and "0 \<le> sint i" and "nat (sint i) < length (num_elt a)" and "num_elt a ! nat (sint i) = Some q" and "elem_value c \<noteq> VAR2_UNDEF"
  shows "nasl_exec (Suc (Suc (Suc n))) env (NODE_AFF (NODE_ARRAY_EL x (CONST_INT i)) (NODE_AFF (NODE_VAR x) c)) \<sigma> = Abort"
proof -
  have v: "var_kids (elem_value c) = []" "var_ok (elem_value c)" by (cases c; simp)+
  obtain \<sigma>' where s: "assign (\<lambda>\<sigma>. Fin (set_var p (elem_value c) \<sigma>)) p \<sigma> = Fin (FAKE_CELL, \<sigma>')"
    "\<forall>q \<in> set (kids a). ns_heap \<sigma>' q = None"
    using assign_atom [OF assms(1,4) v] by (auto simp: var_kids_def)
  have "q \<in> set (kids a)" using assms(6,7) nth_mem [of "nat (sint i)" "num_elt a"] by (auto simp: kids_def intro!: bexI [of _ "Some q"])
  then have q: "ns_heap \<sigma>' q = None" using s(2) by blast
  have same: "set_var p (VAR2_ARRAY a) \<sigma> = \<sigma>" using assms(4) by (simp add: set_var_def fun_upd_idem)
  have "get_array_elem x (CONST_INT i) \<sigma> = Fin (REF_VAR (Some q), \<sigma>)"
    using in_scope_ref [OF assms(3)] assms(3-7) same
    by (simp add: get_array_elem_def in_scope_def array_elem_def nasl_get_var_by_num_def Let_def)
  then have l: "nasl_exec (Suc (Suc n)) env (NODE_ARRAY_EL x (CONST_INT i)) \<sigma> = Fin (REF_VAR (Some q), \<sigma>)"
    unfolding nasl_exec_live [OF assms(2)] exec_node_def by (simp add: nasl_is_leaf_def)
  have "affect_to_anon_var k (Some p) c \<sigma> = Fin (FAKE_CELL, \<sigma>')" for k
    using s(1) assms(4,8) by (cases c) (simp_all add: affect_to_anon_var_def is_void_def)
  then have "nasl_exec (Suc (Suc n)) env (NODE_AFF (NODE_VAR x) c) \<sigma> = Fin (c, \<sigma>')"
    unfolding nasl_exec_live [OF assms(2)] exec_node_def
    using exec_scope [OF assms(3,2), of n env] exec_const [OF assms(2,8), of n env] by (simp add: exec_aff_def nasl_affect_def del: nasl_exec.simps)
  then show ?thesis
    unfolding nasl_exec_live [OF assms(2), of "Suc (Suc n)"] exec_node_def
    using l q by (simp add: exec_aff_def nasl_affect_def affect_to_anon_var_def del: nasl_exec.simps)
qed

theorem element_of_reassigned_array_witness:
  "nasl_exec (Suc (Suc (Suc 2))) \<lparr>regexec = \<lambda>_ _. 0, c_funcs = \<lambda>_ _. Abort\<rparr>
     (NODE_AFF (NODE_ARRAY_EL ''x'' (CONST_INT 0)) (NODE_AFF (NODE_VAR ''x'') (CONST_INT 5))) array_state = Abort"
  by (rule element_of_reassigned_array [OF array_state_ok array_state_live array_state_scope, of "\<lparr>num_elt = [Some 1], hash_elt = None\<rparr>" 0 1])
    (simp_all add: array_state_def)

lemma upd_lexic_length [simp]: "length (ns_ctxts (upd_lexic f \<sigma>)) = length (ns_ctxts \<sigma>)"
  by (simp add: upd_lexic_def split: list.split)

lemma get_int_length: "get_int_var_by_num i d \<sigma> = Fin (x, \<sigma>') \<Longrightarrow> length (ns_ctxts \<sigma>') = length (ns_ctxts \<sigma>)"
  by (auto simp: get_int_var_by_num_def get_var_ref_by_num_def alloc_var_def Let_def andthen_Fin split: if_splits option.splits)



text \<open>
  A copy of an array has the named elements of each chain in the opposite order. A name that
  occurs twice, as after \<open>make_array\<close> with a key given twice, therefore stands for the other element
  in the copy.
\<close>

theorem copy_reverses_chains:
  assumes "store_ok F \<sigma>" and "ns_heap \<sigma> q = Some (VAR2_ARRAY a)" and "ns_heap \<sigma> p = Some v0" and "p \<noteq> q"
    and "affect_to_anon_var (Suc n) (Some p) (REF_VAR (Some q)) \<sigma> = Fin (r, \<sigma>')"
  shows "\<exists>b. ns_heap \<sigma>' p = Some (VAR2_ARRAY b) \<and> reversed_names a b"
proof -
  obtain \<tau> where t: "copy_array (copy_anon_var n) p a True \<sigma> = Fin \<tau>" "free_vars (Suc (ns_next \<tau>)) (var_kids v0) \<tau> = Fin \<sigma>'"
    using assms(2-5) by (auto simp: affect_to_anon_var_def is_void_def assign_def andthen_Fin simp del: free_vars.simps)
  note c = copy_array_ok [OF copy_anon_var_ok assms(1,3) store_ok_array(1) [OF assms(1,2)] t(1)]
  then obtain b where b: "ns_heap \<tau> p = Some (VAR2_ARRAY b)" "reversed_names a b" by auto
  have "\<forall>r \<in> set (var_kids v0). p < r" using assms(1,3) by (auto simp: store_ok_def shape_ok_def)
  then have "ns_heap \<sigma>' p = ns_heap \<tau> p" using free_vars_above [OF _ _ t(2), of p p] c by (simp add: store_ok_def)
  then show ?thesis using b by simp
qed

text \<open>The value under a name of the array at \<open>p\<close>.\<close>

definition named_value :: "nasl_state \<Rightarrow> addr \<Rightarrow> string \<Rightarrow> anon_nasl_var option" where
  "named_value \<sigma> p s =
     (case ns_heap \<sigma> p of
        Some (VAR2_ARRAY a) \<Rightarrow> (case map_of (chains a ! hash_str s) s of Some q \<Rightarrow> ns_heap \<sigma> q | None \<Rightarrow> None)
      | _ \<Rightarrow> None)"

text \<open>The array of \<open>make_array ("a", 1, "a", 2)\<close> and its copy differ in the value of \<open>a\<close>.\<close>

theorem copy_reverses_chains_witness:
  "\<exists>\<sigma> \<sigma>' r a b. ns_heap \<sigma> 0 = Some (VAR2_ARRAY a) \<and> affect_to_anon_var (Suc 1) (Some 3) (REF_VAR (Some 0)) \<sigma> = Fin (r, \<sigma>')
     \<and> ns_heap \<sigma>' 3 = Some (VAR2_ARRAY b) \<and> reversed_names a b
     \<and> named_value \<sigma> 0 ''a'' = Some (VAR2_INT 2) \<and> named_value \<sigma>' 3 ''a'' = Some (VAR2_INT 1)"
proof -
  let ?m = "andthen (add_var_to_array 1 0 ''a'' (VAR2_INT 1) (snd (new_list start_state))) (add_var_to_array 1 0 ''a'' (VAR2_INT 2))"
  let ?t = "\<lambda>\<sigma>. snd (alloc_var VAR2_UNDEF \<sigma>)"
  have "case ?m of Fin \<sigma> \<Rightarrow> (case affect_to_anon_var 2 (Some 3) (REF_VAR (Some 0)) (?t \<sigma>) of
      Fin (r, \<sigma>') \<Rightarrow> named_value (?t \<sigma>) 0 ''a'' = Some (VAR2_INT 2) \<and> named_value \<sigma>' 3 ''a'' = Some (VAR2_INT 1) \<and> ns_heap (?t \<sigma>) 3 \<noteq> None
      | _ \<Rightarrow> False) | _ \<Rightarrow> False"
    by code_simp
  then obtain \<sigma> r \<sigma>' v where m: "?m = Fin \<sigma>" and f: "affect_to_anon_var (Suc 1) (Some 3) (REF_VAR (Some 0)) (?t \<sigma>) = Fin (r, \<sigma>')"
    and n: "named_value (?t \<sigma>) 0 ''a'' = Some (VAR2_INT 2)" "named_value \<sigma>' 3 ''a'' = Some (VAR2_INT 1)" "ns_heap (?t \<sigma>) 3 = Some v"
    by (auto simp: numeral_2_eq_2 split: run.splits)
  obtain \<tau> where a: "add_var_to_array 1 0 ''a'' (VAR2_INT 1) (snd (new_list start_state)) = Fin \<tau>"
    "add_var_to_array 1 0 ''a'' (VAR2_INT 2) \<tau> = Fin \<sigma>" using m by (auto simp: andthen_Fin)
  have "store_ok {#} (snd (new_list start_state))"
    using keeps_ok [OF new_list_keeps [OF start_ok, of "fst (new_list start_state)" "snd (new_list start_state)"]] by simp
  then have "store_ok {#} \<sigma>" using keeps_ok [OF add_array_keeps] a atom_kids(4) by meson
  then have k: "store_ok {#} (?t \<sigma>)"
    using store_ok_weaken [OF store_ok_alloc(1) [of "{#}" \<sigma> VAR2_UNDEF "fst (alloc_var VAR2_UNDEF \<sigma>)" "?t \<sigma>"]] by simp
  obtain x where x: "ns_heap (?t \<sigma>) 0 = Some (VAR2_ARRAY x)" using n(1) by (auto simp: named_value_def split: option.splits anon_nasl_var.splits)
  have "\<exists>b. ns_heap \<sigma>' 3 = Some (VAR2_ARRAY b) \<and> reversed_names x b" by (rule copy_reverses_chains [OF k x n(3) _ f]) simp
  then show ?thesis using x f n by blast
qed

end
