(* ===== verification/NaslText.thy ===== *)
theory NaslText
  imports NaslVar
begin

text \<open>
  The buffer of \<open>array2str\<close>: lists of integers fit and are written completely; a long name makes it
  write behind the buffer.
\<close>

subsection \<open>The text of an array\<close>



text \<open>A buffer that is in order: the text ends inside of it.\<close>

definition buf_ok :: "buf2str \<Rightarrow> bool" where
  "buf_ok b \<longleftrightarrow> b_n b = length (b_txt b) \<and> b_n b < b_len b"

lemma put_fits:
  assumes "b_n b = length (b_txt b)" and "b_n b + length t < b_len b"
  shows "put_text (b_len b - b_n b) t id b = Fin (b\<lparr>b_txt := b_txt b @ t, b_n := b_n b + length t\<rparr>)"
    and "put_all t b = Fin (b\<lparr>b_txt := b_txt b @ t, b_n := b_n b + length t\<rparr>)"
proof -
  have "min (b_len b - b_n b - 1) (length t) = length t" using assms(2) by simp
  then show "put_text (b_len b - b_n b) t id b = Fin (b\<lparr>b_txt := b_txt b @ t, b_n := b_n b + length t\<rparr>)"
    "put_all t b = Fin (b\<lparr>b_txt := b_txt b @ t, b_n := b_n b + length t\<rparr>)"
    using assms by (simp_all add: put_text_def put_all_def)
qed

definition item :: "nat \<Rightarrow> i32 \<Rightarrow> string" where
  "item j i = int_text (int j) @ '': '' @ int_text (sint i)"

lemma elem_int:
  assumes "buf_ok b" and "j < 2 ^ 31"
  shows "\<exists>b'. elem2str (int_text (int j)) 0 False (VAR2_INT i) b = Fin b' \<and> buf_ok b' \<and> b_any b'
    \<and> b_txt b' = b_txt b @ (if b_any b then '', '' else []) @ item j i"
proof -
  have l: "length (int_text (int j)) \<le> 11" "length (int_text (sint i)) \<le> 11"
    using int_text_length [of "int j"] int_text_length [of "sint i"] assms(2) sint_ge [of i] sint_lt [of i] by auto
  define b0 where "b0 = (if b_n b + 80 \<ge> b_len b then b\<lparr>b_len := b_len b + 80\<rparr> else b)"
  define t where "t = (if b_any b then '', '' else [])"
  define c where "c = b0\<lparr>b_txt := b_txt b @ t, b_n := b_n b + length t, b_any := True\<rparr>"
  have b: "b_n b0 = length (b_txt b0)" "b_txt b0 = b_txt b" "b_any b0 = b_any b" "b_n b0 + 80 < b_len b0" "b_n b0 = b_n b"
    using assms(1) by (auto simp: buf_ok_def b0_def)
  have k: "length t \<le> 2" "length (item j i) \<le> 24" using l by (simp_all add: item_def t_def)
  have e: "elem2str (int_text (int j)) 0 False (VAR2_INT i) b =
      andthen (if b_any b0 then put_all '', '' b0 else Fin b0) (\<lambda>b. put_text (b_len (b\<lparr>b_any := True\<rparr>) - b_n (b\<lparr>b_any := True\<rparr>)) (item j i) id (b\<lparr>b_any := True\<rparr>))"
    by (simp add: elem2str_def Let_def b0_def item_def)
  have "(if b_any b0 then put_all '', '' b0 else Fin b0) = Fin (b0\<lparr>b_txt := b_txt b @ t, b_n := b_n b + length t\<rparr>)"
    using put_fits(2) [of b0 "'', ''"] b by (simp add: t_def)
  then have "elem2str (int_text (int j)) 0 False (VAR2_INT i) b = put_text (b_len c - b_n c) (item j i) id c" unfolding e by (simp add: c_def)
  also have "\<dots> = Fin (c\<lparr>b_txt := b_txt c @ item j i, b_n := b_n c + length (item j i)\<rparr>)"
    using b k by (intro put_fits(1)) (simp_all add: c_def)
  finally show ?thesis using b k by (simp add: c_def buf_ok_def t_def)
qed

text \<open>The items with their separators.\<close>

primrec items :: "bool \<Rightarrow> nat \<Rightarrow> i32 list \<Rightarrow> string" where
  "items any j [] = []"
| "items any j (i # is) = (if any then '', '' else []) @ item j i @ items True (Suc j) is"

lemma nums_int:
  "buf_ok b \<Longrightarrow> j + length ps \<le> 2 ^ 31 \<Longrightarrow> list_all2 (\<lambda>p i. ns_heap \<sigma> p = Some (VAR2_INT i)) ps is
   \<Longrightarrow> \<exists>b'. nums2str j (map Some ps) \<sigma> b = Fin b' \<and> buf_ok b' \<and> b_txt b' = b_txt b @ items (b_any b) j is"
proof (induction ps arbitrary: b j "is")
  case (Cons p ps)
  then obtain i ks where i: "is = i # ks" "ns_heap \<sigma> p = Some (VAR2_INT i)" "list_all2 (\<lambda>p i. ns_heap \<sigma> p = Some (VAR2_INT i)) ps ks"
    by (auto simp: list_all2_Cons1)
  obtain b1 where b1: "elem2str (int_text (int j)) 0 False (VAR2_INT i) b = Fin b1" "buf_ok b1" "b_any b1"
    "b_txt b1 = b_txt b @ (if b_any b then '', '' else []) @ item j i" using elem_int [OF Cons.prems(1), of j i] Cons.prems(2) by auto
  from Cons.IH [OF b1(2) _ i(3), of "Suc j"] Cons.prems(2) obtain b2 where
    "nums2str (Suc j) (map Some ps) \<sigma> b1 = Fin b2" "buf_ok b2" "b_txt b2 = b_txt b1 @ items (b_any b1) (Suc j) ks" by auto
  then show ?case using b1 i by auto
qed auto



end
